(* ===== verification/Prelude.thy ===== *)
theory Prelude
  imports Main "HOL-Library.Word"
begin

text \<open>
  Shared vocabulary of the development: the machine integer types of the C code, the outcome
  type that every fallible routine returns, the printf fragments the diagnostics use, and the
  generic lemmas on them. The collections \<open>outcome_simps\<close> and \<open>frame_simps\<close> gather the facts
  that component proofs hand to \<open>simp\<close>.
\<close>

unbundle bit_operations_syntax

named_theorems outcome_simps \<open>elimination of binds over outcomes\<close>
named_theorems frame_simps \<open>fields an operation leaves unchanged\<close>

section \<open>Machine integers\<close>

type_synonym u8 = "8 word"
type_synonym u32 = "32 word"
type_synonym u64 = "64 word"

text \<open>\<open>int64_t\<close> values are 64-bit words; \<open>sint\<close> reads them as signed.\<close>

type_synonym i64 = "64 word"

abbreviation INT64_MAX :: int where "INT64_MAX \<equiv> 9223372036854775807"
abbreviation INT64_MIN :: int where "INT64_MIN \<equiv> - 9223372036854775808"

definition fits_int64 :: "int \<Rightarrow> bool" where
  "fits_int64 i \<longleftrightarrow> INT64_MIN \<le> i \<and> i \<le> INT64_MAX"

lemma fits_int64_sint [simp, intro]: "fits_int64 (sint (w :: i64))"
  using sint_ge [of w] sint_lt [of w] by (simp add: fits_int64_def)

lemma sint_word_of_int_fits [simp]: "fits_int64 i \<Longrightarrow> sint (word_of_int i :: i64) = i"
  by (simp add: fits_int64_def signed_of_int signed_take_bit_int_eq_self)

text \<open>C division truncates towards zero.\<close>

definition c_div :: "int \<Rightarrow> int \<Rightarrow> int" where
  "c_div a b = sgn a * sgn b * (\<bar>a\<bar> div \<bar>b\<bar>)"

section \<open>Outcomes\<close>

text \<open>
  What the C code may do beside returning: read through NULL, index outside an array, evaluate an
  arithmetic operation C leaves undefined, trap in the processor, call \<open>abort\<close> or \<open>exit\<close>.
  Each is a fault of the model. \<open>Timeout\<close> is not a behaviour of the code: it says that the
  fuel given to a fuelled routine was too small, and every fuelled routine has a lemma that
  says how much fuel rules it out.
\<close>

datatype fault = NullDeref | OutOfBounds | Undefined | Trap | Aborted | Exited

datatype 'a outcome = Ret 'a | Fault fault | Timeout

fun obind :: "'a outcome \<Rightarrow> ('a \<Rightarrow> 'b outcome) \<Rightarrow> 'b outcome" where
  "obind (Ret x) k = k x"
| "obind (Fault e) k = Fault e"
| "obind Timeout k = Timeout"

lemma obind_Ret_iff [outcome_simps]:
  "obind m k = Ret y \<longleftrightarrow> (\<exists>x. m = Ret x \<and> k x = Ret y)"
  by (cases m) auto

lemma obind_Fault_iff [outcome_simps]:
  "obind m k = Fault e \<longleftrightarrow> m = Fault e \<or> (\<exists>x. m = Ret x \<and> k x = Fault e)"
  by (cases m) auto

lemma obind_Timeout_iff [outcome_simps]:
  "obind m k = Timeout \<longleftrightarrow> m = Timeout \<or> (\<exists>x. m = Ret x \<and> k x = Timeout)"
  by (cases m) auto

lemma obind_Ret [simp]: "obind m Ret = m"
  by (cases m) simp_all

lemma obind_assoc: "obind (obind m k) h = obind m (\<lambda>x. obind (k x) h)"
  by (cases m) auto

lemma obind_cong [fundef_cong]:
  "m = m' \<Longrightarrow> (\<And>x. m' = Ret x \<Longrightarrow> k x = k' x) \<Longrightarrow> obind m k = obind m' k'"
  by (cases m') auto

text \<open>
  \<open>oall P m\<close>: if \<open>m\<close> returns, its value satisfies \<open>P\<close>. It is the partial-correctness form in
  which component contracts are stated; \<open>obind_oall\<close> is its sequencing rule.
\<close>

definition oall :: "('a \<Rightarrow> bool) \<Rightarrow> 'a outcome \<Rightarrow> bool" where
  "oall P m \<longleftrightarrow> (\<forall>x. m = Ret x \<longrightarrow> P x)"

lemma oall_simps [simp]:
  "oall P (Ret x) \<longleftrightarrow> P x" "oall P (Fault e)" "oall P Timeout"
  by (simp_all add: oall_def)

lemma oallI [intro?]: "(\<And>x. m = Ret x \<Longrightarrow> P x) \<Longrightarrow> oall P m"
  by (simp add: oall_def)

lemma oallD: "oall P m \<Longrightarrow> m = Ret x \<Longrightarrow> P x"
  by (simp add: oall_def)

lemma oall_bind: "oall P (obind m k) \<longleftrightarrow> oall (\<lambda>x. oall P (k x)) m"
  by (cases m) simp_all

lemma oall_mono: "oall P m \<Longrightarrow> (\<And>x. P x \<Longrightarrow> Q x) \<Longrightarrow> oall Q m"
  by (cases m) simp_all

lemma obind_oall: "oall P m \<Longrightarrow> (\<And>x. P x \<Longrightarrow> oall Q (k x)) \<Longrightarrow> oall Q (obind m k)"
  by (cases m) simp_all

text \<open>\<open>returns m\<close>: neither a fault nor a lack of fuel.\<close>

definition returns :: "'a outcome \<Rightarrow> bool" where
  "returns m \<longleftrightarrow> (\<exists>x. m = Ret x)"

lemma returns_simps [simp]: "returns (Ret x)" "\<not> returns (Fault e)" "\<not> returns Timeout"
  by (simp_all add: returns_def)

lemma returns_bind: "returns (obind m k) \<longleftrightarrow> (\<exists>x. m = Ret x \<and> returns (k x))"
  by (cases m) simp_all

text \<open>\<open>terminates m\<close>: the fuel was enough, whatever the result.\<close>

definition terminates :: "'a outcome \<Rightarrow> bool" where
  "terminates m \<longleftrightarrow> m \<noteq> Timeout"

lemma terminates_simps [simp]: "terminates (Ret x)" "terminates (Fault e)" "\<not> terminates Timeout"
  by (simp_all add: terminates_def)

lemma terminates_bind:
  "terminates m \<Longrightarrow> (\<And>x. m = Ret x \<Longrightarrow> terminates (k x)) \<Longrightarrow> terminates (obind m k)"
  by (cases m) simp_all

section \<open>printf fragments\<close>

text \<open>
  The conversions \<open>%zu\<close> and \<open>%d\<close> of the C library: decimal digits, most significant first.
\<close>

fun fmt_nat :: "nat \<Rightarrow> string" where
  "fmt_nat n = (if n < 10 then [char_of (48 + n)]
                else fmt_nat (n div 10) @ [char_of (48 + n mod 10)])"

declare fmt_nat.simps [simp del]

definition fmt_int :: "int \<Rightarrow> string" where
  "fmt_int i = (if i < 0 then ''-'' @ fmt_nat (nat (- i)) else fmt_nat (nat i))"

definition quoted :: "string \<Rightarrow> string" where
  "quoted s = CHR 39 # s @ [CHR 39]"

text \<open>\<open>vsnprintf (buf, n, \<dots>)\<close> keeps at most \<open>n - 1\<close> bytes.\<close>

definition snprintf :: "nat \<Rightarrow> string \<Rightarrow> string" where
  "snprintf n s = take (n - 1) s"

lemma length_snprintf: "0 < n \<Longrightarrow> length (snprintf n s) < n"
  by (simp add: snprintf_def)

section \<open>Lists\<close>

lemma nth_drop_hd: "i < length xs \<Longrightarrow> drop i xs = xs ! i # drop (Suc i) xs"
  by (simp add: Cons_nth_drop_Suc)

lemma take_drop_takeWhile:
  "take (length (takeWhile P (drop i xs))) (drop i xs) = takeWhile P (drop i xs)"
  by (metis takeWhile_eq_take)

text \<open>A search loop over an array: the index of the first element that satisfies \<open>P\<close>.\<close>

fun first_index :: "('a \<Rightarrow> bool) \<Rightarrow> 'a list \<Rightarrow> nat option" where
  "first_index P [] = None"
| "first_index P (x # xs) = (if P x then Some 0 else map_option Suc (first_index P xs))"

lemma first_index_Some:
  "first_index P xs = Some i \<longleftrightarrow> i < length xs \<and> P (xs ! i) \<and> (\<forall>j < i. \<not> P (xs ! j))"
proof (induction xs arbitrary: i)
  case (Cons x xs)
  show ?case
    by (cases i) (auto simp: Cons.IH less_Suc_eq_0_disj)
qed simp

lemma first_index_None: "first_index P xs = None \<longleftrightarrow> (\<forall>x \<in> set xs. \<not> P x)"
  by (induction xs) auto

end
