(* ===== verification/CTypes.thy ===== *)
theory CTypes
  imports Prelude
begin

text \<open>
  The data types of the compiled language: \<open>incs/types.def\<close>, the inline helpers of
  \<open>incs/ast.h\<close> and \<open>srcs/parser/type_helpers.c\<close>. The X-macro table becomes one datatype
  and one function per column.
\<close>

datatype data_type =
    TYPE_VOID
  | TYPE_INT | TYPE_LONG
  | TYPE_INT64 | TYPE_INT32 | TYPE_INT16 | TYPE_INT8
  | TYPE_UINT64 | TYPE_UINT32 | TYPE_UINT16 | TYPE_UINT8
  | TYPE_CHAR | TYPE_BOOL

text \<open>Column \<open>size\<close> of the table, \<open>type_size\<close>.\<close>

fun type_size :: "data_type \<Rightarrow> nat" where
  "type_size TYPE_VOID = 0"
| "type_size TYPE_INT = 4"
| "type_size TYPE_LONG = 8"
| "type_size TYPE_INT64 = 8"
| "type_size TYPE_INT32 = 4"
| "type_size TYPE_INT16 = 2"
| "type_size TYPE_INT8 = 1"
| "type_size TYPE_UINT64 = 8"
| "type_size TYPE_UINT32 = 4"
| "type_size TYPE_UINT16 = 2"
| "type_size TYPE_UINT8 = 1"
| "type_size TYPE_CHAR = 1"
| "type_size TYPE_BOOL = 1"

text \<open>Column \<open>is_signed\<close>.\<close>

fun type_is_signed :: "data_type \<Rightarrow> bool" where
  "type_is_signed TYPE_VOID = False"
| "type_is_signed TYPE_INT = True"
| "type_is_signed TYPE_LONG = True"
| "type_is_signed TYPE_INT64 = True"
| "type_is_signed TYPE_INT32 = True"
| "type_is_signed TYPE_INT16 = True"
| "type_is_signed TYPE_INT8 = True"
| "type_is_signed TYPE_UINT64 = False"
| "type_is_signed TYPE_UINT32 = False"
| "type_is_signed TYPE_UINT16 = False"
| "type_is_signed TYPE_UINT8 = False"
| "type_is_signed TYPE_CHAR = True"
| "type_is_signed TYPE_BOOL = False"

text \<open>Column \<open>str_name\<close>.\<close>

fun type_name :: "data_type \<Rightarrow> string" where
  "type_name TYPE_VOID = ''void''"
| "type_name TYPE_INT = ''int''"
| "type_name TYPE_LONG = ''long''"
| "type_name TYPE_INT64 = ''int64''"
| "type_name TYPE_INT32 = ''int32''"
| "type_name TYPE_INT16 = ''int16''"
| "type_name TYPE_INT8 = ''int8''"
| "type_name TYPE_UINT64 = ''uint64''"
| "type_name TYPE_UINT32 = ''uint32''"
| "type_name TYPE_UINT16 = ''uint16''"
| "type_name TYPE_UINT8 = ''uint8''"
| "type_name TYPE_CHAR = ''char''"
| "type_name TYPE_BOOL = ''bool''"

definition type_is_integer :: "data_type \<Rightarrow> bool" where
  "type_is_integer t \<longleftrightarrow> t \<noteq> TYPE_VOID"

definition type_is_unsigned :: "data_type \<Rightarrow> bool" where
  "type_is_unsigned t \<longleftrightarrow> \<not> type_is_signed t \<and> t \<noteq> TYPE_VOID"

fun type_to_unsigned :: "data_type \<Rightarrow> data_type" where
  "type_to_unsigned TYPE_INT64 = TYPE_UINT64"
| "type_to_unsigned TYPE_INT32 = TYPE_UINT32"
| "type_to_unsigned TYPE_INT16 = TYPE_UINT16"
| "type_to_unsigned TYPE_INT8 = TYPE_UINT8"
| "type_to_unsigned TYPE_CHAR = TYPE_UINT8"
| "type_to_unsigned t = t"

fun type_to_signed :: "data_type \<Rightarrow> data_type" where
  "type_to_signed TYPE_UINT64 = TYPE_INT64"
| "type_to_signed TYPE_UINT32 = TYPE_INT32"
| "type_to_signed TYPE_UINT16 = TYPE_INT16"
| "type_to_signed TYPE_UINT8 = TYPE_INT8"
| "type_to_signed t = t"

definition type_promote :: "data_type \<Rightarrow> data_type \<Rightarrow> data_type" where
  "type_promote a b =
     (if a = TYPE_VOID then b
      else if b = TYPE_VOID then a
      else if type_size a > type_size b then a
      else if type_size b > type_size a then b
      else if type_is_unsigned a then a
      else b)"

text \<open>
  \<open>sv_eq_cstr\<close> against each name of the table in turn; the first match decides
  (\<open>type_from_sv\<close>), and no match is \<open>TYPE_VOID\<close>.
\<close>

definition all_types :: "data_type list" where
  "all_types = [TYPE_VOID, TYPE_INT, TYPE_LONG, TYPE_INT64, TYPE_INT32, TYPE_INT16, TYPE_INT8,
                TYPE_UINT64, TYPE_UINT32, TYPE_UINT16, TYPE_UINT8, TYPE_CHAR, TYPE_BOOL]"

definition type_from_sv :: "string \<Rightarrow> data_type" where
  "type_from_sv sv = (case find (\<lambda>t. sv = type_name t) all_types of
                        Some t \<Rightarrow> t | None \<Rightarrow> TYPE_VOID)"

definition is_type_keyword :: "string \<Rightarrow> bool" where
  "is_type_keyword sv \<longleftrightarrow> (\<exists>t \<in> set all_types. sv = type_name t)"

section \<open>Lemmas\<close>

lemma all_types_complete [simp]: "t \<in> set all_types"
  by (cases t) (simp_all add: all_types_def)

lemma type_name_nonempty [simp]: "type_name t \<noteq> []"
  by (cases t) simp_all

lemma is_type_keyword_iff: "is_type_keyword sv \<longleftrightarrow> (\<exists>t. sv = type_name t)"
  by (auto simp: is_type_keyword_def)

lemma is_type_keyword_Nil [simp]: "\<not> is_type_keyword []"
  by (metis is_type_keyword_iff type_name_nonempty)

lemma type_from_sv_name [simp]: "type_from_sv (type_name t) = t"
  by (cases t) (simp_all add: type_from_sv_def all_types_def)

lemma type_name_inject [simp]: "type_name a = type_name b \<longleftrightarrow> a = b"
  by (metis type_from_sv_name)

lemma type_size_unsigned: "type_size (type_to_unsigned t) = type_size t"
  by (cases t) simp_all

lemma type_size_signed: "type_size (type_to_signed t) = type_size t"
  by (cases t) simp_all

text \<open>Promotion computes a least upper bound of the sizes, and never loses signedness silently:
  at equal sizes an unsigned operand wins.\<close>

lemma type_promote_size: "type_size (type_promote a b) = max (type_size a) (type_size b)"
  by (cases a; cases b) (simp_all add: type_promote_def type_is_unsigned_def)

lemma type_promote_operand: "type_promote a b = a \<or> type_promote a b = b"
  by (simp add: type_promote_def)

end
