(* ===== verification/Limits.thy ===== *)
theory Limits
  imports Prelude
begin

text \<open>
  The limits of \<open>incs/defines.h\<close>, as natural numbers, and the bounds that the other headers and
  sources write as literals.
\<close>

definition SCOPE_HASH_SIZE :: nat where "SCOPE_HASH_SIZE = 128"
definition MAX_SOURCE_FILES :: nat where "MAX_SOURCE_FILES = 64"
definition IR_CHUNK_SIZE :: nat where "IR_CHUNK_SIZE = 64"
definition MAX_PARAMS_PER_FUNCTION :: nat where "MAX_PARAMS_PER_FUNCTION = 32"
definition MAX_FUNCTION_COUNT :: nat where "MAX_FUNCTION_COUNT = 256"
definition MAX_CALL_SITES :: nat where "MAX_CALL_SITES = 1024"
definition SYMBOL_TABLE_SIZE :: nat where "SYMBOL_TABLE_SIZE = 4096"
definition MAX_LABELS :: nat where "MAX_LABELS = 512"
definition MAX_BLOCK_STATEMENTS :: nat where "MAX_BLOCK_STATEMENTS = 512"
definition MAX_EXPRESSION_DEPTH :: nat where "MAX_EXPRESSION_DEPTH = 128"
definition MAX_VREGS_PER_FUNCTION :: nat where "MAX_VREGS_PER_FUNCTION = 65536"
definition MAX_IR_INSTRUCTIONS_PER_FUNCTION :: nat where "MAX_IR_INSTRUCTIONS_PER_FUNCTION = 65536"
definition STACK_ALIGNMENT :: nat where "STACK_ALIGNMENT = 16"
definition WORD_SIZE :: nat where "WORD_SIZE = 8"
definition SYS_V_MAX_REG_ARGS :: nat where "SYS_V_MAX_REG_ARGS = 6"
definition CALLEE_SAVED_COUNT :: nat where "CALLEE_SAVED_COUNT = 5"
definition CALLEE_SAVED_SIZE :: nat where "CALLEE_SAVED_SIZE = CALLEE_SAVED_COUNT * 8"

text \<open>The array that \<open>parse_function\<close> allocates for the parameters has 16 elements.\<close>

definition PARAM_ARRAY_SIZE :: nat where "PARAM_ARRAY_SIZE = 16"

text \<open>The two static assertions of the header.\<close>

lemma SYMBOL_TABLE_SIZE_power: "SYMBOL_TABLE_SIZE = 2 ^ 12"
  by (simp add: SYMBOL_TABLE_SIZE_def)

lemma SCOPE_HASH_SIZE_power: "SCOPE_HASH_SIZE = 2 ^ 7"
  by (simp add: SCOPE_HASH_SIZE_def)

end
