(* ===== verification/Diagnostics.thy ===== *)
theory Diagnostics
  imports Prelude
begin

text \<open>
  \<open>srcs/error_handler/error_handler.c\<close> and \<open>incs/error_handler.h\<close>: the list of diagnostics
  that every phase appends to, with its two counters. Messages are kept as the rendered text
  that \<open>vsnprintf\<close> leaves in the 1024-byte buffer. The final printing is a function to text.
\<close>

datatype error_category = ERROR_LEXER | ERROR_PARSER | ERROR_SEMANTIC | ERROR_CODEGEN | ERROR_SYSTEM

datatype error_level = ERROR_LEVEL_WARNING | ERROR_LEVEL_ERROR | ERROR_LEVEL_FATAL

record error_node =
  err_category :: error_category
  err_level :: error_level
  err_message :: string
  err_filename :: "string option"
  err_line :: int
  err_column :: int

text \<open>The linked list from \<open>head\<close> to \<open>tail\<close> is the list \<open>nodes\<close>, oldest first.\<close>

record error_context =
  nodes :: "error_node list"
  error_count :: nat
  warning_count :: nat

definition error_context_init :: error_context where
  "error_context_init = \<lparr>nodes = [], error_count = 0, warning_count = 0\<rparr>"

definition error_add ::
  "error_context \<Rightarrow> error_category \<Rightarrow> error_level \<Rightarrow> string option \<Rightarrow> int \<Rightarrow> int \<Rightarrow> string
    \<Rightarrow> error_context" where
  "error_add ctx cat lvl file ln col text =
     (let node = \<lparr>err_category = cat, err_level = lvl, err_message = snprintf 1024 text,
                  err_filename = file, err_line = ln, err_column = col\<rparr>;
          ctx = ctx\<lparr>nodes := nodes ctx @ [node]\<rparr>
      in if lvl = ERROR_LEVEL_WARNING
         then ctx\<lparr>warning_count := warning_count ctx + 1\<rparr>
         else ctx\<lparr>error_count := error_count ctx + 1\<rparr>)"

text \<open>The macros \<open>error_lexer\<close>, \<open>error_parser\<close>, \<open>error_semantic\<close>, \<open>error_fatal\<close>, \<open>warning_add\<close>.\<close>

abbreviation error_lexer where
  "error_lexer ctx \<equiv> error_add ctx ERROR_LEXER ERROR_LEVEL_ERROR"
abbreviation error_parser where
  "error_parser ctx \<equiv> error_add ctx ERROR_PARSER ERROR_LEVEL_ERROR"
abbreviation error_semantic where
  "error_semantic ctx \<equiv> error_add ctx ERROR_SEMANTIC ERROR_LEVEL_ERROR"
abbreviation error_fatal where
  "error_fatal ctx \<equiv> error_add ctx ERROR_SYSTEM ERROR_LEVEL_FATAL"
abbreviation warning_add where
  "warning_add ctx \<equiv> error_add ctx ERROR_PARSER ERROR_LEVEL_WARNING"

definition error_has_warnings :: "error_context \<Rightarrow> bool" where
  "error_has_warnings ctx \<longleftrightarrow> warning_count ctx > 0"

definition error_has_errors :: "error_context \<Rightarrow> bool" where
  "error_has_errors ctx \<longleftrightarrow> error_count ctx > 0"

fun has_fatal_from :: "error_node list \<Rightarrow> bool" where
  "has_fatal_from [] = False"
| "has_fatal_from (cur # rest) =
     (if err_level cur = ERROR_LEVEL_FATAL then True else has_fatal_from rest)"

definition error_has_fatal :: "error_context \<Rightarrow> bool" where
  "error_has_fatal ctx = has_fatal_from (nodes ctx)"

section \<open>Printing\<close>

text \<open>The escape sequences of \<open>incs/layout.h\<close> that the messages use.\<close>

definition RESET :: string where "RESET = CHR 0x1B # ''[0m''"
definition BOLD_GREEN :: string where "BOLD_GREEN = CHR 0x1B # ''[1;32m''"
definition BOLD_WHITE :: string where "BOLD_WHITE = CHR 0x1B # ''[1;97m''"
definition BOLD_RED :: string where "BOLD_RED = CHR 0x1B # ''[1;31m''"

fun category_names :: "error_category \<Rightarrow> string" where
  "category_names ERROR_LEXER = ''lexer''"
| "category_names ERROR_PARSER = ''parser''"
| "category_names ERROR_SEMANTIC = ''semantic''"
| "category_names ERROR_CODEGEN = ''codegen''"
| "category_names ERROR_SYSTEM = ''system''"

fun level_colors :: "error_level \<Rightarrow> string" where
  "level_colors ERROR_LEVEL_WARNING = BOLD_GREEN"
| "level_colors ERROR_LEVEL_ERROR = BOLD_RED"
| "level_colors ERROR_LEVEL_FATAL = BOLD_RED"

fun level_names :: "error_level \<Rightarrow> string" where
  "level_names ERROR_LEVEL_WARNING = ''warning''"
| "level_names ERROR_LEVEL_ERROR = ''error''"
| "level_names ERROR_LEVEL_FATAL = ''fatal''"

abbreviation newline :: string where "newline \<equiv> [CHR 0x0A]"

definition error_line :: "error_node \<Rightarrow> string" where
  "error_line node =
     (let color = level_colors (err_level node); level_name = level_names (err_level node) in
      case err_filename node of
        Some file \<Rightarrow> BOLD_WHITE @ file @ '':'' @ fmt_int (err_line node) @ '':'' @ fmt_int (err_column node) @ '': '' @
          color @ ''['' @ level_name @ '']'' @ RESET @ '' '' @ err_message node @ newline @ RESET
      | None \<Rightarrow> color @ category_names (err_category node) @ ''['' @ level_name @ '']'' @ RESET @ '' '' @
          err_message node @ newline @ RESET)"

text \<open>What goes to \<open>stderr\<close>.\<close>

definition error_print_all :: "error_context \<Rightarrow> string" where
  "error_print_all ctx =
     (if nodes ctx = [] then []
      else newline @
        (if error_count ctx > 0 then
           BOLD_WHITE @ ''Compilation failed with '' @ fmt_nat (error_count ctx) @ '' error(s) and '' @
           fmt_nat (warning_count ctx) @ '' warning(s)'' @ newline @ RESET
         else if warning_count ctx > 0 then
           BOLD_WHITE @ ''Compilation succeeded with '' @ fmt_nat (warning_count ctx) @ '' warning(s)'' @ newline @ RESET
         else []) @
        newline @ concat (map error_line (nodes ctx)))"

section \<open>Lemmas\<close>

text \<open>The counters agree with the list.\<close>

definition errors_ok :: "error_context \<Rightarrow> bool" where
  "errors_ok ctx \<longleftrightarrow>
     warning_count ctx = length (filter (\<lambda>n. err_level n = ERROR_LEVEL_WARNING) (nodes ctx)) \<and>
     error_count ctx = length (filter (\<lambda>n. err_level n \<noteq> ERROR_LEVEL_WARNING) (nodes ctx))"

lemma errors_ok_init [simp]: "errors_ok error_context_init"
  by (simp add: errors_ok_def error_context_init_def)

lemma errors_ok_add [simp]: "errors_ok ctx \<Longrightarrow> errors_ok (error_add ctx c l f n m t)"
  by (simp add: errors_ok_def error_add_def Let_def)

lemma error_count_add [simp]:
  "error_count (error_add ctx c l f n m t) =
     (if l = ERROR_LEVEL_WARNING then error_count ctx else Suc (error_count ctx))"
  by (simp add: error_add_def Let_def)

lemma warning_count_add [simp]:
  "warning_count (error_add ctx c l f n m t) =
     (if l = ERROR_LEVEL_WARNING then Suc (warning_count ctx) else warning_count ctx)"
  by (simp add: error_add_def Let_def)

lemma nodes_add: "\<exists>n. nodes (error_add ctx c l f ln col t) = nodes ctx @ [n] \<and> err_level n = l
    \<and> err_category n = c \<and> length (err_message n) \<le> 1023"
  by (simp add: error_add_def Let_def snprintf_def)

lemma has_fatal_from_iff: "has_fatal_from ns \<longleftrightarrow> (\<exists>n \<in> set ns. err_level n = ERROR_LEVEL_FATAL)"
  by (induction ns) auto

lemma error_has_fatal_imp_errors:
  assumes "errors_ok ctx" and "error_has_fatal ctx"
  shows "error_has_errors ctx"
proof -
  from assms(2) obtain n where "n \<in> set (nodes ctx)" "err_level n = ERROR_LEVEL_FATAL"
    by (auto simp: error_has_fatal_def has_fatal_from_iff)
  then have "n \<in> set (filter (\<lambda>n. err_level n \<noteq> ERROR_LEVEL_WARNING) (nodes ctx))"
    by simp
  then have "0 < length (filter (\<lambda>n. err_level n \<noteq> ERROR_LEVEL_WARNING) (nodes ctx))"
    by (rule length_pos_if_in_set)
  with assms(1) show ?thesis
    by (simp add: errors_ok_def error_has_errors_def)
qed

text \<open>
  \<open>extends ctx ctx'\<close>: \<open>ctx'\<close> was reached from \<open>ctx\<close> by reporting. A phase never retracts a
  diagnostic.
\<close>

definition extends :: "error_context \<Rightarrow> error_context \<Rightarrow> bool" where
  "extends ctx ctx' \<longleftrightarrow>
     (\<exists>ns. nodes ctx' = nodes ctx @ ns) \<and> error_count ctx \<le> error_count ctx' \<and>
     warning_count ctx \<le> warning_count ctx'"

lemma extends_refl [simp]: "extends ctx ctx"
  by (simp add: extends_def)

lemma extends_trans [trans]: "extends a b \<Longrightarrow> extends b c \<Longrightarrow> extends a c"
  by (auto simp: extends_def)

lemma extends_add [simp]: "extends ctx (error_add ctx c l f n m t)"
  by (simp add: extends_def error_add_def Let_def)

lemma extends_error_count: "extends a b \<Longrightarrow> error_count a \<le> error_count b"
  by (simp add: extends_def)

end
