(* ===== verification/StringView.thy ===== *)
theory StringView
  imports Prelude
begin

text \<open>
  \<open>incs/string_view.h\<close> and the hash of \<open>srcs/ir/ir_symboltable.c\<close>. A \<open>StringView\<close> points
  into a source file that stays mapped and unchanged, so it is modelled by the bytes it shows:
  a \<open>string\<close>, the empty one for the zero-initialised view. Comparison by length and
  \<open>memcmp\<close> is then equality of strings (\<open>sv_eq\<close>, \<open>sv_eq_cstr\<close>).
\<close>

definition sv_eq :: "string \<Rightarrow> string \<Rightarrow> bool" where
  "sv_eq a b \<longleftrightarrow> (if length a \<noteq> length b then False else a = b)"

definition sv_eq_cstr :: "string \<Rightarrow> string \<Rightarrow> bool" where
  "sv_eq_cstr sv str \<longleftrightarrow> length str = length sv \<and> sv = str"

lemma sv_eq_iff [simp]: "sv_eq a b \<longleftrightarrow> a = b"
  by (auto simp: sv_eq_def)

lemma sv_eq_cstr_iff [simp]: "sv_eq_cstr a b \<longleftrightarrow> a = b"
  by (auto simp: sv_eq_cstr_def)

section \<open>Decimal conversion\<close>

definition is_digit :: "char \<Rightarrow> bool" where
  "is_digit c \<longleftrightarrow> 48 \<le> (of_char c :: nat) \<and> (of_char c :: nat) \<le> 57"

definition digit_value :: "char \<Rightarrow> nat" where
  "digit_value c = of_char c - 48"

text \<open>
  \<open>atoll\<close> on a view of digits: the value of the longest digit prefix, clamped to
  \<open>LLONG_MAX\<close> as \<open>strtoll\<close> (by which the C library implements \<open>atoll\<close>) does. The views
  it is applied to are \<open>TOKEN_NUMBER\<close> texts, so neither white space nor a sign occurs.
\<close>

definition decimal_value :: "string \<Rightarrow> nat" where
  "decimal_value s = foldl (\<lambda>v c. 10 * v + digit_value c) 0 (takeWhile is_digit s)"

definition sv_to_int64 :: "string \<Rightarrow> int" where
  "sv_to_int64 sv = min INT64_MAX (int (decimal_value sv))"

lemma sv_to_int64_range: "0 \<le> sv_to_int64 s \<and> sv_to_int64 s \<le> INT64_MAX"
  by (simp add: sv_to_int64_def)

lemma fits_int64_sv [simp, intro]: "fits_int64 (sv_to_int64 s)"
  using sv_to_int64_range [of s] by (simp add: fits_int64_def)

text \<open>Printing a number and reading it back.\<close>

lemma is_digit_char_of [simp]: "d < 10 \<Longrightarrow> is_digit (char_of (48 + d :: nat))"
  by (simp add: is_digit_def of_char_of)

lemma digit_value_char_of [simp]: "d < 10 \<Longrightarrow> digit_value (char_of (48 + d :: nat)) = d"
  by (simp add: digit_value_def of_char_of)

lemma fmt_nat_digits: "c \<in> set (fmt_nat n) \<Longrightarrow> is_digit c"
proof (induction n rule: fmt_nat.induct)
  case (1 n)
  then show ?case
    by (subst (asm) (2) fmt_nat.simps) (auto split: if_splits)
qed

lemma fmt_nat_nonempty [simp]: "fmt_nat n \<noteq> []"
  by (subst fmt_nat.simps) simp

lemma fold_fmt_nat: "foldl (\<lambda>v c. 10 * v + digit_value c) 0 (fmt_nat n) = n"
proof (induction n rule: fmt_nat.induct)
  case (1 n)
  then show ?case
    by (subst fmt_nat.simps) simp
qed

lemma decimal_value_fmt_nat: "decimal_value (fmt_nat n) = n"
proof -
  have "takeWhile is_digit (fmt_nat n) = fmt_nat n"
    unfolding takeWhile_eq_all_conv by (auto dest: fmt_nat_digits)
  then show ?thesis
    unfolding decimal_value_def by (simp only: fold_fmt_nat)
qed

lemma sv_to_int64_fmt_nat: "int n \<le> INT64_MAX \<Longrightarrow> sv_to_int64 (fmt_nat n) = int n"
  by (simp add: sv_to_int64_def decimal_value_fmt_nat)

section \<open>FNV-1a hash\<close>

text \<open>
  \<open>hash_sv\<close>: \<open>hash ^= sv.start[i]\<close> sign-extends the (signed) \<open>char\<close> before the exclusive or.
\<close>

fun hash_loop :: "u32 \<Rightarrow> string \<Rightarrow> u32" where
  "hash_loop hash [] = hash"
| "hash_loop hash (c # cs) = hash_loop ((hash XOR signed (of_char c :: u8)) * 16777619) cs"

definition hash_sv :: "string \<Rightarrow> u32" where
  "hash_sv sv = hash_loop 2166136261 sv"

text \<open>
  The first slot of a table of \<open>cap\<close> entries, \<open>hash & (SIZE - 1)\<close>, and the slot visited after
  \<open>i\<close> steps of linear probing, \<open>(idx + i) & (SIZE - 1)\<close>.
\<close>

definition hash_slot :: "nat \<Rightarrow> string \<Rightarrow> nat" where
  "hash_slot cap sv = unat (hash_sv sv AND word_of_nat (cap - 1))"

definition probe_slot :: "nat \<Rightarrow> nat \<Rightarrow> nat \<Rightarrow> nat" where
  "probe_slot cap idx i = (idx + i) AND (cap - 1)"

text \<open>For a power of two the masks are remainders.\<close>

lemma probe_slot_mod: "probe_slot (2 ^ n) idx i = (idx + i) mod 2 ^ n"
  by (simp only: probe_slot_def mask_eq_exp_minus_1 [symmetric] take_bit_eq_mask [symmetric] take_bit_eq_mod)

lemma hash_slot_less: "0 < cap \<Longrightarrow> hash_slot cap sv < cap"
proof -
  assume "0 < cap"
  have "unat (hash_sv sv AND word_of_nat (cap - 1)) \<le> unat (word_of_nat (cap - 1) :: u32)"
    by (rule word_and_le1 [THEN word_le_nat_alt [THEN iffD1]])
  also have "\<dots> \<le> cap - 1"
    by (simp add: unsigned_of_nat take_bit_nat_less_eq_self)
  finally show ?thesis
    using \<open>0 < cap\<close> by (simp add: hash_slot_def)
qed

end
