(* ===== verification/Tokens.thy ===== *)
theory Tokens
  imports StringView
begin

text \<open>
  The token table \<open>incs/lexer_tokens.def\<close>: one constructor per row, one function per column the
  lexer and the parser read. The parser functions of the last three columns are the enumerations
  \<open>prefix_fn\<close>, \<open>infix_fn\<close> and \<open>stmt_fn\<close>, with \<open>None\<close> for NULL.
\<close>

datatype token_type =
    TOKEN_INT | TOKEN_CHAR | TOKEN_VOID | TOKEN_IF | TOKEN_ELSE | TOKEN_WHILE | TOKEN_RETURN
  | TOKEN_NUMBER | TOKEN_IDENTIFIER
  | TOKEN_PLUS | TOKEN_MINUS | TOKEN_STAR | TOKEN_SLASH | TOKEN_BANG
  | TOKEN_LSHIFT | TOKEN_RSHIFT
  | TOKEN_BIT_AND | TOKEN_BIT_XOR | TOKEN_BIT_OR | TOKEN_BIT_NOT
  | TOKEN_EQUAL_EQUAL | TOKEN_BANG_EQUAL | TOKEN_LESS | TOKEN_LESS_EQUAL
  | TOKEN_GREATER | TOKEN_GREATER_EQUAL
  | TOKEN_EQUAL
  | TOKEN_LPAREN | TOKEN_RPAREN
  | TOKEN_SEMICOLON | TOKEN_LBRACE | TOKEN_RBRACE | TOKEN_COMMA | TOKEN_EOF | TOKEN_ERROR

fun token_type_name :: "token_type \<Rightarrow> string" where
  "token_type_name TOKEN_INT = ''int''"
| "token_type_name TOKEN_CHAR = ''char''"
| "token_type_name TOKEN_VOID = ''void''"
| "token_type_name TOKEN_IF = ''if''"
| "token_type_name TOKEN_ELSE = ''else''"
| "token_type_name TOKEN_WHILE = ''while''"
| "token_type_name TOKEN_RETURN = ''return''"
| "token_type_name TOKEN_NUMBER = ''number''"
| "token_type_name TOKEN_IDENTIFIER = ''identifier''"
| "token_type_name TOKEN_PLUS = ''+''"
| "token_type_name TOKEN_MINUS = ''-''"
| "token_type_name TOKEN_STAR = ''*''"
| "token_type_name TOKEN_SLASH = ''/''"
| "token_type_name TOKEN_BANG = ''!''"
| "token_type_name TOKEN_LSHIFT = ''<<''"
| "token_type_name TOKEN_RSHIFT = ''>>''"
| "token_type_name TOKEN_BIT_AND = ''&''"
| "token_type_name TOKEN_BIT_XOR = ''^''"
| "token_type_name TOKEN_BIT_OR = ''|''"
| "token_type_name TOKEN_BIT_NOT = ''~''"
| "token_type_name TOKEN_EQUAL_EQUAL = ''==''"
| "token_type_name TOKEN_BANG_EQUAL = ''!=''"
| "token_type_name TOKEN_LESS = ''<''"
| "token_type_name TOKEN_LESS_EQUAL = ''<=''"
| "token_type_name TOKEN_GREATER = ''>''"
| "token_type_name TOKEN_GREATER_EQUAL = ''>=''"
| "token_type_name TOKEN_EQUAL = ''=''"
| "token_type_name TOKEN_LPAREN = ''(''"
| "token_type_name TOKEN_RPAREN = '')''"
| "token_type_name TOKEN_SEMICOLON = '';''"
| "token_type_name TOKEN_LBRACE = ''{''"
| "token_type_name TOKEN_RBRACE = ''}''"
| "token_type_name TOKEN_COMMA = '',''"
| "token_type_name TOKEN_EOF = ''EOF''"
| "token_type_name TOKEN_ERROR = ''ERROR''"

text \<open>The rows with \<open>is_keyword\<close>, in table order.\<close>

definition keyword_tokens :: "token_type list" where
  "keyword_tokens =
     [TOKEN_INT, TOKEN_CHAR, TOKEN_VOID, TOKEN_IF, TOKEN_ELSE, TOKEN_WHILE, TOKEN_RETURN]"

datatype precedence =
    PREC_NONE | PREC_ASSIGNMENT | PREC_OR | PREC_AND | PREC_BIT_OR | PREC_BIT_XOR | PREC_BIT_AND
  | PREC_EQUALITY | PREC_COMPARISON | PREC_SHIFT | PREC_TERM | PREC_FACTOR | PREC_UNARY
  | PREC_CALL | PREC_PRIMARY

text \<open>C compares the enumeration values.\<close>

fun precedence_value :: "precedence \<Rightarrow> nat" where
  "precedence_value PREC_NONE = 0"
| "precedence_value PREC_ASSIGNMENT = 1"
| "precedence_value PREC_OR = 2"
| "precedence_value PREC_AND = 3"
| "precedence_value PREC_BIT_OR = 4"
| "precedence_value PREC_BIT_XOR = 5"
| "precedence_value PREC_BIT_AND = 6"
| "precedence_value PREC_EQUALITY = 7"
| "precedence_value PREC_COMPARISON = 8"
| "precedence_value PREC_SHIFT = 9"
| "precedence_value PREC_TERM = 10"
| "precedence_value PREC_FACTOR = 11"
| "precedence_value PREC_UNARY = 12"
| "precedence_value PREC_CALL = 13"
| "precedence_value PREC_PRIMARY = 14"

lemma precedence_value_inject [simp]: "precedence_value a = precedence_value b \<longleftrightarrow> a = b"
  by (cases a; cases b) simp_all

instantiation precedence :: linorder
begin

definition less_eq_precedence :: "precedence \<Rightarrow> precedence \<Rightarrow> bool" where
  "less_eq_precedence a b \<longleftrightarrow> precedence_value a \<le> precedence_value b"

definition less_precedence :: "precedence \<Rightarrow> precedence \<Rightarrow> bool" where
  "less_precedence a b \<longleftrightarrow> precedence_value a < precedence_value b"

instance
  by standard (auto simp: less_eq_precedence_def less_precedence_def)

end

lemma PREC_NONE_least [simp]: "PREC_NONE \<le> p" "\<not> p < PREC_NONE"
  by (simp_all add: less_eq_precedence_def less_precedence_def)

fun get_token_precedence :: "token_type \<Rightarrow> precedence" where
  "get_token_precedence TOKEN_PLUS = PREC_TERM"
| "get_token_precedence TOKEN_MINUS = PREC_TERM"
| "get_token_precedence TOKEN_STAR = PREC_FACTOR"
| "get_token_precedence TOKEN_SLASH = PREC_FACTOR"
| "get_token_precedence TOKEN_LSHIFT = PREC_SHIFT"
| "get_token_precedence TOKEN_RSHIFT = PREC_SHIFT"
| "get_token_precedence TOKEN_BIT_AND = PREC_BIT_AND"
| "get_token_precedence TOKEN_BIT_XOR = PREC_BIT_XOR"
| "get_token_precedence TOKEN_BIT_OR = PREC_BIT_OR"
| "get_token_precedence TOKEN_EQUAL_EQUAL = PREC_EQUALITY"
| "get_token_precedence TOKEN_BANG_EQUAL = PREC_EQUALITY"
| "get_token_precedence TOKEN_LESS = PREC_COMPARISON"
| "get_token_precedence TOKEN_LESS_EQUAL = PREC_COMPARISON"
| "get_token_precedence TOKEN_GREATER = PREC_COMPARISON"
| "get_token_precedence TOKEN_GREATER_EQUAL = PREC_COMPARISON"
| "get_token_precedence TOKEN_EQUAL = PREC_ASSIGNMENT"
| "get_token_precedence TOKEN_LPAREN = PREC_CALL"
| "get_token_precedence _ = PREC_NONE"

datatype prefix_fn = PARSE_NUMBER | PARSE_IDENTIFIER | PARSE_UNARY | PARSE_GROUPING
datatype infix_fn = PARSE_BINARY | PARSE_ASSIGNMENT | PARSE_CALL
datatype stmt_fn = PARSE_VAR_DECL | PARSE_IF | PARSE_WHILE | PARSE_RETURN | PARSE_BLOCK

fun rule_prefix :: "token_type \<Rightarrow> prefix_fn option" where
  "rule_prefix TOKEN_NUMBER = Some PARSE_NUMBER"
| "rule_prefix TOKEN_IDENTIFIER = Some PARSE_IDENTIFIER"
| "rule_prefix TOKEN_MINUS = Some PARSE_UNARY"
| "rule_prefix TOKEN_BANG = Some PARSE_UNARY"
| "rule_prefix TOKEN_BIT_NOT = Some PARSE_UNARY"
| "rule_prefix TOKEN_LPAREN = Some PARSE_GROUPING"
| "rule_prefix _ = None"

fun rule_infix :: "token_type \<Rightarrow> infix_fn option" where
  "rule_infix TOKEN_PLUS = Some PARSE_BINARY"
| "rule_infix TOKEN_MINUS = Some PARSE_BINARY"
| "rule_infix TOKEN_STAR = Some PARSE_BINARY"
| "rule_infix TOKEN_SLASH = Some PARSE_BINARY"
| "rule_infix TOKEN_LSHIFT = Some PARSE_BINARY"
| "rule_infix TOKEN_RSHIFT = Some PARSE_BINARY"
| "rule_infix TOKEN_BIT_AND = Some PARSE_BINARY"
| "rule_infix TOKEN_BIT_XOR = Some PARSE_BINARY"
| "rule_infix TOKEN_BIT_OR = Some PARSE_BINARY"
| "rule_infix TOKEN_EQUAL_EQUAL = Some PARSE_BINARY"
| "rule_infix TOKEN_BANG_EQUAL = Some PARSE_BINARY"
| "rule_infix TOKEN_LESS = Some PARSE_BINARY"
| "rule_infix TOKEN_LESS_EQUAL = Some PARSE_BINARY"
| "rule_infix TOKEN_GREATER = Some PARSE_BINARY"
| "rule_infix TOKEN_GREATER_EQUAL = Some PARSE_BINARY"
| "rule_infix TOKEN_EQUAL = Some PARSE_ASSIGNMENT"
| "rule_infix TOKEN_LPAREN = Some PARSE_CALL"
| "rule_infix _ = None"

fun rule_stmt :: "token_type \<Rightarrow> stmt_fn option" where
  "rule_stmt TOKEN_INT = Some PARSE_VAR_DECL"
| "rule_stmt TOKEN_CHAR = Some PARSE_VAR_DECL"
| "rule_stmt TOKEN_VOID = Some PARSE_VAR_DECL"
| "rule_stmt TOKEN_IF = Some PARSE_IF"
| "rule_stmt TOKEN_WHILE = Some PARSE_WHILE"
| "rule_stmt TOKEN_RETURN = Some PARSE_RETURN"
| "rule_stmt TOKEN_LBRACE = Some PARSE_BLOCK"
| "rule_stmt _ = None"

lemma infix_iff_precedence: "rule_infix t = None \<longleftrightarrow> get_token_precedence t = PREC_NONE"
  by (cases t) simp_all

section \<open>Tokens\<close>

record token =
  tok_type :: token_type
  tok_text :: string
  tok_line :: int
  tok_column :: int

text \<open>The zero-initialised token of a fresh parser (\<open>TOKEN_INT\<close> is the first enumerator).\<close>

definition zero_token :: token where
  "zero_token = \<lparr>tok_type = TOKEN_INT, tok_text = [], tok_line = 0, tok_column = 0\<rparr>"

end
