(* ===== verification/Ast.thy ===== *)
theory Ast
  imports CTypes Limits Diagnostics Tokens
begin

text \<open>
  The syntax tree of \<open>incs/ast.h\<close>. An \<open>ASTNode *\<close> is a value of \<open>ast\<close>: \<open>AstNull\<close> is the NULL
  pointer, and every other constructor is a node with its tag, the fields common to all nodes
  (\<open>node_info\<close>) and its member of the union. The fifteen binary tags share the constructor
  \<open>AstBinary\<close> and the three unary ones \<open>AstUnary\<close>, since they share the union member.
\<close>

datatype binary_type =
    AST_ADD | AST_SUB | AST_MUL | AST_DIV
  | AST_EQUAL | AST_NOT_EQUAL | AST_LESS | AST_LESS_EQUAL | AST_GREATER | AST_GREATER_EQUAL
  | AST_BIT_AND | AST_BIT_OR | AST_BIT_XOR | AST_LSHIFT | AST_RSHIFT

datatype unary_type = AST_NEGATE | AST_NOT | AST_BIT_NOT

record node_info =
  value_type :: data_type
  node_line :: int
  node_column :: int

text \<open>
  Nodes come from fresh anonymous mappings, which are zero: during parsing nothing is ever given
  back to the arena. Fields the parser does not set are therefore \<open>0\<close>, and \<open>TYPE_VOID\<close> is \<open>0\<close>.
\<close>

definition zero_info :: node_info where
  "zero_info = \<lparr>value_type = TYPE_VOID, node_line = 0, node_column = 0\<rparr>"

record parameter =
  param_name :: string
  param_type :: data_type

datatype ast =
    AstNull
  | AstNumber node_info string
  | AstIdentifier node_info string
  | AstBinary binary_type node_info ast ast
  | AstUnary unary_type node_info ast
  | AstVarDecl node_info string data_type ast
  | AstAssignment node_info string ast
  | AstIf node_info ast ast ast
  | AstWhile node_info ast ast
  | AstBlock node_info "ast list"
  | AstReturn node_info ast
  | AstFunction node_info string data_type "parameter list" ast bool
  | AstTranslationUnit node_info "ast list"
  | AstCall node_info string "ast list"

text \<open>Reading \<open>node->line\<close>, \<open>node->value_type\<close> and so on: a fault for NULL.\<close>

fun node_info_of :: "ast \<Rightarrow> node_info outcome" where
  "node_info_of AstNull = Fault NullDeref"
| "node_info_of (AstNumber i _) = Ret i"
| "node_info_of (AstIdentifier i _) = Ret i"
| "node_info_of (AstBinary _ i _ _) = Ret i"
| "node_info_of (AstUnary _ i _) = Ret i"
| "node_info_of (AstVarDecl i _ _ _) = Ret i"
| "node_info_of (AstAssignment i _ _) = Ret i"
| "node_info_of (AstIf i _ _ _) = Ret i"
| "node_info_of (AstWhile i _ _) = Ret i"
| "node_info_of (AstBlock i _) = Ret i"
| "node_info_of (AstReturn i _) = Ret i"
| "node_info_of (AstFunction i _ _ _ _ _) = Ret i"
| "node_info_of (AstTranslationUnit i _) = Ret i"
| "node_info_of (AstCall i _ _) = Ret i"

definition node_type_of :: "ast \<Rightarrow> data_type outcome" where
  "node_type_of n = obind (node_info_of n) (\<lambda>i. Ret (value_type i))"

fun is_null :: "ast \<Rightarrow> bool" where
  "is_null AstNull = True" | "is_null _ = False"

lemma is_null_iff [simp]: "is_null n \<longleftrightarrow> n = AstNull"
  by (cases n) simp_all

fun is_block :: "ast \<Rightarrow> bool" where
  "is_block (AstBlock _ _) = True" | "is_block _ = False"

fun is_function :: "ast \<Rightarrow> bool" where
  "is_function (AstFunction _ _ _ _ _ _) = True" | "is_function _ = False"

section \<open>Complete trees\<close>

text \<open>
  A tree without the holes that a parse error leaves: an expression whose operands are all there
  (assignments included, which the grammar treats as expressions), and a statement whose parts
  are there, \<open>else\<close> branch, initialiser and returned value being optional.
\<close>

fun complete_expr :: "ast \<Rightarrow> bool" where
  "complete_expr (AstNumber _ _) = True"
| "complete_expr (AstIdentifier _ _) = True"
| "complete_expr (AstBinary _ _ l r) \<longleftrightarrow> complete_expr l \<and> complete_expr r"
| "complete_expr (AstUnary _ _ e) \<longleftrightarrow> complete_expr e"
| "complete_expr (AstAssignment _ _ e) \<longleftrightarrow> complete_expr e"
| "complete_expr (AstCall _ _ es) \<longleftrightarrow> list_all complete_expr es"
| "complete_expr _ = False"

fun complete_stmt :: "ast \<Rightarrow> bool" where
  "complete_stmt (AstVarDecl _ _ _ e) \<longleftrightarrow> e = AstNull \<or> complete_expr e"
| "complete_stmt (AstIf _ c t e) \<longleftrightarrow>
     complete_expr c \<and> complete_stmt t \<and> (e = AstNull \<or> complete_stmt e)"
| "complete_stmt (AstWhile _ c b) \<longleftrightarrow> complete_expr c \<and> complete_stmt b"
| "complete_stmt (AstBlock _ ss) \<longleftrightarrow> list_all complete_stmt ss"
| "complete_stmt (AstReturn _ e) \<longleftrightarrow> e = AstNull \<or> complete_expr e"
| "complete_stmt e \<longleftrightarrow> complete_expr e"

fun complete_function :: "ast \<Rightarrow> bool" where
  "complete_function (AstFunction _ _ _ _ body proto) \<longleftrightarrow>
     (if proto then body = AstNull else is_block body \<and> complete_stmt body)"
| "complete_function _ = False"

lemma complete_expr_not_Null: "complete_expr e \<Longrightarrow> e \<noteq> AstNull"
  by auto

lemma complete_stmt_not_Null: "complete_stmt s \<Longrightarrow> s \<noteq> AstNull"
  by auto

lemma complete_expr_stmt: "complete_expr e \<Longrightarrow> complete_stmt e"
  by (cases e) auto

lemma node_info_of_complete: "n \<noteq> AstNull \<Longrightarrow> \<exists>i. node_info_of n = Ret i"
  by (cases n) auto

end
