(* ===== verification/Lexer.thy ===== *)
theory Lexer
  imports Tokens
begin

text \<open>
  \<open>srcs/lexer/lexer.c\<close> and \<open>srcs/lexer/helpers.c\<close>. The mapped file is the string \<open>lx_data\<close>; the
  pointer \<open>curr\<close> is the index \<open>lx_curr\<close> into it and \<open>end\<close> is its length, so that reading
  \<open>*l->curr\<close> is \<open>lx_data l ! lx_curr l\<close> and must be guarded as the code guards it. Loops are
  recursive functions whose measure is the number of bytes left.
\<close>

record lexer =
  lx_data :: string
  lx_name :: string
  lx_curr :: nat
  lx_line :: int
  lx_column :: int

abbreviation lx_end :: "lexer \<Rightarrow> nat" where "lx_end l \<equiv> length (lx_data l)"
abbreviation lx_char :: "lexer \<Rightarrow> char" where "lx_char l \<equiv> lx_data l ! lx_curr l"

abbreviation NEWLINE :: char where "NEWLINE \<equiv> CHR 0x0A"
abbreviation TAB :: char where "TAB \<equiv> CHR 0x09"
abbreviation CARRIAGE_RETURN :: char where "CARRIAGE_RETURN \<equiv> CHR 0x0D"
abbreviation NUL :: char where "NUL \<equiv> CHR 0x00"

definition lexer_init :: "string \<Rightarrow> string \<Rightarrow> lexer" where
  "lexer_init name data = \<lparr>lx_data = data, lx_name = name, lx_curr = 0, lx_line = 1, lx_column = 1\<rparr>"

definition lexer_peek :: "lexer \<Rightarrow> char" where
  "lexer_peek l = (if lx_curr l \<ge> lx_end l then NUL else lx_char l)"

definition lexer_peek_next :: "lexer \<Rightarrow> char" where
  "lexer_peek_next l = (if lx_curr l + 1 \<ge> lx_end l then NUL else lx_data l ! (lx_curr l + 1))"

text \<open>\<open>lexer_advance\<close>; the character it returns is never used.\<close>

definition lexer_advance :: "lexer \<Rightarrow> lexer" where
  "lexer_advance l = l\<lparr>lx_curr := lx_curr l + 1, lx_column := lx_column l + 1\<rparr>"

text \<open>\<open>l->line++; l->column = 1\<close>.\<close>

definition new_line :: "lexer \<Rightarrow> lexer" where
  "new_line l = l\<lparr>lx_line := lx_line l + 1, lx_column := 1\<rparr>"

text \<open>The character classes of the C locale.\<close>

definition is_alpha :: "char \<Rightarrow> bool" where
  "is_alpha c \<longleftrightarrow> (let n = (of_char c :: nat) in 65 \<le> n \<and> n \<le> 90 \<or> 97 \<le> n \<and> n \<le> 122)"

definition is_alnum :: "char \<Rightarrow> bool" where
  "is_alnum c \<longleftrightarrow> is_alpha c \<or> is_digit c"

definition is_ident_char :: "char \<Rightarrow> bool" where
  "is_ident_char c \<longleftrightarrow> is_alnum c \<or> c = CHR ''_''"

text \<open>The loops \<open>while (l->curr < l->end && P( *l->curr)) lexer_advance(l)\<close>.\<close>

function skip_while :: "(char \<Rightarrow> bool) \<Rightarrow> lexer \<Rightarrow> lexer" where
  "skip_while P l =
     (if lx_curr l < lx_end l \<and> P (lx_char l) then skip_while P (lexer_advance l) else l)"
  by pat_completeness auto
termination
  by (relation "measure (\<lambda>(P, l). lx_end l - lx_curr l)") (auto simp: lexer_advance_def)

declare skip_while.simps [simp del]

text \<open>The body of a block comment, up to and including the closing delimiter or the end.\<close>

function skip_block :: "lexer \<Rightarrow> lexer" where
  "skip_block l =
     (if lx_curr l < lx_end l then
        if lexer_peek l = CHR ''*'' \<and> lexer_peek_next l = CHR ''/''
        then lexer_advance (lexer_advance l)
        else skip_block (lexer_advance (if lexer_peek l = NEWLINE then new_line l else l))
      else l)"
  by pat_completeness auto
termination
  by (relation "measure (\<lambda>l. lx_end l - lx_curr l)") (auto simp: lexer_advance_def new_line_def)

declare skip_block.simps [simp del]

definition is_comment :: "lexer \<Rightarrow> bool \<times> lexer" where
  "is_comment l =
     (if lexer_peek_next l = CHR ''/'' then (True, skip_while (\<lambda>c. c \<noteq> NEWLINE) l)
      else if lexer_peek_next l = CHR ''*''
      then (True, skip_block (lexer_advance (lexer_advance l)))
      else (False, l))"

section \<open>The input that is left\<close>

text \<open>
  \<open>rest l\<close> is the text from \<open>curr\<close> to \<open>end\<close>; every helper is characterised by what it does to
  it.
\<close>

definition rest :: "lexer \<Rightarrow> string" where
  "rest l = drop (lx_curr l) (lx_data l)"

definition lexer_ok :: "lexer \<Rightarrow> bool" where
  "lexer_ok l \<longleftrightarrow> lx_curr l \<le> lx_end l"

lemma lexer_advance_simps [simp]:
  "lx_data (lexer_advance l) = lx_data l" "lx_name (lexer_advance l) = lx_name l"
  "lx_curr (lexer_advance l) = Suc (lx_curr l)" "lx_line (lexer_advance l) = lx_line l"
  "lx_column (lexer_advance l) = lx_column l + 1"
  by (simp_all add: lexer_advance_def)

lemma new_line_simps [simp]:
  "lx_data (new_line l) = lx_data l" "lx_name (new_line l) = lx_name l"
  "lx_curr (new_line l) = lx_curr l" "lx_line (new_line l) = lx_line l + 1"
  "lx_column (new_line l) = 1"
  by (simp_all add: new_line_def)

lemma rest_init [simp]: "rest (lexer_init nm s) = s"
  by (simp add: rest_def lexer_init_def)

lemma rest_advance [simp]: "rest (lexer_advance l) = tl (rest l)"
  by (simp add: rest_def tl_drop drop_Suc)

lemma rest_new_line [simp]: "rest (new_line l) = rest l"
  by (simp add: rest_def)

lemma rest_Nil_iff: "rest l = [] \<longleftrightarrow> lx_end l \<le> lx_curr l"
  by (simp add: rest_def)

lemma rest_ConsD: "rest l = c # cs \<Longrightarrow> lx_curr l < lx_end l \<and> lx_char l = c"
  by (metis drop_all list.distinct(1) list.inject not_le nth_drop_hd rest_def)

lemma rest_Cons_iff: "lx_curr l < lx_end l \<Longrightarrow> rest l = lx_char l # drop (Suc (lx_curr l)) (lx_data l)"
  by (simp add: rest_def nth_drop_hd)

lemma length_rest: "length (rest l) = lx_end l - lx_curr l"
  by (simp add: rest_def)

lemma lexer_peek_rest: "lexer_peek l = (case rest l of [] \<Rightarrow> NUL | c # _ \<Rightarrow> c)"
  by (simp add: lexer_peek_def rest_def nth_drop_hd split: list.split)

lemma lexer_peek_next_rest:
  "lexer_peek_next l = (case rest l of c # d # _ \<Rightarrow> d | _ \<Rightarrow> NUL)"
proof (cases "lx_curr l + 1 < lx_end l")
  case True
  then have "rest l = lx_char l # (lx_data l ! Suc (lx_curr l)) # drop (Suc (Suc (lx_curr l))) (lx_data l)"
    by (simp add: rest_def nth_drop_hd)
  with True show ?thesis by (simp add: lexer_peek_next_def)
next
  case False
  then have "length (rest l) \<le> 1" by (simp add: length_rest)
  then show ?thesis
    using False by (auto simp: lexer_peek_next_def split: list.split)
qed

text \<open>Reading ahead by a predicate takes the longest matching prefix.\<close>

lemma skip_while_data [simp]: "lx_data (skip_while P l) = lx_data l" "lx_name (skip_while P l) = lx_name l"
  "lx_line (skip_while P l) = lx_line l"
  by (induction P l rule: skip_while.induct; simp add: skip_while.simps)+

lemma skip_while_step:
  "skip_while P l =
     (case rest l of c # _ \<Rightarrow> if P c then skip_while P (lexer_advance l) else l | [] \<Rightarrow> l)"
proof (cases "lx_curr l < lx_end l")
  case True
  then show ?thesis by (subst skip_while.simps) (simp add: rest_Cons_iff)
next
  case False
  then show ?thesis by (subst skip_while.simps) (simp add: rest_def)
qed

lemma rest_skip_while: "rest (skip_while P l) = dropWhile P (rest l)"
proof (induction P l rule: skip_while.induct)
  case (1 P l)
  show ?case
  proof (cases "rest l")
    case Nil
    then show ?thesis by (simp add: skip_while_step)
  next
    case (Cons c cs)
    with rest_ConsD [OF Cons] "1.IH" show ?thesis
      by (subst skip_while_step) auto
  qed
qed

lemma skip_while_moves:
  "lx_curr (skip_while P l) = lx_curr l + length (takeWhile P (rest l)) \<and>
   lx_column (skip_while P l) = lx_column l + int (length (takeWhile P (rest l)))"
proof (induction P l rule: skip_while.induct)
  case (1 P l)
  show ?case
  proof (cases "rest l")
    case Nil
    then show ?thesis by (simp add: skip_while_step)
  next
    case (Cons c cs)
    with rest_ConsD [OF Cons] "1.IH" show ?thesis
      by (subst (1 2) skip_while_step) auto
  qed
qed

lemmas skip_while_curr = skip_while_moves [THEN conjunct1]
lemmas skip_while_column = skip_while_moves [THEN conjunct2]

lemma skip_block_data [simp]: "lx_data (skip_block l) = lx_data l" "lx_name (skip_block l) = lx_name l"
  by (induction l rule: skip_block.induct; subst skip_block.simps; simp)+

lemma skip_block_curr: "lx_curr l \<le> lx_curr (skip_block l)"
proof (induction l rule: skip_block.induct)
  case (1 l)
  then show ?case
    by (subst skip_block.simps) (auto split: if_splits)
qed

lemma is_comment_data [simp]: "lx_data (snd (is_comment l)) = lx_data l" "lx_name (snd (is_comment l)) = lx_name l"
  by (simp_all add: is_comment_def)

lemma is_comment_curr: "fst (is_comment l) \<Longrightarrow> rest l = CHR ''/'' # cs \<Longrightarrow> lx_curr l < lx_curr (snd (is_comment l))"
  using skip_block_curr [of "lexer_advance (lexer_advance l)"]
  by (auto simp: is_comment_def skip_while_curr split: if_splits)

section \<open>White space\<close>

function lexer_skip_whitespace :: "lexer \<Rightarrow> lexer" where
  "lexer_skip_whitespace l =
     (if lx_curr l < lx_end l then
        let c = lx_char l in
        if c = CHR '' '' \<or> c = CARRIAGE_RETURN \<or> c = TAB
        then lexer_skip_whitespace (lexer_advance l)
        else if c = NEWLINE
        then lexer_skip_whitespace (lexer_advance (new_line l))
        else if c = CHR ''/''
        then (if fst (is_comment l) then lexer_skip_whitespace (snd (is_comment l)) else l)
        else if c = CHR ''#''
        then lexer_skip_whitespace (skip_while (\<lambda>c. c \<noteq> NEWLINE) l)
        else l
      else l)"
  by pat_completeness auto
termination
proof (relation "measure (\<lambda>l. lx_end l - lx_curr l)")
  fix l c
  assume "lx_curr l < lx_end l" "c = lx_char l" "c = CHR ''/''" "fst (is_comment l)"
  then show "(snd (is_comment l), l) \<in> measure (\<lambda>l. lx_end l - lx_curr l)"
    using is_comment_curr [of l] rest_Cons_iff [of l] by simp
next
  fix l c
  assume "lx_curr l < lx_end l" "c = lx_char l" "c = CHR ''#''"
  then have "rest l = CHR ''#'' # drop (Suc (lx_curr l)) (lx_data l)"
    using rest_Cons_iff [of l] by metis
  then show "(skip_while (\<lambda>c. c \<noteq> NEWLINE) l, l) \<in> measure (\<lambda>l. lx_end l - lx_curr l)"
    using \<open>lx_curr l < lx_end l\<close> by (simp add: skip_while_curr)
qed auto

declare lexer_skip_whitespace.simps [simp del]

section \<open>Tokens\<close>

definition lexer_make_token :: "lexer \<Rightarrow> token_type \<Rightarrow> string \<Rightarrow> token" where
  "lexer_make_token l ty text =
     \<lparr>tok_type = ty, tok_text = text, tok_line = lx_line l, tok_column = lx_column l\<rparr>"

definition lexer_make_token_no_sv :: "lexer \<Rightarrow> token_type \<Rightarrow> token" where
  "lexer_make_token_no_sv l ty =
     \<lparr>tok_type = ty, tok_text = [], tok_line = lx_line l, tok_column = lx_column l\<rparr>"

definition check_keyword :: "string \<Rightarrow> token_type" where
  "check_keyword text =
     (case find (\<lambda>t. sv_eq_cstr text (token_type_name t)) keyword_tokens of
        Some t \<Rightarrow> t | None \<Rightarrow> TOKEN_IDENTIFIER)"

text \<open>The view from \<open>start\<close> to the current position.\<close>

definition text_from :: "nat \<Rightarrow> lexer \<Rightarrow> string" where
  "text_from start l = take (lx_curr l - start) (drop start (lx_data l))"

text \<open>
  The final \<open>switch\<close> of \<open>lexer_next\<close>, on the character \<open>c\<close> that was just consumed.
\<close>

definition with_text :: "lexer \<Rightarrow> token_type \<Rightarrow> string \<Rightarrow> token \<times> lexer" where
  "with_text l ty text = (lexer_make_token l ty text, l)"

definition no_text :: "lexer \<Rightarrow> token_type \<Rightarrow> token \<times> lexer" where
  "no_text l ty = (lexer_make_token_no_sv l ty, l)"

text \<open>The cases that depend on \<open>c\<close> alone, then the four that look one character ahead.\<close>

definition single_tokens :: "(char \<times> token_type) list" where
  "single_tokens =
     [(CHR ''+'', TOKEN_PLUS), (CHR ''-'', TOKEN_MINUS), (CHR ''*'', TOKEN_STAR),
      (CHR ''/'', TOKEN_SLASH), (CHR ''('', TOKEN_LPAREN), (CHR '')'', TOKEN_RPAREN),
      (CHR ''{'', TOKEN_LBRACE), (CHR ''}'', TOKEN_RBRACE), (CHR '';'', TOKEN_SEMICOLON),
      (CHR '','', TOKEN_COMMA), (CHR ''&'', TOKEN_BIT_AND), (CHR ''|'', TOKEN_BIT_OR),
      (CHR ''^'', TOKEN_BIT_XOR), (CHR ''~'', TOKEN_BIT_NOT)]"

definition lex_operator :: "char \<Rightarrow> lexer \<Rightarrow> token \<times> lexer" where
  "lex_operator c l =
     (case map_of single_tokens c of
        Some ty \<Rightarrow> with_text l ty [c]
      | None \<Rightarrow>
          if c = CHR ''!'' then
            (if lexer_peek l = CHR ''='' then no_text (lexer_advance l) TOKEN_BANG_EQUAL
             else no_text l TOKEN_BANG)
          else if c = CHR ''='' then
            (if lexer_peek l = CHR ''='' then no_text (lexer_advance l) TOKEN_EQUAL_EQUAL
             else no_text l TOKEN_EQUAL)
          else if c = CHR ''>'' then
            (if lexer_peek l = CHR ''='' then no_text (lexer_advance l) TOKEN_GREATER_EQUAL
             else if lexer_peek l = CHR ''>'' then no_text (lexer_advance l) TOKEN_RSHIFT
             else no_text l TOKEN_GREATER)
          else if c = CHR ''<'' then
            (if lexer_peek l = CHR ''='' then no_text (lexer_advance l) TOKEN_LESS_EQUAL
             else if lexer_peek l = CHR ''<'' then no_text (lexer_advance l) TOKEN_LSHIFT
             else no_text l TOKEN_LESS)
          else no_text l TOKEN_ERROR)"

definition lexer_next :: "lexer \<Rightarrow> token \<times> lexer" where
  "lexer_next l0 =
     (let l = lexer_skip_whitespace l0 in
      if lx_curr l \<ge> lx_end l then no_text l TOKEN_EOF
      else
        let c = lx_char l; start = lx_curr l in
        if is_digit c then
          (let l = skip_while is_digit l in with_text l TOKEN_NUMBER (text_from start l))
        else if is_alpha c \<or> c = CHR ''_'' then
          (let l = skip_while is_ident_char l; text = text_from start l
           in with_text l (check_keyword text) text)
        else lex_operator c (lexer_advance l))"

end
