(* ===== verification/LexerFacts.thy ===== *)
theory LexerFacts
  imports Lexer
begin

text \<open>
  Properties of the lexer. Every routine moves by guarded single-character steps (\<open>scans\<close>), from
  which memory safety, progress and the exact line and column of every token follow; on a text
  made of lexemes separated by blanks the lexer returns exactly these tokens.
\<close>

section \<open>Single-character steps\<close>

inductive scans :: "lexer \<Rightarrow> lexer \<Rightarrow> bool" where
  scans_refl [simp, intro]: "scans l l"
| scans_char: "scans l m \<Longrightarrow> lx_curr m < lx_end m \<Longrightarrow> lx_char m \<noteq> NEWLINE \<Longrightarrow>
    scans l (lexer_advance m)"
| scans_newline: "scans l m \<Longrightarrow> lx_curr m < lx_end m \<Longrightarrow> lx_char m = NEWLINE \<Longrightarrow>
    scans l (lexer_advance (new_line m))"

inductive_cases scansE: "scans l m"

lemma scans_trans: "scans m n \<Longrightarrow> scans l m \<Longrightarrow> scans l n"
  by (induction rule: scans.induct) (auto intro: scans.intros)

lemma scans_step: "lx_curr l < lx_end l \<Longrightarrow> lx_char l \<noteq> NEWLINE \<Longrightarrow> scans l (lexer_advance l)"
  by (rule scans_char) auto

lemma scans_step_newline:
  "lx_curr l < lx_end l \<Longrightarrow> lx_char l = NEWLINE \<Longrightarrow> scans l (lexer_advance (new_line l))"
  by (rule scans_newline) auto

lemma scans_data [frame_simps]:
  "scans l m \<Longrightarrow> lx_data m = lx_data l" "scans l m \<Longrightarrow> lx_name m = lx_name l"
  by (induction rule: scans.induct) simp_all

lemma scans_mono: "scans l m \<Longrightarrow> lx_curr l \<le> lx_curr m"
  by (induction rule: scans.induct) simp_all

lemma scans_ok: "scans l m \<Longrightarrow> lexer_ok l \<Longrightarrow> lexer_ok m"
  by (induction rule: scans.induct) (simp_all add: lexer_ok_def)

lemma scans_same: "scans l m \<Longrightarrow> lx_curr m = lx_curr l \<Longrightarrow> m = l"
proof (induction rule: scans.induct)
  case (scans_char l m)
  then show ?case using scans_mono [of l m] by simp
next
  case (scans_newline l m)
  then show ?case using scans_mono [of l m] by simp
qed simp

lemma skip_while_scans: "\<not> P NEWLINE \<Longrightarrow> scans l (skip_while P l)"
proof (induction P l rule: skip_while.induct)
  case (1 P l)
  show ?case
  proof (cases "lx_curr l < lx_end l \<and> P (lx_char l)")
    case True
    with 1 have "scans (lexer_advance l) (skip_while P (lexer_advance l))" by blast
    moreover have "scans l (lexer_advance l)"
      using True "1.prems" by (intro scans_step) auto
    ultimately show ?thesis
      using True by (subst skip_while.simps) (simp add: scans_trans)
  next
    case False
    then show ?thesis by (subst skip_while.simps) auto
  qed
qed

lemma peek_char: "lexer_peek l \<noteq> NUL \<Longrightarrow> lx_curr l < lx_end l \<and> lx_char l = lexer_peek l"
  by (auto simp: lexer_peek_def split: if_splits)

lemma peek_next_char: "lexer_peek_next l \<noteq> NUL \<Longrightarrow>
    Suc (lx_curr l) < lx_end l \<and> lx_data l ! Suc (lx_curr l) = lexer_peek_next l"
  by (auto simp: lexer_peek_next_def split: if_splits)

text \<open>Two steps, where the second character is known not to be a line break.\<close>

lemma scans_two:
  assumes "lx_char l \<noteq> NEWLINE" and "lexer_peek_next l = c" and "c \<noteq> NUL" and "c \<noteq> NEWLINE"
  shows "scans l (lexer_advance (lexer_advance l))"
proof -
  from assms have "Suc (lx_curr l) < lx_end l" "lx_data l ! Suc (lx_curr l) \<noteq> NEWLINE"
    using peek_next_char [of l] by auto
  then show ?thesis
    using assms(1) by (intro scans_char [OF scans_step]) auto
qed

lemma skip_block_scans: "scans l (skip_block l)"
proof (induction l rule: skip_block.induct)
  case (1 l)
  consider (at_end) "\<not> lx_curr l < lx_end l"
    | (close) "lx_curr l < lx_end l" "lexer_peek l = CHR ''*''" "lexer_peek_next l = CHR ''/''"
    | (char) "lx_curr l < lx_end l" "\<not> (lexer_peek l = CHR ''*'' \<and> lexer_peek_next l = CHR ''/'')"
    by blast
  then show ?case
  proof cases
    case at_end
    then show ?thesis by (subst skip_block.simps) auto
  next
    case close
    then have "scans l (lexer_advance (lexer_advance l))"
      using peek_char [of l] by (intro scans_two) auto
    with close show ?thesis by (subst skip_block.simps) simp
  next
    case char
    let ?l = "lexer_advance (if lexer_peek l = NEWLINE then new_line l else l)"
    have "scans l ?l"
      using char by (auto simp: lexer_peek_def intro: scans_step scans_step_newline)
    moreover have "scans ?l (skip_block ?l)" using char by (intro "1.IH") auto
    ultimately have "scans l (skip_block ?l)" by (rule scans_trans [rotated])
    with char show ?thesis by (subst skip_block.simps) auto
  qed
qed

lemma is_comment_scans: "lx_char l = CHR ''/'' \<Longrightarrow> scans l (snd (is_comment l))"
proof -
  assume c: "lx_char l = CHR ''/''"
  have "scans l (skip_block (lexer_advance (lexer_advance l)))" if "lexer_peek_next l = CHR ''*''"
    using that c by (intro scans_trans [OF skip_block_scans] scans_two) auto
  then show ?thesis
    by (simp add: is_comment_def skip_while_scans)
qed

text \<open>
  Induction along the white space: a statement that holds where it ends, and that can be pulled
  back over one skipped piece, holds from the start.
\<close>

lemma skip_whitespace_rule:
  assumes stop: "\<And>l. (lx_curr l < lx_end l \<Longrightarrow>
      lx_char l \<notin> {CHR '' '', CARRIAGE_RETURN, TAB, NEWLINE, CHR ''#''}) \<Longrightarrow> P l l"
    and step: "\<And>l m. scans l m \<Longrightarrow> P m (lexer_skip_whitespace m) \<Longrightarrow>
      P l (lexer_skip_whitespace m)"
  shows "P l (lexer_skip_whitespace l)"
proof (induction l rule: lexer_skip_whitespace.induct)
  case (1 l)
  show ?case
  proof (cases "lx_curr l < lx_end l")
    case False
    then show ?thesis by (subst lexer_skip_whitespace.simps) (auto intro: stop)
  next
    case True
    note IH = "1.IH" [OF True refl]
    consider (blank) "lx_char l = CHR '' '' \<or> lx_char l = CARRIAGE_RETURN \<or> lx_char l = TAB"
      | (newline) "lx_char l = NEWLINE"
      | (slash) "lx_char l = CHR ''/''"
      | (hash) "lx_char l = CHR ''#''"
      | (other) "lx_char l \<notin> {CHR '' '', CARRIAGE_RETURN, TAB, NEWLINE, CHR ''/'', CHR ''#''}"
      by auto
    then show ?thesis
    proof cases
      case blank
      then have "scans l (lexer_advance l)" using True by (intro scans_step) auto
      from step [OF this IH(1) [OF blank]] blank True show ?thesis
        by (subst lexer_skip_whitespace.simps) (simp add: Let_def)
    next
      case newline
      then have "scans l (lexer_advance (new_line l))" using True by (intro scans_step_newline) auto
      from step [OF this IH(2)] newline True show ?thesis
        by (subst lexer_skip_whitespace.simps) (simp add: Let_def)
    next
      case slash
      then show ?thesis
        using True step [OF is_comment_scans [OF slash] IH(3)]
        by (subst lexer_skip_whitespace.simps) (auto simp: Let_def intro: stop)
    next
      case hash
      have "scans l (skip_while (\<lambda>c. c \<noteq> NEWLINE) l)" by (rule skip_while_scans) simp
      from step [OF this IH(4)] hash True show ?thesis
        by (subst lexer_skip_whitespace.simps) (simp add: Let_def)
    next
      case other
      with True show ?thesis
        by (subst lexer_skip_whitespace.simps) (auto simp: Let_def intro: stop)
    qed
  qed
qed

lemma lexer_skip_whitespace_scans: "scans l (lexer_skip_whitespace l)"
  by (rule skip_whitespace_rule) (auto intro: scans_trans)

text \<open>Where white space ends, a token starts.\<close>

lemma lexer_skip_whitespace_stop:
  "lx_curr (lexer_skip_whitespace l) < lx_end (lexer_skip_whitespace l) \<Longrightarrow>
   lx_char (lexer_skip_whitespace l) \<notin> {CHR '' '', CARRIAGE_RETURN, TAB, NEWLINE, CHR ''#''}"
  by (rule skip_whitespace_rule [where P = "\<lambda>_ m. lx_curr m < lx_end m \<longrightarrow>
      lx_char m \<notin> {CHR '' '', CARRIAGE_RETURN, TAB, NEWLINE, CHR ''#''}", rule_format]) blast+

lemma lex_operator_scans: "scans l (snd (lex_operator c l))"
proof -
  have eq: "scans l (lexer_advance l)" if "lexer_peek l \<in> {CHR ''='', CHR ''>'', CHR ''<''}"
    using that peek_char [of l] by (intro scans_step) auto
  show ?thesis
    by (simp add: lex_operator_def with_text_def no_text_def eq split: option.split)
qed

lemma single_tokens_type: "map_of single_tokens c = Some ty \<Longrightarrow>
    ty \<noteq> TOKEN_EOF \<and> ty \<noteq> TOKEN_ERROR \<and> ty \<noteq> TOKEN_IDENTIFIER \<and> ty \<noteq> TOKEN_NUMBER"
  by (drule map_of_SomeD) (auto simp: single_tokens_def)

lemma lex_operator_not_EOF: "tok_type (fst (lex_operator c l)) \<noteq> TOKEN_EOF"
  by (cases "map_of single_tokens c")
    (simp_all add: lex_operator_def with_text_def no_text_def lexer_make_token_def
      lexer_make_token_no_sv_def single_tokens_type)

lemma check_keyword_cases:
  "check_keyword s = TOKEN_IDENTIFIER \<or> check_keyword s \<in> set keyword_tokens"
  by (auto simp: check_keyword_def keyword_tokens_def split: option.splits)

lemma check_keyword_not_EOF [simp]: "check_keyword s \<noteq> TOKEN_EOF"
  using check_keyword_cases [of s] by (auto simp: keyword_tokens_def)

lemma is_digit_not_special [simp]: "\<not> is_digit NEWLINE" "\<not> is_ident_char NEWLINE"
  by (simp_all add: is_digit_def is_ident_char_def is_alnum_def is_alpha_def)

lemma ident_start: "is_alpha c \<or> c = CHR ''_'' \<Longrightarrow> is_ident_char c"
  by (auto simp: is_ident_char_def is_alnum_def)

lemma lexer_next_scans: "scans l (snd (lexer_next l))"
proof -
  let ?m = "lexer_skip_whitespace l"
  have "scans ?m (snd (lexer_next l))"
  proof (cases "lx_curr ?m < lx_end ?m")
    case True
    then have "scans ?m (lexer_advance ?m)"
      using lexer_skip_whitespace_stop [of l] by (intro scans_step) auto
    from scans_trans [OF lex_operator_scans this] True show ?thesis
      by (auto simp: lexer_next_def Let_def with_text_def skip_while_scans)
  next
    case False
    then show ?thesis by (simp add: lexer_next_def Let_def no_text_def)
  qed
  from scans_trans [OF this lexer_skip_whitespace_scans] show ?thesis .
qed

text \<open>
  Progress: \<open>TOKEN_EOF\<close> exactly when nothing but white space and comments is left; any other
  token consumes at least one byte.
\<close>

lemma lexer_next_EOF:
  "tok_type (fst (lexer_next l)) = TOKEN_EOF \<longleftrightarrow> rest (lexer_skip_whitespace l) = []"
  by (auto simp: lexer_next_def Let_def with_text_def no_text_def lexer_make_token_def
      lexer_make_token_no_sv_def rest_Nil_iff lex_operator_not_EOF)

lemma lexer_next_EOF_end:
  "tok_type (fst (lexer_next l)) = TOKEN_EOF \<Longrightarrow> lx_end l \<le> lx_curr (snd (lexer_next l))"
  using scans_data(1) [OF lexer_skip_whitespace_scans, of l]
  by (auto simp: lexer_next_EOF rest_Nil_iff) (simp add: lexer_next_def Let_def no_text_def)

lemma skip_while_progress:
  "lx_curr l < lx_end l \<Longrightarrow> P (lx_char l) \<Longrightarrow> lx_curr l < lx_curr (skip_while P l)"
  by (simp add: skip_while_curr rest_Cons_iff)

lemma lexer_next_progress:
  assumes "tok_type (fst (lexer_next l)) \<noteq> TOKEN_EOF"
  shows "lx_curr l < lx_curr (snd (lexer_next l))"
proof -
  let ?m = "lexer_skip_whitespace l"
  have less: "lx_curr ?m < lx_end ?m"
    using assms by (auto simp: lexer_next_EOF rest_Nil_iff)
  have "Suc (lx_curr ?m) \<le> lx_curr (snd (lex_operator (lx_char ?m) (lexer_advance ?m)))"
    using scans_mono [OF lex_operator_scans, of "lexer_advance ?m"] by simp
  then have "lx_curr ?m < lx_curr (snd (lexer_next l))"
    using less skip_while_progress [OF less, of is_digit]
      skip_while_progress [OF less, of is_ident_char] ident_start
    by (simp add: lexer_next_def Let_def with_text_def)
  then show ?thesis
    using scans_mono [OF lexer_skip_whitespace_scans, of l] by simp
qed

section \<open>Line and column\<close>

text \<open>
  The position after consuming the prefix \<open>pre\<close>: lines count line breaks from 1; columns count
  from 1 on the first line and, because \<open>l->column = 1\<close> is executed before the line break itself
  is consumed, from 2 on every later line.
\<close>

definition line_of :: "string \<Rightarrow> int" where
  "line_of pre = 1 + int (length (filter (\<lambda>c. c = NEWLINE) pre))"

definition column_of :: "string \<Rightarrow> int" where
  "column_of pre = (if NEWLINE \<in> set pre then 2 else 1)
     + int (length (takeWhile (\<lambda>c. c \<noteq> NEWLINE) (rev pre)))"

definition position_ok :: "lexer \<Rightarrow> bool" where
  "position_ok l \<longleftrightarrow> lexer_ok l \<and>
     lx_line l = line_of (take (lx_curr l) (lx_data l)) \<and>
     lx_column l = column_of (take (lx_curr l) (lx_data l))"

lemma position_ok_init: "position_ok (lexer_init nm s)"
  by (simp add: position_ok_def lexer_ok_def lexer_init_def line_of_def column_of_def)

lemma position_ok_scans: "scans l m \<Longrightarrow> position_ok l \<Longrightarrow> position_ok m"
proof (induction rule: scans.induct)
  case (scans_char l m)
  then show ?case
    by (auto simp: position_ok_def lexer_ok_def take_Suc_conv_app_nth line_of_def column_of_def)
next
  case (scans_newline l m)
  then show ?case
    by (auto simp: position_ok_def lexer_ok_def take_Suc_conv_app_nth line_of_def column_of_def)
qed

lemma lexer_next_position: "tok_line (fst (lexer_next l)) = lx_line (snd (lexer_next l)) \<and>
    tok_column (fst (lexer_next l)) = lx_column (snd (lexer_next l))"
  by (simp add: lexer_next_def Let_def with_text_def no_text_def lexer_make_token_def
      lexer_make_token_no_sv_def lex_operator_def split: option.split)

section \<open>The token stream\<close>

text \<open>All tokens up to and including \<open>TOKEN_EOF\<close>, as repeated calls of \<open>lexer_next\<close> give them.\<close>

lemma not_EOF_less: "tok_type (fst (lexer_next l)) \<noteq> TOKEN_EOF \<Longrightarrow> lx_curr l < lx_end l"
  using scans_mono [OF lexer_skip_whitespace_scans, of l]
    scans_data(1) [OF lexer_skip_whitespace_scans, of l]
  by (auto simp: lexer_next_EOF rest_Nil_iff)

lemma lexer_next_data [simp]:
  "lx_data (snd (lexer_next l)) = lx_data l" "lx_name (snd (lexer_next l)) = lx_name l"
  using scans_data [OF lexer_next_scans] by auto

function tokens :: "lexer \<Rightarrow> token list" where
  "tokens l =
     (if tok_type (fst (lexer_next l)) = TOKEN_EOF then [fst (lexer_next l)]
      else fst (lexer_next l) # tokens (snd (lexer_next l)))"
  by pat_completeness auto
termination
proof (relation "measure (\<lambda>l. lx_end l - lx_curr l)")
  fix l
  assume "tok_type (fst (lexer_next l)) \<noteq> TOKEN_EOF"
  then show "(snd (lexer_next l), l) \<in> measure (\<lambda>l. lx_end l - lx_curr l)"
    using lexer_next_progress [of l] not_EOF_less [of l] by simp
qed simp

declare tokens.simps [simp del]

section \<open>Lexemes\<close>

definition lexeme_ok :: "token_type \<Rightarrow> string \<Rightarrow> bool" where
  "lexeme_ok ty s \<longleftrightarrow>
     (if ty = TOKEN_NUMBER then s \<noteq> [] \<and> (\<forall>c \<in> set s. is_digit c)
      else if ty = TOKEN_IDENTIFIER then
        s \<noteq> [] \<and> (is_alpha (hd s) \<or> hd s = CHR ''_'') \<and> (\<forall>c \<in> set s. is_ident_char c) \<and>
        s \<notin> token_type_name ` set keyword_tokens
      else ty \<notin> {TOKEN_EOF, TOKEN_ERROR} \<and> s = token_type_name ty)"

text \<open>The operators that are returned without a text.\<close>

definition visible_text :: "token_type \<Rightarrow> string \<Rightarrow> string" where
  "visible_text ty s =
     (if ty \<in> {TOKEN_BANG, TOKEN_BANG_EQUAL, TOKEN_EQUAL, TOKEN_EQUAL_EQUAL, TOKEN_LESS,
               TOKEN_LESS_EQUAL, TOKEN_LSHIFT, TOKEN_GREATER, TOKEN_GREATER_EQUAL, TOKEN_RSHIFT}
      then [] else s)"

lemma skip_blank: "rest l = CHR '' '' # r \<Longrightarrow>
    lexer_skip_whitespace l = lexer_skip_whitespace (lexer_advance l)"
  by (subst lexer_skip_whitespace.simps) (auto dest: rest_ConsD)

lemma skip_none:
  assumes "rest l = c # r" "c \<notin> {CHR '' '', CARRIAGE_RETURN, TAB, NEWLINE, CHR ''#''}"
    and "c = CHR ''/'' \<Longrightarrow> lexer_peek_next l \<noteq> CHR ''/'' \<and> lexer_peek_next l \<noteq> CHR ''*''"
  shows "lexer_skip_whitespace l = l"
proof -
  from rest_ConsD [OF assms(1)] have "lx_curr l < lx_end l" "lx_char l = c" by auto
  with assms(2,3) show ?thesis
    by (subst lexer_skip_whitespace.simps) (auto simp: Let_def is_comment_def)
qed

lemma lexer_next_skip: "lexer_skip_whitespace l = lexer_skip_whitespace m \<Longrightarrow> lexer_next l = lexer_next m"
  by (simp add: lexer_next_def)

lemma check_keyword_other: "s \<notin> token_type_name ` set keyword_tokens \<Longrightarrow> check_keyword s = TOKEN_IDENTIFIER"
  by (auto simp: check_keyword_def keyword_tokens_def)

lemma check_keyword_name: "ty \<in> set keyword_tokens \<Longrightarrow> check_keyword (token_type_name ty) = ty"
  by (auto simp: check_keyword_def keyword_tokens_def)

lemma text_from_skip: "text_from (lx_curr l) (skip_while P l) = takeWhile P (rest l)"
  by (simp add: text_from_def skip_while_curr rest_def take_drop_takeWhile)

lemma takeWhile_blank: "\<forall>c \<in> set s. P c \<Longrightarrow> \<not> P b \<Longrightarrow> takeWhile P (s @ b # r) = s"
  "\<forall>c \<in> set s. P c \<Longrightarrow> \<not> P b \<Longrightarrow> dropWhile P (s @ b # r) = b # r"
  by (induction s) auto

lemma ident_not_blank:
  "is_ident_char c \<Longrightarrow> c \<notin> {CHR '' '', CARRIAGE_RETURN, TAB, NEWLINE, CHR ''#''} \<and> c \<noteq> CHR ''/''"
  by (auto simp: is_ident_char_def is_alnum_def is_alpha_def is_digit_def Let_def)

lemma digit_ident: "is_digit c \<Longrightarrow> is_ident_char c"
  by (simp add: is_ident_char_def is_alnum_def)

lemma alpha_not_digit: "is_alpha c \<or> c = CHR ''_'' \<Longrightarrow> \<not> is_digit c"
  by (auto simp: is_alpha_def is_digit_def Let_def)

lemma blank_not_ident [simp]: "\<not> is_ident_char CHR '' ''" "\<not> is_digit CHR '' ''"
  by (simp_all add: is_ident_char_def is_alnum_def is_alpha_def is_digit_def)

text \<open>A number, and a word, followed by a blank.\<close>

lemma lexer_next_number:
  assumes "s \<noteq> []" "\<forall>c \<in> set s. is_digit c" "rest l = s @ CHR '' '' # r"
  shows "lexer_next l = with_text (skip_while is_digit l) TOKEN_NUMBER s"
proof -
  obtain c cs where s: "s = c # cs" using assms(1) by (cases s) auto
  with assms have c: "is_digit c" "rest l = c # cs @ CHR '' '' # r" by simp_all
  from rest_ConsD [OF c(2)] have here: "lx_curr l < lx_end l" "lx_char l = c" by auto
  have "lexer_skip_whitespace l = l"
    using ident_not_blank [OF digit_ident [OF c(1)]] by (intro skip_none [OF c(2)]) auto
  then show ?thesis
    using here c assms by (simp add: lexer_next_def text_from_skip takeWhile_blank)
qed

lemma lexer_next_word:
  assumes "s \<noteq> []" "is_alpha (hd s) \<or> hd s = CHR ''_''" "\<forall>c \<in> set s. is_ident_char c"
    and "rest l = s @ CHR '' '' # r"
  shows "lexer_next l = with_text (skip_while is_ident_char l) (check_keyword s) s"
proof -
  obtain c cs where s: "s = c # cs" using assms(1) by (cases s) auto
  with assms have c: "is_alpha c \<or> c = CHR ''_''" "rest l = c # cs @ CHR '' '' # r" by simp_all
  from rest_ConsD [OF c(2)] have here: "lx_curr l < lx_end l" "lx_char l = c" by auto
  have "lexer_skip_whitespace l = l"
    using ident_not_blank [OF ident_start [OF c(1)]] by (intro skip_none [OF c(2)]) auto
  then show ?thesis
    using here c assms alpha_not_digit [OF c(1)]
    by (auto simp: lexer_next_def text_from_skip takeWhile_blank Let_def)
qed

lemma lexer_next_operator:
  assumes "rest l = c # r" "c \<notin> {CHR '' '', CARRIAGE_RETURN, TAB, NEWLINE, CHR ''#''}"
    and "c = CHR ''/'' \<Longrightarrow> lexer_peek_next l \<noteq> CHR ''/'' \<and> lexer_peek_next l \<noteq> CHR ''*''"
    and "\<not> is_ident_char c"
  shows "lexer_next l = lex_operator c (lexer_advance l)"
proof -
  from rest_ConsD [OF assms(1)] have here: "lx_curr l < lx_end l" "lx_char l = c" by auto
  have "\<not> is_digit c" "\<not> (is_alpha c \<or> c = CHR ''_'')"
    using assms(4) by (auto simp: is_ident_char_def is_alnum_def)
  with skip_none [OF assms(1-3)] here show ?thesis
    by (auto simp: lexer_next_def Let_def)
qed

lemmas token_defs = with_text_def no_text_def lexer_make_token_def lexer_make_token_no_sv_def

lemma keyword_word: "ty \<in> set keyword_tokens \<Longrightarrow>
    token_type_name ty \<noteq> [] \<and> is_alpha (hd (token_type_name ty)) \<and>
    (\<forall>c \<in> set (token_type_name ty). is_ident_char c)"
  by (auto simp: keyword_tokens_def is_ident_char_def is_alnum_def is_alpha_def)

lemma lexer_next_op_lexeme:
  assumes "ty \<notin> set keyword_tokens \<union> {TOKEN_NUMBER, TOKEN_IDENTIFIER, TOKEN_EOF, TOKEN_ERROR}"
    and l: "rest l = token_type_name ty @ CHR '' '' # r"
  shows "tok_type (fst (lexer_next l)) = ty \<and>
    tok_text (fst (lexer_next l)) = visible_text ty (token_type_name ty) \<and>
    rest (snd (lexer_next l)) = CHR '' '' # r"
proof -
  obtain c cs where c: "token_type_name ty = c # cs"
    "c \<notin> {CHR '' '', CARRIAGE_RETURN, TAB, NEWLINE, CHR ''#''}" "\<not> is_ident_char c"
    "c = CHR ''/'' \<longrightarrow> cs = []"
    using assms(1) by (cases ty) (simp_all add: keyword_tokens_def is_ident_char_def
        is_alnum_def is_alpha_def is_digit_def)
  have r: "rest l = c # cs @ CHR '' '' # r" using l c by simp
  have op: "lexer_next l = lex_operator c (lexer_advance l)"
    by (rule lexer_next_operator [OF r c(2) _ c(3)]) (use c(4) r in \<open>auto simp: lexer_peek_next_rest\<close>)
  have peek: "lexer_peek (lexer_advance l) = (case cs of [] \<Rightarrow> CHR '' '' | d # _ \<Rightarrow> d)"
    using r by (simp add: lexer_peek_rest split: list.split)
  have c': "c = hd (token_type_name ty)" "cs = tl (token_type_name ty)" using c(1) by simp_all
  show ?thesis
    using assms(1) l unfolding op
    by (cases ty) (simp_all add: lex_operator_def single_tokens_def token_defs peek visible_text_def
        keyword_tokens_def c')
qed

text \<open>One lexeme followed by a blank gives one token and stops at the blank.\<close>

lemma lexer_next_lexeme:
  assumes ok: "lexeme_ok ty s" and l: "rest l = s @ CHR '' '' # r"
  shows "tok_type (fst (lexer_next l)) = ty \<and> tok_text (fst (lexer_next l)) = visible_text ty s \<and>
    rest (snd (lexer_next l)) = CHR '' '' # r"
proof -
  consider (number) "ty = TOKEN_NUMBER" | (ident) "ty = TOKEN_IDENTIFIER"
    | (keyword) "ty \<in> set keyword_tokens"
    | (op) "ty \<notin> set keyword_tokens \<union> {TOKEN_NUMBER, TOKEN_IDENTIFIER}" by blast
  then show ?thesis
  proof cases
    case number
    with ok have s: "s \<noteq> []" "\<forall>c \<in> set s. is_digit c" by (auto simp: lexeme_ok_def)
    from lexer_next_number [OF s l] number l s show ?thesis
      by (simp add: token_defs visible_text_def rest_skip_while takeWhile_blank)
  next
    case ident
    with ok have s: "s \<noteq> []" "is_alpha (hd s) \<or> hd s = CHR ''_''" "\<forall>c \<in> set s. is_ident_char c"
      and "check_keyword s = TOKEN_IDENTIFIER" by (auto simp: lexeme_ok_def check_keyword_other)
    with lexer_next_word [OF s l] ident l show ?thesis
      by (simp add: token_defs visible_text_def rest_skip_while takeWhile_blank)
  next
    case keyword
    then have sn: "s = token_type_name ty" using ok by (auto simp: lexeme_ok_def keyword_tokens_def)
    have s: "s \<noteq> []" "is_alpha (hd s) \<or> hd s = CHR ''_''" "\<forall>c \<in> set s. is_ident_char c"
      and "check_keyword s = ty" using keyword_word [OF keyword] check_keyword_name [OF keyword] sn
      by auto
    moreover have "visible_text ty s = s"
      using keyword by (auto simp: visible_text_def keyword_tokens_def)
    ultimately show ?thesis
      using lexer_next_word [OF s l] l
      by (simp add: token_defs rest_skip_while takeWhile_blank)
  next
    case op
    with ok l lexer_next_op_lexeme [of ty l r] show ?thesis
      by (auto simp: lexeme_ok_def)
  qed
qed

definition spaced :: "(token_type \<times> string) list \<Rightarrow> string" where
  "spaced ts = concat (map (\<lambda>(ty, s). s @ '' '') ts)"

lemma tokens_skip: "rest l = CHR '' '' # r \<Longrightarrow> tokens l = tokens (lexer_advance l)"
  using lexer_next_skip [OF skip_blank] by (metis tokens.simps)

lemma tokens_spaced:
  assumes "\<forall>(ty, s) \<in> set ts. lexeme_ok ty s" and "rest l = spaced ts"
  shows "map (\<lambda>t. (tok_type t, tok_text t)) (tokens l) =
    map (\<lambda>(ty, s). (ty, visible_text ty s)) ts @ [(TOKEN_EOF, [])]"
  using assms
proof (induction ts arbitrary: l)
  case Nil
  then have "lexer_skip_whitespace l = l"
    by (subst lexer_skip_whitespace.simps) (simp add: spaced_def rest_Nil_iff)
  with Nil show ?case
    by (subst tokens.simps) (simp add: lexer_next_def token_defs rest_Nil_iff spaced_def)
next
  case (Cons a ts)
  obtain ty s where a: "a = (ty, s)" by (cases a)
  let ?l = "snd (lexer_next l)"
  have l: "rest l = s @ CHR '' '' # spaced ts" and ok: "lexeme_ok ty s"
    using Cons.prems a by (auto simp: spaced_def)
  note one = lexer_next_lexeme [OF ok l]
  from one have "tokens ?l = tokens (lexer_advance ?l)" by (intro tokens_skip) auto
  moreover have "map (\<lambda>t. (tok_type t, tok_text t)) (tokens (lexer_advance ?l)) =
      map (\<lambda>(ty, s). (ty, visible_text ty s)) ts @ [(TOKEN_EOF, [])]"
    using Cons.prems one by (intro Cons.IH) auto
  moreover have "ty \<noteq> TOKEN_EOF" using ok by (auto simp: lexeme_ok_def)
  ultimately show ?case
    using one a by (subst tokens.simps) auto
qed

end
