(* ===== verification/Parser.thy ===== *)
theory Parser
  imports Ast LexerFacts
begin

text \<open>
  The recursive-descent parser: \<open>srcs/parser/parser.c\<close>, \<open>parser_utils.c\<close>, \<open>parser_expr.c\<close> and
  \<open>parser_stmt.c\<close>. The parser state is passed explicitly. Every C function is a definition of its
  own; those that are mutually recursive take the function they call back (\<open>parse_expression\<close>,
  \<open>parse_statement\<close>) as their first argument, and the two recursions are closed with fuel at the
  end of their section. \<open>ParserFacts\<close> shows how much fuel is enough.
\<close>

record parser =
  ps_lexer :: lexer
  ps_errors :: error_context
  ps_current :: token
  ps_next :: token
  ps_panic_mode :: bool
  ps_expr_depth :: nat

type_synonym 'a parse = "('a \<times> parser) outcome"

abbreviation next_type :: "parser \<Rightarrow> token_type" where "next_type p \<equiv> tok_type (ps_next p)"
abbreviation current_type :: "parser \<Rightarrow> token_type" where "current_type p \<equiv> tok_type (ps_current p)"

section \<open>Utilities\<close>

text \<open>The loop of \<open>parser_advance\<close>: read tokens until one is not \<open>TOKEN_ERROR\<close>.\<close>

function next_token :: "lexer \<Rightarrow> token \<times> lexer" where
  "next_token l =
     (if tok_type (fst (lexer_next l)) \<noteq> TOKEN_ERROR then lexer_next l
      else next_token (snd (lexer_next l)))"
  by pat_completeness auto
termination
proof (relation "measure (\<lambda>l. lx_end l - lx_curr l)")
  fix l
  assume "\<not> tok_type (fst (lexer_next l)) \<noteq> TOKEN_ERROR"
  then have "tok_type (fst (lexer_next l)) \<noteq> TOKEN_EOF" by simp
  then show "(snd (lexer_next l), l) \<in> measure (\<lambda>l. lx_end l - lx_curr l)"
    using lexer_next_progress [of l] not_EOF_less [of l] by simp
qed simp

declare next_token.simps [simp del]

definition parser_advance :: "parser \<Rightarrow> parser" where
  "parser_advance p =
     (let (t, l) = next_token (ps_lexer p)
      in p\<lparr>ps_current := ps_next p, ps_next := t, ps_lexer := l\<rparr>)"

definition parser_error :: "string \<Rightarrow> parser \<Rightarrow> parser" where
  "parser_error text p =
     (if ps_panic_mode p then p
      else p\<lparr>ps_panic_mode := True,
             ps_errors := error_parser (ps_errors p) (Some (lx_name (ps_lexer p)))
               (tok_line (ps_current p)) (tok_column (ps_current p)) (snprintf 512 text)\<rparr>)"

text \<open>The rank of what \<open>parser_advance\<close> has not consumed yet: it falls with every advance.\<close>

definition remaining :: "parser \<Rightarrow> nat" where
  "remaining p = (if next_type p = TOKEN_EOF then 0
                  else Suc (lx_end (ps_lexer p) - lx_curr (ps_lexer p)))"

lemma next_token_not_ERROR [simp]: "tok_type (fst (next_token l)) \<noteq> TOKEN_ERROR"
  by (induction l rule: next_token.induct) (subst next_token.simps, simp)

lemma next_token_data [simp]: "lx_data (snd (next_token l)) = lx_data l"
    "lx_name (snd (next_token l)) = lx_name l"
  by (induction l rule: next_token.induct; subst next_token.simps; simp)+

lemma next_token_progress:
  "tok_type (fst (next_token l)) \<noteq> TOKEN_EOF \<Longrightarrow>
   lx_curr l < lx_curr (snd (next_token l)) \<and> lx_curr l < lx_end l"
proof (induction l rule: next_token.induct)
  case (1 l)
  show ?case
  proof (cases "tok_type (fst (lexer_next l)) = TOKEN_ERROR")
    case True
    moreover from True have "tok_type (fst (lexer_next l)) \<noteq> TOKEN_EOF" by simp
    ultimately show ?thesis
      using 1 lexer_next_progress [of l] not_EOF_less [of l]
      by (subst (asm) (2) next_token.simps, subst (1) next_token.simps) auto
  next
    case False
    with "1.prems" show ?thesis
      using lexer_next_progress [of l] not_EOF_less [of l]
      by (subst (asm) next_token.simps, subst next_token.simps) simp
  qed
qed

lemma parser_advance_fields [simp]:
  "ps_current (parser_advance p) = ps_next p"
  "ps_next (parser_advance p) = fst (next_token (ps_lexer p))"
  "ps_lexer (parser_advance p) = snd (next_token (ps_lexer p))"
  "ps_errors (parser_advance p) = ps_errors p"
  "ps_panic_mode (parser_advance p) = ps_panic_mode p"
  "ps_expr_depth (parser_advance p) = ps_expr_depth p"
  by (simp_all add: parser_advance_def split: prod.split)

lemma remaining_advance: "next_type p \<noteq> TOKEN_EOF \<Longrightarrow> remaining (parser_advance p) < remaining p"
  using next_token_progress [of "ps_lexer p"] by (auto simp: remaining_def)

text \<open>\<open>parser_synchronize\<close>: leave panic mode, then drop tokens up to a statement boundary.\<close>

definition sync_tokens :: "token_type set" where
  "sync_tokens = {TOKEN_IF, TOKEN_WHILE, TOKEN_RETURN, TOKEN_INT, TOKEN_LBRACE}"

function sync_loop :: "parser \<Rightarrow> parser" where
  "sync_loop p =
     (if next_type p \<noteq> TOKEN_EOF then
        if current_type p = TOKEN_SEMICOLON then p
        else if next_type p \<in> sync_tokens then p
        else sync_loop (parser_advance p)
      else p)"
  by pat_completeness auto
termination
  by (relation "measure remaining") (auto simp: remaining_advance)

declare sync_loop.simps [simp del]

definition parser_synchronize :: "parser \<Rightarrow> parser" where
  "parser_synchronize p = sync_loop (p\<lparr>ps_panic_mode := False\<rparr>)"

definition parser_consume :: "token_type \<Rightarrow> string \<Rightarrow> parser \<Rightarrow> parser" where
  "parser_consume ty msg p =
     (if next_type p = ty then (parser_advance p)\<lparr>ps_panic_mode := False\<rparr>
      else parser_synchronize
             (parser_error (msg @ '' (got '' @ token_type_name (next_type p) @ '')'') p))"

definition check :: "token_type \<Rightarrow> parser \<Rightarrow> bool" where
  "check ty p \<longleftrightarrow> next_type p = ty"

text \<open>\<open>match\<close>.\<close>

definition match_token :: "token_type \<Rightarrow> parser \<Rightarrow> bool \<times> parser" where
  "match_token ty p = (if next_type p = ty then (True, parser_advance p) else (False, p))"

definition parse_type :: "parser \<Rightarrow> data_type \<times> parser" where
  "parse_type p =
     (if is_type_keyword (tok_text (ps_next p)) then
        (let p = parser_advance p in (type_from_sv (tok_text (ps_current p)), p))
      else (TYPE_VOID, parser_error
              (''expected type specifier (e.g. '' @ quoted ''int'' @ '', '' @ quoted ''char'' @
               '', '' @ quoted ''void'' @ '')'') p))"

section \<open>Expressions\<close>

type_synonym parse_expr = "precedence \<Rightarrow> parser \<Rightarrow> ast parse"

definition info_at_line :: "int \<Rightarrow> node_info" where
  "info_at_line ln = zero_info\<lparr>node_line := ln\<rparr>"

definition parse_number :: "parser \<Rightarrow> ast parse" where
  "parse_number p =
     Ret (AstNumber (info_at_line (tok_line (ps_current p))) (tok_text (ps_current p)), p)"

definition parse_identifier :: "parser \<Rightarrow> ast parse" where
  "parse_identifier p =
     Ret (AstIdentifier (info_at_line (tok_line (ps_current p))) (tok_text (ps_current p)), p)"

text \<open>
  The \<open>switch\<close> of \<open>parse_unary\<close>. Its \<open>default\<close> would tag the node as a number whose text is the
  operand pointer; the table installs \<open>parse_unary\<close> for the three listed tokens only.
\<close>

fun unary_of_token :: "token_type \<Rightarrow> unary_type option" where
  "unary_of_token TOKEN_MINUS = Some AST_NEGATE"
| "unary_of_token TOKEN_BANG = Some AST_NOT"
| "unary_of_token TOKEN_BIT_NOT = Some AST_BIT_NOT"
| "unary_of_token _ = None"

definition parse_unary :: "parse_expr \<Rightarrow> parser \<Rightarrow> ast parse" where
  "parse_unary pe p =
     (case unary_of_token (current_type p) of
        None \<Rightarrow> Fault Undefined
      | Some op \<Rightarrow> obind (pe PREC_UNARY p) (\<lambda>(operand, p). Ret (AstUnary op zero_info operand, p)))"

fun binary_of_token :: "token_type \<Rightarrow> binary_type option" where
  "binary_of_token TOKEN_PLUS = Some AST_ADD"
| "binary_of_token TOKEN_MINUS = Some AST_SUB"
| "binary_of_token TOKEN_STAR = Some AST_MUL"
| "binary_of_token TOKEN_SLASH = Some AST_DIV"
| "binary_of_token TOKEN_EQUAL_EQUAL = Some AST_EQUAL"
| "binary_of_token TOKEN_BANG_EQUAL = Some AST_NOT_EQUAL"
| "binary_of_token TOKEN_LESS = Some AST_LESS"
| "binary_of_token TOKEN_LESS_EQUAL = Some AST_LESS_EQUAL"
| "binary_of_token TOKEN_GREATER = Some AST_GREATER"
| "binary_of_token TOKEN_GREATER_EQUAL = Some AST_GREATER_EQUAL"
| "binary_of_token TOKEN_LSHIFT = Some AST_LSHIFT"
| "binary_of_token TOKEN_RSHIFT = Some AST_RSHIFT"
| "binary_of_token TOKEN_BIT_AND = Some AST_BIT_AND"
| "binary_of_token TOKEN_BIT_OR = Some AST_BIT_OR"
| "binary_of_token TOKEN_BIT_XOR = Some AST_BIT_XOR"
| "binary_of_token _ = None"

definition parse_binary :: "parse_expr \<Rightarrow> ast \<Rightarrow> parser \<Rightarrow> ast parse" where
  "parse_binary pe left p =
     (case binary_of_token (current_type p) of
        None \<Rightarrow> Ret (AstNull, parser_error ''invalid binary operator'' p)
      | Some op \<Rightarrow>
          obind (pe (get_token_precedence (current_type p)) p)
            (\<lambda>(right, p). Ret (AstBinary op zero_info left right, p)))"

definition parse_assignment :: "parse_expr \<Rightarrow> ast \<Rightarrow> parser \<Rightarrow> ast parse" where
  "parse_assignment pe left p =
     (case left of
        AstNull \<Rightarrow> Fault NullDeref
      | AstIdentifier _ name \<Rightarrow>
          obind (pe PREC_ASSIGNMENT p) (\<lambda>(value, p). Ret (AstAssignment zero_info name value, p))
      | _ \<Rightarrow> Ret (AstNull, parser_error ''Invalid assignment target'' p))"

definition parse_grouping :: "parse_expr \<Rightarrow> parser \<Rightarrow> ast parse" where
  "parse_grouping pe p =
     obind (pe PREC_NONE p) (\<lambda>(e, p).
       Ret (e, parser_consume TOKEN_RPAREN (''Expect '' @ quoted '')'' @ '' after expression.'') p))"

text \<open>The \<open>do \<dots> while\<close> loop of \<open>parse_call\<close>; \<open>args\<close> holds the arguments stored so far.\<close>

primrec parse_args :: "parse_expr \<Rightarrow> nat \<Rightarrow> ast list \<Rightarrow> parser \<Rightarrow> ast list parse" where
  "parse_args pe 0 args p = Timeout"
| "parse_args pe (Suc n) args p =
     (if length args \<ge> MAX_PARAMS_PER_FUNCTION then
        Ret (args, parser_synchronize
          (parser_error (''Too many arguments (max '' @ fmt_nat MAX_PARAMS_PER_FUNCTION @ '')'') p))
      else
        obind (pe PREC_ASSIGNMENT p) (\<lambda>(arg, p).
          if is_null arg then Ret (args, parser_synchronize p)
          else
            (let (more, p) = match_token TOKEN_COMMA p
             in if more then parse_args pe n (args @ [arg]) p else Ret (args @ [arg], p))))"

definition parse_call :: "parse_expr \<Rightarrow> nat \<Rightarrow> ast \<Rightarrow> parser \<Rightarrow> ast parse" where
  "parse_call pe n callee p =
     (case callee of
        AstNull \<Rightarrow> Fault NullDeref
      | AstIdentifier i name \<Rightarrow>
          obind (if check TOKEN_RPAREN p then Ret ([], p) else parse_args pe n [] p) (\<lambda>(args, p).
            Ret (AstCall (zero_info\<lparr>node_line := node_line i, node_column := node_column i\<rparr>) name args,
                 parser_consume TOKEN_RPAREN (''Expected '' @ quoted '')'' @ '' after arguments'') p))
      | _ \<Rightarrow> Ret (AstNull, parser_error ''Can only call functions'' p))"

text \<open>Calls through the rule table.\<close>

fun parse_prefix :: "parse_expr \<Rightarrow> prefix_fn \<Rightarrow> parser \<Rightarrow> ast parse" where
  "parse_prefix pe PARSE_NUMBER p = parse_number p"
| "parse_prefix pe PARSE_IDENTIFIER p = parse_identifier p"
| "parse_prefix pe PARSE_UNARY p = parse_unary pe p"
| "parse_prefix pe PARSE_GROUPING p = parse_grouping pe p"

fun parse_infix :: "parse_expr \<Rightarrow> nat \<Rightarrow> infix_fn \<Rightarrow> ast \<Rightarrow> parser \<Rightarrow> ast parse" where
  "parse_infix pe n PARSE_BINARY left p = parse_binary pe left p"
| "parse_infix pe n PARSE_ASSIGNMENT left p = parse_assignment pe left p"
| "parse_infix pe n PARSE_CALL left p = parse_call pe n left p"

text \<open>The \<open>while (precedence < get_token_precedence(parser->next.type))\<close> loop.\<close>

primrec infix_loop :: "parse_expr \<Rightarrow> nat \<Rightarrow> precedence \<Rightarrow> ast \<Rightarrow> parser \<Rightarrow> ast parse" where
  "infix_loop pe 0 prec left p = Timeout"
| "infix_loop pe (Suc n) prec left p =
     (if prec < get_token_precedence (next_type p) then
        let p = parser_advance p in
        case rule_infix (current_type p) of
          None \<Rightarrow> infix_loop pe n prec left p
        | Some fn \<Rightarrow>
            obind (parse_infix pe n fn left p) (\<lambda>(left, p). infix_loop pe n prec left p)
      else Ret (left, p))"

definition expression_body :: "parse_expr \<Rightarrow> nat \<Rightarrow> precedence \<Rightarrow> parser \<Rightarrow> ast parse" where
  "expression_body pe n prec p =
     (if ps_expr_depth p \<ge> MAX_EXPRESSION_DEPTH then
        Ret (AstNull, parser_error
          (''Expression too deeply nested (max '' @ fmt_nat MAX_EXPRESSION_DEPTH @ '')'') p)
      else
        let p = parser_advance (p\<lparr>ps_expr_depth := ps_expr_depth p + 1\<rparr>) in
        case rule_prefix (current_type p) of
          None \<Rightarrow>
            (let p = parser_error ''Expect expression'' p
             in Ret (AstNull, p\<lparr>ps_expr_depth := ps_expr_depth p - 1\<rparr>))
        | Some fn \<Rightarrow>
            obind (parse_prefix pe fn p) (\<lambda>(left, p).
            obind (infix_loop pe n prec left p) (\<lambda>(left, p).
            Ret (left, p\<lparr>ps_expr_depth := ps_expr_depth p - 1\<rparr>))))"

primrec parse_expression :: "nat \<Rightarrow> parse_expr" where
  "parse_expression 0 = (\<lambda>prec p. Timeout)"
| "parse_expression (Suc n) = expression_body (parse_expression n) n"

section \<open>Statements\<close>

type_synonym parse_stmt = "parser \<Rightarrow> ast parse"

definition info_typed :: "data_type \<Rightarrow> int \<Rightarrow> node_info" where
  "info_typed t ln = zero_info\<lparr>value_type := t, node_line := ln\<rparr>"

primrec block_loop :: "parse_stmt \<Rightarrow> nat \<Rightarrow> ast list \<Rightarrow> parser \<Rightarrow> ast list parse" where
  "block_loop ps 0 stmts p = Timeout"
| "block_loop ps (Suc n) stmts p =
     (if \<not> check TOKEN_RBRACE p \<and> \<not> check TOKEN_EOF p then
        if length stmts \<ge> MAX_BLOCK_STATEMENTS then
          Ret (stmts, parser_synchronize
            (parser_error (''Block too large (max '' @ fmt_nat MAX_BLOCK_STATEMENTS @ '' statements)'') p))
        else
          obind (ps p) (\<lambda>(stmt, p).
            if is_null stmt then block_loop ps n stmts (parser_synchronize p)
            else block_loop ps n (stmts @ [stmt]) p)
      else Ret (stmts, p))"

definition parse_block :: "parse_stmt \<Rightarrow> nat \<Rightarrow> parser \<Rightarrow> ast parse" where
  "parse_block ps n p =
     (let p = parser_consume TOKEN_LBRACE (''Expected '' @ quoted ''{'') p in
      obind (block_loop ps n [] p) (\<lambda>(stmts, p).
        Ret (AstBlock zero_info stmts, parser_consume TOKEN_RBRACE (''Expected '' @ quoted ''}'') p)))"

definition parse_var_decl :: "parse_expr \<Rightarrow> parser \<Rightarrow> ast parse" where
  "parse_var_decl pe p =
     (let (var_type, p) = parse_type p in
      if ps_panic_mode p then Ret (AstNull, p)
      else
        let p = parser_consume TOKEN_IDENTIFIER ''expected variable name'' p;
            var_name = tok_text (ps_current p);
            var_line = tok_line (ps_current p);
            (eq, p) = match_token TOKEN_EQUAL p in
        obind (if eq then pe PREC_NONE p else Ret (AstNull, p)) (\<lambda>(init, p).
          Ret (AstVarDecl (info_typed var_type var_line) var_name var_type init,
               parser_consume TOKEN_SEMICOLON (''expected '' @ quoted '';'') p)))"

definition parse_return :: "parse_expr \<Rightarrow> parser \<Rightarrow> ast parse" where
  "parse_return pe p =
     (let p = parser_consume TOKEN_RETURN (''expected '' @ quoted ''return'') p;
          ret_line = tok_line (ps_current p) in
      obind (if \<not> check TOKEN_SEMICOLON p then pe PREC_NONE p else Ret (AstNull, p)) (\<lambda>(e, p).
        Ret (AstReturn (info_typed TYPE_VOID ret_line) e,
             parser_consume TOKEN_SEMICOLON (''expected '' @ quoted '';'') p)))"

definition parse_if :: "parse_expr \<Rightarrow> parse_stmt \<Rightarrow> parser \<Rightarrow> ast parse" where
  "parse_if pe ps p =
     (let p = parser_consume TOKEN_IF (''expected '' @ quoted ''if'') p;
          if_line = tok_line (ps_current p);
          p = parser_consume TOKEN_LPAREN (''expected '' @ quoted ''('') p in
      obind (pe PREC_NONE p) (\<lambda>(condition, p).
      let p = parser_consume TOKEN_RPAREN (''expected '' @ quoted '')'') p in
      obind (ps p) (\<lambda>(then_branch, p).
      let (els, p) = match_token TOKEN_ELSE p in
      obind (if els then ps p else Ret (AstNull, p)) (\<lambda>(else_branch, p).
      Ret (AstIf (info_typed TYPE_VOID if_line) condition then_branch else_branch, p)))))"

definition parse_while :: "parse_expr \<Rightarrow> parse_stmt \<Rightarrow> parser \<Rightarrow> ast parse" where
  "parse_while pe ps p =
     (let p = parser_consume TOKEN_WHILE (''expected '' @ quoted ''while'') p;
          while_line = tok_line (ps_current p);
          p = parser_consume TOKEN_LPAREN (''expected '' @ quoted ''('') p in
      obind (pe PREC_NONE p) (\<lambda>(condition, p).
      let p = parser_consume TOKEN_RPAREN (''expected '' @ quoted '')'') p in
      obind (ps p) (\<lambda>(body, p).
      Ret (AstWhile (info_typed TYPE_VOID while_line) condition body, p))))"

definition parse_expr_stmt :: "parse_expr \<Rightarrow> parser \<Rightarrow> ast parse" where
  "parse_expr_stmt pe p =
     obind (pe PREC_NONE p) (\<lambda>(e, p).
       Ret (e, parser_consume TOKEN_SEMICOLON (''expected '' @ quoted '';'') p))"

fun call_stmt :: "parse_expr \<Rightarrow> parse_stmt \<Rightarrow> nat \<Rightarrow> stmt_fn \<Rightarrow> parser \<Rightarrow> ast parse" where
  "call_stmt pe ps n PARSE_VAR_DECL p = parse_var_decl pe p"
| "call_stmt pe ps n PARSE_IF p = parse_if pe ps p"
| "call_stmt pe ps n PARSE_WHILE p = parse_while pe ps p"
| "call_stmt pe ps n PARSE_RETURN p = parse_return pe p"
| "call_stmt pe ps n PARSE_BLOCK p = parse_block ps n p"

definition statement_body :: "parse_expr \<Rightarrow> parse_stmt \<Rightarrow> nat \<Rightarrow> parser \<Rightarrow> ast parse" where
  "statement_body pe ps n p =
     (case rule_stmt (next_type p) of
        Some fn \<Rightarrow> call_stmt pe ps n fn p
      | None \<Rightarrow> parse_expr_stmt pe p)"

primrec parse_statement :: "parse_expr \<Rightarrow> nat \<Rightarrow> parse_stmt" where
  "parse_statement pe 0 = (\<lambda>p. Timeout)"
| "parse_statement pe (Suc n) = statement_body pe (parse_statement pe n) n"

section \<open>Functions and files\<close>

text \<open>The parameter loop; storing a seventeenth parameter writes past the array.\<close>

primrec parse_params :: "nat \<Rightarrow> parameter list \<Rightarrow> parser \<Rightarrow> parameter list parse" where
  "parse_params 0 params p = Timeout"
| "parse_params (Suc n) params p =
     (let (ty, p) = parse_type p;
          p = parser_consume TOKEN_IDENTIFIER ''expected parameter name'' p in
      if length params \<ge> PARAM_ARRAY_SIZE then Fault OutOfBounds
      else
        let params = params @ [\<lparr>param_name = tok_text (ps_current p), param_type = ty\<rparr>];
            (more, p) = match_token TOKEN_COMMA p in
        if more then parse_params n params p else Ret (params, p))"

definition parse_function :: "parse_stmt \<Rightarrow> nat \<Rightarrow> parser \<Rightarrow> ast parse" where
  "parse_function ps n p =
     (let (return_type, p) = parse_type p in
      if ps_panic_mode p then Ret (AstNull, p)
      else
        let p = parser_consume TOKEN_IDENTIFIER ''expected function name.'' p;
            func_name = tok_text (ps_current p);
            func_line = tok_line (ps_current p);
            p = parser_consume TOKEN_LPAREN (''expected '' @ quoted ''('' @ '' after function name.'') p in
        obind (if check TOKEN_RPAREN p then Ret ([], p)
               else if check TOKEN_VOID p then Ret ([], parser_advance p)
               else parse_params n [] p) (\<lambda>(params, p).
        let p = parser_consume TOKEN_RPAREN (''expected '' @ quoted '')'' @ '' after parameters.'') p;
            (semi, p) = match_token TOKEN_SEMICOLON p in
        obind (if semi then Ret (AstNull, p) else parse_block ps n p) (\<lambda>(body, p).
        Ret (AstFunction \<lparr>value_type = return_type, node_line = func_line,
                          node_column = tok_column (ps_current p)\<rparr>
               func_name return_type params body semi, p))))"

primrec declaration_loop :: "parse_stmt \<Rightarrow> nat \<Rightarrow> ast list \<Rightarrow> parser \<Rightarrow> ast parse" where
  "declaration_loop ps 0 decls p = Timeout"
| "declaration_loop ps (Suc n) decls p =
     (if \<not> check TOKEN_EOF p then
        if length decls \<ge> MAX_FUNCTION_COUNT then
          Ret (AstNull, parser_error
            (''too many global declarations (max '' @ fmt_nat MAX_FUNCTION_COUNT @ '')'') p)
        else if is_type_keyword (tok_text (ps_next p)) then
          obind (parse_function ps n p) (\<lambda>(func, p). declaration_loop ps n (decls @ [func]) p)
        else Ret (AstNull, parser_error ''expected function declaration.'' p)
      else Ret (AstTranslationUnit zero_info decls, p))"

definition parser_start :: "lexer \<Rightarrow> error_context \<Rightarrow> parser" where
  "parser_start l errs =
     parser_advance \<lparr>ps_lexer = l, ps_errors = errs, ps_current = zero_token, ps_next = zero_token,
                     ps_panic_mode = False, ps_expr_depth = 0\<rparr>"

text \<open>\<open>parser_parse\<close> with fuel \<open>n\<close> for each of the recursions.\<close>

definition parser_parse :: "nat \<Rightarrow> lexer \<Rightarrow> error_context \<Rightarrow> ast parse" where
  "parser_parse n l errs =
     declaration_loop (parse_statement (parse_expression n) n) n [] (parser_start l errs)"

end
