(* ===== verification/ParserFacts.thy ===== *)
theory ParserFacts
  imports Parser
begin

text \<open>
  What every parser routine guarantees, stated once as a contract and proved for each routine
  against the contract of the routine it calls back. \<open>moves p q\<close> is the frame of a step from \<open>p\<close>
  to \<open>q\<close>: input is only consumed, diagnostics are only added, the nesting counter is restored,
  and panic mode starts only with a new diagnostic. \<open>clean p q\<close> says that the step reported
  nothing.
\<close>

section \<open>Frames\<close>

definition token_ok :: "token \<Rightarrow> bool" where
  "token_ok t \<longleftrightarrow>
     (tok_type t \<in> set keyword_tokens \<longrightarrow> tok_text t = token_type_name (tok_type t))"

text \<open>
  The token read ahead is one the lexer makes, and it is \<open>TOKEN_EOF\<close> only at the end of the file.
\<close>

definition parser_ok :: "parser \<Rightarrow> bool" where
  "parser_ok p \<longleftrightarrow> token_ok (ps_next p) \<and>
     (next_type p = TOKEN_EOF \<longrightarrow> lx_end (ps_lexer p) \<le> lx_curr (ps_lexer p))"

definition moves :: "parser \<Rightarrow> parser \<Rightarrow> bool" where
  "moves p q \<longleftrightarrow> parser_ok q \<and>
     remaining q \<le> remaining p \<and> extends (ps_errors p) (ps_errors q) \<and>
     ps_expr_depth q = ps_expr_depth p \<and> lx_name (ps_lexer q) = lx_name (ps_lexer p) \<and>
     (ps_panic_mode q \<longrightarrow> ps_panic_mode p \<or> error_count (ps_errors p) < error_count (ps_errors q))"

definition clean :: "parser \<Rightarrow> parser \<Rightarrow> bool" where
  "clean p q \<longleftrightarrow> \<not> ps_panic_mode p \<and> error_count (ps_errors q) = error_count (ps_errors p)"

lemma moves_refl [simp]: "moves p p \<longleftrightarrow> parser_ok p"
  by (simp add: moves_def)

lemma moves_trans [trans]: "moves p q \<Longrightarrow> moves q r \<Longrightarrow> moves p r"
  unfolding moves_def using extends_trans extends_error_count
  by (smt (verit) le_less_trans less_le_trans order_trans)

lemma moves_remaining: "moves p q \<Longrightarrow> remaining q \<le> remaining p"
  by (simp add: moves_def)

lemma moves_depth: "moves p q \<Longrightarrow> ps_expr_depth q = ps_expr_depth p"
  by (simp add: moves_def)

lemma moves_ok: "moves p q \<Longrightarrow> parser_ok q"
  by (simp add: moves_def)

lemma moves_errors: "moves p q \<Longrightarrow> extends (ps_errors p) (ps_errors q)"
  by (simp add: moves_def)

text \<open>A clean run is clean in each of its parts.\<close>

lemma clean_split: "moves p q \<Longrightarrow> moves q r \<Longrightarrow> clean p r \<Longrightarrow> clean p q \<and> clean q r"
  unfolding moves_def clean_def using extends_error_count
  by (metis le_antisym less_irrefl)

lemma clean_first: "moves p q \<Longrightarrow> moves q r \<Longrightarrow> clean p r \<Longrightarrow> clean p q"
  using clean_split by blast

lemma clean_second: "moves p q \<Longrightarrow> moves q r \<Longrightarrow> clean p r \<Longrightarrow> clean q r"
  using clean_split by blast

section \<open>Utilities\<close>

lemma lex_operator_token_ok: "token_ok (fst (lex_operator c l))"
proof -
  have "ty \<notin> set keyword_tokens" if "map_of single_tokens c = Some ty" for ty
    using map_of_SomeD [OF that] by (auto simp: single_tokens_def keyword_tokens_def)
  then show ?thesis
    by (cases "map_of single_tokens c")
      (simp_all add: lex_operator_def token_ok_def token_defs, simp add: keyword_tokens_def)
qed

lemma lexer_next_forms:
  obtains (eof) m where "lexer_next l = no_text m TOKEN_EOF"
  | (number) m s where "lexer_next l = with_text m TOKEN_NUMBER s"
  | (word) m s where "lexer_next l = with_text m (check_keyword s) s"
  | (op) c m where "lexer_next l = lex_operator c m"
proof -
  let ?m = "lexer_skip_whitespace l"
  consider "lx_end ?m \<le> lx_curr ?m" | "lx_curr ?m < lx_end ?m" "is_digit (lx_char ?m)"
    | "lx_curr ?m < lx_end ?m" "\<not> is_digit (lx_char ?m)" "is_alpha (lx_char ?m) \<or> lx_char ?m = CHR ''_''"
    | "lx_curr ?m < lx_end ?m" "\<not> is_digit (lx_char ?m)" "\<not> (is_alpha (lx_char ?m) \<or> lx_char ?m = CHR ''_'')"
    by linarith
  then show thesis
  proof cases
    case 1
    then have "lexer_next l = no_text ?m TOKEN_EOF" by (simp add: lexer_next_def)
    then show thesis by (rule eof)
  next
    case 2
    then have "lexer_next l = with_text (skip_while is_digit ?m) TOKEN_NUMBER
        (text_from (lx_curr ?m) (skip_while is_digit ?m))" by (simp add: lexer_next_def Let_def)
    then show thesis by (rule number)
  next
    case 3
    then have "lexer_next l = with_text (skip_while is_ident_char ?m)
        (check_keyword (text_from (lx_curr ?m) (skip_while is_ident_char ?m)))
        (text_from (lx_curr ?m) (skip_while is_ident_char ?m))" by (auto simp: lexer_next_def Let_def)
    then show thesis by (rule word)
  next
    case 4
    then have "lexer_next l = lex_operator (lx_char ?m) (lexer_advance ?m)"
      by (simp add: lexer_next_def Let_def)
    then show thesis by (rule op)
  qed
qed

lemma check_keyword_text:
  "check_keyword s \<in> set keyword_tokens \<Longrightarrow> s = token_type_name (check_keyword s)"
proof -
  assume kw: "check_keyword s \<in> set keyword_tokens"
  then have "check_keyword s \<noteq> TOKEN_IDENTIFIER" by (auto simp: keyword_tokens_def)
  then obtain ty where "ty \<in> set keyword_tokens" "s = token_type_name ty"
    using check_keyword_other [of s] by blast
  then show ?thesis by (simp add: check_keyword_name)
qed

lemma lexer_next_token_ok: "token_ok (fst (lexer_next l))"
proof (cases l rule: lexer_next_forms)
  case (word m s)
  then show ?thesis using check_keyword_text [of s] by (simp add: token_ok_def token_defs)
next
  case (op c m)
  then show ?thesis by (simp add: lex_operator_token_ok)
qed (simp_all add: token_ok_def token_defs keyword_tokens_def)

lemma next_token_token_ok: "token_ok (fst (next_token l))"
  by (induction l rule: next_token.induct) (subst next_token.simps, simp add: lexer_next_token_ok)

lemma lexer_next_at_end: "lx_end l \<le> lx_curr l \<Longrightarrow> lexer_next l = no_text l TOKEN_EOF"
proof -
  assume "lx_end l \<le> lx_curr l"
  moreover from this have "lexer_skip_whitespace l = l"
    by (subst lexer_skip_whitespace.simps) simp
  ultimately show ?thesis by (simp add: lexer_next_def)
qed

lemma next_token_at_end: "lx_end l \<le> lx_curr l \<Longrightarrow> next_token l = no_text l TOKEN_EOF"
  by (subst next_token.simps) (simp add: lexer_next_at_end token_defs)

lemma next_token_EOF_end:
  "tok_type (fst (next_token l)) = TOKEN_EOF \<Longrightarrow> lx_end l \<le> lx_curr (snd (next_token l))"
proof (induction l rule: next_token.induct)
  case (1 l)
  show ?case
  proof (cases "tok_type (fst (lexer_next l)) = TOKEN_ERROR")
    case True
    with 1 show ?thesis by (metis next_token.simps lexer_next_data(1))
  next
    case False
    with "1.prems" have eq: "next_token l = lexer_next l" by (metis next_token.simps)
    with "1.prems" show ?thesis by (simp add: lexer_next_EOF_end)
  qed
qed

lemma parser_ok_advance [simp]: "parser_ok (parser_advance p)"
  by (simp add: parser_ok_def next_token_token_ok next_token_EOF_end)

lemma advance_at_EOF:
  "parser_ok p \<Longrightarrow> next_type p = TOKEN_EOF \<Longrightarrow> next_type (parser_advance p) = TOKEN_EOF"
  by (simp add: parser_ok_def next_token_at_end token_defs)

lemma moves_advance: "parser_ok p \<Longrightarrow> moves p (parser_advance p)"
  using remaining_advance [of p] advance_at_EOF [of p]
  by (cases "next_type p = TOKEN_EOF") (auto simp: moves_def remaining_def)

lemma parser_error_fields [simp]:
  "ps_current (parser_error t p) = ps_current p" "ps_next (parser_error t p) = ps_next p"
  "ps_lexer (parser_error t p) = ps_lexer p" "ps_expr_depth (parser_error t p) = ps_expr_depth p"
  "ps_panic_mode (parser_error t p)"
  by (simp_all add: parser_error_def)

lemma remaining_error [simp]: "remaining (parser_error t p) = remaining p"
  by (simp add: remaining_def)

lemma parser_ok_error [simp]: "parser_ok (parser_error t p) = parser_ok p"
  by (simp add: parser_ok_def)

lemma moves_error: "parser_ok p \<Longrightarrow> moves p (parser_error t p)"
  by (simp add: moves_def) (simp add: parser_error_def)

lemma not_clean_error [simp]: "\<not> clean p (parser_error t p)"
  by (simp add: clean_def parser_error_def)

lemma panic_False_fields [simp]:
  "parser_ok (p\<lparr>ps_panic_mode := b\<rparr>) = parser_ok p"
  "remaining (p\<lparr>ps_panic_mode := b\<rparr>) = remaining p"
  by (simp_all add: parser_ok_def remaining_def)

lemma moves_panic_off: "parser_ok p \<Longrightarrow> moves p (p\<lparr>ps_panic_mode := False\<rparr>)"
  by (simp add: moves_def)

lemma moves_sync_loop: "parser_ok p \<Longrightarrow> moves p (sync_loop p)"
proof (induction p rule: sync_loop.induct)
  case (1 p)
  show ?case
  proof (cases "next_type p \<noteq> TOKEN_EOF \<and> current_type p \<noteq> TOKEN_SEMICOLON \<and> next_type p \<notin> sync_tokens")
    case True
    with 1 have "moves (parser_advance p) (sync_loop (parser_advance p))" by simp
    with moves_advance [OF "1.prems"] have "moves p (sync_loop (parser_advance p))"
      by (rule moves_trans)
    with True show ?thesis by (subst sync_loop.simps) simp
  next
    case False
    with "1.prems" show ?thesis by (subst sync_loop.simps) auto
  qed
qed

lemma sync_loop_panic [simp]: "ps_panic_mode (sync_loop p) = ps_panic_mode p"
  by (induction p rule: sync_loop.induct) (subst sync_loop.simps, simp)

lemma moves_synchronize: "parser_ok p \<Longrightarrow> moves p (parser_synchronize p)"
  unfolding parser_synchronize_def
  by (rule moves_trans [OF moves_panic_off moves_sync_loop]) simp_all

lemma synchronize_panic [simp]: "\<not> ps_panic_mode (parser_synchronize p)"
  by (simp add: parser_synchronize_def)

lemma moves_error_synchronize: "parser_ok p \<Longrightarrow> moves p (parser_synchronize (parser_error t p))"
  by (rule moves_trans [OF moves_error moves_synchronize]) simp_all

lemma not_clean_error_synchronize:
  "parser_ok p \<Longrightarrow> \<not> clean p (parser_synchronize (parser_error t p))"
  using clean_first [OF moves_error moves_synchronize] by auto

lemma moves_consume: "parser_ok p \<Longrightarrow> moves p (parser_consume ty msg p)"
  using moves_trans [OF moves_advance moves_panic_off]
  by (simp add: parser_consume_def moves_error_synchronize)

lemma consume_panic [simp]: "\<not> ps_panic_mode (parser_consume ty msg p)"
  by (simp add: parser_consume_def)

lemma clean_consume: "parser_ok p \<Longrightarrow> clean p (parser_consume ty msg p) \<Longrightarrow> next_type p = ty"
  using not_clean_error_synchronize by (auto simp: parser_consume_def split: if_splits)

lemma consume_progress: "next_type p = ty \<Longrightarrow> ty \<noteq> TOKEN_EOF \<Longrightarrow>
    remaining (parser_consume ty msg p) < remaining p"
  by (simp add: parser_consume_def remaining_advance)

lemma moves_match: "parser_ok p \<Longrightarrow> match_token ty p = (b, q) \<Longrightarrow> moves p q"
  by (auto simp: match_token_def moves_advance split: if_splits)

lemma match_progress:
  "match_token ty p = (True, q) \<Longrightarrow> ty \<noteq> TOKEN_EOF \<Longrightarrow> remaining q < remaining p"
  by (auto simp: match_token_def remaining_advance split: if_splits)

lemma moves_type: "parser_ok p \<Longrightarrow> parse_type p = (ty, q) \<Longrightarrow> moves p q"
  by (auto simp: parse_type_def moves_advance moves_error Let_def split: if_splits)

section \<open>Sizes\<close>

text \<open>
  Bounds on every node of a tree, complete or not: calls have at most 32 arguments, blocks at
  most 512 statements, functions at most 16 parameters.
\<close>

fun bounded :: "ast \<Rightarrow> bool" where
  "bounded AstNull = True"
| "bounded (AstNumber _ _) = True"
| "bounded (AstIdentifier _ _) = True"
| "bounded (AstBinary _ _ l r) \<longleftrightarrow> bounded l \<and> bounded r"
| "bounded (AstUnary _ _ e) \<longleftrightarrow> bounded e"
| "bounded (AstVarDecl _ _ _ e) \<longleftrightarrow> bounded e"
| "bounded (AstAssignment _ _ e) \<longleftrightarrow> bounded e"
| "bounded (AstIf _ c t e) \<longleftrightarrow> bounded c \<and> bounded t \<and> bounded e"
| "bounded (AstWhile _ c b) \<longleftrightarrow> bounded c \<and> bounded b"
| "bounded (AstBlock _ ss) \<longleftrightarrow> length ss \<le> MAX_BLOCK_STATEMENTS \<and> list_all bounded ss"
| "bounded (AstReturn _ e) \<longleftrightarrow> bounded e"
| "bounded (AstFunction _ _ _ ps b _) \<longleftrightarrow> length ps \<le> PARAM_ARRAY_SIZE \<and> bounded b"
| "bounded (AstTranslationUnit _ ds) \<longleftrightarrow> length ds \<le> MAX_FUNCTION_COUNT \<and> list_all bounded ds"
| "bounded (AstCall _ _ es) \<longleftrightarrow> length es \<le> MAX_PARAMS_PER_FUNCTION \<and> list_all bounded es"

section \<open>The contract of expression parsing\<close>

text \<open>
  \<open>expr_result p q e\<close>: what a caller may assume of an expression \<open>e\<close> parsed between \<open>p\<close> and \<open>q\<close>.
\<close>

definition expr_result :: "parser \<Rightarrow> ast \<times> parser \<Rightarrow> bool" where
  "expr_result p = (\<lambda>(e, q). moves p q \<and> bounded e \<and> (clean p q \<longrightarrow> complete_expr e))"

definition args_result :: "parser \<Rightarrow> ast list \<times> parser \<Rightarrow> bool" where
  "args_result p = (\<lambda>(es, q). moves p q \<and> length es \<le> MAX_PARAMS_PER_FUNCTION \<and>
     list_all bounded es \<and> (clean p q \<longrightarrow> list_all complete_expr es))"

lemma expr_resultI: "moves p q \<Longrightarrow> bounded e \<Longrightarrow> (clean p q \<Longrightarrow> complete_expr e) \<Longrightarrow> expr_result p (e, q)"
  by (simp add: expr_result_def)

lemma expr_resultD:
  "expr_result p (e, q) \<Longrightarrow> moves p q \<and> parser_ok q \<and> bounded e \<and> (clean p q \<longrightarrow> complete_expr e)"
  by (simp add: expr_result_def moves_def)

text \<open>An error node ends a run that is not clean.\<close>

lemma expr_result_error: "parser_ok p \<Longrightarrow> expr_result p (AstNull, parser_error t p)"
  by (simp add: expr_result_def moves_error)

text \<open>
  The interface: the callback keeps the frame, its result is complete when nothing was reported,
  and it returns whenever fewer than \<open>bound\<close> characters and tokens are left.
\<close>

locale expr_parser =
  fixes pe :: parse_expr and bound :: nat
  assumes pe_result: "parser_ok p \<Longrightarrow> oall (expr_result p) (pe prec p)"
    and pe_terminates: "parser_ok p \<Longrightarrow> remaining p < bound \<Longrightarrow> terminates (pe prec p)"
begin

lemma pe_Ret: "parser_ok p \<Longrightarrow> pe prec p = Ret (e, q) \<Longrightarrow>
    moves p q \<and> parser_ok q \<and> bounded e \<and> (clean p q \<longrightarrow> complete_expr e)"
  using oallD [OF pe_result] expr_resultD by blast

lemma pe_bind:
  assumes "parser_ok p"
    and "\<And>e q. moves p q \<Longrightarrow> parser_ok q \<Longrightarrow> bounded e \<Longrightarrow> clean p q \<longrightarrow> complete_expr e \<Longrightarrow>
      oall Q (k (e, q))"
  shows "oall Q (obind (pe prec p) k)"
proof (rule obind_oall [OF pe_result [OF assms(1)]])
  fix x
  assume "expr_result p x"
  with expr_resultD [of p "fst x" "snd x"] show "oall Q (k x)"
    using assms(2) [of "snd x" "fst x"] by simp
qed

lemma parse_unary_result: "parser_ok p \<Longrightarrow> oall (expr_result p) (parse_unary pe p)"
  by (cases "unary_of_token (current_type p)")
    (auto simp: parse_unary_def expr_result_def intro!: pe_bind)

lemma parse_grouping_result: "parser_ok p \<Longrightarrow> oall (expr_result p) (parse_grouping pe p)"
  unfolding parse_grouping_def
  by (rule pe_bind)
    (auto intro!: expr_resultI elim: moves_trans [OF _ moves_consume] dest: clean_first [OF _ moves_consume])

text \<open>An operator and the loop over operators extend the expression \<open>left\<close> they are given.\<close>

definition infix_result :: "ast \<Rightarrow> parser \<Rightarrow> ast \<times> parser \<Rightarrow> bool" where
  "infix_result left p = (\<lambda>(e, q). moves p q \<and> (bounded left \<longrightarrow> bounded e) \<and>
     (clean p q \<longrightarrow> complete_expr left \<longrightarrow> complete_expr e))"

lemma infix_result_error: "parser_ok p \<Longrightarrow> infix_result left p (AstNull, parser_error t p)"
  by (simp add: infix_result_def moves_error)

lemma parse_binary_result: "parser_ok p \<Longrightarrow> oall (infix_result left p) (parse_binary pe left p)"
  by (cases "binary_of_token (current_type p)")
    (simp add: parse_binary_def infix_result_error, auto simp: parse_binary_def infix_result_def intro!: pe_bind)

lemma parse_assignment_result:
  "parser_ok p \<Longrightarrow> oall (infix_result left p) (parse_assignment pe left p)"
  by (cases left) (auto simp: parse_assignment_def infix_result_error, auto simp: infix_result_def intro!: pe_bind)

lemma parse_args_result:
  assumes "parser_ok p0" "args_result p0 (args, p)"
  shows "oall (args_result p0) (parse_args pe n args p)"
  using assms
proof (induction n arbitrary: args p)
  case 0
  then show ?case by simp
next
  case (Suc n)
  from Suc.prems have p: "moves p0 p" "parser_ok p" "length args \<le> MAX_PARAMS_PER_FUNCTION"
      "list_all bounded args" "clean p0 p \<longrightarrow> list_all complete_expr args"
    by (auto simp: args_result_def moves_def)
  show ?case
  proof (cases "length args \<ge> MAX_PARAMS_PER_FUNCTION")
    case True
    then show ?thesis
      using p moves_trans [OF p(1) moves_error_synchronize [OF p(2)]]
        clean_first [OF p(1) moves_error_synchronize [OF p(2)]]
      by (auto simp: args_result_def)
  next
    case False
    have "oall (args_result p0) (obind (pe PREC_ASSIGNMENT p) (\<lambda>(arg, p).
        if is_null arg then Ret (args, parser_synchronize p)
        else (let (more, p) = match_token TOKEN_COMMA p
          in if more then parse_args pe n (args @ [arg]) p else Ret (args @ [arg], p))))"
    proof (rule pe_bind [OF p(2)], simp only: prod.case)
      fix arg q
      assume q: "moves p q" "parser_ok q" "bounded arg" "clean p q \<longrightarrow> complete_expr arg"
      note pq = moves_trans [OF p(1) q(1)]
      obtain more r where m: "match_token TOKEN_COMMA q = (more, r)" by force
      have r: "args_result p0 (args @ [arg], r)"
        using p q False moves_trans [OF pq moves_match [OF q(2) m]]
          clean_split [OF p(1) q(1) clean_first [OF pq moves_match [OF q(2) m]]]
        by (auto simp: args_result_def)
      have s: "args_result p0 (args, parser_synchronize q)"
        using p q moves_trans [OF pq moves_synchronize [OF q(2)]]
          clean_split [OF p(1) q(1) clean_first [OF pq moves_synchronize [OF q(2)]]]
        by (auto simp: args_result_def)
      show "oall (args_result p0)
         (if is_null arg then Ret (args, parser_synchronize q)
          else (let (more, p) = match_token TOKEN_COMMA q
            in if more then parse_args pe n (args @ [arg]) p else Ret (args @ [arg], p)))"
        using r s Suc.IH [OF Suc.prems(1) r] by (simp add: m)
    qed
    with False show ?thesis by simp
  qed
qed

lemma parse_call_result:
  assumes p: "parser_ok p"
  shows "oall (infix_result left p) (parse_call pe n left p)"
proof (cases "\<exists>i nm. left = AstIdentifier i nm")
  case True
  then obtain i nm where left: "left = AstIdentifier i nm" by blast
  have "oall (args_result p) (if check TOKEN_RPAREN p then Ret ([], p) else parse_args pe n [] p)"
    using parse_args_result [OF p, of "[]" p] p by (simp add: args_result_def)
  then show ?thesis
    unfolding left parse_call_def ast.case
  proof (rule obind_oall)
    fix x
    assume "args_result p x"
    then obtain args q where x: "x = (args, q)" and q: "moves p q" "parser_ok q"
        "length args \<le> MAX_PARAMS_PER_FUNCTION" "list_all bounded args"
        "clean p q \<longrightarrow> list_all complete_expr args"
      by (cases x) (auto simp: args_result_def moves_def)
    show "oall (infix_result (AstIdentifier i nm) p) ((\<lambda>(args, p). Ret (AstCall
        (zero_info\<lparr>node_line := node_line i, node_column := node_column i\<rparr>) nm args,
        parser_consume TOKEN_RPAREN (''Expected '' @ quoted '')'' @ '' after arguments'') p)) x)"
      using q moves_trans [OF q(1) moves_consume [OF q(2)]]
        clean_first [OF q(1) moves_consume [OF q(2)]]
      by (auto simp: x infix_result_def)
  qed
next
  case False
  with p show ?thesis
    by (cases left) (auto simp: parse_call_def infix_result_error)
qed

lemma parse_prefix_result: "parser_ok p \<Longrightarrow> oall (expr_result p) (parse_prefix pe fn p)"
  by (cases fn) (auto simp: parse_number_def parse_identifier_def parse_unary_result
      parse_grouping_result intro!: expr_resultI)

lemma parse_infix_result:
  "parser_ok p \<Longrightarrow> oall (infix_result left p) (parse_infix pe n fn left p)"
  by (cases fn) (simp_all add: parse_binary_result parse_assignment_result parse_call_result)

lemma infix_result_trans:
  "infix_result left p (e, q) \<Longrightarrow> infix_result e q (e', r) \<Longrightarrow> infix_result left p (e', r)"
  using moves_trans [of p q r] clean_split [of p q r] by (auto simp: infix_result_def)

lemma infix_result_ok: "infix_result left p (e, q) \<Longrightarrow> parser_ok q"
  by (auto simp: infix_result_def moves_ok)

lemma infix_result_advance: "parser_ok p \<Longrightarrow> infix_result left p (left, parser_advance p)"
  by (simp add: infix_result_def moves_advance)

lemma infix_loop_result:
  "parser_ok p \<Longrightarrow> oall (infix_result left p) (infix_loop pe n prec left p)"
proof (induction n arbitrary: left p)
  case (Suc n)
  note adv = infix_result_trans [OF infix_result_advance [OF Suc.prems, of left]]
  have loop: "oall (infix_result left p) (infix_loop pe n prec e q)"
    if "infix_result left (parser_advance p) (e, q)" for e q
  proof (rule oall_mono [OF Suc.IH [OF infix_result_ok [OF that], of e]])
    fix x
    assume "infix_result e q x"
    then show "infix_result left p x"
      by (cases x) (auto intro: adv infix_result_trans [OF that])
  qed
  show ?case
  proof (cases "prec < get_token_precedence (next_type p) \<and> rule_infix (next_type p) \<noteq> None")
    case False
    with Suc.prems loop [of left "parser_advance p"] show ?thesis
      by (auto simp: Let_def infix_result_def split: option.split)
  next
    case True
    then obtain fn where fn: "rule_infix (next_type p) = Some fn" by blast
    have "oall (infix_result left p) (obind (parse_infix pe n fn left (parser_advance p))
        (\<lambda>(left, p). infix_loop pe n prec left p))"
      by (rule obind_oall [OF parse_infix_result]) (auto intro: loop)
    with True fn show ?thesis by (simp add: Let_def)
  qed
qed simp

text \<open>Termination: every argument and every operator consumes a token.\<close>

lemma pe_bind_terminates:
  assumes "parser_ok p" "remaining p < bound"
    and "\<And>e q. moves p q \<Longrightarrow> parser_ok q \<Longrightarrow> remaining q \<le> remaining p \<Longrightarrow> terminates (k (e, q))"
  shows "terminates (obind (pe prec p) k)"
proof (rule terminates_bind [OF pe_terminates [OF assms(1,2)]])
  fix x
  assume "pe prec p = Ret x"
  then show "terminates (k x)"
    using pe_Ret [OF assms(1), of prec "fst x" "snd x"] moves_remaining assms(3) [of "snd x" "fst x"]
    by simp
qed

lemma parse_args_terminates:
  "parser_ok p \<Longrightarrow> remaining p < bound \<Longrightarrow> remaining p < n \<Longrightarrow> terminates (parse_args pe n args p)"
proof (induction n arbitrary: args p)
  case (Suc n)
  show ?case
    unfolding parse_args.simps
  proof (split if_split, intro conjI impI pe_bind_terminates [OF Suc.prems(1,2)])
    fix arg q
    assume q: "parser_ok q" "remaining q \<le> remaining p"
    obtain more r where m: "match_token TOKEN_COMMA q = (more, r)" by force
    have "terminates (parse_args pe n (args @ [arg]) r)" if more
      using match_progress [of TOKEN_COMMA q r] m that q Suc.prems moves_ok [OF moves_match [OF q(1) m]]
      by (intro Suc.IH) auto
    then show "terminates (case (arg, q) of (arg, p) \<Rightarrow>
        if is_null arg then Ret (args, parser_synchronize p)
        else (let (more, p) = match_token TOKEN_COMMA p
          in if more then parse_args pe n (args @ [arg]) p else Ret (args @ [arg], p)))"
      by (simp add: m)
  qed simp
qed simp

lemma parse_infix_terminates:
  assumes "parser_ok p" "remaining p < bound" "remaining p < n"
  shows "terminates (parse_infix pe n fn left p)"
proof (cases fn)
  case PARSE_BINARY
  then show ?thesis
    using assms by (cases "binary_of_token (current_type p)")
      (auto simp: parse_binary_def intro!: pe_bind_terminates)
next
  case PARSE_ASSIGNMENT
  then show ?thesis
    using assms by (cases left) (auto simp: parse_assignment_def intro!: pe_bind_terminates)
next
  case PARSE_CALL
  then show ?thesis
    using parse_args_terminates [OF assms]
    by (cases left) (auto simp: parse_call_def intro!: terminates_bind)
qed

lemma parse_prefix_terminates:
  "parser_ok p \<Longrightarrow> remaining p < bound \<Longrightarrow> terminates (parse_prefix pe fn p)"
  by (cases fn; cases "unary_of_token (current_type p)")
    (auto simp: parse_number_def parse_identifier_def parse_unary_def parse_grouping_def
      intro!: pe_bind_terminates)

lemma infix_loop_terminates:
  "parser_ok p \<Longrightarrow> remaining p < bound \<Longrightarrow> remaining p < n \<Longrightarrow>
   terminates (infix_loop pe n prec left p)"
proof (induction n arbitrary: left p)
  case (Suc n)
  show ?case
  proof (cases "prec < get_token_precedence (next_type p)")
    case True
    then have less: "remaining (parser_advance p) < remaining p"
      by (intro remaining_advance) (auto simp: less_precedence_def)
    have loop: "terminates (infix_loop pe n prec e q)" if "moves (parser_advance p) q" for e q
      using that Suc.prems less moves_remaining [OF that] by (intro Suc.IH) (auto simp: moves_ok)
    have bind: "terminates (obind (parse_infix pe n fn left (parser_advance p))
        (\<lambda>(left, p). infix_loop pe n prec left p))" for fn
    proof (rule terminates_bind)
      show "terminates (parse_infix pe n fn left (parser_advance p))"
        using less Suc.prems by (intro parse_infix_terminates) auto
    next
      fix x
      assume "parse_infix pe n fn left (parser_advance p) = Ret x"
      then have "infix_result left (parser_advance p) x"
        by (rule oallD [OF parse_infix_result [OF parser_ok_advance]])
      then show "terminates (case x of (left, p) \<Rightarrow> infix_loop pe n prec left p)"
        by (cases x) (auto simp: infix_result_def intro: loop)
    qed
    show ?thesis
      using True loop [of "parser_advance p"] bind
      by (auto simp: Let_def split: option.split)
  qed simp
qed simp

end

section \<open>Closing the recursion\<close>

text \<open>
  The body of \<open>parse_expression\<close>: from a callback that satisfies the contract, one that satisfies
  it for one token more. At the top of the nesting it consumes at least one token.
\<close>

definition deeper :: "parser \<Rightarrow> parser" where
  "deeper p = p\<lparr>ps_expr_depth := ps_expr_depth p + 1\<rparr>"

definition shallower :: "parser \<Rightarrow> parser" where
  "shallower p = p\<lparr>ps_expr_depth := ps_expr_depth p - 1\<rparr>"

lemma deeper_fields [simp]: "next_type (deeper p) = next_type p"
    "remaining (deeper p) = remaining p" "parser_ok (deeper p) = parser_ok p"
  by (simp_all add: deeper_def remaining_def parser_ok_def)

lemma shallower_fields [simp]: "remaining (shallower p) = remaining p"
    "parser_ok (shallower p) = parser_ok p"
  by (simp_all add: shallower_def remaining_def parser_ok_def)

lemma moves_deeper: "moves (deeper p) q \<Longrightarrow> moves p (shallower q)"
  by (simp add: moves_def) (simp add: deeper_def shallower_def)

lemma clean_deeper [simp]: "clean p (shallower q) = clean (deeper p) q"
  by (simp add: clean_def deeper_def shallower_def)

lemma expression_body_cases:
  "expression_body pe n prec p =
     (if ps_expr_depth p \<ge> MAX_EXPRESSION_DEPTH then
        Ret (AstNull, parser_error
          (''Expression too deeply nested (max '' @ fmt_nat MAX_EXPRESSION_DEPTH @ '')'') p)
      else
        case rule_prefix (next_type p) of
          None \<Rightarrow> Ret (AstNull, shallower (parser_error ''Expect expression'' (parser_advance (deeper p))))
        | Some fn \<Rightarrow>
            obind (parse_prefix pe fn (parser_advance (deeper p))) (\<lambda>(left, q).
            obind (infix_loop pe n prec left q) (\<lambda>(e, r). Ret (e, shallower r))))"
  by (simp add: expression_body_def deeper_def shallower_def Let_def split: option.split)

definition expr_progress :: "parser \<Rightarrow> ast \<times> parser \<Rightarrow> bool" where
  "expr_progress p = (\<lambda>(e, q). ps_expr_depth p < MAX_EXPRESSION_DEPTH \<longrightarrow>
     next_type p \<noteq> TOKEN_EOF \<longrightarrow> remaining q < remaining p)"

context expr_parser
begin

lemma expression_body_result:
  assumes p: "parser_ok p"
  shows "oall (\<lambda>x. expr_result p x \<and> expr_progress p x) (expression_body pe n prec p)"
proof (cases "ps_expr_depth p \<ge> MAX_EXPRESSION_DEPTH")
  case True
  with p show ?thesis
    by (simp add: expression_body_cases expr_result_error expr_progress_def)
next
  case shallow: False
  let ?q = "parser_advance (deeper p)"
  have adv: "moves (deeper p) ?q" using p by (simp add: moves_advance)
  have fin: "expr_result p (e, shallower r) \<and> expr_progress p (e, shallower r)"
    if "moves ?q r" "bounded e" "clean ?q r \<longrightarrow> complete_expr e" for e r
    using that moves_deeper [OF moves_trans [OF adv that(1)]] clean_second [OF adv that(1)]
      moves_remaining [OF that(1)] remaining_advance [of "deeper p"]
    by (auto simp: expr_result_def expr_progress_def)
  show ?thesis
  proof (cases "rule_prefix (next_type p)")
    case None
    with shallow fin [of "parser_error ''Expect expression'' ?q" AstNull] show ?thesis
      by (simp add: expression_body_cases moves_error)
  next
    case (Some fn)
    have "oall (\<lambda>x. expr_result p x \<and> expr_progress p x)
       (obind (parse_prefix pe fn ?q) (\<lambda>(left, q).
            obind (infix_loop pe n prec left q) (\<lambda>(e, r). Ret (e, shallower r))))"
    proof (rule obind_oall [OF parse_prefix_result [OF parser_ok_advance]], clarify)
      fix left q
      assume q: "expr_result ?q (left, q)"
      then have "parser_ok q" by (auto dest: expr_resultD)
      show "oall (\<lambda>x. expr_result p x \<and> expr_progress p x)
          (obind (infix_loop pe n prec left q) (\<lambda>(e, r). Ret (e, shallower r)))"
      proof (rule obind_oall [OF infix_loop_result [OF \<open>parser_ok q\<close>]], clarify)
        fix e r
        assume "infix_result left q (e, r)"
        then have "moves ?q r" "bounded e" "clean ?q r \<longrightarrow> complete_expr e"
          using q moves_trans [of ?q q r] clean_split [of ?q q r]
          by (auto simp: infix_result_def expr_result_def)
        then show "oall (\<lambda>x. expr_result p x \<and> expr_progress p x) (Ret (e, shallower r))"
          using fin by simp
      qed
    qed
    with Some shallow show ?thesis by (simp add: expression_body_cases)
  qed
qed

lemma expression_body_terminates:
  assumes p: "parser_ok p" and less: "remaining p < Suc bound" and n: "bound \<le> n"
  shows "terminates (expression_body pe n prec p)"
proof (cases "rule_prefix (next_type p)")
  case None
  then show ?thesis by (simp add: expression_body_cases)
next
  case (Some fn)
  then have "next_type p \<noteq> TOKEN_EOF" by auto
  then have q: "remaining (parser_advance (deeper p)) < bound"
    using remaining_advance [of "deeper p"] less by simp
  have "terminates (obind (parse_prefix pe fn (parser_advance (deeper p))) (\<lambda>(left, q).
      obind (infix_loop pe n prec left q) (\<lambda>(e, r). Ret (e, shallower r))))"
  proof (rule terminates_bind [OF parse_prefix_terminates [OF parser_ok_advance q]], clarify)
    fix left r
    assume "parse_prefix pe fn (parser_advance (deeper p)) = Ret (left, r)"
    from oallD [OF parse_prefix_result [OF parser_ok_advance] this]
    have "parser_ok r" "remaining r < bound"
      using q by (auto dest!: expr_resultD moves_remaining)
    then show "terminates (obind (infix_loop pe n prec left r) (\<lambda>(e, r). Ret (e, shallower r)))"
      using infix_loop_terminates [of r n prec left] n by (intro terminates_bind) auto
  qed
  with Some show ?thesis by (simp add: expression_body_cases)
qed

end

lemma parse_expression_contract:
  "expr_parser (parse_expression n) n \<and>
   (\<forall>p prec. parser_ok p \<longrightarrow> oall (expr_progress p) (parse_expression n prec p))"
proof (induction n)
  case 0
  show ?case by (simp add: expr_parser_def)
next
  case (Suc n)
  then have pe: "expr_parser (parse_expression n) n" by blast
  have body: "parser_ok p \<Longrightarrow> oall (\<lambda>x. expr_result p x \<and> expr_progress p x)
      (parse_expression (Suc n) prec p)" for p prec
    using expr_parser.expression_body_result [OF pe] by simp
  moreover have "terminates (parse_expression (Suc n) prec p)"
    if "parser_ok p" "remaining p < Suc n" for p prec
    using expr_parser.expression_body_terminates [OF pe that] by simp
  ultimately show ?case
    unfolding expr_parser_def by (blast intro: oall_mono)
qed

interpretation expr: expr_parser "parse_expression n" n for n
  using parse_expression_contract by blast

lemma parse_expression_progress: "parser_ok p \<Longrightarrow> oall (expr_progress p) (parse_expression n prec p)"
  using parse_expression_contract by blast

end
