(* ===== verification/StatementFacts.thy ===== *)
theory StatementFacts
  imports ParserFacts
begin

text \<open>
  The contract of statement, function and file parsing, on top of the expression contract of
  \<open>ParserFacts\<close>: what a returned tree looks like, how much input a statement consumes, that panic
  mode is off between statements, and how much fuel is enough.
\<close>

section \<open>Results under a fuel condition\<close>

text \<open>\<open>achieves b P m\<close>: a value of \<open>m\<close> satisfies \<open>P\<close>, and under \<open>b\<close> the fuel is enough.\<close>

definition achieves :: "bool \<Rightarrow> ('a \<Rightarrow> bool) \<Rightarrow> 'a outcome \<Rightarrow> bool" where
  "achieves b P m \<longleftrightarrow> oall P m \<and> (b \<longrightarrow> terminates m)"

lemma achieves_simps [simp]: "achieves b P (Ret x) \<longleftrightarrow> P x" "achieves b P (Fault e)"
    "achieves b P Timeout \<longleftrightarrow> \<not> b"
  by (simp_all add: achieves_def)

lemma achieves_bind:
  "achieves b P m \<Longrightarrow> (\<And>x. P x \<Longrightarrow> achieves b Q (k x)) \<Longrightarrow> achieves b Q (obind m k)"
  by (cases m) simp_all

lemma achieves_mono: "achieves b P m \<Longrightarrow> (\<And>x. P x \<Longrightarrow> Q x) \<Longrightarrow> achieves b Q m"
  by (cases m) simp_all

section \<open>Stages of a statement\<close>

text \<open>
  \<open>stage p0 m P q\<close>: the statement begun at \<open>p0\<close> has got to \<open>q\<close>, where less than \<open>m\<close> input is left,
  and \<open>P\<close> holds of the parts parsed so far if nothing was reported.
\<close>

definition stage :: "parser \<Rightarrow> nat \<Rightarrow> bool \<Rightarrow> parser \<Rightarrow> bool" where
  "stage p0 m P q \<longleftrightarrow> moves p0 q \<and> ps_expr_depth p0 = 0 \<and> remaining q < m \<and> (clean p0 q \<longrightarrow> P)"

lemma stageD: "stage p0 m P q \<Longrightarrow>
    parser_ok q \<and> moves p0 q \<and> ps_expr_depth q = 0 \<and> remaining q < m \<and> (clean p0 q \<longrightarrow> P)"
  by (auto simp: stage_def moves_def)

lemma stage_ok: "stage p0 m P q \<Longrightarrow> parser_ok q"
  by (simp add: stageD)

lemma stage_less: "stage p0 m P q \<Longrightarrow> remaining q < m"
  by (simp add: stageD)

lemma stage_weaken: "stage p0 m P q \<Longrightarrow> (P \<Longrightarrow> Q) \<Longrightarrow> stage p0 m Q q"
  by (auto simp: stage_def)

lemma stage_step: "stage p0 m P q \<Longrightarrow> moves q r \<Longrightarrow> (clean q r \<Longrightarrow> P') \<Longrightarrow> stage p0 m (P \<and> P') r"
  using moves_trans [of p0 q r] clean_split [of p0 q r] moves_remaining [of q r]
  by (auto simp: stage_def)

lemma stage_moves: "stage p0 m P q \<Longrightarrow> moves q r \<Longrightarrow> stage p0 m P r"
  using stage_step [of p0 m P q r True] by simp

lemma stage_consume: "stage p0 m P q \<Longrightarrow> stage p0 m P (parser_consume ty msg q)"
  by (blast intro: stage_moves moves_consume stage_ok)

lemma stage_match: "stage p0 m P q \<Longrightarrow> match_token ty q = (b, r) \<Longrightarrow> stage p0 m P r"
  by (blast intro: stage_moves moves_match stage_ok)

lemma stage_synchronize: "stage p0 m P q \<Longrightarrow> stage p0 m P (parser_synchronize q)"
  by (blast intro: stage_moves moves_synchronize stage_ok)

lemma match_panic: "match_token ty q = (b, r) \<Longrightarrow> ps_panic_mode r = ps_panic_mode q"
  by (auto simp: match_token_def split: if_splits)

definition stmt_start :: "parser \<Rightarrow> bool" where
  "stmt_start p \<longleftrightarrow> parser_ok p \<and> \<not> ps_panic_mode p \<and> ps_expr_depth p = 0"

lemma stage_start: "stage p0 m P q \<Longrightarrow> \<not> ps_panic_mode q \<Longrightarrow> stmt_start q"
  by (auto simp: stmt_start_def dest: stageD)

text \<open>The first token of a statement form is consumed.\<close>

lemma stage_first: "stmt_start p \<Longrightarrow> next_type p = ty \<Longrightarrow> ty \<noteq> TOKEN_EOF \<Longrightarrow>
    stage p (remaining p) True (parser_consume ty msg p)"
  by (simp add: stage_def stmt_start_def moves_consume consume_progress)

definition stmt_result :: "parser \<Rightarrow> ast \<times> parser \<Rightarrow> bool" where
  "stmt_result p = (\<lambda>(s, q). moves p q \<and> \<not> ps_panic_mode q \<and> bounded s \<and>
     (clean p q \<longrightarrow> complete_stmt s) \<and> (next_type p \<noteq> TOKEN_EOF \<longrightarrow> remaining q < remaining p))"

lemma stmt_resultI: "stage p (remaining p) P q \<Longrightarrow> \<not> ps_panic_mode q \<Longrightarrow> bounded s \<Longrightarrow>
    (P \<Longrightarrow> complete_stmt s) \<Longrightarrow> stmt_result p (s, q)"
  by (auto simp: stmt_result_def stage_def)

section \<open>The interfaces\<close>

locale progressing_expr_parser = expr_parser +
  assumes pe_progress: "parser_ok p \<Longrightarrow> oall (expr_progress p) (pe prec p)"
begin

lemma stage_expr:
  assumes q: "stage p0 m P q" and b: "b \<Longrightarrow> remaining q < bound"
    and k: "\<And>e r. bounded e \<Longrightarrow> remaining r \<le> remaining q \<Longrightarrow> stage p0 m (P \<and> complete_expr e) r \<Longrightarrow>
      achieves b Q (k (e, r))"
  shows "achieves b Q (obind (pe prec q) k)"
proof (rule achieves_bind)
  show "achieves b (expr_result q) (pe prec q)"
    using pe_result pe_terminates b stage_ok [OF q] by (simp add: achieves_def)
next
  fix x
  assume x: "expr_result q x"
  obtain e r where "x = (e, r)" by force
  with x expr_resultD [of q e r] show "achieves b Q (k x)"
    using k [of e r] stage_step [OF q, of r "complete_expr e"] moves_remaining [of q r] by simp
qed

lemma stage_optional_expr:
  assumes q: "stage p0 m P q" and b: "b \<Longrightarrow> remaining q < bound"
    and k: "\<And>e r. bounded e \<Longrightarrow> stage p0 m (P \<and> (e = AstNull \<or> complete_expr e)) r \<Longrightarrow>
      achieves b Q (k (e, r))"
  shows "achieves b Q (obind (if c then pe prec q else Ret (AstNull, q)) k)"
proof (cases c)
  case True
  have "achieves b Q (obind (pe prec q) k)"
  proof (rule stage_expr [OF q b])
    fix e r
    assume "bounded e" "stage p0 m (P \<and> complete_expr e) r"
    then show "achieves b Q (k (e, r))" by (intro k) (auto intro: stage_weaken)
  qed
  with True show ?thesis by simp
next
  case False
  with k [of AstNull q] q show ?thesis by simp
qed

lemma parse_var_decl_result:
  assumes p: "stmt_start p" and ty: "is_type_keyword (tok_text (ps_next p))"
    and eof: "next_type p \<noteq> TOKEN_EOF" and b: "b \<Longrightarrow> remaining p < bound"
  shows "achieves b (stmt_result p) (parse_var_decl pe p)"
proof -
  define t where "t = type_from_sv (tok_text (ps_next p))"
  define q where "q = parser_consume TOKEN_IDENTIFIER ''expected variable name'' (parser_advance p)"
  obtain eq r where m: "match_token TOKEN_EQUAL q = (eq, r)" by force
  have "stage p (remaining p) True (parser_advance p)"
    using p eof by (simp add: stage_def stmt_start_def moves_advance remaining_advance)
  from stage_match [OF stage_consume [OF this] m [unfolded q_def]]
  have r: "stage p (remaining p) True r" .
  have "parse_type p = (t, parser_advance p)" by (simp add: parse_type_def ty t_def Let_def)
  moreover have "achieves b (stmt_result p)
      (obind (if eq then pe PREC_NONE r else Ret (AstNull, r)) (\<lambda>(init, p).
        Ret (AstVarDecl (info_typed t (tok_line (ps_current q))) (tok_text (ps_current q)) t init,
          parser_consume TOKEN_SEMICOLON (''expected '' @ quoted '';'') p)))"
    by (rule stage_optional_expr [OF r]) (use stage_less [OF r] b in
        \<open>auto intro!: stmt_resultI [OF stage_consume]\<close>)
  ultimately show ?thesis
    using p m by (simp add: parse_var_decl_def stmt_start_def q_def Let_def)
qed

lemma parse_return_result:
  assumes p: "stmt_start p" "next_type p = TOKEN_RETURN" and b: "b \<Longrightarrow> remaining p < bound"
  shows "achieves b (stmt_result p) (parse_return pe p)"
proof -
  define q where "q = parser_consume TOKEN_RETURN (''expected '' @ quoted ''return'') p"
  have q: "stage p (remaining p) True q" unfolding q_def by (rule stage_first [OF p]) simp
  have "achieves b (stmt_result p)
      (obind (if \<not> check TOKEN_SEMICOLON q then pe PREC_NONE q else Ret (AstNull, q)) (\<lambda>(e, r).
        Ret (AstReturn (info_typed TYPE_VOID (tok_line (ps_current q))) e,
          parser_consume TOKEN_SEMICOLON (''expected '' @ quoted '';'') r)))"
    by (rule stage_optional_expr [OF q])
      (use stage_less [OF q] b in \<open>auto intro!: stmt_resultI [OF stage_consume]\<close>)
  then show ?thesis unfolding parse_return_def Let_def q_def .
qed

lemma parse_expr_stmt_result:
  assumes p: "stmt_start p" and b: "b \<Longrightarrow> remaining p < bound"
  shows "achieves b (stmt_result p) (parse_expr_stmt pe p)"
  unfolding parse_expr_stmt_def
proof (rule achieves_bind)
  show "achieves b (\<lambda>x. expr_result p x \<and> expr_progress p x) (pe PREC_NONE p)"
    using p b pe_result pe_terminates pe_progress by (simp add: achieves_def stmt_start_def oall_def)
next
  fix x
  assume "expr_result p x \<and> expr_progress p x"
  moreover obtain e q where "x = (e, q)" by force
  ultimately show "achieves b (stmt_result p) (case x of (e, p) \<Rightarrow>
      Ret (e, parser_consume TOKEN_SEMICOLON (''expected '' @ quoted '';'') p))"
    using p moves_trans [OF _ moves_consume, of p q] moves_remaining [OF moves_consume, of q]
      clean_first [OF _ moves_consume, of p q]
    by (fastforce simp: stmt_result_def stmt_start_def expr_progress_def MAX_EXPRESSION_DEPTH_def
        dest!: expr_resultD intro: complete_expr_stmt le_less_trans)
qed

end

text \<open>Statements inside statements.\<close>

locale stmt_parser = progressing_expr_parser +
  fixes ps :: parse_stmt and sbound :: nat
  assumes ps_result: "stmt_start p \<Longrightarrow> oall (stmt_result p) (ps p)"
    and ps_terminates: "stmt_start p \<Longrightarrow> remaining p < sbound \<Longrightarrow> terminates (ps p)"
    and sbound: "sbound \<le> bound"
begin

lemma ps_achieves:
  "stmt_start q \<Longrightarrow> (b \<Longrightarrow> remaining q < sbound) \<Longrightarrow> achieves b (stmt_result q) (ps q)"
  using ps_result ps_terminates by (auto simp: achieves_def)

lemma stage_stmt:
  assumes q: "stage p0 m P q" "\<not> ps_panic_mode q" and b: "b \<Longrightarrow> remaining q < sbound"
    and k: "\<And>s r. bounded s \<Longrightarrow> remaining r \<le> remaining q \<Longrightarrow> \<not> ps_panic_mode r \<Longrightarrow>
      stage p0 m (P \<and> complete_stmt s) r \<Longrightarrow> achieves b Q (k (s, r))"
  shows "achieves b Q (obind (ps q) k)"
proof (rule achieves_bind [OF ps_achieves [OF stage_start [OF q] b]])
  fix x
  assume x: "stmt_result q x"
  obtain s r where "x = (s, r)" by force
  with x show "achieves b Q (k x)"
    using k [of s r] stage_step [OF q(1), of r "complete_stmt s"] moves_remaining [of q r]
    by (simp add: stmt_result_def)
qed

lemma parse_while_result:
  assumes p: "stmt_start p" "next_type p = TOKEN_WHILE" and b: "b \<Longrightarrow> remaining p \<le> sbound"
  shows "achieves b (stmt_result p) (parse_while pe ps p)"
proof -
  define q where "q = parser_consume TOKEN_WHILE (''expected '' @ quoted ''while'') p"
  define q' where "q' = parser_consume TOKEN_LPAREN (''expected '' @ quoted ''('') q"
  have q: "stage p (remaining p) True q'"
    unfolding q_def q'_def by (rule stage_consume [OF stage_first [OF p]]) simp
  have "achieves b (stmt_result p) (obind (pe PREC_NONE q') (\<lambda>(condition, r).
      obind (ps (parser_consume TOKEN_RPAREN (''expected '' @ quoted '')'') r)) (\<lambda>(body, s).
      Ret (AstWhile (info_typed TYPE_VOID (tok_line (ps_current q))) condition body, s))))"
  proof (rule stage_expr [OF q])
    show "b \<Longrightarrow> remaining q' < bound" using stage_less [OF q] b sbound by simp
  next
    fix e r
    assume e: "bounded e" and r: "stage p (remaining p) (True \<and> complete_expr e) r"
    show "achieves b (stmt_result p) (case (e, r) of (condition, r) \<Rightarrow>
      obind (ps (parser_consume TOKEN_RPAREN (''expected '' @ quoted '')'') r)) (\<lambda>(body, s).
      Ret (AstWhile (info_typed TYPE_VOID (tok_line (ps_current q))) condition body, s)))"
      unfolding prod.case
    proof (rule stage_stmt [OF stage_consume [OF r]])
      show "b \<Longrightarrow> remaining (parser_consume TOKEN_RPAREN (''expected '' @ quoted '')'') r) < sbound"
        using b stage_less [OF stage_consume [OF r]] by (metis less_le_trans)
    qed (use e in \<open>auto intro!: stmt_resultI\<close>)
  qed
  then show ?thesis by (simp add: parse_while_def Let_def q_def q'_def)
qed

lemma parse_if_result:
  assumes p: "stmt_start p" "next_type p = TOKEN_IF" and b: "b \<Longrightarrow> remaining p \<le> sbound"
  shows "achieves b (stmt_result p) (parse_if pe ps p)"
proof -
  define q where "q = parser_consume TOKEN_IF (''expected '' @ quoted ''if'') p"
  define q' where "q' = parser_consume TOKEN_LPAREN (''expected '' @ quoted ''('') q"
  define close where "close r = parser_consume TOKEN_RPAREN (''expected '' @ quoted '')'') r" for r
  define node where "node = AstIf (info_typed TYPE_VOID (tok_line (ps_current q)))"
  have q: "stage p (remaining p) True q'"
    unfolding q_def q'_def by (rule stage_consume [OF stage_first [OF p]]) simp
  have els: "achieves b (stmt_result p) (let (els, s) = match_token TOKEN_ELSE s in
      obind (if els then ps s else Ret (AstNull, s)) (\<lambda>(e2, s). Ret (node c t e2, s)))"
    if s: "stage p (remaining p) ((True \<and> complete_expr c) \<and> complete_stmt t) s" "\<not> ps_panic_mode s"
      and ct: "bounded c" "bounded t" for c t s
  proof -
    obtain els r where m: "match_token TOKEN_ELSE s = (els, r)" by force
    note r = stage_match [OF s(1) m]
    have panic: "\<not> ps_panic_mode r" using s match_panic [OF m] by simp
    have "achieves b (stmt_result p) (obind (ps r) (\<lambda>(e2, s). Ret (node c t e2, s)))"
    proof (rule stage_stmt [OF r panic])
      show "b \<Longrightarrow> remaining r < sbound" using b stage_less [OF r] by simp
    qed (use ct in \<open>auto simp: node_def intro!: stmt_resultI\<close>)
    moreover have "stmt_result p (node c t AstNull, r)"
      using ct by (intro stmt_resultI [OF r panic]) (auto simp: node_def)
    ultimately show ?thesis by (simp add: m)
  qed
  have "achieves b (stmt_result p) (obind (pe PREC_NONE q') (\<lambda>(c, r). obind (ps (close r)) (\<lambda>(t, s).
      let (els, s) = match_token TOKEN_ELSE s in
      obind (if els then ps s else Ret (AstNull, s)) (\<lambda>(e2, s). Ret (node c t e2, s)))))"
  proof (rule stage_expr [OF q])
    show "b \<Longrightarrow> remaining q' < bound" using stage_less [OF q] b sbound by simp
  next
    fix c r
    assume c: "bounded c" and r: "stage p (remaining p) (True \<and> complete_expr c) r"
    note r' = stage_consume [OF r, of TOKEN_RPAREN "''expected '' @ quoted '')''", folded close_def]
    show "achieves b (stmt_result p) (case (c, r) of (c, r) \<Rightarrow> obind (ps (close r)) (\<lambda>(t, s).
      let (els, s) = match_token TOKEN_ELSE s in
      obind (if els then ps s else Ret (AstNull, s)) (\<lambda>(e2, s). Ret (node c t e2, s))))"
      unfolding prod.case
      by (rule stage_stmt [OF r']) (use c b els stage_less [OF r'] in \<open>auto simp: close_def\<close>)
  qed
  then show ?thesis by (simp add: parse_if_def Let_def q_def q'_def node_def close_def)
qed

definition stmts_result :: "parser \<Rightarrow> nat \<Rightarrow> ast list \<times> parser \<Rightarrow> bool" where
  "stmts_result p0 m = (\<lambda>(ss, q). stage p0 m (list_all complete_stmt ss) q \<and>
     length ss \<le> MAX_BLOCK_STATEMENTS \<and> list_all bounded ss)"

lemma block_loop_result:
  assumes "stmts_result p0 m (ss, q)" "\<not> ps_panic_mode q"
    and "b \<Longrightarrow> remaining q < sbound \<and> remaining q < n"
  shows "achieves b (stmts_result p0 m) (block_loop ps n ss q)"
  using assms
proof (induction n arbitrary: ss q)
  case (Suc n)
  from Suc.prems have q: "stage p0 m (list_all complete_stmt ss) q" "list_all bounded ss"
    by (auto simp: stmts_result_def)
  have full: "stmts_result p0 m (ss, parser_synchronize (parser_error t q))" if "stmts_result p0 m (ss, q)" for t
    using that stage_moves [OF q(1) moves_error_synchronize [OF stage_ok [OF q(1)]]]
    by (simp add: stmts_result_def)
  have "achieves b (stmts_result p0 m) (obind (ps q) (\<lambda>(stmt, p).
      if is_null stmt then block_loop ps n ss (parser_synchronize p) else block_loop ps n (ss @ [stmt]) p))"
    if room: "length ss < MAX_BLOCK_STATEMENTS" and eof: "next_type q \<noteq> TOKEN_EOF"
  proof (rule achieves_bind, rule ps_achieves [OF stage_start [OF q(1) Suc.prems(2)]])
    show "b \<Longrightarrow> remaining q < sbound" using Suc.prems(3) by simp
    fix x
    assume x: "stmt_result q x"
    obtain s r where xsr: "x = (s, r)" by force
    with x have s: "stmt_result q (s, r)" by simp
    have r: "stage p0 m (list_all complete_stmt ss \<and> complete_stmt s) r"
      using s by (intro stage_step [OF q(1)]) (auto simp: stmt_result_def)
    have less: "remaining r < remaining q" "\<not> ps_panic_mode r" "bounded s"
      using s eof by (auto simp: stmt_result_def)
    have "stmts_result p0 m (ss @ [s], r)" "s = AstNull \<Longrightarrow> stmts_result p0 m (ss, parser_synchronize r)"
      using room q less r stage_synchronize [OF r] by (auto simp: stmts_result_def elim: stage_weaken)
    moreover have "remaining (parser_synchronize r) \<le> remaining r"
      by (rule moves_remaining [OF moves_synchronize [OF stage_ok [OF r]]])
    ultimately show "achieves b (stmts_result p0 m) (case x of (stmt, p) \<Rightarrow> if is_null stmt then
        block_loop ps n ss (parser_synchronize p) else block_loop ps n (ss @ [stmt]) p)"
      using less Suc.prems(3) by (auto simp: xsr intro!: Suc.IH)
  qed
  with full Suc.prems(1) show ?case by (simp add: check_def)
qed auto

lemma parse_block_stage:
  assumes p: "stage p0 m True (parser_consume TOKEN_LBRACE msg q)"
    and b: "b \<Longrightarrow> m \<le> sbound \<and> m \<le> n" and msg: "msg = ''Expected '' @ quoted ''{''"
  shows "achieves b (\<lambda>(s, r). stage p0 m (complete_stmt s) r \<and> \<not> ps_panic_mode r \<and> bounded s \<and> is_block s)
     (parse_block ps n q)"
  unfolding parse_block_def Let_def msg [symmetric]
proof (rule achieves_bind)
  show "achieves b (stmts_result p0 m) (block_loop ps n [] (parser_consume TOKEN_LBRACE msg q))"
    using b stage_less [OF p] p
    by (intro block_loop_result) (auto simp: stmts_result_def)
next
  fix x
  assume "stmts_result p0 m x"
  moreover obtain ss r where "x = (ss, r)" by force
  ultimately show "achieves b (\<lambda>(s, r). stage p0 m (complete_stmt s) r \<and> \<not> ps_panic_mode r \<and>
      bounded s \<and> is_block s) (case x of (stmts, p) \<Rightarrow>
        Ret (AstBlock zero_info stmts, parser_consume TOKEN_RBRACE (''Expected '' @ quoted ''}'') p))"
    by (auto simp: stmts_result_def intro: stage_consume)
qed

lemma parse_block_result:
  assumes p: "stmt_start p" "next_type p = TOKEN_LBRACE"
    and b: "b \<Longrightarrow> remaining p \<le> sbound \<and> remaining p \<le> n"
  shows "achieves b (stmt_result p) (parse_block ps n p)"
proof -
  have "stage p (remaining p) True (parser_consume TOKEN_LBRACE (''Expected '' @ quoted ''{'') p)"
    by (rule stage_first [OF p]) simp
  then have "achieves b (\<lambda>(s, r). stage p (remaining p) (complete_stmt s) r \<and> \<not> ps_panic_mode r \<and>
      bounded s \<and> is_block s) (parse_block ps n p)"
    using b by (rule parse_block_stage) simp_all
  then show ?thesis by (rule achieves_mono) (auto intro: stmt_resultI)
qed

lemma rule_stmt_token:
  "rule_stmt t = Some PARSE_VAR_DECL \<Longrightarrow> t \<in> {TOKEN_INT, TOKEN_CHAR, TOKEN_VOID}"
  "rule_stmt t = Some PARSE_IF \<Longrightarrow> t = TOKEN_IF" "rule_stmt t = Some PARSE_WHILE \<Longrightarrow> t = TOKEN_WHILE"
  "rule_stmt t = Some PARSE_RETURN \<Longrightarrow> t = TOKEN_RETURN" "rule_stmt t = Some PARSE_BLOCK \<Longrightarrow> t = TOKEN_LBRACE"
  by (cases t; simp)+

lemma type_token_text:
  assumes "token_ok k" "tok_type k \<in> {TOKEN_INT, TOKEN_CHAR, TOKEN_VOID}"
  shows "is_type_keyword (tok_text k)"
proof -
  have "\<exists>t. token_type_name (tok_type k) = type_name t"
    using assms(2) type_name.simps(1,2,12) token_type_name.simps(1-3) by (metis insertE empty_iff)
  moreover have "tok_text k = token_type_name (tok_type k)"
    using assms by (auto simp: token_ok_def keyword_tokens_def)
  ultimately show ?thesis by (simp add: is_type_keyword_iff)
qed

lemma statement_body_result:
  assumes p: "stmt_start p" and b: "b \<Longrightarrow> remaining p \<le> sbound \<and> remaining p \<le> n \<and> remaining p < bound"
  shows "achieves b (stmt_result p) (statement_body pe ps n p)"
proof (cases "rule_stmt (next_type p)")
  case None
  then show ?thesis
    using parse_expr_stmt_result [OF p] b by (simp add: statement_body_def)
next
  case (Some fn)
  show ?thesis
  proof (cases fn)
    case PARSE_VAR_DECL
    with Some have ty: "next_type p \<in> {TOKEN_INT, TOKEN_CHAR, TOKEN_VOID}"
      using rule_stmt_token(1) by simp
    then have "is_type_keyword (tok_text (ps_next p))"
      using p by (intro type_token_text) (simp_all add: stmt_start_def parser_ok_def)
    then show ?thesis
      using ty parse_var_decl_result [OF p] b Some PARSE_VAR_DECL by (auto simp: statement_body_def)
  next
    case PARSE_IF
    then show ?thesis
      using Some parse_if_result [OF p] b by (simp add: statement_body_def rule_stmt_token)
  next
    case PARSE_WHILE
    then show ?thesis
      using Some parse_while_result [OF p] b by (simp add: statement_body_def rule_stmt_token)
  next
    case PARSE_RETURN
    then show ?thesis
      using Some parse_return_result [OF p] b by (simp add: statement_body_def rule_stmt_token)
  next
    case PARSE_BLOCK
    then show ?thesis
      using Some parse_block_result [OF p] b by (simp add: statement_body_def rule_stmt_token)
  qed
qed

end

section \<open>Closing the recursion\<close>

lemma progressing_parse_expression: "progressing_expr_parser (parse_expression n) n"
  using parse_expression_contract
  by (simp add: progressing_expr_parser_def progressing_expr_parser_axioms_def)

interpretation expr: progressing_expr_parser "parse_expression n" n for n
  by (rule progressing_parse_expression)

lemma parse_statement_contract:
  "k \<le> n \<Longrightarrow> stmt_parser (parse_expression n) n (parse_statement (parse_expression n) k) k"
proof (induction k)
  case 0
  show ?case
    by (simp add: stmt_parser_def stmt_parser_axioms_def progressing_parse_expression)
next
  case (Suc k)
  then have IH: "stmt_parser (parse_expression n) n (parse_statement (parse_expression n) k) k" by simp
  have "achieves (remaining p < Suc k) (stmt_result p) (parse_statement (parse_expression n) (Suc k) p)"
    if "stmt_start p" for p
    using stmt_parser.statement_body_result [OF IH that, of "remaining p < Suc k" k] Suc.prems by simp
  with Suc.prems show ?case
    by (simp add: stmt_parser_def stmt_parser_axioms_def progressing_parse_expression achieves_def)
qed

interpretation stmt: stmt_parser "parse_expression n" n "parse_statement (parse_expression n) n" n for n
  by (rule parse_statement_contract) simp

section \<open>Functions and files\<close>

lemma parse_params_result:
  assumes "stage p0 m P q" "b \<Longrightarrow> remaining q < n" "length ps \<le> PARAM_ARRAY_SIZE"
  shows "achieves b (\<lambda>(ps, r). stage p0 m P r \<and> length ps \<le> PARAM_ARRAY_SIZE) (parse_params n ps q)"
  using assms
proof (induction n arbitrary: ps q)
  case (Suc n)
  obtain ty r where ty: "parse_type q = (ty, r)" by force
  define s where "s = parser_consume TOKEN_IDENTIFIER ''expected parameter name'' r"
  obtain more u where m: "match_token TOKEN_COMMA s = (more, u)" by force
  have r: "stage p0 m P r"
    using stage_moves [OF Suc.prems(1) moves_type [OF stage_ok [OF Suc.prems(1)] ty]] .
  then have s: "stage p0 m P s" unfolding s_def by (rule stage_consume)
  note u = stage_match [OF s m]
  have less: "remaining u < remaining q" if more
  proof -
    have "remaining u < remaining s" using match_progress [of TOKEN_COMMA s u] m that by simp
    also have "\<dots> \<le> remaining r" unfolding s_def by (rule moves_remaining [OF moves_consume [OF stage_ok [OF r]]])
    also have "\<dots> \<le> remaining q" by (rule moves_remaining [OF moves_type [OF stage_ok [OF Suc.prems(1)] ty]])
    finally show ?thesis .
  qed
  have IH: "achieves b (\<lambda>(ps, r). stage p0 m P r \<and> length ps \<le> PARAM_ARRAY_SIZE)
      (parse_params n (ps @ [x]) u)" if more "\<not> PARAM_ARRAY_SIZE \<le> length ps" for x
    using that less Suc.prems(2) by (intro Suc.IH [OF u]) auto
  from IH u Suc.prems(3) show ?case
    by (simp add: ty m Let_def s_def [symmetric])
qed auto

definition function_result :: "parser \<Rightarrow> ast \<times> parser \<Rightarrow> bool" where
  "function_result p = (\<lambda>(f, q). stmt_start q \<and> moves p q \<and> remaining q < remaining p \<and> is_function f \<and> bounded f \<and>
     (clean p q \<longrightarrow> complete_function f))"

definition file_result :: "parser \<Rightarrow> ast \<times> parser \<Rightarrow> bool" where
  "file_result p0 = (\<lambda>(t, q). moves p0 q \<and>
     (t = AstNull \<and> error_count (ps_errors p0) < error_count (ps_errors q) \<or>
      (\<exists>ds. t = AstTranslationUnit zero_info ds \<and> list_all is_function ds \<and> bounded t \<and>
        (clean p0 q \<longrightarrow> list_all complete_function ds))))"

context stmt_parser
begin

lemma parse_function_result:
  assumes p: "stmt_start p" "next_type p \<noteq> TOKEN_EOF" and ty: "is_type_keyword (tok_text (ps_next p))"
    and b: "b \<Longrightarrow> remaining p \<le> sbound \<and> remaining p \<le> n"
  shows "achieves b (function_result p) (parse_function ps n p)"
proof -
  define t where "t = type_from_sv (tok_text (ps_next p))"
  define q where "q = parser_consume TOKEN_IDENTIFIER ''expected function name.'' (parser_advance p)"
  define q' where "q' = parser_consume TOKEN_LPAREN (''expected '' @ quoted ''('' @ '' after function name.'') q"
  define close where
    "close r = parser_consume TOKEN_RPAREN (''expected '' @ quoted '')'' @ '' after parameters.'') r" for r
  define node where "node r params body semi = AstFunction \<lparr>value_type = t, node_line = tok_line (ps_current q),
      node_column = tok_column (ps_current r)\<rparr> (tok_text (ps_current q)) t params body semi"
    for r :: parser and params body semi
  have "stage p (remaining p) True (parser_advance p)"
    using p by (simp add: stage_def stmt_start_def moves_advance remaining_advance)
  then have q': "stage p (remaining p) True q'"
    unfolding q'_def q_def by (intro stage_consume)
  have body: "achieves b (function_result p) (let (semi, s) = match_token TOKEN_SEMICOLON (close r) in
      obind (if semi then Ret (AstNull, s) else parse_block ps n s) (\<lambda>(body, s).
        Ret (node s params body semi, s)))"
    if r: "stage p (remaining p) True r" and params: "length params \<le> PARAM_ARRAY_SIZE" for r params
  proof -
    obtain semi s where m: "match_token TOKEN_SEMICOLON (close r) = (semi, s)" by force
    have s: "stage p (remaining p) True s" "\<not> ps_panic_mode s"
      using stage_match [OF stage_consume [OF r] m [unfolded close_def]] match_panic [OF m]
      by (simp_all add: close_def)
    have res: "function_result p (node u params body proto, u)"
      if "stage p (remaining p) (if proto then body = AstNull else is_block body \<and> complete_stmt body) u"
        "\<not> ps_panic_mode u" "bounded body" for u body proto
      using that params stage_start [of p _ _ u]
      by (auto simp: function_result_def node_def stage_def)
    have "achieves b (function_result p) (obind (parse_block ps n s) (\<lambda>(body, s).
        Ret (node s params body semi, s)))" if "\<not> semi"
    proof (rule achieves_bind [OF parse_block_stage [OF stage_consume [OF s(1)] b refl]])
      fix x
      assume "case x of (s, r) \<Rightarrow> stage p (remaining p) (complete_stmt s) r \<and> \<not> ps_panic_mode r \<and>
        bounded s \<and> is_block s"
      then show "achieves b (function_result p) (case x of (body, s) \<Rightarrow>
          Ret (node s params body semi, s))"
        using that by (cases x) (auto intro!: res elim: stage_weaken)
    qed
    with res s show ?thesis by (auto simp: m)
  qed
  have "achieves b (\<lambda>(ps, r). stage p (remaining p) True r \<and> length ps \<le> PARAM_ARRAY_SIZE)
     (if check TOKEN_RPAREN q' then Ret ([], q')
      else if check TOKEN_VOID q' then Ret ([], parser_advance q') else parse_params n [] q')"
    using q' stage_moves [OF q' moves_advance [OF stage_ok [OF q']]] parse_params_result [OF q', of b n "[]"]
      stage_less [OF q'] b by fastforce
  then have "achieves b (function_result p) (obind
     (if check TOKEN_RPAREN q' then Ret ([], q')
      else if check TOKEN_VOID q' then Ret ([], parser_advance q') else parse_params n [] q')
     (\<lambda>(params, r). let (semi, s) = match_token TOKEN_SEMICOLON (close r) in
      obind (if semi then Ret (AstNull, s) else parse_block ps n s) (\<lambda>(body, s).
        Ret (node s params body semi, s))))"
    by (rule achieves_bind) (simp only: split_paired_all prod.case body)
  moreover have "parse_type p = (t, parser_advance p)" by (simp add: parse_type_def ty t_def Let_def)
  moreover have "\<not> ps_panic_mode (parser_advance p)" using p by (simp add: stmt_start_def)
  ultimately show ?thesis
    by (simp only: parse_function_def q_def q'_def close_def node_def Let_def prod.case if_False)
qed

lemma declaration_loop_result:
  assumes "stmt_start q" "moves p0 q" "list_all is_function ds" "list_all bounded ds"
    "length ds \<le> MAX_FUNCTION_COUNT" "clean p0 q \<longrightarrow> list_all complete_function ds"
    "b \<Longrightarrow> remaining q < n \<and> remaining q \<le> sbound"
  shows "achieves b (file_result p0) (declaration_loop ps n ds q)"
  using assms
proof (induction n arbitrary: ds q)
  case (Suc n)
  have err: "file_result p0 (AstNull, parser_error t q)" for t
  proof -
    have "moves p0 (parser_error t q)" 
      using Suc.prems(1,2) moves_trans [OF _ moves_error] by (auto simp: stmt_start_def)
    moreover have "error_count (ps_errors p0) < error_count (ps_errors (parser_error t q))"
      using Suc.prems(1) extends_error_count [OF moves_errors [OF Suc.prems(2)]]
      by (simp add: stmt_start_def parser_error_def error_add_def)
    ultimately show ?thesis by (simp add: file_result_def)
  qed
  have "achieves b (file_result p0) (obind (parse_function ps n q)
      (\<lambda>(func, p). declaration_loop ps n (ds @ [func]) p))"
    if eof: "next_type q \<noteq> TOKEN_EOF" and ty: "is_type_keyword (tok_text (ps_next q))"
      and room: "length ds < MAX_FUNCTION_COUNT"
  proof (rule achieves_bind, rule parse_function_result [OF Suc.prems(1) eof ty])
    show "b \<Longrightarrow> remaining q \<le> sbound \<and> remaining q \<le> n" using Suc.prems(7) by simp
    fix x
    assume x: "function_result q x"
    obtain f r where fr: "x = (f, r)" by force
    have "clean p0 r \<longrightarrow> clean p0 q \<and> clean q r" "moves p0 r"
      using x fr clean_split [OF Suc.prems(2), of r] moves_trans [OF Suc.prems(2), of r]
      by (auto simp: function_result_def)
    then show "achieves b (file_result p0) (case x of (func, p) \<Rightarrow> declaration_loop ps n (ds @ [func]) p)"
      using x fr Suc.prems room by (auto simp: function_result_def intro!: Suc.IH)
  qed
  with err Suc.prems show ?case by (simp add: check_def file_result_def)
qed auto

end

section \<open>The parser as a whole\<close>

lemma parser_start_ok: "stmt_start (parser_start l errs)"
  by (simp add: stmt_start_def parser_start_def)

lemma parser_start_errors [simp]: "ps_errors (parser_start l errs) = errs"
  by (simp add: parser_start_def)

lemma next_token_curr_le: "lx_curr l \<le> lx_curr (snd (next_token l))"
proof (induction l rule: next_token.induct)
  case (1 l)
  have "lx_curr l \<le> lx_curr (snd (lexer_next l))"
    using scans_mono [OF lexer_next_scans] .
  with 1 show ?case by (subst next_token.simps) auto
qed

lemma remaining_start: "remaining (parser_start l errs) \<le> Suc (lx_end l - lx_curr l)"
proof -
  have "remaining (parser_start l errs)
      \<le> Suc (lx_end (ps_lexer (parser_start l errs)) - lx_curr (ps_lexer (parser_start l errs)))"
    by (simp add: remaining_def)
  also have "\<dots> \<le> Suc (lx_end l - lx_curr l)"
    using next_token_curr_le [of l] by (simp add: parser_start_def)
  finally show ?thesis .
qed

lemma parser_parse_achieves:
  "achieves (lx_end l - lx_curr l + 2 \<le> n) (file_result (parser_start l errs)) (parser_parse n l errs)"
  unfolding parser_parse_def
  using remaining_start [of l errs] moves_refl parser_start_ok [of l errs]
  by (intro stmt.declaration_loop_result) (auto simp: stmt_start_def)

end
