(* ===== verification/HashTable.thy ===== *)
theory HashTable
  imports StringView
begin

text \<open>
  Open addressing with linear probing, as both name tables of the compiler use it: the scopes of
  the semantic analysis (128 slots) and the symbol table of the IR generator (4096 slots). Their
  loops visit the slots \<open>(idx + i) & (SIZE - 1)\<close> for \<open>i = 0, 1, \<dots>\<close> and act on the first one
  that is free or holds the wanted name; \<open>probe_first\<close> is that loop. An array of \<open>cap\<close>
  entries is a function from slot numbers; the slots used are always below \<open>cap\<close>
  (\<open>find_less\<close>).
\<close>

fun probe_first :: "(nat \<Rightarrow> bool) \<Rightarrow> nat \<Rightarrow> nat \<Rightarrow> nat \<Rightarrow> nat \<Rightarrow> nat option" where
  "probe_first P cap idx i 0 = None"
| "probe_first P cap idx i (Suc n) =
     (let cur = probe_slot cap idx i
      in if P cur then Some cur else probe_first P cap idx (Suc i) n)"

definition find_slot ::
  "nat \<Rightarrow> ('e \<Rightarrow> bool) \<Rightarrow> ('e \<Rightarrow> string) \<Rightarrow> (nat \<Rightarrow> 'e) \<Rightarrow> string \<Rightarrow> nat option" where
  "find_slot cap occ key tab nm =
     probe_first (\<lambda>c. \<not> occ (tab c) \<or> sv_eq (key (tab c)) nm) cap (hash_slot cap nm) 0 cap"

text \<open>What a table says about a name.\<close>

definition table_map ::
  "nat \<Rightarrow> ('e \<Rightarrow> bool) \<Rightarrow> ('e \<Rightarrow> string) \<Rightarrow> (nat \<Rightarrow> 'e) \<Rightarrow> string \<Rightarrow> 'e option" where
  "table_map cap occ key tab nm =
     (case find_slot cap occ key tab nm of
        None \<Rightarrow> None
      | Some c \<Rightarrow> if occ (tab c) then Some (tab c) else None)"

text \<open>The table invariant: probing for the name of an occupied slot arrives at that slot.\<close>

definition table_ok ::
  "nat \<Rightarrow> ('e \<Rightarrow> bool) \<Rightarrow> ('e \<Rightarrow> string) \<Rightarrow> (nat \<Rightarrow> 'e) \<Rightarrow> bool" where
  "table_ok cap occ key tab \<longleftrightarrow>
     (\<forall>c < cap. occ (tab c) \<longrightarrow> find_slot cap occ key tab (key (tab c)) = Some c)"

section \<open>The probe loop\<close>

lemma probe_first_Some:
  "probe_first P cap idx i n = Some c \<longleftrightarrow>
     (\<exists>j < n. c = probe_slot cap idx (i + j) \<and> P c \<and>
        (\<forall>k < j. \<not> P (probe_slot cap idx (i + k))))"
proof (induction n arbitrary: i)
  case 0
  then show ?case by simp
next
  case (Suc n)
  have all: "(\<exists>j < Suc n. Q j) \<longleftrightarrow> Q 0 \<or> (\<exists>j < n. Q (Suc j))" for Q
    using less_Suc_eq_0_disj by auto
  have below: "(\<forall>k < Suc j. Q k) \<longleftrightarrow> Q 0 \<and> (\<forall>k < j. Q (Suc k))" for Q j
    using less_Suc_eq_0_disj by auto
  show ?case
    by (auto simp: Let_def all below Suc.IH)
qed

lemma probe_first_None:
  "probe_first P cap idx i n = None \<longleftrightarrow> (\<forall>j < n. \<not> P (probe_slot cap idx (i + j)))"
proof (induction n arbitrary: i)
  case 0
  then show ?case by simp
next
  case (Suc n)
  have all: "(\<forall>j < Suc n. Q j) \<longleftrightarrow> Q 0 \<and> (\<forall>j < n. Q (Suc j))" for Q
    using less_Suc_eq_0_disj by auto
  show ?case by (simp add: Let_def all Suc.IH)
qed

section \<open>The table as a map\<close>

text \<open>
  The interface: a capacity that is a power of two, and the two projections of an entry.
  Everything a client needs follows from it: a fresh table is empty, storing an entry at the
  slot the probe returned changes the map at that name only and keeps the invariant.
\<close>

locale open_table =
  fixes cap :: nat and occ :: "'e \<Rightarrow> bool" and key :: "'e \<Rightarrow> string"
  assumes cap_power: "\<exists>n. cap = 2 ^ n"
begin

lemma cap_pos: "0 < cap"
  using cap_power by auto

lemma slot_mod: "probe_slot cap idx i = (idx + i) mod cap"
  using cap_power probe_slot_mod by auto

lemma slot_inj: "j < cap \<Longrightarrow> k < cap \<Longrightarrow> probe_slot cap idx j = probe_slot cap idx k \<Longrightarrow> j = k"
proof (induction j k rule: linorder_wlog)
  case (le j k)
  then have "(idx + k) mod cap = (idx + j) mod cap" by (simp add: slot_mod)
  then obtain s where "idx + k = idx + j + cap * s"
    using le by (auto elim: mod_eq_nat1E)
  with le show ?case by (cases s) auto
next
  case (sym j k)
  then show ?case by simp
qed

lemma find_less: "find_slot cap occ key tab nm = Some c \<Longrightarrow> c < cap"
  using cap_pos by (auto simp: find_slot_def probe_first_Some slot_mod)

text \<open>Introduction and elimination of a successful probe.\<close>

lemma find_slotI:
  assumes "j < cap" "c = probe_slot cap (hash_slot cap nm) j"
    and "\<not> occ (tab c) \<or> key (tab c) = nm"
    and "\<And>i. i < j \<Longrightarrow> occ (tab (probe_slot cap (hash_slot cap nm) i)) \<and>
           key (tab (probe_slot cap (hash_slot cap nm) i)) \<noteq> nm"
  shows "find_slot cap occ key tab nm = Some c"
  unfolding find_slot_def probe_first_Some using assms by (intro exI [of _ j]) simp

lemma find_slotE:
  assumes "find_slot cap occ key tab nm = Some c"
  obtains j where "j < cap" "c = probe_slot cap (hash_slot cap nm) j"
    and "\<And>i. i < j \<Longrightarrow> occ (tab (probe_slot cap (hash_slot cap nm) i)) \<and>
           key (tab (probe_slot cap (hash_slot cap nm) i)) \<noteq> nm"
  using assms by (auto simp: find_slot_def probe_first_Some)

lemma find_hit:
  "find_slot cap occ key tab nm = Some c \<Longrightarrow> \<not> occ (tab c) \<or> key (tab c) = nm"
  by (auto simp: find_slot_def probe_first_Some)

lemma map_Some: "table_map cap occ key tab nm = Some e \<Longrightarrow> occ e \<and> key e = nm"
  by (auto simp: table_map_def dest: find_hit split: option.splits if_splits)

lemma ok_empty: "(\<And>c. \<not> occ (tab c)) \<Longrightarrow> table_ok cap occ key tab"
  by (simp add: table_ok_def)

lemma map_empty: "(\<And>c. \<not> occ (tab c)) \<Longrightarrow> table_map cap occ key tab nm = None"
  by (simp add: table_map_def split: option.splits)

text \<open>Every occupied slot is in the map, so names are stored once.\<close>

lemma map_slot: "table_ok cap occ key tab \<Longrightarrow> c < cap \<Longrightarrow> occ (tab c) \<Longrightarrow>
    table_map cap occ key tab (key (tab c)) = Some (tab c)"
  by (simp add: table_ok_def table_map_def)

lemma slot_unique: "table_ok cap occ key tab \<Longrightarrow> c < cap \<Longrightarrow> d < cap \<Longrightarrow> occ (tab c) \<Longrightarrow>
    occ (tab d) \<Longrightarrow> key (tab c) = key (tab d) \<Longrightarrow> c = d"
  by (metis table_ok_def option.inject)

text \<open>Probing for a stored name is not disturbed by a new entry under another name.\<close>

lemma find_update_other:
  assumes found: "find_slot cap occ key tab nm = Some c"
    and e: "occ e" "key e = nm" and "k \<noteq> nm"
    and hit: "find_slot cap occ key tab k = Some d" "occ (tab d)"
  shows "find_slot cap occ key (tab(c := e)) k = Some d"
proof -
  from hit have kd: "key (tab d) = k" using find_hit by blast
  have "d \<noteq> c"
    using find_hit [OF found] hit(2) kd \<open>k \<noteq> nm\<close> by auto
  from hit(1) obtain j where j: "j < cap" "d = probe_slot cap (hash_slot cap k) j"
    and before: "\<And>i. i < j \<Longrightarrow>
      occ (tab (probe_slot cap (hash_slot cap k) i)) \<and>
      key (tab (probe_slot cap (hash_slot cap k) i)) \<noteq> k"
    by (rule find_slotE) blast
  show ?thesis
    by (rule find_slotI [OF j]) (use kd before e \<open>k \<noteq> nm\<close> \<open>d \<noteq> c\<close> in auto)
qed

lemma find_update_same:
  assumes found: "find_slot cap occ key tab nm = Some c" and e: "occ e" "key e = nm"
  shows "find_slot cap occ key (tab(c := e)) nm = Some c"
proof -
  from found obtain j where j: "j < cap" "c = probe_slot cap (hash_slot cap nm) j"
    and before: "\<And>i. i < j \<Longrightarrow>
      occ (tab (probe_slot cap (hash_slot cap nm) i)) \<and>
      key (tab (probe_slot cap (hash_slot cap nm) i)) \<noteq> nm"
    by (rule find_slotE) blast
  have other: "probe_slot cap (hash_slot cap nm) i \<noteq> c" if "i < j" for i
    using slot_inj [of i j] that j by auto
  show ?thesis
    by (rule find_slotI [OF j]) (use before e other in auto)
qed

lemma ok_update:
  assumes ok: "table_ok cap occ key tab"
    and found: "find_slot cap occ key tab nm = Some c" and e: "occ e" "key e = nm"
  shows "table_ok cap occ key (tab(c := e))"
  unfolding table_ok_def
proof (intro allI impI)
  fix d assume d: "d < cap" "occ ((tab(c := e)) d)"
  show "find_slot cap occ key (tab(c := e)) (key ((tab(c := e)) d)) = Some d"
  proof (cases "d = c")
    case True
    then show ?thesis using find_update_same [OF found e] e by simp
  next
    case False
    with d ok have hit: "find_slot cap occ key tab (key (tab d)) = Some d" "occ (tab d)"
      by (auto simp: table_ok_def)
    have "key (tab d) \<noteq> nm"
      using hit(1) found False by auto
    with find_update_other [OF found e this hit] False show ?thesis by simp
  qed
qed

text \<open>
  A name that was not stored before is not stored after the update of another name: if a later
  slot held it, the invariant would have found that slot in the first place.
\<close>

lemma map_update:
  assumes ok: "table_ok cap occ key tab"
    and found: "find_slot cap occ key tab nm = Some c" and e: "occ e" "key e = nm"
  shows "table_map cap occ key (tab(c := e)) = (table_map cap occ key tab)(nm \<mapsto> e)"
proof
  fix k
  show "table_map cap occ key (tab(c := e)) k = ((table_map cap occ key tab)(nm \<mapsto> e)) k"
  proof (cases "k = nm")
    case True
    then show ?thesis using find_update_same [OF found e] e by (simp add: table_map_def)
  next
    case False
    show ?thesis
    proof (cases "table_map cap occ key tab k")
      case (Some e')
      then obtain d where "find_slot cap occ key tab k = Some d" "occ (tab d)" "e' = tab d"
        by (auto simp: table_map_def split: option.splits if_splits)
      moreover have "d \<noteq> c"
        using find_hit [OF found] find_hit [OF \<open>find_slot cap occ key tab k = Some d\<close>] \<open>occ (tab d)\<close> False
        by auto
      ultimately show ?thesis
        using find_update_other [OF found e False] False Some by (simp add: table_map_def)
    next
      case None
      have "table_map cap occ key (tab(c := e)) k = None"
      proof (rule ccontr)
        assume "table_map cap occ key (tab(c := e)) k \<noteq> None"
        then obtain d where d: "find_slot cap occ key (tab(c := e)) k = Some d"
            "occ ((tab(c := e)) d)"
          by (auto simp: table_map_def split: option.splits if_splits)
        then have kd: "key ((tab(c := e)) d) = k" using find_hit by blast
        with e False have "d \<noteq> c" by auto
        with d kd have "occ (tab d)" "key (tab d) = k" by simp_all
        moreover have "d < cap" using d find_less by blast
        ultimately have "table_map cap occ key tab k = Some (tab d)"
          using map_slot [OF ok] by blast
        with None show False by simp
      qed
      with None False show ?thesis by simp
    qed
  qed
qed

text \<open>The probe fails only in a table whose every slot holds another name.\<close>

lemma find_None_full:
  assumes "find_slot cap occ key tab nm = None" and "c < cap"
  shows "occ (tab c) \<and> key (tab c) \<noteq> nm"
proof -
  let ?h = "hash_slot cap nm"
  have "?h < cap" using cap_pos by (rule hash_slot_less)
  define j where "j = (if ?h \<le> c then c - ?h else cap + c - ?h)"
  have "j < cap" using \<open>c < cap\<close> \<open>?h < cap\<close> by (auto simp: j_def)
  moreover have "probe_slot cap ?h j = c"
    using \<open>c < cap\<close> \<open>?h < cap\<close> by (auto simp: slot_mod j_def)
  ultimately show ?thesis
    using assms(1) by (auto simp: find_slot_def probe_first_None)
qed

end

end
