(* ===== verification/Semantic.thy ===== *)
theory Semantic
  imports HashTable Ast
begin

text \<open>
  The semantic analysis: \<open>srcs/semantic/semantic.c\<close> and \<open>incs/semantic.h\<close>. The analyser is passed
  explicitly as a \<open>semantic\<close> record. The C code writes the type it computes into the node; here
  each routine returns the updated node beside its verdict. Reading a field through a NULL node is
  \<open>Fault NullDeref\<close>, and constant folding reports the operations C leaves undefined.
\<close>

section \<open>Data\<close>

record var_info =
  vi_name :: string
  vi_type :: data_type
  vi_initialized :: bool
  vi_line :: int

text \<open>A \<open>ScopeEntry\<close> is \<open>None\<close> when it is not occupied.\<close>

type_synonym scope_entry = "var_info option"

definition occupied :: "scope_entry \<Rightarrow> bool" where "occupied e \<longleftrightarrow> e \<noteq> None"
definition entry_name :: "scope_entry \<Rightarrow> string" where "entry_name e = vi_name (the e)"

lemma occupied_simps [simp]: "occupied (Some v)" "\<not> occupied None" "entry_name (Some v) = vi_name v"
  by (simp_all add: occupied_def entry_name_def)

record scope =
  sc_entries :: "nat \<Rightarrow> scope_entry"
  sc_var_count :: nat

record function_info =
  fi_name :: string
  fi_return_type :: data_type
  fi_params :: "parameter list"
  fi_line :: int
  fi_filename :: string
  fi_is_prototype :: bool

text \<open>\<open>GlobalScope\<close>: the first \<open>function_count\<close> elements of the array.\<close>

type_synonym global_scope = "function_info list"

text \<open>\<open>current\<close> and its chain of parents is the list \<open>sa_scopes\<close>, innermost first.\<close>

record semantic =
  sa_scopes :: "scope list"
  sa_errors :: error_context
  sa_filename :: string
  sa_global :: global_scope
  sa_return_type :: data_type
  sa_visible :: "string list"

definition sem_error :: "semantic \<Rightarrow> int \<Rightarrow> int \<Rightarrow> string \<Rightarrow> semantic" where
  "sem_error sa ln col text =
     sa\<lparr>sa_errors := error_semantic (sa_errors sa) (Some (sa_filename sa)) ln col text\<rparr>"

section \<open>Scopes\<close>

definition empty_scope :: scope where
  "empty_scope = \<lparr>sc_entries = (\<lambda>_. None), sc_var_count = 0\<rparr>"

definition semantic_scope_enter :: "semantic \<Rightarrow> semantic" where
  "semantic_scope_enter sa = sa\<lparr>sa_scopes := empty_scope # sa_scopes sa\<rparr>"

definition semantic_scope_exit :: "semantic \<Rightarrow> semantic" where
  "semantic_scope_exit sa = sa\<lparr>sa_scopes := tl (sa_scopes sa)\<rparr>"

abbreviation scope_find :: "(nat \<Rightarrow> scope_entry) \<Rightarrow> string \<Rightarrow> nat option" where
  "scope_find \<equiv> find_slot SCOPE_HASH_SIZE occupied entry_name"

fun semantic_scope_lookup :: "scope list \<Rightarrow> string \<Rightarrow> var_info option" where
  "semantic_scope_lookup [] name = None"
| "semantic_scope_lookup (scope # parents) name =
     (case scope_find (sc_entries scope) name of
        None \<Rightarrow> semantic_scope_lookup parents name
      | Some cur \<Rightarrow>
          (case sc_entries scope cur of
             None \<Rightarrow> semantic_scope_lookup parents name
           | Some info \<Rightarrow> Some info))"

definition semantic_scope_declare ::
  "semantic \<Rightarrow> string \<Rightarrow> data_type \<Rightarrow> int \<Rightarrow> bool \<times> semantic" where
  "semantic_scope_declare sa name type ln =
     (case sa_scopes sa of
        [] \<Rightarrow> (False, sa)
      | scope # parents \<Rightarrow>
          (case scope_find (sc_entries scope) name of
             None \<Rightarrow>
               (False, sem_error sa ln 0
                  (''too many variables in scope (max '' @ fmt_nat SCOPE_HASH_SIZE @ '')''))
           | Some cur \<Rightarrow>
               (case sc_entries scope cur of
                  None \<Rightarrow>
                    (True, sa\<lparr>sa_scopes := scope\<lparr>
                       sc_entries := (sc_entries scope)(cur \<mapsto>
                         \<lparr>vi_name = name, vi_type = type, vi_initialized = False, vi_line = ln\<rparr>),
                       sc_var_count := sc_var_count scope + 1\<rparr> # parents\<rparr>)
                | Some info \<Rightarrow>
                    (False, sem_error sa ln 0
                       (''redeclaration of variable '' @ quoted name @ '' (first declared at line '' @
                        fmt_int (vi_line info) @ '')'')))))"

section \<open>Constant folding\<close>

text \<open>Signed overflow, and shifts by a negative or too large amount, are undefined in C.\<close>

definition int64_result :: "int \<Rightarrow> int option outcome" where
  "int64_result v = (if fits_int64 v then Ret (Some v) else Fault Undefined)"

fun const_binary :: "binary_type \<Rightarrow> int \<Rightarrow> int \<Rightarrow> int option outcome" where
  "const_binary AST_ADD l r = int64_result (l + r)"
| "const_binary AST_SUB l r = int64_result (l - r)"
| "const_binary AST_MUL l r = int64_result (l * r)"
| "const_binary AST_DIV l r =
     (if r = 0 then Ret None
      else if fits_int64 (c_div l r) then Ret (Some (c_div l r)) else Fault Trap)"
| "const_binary AST_LSHIFT l r =
     (if 0 \<le> r \<and> r < 64 \<and> 0 \<le> l then int64_result (push_bit (nat r) l) else Fault Undefined)"
| "const_binary AST_RSHIFT l r =
     (if 0 \<le> r \<and> r < 64 then Ret (Some (drop_bit (nat r) l)) else Fault Undefined)"
| "const_binary AST_BIT_AND l r = Ret (Some (l AND r))"
| "const_binary AST_BIT_OR l r = Ret (Some (l OR r))"
| "const_binary AST_BIT_XOR l r = Ret (Some (l XOR r))"
| "const_binary _ l r = Ret None"

definition foldable :: "binary_type \<Rightarrow> bool" where
  "foldable op \<longleftrightarrow> op \<in> {AST_ADD, AST_SUB, AST_MUL, AST_DIV, AST_LSHIFT, AST_RSHIFT,
                        AST_BIT_AND, AST_BIT_OR, AST_BIT_XOR}"

fun evaluate_const_expression :: "ast \<Rightarrow> int option outcome" where
  "evaluate_const_expression (AstNumber _ value) = Ret (Some (sv_to_int64 value))"
| "evaluate_const_expression (AstUnary op _ e) =
     (case op of
        AST_NEGATE \<Rightarrow> obind (evaluate_const_expression e) (\<lambda>v.
          case v of None \<Rightarrow> Ret None | Some val \<Rightarrow> int64_result (- val))
      | AST_BIT_NOT \<Rightarrow> obind (evaluate_const_expression e) (\<lambda>v.
          case v of None \<Rightarrow> Ret None | Some val \<Rightarrow> Ret (Some (NOT val)))
      | AST_NOT \<Rightarrow> Ret None)"
| "evaluate_const_expression (AstBinary op _ l r) =
     (if foldable op then
        obind (evaluate_const_expression l) (\<lambda>lv.
        case lv of None \<Rightarrow> Ret None
        | Some left \<Rightarrow> obind (evaluate_const_expression r) (\<lambda>rv.
            case rv of None \<Rightarrow> Ret None | Some right \<Rightarrow> const_binary op left right))
      else Ret None)"
| "evaluate_const_expression _ = Ret None"

section \<open>Type compatibility\<close>

text \<open>The \<open>switch\<close> on the size of the destination; \<open>char\<close> is signed on the target.\<close>

definition conversion_safe :: "nat \<Rightarrow> int \<Rightarrow> bool" where
  "conversion_safe bytes v =
     (if bytes = 1 then - 128 \<le> v \<and> v \<le> 127
      else if bytes = 2 then - 32768 \<le> v \<and> v \<le> 32767
      else if bytes = 4 then - 2147483648 \<le> v \<and> v \<le> 2147483647
      else False)"

definition check_type_compatibility ::
  "semantic \<Rightarrow> data_type \<Rightarrow> data_type \<Rightarrow> ast \<Rightarrow> (bool \<times> semantic) outcome" where
  "check_type_compatibility sa dest src node =
     (if dest = src then Ret (True, sa)
      else if src = TYPE_VOID \<or> dest = TYPE_VOID then
        obind (node_info_of node) (\<lambda>i.
          Ret (False, sem_error sa (node_line i) (node_column i) ''invalid use of void expression''))
      else if type_is_integer dest \<and> type_is_integer src then
        (if type_size dest < type_size src then
           obind (evaluate_const_expression node) (\<lambda>v.
           if (case v of None \<Rightarrow> False | Some val \<Rightarrow> conversion_safe (type_size dest) val)
           then Ret (True, sa)
           else obind (node_info_of node) (\<lambda>i.
             Ret (True, sa\<lparr>sa_errors := error_add (sa_errors sa) ERROR_SEMANTIC ERROR_LEVEL_WARNING
               (Some (sa_filename sa)) (node_line i) (node_column i)
               (''implicit conversion from '' @ quoted (type_name src) @ '' to '' @
                quoted (type_name dest) @ '' may lose precision'')\<rparr>)))
         else Ret (True, sa))
      else obind (node_info_of node) (\<lambda>i.
        Ret (False, sem_error sa (node_line i) (node_column i)
          (''incompatible types: cannot assign '' @ quoted (type_name src) @ '' to '' @
           quoted (type_name dest)))))"

section \<open>The global function table\<close>

definition semantic_global_lookup_function :: "global_scope \<Rightarrow> string \<Rightarrow> nat option" where
  "semantic_global_lookup_function global name =
     first_index (\<lambda>f. sv_eq (fi_name f) name) global"

text \<open>\<open>existing\<close> is a pointer into the table, so the update of a prototype happens in place.\<close>

definition declare_existing ::
  "global_scope \<Rightarrow> error_context \<Rightarrow> nat \<Rightarrow> function_info \<Rightarrow> bool \<times> global_scope \<times> error_context" where
  "declare_existing global errors k new =
     (let existing = global ! k;
          err = error_semantic errors (Some (fi_filename new)) (fi_line new) 0 in
      if fi_return_type existing \<noteq> fi_return_type new then
        (False, global, err
          (''conflicting return types for function '' @ quoted (fi_name new) @ '' (previous: '' @
           type_name (fi_return_type existing) @ '', now: '' @ type_name (fi_return_type new) @ '')''))
      else if length (fi_params existing) \<noteq> length (fi_params new) then
        (False, global, err
          (''conflicting types for function '' @ quoted (fi_name new) @ '' (previous declaration at '' @
           fi_filename existing @ '':'' @ fmt_int (fi_line existing) @ '' had '' @
           fmt_nat (length (fi_params existing)) @ '' parameters)''))
      else if fi_is_prototype existing then
        (if \<not> fi_is_prototype new then
           (True, global[k := existing\<lparr>fi_is_prototype := False, fi_line := fi_line new,
              fi_filename := fi_filename new, fi_params := fi_params new\<rparr>], errors)
         else (True, global, errors))
      else if \<not> fi_is_prototype new then
        (False, global, err
          (''redefinition of function '' @ quoted (fi_name new) @ '' (previous definition at '' @
           fi_filename existing @ '':'' @ fmt_int (fi_line existing) @ '')''))
      else (True, global, errors))"

fun semantic_global_declare_function ::
  "global_scope \<Rightarrow> error_context \<Rightarrow> ast \<Rightarrow> string \<Rightarrow> bool \<times> global_scope \<times> error_context" where
  "semantic_global_declare_function global errors (AstFunction i name ret params body proto) filename =
     (if length params > MAX_PARAMS_PER_FUNCTION then
        (False, global, error_semantic errors (Some filename) (node_line i) 0
          (''too many parameters (max '' @ fmt_nat MAX_PARAMS_PER_FUNCTION @ '')''))
      else
        let new = \<lparr>fi_name = name, fi_return_type = ret, fi_params = params, fi_line = node_line i,
                   fi_filename = filename, fi_is_prototype = proto\<rparr> in
        case semantic_global_lookup_function global name of
          Some k \<Rightarrow> declare_existing global errors k new
        | None \<Rightarrow>
            if length global \<ge> MAX_FUNCTION_COUNT then
              (False, global, error_semantic errors (Some filename) (node_line i) 0
                (''too many functions (max '' @ fmt_nat MAX_FUNCTION_COUNT @ '')''))
            else (True, global @ [new], errors))"
| "semantic_global_declare_function global errors _ filename = (False, global, errors)"

section \<open>Expressions\<close>

definition is_arith :: "binary_type \<Rightarrow> bool" where
  "is_arith op \<longleftrightarrow> op \<in> {AST_ADD, AST_SUB, AST_MUL, AST_DIV}"

text \<open>The labels of the comparison case. \<open>AST_GREATER\<close> is not among them.\<close>

definition is_comparison :: "binary_type \<Rightarrow> bool" where
  "is_comparison op \<longleftrightarrow> op \<in> {AST_EQUAL, AST_GREATER_EQUAL, AST_LESS_EQUAL, AST_LESS, AST_NOT_EQUAL}"

definition is_bitwise :: "binary_type \<Rightarrow> bool" where
  "is_bitwise op \<longleftrightarrow> op \<in> {AST_BIT_AND, AST_BIT_OR, AST_BIT_XOR, AST_LSHIFT, AST_RSHIFT}"

definition larger_type :: "data_type \<Rightarrow> data_type \<Rightarrow> data_type" where
  "larger_type l r = (if type_size l \<ge> type_size r then l else r)"

definition at_least_int :: "data_type \<Rightarrow> data_type" where
  "at_least_int t = (if type_size t < type_size TYPE_INT then TYPE_INT else t)"

definition number_type :: "string \<Rightarrow> data_type" where
  "number_type value =
     (if - 2147483648 \<le> sv_to_int64 value \<and> sv_to_int64 value \<le> 2147483647
      then TYPE_INT else TYPE_INT64)"

type_synonym 'a analysis = "(bool \<times> 'a \<times> semantic) outcome"

fun analyze_expression :: "semantic \<Rightarrow> ast \<Rightarrow> ast analysis"
  and analyze_args :: "semantic \<Rightarrow> parameter list \<Rightarrow> ast list \<Rightarrow> ast list analysis" where
  "analyze_expression sa (AstNumber i value) =
     Ret (True, AstNumber (i\<lparr>value_type := number_type value\<rparr>) value, sa)"
| "analyze_expression sa (AstIdentifier i name) =
     (case semantic_scope_lookup (sa_scopes sa) name of
        None \<Rightarrow> Ret (False, AstIdentifier i name, sem_error sa (node_line i) (node_column i)
          (''use of undeclared identifier '' @ quoted name))
      | Some var \<Rightarrow> Ret (True, AstIdentifier (i\<lparr>value_type := vi_type var\<rparr>) name, sa))"
| "analyze_expression sa (AstCall i name args) =
     (let err = sem_error sa (node_line i) (node_column i) in
      if \<not> list_ex (\<lambda>f. sv_eq f name) (sa_visible sa) then
        Ret (False, AstCall i name args, err
          (''implicit declaration of function '' @ quoted name @ '' is invalid in tinyCompile''))
      else
        case semantic_global_lookup_function (sa_global sa) name of
          None \<Rightarrow> Ret (False, AstCall i name args, err (''call to undefined function '' @ quoted name))
        | Some k \<Rightarrow>
            let func = sa_global sa ! k in
            if length args \<noteq> length (fi_params func) then
              Ret (False, AstCall i name args, err
                (''function '' @ quoted name @ '' expects '' @ fmt_nat (length (fi_params func)) @
                 '' arguments, got '' @ fmt_nat (length args)))
            else
              obind (analyze_args sa (fi_params func) args) (\<lambda>(all_ok, args, sa).
                Ret (all_ok, AstCall (i\<lparr>value_type := fi_return_type func\<rparr>) name args, sa)))"
| "analyze_expression sa (AstBinary op i l r) =
     (if \<not> is_arith op \<and> \<not> is_comparison op \<and> \<not> is_bitwise op then Ret (True, AstBinary op i l r, sa)
      else
        obind (analyze_expression sa l) (\<lambda>(left_ok, l, sa).
        obind (analyze_expression sa r) (\<lambda>(right_ok, r, sa).
        if is_comparison op then
          Ret (left_ok \<and> right_ok, AstBinary op (i\<lparr>value_type := TYPE_INT64\<rparr>) l r, sa)
        else if \<not> left_ok \<or> \<not> right_ok then Ret (False, AstBinary op i l r, sa)
        else
          obind (node_type_of l) (\<lambda>left_type.
          if is_arith op then
            obind (node_type_of r) (\<lambda>right_type.
              Ret (True, AstBinary op (i\<lparr>value_type := larger_type left_type right_type\<rparr>) l r, sa))
          else
            Ret (True, AstBinary op (i\<lparr>value_type := at_least_int left_type\<rparr>) l r, sa)))))"
| "analyze_expression sa (AstUnary op i e) =
     obind (analyze_expression sa e) (\<lambda>(ok, e, sa).
       if op = AST_NOT then Ret (ok, AstUnary op (i\<lparr>value_type := TYPE_INT64\<rparr>) e, sa)
       else if ok then obind (node_type_of e) (\<lambda>t. Ret (True, AstUnary op (i\<lparr>value_type := t\<rparr>) e, sa))
       else Ret (False, AstUnary op i e, sa))"
| "analyze_expression sa node = Ret (True, node, sa)"
| "analyze_args sa params [] = Ret (True, [], sa)"
| "analyze_args sa params (arg # args) =
     (case params of
        [] \<Rightarrow> Fault OutOfBounds
      | param # params \<Rightarrow>
          obind (analyze_expression sa arg) (\<lambda>(ok, arg, sa).
          obind (node_type_of arg) (\<lambda>t.
          obind (check_type_compatibility sa (param_type param) t arg) (\<lambda>(compatible, sa).
          obind (analyze_args sa params args) (\<lambda>(rest_ok, args, sa).
            Ret (ok \<and> compatible \<and> rest_ok, arg # args, sa))))))"

section \<open>Statements\<close>

fun analyze_statement :: "semantic \<Rightarrow> ast \<Rightarrow> ast analysis"
  and analyze_statements :: "semantic \<Rightarrow> ast list \<Rightarrow> ast list analysis" where
  "analyze_statement sa (AstVarDecl i name type init) =
     obind
       (if is_null init then Ret (True, init, sa)
        else
          obind (analyze_expression sa init) (\<lambda>(ok, init, sa).
          if ok then
            obind (node_type_of init) (\<lambda>t.
            obind (check_type_compatibility sa type t init) (\<lambda>(compatible, sa).
              Ret (compatible, init, sa)))
          else Ret (False, init, sa)))
       (\<lambda>(init_ok, init, sa).
         let (decl_ok, sa) = semantic_scope_declare sa name type (node_line i)
         in Ret (init_ok \<and> decl_ok, AstVarDecl i name type init, sa))"
| "analyze_statement sa (AstAssignment i name value) =
     (case semantic_scope_lookup (sa_scopes sa) name of
        None \<Rightarrow> Ret (False, AstAssignment i name value, sem_error sa (node_line i) (node_column i)
          (''assignment to undeclared variable '' @ quoted name))
      | Some var \<Rightarrow>
          obind (analyze_expression sa value) (\<lambda>(ok, value, sa).
          if ok then
            obind (node_type_of value) (\<lambda>t.
            obind (check_type_compatibility sa (vi_type var) t value) (\<lambda>(compatible, sa).
              Ret (compatible, AstAssignment (i\<lparr>value_type := vi_type var\<rparr>) name value, sa)))
          else Ret (False, AstAssignment (i\<lparr>value_type := vi_type var\<rparr>) name value, sa)))"
| "analyze_statement sa (AstReturn i e) =
     (let ret = sa_return_type sa in
      if \<not> is_null e then
        if ret = TYPE_VOID then
          Ret (False, AstReturn i e, sem_error sa (node_line i) (node_column i)
            ''void function should not return a value'')
        else
          obind (analyze_expression sa e) (\<lambda>(ok, e, sa).
          if ok then
            obind (node_type_of e) (\<lambda>t.
            obind (check_type_compatibility sa ret t e) (\<lambda>(compatible, sa).
              Ret (compatible, AstReturn (i\<lparr>value_type := ret\<rparr>) e, sa)))
          else Ret (False, AstReturn (i\<lparr>value_type := ret\<rparr>) e, sa))
      else if ret \<noteq> TYPE_VOID then
        Ret (False, AstReturn i e, sem_error sa (node_line i) (node_column i)
          ''non-void function must return a value'')
      else Ret (True, AstReturn i e, sa))"
| "analyze_statement sa (AstIf i c t e) =
     obind (analyze_expression sa c) (\<lambda>(cond_ok, c, sa).
     obind (analyze_statement sa t) (\<lambda>(then_ok, t, sa).
     obind (analyze_statement sa e) (\<lambda>(else_ok, e, sa).
       Ret (cond_ok \<and> then_ok \<and> else_ok, AstIf i c t e, sa))))"
| "analyze_statement sa (AstWhile i c b) =
     obind (analyze_expression sa c) (\<lambda>(cond_ok, c, sa).
     obind (analyze_statement sa b) (\<lambda>(body_ok, b, sa).
       Ret (cond_ok \<and> body_ok, AstWhile i c b, sa)))"
| "analyze_statement sa (AstBlock i ss) =
     obind (analyze_statements (semantic_scope_enter sa) ss) (\<lambda>(all_ok, ss, sa).
       Ret (all_ok, AstBlock i ss, semantic_scope_exit sa))"
| "analyze_statement sa node = analyze_expression sa node"
| "analyze_statements sa [] = Ret (True, [], sa)"
| "analyze_statements sa (s # ss) =
     obind (analyze_statement sa s) (\<lambda>(ok, s, sa).
     obind (analyze_statements sa ss) (\<lambda>(rest_ok, ss, sa).
       Ret (ok \<and> rest_ok, s # ss, sa)))"

section \<open>Functions and files\<close>

fun declare_params :: "semantic \<Rightarrow> int \<Rightarrow> parameter list \<Rightarrow> bool \<times> semantic" where
  "declare_params sa ln [] = (True, sa)"
| "declare_params sa ln (p # ps) =
     (let (ok, sa) = semantic_scope_declare sa (param_name p) (param_type p) ln;
          (rest_ok, sa) = declare_params sa ln ps
      in (ok \<and> rest_ok, sa))"

fun analyze_node :: "semantic \<Rightarrow> ast \<Rightarrow> ast analysis" where
  "analyze_node sa AstNull = Fault NullDeref"
| "analyze_node sa (AstFunction i name ret params body proto) =
     (if proto then Ret (True, AstFunction i name ret params body proto, sa)
      else
        let (params_ok, sa) =
              declare_params (semantic_scope_enter (sa\<lparr>sa_return_type := ret\<rparr>)) (node_line i) params
        in case body of
             AstBlock bi ss \<Rightarrow>
               obind (analyze_statements sa ss) (\<lambda>(body_ok, ss, sa).
                 Ret (params_ok \<and> body_ok, AstFunction i name ret params (AstBlock bi ss) proto,
                      semantic_scope_exit sa))
           | _ \<Rightarrow> Ret (params_ok, AstFunction i name ret params body proto, semantic_scope_exit sa))"
| "analyze_node sa node = Ret (False, node, sa)"

fun analyze_nodes :: "semantic \<Rightarrow> ast list \<Rightarrow> ast list analysis" where
  "analyze_nodes sa [] = Ret (True, [], sa)"
| "analyze_nodes sa (d # ds) =
     obind (analyze_node sa d) (\<lambda>(ok, d, sa).
     obind (analyze_nodes sa ds) (\<lambda>(rest_ok, ds, sa).
       Ret (ok \<and> rest_ok, d # ds, sa)))"

text \<open>The first loop: the names of the functions of this file. It stops when the array is full.\<close>

fun collect_visible :: "semantic \<Rightarrow> ast list \<Rightarrow> (bool \<times> semantic) outcome" where
  "collect_visible sa [] = Ret (True, sa)"
| "collect_visible sa (AstNull # ds) = Fault NullDeref"
| "collect_visible sa (AstFunction i name ret params body proto # ds) =
     (if list_ex (\<lambda>f. sv_eq f name) (sa_visible sa) then collect_visible sa ds
      else if length (sa_visible sa) \<ge> MAX_FUNCTION_COUNT then
        Ret (False, sem_error sa (node_line i) 0 ''too many functions'')
      else collect_visible (sa\<lparr>sa_visible := sa_visible sa @ [name]\<rparr>) ds)"
| "collect_visible sa (_ # ds) = collect_visible sa ds"

text \<open>Reading \<open>unit->ast->translation_unit\<close> needs a node; the tag is not tested.\<close>

fun semantic_analyze ::
  "ast \<Rightarrow> string \<Rightarrow> error_context \<Rightarrow> global_scope \<Rightarrow> (bool \<times> ast \<times> error_context) outcome" where
  "semantic_analyze (AstTranslationUnit i ds) name errors global =
     obind (collect_visible \<lparr>sa_scopes = [], sa_errors = errors, sa_filename = name,
              sa_global = global, sa_return_type = TYPE_INT64, sa_visible = []\<rparr> ds) (\<lambda>(ok, sa).
     if \<not> ok then Ret (False, AstTranslationUnit i ds, sa_errors sa)
     else obind (analyze_nodes sa ds) (\<lambda>(all_ok, ds, sa).
       Ret (all_ok, AstTranslationUnit i ds, sa_errors sa)))"
| "semantic_analyze AstNull name errors global = Fault NullDeref"
| "semantic_analyze _ name errors global = Fault Undefined"

end
