(* ===== verification/SemanticFacts.thy ===== *)
theory SemanticFacts
  imports Semantic
begin

text \<open>
  What the semantic analysis accepts. A type system on association lists (\<open>texpr\<close>, \<open>tstmt\<close>,
  \<open>tfunction\<close>) states the rules without hash tables, error lists or fixed arrays; the analyser
  is shown to decide it: its verdict is true exactly when the tree is typed, which is exactly when
  it reports no error, and the types it writes into the tree are those of the type system.
\<close>

section \<open>Scopes as maps\<close>

interpretation scope: open_table SCOPE_HASH_SIZE occupied entry_name
  by unfold_locales (rule exI [of _ 7], simp add: SCOPE_HASH_SIZE_def)

text \<open>The variables of one scope, and of a chain of scopes.\<close>

definition entry_vars :: "(nat \<Rightarrow> scope_entry) \<Rightarrow> string \<Rightarrow> var_info option" where
  "entry_vars es nm = Option.bind (table_map SCOPE_HASH_SIZE occupied entry_name es nm) id"

fun chain_vars :: "scope list \<Rightarrow> string \<Rightarrow> var_info option" where
  "chain_vars [] = Map.empty"
| "chain_vars (s # ps) = chain_vars ps ++ entry_vars (sc_entries s)"

lemma entry_vars_find:
  "entry_vars es nm = (case scope_find es nm of None \<Rightarrow> None | Some c \<Rightarrow> es c)"
  by (auto simp: entry_vars_def table_map_def occupied_def split: option.split)

lemma semantic_scope_lookup_chain: "semantic_scope_lookup ss = chain_vars ss"
  by (rule ext, induction ss)
    (auto simp: entry_vars_find map_add_def split: option.splits)

text \<open>The abstract scope: the declared names with their types, the last declared first.\<close>

type_synonym tscope = "(string \<times> data_type) list"

text \<open>The slots in use are as many as the counter says.\<close>

definition scope_models :: "scope \<Rightarrow> tscope \<Rightarrow> bool" where
  "scope_models s al \<longleftrightarrow>
     table_ok SCOPE_HASH_SIZE occupied entry_name (sc_entries s) \<and>
     map_option vi_type \<circ> entry_vars (sc_entries s) = map_of al \<and> distinct (map fst al) \<and>
     length al = sc_var_count s \<and>
     card {c. c < SCOPE_HASH_SIZE \<and> occupied (sc_entries s c)} = sc_var_count s"

lemma scope_models_lookup:
  "scope_models s al \<Longrightarrow> map_option vi_type (entry_vars (sc_entries s) nm) = map_of al nm"
  unfolding scope_models_def by (metis comp_apply)

lemma scope_models_empty: "scope_models empty_scope []"
  by (auto simp: scope_models_def empty_scope_def entry_vars_def scope.ok_empty
      scope.map_empty fun_eq_iff)

text \<open>Declaring fails only for a redeclaration or when the 128 slots are all in use.\<close>

lemma scope_find_full:
  assumes "scope_models s al"
  shows "scope_find (sc_entries s) nm = None \<longleftrightarrow> map_of al nm = None \<and> SCOPE_HASH_SIZE \<le> length al"
proof
  let ?used = "{c. c < SCOPE_HASH_SIZE \<and> occupied (sc_entries s c)}"
  assume none: "scope_find (sc_entries s) nm = None"
  then have "?used = {..<SCOPE_HASH_SIZE}"
    using scope.find_None_full by fastforce
  then have "card ?used = SCOPE_HASH_SIZE" by simp
  moreover have "map_of al nm = None"
    using scope_models_lookup [OF assms, of nm] none by (simp add: entry_vars_find)
  ultimately show "map_of al nm = None \<and> SCOPE_HASH_SIZE \<le> length al"
    using assms by (simp add: scope_models_def)
next
  let ?used = "{c. c < SCOPE_HASH_SIZE \<and> occupied (sc_entries s c)}"
  assume full: "map_of al nm = None \<and> SCOPE_HASH_SIZE \<le> length al"
  then have "card {..<SCOPE_HASH_SIZE} \<le> card ?used"
    using assms by (simp add: scope_models_def)
  then have "?used = {..<SCOPE_HASH_SIZE}"
    by (intro card_seteq) auto
  then have used: "occupied (sc_entries s c)" if "c < SCOPE_HASH_SIZE" for c
    using that by blast
  show "scope_find (sc_entries s) nm = None"
  proof (rule ccontr)
    assume "scope_find (sc_entries s) nm \<noteq> None"
    then obtain c where c: "scope_find (sc_entries s) nm = Some c" by blast
    with used [OF scope.find_less [OF c]] have "entry_vars (sc_entries s) nm \<noteq> None"
      by (simp add: entry_vars_find occupied_def)
    with full scope_models_lookup [OF assms, of nm] show False by simp
  qed
qed

fun tdeclare :: "string \<Rightarrow> data_type \<Rightarrow> tscope list \<Rightarrow> tscope list option" where
  "tdeclare nm ty [] = None"
| "tdeclare nm ty (al # als) =
     (if map_of al nm \<noteq> None \<or> SCOPE_HASH_SIZE \<le> length al then None
      else Some (((nm, ty) # al) # als))"

definition chain_models :: "scope list \<Rightarrow> tscope list \<Rightarrow> bool" where
  "chain_models = list_all2 scope_models"

lemma chain_models_simps [simp]:
  "chain_models [] als \<longleftrightarrow> als = []"
  "chain_models (s # ss) als \<longleftrightarrow> (\<exists>a as. als = a # as \<and> scope_models s a \<and> chain_models ss as)"
  by (auto simp: chain_models_def list_all2_Cons1)

lemma scope_store:
  assumes m: "scope_models s al" and c: "scope_find (sc_entries s) nm = Some c" "sc_entries s c = None"
    and v: "vi_name v = nm"
  shows "scope_models (s\<lparr>sc_entries := (sc_entries s)(c \<mapsto> v), sc_var_count := sc_var_count s + 1\<rparr>)
    ((nm, vi_type v) # al)"
proof -
  let ?used = "{c. c < SCOPE_HASH_SIZE \<and> occupied (sc_entries s c)}"
  let ?es = "(sc_entries s)(c \<mapsto> v)"
  have ok: "table_ok SCOPE_HASH_SIZE occupied entry_name (sc_entries s)"
    using m by (simp add: scope_models_def)
  have "table_map SCOPE_HASH_SIZE occupied entry_name ?es =
      (table_map SCOPE_HASH_SIZE occupied entry_name (sc_entries s))(nm \<mapsto> Some v)"
    using scope.map_update [OF ok c(1), of "Some v"] v by simp
  then have vars: "entry_vars ?es = (entry_vars (sc_entries s))(nm \<mapsto> v)"
    by (auto simp: entry_vars_def fun_eq_iff)
  have new: "map_of al nm = None"
    using scope_models_lookup [OF m, of nm] c by (simp add: entry_vars_find)
  have "c < SCOPE_HASH_SIZE" using c(1) by (rule scope.find_less)
  then have "{d. d < SCOPE_HASH_SIZE \<and> occupied (?es d)} = insert c ?used" by (auto simp: occupied_def)
  moreover have "c \<notin> ?used" using c(2) by simp
  ultimately have "card {d. d < SCOPE_HASH_SIZE \<and> occupied (?es d)} = Suc (card ?used)" by simp
  moreover have "table_ok SCOPE_HASH_SIZE occupied entry_name ?es"
    using scope.ok_update [OF ok c(1), of "Some v"] v by simp
  moreover have "map_option vi_type \<circ> entry_vars ?es = map_of ((nm, vi_type v) # al)"
    using m vars by (auto simp: scope_models_def fun_eq_iff)
  ultimately show ?thesis
    using m new by (simp add: scope_models_def map_of_eq_None_iff)
qed

text \<open>What a step of the analysis leaves alone.\<close>

definition sem_frame :: "semantic \<Rightarrow> semantic \<Rightarrow> bool" where
  "sem_frame sa sb \<longleftrightarrow> sa_global sb = sa_global sa \<and> sa_filename sb = sa_filename sa \<and>
     sa_return_type sb = sa_return_type sa \<and> sa_visible sb = sa_visible sa \<and>
     extends (sa_errors sa) (sa_errors sb)"

abbreviation sem_errors :: "semantic \<Rightarrow> nat" where "sem_errors sa \<equiv> error_count (sa_errors sa)"

lemma sem_frame_refl [simp]: "sem_frame sa sa"
  by (simp add: sem_frame_def)

lemma sem_frame_trans [trans]: "sem_frame a b \<Longrightarrow> sem_frame b c \<Longrightarrow> sem_frame a c"
  by (auto simp: sem_frame_def intro: extends_trans)

lemma sem_frame_errors: "sem_frame sa sb \<Longrightarrow> sem_errors sa \<le> sem_errors sb"
  by (auto simp: sem_frame_def dest: extends_error_count)

lemma sem_frame_error [simp]: "sem_frame sa (sem_error sa ln col t)"
  by (simp add: sem_frame_def sem_error_def)

lemma sem_error_fields [simp]: "sa_scopes (sem_error sa ln col t) = sa_scopes sa"
    "sem_errors (sem_error sa ln col t) = Suc (sem_errors sa)"
  by (simp_all add: sem_error_def)

text \<open>
  The verdict of a step: true exactly when the step is allowed, and exactly when it reported
  nothing.
\<close>

definition verdict :: "bool \<Rightarrow> bool \<Rightarrow> semantic \<Rightarrow> semantic \<Rightarrow> bool" where
  "verdict allowed ok sa sb \<longleftrightarrow> sem_frame sa sb \<and> (ok \<longleftrightarrow> allowed) \<and> (ok \<longleftrightarrow> sem_errors sb = sem_errors sa)"

lemma verdict_refl [simp]: "verdict a ok sa sa \<longleftrightarrow> a \<and> ok"
  by (auto simp: verdict_def)

lemma verdict_error [simp]: "verdict a ok sa (sem_error sa ln col t) \<longleftrightarrow> \<not> a \<and> \<not> ok"
  by (auto simp: verdict_def)

lemma verdict_frame: "verdict a ok sa sb \<Longrightarrow> sem_frame sa sb"
  by (simp add: verdict_def)

lemma verdict_trans:
  assumes "verdict a ok sa sb" "verdict b ok' sb sc"
  shows "verdict (a \<and> b) (ok \<and> ok') sa sc"
  using assms sem_frame_trans [of sa sb sc] sem_frame_errors [of sa sb] sem_frame_errors [of sb sc]
  by (auto simp: verdict_def)

text \<open>Once a step has failed, what follows decides nothing.\<close>

lemma verdict_fail: "verdict a False sa sb \<Longrightarrow> verdict b ok sb sc \<Longrightarrow> verdict False False sa sc"
  using verdict_trans [of a False sa sb b ok sc] by (auto simp: verdict_def)

lemma declare_models:
  assumes "chain_models (sa_scopes sa) als" "semantic_scope_declare sa nm ty ln = (ok, sb)"
  shows "\<exists>als'. chain_models (sa_scopes sb) als' \<and> length als' = length als \<and>
     (als \<noteq> [] \<longrightarrow> verdict (tdeclare nm ty als \<noteq> None) ok sa sb) \<and>
     (ok \<longrightarrow> tdeclare nm ty als = Some als') \<and> tl (sa_scopes sb) = tl (sa_scopes sa)"
proof (cases "sa_scopes sa")
  case Nil
  with assms show ?thesis by (auto simp: semantic_scope_declare_def)
next
  case (Cons s ps)
  with assms(1) obtain a as where als: "als = a # as" "scope_models s a" "chain_models ps as" by auto
  show ?thesis
  proof (cases "scope_find (sc_entries s) nm")
    case None
    with assms(2) Cons have "\<not> ok" "\<exists>t. sb = sem_error sa ln 0 t"
      by (auto simp: semantic_scope_declare_def)
    moreover have "tdeclare nm ty als = None" using als scope_find_full [OF als(2)] None by simp
    ultimately show ?thesis using assms(1) by auto
  next
    case (Some c)
    show ?thesis
    proof (cases "sc_entries s c")
      case None
      let ?v = "\<lparr>vi_name = nm, vi_type = ty, vi_initialized = False, vi_line = ln\<rparr>"
      have sb: "ok" "sb = sa\<lparr>sa_scopes := s\<lparr>sc_entries := (sc_entries s)(c \<mapsto> ?v),
          sc_var_count := sc_var_count s + 1\<rparr> # ps\<rparr>"
        using assms(2) Cons Some None by (auto simp: semantic_scope_declare_def)
      have "tdeclare nm ty als = Some (((nm, ty) # a) # as)"
        using als scope_find_full [OF als(2), of nm] scope_models_lookup [OF als(2), of nm] Some None
        by (auto simp: entry_vars_find)
      moreover have "verdict True True sa sb" by (simp add: sb verdict_def sem_frame_def)
      ultimately show ?thesis
        using scope_store [OF als(2) Some None, of ?v] als sb Cons
        by (intro exI [of _ "((nm, ty) # a) # as"]) simp
    next
      case (Some v)
      with \<open>scope_find (sc_entries s) nm = Some c\<close> assms(2) Cons
      have "\<not> ok" "\<exists>t. sb = sem_error sa ln 0 t" by (auto simp: semantic_scope_declare_def)
      moreover have "tdeclare nm ty als = None"
        using als scope_models_lookup [OF als(2), of nm] Some \<open>scope_find (sc_entries s) nm = Some c\<close>
        by (auto simp: entry_vars_find dest: sym)
      ultimately show ?thesis using assms(1) by auto
    qed
  qed
qed

section \<open>The type system\<close>

text \<open>
  \<open>compatible\<close>: every pair of types that are not \<open>void\<close> converts. \<open>texpr m\<close> is the type of an
  expression by the rules \<open>m\<close>, \<open>None\<close> when it has none. \<open>Language\<close> are the rules of the language:
  a comparison, by \<open>>\<close> too, takes typed operands and has type \<open>int64\<close>; an assignment is a
  statement and has no type. \<open>Analyser\<close> are what the code makes of them: it does not look into a
  comparison by \<open>>\<close> or into an assignment used as a value, and takes for their type what is
  written in the node.
\<close>

datatype rules = Language | Analyser

definition compatible :: "data_type \<Rightarrow> data_type \<Rightarrow> bool" where
  "compatible dest src \<longleftrightarrow> dest = src \<or> dest \<noteq> TYPE_VOID \<and> src \<noteq> TYPE_VOID"

type_synonym tvars = "string \<Rightarrow> data_type option"
type_synonym tsigs = "string \<Rightarrow> (data_type \<times> data_type list) option"

text \<open>Arithmetic has the larger type of both operands, a bit operation at least \<open>int\<close>, a literal \<open>int\<close> when it fits.\<close>

definition tbinary :: "binary_type \<Rightarrow> data_type \<Rightarrow> data_type \<Rightarrow> data_type" where
  "tbinary op l r =
     (if op \<in> {AST_ADD, AST_SUB, AST_MUL, AST_DIV} then (if type_size l < type_size r then r else l)
      else if op \<in> {AST_BIT_AND, AST_BIT_OR, AST_BIT_XOR, AST_LSHIFT, AST_RSHIFT}
        then (if type_size l < 4 then TYPE_INT else l)
      else TYPE_INT64)"

definition tnumber :: "string \<Rightarrow> data_type" where
  "tnumber digits = (if - (2 ^ 31) \<le> sv_to_int64 digits \<and> sv_to_int64 digits < 2 ^ 31 then TYPE_INT else TYPE_INT64)"

fun texpr :: "rules \<Rightarrow> tvars \<Rightarrow> tsigs \<Rightarrow> ast \<Rightarrow> data_type option"
  and targs :: "rules \<Rightarrow> tvars \<Rightarrow> tsigs \<Rightarrow> data_type list \<Rightarrow> ast list \<Rightarrow> bool" where
  "texpr m vs fs (AstNumber _ value) = Some (tnumber value)"
| "texpr m vs fs (AstIdentifier _ name) = vs name"
| "texpr m vs fs (AstCall _ name args) =
     (case fs name of None \<Rightarrow> None | Some (ret, tys) \<Rightarrow> if targs m vs fs tys args then Some ret else None)"
| "texpr m vs fs (AstBinary op i l r) =
     (if m = Analyser \<and> op = AST_GREATER then Some (value_type i)
      else case (texpr m vs fs l, texpr m vs fs r) of
        (Some lt, Some rt) \<Rightarrow> Some (tbinary op lt rt) | _ \<Rightarrow> None)"
| "texpr m vs fs (AstUnary op _ e) =
     map_option (\<lambda>t. if op = AST_NOT then TYPE_INT64 else t) (texpr m vs fs e)"
| "texpr m vs fs (AstAssignment i _ _) = (if m = Analyser then Some (value_type i) else None)"
| "texpr m vs fs _ = None"
| "targs m vs fs [] [] = True"
| "targs m vs fs (ty # tys) (e # es) \<longleftrightarrow>
     (case texpr m vs fs e of None \<Rightarrow> False | Some t \<Rightarrow> compatible ty t) \<and> targs m vs fs tys es"
| "targs m vs fs _ _ = False"

definition scope_types :: "semantic \<Rightarrow> tvars" where
  "scope_types sa nm = map_option vi_type (chain_vars (sa_scopes sa) nm)"

definition signatures :: "semantic \<Rightarrow> tsigs" where
  "signatures sa nm =
     (if nm \<in> set (sa_visible sa) then
        map_option (\<lambda>k. (fi_return_type (sa_global sa ! k), map param_type (fi_params (sa_global sa ! k))))
          (semantic_global_lookup_function (sa_global sa) nm)
      else None)"

lemma targs_length: "targs m vs fs tys es \<Longrightarrow> length tys = length es"
  by (induction m vs fs tys es rule: texpr_targs.induct(2) [of "\<lambda>_ _ _ _. True"]) simp_all

lemma number_typed: "number_type digits = tnumber digits"
  by (simp add: number_type_def tnumber_def)

lemma binary_typed:
  "op \<noteq> AST_GREATER \<Longrightarrow> tbinary op l r =
     (if is_comparison op then TYPE_INT64 else if is_arith op then larger_type l r else at_least_int l)"
  by (cases op) (simp_all add: tbinary_def is_comparison_def is_arith_def larger_type_def at_least_int_def)

lemma signatures_frame: "sem_frame sa sb \<Longrightarrow> signatures sb = signatures sa"
  by (rule ext) (simp add: signatures_def sem_frame_def)

section \<open>Contracts\<close>

text \<open>
  \<open>safely P m\<close>: \<open>m\<close> returns a value that satisfies \<open>P\<close>, or folds a constant expression whose value
  C leaves undefined. No NULL pointer is read.
\<close>

definition safely :: "('a \<Rightarrow> bool) \<Rightarrow> 'a outcome \<Rightarrow> bool" where
  "safely P m \<longleftrightarrow> (case m of Ret x \<Rightarrow> P x | Fault e \<Rightarrow> e \<in> {Undefined, Trap} | Timeout \<Rightarrow> False)"

lemma safely_simps [simp]: "safely P (Ret x) \<longleftrightarrow> P x"
    "safely P (Fault e) \<longleftrightarrow> e = Undefined \<or> e = Trap" "\<not> safely P Timeout"
  by (simp_all add: safely_def)

lemma safely_bind: "safely P m \<Longrightarrow> (\<And>x. P x \<Longrightarrow> safely Q (k x)) \<Longrightarrow> safely Q (obind m k)"
  by (cases m) simp_all

lemma safely_all: "\<exists>y. A y \<Longrightarrow> (\<And>y. A y \<Longrightarrow> safely (P y) m) \<Longrightarrow> safely (\<lambda>x. \<forall>y. A y \<longrightarrow> P y x) m"
  by (cases m) auto

lemma safely_mono: "safely P m \<Longrightarrow> (\<And>x. P x \<Longrightarrow> Q x) \<Longrightarrow> safely Q m"
  by (cases m) simp_all

text \<open>The analysis changes nothing in a tree but the types of its nodes.\<close>

fun strip :: "ast \<Rightarrow> ast" where
  "strip AstNull = AstNull"
| "strip (AstNumber i v) = AstNumber (i\<lparr>value_type := TYPE_VOID\<rparr>) v"
| "strip (AstIdentifier i n) = AstIdentifier (i\<lparr>value_type := TYPE_VOID\<rparr>) n"
| "strip (AstBinary op i l r) = AstBinary op (i\<lparr>value_type := TYPE_VOID\<rparr>) (strip l) (strip r)"
| "strip (AstUnary op i e) = AstUnary op (i\<lparr>value_type := TYPE_VOID\<rparr>) (strip e)"
| "strip (AstVarDecl i n ty e) = AstVarDecl (i\<lparr>value_type := TYPE_VOID\<rparr>) n ty (strip e)"
| "strip (AstAssignment i n e) = AstAssignment (i\<lparr>value_type := TYPE_VOID\<rparr>) n (strip e)"
| "strip (AstIf i c t e) = AstIf (i\<lparr>value_type := TYPE_VOID\<rparr>) (strip c) (strip t) (strip e)"
| "strip (AstWhile i c b) = AstWhile (i\<lparr>value_type := TYPE_VOID\<rparr>) (strip c) (strip b)"
| "strip (AstBlock i ss) = AstBlock (i\<lparr>value_type := TYPE_VOID\<rparr>) (map strip ss)"
| "strip (AstReturn i e) = AstReturn (i\<lparr>value_type := TYPE_VOID\<rparr>) (strip e)"
| "strip (AstFunction i n r ps b p) = AstFunction (i\<lparr>value_type := TYPE_VOID\<rparr>) n r ps (strip b) p"
| "strip (AstTranslationUnit i ds) = AstTranslationUnit (i\<lparr>value_type := TYPE_VOID\<rparr>) (map strip ds)"
| "strip (AstCall i n es) = AstCall (i\<lparr>value_type := TYPE_VOID\<rparr>) n (map strip es)"

lemma strip_Null [simp]: "strip n = AstNull \<longleftrightarrow> n = AstNull" "AstNull = strip n \<longleftrightarrow> n = AstNull"
  by (cases n; simp)+

lemma complete_expr_strip [simp]: "complete_expr (strip n) = complete_expr n"
  by (induction n) (auto simp: list_all_iff)

lemma complete_expr_strip_eq: "strip a = strip b \<Longrightarrow> complete_expr a = complete_expr b"
  by (metis complete_expr_strip)

lemma node_type_complete: "complete_expr n \<Longrightarrow> \<exists>t. node_type_of n = Ret t"
  by (cases n) (simp_all add: node_type_of_def)

lemma const_binary_safe: "safely (\<lambda>_. True) (const_binary op l r)"
  by (cases op) (simp_all add: int64_result_def)

lemma evaluate_const_safe: "safely (\<lambda>_. True) (evaluate_const_expression n)"
  by (induction n)
    (auto split: unary_type.split option.split intro!: safely_bind const_binary_safe simp: int64_result_def)

lemma check_type_compatibility_spec:
  assumes "complete_expr n"
  shows "safely (\<lambda>(ok, sb). verdict (compatible dest src) ok sa sb \<and> sa_scopes sb = sa_scopes sa)
     (check_type_compatibility sa dest src n)"
proof -
  obtain i where i: "node_info_of n = Ret i"
    using assms by (cases n) simp_all
  have warn: "verdict True True sa (sa\<lparr>sa_errors := error_add (sa_errors sa) c ERROR_LEVEL_WARNING f ln col t\<rparr>)"
    for c f ln col t by (simp add: verdict_def sem_frame_def)
  show ?thesis
    by (auto simp: check_type_compatibility_def i compatible_def type_is_integer_def warn
        intro!: safely_bind [OF evaluate_const_safe])
qed

definition expr_spec :: "semantic \<Rightarrow> ast \<Rightarrow> bool \<times> ast \<times> semantic \<Rightarrow> bool" where
  "expr_spec sa e = (\<lambda>(ok, e', sb).
     verdict (texpr Analyser (scope_types sa) (signatures sa) e \<noteq> None) ok sa sb \<and> sa_scopes sb = sa_scopes sa \<and>
     strip e' = strip e \<and> complete_expr e' \<and>
     (ok \<longrightarrow> node_type_of e' = Ret (the (texpr Analyser (scope_types sa) (signatures sa) e))))"

definition args_spec :: "semantic \<Rightarrow> data_type list \<Rightarrow> ast list \<Rightarrow> bool \<times> ast list \<times> semantic \<Rightarrow> bool" where
  "args_spec sa tys es = (\<lambda>(ok, es', sb).
     verdict (targs Analyser (scope_types sa) (signatures sa) tys es) ok sa sb \<and> sa_scopes sb = sa_scopes sa \<and>
     map strip es' = map strip es \<and> list_all complete_expr es')"

text \<open>A step that keeps the scopes keeps the typing environment.\<close>

lemma env_frame:
  "verdict a ok sa sb \<Longrightarrow> sa_scopes sb = sa_scopes sa \<Longrightarrow>
   scope_types sb = scope_types sa \<and> signatures sb = signatures sa"
  by (auto simp: scope_types_def [abs_def] verdict_def signatures_frame)

lemma analyze_args_spec:
  assumes "\<And>e sa. e \<in> set es \<Longrightarrow> safely (expr_spec sa e) (analyze_expression sa e)"
    and "length ps = length es"
  shows "safely (args_spec sa (map param_type ps) es) (analyze_args sa ps es)"
  using assms
proof (induction es arbitrary: sa ps)
  case Nil
  then show ?case by (simp add: args_spec_def)
next
  case (Cons e es)
  then obtain p ps' where ps: "ps = p # ps'" by (cases ps) auto
  let ?vs = "scope_types sa" and ?fs = "signatures sa"
  have "safely (args_spec sa (map param_type ps) (e # es))
    (obind (analyze_expression sa e) (\<lambda>(ok, arg, sa).
          obind (node_type_of arg) (\<lambda>t.
          obind (check_type_compatibility sa (param_type p) t arg) (\<lambda>(compatible, sa).
          obind (analyze_args sa ps' es) (\<lambda>(rest_ok, args, sa).
            Ret (ok \<and> compatible \<and> rest_ok, arg # args, sa))))))"
  proof (rule safely_bind [OF Cons.prems(1)], simp, clarify)
    fix ok e' sb
    assume e: "expr_spec sa e (ok, e', sb)"
    then obtain t where t: "node_type_of e' = Ret t" and ce: "complete_expr e'"
      using node_type_complete [of e'] by (auto simp: expr_spec_def)
    from e have env: "scope_types sb = ?vs" "signatures sb = ?fs"
      using env_frame by (auto simp: expr_spec_def)
    show "safely (args_spec sa (map param_type ps) (e # es)) (obind (node_type_of e') (\<lambda>t.
          obind (check_type_compatibility sb (param_type p) t e') (\<lambda>(compatible, sa).
          obind (analyze_args sa ps' es) (\<lambda>(rest_ok, args, sa).
            Ret (ok \<and> compatible \<and> rest_ok, e' # args, sa)))))"
      unfolding t obind.simps
    proof (rule safely_bind [OF check_type_compatibility_spec [OF ce]], clarify)
      fix comp sc
      assume c: "verdict (compatible (param_type p) t) comp sb sc" "sa_scopes sc = sa_scopes sb"
      have env': "scope_types sc = ?vs" "signatures sc = ?fs"
        using env_frame [OF c] env by simp_all
      have IH: "safely (args_spec sc (map param_type ps') es) (analyze_args sc ps' es)"
        using Cons.prems ps by (intro Cons.IH) simp_all
      show "safely (args_spec sa (map param_type ps) (e # es))
        (obind (analyze_args sc ps' es) (\<lambda>(rest_ok, args, sa).
            Ret (ok \<and> comp \<and> rest_ok, e' # args, sa)))"
      proof (rule safely_bind [OF IH], clarify)
        fix rest es' sd
        assume r: "args_spec sc (map param_type ps') es (rest, es', sd)"
        have v1: "verdict (texpr Analyser ?vs ?fs e \<noteq> None) ok sa sb" using e by (simp add: expr_spec_def)
        have v3: "verdict (targs Analyser ?vs ?fs (map param_type ps') es) rest sc sd"
          using r env' by (simp add: args_spec_def)
        note v = verdict_trans [OF verdict_trans [OF v1 c(1)] v3]
        have "ok \<Longrightarrow> texpr Analyser ?vs ?fs e = Some t"
          using e t by (auto simp: expr_spec_def verdict_def)
        moreover have "\<not> ok \<Longrightarrow> texpr Analyser ?vs ?fs e = None" using v1 by (simp add: verdict_def)
        ultimately have "verdict (targs Analyser ?vs ?fs (map param_type ps) (e # es)) (ok \<and> comp \<and> rest) sa sd"
          using v by (cases ok) (auto simp: ps verdict_def)
        then show "safely (args_spec sa (map param_type ps) (e # es)) (Ret (ok \<and> comp \<and> rest, e' # es', sd))"
          using e c r by (simp add: args_spec_def expr_spec_def)
      qed
    qed
  qed
  then show ?case by (simp add: ps)
qed

lemma signature_unknown:
  "signatures sa nm = None \<longleftrightarrow> \<not> list_ex (\<lambda>f. sv_eq f nm) (sa_visible sa) \<or>
     semantic_global_lookup_function (sa_global sa) nm = None"
  by (auto simp: signatures_def list_ex_iff sv_eq_def)

lemma binary_cases: "\<not> is_arith op \<and> \<not> is_comparison op \<and> \<not> is_bitwise op \<longleftrightarrow> op = AST_GREATER"
  by (cases op) (simp_all add: is_arith_def is_comparison_def is_bitwise_def)

lemma analyze_expression_spec:
  "complete_expr e \<Longrightarrow> safely (expr_spec sa e) (analyze_expression sa e)"
proof (induction e arbitrary: sa)
  case (AstIdentifier i nm)
  then show ?case
    by (auto simp: expr_spec_def semantic_scope_lookup_chain scope_types_def node_type_of_def
        split: option.split)
next
  case (AstNumber i v)
  then show ?case by (simp add: expr_spec_def node_type_of_def number_typed)
next
  case (AstUnary op i e)
  then have "safely (expr_spec sa e) (analyze_expression sa e)" by simp
  then show ?case
    unfolding analyze_expression.simps
    by (rule safely_bind) (auto simp: expr_spec_def node_type_of_def verdict_def)
next
  case (AstBinary op i l r)
  then have IH: "safely (expr_spec sa l) (analyze_expression sa l)"
      "safely (expr_spec sb r) (analyze_expression sb r)" for sb
    by simp_all
  show ?case
  proof (cases "op = AST_GREATER")
    case True
    with AstBinary.prems show ?thesis
      by (simp add: is_arith_def is_comparison_def is_bitwise_def expr_spec_def node_type_of_def)
  next
    case False
    have "safely (expr_spec sa (AstBinary op i l r))
      (obind (analyze_expression sa l) (\<lambda>(left_ok, l, sa).
        obind (analyze_expression sa r) (\<lambda>(right_ok, r, sa).
        if is_comparison op then
          Ret (left_ok \<and> right_ok, AstBinary op (i\<lparr>value_type := TYPE_INT64\<rparr>) l r, sa)
        else if \<not> left_ok \<or> \<not> right_ok then Ret (False, AstBinary op i l r, sa)
        else
          obind (node_type_of l) (\<lambda>left_type.
          if is_arith op then
            obind (node_type_of r) (\<lambda>right_type.
              Ret (True, AstBinary op (i\<lparr>value_type := larger_type left_type right_type\<rparr>) l r, sa))
          else
            Ret (True, AstBinary op (i\<lparr>value_type := at_least_int left_type\<rparr>) l r, sa)))))"
    proof (rule safely_bind [OF IH(1)], clarify)
      fix lok l' sb
      assume l: "expr_spec sa l (lok, l', sb)"
      then have env: "scope_types sb = scope_types sa" "signatures sb = signatures sa"
        using env_frame by (auto simp: expr_spec_def)
      show "safely (expr_spec sa (AstBinary op i l r))
       (obind (analyze_expression sb r) (\<lambda>(right_ok, r, sa).
        if is_comparison op then
          Ret (lok \<and> right_ok, AstBinary op (i\<lparr>value_type := TYPE_INT64\<rparr>) l' r, sa)
        else if \<not> lok \<or> \<not> right_ok then Ret (False, AstBinary op i l' r, sa)
        else
          obind (node_type_of l') (\<lambda>left_type.
          if is_arith op then
            obind (node_type_of r) (\<lambda>right_type.
              Ret (True, AstBinary op (i\<lparr>value_type := larger_type left_type right_type\<rparr>) l' r, sa))
          else
            Ret (True, AstBinary op (i\<lparr>value_type := at_least_int left_type\<rparr>) l' r, sa))))"
      proof (rule safely_bind [OF IH(2)], clarify)
        fix rok r' sc
        assume r: "expr_spec sb r (rok, r', sc)"
        have "verdict (texpr Analyser (scope_types sa) (signatures sa) l \<noteq> None \<and>
            texpr Analyser (scope_types sa) (signatures sa) r \<noteq> None) (lok \<and> rok) sa sc"
          using l r env by (intro verdict_trans [of _ _ sa sb]) (auto simp: expr_spec_def)
        with l r False env show "safely (expr_spec sa (AstBinary op i l r))
          (if is_comparison op then
             Ret (lok \<and> rok, AstBinary op (i\<lparr>value_type := TYPE_INT64\<rparr>) l' r', sc)
           else if \<not> lok \<or> \<not> rok then Ret (False, AstBinary op i l' r', sc)
           else
             obind (node_type_of l') (\<lambda>left_type.
             if is_arith op then
               obind (node_type_of r') (\<lambda>right_type.
                 Ret (True, AstBinary op (i\<lparr>value_type := larger_type left_type right_type\<rparr>) l' r', sc))
             else
               Ret (True, AstBinary op (i\<lparr>value_type := at_least_int left_type\<rparr>) l' r', sc)))"
          by (auto simp: expr_spec_def node_type_of_def binary_typed verdict_def split: option.splits)
      qed
    qed
    with False show ?thesis by (simp add: binary_cases)
  qed
next
  case (AstCall i nm args)
  let ?e = "AstCall i nm args"
  have bad: "expr_spec sa ?e (False, ?e, sem_error sa ln col t)"
    if "texpr Analyser (scope_types sa) (signatures sa) ?e = None" for ln col t
    using that AstCall.prems by (simp add: expr_spec_def del: texpr.simps)
  show ?case
  proof (cases "signatures sa nm")
    case None
    with bad show ?thesis
      by (auto simp: Let_def signature_unknown split: option.split)
  next
    case (Some sig)
    then obtain k where vis: "nm \<in> set (sa_visible sa)"
      and k: "semantic_global_lookup_function (sa_global sa) nm = Some k"
      and sig: "sig = (fi_return_type (sa_global sa ! k), map param_type (fi_params (sa_global sa ! k)))"
      by (auto simp: signatures_def split: if_splits)
    let ?ps = "fi_params (sa_global sa ! k)"
    show ?thesis
    proof (cases "length args = length ?ps")
      case False
      with Some sig have "texpr Analyser (scope_types sa) (signatures sa) ?e = None"
        using targs_length by fastforce
      with bad vis k False show ?thesis by (auto simp: Let_def list_ex_iff sv_eq_def)
    next
      case True
      have "safely (args_spec sa (map param_type ?ps) args) (analyze_args sa ?ps args)"
        using AstCall True by (intro analyze_args_spec) (auto simp: list_all_iff)
      then have "safely (expr_spec sa ?e) (obind (analyze_args sa ?ps args) (\<lambda>(all_ok, args, sa').
          Ret (all_ok, AstCall (i\<lparr>value_type := fi_return_type (sa_global sa ! k)\<rparr>) nm args, sa')))"
        by (rule safely_bind)
          (auto simp: args_spec_def expr_spec_def Some sig node_type_of_def verdict_def)
      with vis k True show ?thesis by (auto simp: Let_def list_ex_iff sv_eq_def)
    qed
  qed
next
  case (AstAssignment i nm e)
  then show ?case by (simp add: expr_spec_def node_type_of_def)
qed simp_all

section \<open>Statements\<close>

definition require :: "bool \<Rightarrow> tscope list \<Rightarrow> tscope list option" where
  "require b als = (if b then Some als else None)"

definition tvalue :: "rules \<Rightarrow> tsigs \<Rightarrow> tscope list \<Rightarrow> data_type \<Rightarrow> ast \<Rightarrow> bool" where
  "tvalue m fs als ty e \<longleftrightarrow>
     (case texpr m (map_of (concat als)) fs e of None \<Rightarrow> False | Some t \<Rightarrow> compatible ty t)"

text \<open>\<open>tstmt m fs ret als s\<close>: the scopes after \<open>s\<close>, in a function that returns \<open>ret\<close>.\<close>

fun tstmt :: "rules \<Rightarrow> tsigs \<Rightarrow> data_type \<Rightarrow> tscope list \<Rightarrow> ast \<Rightarrow> tscope list option"
  and tstmts :: "rules \<Rightarrow> tsigs \<Rightarrow> data_type \<Rightarrow> tscope list \<Rightarrow> ast list \<Rightarrow> tscope list option" where
  "tstmt m fs ret als (AstVarDecl _ nm ty e) =
     Option.bind (require (e = AstNull \<or> tvalue m fs als ty e) als) (tdeclare nm ty)"
| "tstmt m fs ret als (AstAssignment _ nm e) =
     require (case map_of (concat als) nm of None \<Rightarrow> False | Some ty \<Rightarrow> tvalue m fs als ty e) als"
| "tstmt m fs ret als (AstReturn _ e) =
     require (if e = AstNull then ret = TYPE_VOID else ret \<noteq> TYPE_VOID \<and> tvalue m fs als ret e) als"
| "tstmt m fs ret als (AstIf _ c t e) =
     Option.bind (require (texpr m (map_of (concat als)) fs c \<noteq> None) als) (\<lambda>als.
     Option.bind (tstmt m fs ret als t) (\<lambda>als. tstmt m fs ret als e))"
| "tstmt m fs ret als (AstWhile _ c b) =
     Option.bind (require (texpr m (map_of (concat als)) fs c \<noteq> None) als) (\<lambda>als. tstmt m fs ret als b)"
| "tstmt m fs ret als (AstBlock _ ss) = Option.bind (tstmts m fs ret ([] # als) ss) (\<lambda>_. Some als)"
| "tstmt m fs ret als AstNull = Some als"
| "tstmt m fs ret als e = require (texpr m (map_of (concat als)) fs e \<noteq> None) als"
| "tstmts m fs ret als [] = Some als"
| "tstmts m fs ret als (s # ss) = Option.bind (tstmt m fs ret als s) (\<lambda>als. tstmts m fs ret als ss)"

text \<open>What a step that may declare variables guarantees, \<open>r\<close> being what the type system says.\<close>

definition stmt_post :: "semantic \<Rightarrow> tscope list option \<Rightarrow> bool \<Rightarrow> semantic \<Rightarrow> bool" where
  "stmt_post sa r ok sb \<longleftrightarrow> verdict (r \<noteq> None) ok sa sb \<and> tl (sa_scopes sb) = tl (sa_scopes sa) \<and>
     (\<exists>als'. als' \<noteq> [] \<and> chain_models (sa_scopes sb) als' \<and> (ok \<longrightarrow> r = Some als'))"

lemma stmt_post_seq:
  assumes "stmt_post sa r ok sb"
    and "\<And>als'. als' \<noteq> [] \<Longrightarrow> chain_models (sa_scopes sb) als' \<Longrightarrow> stmt_post sb (f als') ok' sc"
  shows "stmt_post sa (Option.bind r f) (ok \<and> ok') sc"
proof -
  from assms(1) obtain als' where als': "als' \<noteq> []" "chain_models (sa_scopes sb) als'" "ok \<longrightarrow> r = Some als'"
    by (auto simp: stmt_post_def)
  note second = assms(2) [OF als'(1,2)]
  show ?thesis
  proof (cases ok)
    case True
    with als' assms(1) second verdict_trans [of "r \<noteq> None" ok sa sb "f als' \<noteq> None" ok' sc] show ?thesis
      by (auto simp: stmt_post_def)
  next
    case False
    with assms(1) have "r = None" by (auto simp: stmt_post_def verdict_def)
    with False assms(1) second verdict_fail [of "r \<noteq> None" sa sb "f als' \<noteq> None" ok' sc] show ?thesis
      by (auto simp: stmt_post_def)
  qed
qed

lemma scope_types_chain:
  "chain_models (sa_scopes sa) als \<Longrightarrow> scope_types sa = map_of (concat als)"
proof -
  have "chain_models ss als \<Longrightarrow> map_option vi_type (chain_vars ss nm) = map_of (concat als) nm" for ss nm
  proof (induction ss arbitrary: als)
    case (Cons s ss)
    then obtain a as where als: "als = a # as" "scope_models s a" "chain_models ss as" by auto
    then show ?case
      using Cons.IH [OF als(3)] scope_models_lookup [OF als(2), of nm]
      by (cases "entry_vars (sc_entries s) nm") (auto simp: map_add_def split: option.splits)
  qed simp
  then show "chain_models (sa_scopes sa) als \<Longrightarrow> scope_types sa = map_of (concat als)"
    by (auto simp: scope_types_def [abs_def])
qed

lemma stmt_postI:
  "verdict a ok sa sb \<Longrightarrow> sa_scopes sb = sa_scopes sa \<Longrightarrow> chain_models (sa_scopes sa) als \<Longrightarrow> als \<noteq> [] \<Longrightarrow>
   stmt_post sa (require a als) ok sb"
  by (auto simp: stmt_post_def require_def verdict_def)

definition stmt_spec ::
  "semantic \<Rightarrow> tscope list \<Rightarrow> ast \<Rightarrow> bool \<times> ast \<times> semantic \<Rightarrow> bool" where
  "stmt_spec sa als s = (\<lambda>(ok, s', sb).
     stmt_post sa (tstmt Analyser (signatures sa) (sa_return_type sa) als s) ok sb \<and> strip s' = strip s)"

definition stmts_spec ::
  "semantic \<Rightarrow> tscope list \<Rightarrow> ast list \<Rightarrow> bool \<times> ast list \<times> semantic \<Rightarrow> bool" where
  "stmts_spec sa als ss = (\<lambda>(ok, ss', sb).
     stmt_post sa (tstmts Analyser (signatures sa) (sa_return_type sa) als ss) ok sb \<and> map strip ss' = map strip ss)"

lemma stmt_post_frame: "stmt_post sa r ok sb \<Longrightarrow> sem_frame sa sb"
  by (simp add: stmt_post_def verdict_def)

lemma stmt_post_env: "stmt_post sa r ok sb \<Longrightarrow>
    signatures sb = signatures sa \<and> sa_return_type sb = sa_return_type sa"
  using stmt_post_frame signatures_frame by (auto simp: sem_frame_def)

text \<open>An expression whose value is converted to \<open>ty\<close>.\<close>

lemma value_spec:
  assumes e: "complete_expr e" and als: "chain_models (sa_scopes sa) als" "als \<noteq> []"
    and k: "\<And>ok e' sb. stmt_post sa (require (tvalue Analyser (signatures sa) als ty e) als) ok sb \<Longrightarrow> strip e' = strip e \<Longrightarrow>
      sa_scopes sb = sa_scopes sa \<Longrightarrow> safely Q (k (ok, e', sb))"
  shows "safely Q (obind (analyze_expression sa e) (\<lambda>(ok, e, sa).
          if ok then
            obind (node_type_of e) (\<lambda>t.
            obind (check_type_compatibility sa ty t e) (\<lambda>(compatible, sa). k (compatible, e, sa)))
          else k (False, e, sa)))"
proof (rule safely_bind [OF analyze_expression_spec [OF e]], clarify)
  fix ok e' sb
  assume s: "expr_spec sa e (ok, e', sb)"
  note types = scope_types_chain [OF als(1)]
  show "safely Q (if ok then obind (node_type_of e') (\<lambda>t.
          obind (check_type_compatibility sb ty t e') (\<lambda>(compatible, sa). k (compatible, e', sa)))
        else k (False, e', sb))"
  proof (cases ok)
    case False
    with s have "verdict (tvalue Analyser (signatures sa) als ty e) False sa sb"
      by (auto simp: expr_spec_def tvalue_def types verdict_def)
    with s als have "stmt_post sa (require (tvalue Analyser (signatures sa) als ty e) als) False sb"
      by (intro stmt_postI) (auto simp: expr_spec_def)
    with s False show ?thesis by (auto simp: expr_spec_def intro: k)
  next
    case True
    with s obtain t where t: "node_type_of e' = Ret t" "texpr Analyser (scope_types sa) (signatures sa) e = Some t"
      by (auto simp: expr_spec_def verdict_def)
    have "safely Q (obind (check_type_compatibility sb ty t e') (\<lambda>(compatible, sa). k (compatible, e', sa)))"
    proof (rule safely_bind [OF check_type_compatibility_spec], use s in \<open>simp add: expr_spec_def\<close>, clarify)
      fix comp sc
      assume c: "verdict (compatible ty t) comp sb sc" "sa_scopes sc = sa_scopes sb"
      have "verdict (texpr Analyser (scope_types sa) (signatures sa) e \<noteq> None) True sa sb"
        using s True by (simp add: expr_spec_def)
      from verdict_trans [OF this c(1)]
      have "verdict (tvalue Analyser (signatures sa) als ty e) comp sa sc"
        using t by (simp add: tvalue_def types)
      then show "safely Q (k (comp, e', sc))"
        using s c als by (intro k stmt_postI) (auto simp: expr_spec_def)
    qed
    with True t show ?thesis by simp
  qed
qed

lemma condition_spec:
  assumes e: "complete_expr e" and als: "chain_models (sa_scopes sa) als" "als \<noteq> []"
    and k: "\<And>ok e' sb. stmt_post sa (require (texpr Analyser (map_of (concat als)) (signatures sa) e \<noteq> None) als) ok sb \<Longrightarrow>
      strip e' = strip e \<Longrightarrow> safely Q (k (ok, e', sb))"
  shows "safely Q (obind (analyze_expression sa e) k)"
proof (rule safely_bind [OF analyze_expression_spec [OF e]], clarify)
  fix ok e' sb
  assume "expr_spec sa e (ok, e', sb)"
  then show "safely Q (k (ok, e', sb))"
    using als by (intro k stmt_postI) (auto simp: expr_spec_def scope_types_chain)
qed

lemma declare_post:
  assumes "chain_models (sa_scopes sa) als" "als \<noteq> []" "semantic_scope_declare sa nm ty ln = (ok, sb)"
  shows "stmt_post sa (tdeclare nm ty als) ok sb"
proof -
  from declare_models [OF assms(1,3)] assms(2) obtain als' where
    "chain_models (sa_scopes sb) als'" "length als' = length als"
    "verdict (tdeclare nm ty als \<noteq> None) ok sa sb" "ok \<longrightarrow> tdeclare nm ty als = Some als'"
    "tl (sa_scopes sb) = tl (sa_scopes sa)"
    by blast
  with assms(2) show ?thesis
    unfolding stmt_post_def by (metis length_0_conv)
qed

lemma null_post: "chain_models (sa_scopes sa) als \<Longrightarrow> als \<noteq> [] \<Longrightarrow> stmt_post sa (require True als) True sa"
  by (rule stmt_postI) simp_all

text \<open>Leaving a block drops its variables and keeps the verdict.\<close>

lemma block_post:
  assumes "stmt_post (semantic_scope_enter sa) r ok sb" "chain_models (sa_scopes sa) als" "als \<noteq> []"
  shows "stmt_post sa (Option.bind r (\<lambda>_. Some als)) ok (semantic_scope_exit sb)"
proof -
  have "verdict (r \<noteq> None) ok sa (semantic_scope_exit sb)"
    using assms(1)
    by (auto simp: stmt_post_def verdict_def sem_frame_def semantic_scope_enter_def semantic_scope_exit_def)
  moreover have "sa_scopes (semantic_scope_exit sb) = sa_scopes sa"
    using assms(1) by (simp add: stmt_post_def semantic_scope_enter_def semantic_scope_exit_def)
  ultimately show ?thesis
    using assms(2,3) by (cases r) (auto simp: stmt_post_def verdict_def)
qed

lemma stmts_spec_list:
  assumes "\<And>s sa als. s \<in> set ss \<Longrightarrow> chain_models (sa_scopes sa) als \<Longrightarrow> als \<noteq> [] \<Longrightarrow>
      safely (stmt_spec sa als s) (analyze_statement sa s)"
    and "chain_models (sa_scopes sa) als" "als \<noteq> []"
  shows "safely (stmts_spec sa als ss) (analyze_statements sa ss)"
  using assms
proof (induction ss arbitrary: sa als)
  case Nil
  then show ?case using null_post by (simp add: stmts_spec_def require_def)
next
  case (Cons s ss)
  show ?case
    unfolding analyze_statements.simps
  proof (rule safely_bind [OF Cons.prems(1)], simp, rule Cons.prems, rule Cons.prems, clarify)
    fix ok s' sb
    assume s: "stmt_spec sa als s (ok, s', sb)"
    have IH: "safely (\<lambda>x. \<forall>als'. als' \<noteq> [] \<and> chain_models (sa_scopes sb) als' \<longrightarrow> stmts_spec sb als' ss x)
        (analyze_statements sb ss)"
      using s by (intro safely_all Cons.IH Cons.prems(1)) (auto simp: stmt_spec_def stmt_post_def)
    show "safely (stmts_spec sa als (s # ss)) (obind (analyze_statements sb ss)
        (\<lambda>(rest_ok, ss, sa). Ret (ok \<and> rest_ok, s' # ss, sa)))"
    proof (rule safely_bind [OF IH], clarify)
      fix rest ss' sc
      assume r: "\<forall>als'. als' \<noteq> [] \<and> chain_models (sa_scopes sb) als' \<longrightarrow> stmts_spec sb als' ss (rest, ss', sc)"
      have "stmt_post sa (tstmts Analyser (signatures sa) (sa_return_type sa) als (s # ss)) (ok \<and> rest) sc"
        unfolding tstmts.simps
        using s r stmt_post_env [of sa _ ok sb]
        by (intro stmt_post_seq [of sa _ ok sb]) (auto simp: stmt_spec_def stmts_spec_def)
      then show "safely (stmts_spec sa als (s # ss)) (Ret (ok \<and> rest, s' # ss', sc))"
        using s r by (auto simp: stmts_spec_def stmt_spec_def stmt_post_def)
    qed
  qed
qed

text \<open>The statement that follows another one, from any typing of the scopes it leaves.\<close>

definition next_spec :: "semantic \<Rightarrow> ast \<Rightarrow> bool \<times> ast \<times> semantic \<Rightarrow> bool" where
  "next_spec sb s x \<longleftrightarrow> (\<forall>als. als \<noteq> [] \<and> chain_models (sa_scopes sb) als \<longrightarrow> stmt_spec sb als s x)"

lemma next_safely:
  assumes "\<And>sa als. chain_models (sa_scopes sa) als \<Longrightarrow> als \<noteq> [] \<Longrightarrow>
      safely (stmt_spec sa als s) (analyze_statement sa s)"
    and "stmt_post sa r ok sb"
  shows "safely (next_spec sb s) (analyze_statement sb s)"
  unfolding next_spec_def [abs_def]
  using assms(2) by (intro safely_all assms(1)) (auto simp: stmt_post_def)

lemma next_post:
  assumes "next_spec sb s (ok', s', sc)" "stmt_post sa r ok sb"
  shows "strip s' = strip s \<and>
    stmt_post sa (Option.bind r (\<lambda>als. tstmt Analyser (signatures sa) (sa_return_type sa) als s)) (ok \<and> ok') sc"
  using assms stmt_post_env [OF assms(2)]
  by (auto simp: next_spec_def stmt_spec_def intro!: stmt_post_seq [OF assms(2)])
    (auto simp: stmt_post_def)

lemma expression_stmt:
  assumes "complete_expr e" "chain_models (sa_scopes sa) als" "als \<noteq> []"
    and "analyze_statement sa e = analyze_expression sa e"
    and "\<And>fs ret. tstmt Analyser fs ret als e = require (texpr Analyser (map_of (concat als)) fs e \<noteq> None) als"
  shows "safely (stmt_spec sa als e) (analyze_statement sa e)"
proof -
  have "safely (stmt_spec sa als e) (obind (analyze_expression sa e) Ret)"
    by (rule condition_spec [OF assms(1-3)]) (simp add: stmt_spec_def assms(5))
  then show ?thesis by (cases "analyze_expression sa e") (simp_all add: assms(4))
qed

lemma analyze_statement_spec:
  "complete_stmt s \<or> s = AstNull \<Longrightarrow> chain_models (sa_scopes sa) als \<Longrightarrow> als \<noteq> [] \<Longrightarrow>
   safely (stmt_spec sa als s) (analyze_statement sa s)"
proof (induction s arbitrary: sa als)
  case AstNull
  then show ?case using null_post by (simp add: stmt_spec_def require_def)
next
  case (AstVarDecl i nm ty e)
  note als = AstVarDecl.prems(2,3)
  let ?k = "\<lambda>(init_ok, init, sa). let (decl_ok, sa) = semantic_scope_declare sa nm ty (node_line i)
         in Ret (init_ok \<and> decl_ok, AstVarDecl i nm ty init, sa)"
  have k: "safely (stmt_spec sa als (AstVarDecl i nm ty e)) (?k (ok, e', sb))"
    if "stmt_post sa (require (e = AstNull \<or> tvalue Analyser (signatures sa) als ty e) als) ok sb" "strip e' = strip e"
    for ok e' sb
    using that by (auto simp: stmt_spec_def split: prod.split intro!: stmt_post_seq declare_post)
  show ?case
  proof (cases "e = AstNull")
    case True
    with k [of True sa e] null_post [OF als] show ?thesis by simp
  next
    case False
    have "safely (stmt_spec sa als (AstVarDecl i nm ty e)) (obind (obind (analyze_expression sa e) (\<lambda>(ok, e, sa).
          if ok then obind (node_type_of e) (\<lambda>t.
            obind (check_type_compatibility sa ty t e) (\<lambda>(compatible, sa). Ret (compatible, e, sa)))
          else Ret (False, e, sa))) ?k)"
    proof (rule safely_bind [of "\<lambda>(ok, e', sb). stmt_post sa (require (tvalue Analyser (signatures sa) als ty e) als) ok sb \<and> strip e' = strip e"])
      show "safely (\<lambda>(ok, e', sb). stmt_post sa (require (tvalue Analyser (signatures sa) als ty e) als) ok sb \<and> strip e' = strip e)
        (obind (analyze_expression sa e) (\<lambda>(ok, e, sa).
          if ok then obind (node_type_of e) (\<lambda>t.
            obind (check_type_compatibility sa ty t e) (\<lambda>(compatible, sa). Ret (compatible, e, sa)))
          else Ret (False, e, sa)))"
        using AstVarDecl.prems False by (intro value_spec [where k = Ret]) auto
    qed (use k False in auto)
    with False show ?thesis by simp
  qed
next
  case (AstAssignment i nm e)
  note types = scope_types_chain [OF AstAssignment.prems(2), symmetric]
  show ?case
  proof (cases "chain_vars (sa_scopes sa) nm")
    case None
    then have "map_of (concat als) nm = None" by (simp add: types scope_types_def)
    with None AstAssignment.prems show ?thesis
      by (auto simp: semantic_scope_lookup_chain stmt_spec_def require_def stmt_post_def)
  next
    case (Some v)
    then have ty: "map_of (concat als) nm = Some (vi_type v)" by (simp add: types scope_types_def)
    show ?thesis
      by (simp add: semantic_scope_lookup_chain Some, rule value_spec [where
            k = "\<lambda>(ok, e, sa). Ret (ok, AstAssignment (i\<lparr>value_type := vi_type v\<rparr>) nm e, sa)", unfolded prod.case])
        (use AstAssignment.prems ty in \<open>auto simp: stmt_spec_def\<close>)
  qed
next
  case (AstReturn i e)
  let ?ret = "sa_return_type sa"
  have err: "stmt_post sa (require False als) False (sem_error sa ln col t)" for ln col t
    using AstReturn.prems by (intro stmt_postI) simp_all
  have "safely (stmt_spec sa als (AstReturn i e)) (obind (analyze_expression sa e) (\<lambda>(ok, e, sa).
          if ok then obind (node_type_of e) (\<lambda>t.
            obind (check_type_compatibility sa ?ret t e) (\<lambda>(compatible, sa).
              Ret (compatible, AstReturn (i\<lparr>value_type := ?ret\<rparr>) e, sa)))
          else Ret (False, AstReturn (i\<lparr>value_type := ?ret\<rparr>) e, sa)))"
    if "e \<noteq> AstNull" "?ret \<noteq> TYPE_VOID"
    by (rule value_spec [where
          k = "\<lambda>(ok, e, sa'). Ret (ok, AstReturn (i\<lparr>value_type := ?ret\<rparr>) e, sa')", unfolded prod.case])
      (use AstReturn.prems that in \<open>auto simp: stmt_spec_def\<close>)
  with err null_post [OF AstReturn.prems(2,3)] show ?case
    by (auto simp: Let_def stmt_spec_def)
next
  case (AstIf i c t e)
  show ?case
    unfolding analyze_statement.simps
  proof (rule condition_spec [OF _ AstIf.prems(2,3)], use AstIf.prems in simp, unfold prod.case)
    fix ok c' sb
    assume c: "stmt_post sa (require (texpr Analyser (map_of (concat als)) (signatures sa) c \<noteq> None) als) ok sb" "strip c' = strip c"
    show "safely (stmt_spec sa als (AstIf i c t e)) (obind (analyze_statement sb t) (\<lambda>(then_ok, t, sa).
        obind (analyze_statement sa e) (\<lambda>(else_ok, e, sa). Ret (ok \<and> then_ok \<and> else_ok, AstIf i c' t e, sa))))"
    proof (rule safely_bind [OF next_safely [OF AstIf.IH(2) c(1)]], use AstIf.prems in simp, assumption, assumption, clarify)
      fix ok1 t' sc
      assume "next_spec sb t (ok1, t', sc)"
      note t = next_post [OF this c(1)]
      show "safely (stmt_spec sa als (AstIf i c t e)) (obind (analyze_statement sc e)
          (\<lambda>(else_ok, e, sa). Ret (ok \<and> ok1 \<and> else_ok, AstIf i c' t' e, sa)))"
      proof (rule safely_bind [OF next_safely [OF AstIf.IH(3) conjunct2 [OF t]]], use AstIf.prems in fastforce, assumption, assumption, clarify)
        fix ok2 e' sd
        assume "next_spec sc e (ok2, e', sd)"
        note e = next_post [OF this conjunct2 [OF t]]
        with t c show "safely (stmt_spec sa als (AstIf i c t e)) (Ret (ok \<and> ok1 \<and> ok2, AstIf i c' t' e', sd))"
          by (simp add: stmt_spec_def)
      qed
    qed
  qed
next
  case (AstWhile i c b)
  show ?case
    unfolding analyze_statement.simps
  proof (rule condition_spec [OF _ AstWhile.prems(2,3)], use AstWhile.prems in simp, unfold prod.case)
    fix ok c' sb
    assume c: "stmt_post sa (require (texpr Analyser (map_of (concat als)) (signatures sa) c \<noteq> None) als) ok sb" "strip c' = strip c"
    show "safely (stmt_spec sa als (AstWhile i c b)) (obind (analyze_statement sb b)
        (\<lambda>(body_ok, b, sa). Ret (ok \<and> body_ok, AstWhile i c' b, sa)))"
    proof (rule safely_bind [OF next_safely [OF AstWhile.IH(2) c(1)]], use AstWhile.prems in simp, assumption, assumption, clarify)
      fix ok1 b' sc
      assume "next_spec sb b (ok1, b', sc)"
      from next_post [OF this c(1)] c
      show "safely (stmt_spec sa als (AstWhile i c b)) (Ret (ok \<and> ok1, AstWhile i c' b', sc))"
        by (simp add: stmt_spec_def)
    qed
  qed
next
  case (AstBlock i ss)
  let ?in = "semantic_scope_enter sa"
  have "safely (stmts_spec ?in ([] # als) ss) (analyze_statements ?in ss)"
    using AstBlock scope_models_empty
    by (intro stmts_spec_list) (auto simp: list_all_iff semantic_scope_enter_def)
  then show ?case
    unfolding analyze_statement.simps
  proof (rule safely_bind, clarify)
    fix ok ss' sb
    assume ss: "stmts_spec ?in ([] # als) ss (ok, ss', sb)"
    have "signatures ?in = signatures sa" "sa_return_type ?in = sa_return_type sa"
      by (simp_all add: signatures_def fun_eq_iff semantic_scope_enter_def)
    with ss block_post [OF _ AstBlock.prems(2,3)]
    show "safely (stmt_spec sa als (AstBlock i ss)) (Ret (ok, AstBlock i ss', semantic_scope_exit sb))"
      by (simp add: stmts_spec_def stmt_spec_def)
  qed
qed (rule expression_stmt; simp only: tstmt.simps analyze_statement.simps complete_stmt.simps
    simp_thms ast.distinct)+

section \<open>Functions and files\<close>

fun tparams :: "tscope list \<Rightarrow> parameter list \<Rightarrow> tscope list option" where
  "tparams als [] = Some als"
| "tparams als (p # ps) = Option.bind (tdeclare (param_name p) (param_type p) als) (\<lambda>als. tparams als ps)"

text \<open>Parameters and the top-level statements of the body share one scope.\<close>

fun tfunction :: "rules \<Rightarrow> tsigs \<Rightarrow> ast \<Rightarrow> bool" where
  "tfunction m fs (AstFunction _ _ ret ps body proto) \<longleftrightarrow>
     proto \<or> (case body of
       AstBlock _ ss \<Rightarrow> Option.bind (tparams [[]] ps) (\<lambda>als. tstmts m fs ret als ss) \<noteq> None
     | _ \<Rightarrow> tparams [[]] ps \<noteq> None)"
| "tfunction m fs _ = False"

lemma declare_params_post:
  "chain_models (sa_scopes sa) als \<Longrightarrow> als \<noteq> [] \<Longrightarrow> declare_params sa ln ps = (ok, sb) \<Longrightarrow>
   stmt_post sa (tparams als ps) ok sb"
proof (induction ps arbitrary: sa als ok sb)
  case Nil
  then show ?case using null_post [OF Nil.prems(1,2)] by (simp add: require_def)
next
  case (Cons p ps)
  obtain ok1 sc where d: "semantic_scope_declare sa (param_name p) (param_type p) ln = (ok1, sc)" by force
  obtain ok2 sd where r: "declare_params sc ln ps = (ok2, sd)" by force
  have "stmt_post sa (tparams als (p # ps)) (ok1 \<and> ok2) sd"
    unfolding tparams.simps
    using Cons.IH r by (intro stmt_post_seq [OF declare_post [OF Cons.prems(1,2) d]])
  with Cons.prems(3) d r show ?case by simp
qed

text \<open>The return type of the current function is the one field that \<open>analyze_node\<close> may change.\<close>

definition node_verdict :: "bool \<Rightarrow> bool \<Rightarrow> semantic \<Rightarrow> semantic \<Rightarrow> bool" where
  "node_verdict a ok sa sb \<longleftrightarrow>
     verdict a ok (sa\<lparr>sa_return_type := sa_return_type sb\<rparr>) sb \<and> sa_scopes sb = sa_scopes sa"

lemma node_verdict_trans:
  assumes "node_verdict a ok sa sb" "node_verdict b ok' sb sc"
  shows "node_verdict (a \<and> b) (ok \<and> ok') sa sc"
proof -
  have "extends (sa_errors sa) (sa_errors sb)" "extends (sa_errors sb) (sa_errors sc)"
    using assms by (simp_all add: node_verdict_def verdict_def sem_frame_def)
  with extends_trans [OF this] extends_error_count [OF this(1)] extends_error_count [OF this(2)] assms
  show ?thesis by (auto simp: node_verdict_def verdict_def sem_frame_def)
qed

lemma node_verdict_refl: "node_verdict True True sa sa"
  by (simp add: node_verdict_def)

lemma node_verdict_signatures: "node_verdict a ok sa sb \<Longrightarrow> signatures sb = signatures sa"
  by (rule ext) (simp add: signatures_def node_verdict_def verdict_def sem_frame_def)

lemma node_verdict_exit:
  "stmt_post (semantic_scope_enter (sa\<lparr>sa_return_type := ret\<rparr>)) r ok sb \<Longrightarrow>
   node_verdict (r \<noteq> None) ok sa (semantic_scope_exit sb)"
  by (auto simp: node_verdict_def stmt_post_def verdict_def sem_frame_def semantic_scope_enter_def
      semantic_scope_exit_def)

lemma analyze_node_spec:
  assumes "complete_function d" "sa_scopes sa = []"
  shows "safely (\<lambda>(ok, d', sb). node_verdict (tfunction Analyser (signatures sa) d) ok sa sb \<and> strip d' = strip d)
     (analyze_node sa d)"
proof (cases d)
  case (AstFunction i nm ret ps body proto)
  show ?thesis
  proof (cases proto)
    case True
    with AstFunction show ?thesis by (simp add: node_verdict_refl)
  next
    case False
    with assms AstFunction obtain bi ss where body: "body = AstBlock bi ss" "list_all complete_stmt ss"
      by (cases body) auto
    let ?in = "semantic_scope_enter (sa\<lparr>sa_return_type := ret\<rparr>)"
    obtain ok1 sb where ps: "declare_params ?in (node_line i) ps = (ok1, sb)" by force
    have "chain_models (sa_scopes ?in) [[]]"
      using assms(2) scope_models_empty by (simp add: semantic_scope_enter_def)
    note params = declare_params_post [OF this _ ps]
    have sigs: "signatures ?in = signatures sa" "sa_return_type ?in = ret"
      by (simp_all add: signatures_def fun_eq_iff semantic_scope_enter_def)
    have "safely (\<lambda>x. \<forall>als. als \<noteq> [] \<and> chain_models (sa_scopes sb) als \<longrightarrow> stmts_spec sb als ss x)
        (analyze_statements sb ss)"
      using params body
      by (intro safely_all stmts_spec_list analyze_statement_spec) (auto simp: stmt_post_def list_all_iff)
    then have "safely (\<lambda>(ok, d', sb). node_verdict (tfunction Analyser (signatures sa) d) ok sa sb \<and> strip d' = strip d)
      (obind (analyze_statements sb ss) (\<lambda>(body_ok, ss, sa).
        Ret (ok1 \<and> body_ok, AstFunction i nm ret ps (AstBlock bi ss) proto, semantic_scope_exit sa)))"
    proof (rule safely_bind, clarify)
      fix ok2 ss' sc
      assume s: "\<forall>als. als \<noteq> [] \<and> chain_models (sa_scopes sb) als \<longrightarrow> stmts_spec sb als ss (ok2, ss', sc)"
      have "stmt_post ?in (Option.bind (tparams [[]] ps) (\<lambda>als. tstmts Analyser (signatures sa) ret als ss)) (ok1 \<and> ok2) sc"
        using params s stmt_post_env [OF params] sigs
        by (intro stmt_post_seq [of ?in _ ok1 sb]) (auto simp: stmts_spec_def)
      then have "node_verdict (tfunction Analyser (signatures sa) d) (ok1 \<and> ok2) sa (semantic_scope_exit sc)"
        using node_verdict_exit AstFunction body False by simp
      moreover have "map strip ss' = map strip ss"
        using s params by (auto simp: stmts_spec_def stmt_post_def)
      ultimately show "safely (\<lambda>(ok, d', sb). node_verdict (tfunction Analyser (signatures sa) d) ok sa sb \<and> strip d' = strip d)
        (Ret (ok1 \<and> ok2, AstFunction i nm ret ps (AstBlock bi ss') proto, semantic_scope_exit sc))"
        by (simp add: AstFunction body)
    qed
    with ps AstFunction body False show ?thesis by simp
  qed
qed (use assms in simp_all)

lemma analyze_nodes_spec:
  "list_all complete_function ds \<Longrightarrow> sa_scopes sa = [] \<Longrightarrow>
   safely (\<lambda>(ok, ds', sb). node_verdict (list_all (tfunction Analyser (signatures sa)) ds) ok sa sb \<and>
     map strip ds' = map strip ds) (analyze_nodes sa ds)"
proof (induction ds arbitrary: sa)
  case Nil
  then show ?case by (simp add: node_verdict_refl)
next
  case (Cons d ds)
  show ?case
    unfolding analyze_nodes.simps
  proof (rule safely_bind [OF analyze_node_spec], use Cons.prems in simp, use Cons.prems in simp, clarify)
    fix ok d' sb
    assume d: "node_verdict (tfunction Analyser (signatures sa) d) ok sa sb" "strip d' = strip d"
    have "sa_scopes sb = []" using d(1) Cons.prems by (simp add: node_verdict_def)
    show "safely (\<lambda>(ok, ds', sb). node_verdict (list_all (tfunction Analyser (signatures sa)) (d # ds)) ok sa sb \<and>
        map strip ds' = map strip (d # ds))
      (obind (analyze_nodes sb ds) (\<lambda>(rest_ok, ds, sa). Ret (ok \<and> rest_ok, d' # ds, sa)))"
      by (rule safely_bind [OF Cons.IH], use Cons.prems in simp, fact)
        (use d node_verdict_signatures [OF d(1)] node_verdict_trans [OF d(1)] in auto)
  qed
qed

fun function_name :: "ast \<Rightarrow> string" where
  "function_name (AstFunction _ nm _ _ _ _) = nm" | "function_name _ = []"

lemma collect_visible_spec:
  "list_all is_function ds \<Longrightarrow> length (sa_visible sa) + length ds \<le> MAX_FUNCTION_COUNT \<Longrightarrow>
   \<exists>vs. collect_visible sa ds = Ret (True, sa\<lparr>sa_visible := vs\<rparr>) \<and>
     set vs = set (sa_visible sa) \<union> function_name ` set ds"
proof (induction ds arbitrary: sa)
  case (Nil sa)
  show ?case by (intro exI [of _ "sa_visible sa"]) simp
next
  case (Cons d ds)
  then obtain i nm ret ps body proto where d: "d = AstFunction i nm ret ps body proto"
    by (cases d) auto
  show ?case
  proof (cases "nm \<in> set (sa_visible sa)")
    case True
    moreover have "\<exists>vs. collect_visible sa ds = Ret (True, sa\<lparr>sa_visible := vs\<rparr>) \<and>
        set vs = set (sa_visible sa) \<union> function_name ` set ds"
      using Cons.prems by (intro Cons.IH) simp_all
    ultimately show ?thesis by (auto simp: d list_ex_iff sv_eq_def)
  next
    case False
    moreover have "\<exists>vs. collect_visible (sa\<lparr>sa_visible := sa_visible sa @ [nm]\<rparr>) ds =
        Ret (True, (sa\<lparr>sa_visible := sa_visible sa @ [nm]\<rparr>)\<lparr>sa_visible := vs\<rparr>) \<and>
        set vs = set (sa_visible (sa\<lparr>sa_visible := sa_visible sa @ [nm]\<rparr>)) \<union> function_name ` set ds"
      using Cons.prems by (intro Cons.IH) simp_all
    ultimately show ?thesis using Cons.prems by (auto simp: d list_ex_iff sv_eq_def)
  qed
qed

text \<open>What the functions of a file may call: those the file itself declares.\<close>

definition file_signatures :: "ast list \<Rightarrow> global_scope \<Rightarrow> tsigs" where
  "file_signatures ds global nm =
     (if nm \<in> function_name ` set ds then
        map_option (\<lambda>k. (fi_return_type (global ! k), map param_type (fi_params (global ! k))))
          (semantic_global_lookup_function global nm)
      else None)"

lemma complete_is_function: "complete_function d \<Longrightarrow> is_function d"
  by (cases d) simp_all

lemma semantic_analyze_spec:
  assumes "list_all complete_function ds" "length ds \<le> MAX_FUNCTION_COUNT"
  shows "safely (\<lambda>(ok, t', errors'). extends errors errors' \<and>
      (ok \<longleftrightarrow> list_all (tfunction Analyser (file_signatures ds global)) ds) \<and>
      (ok \<longleftrightarrow> error_count errors' = error_count errors) \<and> strip t' = strip (AstTranslationUnit i ds))
    (semantic_analyze (AstTranslationUnit i ds) name errors global)"
proof -
  let ?sa = "\<lparr>sa_scopes = [], sa_errors = errors, sa_filename = name, sa_global = global,
      sa_return_type = TYPE_INT64, sa_visible = []\<rparr>"
  have fs: "list_all is_function ds"
    using assms(1) by (auto simp: list_all_iff complete_is_function)
  obtain vs where vs: "collect_visible ?sa ds = Ret (True, ?sa\<lparr>sa_visible := vs\<rparr>)"
      "set vs = function_name ` set ds"
    using collect_visible_spec [OF fs, of ?sa] assms(2) by auto
  have sigs: "signatures (?sa\<lparr>sa_visible := vs\<rparr>) = file_signatures ds global"
    by (rule ext) (simp add: signatures_def file_signatures_def vs(2))
  have "safely (\<lambda>(ok, ds', sb). node_verdict (list_all (tfunction Analyser (file_signatures ds global)) ds) ok
      (?sa\<lparr>sa_visible := vs\<rparr>) sb \<and> map strip ds' = map strip ds) (analyze_nodes (?sa\<lparr>sa_visible := vs\<rparr>) ds)"
    using analyze_nodes_spec [OF assms(1), of "?sa\<lparr>sa_visible := vs\<rparr>"] sigs by simp
  then show ?thesis
    by (auto simp: vs(1) node_verdict_def verdict_def sem_frame_def elim!: safely_bind)
qed

section \<open>Where the analysis looks\<close>

text \<open>
  Trees without a comparison by \<open>>\<close> and without an assignment used as a value. On them both sets of
  rules agree, so the analysis decides the rules of the language.
\<close>

fun plain_expr :: "ast \<Rightarrow> bool" where
  "plain_expr (AstBinary op _ l r) \<longleftrightarrow> op \<noteq> AST_GREATER \<and> plain_expr l \<and> plain_expr r"
| "plain_expr (AstUnary _ _ e) \<longleftrightarrow> plain_expr e"
| "plain_expr (AstCall _ _ es) \<longleftrightarrow> list_all plain_expr es"
| "plain_expr (AstAssignment _ _ _) \<longleftrightarrow> False"
| "plain_expr _ \<longleftrightarrow> True"

fun plain :: "ast \<Rightarrow> bool" where
  "plain (AstVarDecl _ _ _ e) \<longleftrightarrow> plain_expr e"
| "plain (AstAssignment _ _ e) \<longleftrightarrow> plain_expr e"
| "plain (AstReturn _ e) \<longleftrightarrow> plain_expr e"
| "plain (AstIf _ c t e) \<longleftrightarrow> plain_expr c \<and> plain t \<and> plain e"
| "plain (AstWhile _ c b) \<longleftrightarrow> plain_expr c \<and> plain b"
| "plain (AstBlock _ ss) \<longleftrightarrow> list_all plain ss"
| "plain (AstFunction _ _ _ _ body _) \<longleftrightarrow> plain body"
| "plain e \<longleftrightarrow> plain_expr e"

lemma texpr_plain:
  "plain_expr e \<Longrightarrow> texpr m vs fs e = texpr Language vs fs e"
  "list_all plain_expr es \<Longrightarrow> targs m vs fs tys es = targs Language vs fs tys es"
  by (induction m vs fs e and m vs fs tys es rule: texpr_targs.induct) (auto split: option.split)

lemma expr_agree: "plain_expr e \<Longrightarrow> texpr Analyser vs fs e = texpr Language vs fs e"
  by (rule texpr_plain)

lemma value_agree: "plain_expr e \<Longrightarrow> tvalue Analyser fs als ty e = tvalue Language fs als ty e"
  by (simp add: tvalue_def expr_agree)

lemma stmt_agree:
  "m = Analyser \<Longrightarrow> plain s \<Longrightarrow> tstmt m fs ret als s = tstmt Language fs ret als s"
  "m = Analyser \<Longrightarrow> list_all plain ss \<Longrightarrow> tstmts m fs ret als ss = tstmts Language fs ret als ss"
proof (induction m fs ret als s and m fs ret als ss rule: tstmt_tstmts.induct)
  case (4 m fs ret als i c t e)
  then show ?case by (simp add: expr_agree cong: Option.bind_cong)
next
  case (5 m fs ret als i c b)
  then show ?case by (simp add: expr_agree cong: Option.bind_cong)
next
  case (10 m fs ret als s ss)
  then show ?case by (simp cong: Option.bind_cong)
qed (auto simp: value_agree expr_agree simp del: texpr.simps split: option.split)

lemma function_agree: "plain d \<Longrightarrow> tfunction Analyser fs d = tfunction Language fs d"
proof (cases d)
  case (AstFunction i nm ret ps body proto)
  assume "plain d"
  then have "plain body" by (simp add: AstFunction)
  then show ?thesis by (cases body) (simp_all add: AstFunction stmt_agree(2))
qed simp_all

lemma functions_agree: "list_all plain ds \<Longrightarrow> list_all (tfunction Analyser fs) ds = list_all (tfunction Language fs) ds"
  by (auto simp: list_all_iff function_agree)

section \<open>The global function table\<close>

definition global_ok :: "global_scope \<Rightarrow> bool" where
  "global_ok g \<longleftrightarrow> distinct (map fi_name g) \<and> length g \<le> MAX_FUNCTION_COUNT \<and>
     (\<forall>f \<in> set g. length (fi_params f) \<le> MAX_PARAMS_PER_FUNCTION)"

definition global_map :: "global_scope \<Rightarrow> string \<Rightarrow> function_info option" where
  "global_map g nm = map_option (\<lambda>k. g ! k) (semantic_global_lookup_function g nm)"

text \<open>What a call depends on: the return type and the number of parameters.\<close>

definition arity_map :: "global_scope \<Rightarrow> string \<Rightarrow> (data_type \<times> nat) option" where
  "arity_map g nm = map_option (\<lambda>f. (fi_return_type f, length (fi_params f))) (global_map g nm)"

lemma lookup_Some: "semantic_global_lookup_function g nm = Some k \<Longrightarrow> k < length g \<and> fi_name (g ! k) = nm"
  by (simp add: semantic_global_lookup_function_def first_index_Some sv_eq_def)

lemma lookup_None: "semantic_global_lookup_function g nm = None \<longleftrightarrow> nm \<notin> fi_name ` set g"
  by (auto simp: semantic_global_lookup_function_def first_index_None sv_eq_def)

lemma names_inj:
  "distinct (map fi_name g) \<Longrightarrow> j < length g \<Longrightarrow> k < length g \<Longrightarrow> fi_name (g ! j) = fi_name (g ! k) \<Longrightarrow> j = k"
  using nth_eq_iff_index_eq [of "map fi_name g" j k] by simp

lemma lookup_names:
  "semantic_global_lookup_function g nm = first_index (\<lambda>n. n = nm) (map fi_name g)"
  unfolding semantic_global_lookup_function_def sv_eq_def by (induction g) auto

lemma first_index_append:
  "first_index P (xs @ [x]) = (case first_index P xs of Some k \<Rightarrow> Some k
      | None \<Rightarrow> if P x then Some (length xs) else None)"
  by (induction xs) (auto split: option.split)

lemma global_map_snoc:
  assumes "fi_name f \<notin> fi_name ` set g"
  shows "global_map (g @ [f]) = (global_map g)(fi_name f \<mapsto> f)"
proof
  fix nm
  show "global_map (g @ [f]) nm = ((global_map g)(fi_name f \<mapsto> f)) nm"
  proof (cases "semantic_global_lookup_function g nm")
    case None
    then have "semantic_global_lookup_function (g @ [f]) nm = (if fi_name f = nm then Some (length g) else None)"
      by (simp add: lookup_names first_index_append)
    with None show ?thesis by (simp add: global_map_def)
  next
    case (Some k)
    then have "semantic_global_lookup_function (g @ [f]) nm = Some k"
      by (simp add: lookup_names first_index_append)
    moreover have "nm \<noteq> fi_name f" using lookup_Some [OF Some] assms by (metis image_eqI nth_mem)
    ultimately show ?thesis using Some lookup_Some [OF Some] by (simp add: global_map_def nth_append)
  qed
qed

lemma update_names:
  "k < length g \<Longrightarrow> fi_name f = fi_name (g ! k) \<Longrightarrow> map fi_name (g[k := f]) = map fi_name g"
  by (simp add: map_update) (metis length_map list_update_id nth_map)

lemma global_map_update:
  assumes "distinct (map fi_name g)" "k < length g" "fi_name f = fi_name (g ! k)"
  shows "global_map (g[k := f]) = (global_map g)(fi_name f \<mapsto> f)"
proof
  fix nm
  have same: "semantic_global_lookup_function (g[k := f]) nm = semantic_global_lookup_function g nm"
    by (simp only: lookup_names update_names [OF assms(2,3)])
  show "global_map (g[k := f]) nm = ((global_map g)(fi_name f \<mapsto> f)) nm"
  proof (cases "semantic_global_lookup_function g nm")
    case None
    with assms have "nm \<noteq> fi_name f" by (auto simp: lookup_None)
    with None same show ?thesis by (simp add: global_map_def)
  next
    case (Some j)
    with lookup_Some [OF Some] names_inj [OF assms(1), of j k] assms have "nm = fi_name f \<longleftrightarrow> j = k"
      by auto
    with Some same lookup_Some [OF Some] assms(2) show ?thesis
      by (auto simp: global_map_def nth_list_update)
  qed
qed

lemma declare_function_cases:
  assumes "global_ok g"
    and "semantic_global_declare_function g errs (AstFunction i nm ret ps body proto) file = (ok, g', errs')"
  shows "global_ok g' \<and> (ok \<longrightarrow> errs' = errs \<and> arity_map g' = (arity_map g)(nm \<mapsto> (ret, length ps))) \<and>
    (\<not> ok \<longrightarrow> g' = g \<and> error_count errs' = Suc (error_count errs) \<and> extends errs errs') \<and>
    (\<forall>m. m \<noteq> nm \<longrightarrow> global_map g' m = global_map g m)"
proof (cases "length ps \<le> MAX_PARAMS_PER_FUNCTION"; cases "semantic_global_lookup_function g nm")
  assume None: "semantic_global_lookup_function g nm = None" and few: "length ps \<le> MAX_PARAMS_PER_FUNCTION"
  let ?f = "\<lparr>fi_name = nm, fi_return_type = ret, fi_params = ps, fi_line = node_line i,
                   fi_filename = file, fi_is_prototype = proto\<rparr>"
  have new: "nm \<notin> fi_name ` set g" using None by (simp add: lookup_None)
  then have m: "global_map (g @ [?f]) = (global_map g)(nm \<mapsto> ?f)"
    using global_map_snoc [of ?f g] by simp
  then have "arity_map (g @ [?f]) = (arity_map g)(nm \<mapsto> (ret, length ps))"
    by (intro ext) (simp add: arity_map_def)
  with None new m assms few show ?thesis
    by (auto simp: Let_def global_ok_def split: if_splits)
next
  fix k
  assume Some: "semantic_global_lookup_function g nm = Some k" and few: "length ps \<le> MAX_PARAMS_PER_FUNCTION"
  note k = lookup_Some [OF Some]
  let ?f = "(g ! k)\<lparr>fi_is_prototype := False, fi_line := node_line i, fi_filename := file, fi_params := ps\<rparr>"
  have dist: "distinct (map fi_name g)" using assms(1) by (simp add: global_ok_def)
  have m: "global_map (g[k := ?f]) = (global_map g)(nm \<mapsto> ?f)"
    using global_map_update [OF dist, of k ?f] k by simp
  have "set (g[k := ?f]) \<subseteq> insert ?f (set g)" by (rule set_update_subset_insert)
  then have "\<forall>f \<in> set (g[k := ?f]). length (fi_params f) \<le> MAX_PARAMS_PER_FUNCTION"
    using assms(1) few unfolding global_ok_def by fastforce
  then have "global_ok (g[k := ?f])"
    using assms(1) k update_names [of k g ?f] by (simp add: global_ok_def)
  moreover have "global_map g nm = Some (g ! k)" using Some by (simp add: global_map_def)
  moreover from this have "arity_map g nm = Some (fi_return_type (g ! k), length (fi_params (g ! k)))"
    by (simp add: arity_map_def)
  moreover have "arity_map (g[k := ?f]) = (arity_map g)(nm \<mapsto> (fi_return_type (g ! k), length ps))"
    using m by (intro ext) (simp add: arity_map_def)
  ultimately show ?thesis
    using assms Some m few by (auto simp: Let_def declare_existing_def split: if_splits)
qed (use assms in \<open>auto simp: Let_def\<close>)

end
