(* ===== verification/FrontEnd.thy ===== *)
theory FrontEnd
  imports StatementFacts SemanticFacts
begin

text \<open>
  The properties of the front end: lexer, parser and semantic analysis, each as the code behaves
  on every input, and their composition.
\<close>

section \<open>Lexer\<close>

text \<open>C32: Lexer safety and progress. From a position inside the file, \<open>lexer_next\<close> reads only
  bytes of the file, one after the other, ends inside the file, and consumes at least one byte
  unless it returns \<open>TOKEN_EOF\<close>, which it does exactly when only blanks and comments are left.\<close>

theorem lexer_next_safe:
  assumes "lexer_ok l"
  shows "scans l (snd (lexer_next l)) \<and> lexer_ok (snd (lexer_next l)) \<and>
    (tok_type (fst (lexer_next l)) \<noteq> TOKEN_EOF \<longrightarrow> lx_curr l < lx_curr (snd (lexer_next l))) \<and>
    (tok_type (fst (lexer_next l)) = TOKEN_EOF \<longleftrightarrow> rest (lexer_skip_whitespace l) = [])"
  using lexer_next_scans [of l] scans_ok [OF lexer_next_scans assms] lexer_next_progress [of l]
    lexer_next_EOF [of l] by blast

theorem lexer_next_safe_witness:
  "tok_type (fst (lexer_next (lexer_init ''a.c'' ''/* x */ 42;''))) = TOKEN_NUMBER \<and>
   lx_curr (snd (lexer_next (lexer_init ''a.c'' ''/* x */ 42;''))) > 0"
proof -
  have "lexer_ok (lexer_init ''a.c'' ''/* x */ 42;'')" by (simp add: lexer_ok_def lexer_init_def)
  moreover have "tok_type (fst (lexer_next (lexer_init ''a.c'' ''/* x */ 42;''))) = TOKEN_NUMBER"
    by code_simp
  ultimately show ?thesis
    using lexer_next_safe [of "lexer_init ''a.c'' ''/* x */ 42;''"] by (auto simp: lexer_init_def)
qed

text \<open>C34: Positions. A token carries the line and column reached after its last byte, where lines
  count the line breaks before it and the column counts bytes since the last line break, from 1
  on the first line and from 2 on every other line.\<close>

theorem lexer_next_position_of:
  assumes "position_ok l"
  shows "position_ok (snd (lexer_next l)) \<and>
    (let pre = take (lx_curr (snd (lexer_next l))) (lx_data l) in
      tok_line (fst (lexer_next l)) = line_of pre \<and> tok_column (fst (lexer_next l)) = column_of pre)"
  using position_ok_scans [OF lexer_next_scans assms] lexer_next_position [of l]
  by (simp add: position_ok_def Let_def)

theorem lexer_next_position_of_witness:
  "tok_column (fst (lexer_next (lexer_init ''a.c'' [NEWLINE, CHR ''x'']))) = 3 \<and>
   tok_line (fst (lexer_next (lexer_init ''a.c'' [NEWLINE, CHR ''x'']))) = 2"
proof -
  define l where "l = lexer_init ''a.c'' [NEWLINE, CHR ''x'']"
  have "lx_curr (snd (lexer_next l)) = 2" unfolding l_def by code_simp
  moreover have "lx_data l = [NEWLINE, CHR ''x'']" "position_ok l"
    by (simp_all add: l_def position_ok_init) (simp add: lexer_init_def)
  ultimately show ?thesis
    using lexer_next_position_of [of l] unfolding l_def [symmetric]
    by (simp add: Let_def line_of_def column_of_def)
qed

text \<open>C33: Lexing round trip. Lexemes printed with a blank after each one are read back as the
  same tokens with the same texts (the comparison operators are returned without a text).\<close>

theorem lexer_round_trip:
  assumes "\<forall>(ty, s) \<in> set ts. lexeme_ok ty s"
  shows "map (\<lambda>t. (tok_type t, tok_text t)) (tokens (lexer_init nm (spaced ts))) =
    map (\<lambda>(ty, s). (ty, visible_text ty s)) ts @ [(TOKEN_EOF, [])]"
  using tokens_spaced [OF assms, of "lexer_init nm (spaced ts)"] by simp

theorem lexer_round_trip_witness:
  "map (\<lambda>t. (tok_type t, tok_text t))
     (tokens (lexer_init ''a'' (spaced [(TOKEN_INT, ''int''), (TOKEN_IDENTIFIER, ''x1''), (TOKEN_LSHIFT, ''<<'')]))) =
   [(TOKEN_INT, ''int''), (TOKEN_IDENTIFIER, ''x1''), (TOKEN_LSHIFT, []), (TOKEN_EOF, [])]"
  by (subst lexer_round_trip) (simp_all add: lexeme_ok_def visible_text_def keyword_tokens_def is_alpha_def
      is_ident_char_def is_alnum_def is_digit_def Let_def)

section \<open>Parser\<close>

text \<open>C8: Termination of the parser. For every source text, well formed or not, fuel of two more
  than its length is enough: no loop of the parser, error recovery included, runs for ever.\<close>

theorem parser_parse_terminates:
  assumes "length src + 2 \<le> n"
  shows "terminates (parser_parse n (lexer_init nm src) errs)"
  using parser_parse_achieves [of "lexer_init nm src" n errs] assms
  by (simp add: achieves_def lexer_init_def)

theorem parser_parse_terminates_witness:
  "terminates (parser_parse 20 (lexer_init ''a.c'' ''int f( ; { }'') error_context_init)"
  by (rule parser_parse_terminates) simp

text \<open>C24: Shape of the result. The parser returns NULL only after reporting an error; otherwise
  it returns a translation unit of at most 256 declarations, every one of them a function node and
  none of them NULL, with at most 512 statements in a block, 32 arguments in a call and 16
  parameters. Diagnostics are only added.\<close>

theorem parser_parse_result:
  assumes "parser_parse n l errs = Ret (t, q)"
  shows "extends errs (ps_errors q) \<and>
    (if t = AstNull then error_count errs < error_count (ps_errors q)
     else bounded t \<and> (\<exists>ds. t = AstTranslationUnit zero_info ds \<and> list_all is_function ds))"
proof -
  have "file_result (parser_start l errs) (t, q)"
    using parser_parse_achieves [of l n errs] assms by (simp add: achieves_def oall_def)
  then show ?thesis
    using moves_errors [of "parser_start l errs" q] by (auto simp: file_result_def)
qed

theorem parser_parse_result_witness:
  "\<exists>q. parser_parse 9 (lexer_init ''a'' '';'') error_context_init = Ret (AstNull, q) \<and>
     0 < error_count (ps_errors q)"
proof -
  obtain q where q: "parser_parse 9 (lexer_init ''a'' '';'') error_context_init = Ret (AstNull, q)"
  proof -
    have "(case parser_parse 9 (lexer_init ''a'' '';'') error_context_init of
        Ret (AstNull, q) \<Rightarrow> True | _ \<Rightarrow> False)" by code_simp
    then show ?thesis using that by (auto split: outcome.splits prod.splits ast.splits)
  qed
  with parser_parse_result [OF q] show ?thesis by (auto simp: error_context_init_def)
qed

text \<open>C14: A clean parse is complete. If the parser reports no error, then no operand, condition,
  branch, argument or body of the tree is missing: every NULL a parse routine returns is
  accounted for by a diagnostic.\<close>

theorem parser_parse_complete:
  assumes "parser_parse n l errs = Ret (AstTranslationUnit i ds, q)"
    and "error_count (ps_errors q) = error_count errs"
  shows "list_all complete_function ds"
proof -
  have "file_result (parser_start l errs) (AstTranslationUnit i ds, q)"
    using parser_parse_achieves [of l n errs] assms by (simp add: achieves_def oall_def)
  moreover have "clean (parser_start l errs) q"
    using assms(2) parser_start_ok [of l errs] by (simp add: clean_def stmt_start_def)
  ultimately show ?thesis by (auto simp: file_result_def)
qed

theorem parser_parse_complete_witness:
  "\<exists>i ds q. parser_parse 40 (lexer_init ''a'' ''int f(int a){if(a<1)return a;}'') error_context_init =
     Ret (AstTranslationUnit i ds, q) \<and> length ds = 1 \<and> list_all complete_function ds"
proof -
  have "case parser_parse 40 (lexer_init ''a'' ''int f(int a){if(a<1)return a;}'') error_context_init of
      Ret (AstTranslationUnit i ds, q) \<Rightarrow> error_count (ps_errors q) = error_count error_context_init \<and> length ds = 1
    | _ \<Rightarrow> False" by code_simp
  then obtain i ds q where r: "parser_parse 40 (lexer_init ''a'' ''int f(int a){if(a<1)return a;}'') error_context_init =
      Ret (AstTranslationUnit i ds, q)" "error_count (ps_errors q) = error_count error_context_init" "length ds = 1"
    by (auto split: outcome.splits prod.splits ast.splits)
  from parser_parse_complete [OF r(1,2)] r(1,3) show ?thesis by blast
qed

section \<open>Semantic analysis\<close>

text \<open>C9: The analyser decides the type system. A file of complete functions is analysed with verdict \<open>true\<close>
  exactly when no error is reported, and the tree that comes back differs in the types of its nodes only.
  When the file has no comparison by \<open>>\<close> and no assignment used as a value, the two forms the code does not look into,
  the verdict is \<open>true\<close> exactly when every function is typed by the rules of the language against the
  signatures the file may use.\<close>

theorem semantic_analyze_decides:
  assumes "list_all complete_function ds" "length ds \<le> MAX_FUNCTION_COUNT"
    and "semantic_analyze (AstTranslationUnit i ds) name errors global = Ret (ok, t', errors')"
  shows "(list_all plain ds \<longrightarrow> (ok \<longleftrightarrow> list_all (tfunction Language (file_signatures ds global)) ds)) \<and>
    (ok \<longleftrightarrow> error_count errors' = error_count errors) \<and> extends errors errors' \<and>
    strip t' = strip (AstTranslationUnit i ds)"
  using semantic_analyze_spec [OF assms(1,2), where global = global and errors = errors and i = i and name = name]
    assms(3) functions_agree by auto

definition sample_function :: ast where
  "sample_function = AstFunction zero_info ''f'' TYPE_INT [\<lparr>param_name = ''a'', param_type = TYPE_CHAR\<rparr>]
     (AstBlock zero_info [AstReturn zero_info (AstBinary AST_ADD zero_info
        (AstIdentifier zero_info ''a'') (AstNumber zero_info ''1''))]) False"

theorem semantic_analyze_decides_witness:
  "\<exists>t' es. semantic_analyze (AstTranslationUnit zero_info [sample_function]) ''a.c'' error_context_init [] =
     Ret (True, t', es) \<and> error_count es = 0 \<and>
     list_all (tfunction Language (file_signatures [sample_function] [])) [sample_function]"
proof -
  have c: "list_all complete_function [sample_function]" "length [sample_function] \<le> MAX_FUNCTION_COUNT"
    "list_all plain [sample_function]"
    by code_simp+
  have "case semantic_analyze (AstTranslationUnit zero_info [sample_function]) ''a.c'' error_context_init [] of
      Ret (ok, _, _) \<Rightarrow> ok | _ \<Rightarrow> False" by code_simp
  then obtain t' es where r:
    "semantic_analyze (AstTranslationUnit zero_info [sample_function]) ''a.c'' error_context_init [] = Ret (True, t', es)"
    by (auto split: outcome.splits prod.splits)
  from semantic_analyze_decides [OF c(1,2) r] c(3) r show ?thesis
    by (auto simp: error_context_init_def)
qed

text \<open>What happens outside of them: \<open>int f(int x, int y) { int gt = (x > y); return gt; }\<close> is typed, and the
  analyser rejects it, the comparison being left without a type; it accepts a comparison of names that nobody declares.\<close>

definition comparing :: ast where
  "comparing = AstFunction zero_info ''f'' TYPE_INT
     [\<lparr>param_name = ''x'', param_type = TYPE_INT\<rparr>, \<lparr>param_name = ''y'', param_type = TYPE_INT\<rparr>]
     (AstBlock zero_info
       [AstVarDecl zero_info ''gt'' TYPE_INT (AstBinary AST_GREATER zero_info (AstIdentifier zero_info ''x'') (AstIdentifier zero_info ''y'')),
        AstReturn zero_info (AstIdentifier zero_info ''gt'')]) False"

lemma greater_rejected:
  "list_all (tfunction Language (file_signatures [comparing] [])) [comparing]"
  "case semantic_analyze (AstTranslationUnit zero_info [comparing]) ''a.c'' error_context_init [] of
     Ret (ok, _, es) \<Rightarrow> \<not> ok \<and> error_count es = 1 | _ \<Rightarrow> False"
  by code_simp+

lemma greater_ignored: "analyze_expression sa (AstBinary AST_GREATER i l r) = Ret (True, AstBinary AST_GREATER i l r, sa)"
  by (simp add: is_arith_def is_comparison_def is_bitwise_def)

text \<open>C15: No NULL pointer reaches the analysis of a clean parse. The analysis of any tree that the
  parser returned without reporting an error returns a verdict, unless it folds a constant
  expression that C leaves undefined (overflow, a shift out of range, \<open>INT64_MIN / -1\<close>).\<close>

theorem clean_parse_analyzed:
  assumes "parser_parse n l errs = Ret (t, q)" and "error_count (ps_errors q) = error_count errs"
  shows "semantic_analyze t name es global \<in> range Ret \<union> {Fault Undefined, Fault Trap}"
proof -
  have "file_result (parser_start l errs) (t, q)"
    using parser_parse_achieves [of l n errs] assms by (simp add: achieves_def oall_def)
  moreover have "clean (parser_start l errs) q"
    using assms(2) parser_start_ok [of l errs] by (simp add: clean_def stmt_start_def)
  ultimately obtain ds where ds: "t = AstTranslationUnit zero_info ds" "list_all complete_function ds"
      "length ds \<le> MAX_FUNCTION_COUNT"
    using assms(2) by (auto simp: file_result_def)
  show ?thesis
    using semantic_analyze_spec [OF ds(2,3), where global = global and errors = es and i = zero_info and name = name]
    unfolding ds(1) by (cases "semantic_analyze (AstTranslationUnit zero_info ds) name es global") auto
qed

theorem clean_parse_analyzed_witness:
  "\<exists>t q. parser_parse 30 (lexer_init ''a'' ''int f(int a){return a;}'') error_context_init = Ret (t, q) \<and>
     (\<forall>es g. semantic_analyze t ''a'' es g \<noteq> Fault NullDeref)"
proof -
  have "case parser_parse 30 (lexer_init ''a'' ''int f(int a){return a;}'') error_context_init of
      Ret (t, q) \<Rightarrow> error_count (ps_errors q) = error_count error_context_init | _ \<Rightarrow> False" by code_simp
  then obtain t q where r: "parser_parse 30 (lexer_init ''a'' ''int f(int a){return a;}'') error_context_init = Ret (t, q)"
      "error_count (ps_errors q) = error_count error_context_init"
    by (auto split: outcome.splits prod.splits)
  have "semantic_analyze t ''a'' es g \<noteq> Fault NullDeref" for es g
    using clean_parse_analyzed [OF r, of "''a''" es g] by auto
  with r(1) show ?thesis by blast
qed

text \<open>C25: Expressions. Analysing a complete expression never reads a missing operand, leaves the
  scopes alone and changes the tree in the types of its nodes only. When it has no comparison by \<open>>\<close> and no assignment
  in it, the two forms the code does not look into, it succeeds exactly when the expression is
  typed by the rules of the language, and then the node carries that type; else an error is reported.\<close>

theorem analyze_expression_types:
  assumes "complete_expr e" and "analyze_expression sa e = Ret (ok, e', sb)"
  shows "sa_scopes sb = sa_scopes sa \<and> strip e' = strip e \<and>
    (plain_expr e \<longrightarrow>
      (case texpr Language (scope_types sa) (signatures sa) e of
         None \<Rightarrow> \<not> ok \<and> sem_errors sa < sem_errors sb
       | Some t \<Rightarrow> ok \<and> sem_errors sb = sem_errors sa \<and> node_type_of e' = Ret t))"
  using analyze_expression_spec [OF assms(1), of sa] assms(2) sem_frame_errors [of sa sb]
    expr_agree [of e "scope_types sa" "signatures sa"]
  by (auto simp: expr_spec_def verdict_def split: option.split)

theorem analyze_expression_types_witness:
  "\<exists>sb e'. analyze_expression \<lparr>sa_scopes = [], sa_errors = error_context_init, sa_filename = ''a.c'',
     sa_global = [], sa_return_type = TYPE_INT, sa_visible = []\<rparr>
       (AstBinary AST_ADD zero_info (AstNumber zero_info ''1'')
         (AstBinary AST_LESS zero_info (AstNumber zero_info ''2'') (AstNumber zero_info ''3''))) =
       Ret (True, e', sb) \<and> node_type_of e' = Ret TYPE_INT64"
proof -
  define sa where "sa = \<lparr>sa_scopes = [], sa_errors = error_context_init, sa_filename = ''a.c'',
     sa_global = [], sa_return_type = TYPE_INT, sa_visible = []\<rparr>"
  let ?e = "AstBinary AST_ADD zero_info (AstNumber zero_info ''1'')
         (AstBinary AST_LESS zero_info (AstNumber zero_info ''2'') (AstNumber zero_info ''3''))"
  have "\<exists>x. analyze_expression sa ?e = Ret x"
    by (force simp: is_arith_def is_comparison_def is_bitwise_def node_type_of_def)
  then obtain ok e' sb where r: "analyze_expression sa ?e = Ret (ok, e', sb)" by (auto simp del: analyze_expression.simps)
  have "tnumber ''1'' = TYPE_INT" by code_simp
  then have "texpr Language (scope_types sa) (signatures sa) ?e = Some TYPE_INT64"
    by (simp add: tbinary_def)
  with analyze_expression_types [OF _ r] r show ?thesis
    unfolding sa_def by auto
qed

text \<open>C29: Declaring a variable. In a chain of scopes that models \<open>al # als\<close>, a declaration
  succeeds exactly when the innermost scope does not hold the name and has fewer than 128
  variables; then the name, and no other, gets a new meaning. Otherwise one error is reported
  and no scope changes.\<close>

theorem scope_declare_lookup:
  assumes "chain_models (sa_scopes sa) (al # als)"
    and "semantic_scope_declare sa nm ty ln = (ok, sb)"
  shows "(ok \<longleftrightarrow> map_of al nm = None \<and> length al < SCOPE_HASH_SIZE) \<and>
    (ok \<longrightarrow> scope_types sb = (scope_types sa)(nm \<mapsto> ty) \<and> sem_errors sb = sem_errors sa) \<and>
    (\<not> ok \<longrightarrow> scope_types sb = scope_types sa \<and> sem_errors sa < sem_errors sb) \<and>
    tl (sa_scopes sb) = tl (sa_scopes sa)"
proof -
  from declare_models [OF assms] obtain als' where m: "chain_models (sa_scopes sb) als'"
    "verdict (tdeclare nm ty (al # als) \<noteq> None) ok sa sb" "ok \<longrightarrow> tdeclare nm ty (al # als) = Some als'"
    "tl (sa_scopes sb) = tl (sa_scopes sa)"
    by blast
  have same: "scope_types sb = scope_types sa" if "\<not> ok"
    using assms(2) that unfolding scope_types_def [abs_def]
    by (auto simp: semantic_scope_declare_def sem_error_def split: list.splits option.splits)
  have "scope_types sb = (scope_types sa)(nm \<mapsto> ty)" if ok
    using m that scope_types_chain [OF m(1)] scope_types_chain [OF assms(1)]
    by (auto split: if_splits)
  with m same sem_frame_errors [of sa sb] show ?thesis
    by (auto simp: verdict_def split: if_splits)
qed

theorem scope_declare_lookup_witness:
  "scope_types (snd (semantic_scope_declare (semantic_scope_enter \<lparr>sa_scopes = [], sa_errors = error_context_init,
     sa_filename = ''a.c'', sa_global = [], sa_return_type = TYPE_INT, sa_visible = []\<rparr>) ''x'' TYPE_CHAR 3)) ''x'' =
   Some TYPE_CHAR"
proof -
  define sa where "sa = semantic_scope_enter \<lparr>sa_scopes = [], sa_errors = error_context_init,
     sa_filename = ''a.c'', sa_global = [], sa_return_type = TYPE_INT, sa_visible = []\<rparr>"
  have "chain_models (sa_scopes sa) ([] # [])"
    by (simp add: sa_def semantic_scope_enter_def scope_models_empty)
  moreover obtain ok sb where "semantic_scope_declare sa ''x'' TYPE_CHAR 3 = (ok, sb)" by force
  ultimately show ?thesis
    using scope_declare_lookup [of sa "[]" "[]" "''x''" TYPE_CHAR 3 ok sb]
    unfolding sa_def [symmetric] by (simp add: SCOPE_HASH_SIZE_def)
qed

text \<open>C30: Block structure. Analysing a block restores the chain of scopes exactly, whatever it
  declares and whether or not it is accepted.\<close>

theorem block_restores_scopes:
  assumes "complete_stmt (AstBlock i ss)" "chain_models (sa_scopes sa) als" "als \<noteq> []"
    and "analyze_statement sa (AstBlock i ss) = Ret (ok, s', sb)"
  shows "sa_scopes sb = sa_scopes sa"
proof -
  from assms(4) obtain ss' sc where r: "analyze_statements (semantic_scope_enter sa) ss = Ret (ok, ss', sc)"
      "sb = semantic_scope_exit sc"
    by (auto simp: outcome_simps)
  have "safely (stmts_spec (semantic_scope_enter sa) ([] # als) ss) (analyze_statements (semantic_scope_enter sa) ss)"
    using assms(1,2) scope_models_empty
    by (intro stmts_spec_list analyze_statement_spec) (auto simp: list_all_iff semantic_scope_enter_def)
  then show ?thesis
    using r by (simp add: stmts_spec_def stmt_post_def semantic_scope_enter_def semantic_scope_exit_def)
qed

theorem block_restores_scopes_witness:
  "\<exists>ok s' sb. analyze_statement (semantic_scope_enter \<lparr>sa_scopes = [], sa_errors = error_context_init,
     sa_filename = ''a.c'', sa_global = [], sa_return_type = TYPE_INT, sa_visible = []\<rparr>)
     (AstBlock zero_info [AstVarDecl zero_info ''x'' TYPE_INT AstNull]) = Ret (ok, s', sb) \<and>
     sa_scopes sb = [empty_scope]"
proof -
  define sa where "sa = semantic_scope_enter \<lparr>sa_scopes = [], sa_errors = error_context_init,
     sa_filename = ''a.c'', sa_global = [], sa_return_type = TYPE_INT, sa_visible = []\<rparr>"
  have sc: "sa_scopes sa = [empty_scope]" by (simp add: sa_def semantic_scope_enter_def)
  obtain ok s' sb where r: "analyze_statement sa (AstBlock zero_info [AstVarDecl zero_info ''x'' TYPE_INT AstNull])
      = Ret (ok, s', sb)"
    by (cases "semantic_scope_declare (semantic_scope_enter sa) ''x'' TYPE_INT (node_line zero_info)") auto
  have "sa_scopes sb = sa_scopes sa"
    by (rule block_restores_scopes [OF _ _ _ r, of "[[]]"]) (simp_all add: sc scope_models_empty)
  with r sc show ?thesis unfolding sa_def by auto
qed

text \<open>C31: The table of functions. Declaring a function keeps the names distinct and the table
  within its 256 entries and 32 parameters; success binds the name to its return type and
  number of parameters, failure reports one error and changes nothing, and no declaration
  affects the entry of another name.\<close>

theorem declare_function_table:
  assumes "global_ok g"
    and "semantic_global_declare_function g errs (AstFunction i nm ret ps body proto) file = (ok, g', errs')"
  shows "global_ok g' \<and> (\<forall>m. m \<noteq> nm \<longrightarrow> global_map g' m = global_map g m) \<and>
    (if ok then errs' = errs \<and> arity_map g' nm = Some (ret, length ps)
     else g' = g \<and> error_count errs' = Suc (error_count errs))"
  using declare_function_cases [OF assms] by auto

theorem declare_function_table_witness:
  "arity_map (fst (snd (semantic_global_declare_function [] error_context_init sample_function ''a.c''))) ''f'' =
     Some (TYPE_INT, 1)"
proof -
  obtain ok g' errs' where r:
    "semantic_global_declare_function [] error_context_init sample_function ''a.c'' = (ok, g', errs')"
    by (cases "semantic_global_declare_function [] error_context_init sample_function ''a.c''")
  have "ok" using r by (auto simp: sample_function_def Let_def semantic_global_lookup_function_def
        MAX_PARAMS_PER_FUNCTION_def MAX_FUNCTION_COUNT_def)
  with declare_function_table [OF _ r [unfolded sample_function_def]] r show ?thesis
    by (simp add: global_ok_def)
qed

end
