(* ===== verification/Ir.thy ===== *)
theory Ir
  imports Ast
begin

text \<open>
  The intermediate representation: \<open>incs/ir.h\<close>, \<open>incs/ir_ops.def\<close>, and the textual form of
  \<open>srcs/ir/ir_print.c\<close>. A function's code is kept the way the C code does, as a list of chunks of
  at most 64 instructions; \<open>ir_code\<close> is the abstraction to one list, and \<open>emit_code\<close> the
  refinement of appending to it.
\<close>

datatype opcode =
    IR_ADD | IR_SUB | IR_MUL | IR_DIV | IR_EQ | IR_NEQ | IR_LT | IR_LE | IR_GT | IR_GE
  | IR_LSHIFT | IR_RSHIFT | IR_URSHIFT | IR_BAND | IR_BOR | IR_BXOR | IR_BNOT
  | IR_NEG | IR_NOT | IR_MOV | IR_LOAD | IR_STORE | IR_CONST | IR_ARG
  | IR_LABEL | IR_JMP | IR_JZ | IR_JNZ | IR_CALL | IR_RET

datatype opcode_format =
    FMT_NONE | FMT_BIN | FMT_UNARY | FMT_IMM | FMT_CALL | FMT_ARG | FMT_JUMP | FMT_BRANCH | FMT_LABEL

text \<open>Columns \<open>name\<close> and \<open>fmt\<close> of the operation table.\<close>

fun ir_opcode_name :: "opcode \<Rightarrow> string" where
  "ir_opcode_name IR_ADD = ''ADD''"
| "ir_opcode_name IR_SUB = ''SUB''"
| "ir_opcode_name IR_MUL = ''MUL''"
| "ir_opcode_name IR_DIV = ''DIV''"
| "ir_opcode_name IR_EQ = ''EQ''"
| "ir_opcode_name IR_NEQ = ''NEQ''"
| "ir_opcode_name IR_LT = ''LT''"
| "ir_opcode_name IR_LE = ''LE''"
| "ir_opcode_name IR_GT = ''GT''"
| "ir_opcode_name IR_GE = ''GE''"
| "ir_opcode_name IR_LSHIFT = ''SHL''"
| "ir_opcode_name IR_RSHIFT = ''SAR''"
| "ir_opcode_name IR_URSHIFT = ''SHR''"
| "ir_opcode_name IR_BAND = ''AND''"
| "ir_opcode_name IR_BOR = ''OR''"
| "ir_opcode_name IR_BXOR = ''XOR''"
| "ir_opcode_name IR_BNOT = ''NOT''"
| "ir_opcode_name IR_NEG = ''NEG''"
| "ir_opcode_name IR_NOT = ''NOT''"
| "ir_opcode_name IR_MOV = ''MOV''"
| "ir_opcode_name IR_LOAD = ''LOAD''"
| "ir_opcode_name IR_STORE = ''STORE''"
| "ir_opcode_name IR_CONST = ''CONST''"
| "ir_opcode_name IR_ARG = ''ARG''"
| "ir_opcode_name IR_LABEL = ''LABEL''"
| "ir_opcode_name IR_JMP = ''JMP''"
| "ir_opcode_name IR_JZ = ''JZ''"
| "ir_opcode_name IR_JNZ = ''JNZ''"
| "ir_opcode_name IR_CALL = ''CALL''"
| "ir_opcode_name IR_RET = ''RET''"

fun ir_opcode_format :: "opcode \<Rightarrow> opcode_format" where
  "ir_opcode_format IR_BNOT = FMT_UNARY"
| "ir_opcode_format IR_NEG = FMT_UNARY"
| "ir_opcode_format IR_NOT = FMT_UNARY"
| "ir_opcode_format IR_MOV = FMT_UNARY"
| "ir_opcode_format IR_CONST = FMT_IMM"
| "ir_opcode_format IR_ARG = FMT_ARG"
| "ir_opcode_format IR_LABEL = FMT_LABEL"
| "ir_opcode_format IR_JMP = FMT_JUMP"
| "ir_opcode_format IR_JZ = FMT_BRANCH"
| "ir_opcode_format IR_JNZ = FMT_BRANCH"
| "ir_opcode_format IR_CALL = FMT_CALL"
| "ir_opcode_format IR_RET = FMT_UNARY"
| "ir_opcode_format _ = FMT_BIN"

section \<open>Instructions\<close>

record instr =
  in_op :: opcode
  in_type :: data_type
  in_dest :: nat
  in_src1 :: nat
  in_src2 :: nat
  in_imm :: int
  in_func :: string
  in_label :: nat

text \<open>A designated initialiser sets the members it does not name to zero.\<close>

definition instr_of :: "opcode \<Rightarrow> data_type \<Rightarrow> instr" where
  "instr_of op ty = \<lparr>in_op = op, in_type = ty, in_dest = 0, in_src1 = 0, in_src2 = 0, in_imm = 0,
                     in_func = [], in_label = 0\<rparr>"

section \<open>Functions\<close>

record ir_function =
  if_chunks :: "instr list list"
  if_total_count :: nat
  if_vreg_count :: nat
  if_stack_count :: nat
  if_label_count :: nat
  if_name :: string
  if_errors :: error_context
  if_filename :: string

definition ir_code :: "ir_function \<Rightarrow> instr list" where
  "ir_code f = concat (if_chunks f)"

definition emit :: "instr \<Rightarrow> ir_function \<Rightarrow> ir_function" where
  "emit inst f =
     (if if_total_count f \<ge> MAX_IR_INSTRUCTIONS_PER_FUNCTION then f
      else
        let chunks = (if if_chunks f = [] \<or> length (last (if_chunks f)) \<ge> IR_CHUNK_SIZE
                      then if_chunks f @ [[]] else if_chunks f)
        in f\<lparr>if_chunks := butlast chunks @ [last chunks @ [inst]],
             if_total_count := if_total_count f + 1\<rparr>)"

definition codegen_error :: "int \<Rightarrow> int \<Rightarrow> string \<Rightarrow> ir_function \<Rightarrow> ir_function" where
  "codegen_error ln col text f =
     f\<lparr>if_errors := error_add (if_errors f) ERROR_CODEGEN ERROR_LEVEL_ERROR (Some (if_filename f)) ln col text\<rparr>"

definition ir_alloc_vreg :: "ir_function \<Rightarrow> nat option \<times> ir_function" where
  "ir_alloc_vreg f =
     (if if_vreg_count f \<ge> MAX_VREGS_PER_FUNCTION then
        (None, codegen_error 0 0
          (''function '' @ quoted (if_name f) @ '' exceeds virtual register limit ('' @
           fmt_nat MAX_VREGS_PER_FUNCTION @ '')'') f)
      else (Some (if_vreg_count f), f\<lparr>if_vreg_count := if_vreg_count f + 1\<rparr>))"

section \<open>Printing\<close>

definition vreg_text :: "nat \<Rightarrow> string" where
  "vreg_text r = ''%v'' @ fmt_nat r"

definition INST_BUF_SIZE :: nat where "INST_BUF_SIZE = 128"

definition format_instruction :: "instr \<Rightarrow> string" where
  "format_instruction i =
     snprintf INST_BUF_SIZE
      (let name = ir_opcode_name (in_op i) in
       case ir_opcode_format (in_op i) of
         FMT_BIN \<Rightarrow> vreg_text (in_dest i) @ '' = '' @ name @ '' '' @ vreg_text (in_src1 i) @ '', '' @
                    vreg_text (in_src2 i)
       | FMT_UNARY \<Rightarrow>
           if in_op i = IR_RET then name @ '' '' @ vreg_text (in_src1 i)
           else vreg_text (in_dest i) @ '' = '' @ name @ '' '' @ vreg_text (in_src1 i)
       | FMT_IMM \<Rightarrow> vreg_text (in_dest i) @ '' = '' @ name @ '' '' @ fmt_int (in_imm i)
       | FMT_ARG \<Rightarrow> name @ '' '' @ fmt_int (in_imm i) @ '' = '' @ vreg_text (in_src1 i)
       | FMT_CALL \<Rightarrow> vreg_text (in_dest i) @ '' = '' @ name @ '' '' @ in_func i
       | FMT_LABEL \<Rightarrow> ''L'' @ fmt_nat (in_label i) @ '':''
       | FMT_JUMP \<Rightarrow> name @ '' L'' @ fmt_nat (in_label i)
       | FMT_BRANCH \<Rightarrow> name @ '' '' @ vreg_text (in_src1 i) @ '', L'' @ fmt_nat (in_label i)
       | FMT_NONE \<Rightarrow> ''UNKNOWN'')"

text \<open>The lines of the dump, chunk after chunk; the frame around them is decoration.\<close>

fun print_chunks :: "instr list list \<Rightarrow> string list" where
  "print_chunks [] = []"
| "print_chunks (cur # next) = map format_instruction cur @ print_chunks next"

definition ir_print :: "ir_function \<Rightarrow> string list" where
  "ir_print f = print_chunks (if_chunks f)"

section \<open>Lemmas\<close>

text \<open>Every chunk but the last is full, and the counter is the number of instructions.\<close>

definition chunks_ok :: "ir_function \<Rightarrow> bool" where
  "chunks_ok f \<longleftrightarrow> (\<forall>c \<in> set (butlast (if_chunks f)). length c = IR_CHUNK_SIZE) \<and>
     (if_chunks f \<noteq> [] \<longrightarrow> last (if_chunks f) \<noteq> [] \<and> length (last (if_chunks f)) \<le> IR_CHUNK_SIZE) \<and>
     if_total_count f = length (ir_code f) \<and> if_total_count f \<le> MAX_IR_INSTRUCTIONS_PER_FUNCTION"

definition room :: "ir_function \<Rightarrow> bool" where
  "room f \<longleftrightarrow> if_total_count f < MAX_IR_INSTRUCTIONS_PER_FUNCTION"

lemma emit_code: "room f \<Longrightarrow> ir_code (emit i f) = ir_code f @ [i]"
  by (cases "if_chunks f" rule: rev_cases) (auto simp: emit_def ir_code_def Let_def room_def butlast_append)

lemma emit_full: "\<not> room f \<Longrightarrow> emit i f = f"
  by (simp add: emit_def room_def)

lemma emit_chunks_ok: "chunks_ok f \<Longrightarrow> chunks_ok (emit i f)"
  by (cases "if_chunks f" rule: rev_cases)
    (auto simp: emit_def chunks_ok_def ir_code_def Let_def IR_CHUNK_SIZE_def butlast_append)

lemma emit_fields [simp]:
  "if_vreg_count (emit i f) = if_vreg_count f" "if_stack_count (emit i f) = if_stack_count f"
  "if_label_count (emit i f) = if_label_count f" "if_name (emit i f) = if_name f"
  "if_errors (emit i f) = if_errors f" "if_filename (emit i f) = if_filename f"
  by (simp_all add: emit_def Let_def)

lemma emit_total: "if_total_count (emit i f) = (if room f then Suc (if_total_count f) else if_total_count f)"
  by (simp add: emit_def Let_def room_def)

lemma codegen_error_fields [simp]:
  "if_chunks (codegen_error ln c t f) = if_chunks f" "if_total_count (codegen_error ln c t f) = if_total_count f"
  "if_vreg_count (codegen_error ln c t f) = if_vreg_count f" "if_stack_count (codegen_error ln c t f) = if_stack_count f"
  "if_label_count (codegen_error ln c t f) = if_label_count f" "if_name (codegen_error ln c t f) = if_name f"
  "if_filename (codegen_error ln c t f) = if_filename f" "ir_code (codegen_error ln c t f) = ir_code f"
  "chunks_ok (codegen_error ln c t f) = chunks_ok f" "room (codegen_error ln c t f) = room f"
  by (simp_all add: codegen_error_def ir_code_def chunks_ok_def room_def)

lemma print_chunks_concat: "print_chunks cs = map format_instruction (concat cs)"
  by (induction cs) simp_all

lemma ir_print_code: "ir_print f = map format_instruction (ir_code f)"
  by (simp add: ir_print_def ir_code_def print_chunks_concat)

end
