(* ===== verification/SymbolTable.thy ===== *)
theory SymbolTable
  imports HashTable Limits
begin

text \<open>
  The symbol table of the IR generator: \<open>srcs/ir/ir_symboltable.c\<close>. Every insertion logs the entry
  it overwrites, and leaving a scope replays the log backwards. The table is an array of 4096
  entries with linear probing; the log \<open>st_changes\<close> is the linked list of \<open>ScopeChange\<close>, newest
  first. Replaying is shown to be exact: it leaves the table as it was, slot for slot.
\<close>

record symbol =
  sy_name :: string
  sy_index :: nat
  sy_is_stack :: bool
  sy_occupied :: bool

record scope_change =
  ch_index :: nat
  ch_previous :: symbol

record symbol_table =
  st_entries :: "nat \<Rightarrow> symbol"
  st_changes :: "scope_change list"

definition zero_symbol :: symbol where
  "zero_symbol = \<lparr>sy_name = [], sy_index = 0, sy_is_stack = False, sy_occupied = False\<rparr>"

definition empty_symbol_table :: symbol_table where
  "empty_symbol_table = \<lparr>st_entries = (\<lambda>_. zero_symbol), st_changes = []\<rparr>"

abbreviation symbol_find :: "(nat \<Rightarrow> symbol) \<Rightarrow> string \<Rightarrow> nat option" where
  "symbol_find \<equiv> find_slot SYMBOL_TABLE_SIZE sy_occupied sy_name"

text \<open>The pointer that \<open>symbol_table_lookup\<close> returns is the index of the slot.\<close>

definition symbol_table_lookup :: "symbol_table \<Rightarrow> string \<Rightarrow> nat option" where
  "symbol_table_lookup st name =
     (case symbol_find (st_entries st) name of
        None \<Rightarrow> None
      | Some cur \<Rightarrow> if \<not> sy_occupied (st_entries st cur) then None else Some cur)"

definition symbol_table_add :: "symbol_table \<Rightarrow> string \<Rightarrow> nat \<Rightarrow> symbol_table outcome" where
  "symbol_table_add st name vreg =
     (case symbol_find (st_entries st) name of
        None \<Rightarrow> Fault Exited
      | Some cur \<Rightarrow>
          Ret \<lparr>st_entries = (st_entries st)(cur :=
                 \<lparr>sy_name = name, sy_index = vreg, sy_is_stack = False, sy_occupied = True\<rparr>),
               st_changes = \<lparr>ch_index = cur, ch_previous = st_entries st cur\<rparr> # st_changes st\<rparr>)"

text \<open>\<open>sym->is_stack = true\<close> through the pointer of a lookup.\<close>

definition symbol_set_stack :: "symbol_table \<Rightarrow> nat \<Rightarrow> symbol_table" where
  "symbol_set_stack st cur =
     st\<lparr>st_entries := (st_entries st)(cur := (st_entries st cur)\<lparr>sy_is_stack := True\<rparr>)\<rparr>"

text \<open>The loop of \<open>symbol_table_restore\<close>; past the end of the list it would read NULL.\<close>

fun restore_loop :: "(nat \<Rightarrow> symbol) \<Rightarrow> scope_change list \<Rightarrow> scope_change list \<Rightarrow> symbol_table outcome" where
  "restore_loop es cs target =
     (if cs = target then Ret \<lparr>st_entries = es, st_changes = cs\<rparr>
      else case cs of
        [] \<Rightarrow> Fault NullDeref
      | newest # rest \<Rightarrow> restore_loop (es(ch_index newest := ch_previous newest)) rest target)"

declare restore_loop.simps [simp del]

definition symbol_table_restore :: "symbol_table \<Rightarrow> scope_change list \<Rightarrow> symbol_table outcome" where
  "symbol_table_restore st target = restore_loop (st_entries st) (st_changes st) target"

section \<open>The table as a map\<close>

interpretation symtab: open_table SYMBOL_TABLE_SIZE sy_occupied sy_name
  by unfold_locales (rule exI [of _ 12], simp add: SYMBOL_TABLE_SIZE_def)

definition symbols_ok :: "symbol_table \<Rightarrow> bool" where
  "symbols_ok st \<longleftrightarrow> table_ok SYMBOL_TABLE_SIZE sy_occupied sy_name (st_entries st)"

definition symbol_map :: "symbol_table \<Rightarrow> string \<Rightarrow> symbol option" where
  "symbol_map st = table_map SYMBOL_TABLE_SIZE sy_occupied sy_name (st_entries st)"

lemma symbols_ok_empty [simp]: "symbols_ok empty_symbol_table"
  unfolding symbols_ok_def by (rule symtab.ok_empty) (simp add: empty_symbol_table_def zero_symbol_def)

lemma symbol_map_empty [simp]: "symbol_map empty_symbol_table nm = None"
  unfolding symbol_map_def by (rule symtab.map_empty) (simp add: empty_symbol_table_def zero_symbol_def)

lemma lookup_symbol_map:
  "map_option (st_entries st) (symbol_table_lookup st nm) = symbol_map st nm"
  by (simp add: symbol_table_lookup_def symbol_map_def table_map_def split: option.split)

lemma symbol_lookup_Some:
  "symbol_table_lookup st nm = Some c \<Longrightarrow> c < SYMBOL_TABLE_SIZE \<and> sy_occupied (st_entries st c) \<and>
     sy_name (st_entries st c) = nm \<and> symbol_map st nm = Some (st_entries st c) \<and>
     symbol_find (st_entries st) nm = Some c"
  using symtab.find_hit [of "st_entries st" nm c] symtab.find_less [of "st_entries st" nm c]
  by (auto simp: symbol_table_lookup_def symbol_map_def table_map_def split: option.splits if_splits)

lemma symbol_table_add_map:
  assumes "symbols_ok st" "symbol_table_add st nm v = Ret st'"
  shows "symbols_ok st' \<and> symbol_map st' = (symbol_map st)(nm \<mapsto>
    \<lparr>sy_name = nm, sy_index = v, sy_is_stack = False, sy_occupied = True\<rparr>)"
proof -
  let ?s = "\<lparr>sy_name = nm, sy_index = v, sy_is_stack = False, sy_occupied = True\<rparr>"
  from assms(2) obtain c where c: "symbol_find (st_entries st) nm = Some c"
      and st': "st_entries st' = (st_entries st)(c := ?s)"
    by (auto simp: symbol_table_add_def split: option.splits)
  show ?thesis
    using symtab.ok_update [of _ nm c ?s] symtab.map_update [of _ nm c ?s] assms(1) c
    by (simp add: symbols_ok_def symbol_map_def st')
qed

lemma symbol_set_stack_map:
  assumes "symbols_ok st" "symbol_table_lookup st nm = Some c"
  shows "symbols_ok (symbol_set_stack st c) \<and>
    symbol_map (symbol_set_stack st c) = (symbol_map st)(nm \<mapsto> (st_entries st c)\<lparr>sy_is_stack := True\<rparr>)"
  using symbol_lookup_Some [OF assms(2)] assms(1)
    symtab.ok_update [of "st_entries st" nm c "(st_entries st c)\<lparr>sy_is_stack := True\<rparr>"]
    symtab.map_update [of "st_entries st" nm c "(st_entries st c)\<lparr>sy_is_stack := True\<rparr>"]
  by (simp add: symbols_ok_def symbol_map_def symbol_set_stack_def)

text \<open>Insertion fails only in a table whose 4096 slots hold other names.\<close>

lemma symbol_table_add_Exited:
  "symbol_table_add st nm v = Fault e \<Longrightarrow>
   e = Exited \<and> (\<forall>c < SYMBOL_TABLE_SIZE. sy_occupied (st_entries st c) \<and> sy_name (st_entries st c) \<noteq> nm)"
  using symtab.find_None_full by (auto simp: symbol_table_add_def split: option.splits)

section \<open>The undo log\<close>

text \<open>
  \<open>since cs st st'\<close>: \<open>st'\<close> was reached from \<open>st\<close> by logged changes, so that undoing the part of its
  log that is newer than that of \<open>st\<close> gives the entries of \<open>st\<close> back.
\<close>

fun undo :: "scope_change list \<Rightarrow> (nat \<Rightarrow> symbol) \<Rightarrow> nat \<Rightarrow> symbol" where
  "undo [] es = es"
| "undo (c # cs) es = undo cs (es(ch_index c := ch_previous c))"

definition since :: "symbol_table \<Rightarrow> symbol_table \<Rightarrow> bool" where
  "since st st' \<longleftrightarrow> (\<exists>cs. st_changes st' = cs @ st_changes st \<and> undo cs (st_entries st') = st_entries st)"

lemma since_refl [simp]: "since st st"
  by (auto simp: since_def intro: exI [of _ "[]"])

lemma undo_append: "undo (as @ bs) es = undo bs (undo as es)"
  by (induction as arbitrary: es) simp_all

lemma since_trans [trans]: "since a b \<Longrightarrow> since b c \<Longrightarrow> since a c"
  unfolding since_def by (metis append.assoc undo_append)

lemma since_add: "symbol_table_add st nm v = Ret st' \<Longrightarrow> since st st'"
  by (auto simp: symbol_table_add_def since_def split: option.splits intro!: exI [of _ "[c]" for c])

text \<open>Writing to a slot whose old contents are logged is undone as well.\<close>

lemma undo_logged: "i \<in> ch_index ` set cs \<Longrightarrow> undo cs (es(i := s)) = undo cs es"
proof (induction cs arbitrary: es)
  case (Cons c cs)
  show ?case
  proof (cases "i = ch_index c")
    case True
    then show ?thesis by (simp only: undo.simps fun_upd_upd)
  next
    case False
    then have "i \<in> ch_index ` set cs" using Cons.prems by auto
    then show ?thesis
      unfolding undo.simps fun_upd_twist [OF False] by (rule Cons.IH)
  qed
qed simp

lemma since_add_set_stack:
  assumes "symbol_table_add st nm v = Ret st'" "symbol_table_lookup st' nm = Some c" "symbols_ok st"
  shows "since st (symbol_set_stack st' c)"
proof -
  from assms(1) obtain d where d: "symbol_find (st_entries st) nm = Some d"
      and st': "st_entries st' = (st_entries st)(d :=
        \<lparr>sy_name = nm, sy_index = v, sy_is_stack = False, sy_occupied = True\<rparr>)"
        "st_changes st' = \<lparr>ch_index = d, ch_previous = st_entries st d\<rparr> # st_changes st"
    by (auto simp: symbol_table_add_def split: option.splits)
  have "symbol_find (st_entries st') nm = Some d"
    unfolding st' by (rule symtab.find_update_same [OF d]) simp_all
  then have "c = d" using symbol_lookup_Some [OF assms(2)] by simp
  then show ?thesis
    by (auto simp: since_def symbol_set_stack_def st' intro!: exI [of _ "[x]" for x])
qed

lemma restore_loop_undo: "restore_loop es (cs @ target) target = Ret \<lparr>st_entries = undo cs es, st_changes = target\<rparr>"
  by (induction cs arbitrary: es) (subst restore_loop.simps, simp)+

lemma symbol_table_restore_exact: "since st st' \<Longrightarrow> symbol_table_restore st' (st_changes st) = Ret st"
  by (auto simp: since_def symbol_table_restore_def restore_loop_undo)

end
