(* ===== verification/IrGen.thy ===== *)
theory IrGen
  imports Ir SymbolTable
begin

text \<open>
  The IR generator, \<open>srcs/ir/ir_gen.c\<close>. The function under construction, the symbol table and the
  \<open>last_reg\<close> out-parameter are passed together as a \<open>gen\<close> record. A result register of \<open>0\<close> means
  failure, as in the code.
\<close>

record gen =
  g_fun :: ir_function
  g_symbols :: symbol_table
  g_last_reg :: nat

definition g_emit :: "instr \<Rightarrow> gen \<Rightarrow> gen" where
  "g_emit i g = g\<lparr>g_fun := emit i (g_fun g)\<rparr>"

definition g_error :: "int \<Rightarrow> int \<Rightarrow> string \<Rightarrow> gen \<Rightarrow> gen" where
  "g_error ln col text g = g\<lparr>g_fun := codegen_error ln col text (g_fun g)\<rparr>"

definition g_alloc :: "gen \<Rightarrow> nat option \<times> gen" where
  "g_alloc g = (let (r, f) = ir_alloc_vreg (g_fun g) in (r, g\<lparr>g_fun := f\<rparr>))"

text \<open>\<open>f->label_count++\<close> and \<open>f->stack_count++\<close>.\<close>

definition g_label :: "gen \<Rightarrow> nat \<times> gen" where
  "g_label g = (if_label_count (g_fun g),
                g\<lparr>g_fun := (g_fun g)\<lparr>if_label_count := if_label_count (g_fun g) + 1\<rparr>\<rparr>)"

definition g_stack :: "gen \<Rightarrow> nat \<times> gen" where
  "g_stack g = (if_stack_count (g_fun g),
                g\<lparr>g_fun := (g_fun g)\<lparr>if_stack_count := if_stack_count (g_fun g) + 1\<rparr>\<rparr>)"

section \<open>Expressions\<close>

type_synonym 'a generated = "('a \<times> gen) outcome"

text \<open>\<open>if (!ir_alloc_vreg(f, &r)) return (0);\<close> followed by \<open>k\<close>.\<close>

definition with_vreg :: "gen \<Rightarrow> (nat \<Rightarrow> gen \<Rightarrow> nat generated) \<Rightarrow> nat generated" where
  "with_vreg g k = (case g_alloc g of (None, g) \<Rightarrow> Ret (0, g) | (Some r, g) \<Rightarrow> k r g)"

definition gen_number :: "gen \<Rightarrow> node_info \<Rightarrow> string \<Rightarrow> nat generated" where
  "gen_number g i value =
     with_vreg g (\<lambda>reg g.
       Ret (reg, g_emit ((instr_of IR_CONST (value_type i))\<lparr>in_dest := reg, in_imm := sv_to_int64 value\<rparr>) g))"

definition gen_identifier :: "gen \<Rightarrow> node_info \<Rightarrow> string \<Rightarrow> nat generated" where
  "gen_identifier g i name =
     (case symbol_table_lookup (g_symbols g) name of
        None \<Rightarrow> Ret (0, g_error (node_line i) (node_column i) (''undefined variable '' @ quoted name) g)
      | Some cur \<Rightarrow>
          let sym = st_entries (g_symbols g) cur in
          if sy_is_stack sym then
            with_vreg g (\<lambda>temp_reg g.
              Ret (temp_reg, g_emit ((instr_of IR_LOAD (value_type i))
                \<lparr>in_dest := temp_reg, in_src1 := sy_index sym\<rparr>) g))
          else Ret (sy_index sym, g))"

fun unary_opcode :: "unary_type \<Rightarrow> opcode" where
  "unary_opcode AST_NEGATE = IR_NEG"
| "unary_opcode AST_NOT = IR_NOT"
| "unary_opcode AST_BIT_NOT = IR_BNOT"

text \<open>The opcode of a binary node whose left operand has type \<open>t\<close>.\<close>

fun binary_opcode :: "binary_type \<Rightarrow> data_type \<Rightarrow> opcode" where
  "binary_opcode AST_ADD t = IR_ADD"
| "binary_opcode AST_SUB t = IR_SUB"
| "binary_opcode AST_MUL t = IR_MUL"
| "binary_opcode AST_DIV t = IR_DIV"
| "binary_opcode AST_EQUAL t = IR_EQ"
| "binary_opcode AST_NOT_EQUAL t = IR_NEQ"
| "binary_opcode AST_LESS t = IR_LT"
| "binary_opcode AST_LESS_EQUAL t = IR_LE"
| "binary_opcode AST_GREATER t = IR_GT"
| "binary_opcode AST_GREATER_EQUAL t = IR_GE"
| "binary_opcode AST_LSHIFT t = IR_LSHIFT"
| "binary_opcode AST_RSHIFT t = (if type_is_unsigned t then IR_URSHIFT else IR_RSHIFT)"
| "binary_opcode AST_BIT_AND t = IR_BAND"
| "binary_opcode AST_BIT_OR t = IR_BOR"
| "binary_opcode AST_BIT_XOR t = IR_BXOR"

text \<open>The second loop of \<open>gen_call\<close>.\<close>

fun emit_args :: "gen \<Rightarrow> nat \<Rightarrow> ast list \<Rightarrow> nat list \<Rightarrow> gen outcome" where
  "emit_args g i (arg # args) (r # rs) =
     obind (node_type_of arg) (\<lambda>t.
       emit_args (g_emit ((instr_of IR_ARG t)\<lparr>in_src1 := r, in_imm := int i\<rparr>) g) (Suc i) args rs)"
| "emit_args g i _ _ = Ret g"

fun gen_expression :: "gen \<Rightarrow> ast \<Rightarrow> nat generated"
  and gen_args :: "gen \<Rightarrow> nat \<Rightarrow> ast list \<Rightarrow> nat list option generated" where
  "gen_expression g AstNull = Ret (0, g)"
| "gen_expression g (AstNumber i value) = gen_number g i value"
| "gen_expression g (AstIdentifier i name) = gen_identifier g i name"
| "gen_expression g (AstCall i name args) =
     obind (gen_args g 0 args) (\<lambda>(regs, g).
     case regs of
       None \<Rightarrow> Ret (0, g)
     | Some rs \<Rightarrow>
         obind (emit_args g 0 args rs) (\<lambda>g.
         with_vreg g (\<lambda>result_reg g.
           Ret (result_reg, g_emit ((instr_of IR_CALL (value_type i))
             \<lparr>in_dest := result_reg, in_func := name\<rparr>) g))))"
| "gen_expression g (AstUnary op i e) =
     obind (gen_expression g e) (\<lambda>(operand, g).
     if operand = 0 then Ret (0, g)
     else with_vreg g (\<lambda>dest g.
       Ret (dest, g_emit ((instr_of (unary_opcode op) (value_type i))\<lparr>in_dest := dest, in_src1 := operand\<rparr>) g)))"
| "gen_expression g (AstBinary op i l r) =
     obind (gen_expression g l) (\<lambda>(left, g).
     if left = 0 then Ret (0, g)
     else obind (gen_expression g r) (\<lambda>(right, g).
       if right = 0 then Ret (0, g)
       else with_vreg g (\<lambda>dest g.
         obind (node_type_of l) (\<lambda>t.
         Ret (dest, g_emit ((instr_of (binary_opcode op t) (value_type i))
           \<lparr>in_dest := dest, in_src1 := left, in_src2 := right\<rparr>) g)))))"
| "gen_expression g node =
     obind (node_info_of node) (\<lambda>i.
       Ret (0, g_error (node_line i) (node_column i) ''statement node in expression context'' g))"
| "gen_args g n [] = Ret (Some [], g)"
| "gen_args g n (arg # args) =
     obind (gen_expression g arg) (\<lambda>(r, g).
     if n \<ge> MAX_PARAMS_PER_FUNCTION then Fault OutOfBounds
     else if r = 0 then Ret (None, g)
     else obind (gen_args g (Suc n) args) (\<lambda>(regs, g). Ret (map_option ((#) r) regs, g)))"

section \<open>Statements\<close>

definition gen_var_decl :: "gen \<Rightarrow> string \<Rightarrow> data_type \<Rightarrow> ast \<Rightarrow> gen outcome" where
  "gen_var_decl g name ty init =
     (let (stack_idx, g) = g_stack g;
          store = (\<lambda>init_reg g.
            Ret ((g_emit ((instr_of IR_STORE ty)\<lparr>in_dest := stack_idx, in_src1 := init_reg\<rparr>) g)
              \<lparr>g_last_reg := init_reg\<rparr>)) in
      obind (symbol_table_add (g_symbols g) name stack_idx) (\<lambda>st.
      let st = (case symbol_table_lookup st name of None \<Rightarrow> st | Some cur \<Rightarrow> symbol_set_stack st cur);
          g = g\<lparr>g_symbols := st\<rparr> in
      if init \<noteq> AstNull then
        obind (gen_expression g init) (\<lambda>(init_reg, g).
          if init_reg = 0 then Ret g else store init_reg g)
      else
        (case g_alloc g of
           (None, g) \<Rightarrow> Ret g
         | (Some init_reg, g) \<Rightarrow>
             store init_reg (g_emit ((instr_of IR_CONST ty)\<lparr>in_dest := init_reg, in_imm := 0\<rparr>) g))))"

definition gen_assignment :: "gen \<Rightarrow> node_info \<Rightarrow> string \<Rightarrow> ast \<Rightarrow> gen outcome" where
  "gen_assignment g i name value =
     (case symbol_table_lookup (g_symbols g) name of
        None \<Rightarrow> Ret (g_error (node_line i) (node_column i)
          (''assignment to undefined variable '' @ quoted name) g)
      | Some cur \<Rightarrow>
          obind (gen_expression g value) (\<lambda>(val_reg, g).
          if val_reg = 0 then Ret g
          else
            let sym = st_entries (g_symbols g) cur in
            Ret ((g_emit ((instr_of (if sy_is_stack sym then IR_STORE else IR_MOV) (value_type i))
              \<lparr>in_dest := sy_index sym, in_src1 := val_reg\<rparr>) g)\<lparr>g_last_reg := val_reg\<rparr>)))"

definition gen_return :: "gen \<Rightarrow> node_info \<Rightarrow> ast \<Rightarrow> gen outcome" where
  "gen_return g i e =
     obind (gen_expression g e) (\<lambda>(ret_reg, g).
     if ret_reg = 0 then Ret g
     else Ret (g_emit ((instr_of IR_RET (value_type i))\<lparr>in_src1 := ret_reg\<rparr>) g))"

text \<open>
  Control instructions carry a label. The routines that generate nested statements take the
  statement generator as an argument, and \<open>gen_statement\<close> ties the knot.
\<close>

definition jump_to :: "opcode \<Rightarrow> data_type \<Rightarrow> nat \<Rightarrow> nat \<Rightarrow> instr" where
  "jump_to op ty src label = (instr_of op ty)\<lparr>in_src1 := src, in_label := label\<rparr>"

definition gen_if :: "(gen \<Rightarrow> ast \<Rightarrow> gen outcome) \<Rightarrow> gen \<Rightarrow> ast \<Rightarrow> ast \<Rightarrow> ast \<Rightarrow> gen outcome" where
  "gen_if statement g c t e =
     obind (gen_expression g c) (\<lambda>(cond_reg, g).
     obind (node_type_of c) (\<lambda>cond_type.
     if e \<noteq> AstNull then
       let (label_else, g) = g_label g; (label_end, g) = g_label g in
       if cond_reg = 0 then Ret g
       else
         obind (statement (g_emit (jump_to IR_JZ cond_type cond_reg label_else) g) t) (\<lambda>g.
         let g = g_emit (jump_to IR_JMP TYPE_VOID 0 label_end) g;
             g = g_emit (jump_to IR_LABEL TYPE_VOID 0 label_else) g in
         obind (statement g e) (\<lambda>g. Ret (g_emit (jump_to IR_LABEL TYPE_VOID 0 label_end) g)))
     else
       let (label_end, g) = g_label g in
       if cond_reg = 0 then Ret g
       else
         obind (statement (g_emit (jump_to IR_JZ cond_type cond_reg label_end) g) t) (\<lambda>g.
           Ret (g_emit (jump_to IR_LABEL TYPE_VOID 0 label_end) g))))"

definition gen_while :: "(gen \<Rightarrow> ast \<Rightarrow> gen outcome) \<Rightarrow> gen \<Rightarrow> ast \<Rightarrow> ast \<Rightarrow> gen outcome" where
  "gen_while statement g c b =
     (let (label_start, g) = g_label g; (label_end, g) = g_label g in
      obind (node_type_of c) (\<lambda>cond_type.
      let g = g_emit (jump_to IR_LABEL TYPE_VOID 0 label_start) g in
      obind (gen_expression g c) (\<lambda>(cond_reg, g).
      if cond_reg = 0 then Ret g
      else
        obind (statement (g_emit (jump_to IR_JZ cond_type cond_reg label_end) g) b) (\<lambda>g.
        let g = g_emit (jump_to IR_JMP TYPE_VOID 0 label_start) g in
        Ret (g_emit (jump_to IR_LABEL TYPE_VOID 0 label_end) g)))))"

definition gen_block :: "(gen \<Rightarrow> ast list \<Rightarrow> gen outcome) \<Rightarrow> gen \<Rightarrow> ast list \<Rightarrow> gen outcome" where
  "gen_block statements g ss =
     (let watermark = st_changes (g_symbols g) in
      obind (statements g ss) (\<lambda>g.
      obind (symbol_table_restore (g_symbols g) watermark) (\<lambda>st. Ret (g\<lparr>g_symbols := st\<rparr>))))"

lemma gen_if_cong [fundef_cong]:
  "g = g' \<Longrightarrow> c = c' \<Longrightarrow> t = t' \<Longrightarrow> e = e' \<Longrightarrow> (\<And>h. st h t' = st' h t') \<Longrightarrow> (\<And>h. st h e' = st' h e') \<Longrightarrow>
   gen_if st g c t e = gen_if st' g' c' t' e'"
  by (simp add: gen_if_def Let_def cong: prod.case_cong if_cong)

lemma gen_while_cong [fundef_cong]:
  "g = g' \<Longrightarrow> c = c' \<Longrightarrow> b = b' \<Longrightarrow> (\<And>h. st h b' = st' h b') \<Longrightarrow> gen_while st g c b = gen_while st' g' c' b'"
  by (simp add: gen_while_def Let_def cong: prod.case_cong if_cong)

lemma gen_block_cong [fundef_cong]:
  "g = g' \<Longrightarrow> ss = ss' \<Longrightarrow> (\<And>h. st h ss' = st' h ss') \<Longrightarrow> gen_block st g ss = gen_block st' g' ss'"
  by (simp add: gen_block_def Let_def cong: prod.case_cong if_cong)

fun gen_statement :: "gen \<Rightarrow> ast \<Rightarrow> gen outcome"
  and gen_statements :: "gen \<Rightarrow> ast list \<Rightarrow> gen outcome" where
  "gen_statement g AstNull = Ret g"
| "gen_statement g (AstVarDecl i name ty init) = gen_var_decl g name ty init"
| "gen_statement g (AstAssignment i name value) = gen_assignment g i name value"
| "gen_statement g (AstReturn i e) = gen_return g i e"
| "gen_statement g (AstBlock i ss) = gen_block gen_statements g ss"
| "gen_statement g (AstIf i c t e) = gen_if gen_statement g c t e"
| "gen_statement g (AstWhile i c b) = gen_while gen_statement g c b"
| "gen_statement g node =
     obind (gen_expression g node) (\<lambda>(r, g). Ret (g\<lparr>g_last_reg := r\<rparr>))"
| "gen_statements g [] = Ret g"
| "gen_statements g (s # ss) = obind (gen_statement g s) (\<lambda>g. gen_statements g ss)"

section \<open>Functions\<close>

text \<open>The parameter loop; \<open>None\<close> is the early \<open>return (NULL)\<close>.\<close>

fun gen_params :: "gen \<Rightarrow> parameter list \<Rightarrow> gen option generated" where
  "gen_params g [] = Ret (Some g, g)"
| "gen_params g (p # ps) =
     (case g_alloc g of
        (None, g) \<Rightarrow> Ret (None, g)
      | (Some vreg, g) \<Rightarrow>
          obind (symbol_table_add (g_symbols g) (param_name p) vreg) (\<lambda>st.
            gen_params (g\<lparr>g_symbols := st\<rparr>) ps))"

text \<open>
  \<open>arena_alloc\<close> does not clear the memory it returns and \<open>ir_gen\<close> never assigns
  \<open>stack_count\<close> and, unless the root is a function, \<open>name\<close>: both start as whatever the memory
  holds, the arguments \<open>stack\<close> and \<open>name\<close> of \<open>ir_function_init\<close>.
\<close>

definition ir_function_init :: "nat \<Rightarrow> string \<Rightarrow> error_context \<Rightarrow> string \<Rightarrow> ir_function" where
  "ir_function_init stack name errors filename =
     \<lparr>if_chunks = [], if_total_count = 0, if_vreg_count = 1, if_stack_count = stack, if_label_count = 0,
      if_name = name, if_errors = errors, if_filename = filename\<rparr>"

definition gen_init :: "ir_function \<Rightarrow> gen" where
  "gen_init f = \<lparr>g_fun = f, g_symbols = empty_symbol_table, g_last_reg = 0\<rparr>"

text \<open>The final limit check; the result is the function, or \<open>None\<close> for NULL, with the diagnostics.\<close>

definition ir_finish :: "gen \<Rightarrow> (ir_function option \<times> error_context) outcome" where
  "ir_finish g =
     (let f = g_fun g in
      if if_total_count f \<ge> MAX_IR_INSTRUCTIONS_PER_FUNCTION then
        Ret (None, if_errors (codegen_error 0 0
          (''function '' @ quoted (if_name f) @ '' exceeds IR instruction limit ('' @
           fmt_nat MAX_IR_INSTRUCTIONS_PER_FUNCTION @ '')'') f))
      else Ret (Some f, if_errors f))"

fun ir_gen ::
  "nat \<Rightarrow> string \<Rightarrow> ast \<Rightarrow> error_context \<Rightarrow> string \<Rightarrow> (ir_function option \<times> error_context) outcome" where
  "ir_gen stack junk AstNull errors filename = Ret (None, errors)"
| "ir_gen stack junk (AstFunction i name ret params body proto) errors filename =
     obind (gen_params (gen_init (ir_function_init stack name errors filename)) params) (\<lambda>(r, g).
     case r of
       None \<Rightarrow> Ret (None, if_errors (g_fun g))
     | Some g \<Rightarrow>
         obind (case body of AstBlock _ ss \<Rightarrow> gen_statements g ss | _ \<Rightarrow> Ret g) ir_finish)"
| "ir_gen stack junk (AstBlock i ss) errors filename =
     obind (gen_statements (gen_init (ir_function_init stack junk errors filename)) ss) ir_finish"
| "ir_gen stack junk root errors filename =
     obind (gen_expression (gen_init (ir_function_init stack junk errors filename)) root) (\<lambda>(r, g).
     if r = 0 then Ret (None, if_errors (g_fun g))
     else obind (node_type_of root) (\<lambda>t.
       ir_finish (g_emit ((instr_of IR_RET t)\<lparr>in_src1 := r\<rparr>) g)))"

end
