(* ===== verification/IrGenFacts.thy ===== *)
theory IrGenFacts
  imports IrGen "HOL-Library.Sublist"
begin

text \<open>
  The code that \<open>ir_gen\<close> produces is well formed: registers, stack slots and labels are in range,
  every value register is defined once, every label is placed at most once, every jump goes to a
  placed label, and each block leaves the symbol table as it found it. All this is one invariant,
  \<open>gen_inv\<close>, that every generator routine keeps. Two ghost sets make the labels compositional:
  \<open>R\<close> holds labels that are reserved but not placed yet, and \<open>J\<close> the labels that may be jumped to
  before they are placed.
\<close>

section \<open>Well-formed instructions\<close>

definition defines_vreg :: "opcode \<Rightarrow> bool" where
  "defines_vreg op \<longleftrightarrow> op \<notin> {IR_STORE, IR_MOV, IR_ARG, IR_LABEL, IR_JMP, IR_JZ, IR_JNZ, IR_RET}"

definition is_jump :: "opcode \<Rightarrow> bool" where
  "is_jump op \<longleftrightarrow> op \<in> {IR_JMP, IR_JZ, IR_JNZ}"

definition defs :: "instr list \<Rightarrow> nat list" where
  "defs is = map in_dest (filter (\<lambda>i. defines_vreg (in_op i)) is)"

definition labels :: "instr list \<Rightarrow> nat list" where
  "labels is = map in_label (filter (\<lambda>i. in_op i = IR_LABEL) is)"

definition targets :: "instr list \<Rightarrow> nat set" where
  "targets is = {in_label i | i. i \<in> set is \<and> is_jump (in_op i)}"

text \<open>The registers an instruction reads; a label, a jump and the like read none.\<close>

definition reads :: "instr \<Rightarrow> nat set" where
  "reads i = (if in_op i \<in> {IR_CONST, IR_CALL, IR_LOAD, IR_LABEL, IR_JMP} then {}
              else if in_op i \<in> {IR_STORE, IR_ARG, IR_JZ, IR_JNZ, IR_RET, IR_NEG, IR_NOT, IR_BNOT, IR_MOV}
              then {in_src1 i} else {in_src1 i, in_src2 i})"

text \<open>
  \<open>reads_ok P is\<close>: what is read is a parameter (a register below \<open>P\<close>) or was defined earlier.
\<close>

definition reads_ok :: "nat \<Rightarrow> instr list \<Rightarrow> bool" where
  "reads_ok P is \<longleftrightarrow> (\<forall>k < length is. reads (is ! k) \<subseteq> {1..<P} \<union> set (defs (take k is)))"

lemma reads_ok_snoc [simp]:
  "reads_ok P (is @ [i]) \<longleftrightarrow> reads_ok P is \<and> reads i \<subseteq> {1..<P} \<union> set (defs is)"
  by (auto simp: reads_ok_def nth_append less_Suc_eq)

lemma reads_ok_Nil [simp]: "reads_ok P []"
  by (simp add: reads_ok_def)

lemma code_snoc [simp]:
  "defs (is @ [i]) = (if defines_vreg (in_op i) then defs is @ [in_dest i] else defs is)"
  "labels (is @ [i]) = (if in_op i = IR_LABEL then labels is @ [in_label i] else labels is)"
  "targets (is @ [i]) = (if is_jump (in_op i) then insert (in_label i) (targets is) else targets is)"
  by (auto simp: defs_def labels_def targets_def)

lemma code_Nil [simp]: "defs [] = []" "labels [] = []" "targets [] = {}"
  by (simp_all add: defs_def labels_def targets_def)

text \<open>
  \<open>instr_ok V S0 S L i\<close>: operands are registers in \<open>{1..<V}\<close>, stack slots in \<open>{S0..<S}\<close> and labels
  below \<open>L\<close>, as the opcode requires.
\<close>

definition instr_ok :: "nat \<Rightarrow> nat \<Rightarrow> nat \<Rightarrow> nat \<Rightarrow> instr \<Rightarrow> bool" where
  "instr_ok V S0 S L i \<longleftrightarrow>
     (let vreg = (\<lambda>r. r \<in> {1..<V}); slot = (\<lambda>s. s \<in> {S0..<S}) in
      case in_op i of
        IR_CONST \<Rightarrow> vreg (in_dest i)
      | IR_CALL \<Rightarrow> vreg (in_dest i)
      | IR_LOAD \<Rightarrow> vreg (in_dest i) \<and> slot (in_src1 i)
      | IR_STORE \<Rightarrow> slot (in_dest i) \<and> vreg (in_src1 i)
      | IR_ARG \<Rightarrow> vreg (in_src1 i) \<and> 0 \<le> in_imm i \<and> in_imm i < int MAX_PARAMS_PER_FUNCTION
      | IR_LABEL \<Rightarrow> in_label i < L
      | IR_JMP \<Rightarrow> in_label i < L
      | IR_JZ \<Rightarrow> vreg (in_src1 i) \<and> in_label i < L
      | IR_JNZ \<Rightarrow> vreg (in_src1 i) \<and> in_label i < L
      | IR_RET \<Rightarrow> vreg (in_src1 i)
      | IR_NEG \<Rightarrow> vreg (in_dest i) \<and> vreg (in_src1 i)
      | IR_NOT \<Rightarrow> vreg (in_dest i) \<and> vreg (in_src1 i)
      | IR_BNOT \<Rightarrow> vreg (in_dest i) \<and> vreg (in_src1 i)
      | IR_MOV \<Rightarrow> vreg (in_dest i) \<and> vreg (in_src1 i)
      | _ \<Rightarrow> vreg (in_dest i) \<and> vreg (in_src1 i) \<and> vreg (in_src2 i))"

lemma instr_ok_mono:
  "instr_ok V S0 S L i \<Longrightarrow> V \<le> V' \<Longrightarrow> S \<le> S' \<Longrightarrow> L \<le> L' \<Longrightarrow> instr_ok V' S0 S' L' i"
  by (cases "in_op i") (auto simp: instr_ok_def Let_def)

lemma code_ok_mono:
  "list_all (instr_ok V S0 S L) is \<Longrightarrow> V \<le> V' \<Longrightarrow> S \<le> S' \<Longrightarrow> L \<le> L' \<Longrightarrow>
   list_all (instr_ok V' S0 S' L') is"
  by (auto simp: list_all_iff intro: instr_ok_mono)

section \<open>The invariant\<close>

definition symbols_bound :: "nat \<Rightarrow> nat \<Rightarrow> nat \<Rightarrow> symbol_table \<Rightarrow> bool" where
  "symbols_bound S0 P S st \<longleftrightarrow> (\<forall>nm s. symbol_map st nm = Some s \<longrightarrow>
     (if sy_is_stack s then sy_index s \<in> {S0..<S} else sy_index s \<in> {1..<P}))"

text \<open>\<open>S0\<close> is the initial stack count, \<open>P\<close> the first register that is not a parameter.\<close>

definition fun_inv :: "nat \<Rightarrow> nat \<Rightarrow> nat set \<Rightarrow> nat set \<Rightarrow> ir_function \<Rightarrow> bool" where
  "fun_inv S0 P R J f \<longleftrightarrow>
     (let code = ir_code f in
      chunks_ok f \<and> if_vreg_count f \<le> MAX_VREGS_PER_FUNCTION \<and>
      1 \<le> P \<and> P \<le> if_vreg_count f \<and> S0 \<le> if_stack_count f \<and>
      list_all (instr_ok (if_vreg_count f) S0 (if_stack_count f) (if_label_count f)) code \<and>
      reads_ok P code \<and> distinct (defs code) \<and> set (defs code) \<subseteq> {P..<if_vreg_count f} \<and>
      distinct (labels code) \<and> set (labels code) \<subseteq> {..<if_label_count f} - R \<and>
      R \<subseteq> {..<if_label_count f} \<and> (room f \<longrightarrow> targets code \<subseteq> set (labels code) \<union> J))"

definition gen_inv :: "nat \<Rightarrow> nat \<Rightarrow> nat set \<Rightarrow> nat set \<Rightarrow> gen \<Rightarrow> bool" where
  "gen_inv S0 P R J g \<longleftrightarrow> fun_inv S0 P R J (g_fun g) \<and> symbols_ok (g_symbols g) \<and>
     symbols_bound S0 P (if_stack_count (g_fun g)) (g_symbols g)"

text \<open>What a routine leaves alone or only extends.\<close>

definition gen_frame :: "gen \<Rightarrow> gen \<Rightarrow> bool" where
  "gen_frame g h \<longleftrightarrow> prefix (ir_code (g_fun g)) (ir_code (g_fun h)) \<and>
     if_total_count (g_fun g) \<le> if_total_count (g_fun h) \<and>
     if_vreg_count (g_fun g) \<le> if_vreg_count (g_fun h) \<and> if_stack_count (g_fun g) \<le> if_stack_count (g_fun h) \<and>
     if_label_count (g_fun g) \<le> if_label_count (g_fun h) \<and> if_name (g_fun h) = if_name (g_fun g) \<and>
     if_filename (g_fun h) = if_filename (g_fun g) \<and> extends (if_errors (g_fun g)) (if_errors (g_fun h)) \<and>
     since (g_symbols g) (g_symbols h)"

lemma gen_frame_refl [simp]: "gen_frame g g"
  by (simp add: gen_frame_def)

lemma gen_frame_trans [trans]: "gen_frame a b \<Longrightarrow> gen_frame b c \<Longrightarrow> gen_frame a c"
  by (auto simp: gen_frame_def intro: extends_trans since_trans)

lemma gen_frame_counts:
  "gen_frame g h \<Longrightarrow> if_vreg_count (g_fun g) \<le> if_vreg_count (g_fun h)"
  "gen_frame g h \<Longrightarrow> if_stack_count (g_fun g) \<le> if_stack_count (g_fun h)"
  "gen_frame g h \<Longrightarrow> if_label_count (g_fun g) \<le> if_label_count (g_fun h)"
  by (simp_all add: gen_frame_def)

lemma room_back: "gen_frame g h \<Longrightarrow> room (g_fun h) \<Longrightarrow> room (g_fun g)"
  by (simp add: gen_frame_def room_def)

lemma labels_kept: "gen_frame g h \<Longrightarrow> set (labels (ir_code (g_fun g))) \<subseteq> set (labels (ir_code (g_fun h)))"
  by (auto simp: gen_frame_def prefix_def labels_def)

lemma defs_kept: "gen_frame g h \<Longrightarrow> set (defs (ir_code (g_fun g))) \<subseteq> set (defs (ir_code (g_fun h)))"
  by (auto simp: gen_frame_def prefix_def defs_def)

text \<open>A register an instruction may read next; past the instruction limit nothing is emitted.\<close>

definition readable :: "nat \<Rightarrow> nat \<Rightarrow> gen \<Rightarrow> bool" where
  "readable P r g \<longleftrightarrow> r \<in> {1..<if_vreg_count (g_fun g)} \<and>
     (room (g_fun g) \<longrightarrow> r \<in> {1..<P} \<union> set (defs (ir_code (g_fun g))))"

lemma readable_kept: "readable P r g \<Longrightarrow> gen_frame g h \<Longrightarrow> readable P r h"
  using defs_kept [of g h] gen_frame_counts [of g h] room_back [of g h]
  by (auto simp: readable_def)

section \<open>Elementary steps\<close>

lemma g_fun_simps [simp]:
  "g_fun (g_emit i g) = emit i (g_fun g)" "g_symbols (g_emit i g) = g_symbols g"
  "g_fun (g_error ln c t g) = codegen_error ln c t (g_fun g)" "g_symbols (g_error ln c t g) = g_symbols g"
  by (simp_all add: g_emit_def g_error_def)

lemma symbols_bound_mono: "symbols_bound S0 P S st \<Longrightarrow> P \<le> P' \<Longrightarrow> S \<le> S' \<Longrightarrow> symbols_bound S0 P' S' st"
  unfolding symbols_bound_def by (meson atLeastLessThan_iff less_le_trans)

lemma symbols_bound_upd:
  "symbols_bound S0 P S st \<Longrightarrow> symbol_map st' = (symbol_map st)(nm \<mapsto> s) \<Longrightarrow>
   (if sy_is_stack s then sy_index s \<in> {S0..<S} else sy_index s \<in> {1..<P}) \<Longrightarrow> symbols_bound S0 P S st'"
  unfolding symbols_bound_def by (metis fun_upd_apply option.inject)

lemma emit_prefix: "prefix (ir_code f) (ir_code (emit i f))"
  by (cases "room f") (simp_all add: emit_code emit_full)

lemma frame_emit: "gen_frame g (g_emit i g)"
  by (simp add: gen_frame_def emit_prefix emit_total)

lemma frame_error: "gen_frame g (g_error ln c t g)"
  by (simp add: gen_frame_def) (simp add: codegen_error_def)

lemma inv_error: "gen_inv S0 P R J g \<Longrightarrow> gen_inv S0 P R J (g_error ln c t g)"
  by (simp add: gen_inv_def fun_inv_def Let_def)

lemma inv_last_reg [simp]: "gen_inv S0 P R J (g\<lparr>g_last_reg := r\<rparr>) = gen_inv S0 P R J g"
    "gen_frame g (h\<lparr>g_last_reg := r\<rparr>) = gen_frame g h"
  by (simp_all add: gen_inv_def gen_frame_def)

text \<open>Emitting an instruction that defines no register and places no label.\<close>

lemma inv_emit:
  assumes "gen_inv S0 P R J g"
    and "instr_ok (if_vreg_count (g_fun g)) S0 (if_stack_count (g_fun g)) (if_label_count (g_fun g)) i"
    and "\<And>r. r \<in> reads i \<Longrightarrow> readable P r g"
    and "\<not> defines_vreg (in_op i)" "in_op i \<noteq> IR_LABEL"
    and "is_jump (in_op i) \<Longrightarrow> room (g_fun g) \<Longrightarrow> in_label i \<in> set (labels (ir_code (g_fun g))) \<union> J"
  shows "gen_inv S0 P R J (g_emit i g)"
proof (cases "room (g_fun g)")
  case True
  have "reads i \<subseteq> {1..<P} \<union> set (defs (ir_code (g_fun g)))"
    using assms(3) True unfolding readable_def by blast
  with True assms(1,2,4-) show ?thesis
    unfolding gen_inv_def g_fun_simps fun_inv_def Let_def emit_fields emit_code [OF True]
    by (auto simp: emit_chunks_ok)
next
  case False
  with assms(1) show ?thesis by (simp add: g_emit_def emit_full)
qed

text \<open>Placing a reserved label.\<close>

lemma jump_to_fields [simp]:
  "in_op (jump_to op ty r l) = op" "in_label (jump_to op ty r l) = l" "in_src1 (jump_to op ty r l) = r"
  by (simp_all add: jump_to_def instr_of_def)

lemma inv_place:
  assumes "gen_inv S0 P (insert l R) (insert l J) g" "l \<notin> R"
  shows "gen_inv S0 P R J (g_emit (jump_to IR_LABEL ty 0 l) g)"
proof (cases "room (g_fun g)")
  case True
  have "instr_ok V S0 S L (jump_to IR_LABEL ty 0 l) \<longleftrightarrow> l < L" for V S L
    by (simp add: instr_ok_def Let_def)
  with True assms show ?thesis
    unfolding gen_inv_def g_fun_simps fun_inv_def Let_def emit_fields emit_code [OF True]
    by (simp add: emit_chunks_ok defines_vreg_def is_jump_def reads_def) blast
next
  case False
  with assms show ?thesis
    by (auto simp: gen_inv_def fun_inv_def Let_def g_emit_def emit_full)
qed

lemma inv_weaken: "gen_inv S0 P R J g \<Longrightarrow> R' \<subseteq> R \<Longrightarrow> J \<subseteq> J' \<Longrightarrow> gen_inv S0 P R' J' g"
  by (auto simp: gen_inv_def fun_inv_def Let_def)

text \<open>Counters only grow; growing one of them keeps the invariant.\<close>

lemma fun_inv_grow:
  assumes "fun_inv S0 P R J f" "if_chunks f' = if_chunks f" "if_total_count f' = if_total_count f"
    and "if_vreg_count f \<le> if_vreg_count f'" "if_vreg_count f' \<le> MAX_VREGS_PER_FUNCTION"
    and "if_stack_count f \<le> if_stack_count f'" "if_label_count f \<le> if_label_count f'"
    and "R' \<subseteq> R \<union> {if_label_count f..<if_label_count f'}"
  shows "fun_inv S0 P R' J f'"
proof -
  have eq: "ir_code f' = ir_code f" "chunks_ok f' = chunks_ok f" "room f' = room f"
    using assms(2,3) by (simp_all add: ir_code_def chunks_ok_def room_def)
  show ?thesis
    using assms(1) code_ok_mono [OF _ assms(4,6,7)] assms(4-)
    unfolding fun_inv_def Let_def eq by (auto simp: subset_iff) force+
qed

lemma fun_inv_vregs: "fun_inv S0 P R J f \<Longrightarrow> if_vreg_count f \<le> MAX_VREGS_PER_FUNCTION"
  by (simp add: fun_inv_def Let_def)

lemma inv_label:
  assumes "gen_inv S0 P R J g" "g_label g = (l, h)"
  shows "gen_inv S0 P (insert l R) J h" "l \<notin> R" "gen_frame g h" "g_symbols h = g_symbols g"
    "l < if_label_count (g_fun h)" "ir_code (g_fun h) = ir_code (g_fun g)" "readable P r g \<Longrightarrow> readable P r h"
proof -
  have h: "h = g\<lparr>g_fun := (g_fun g)\<lparr>if_label_count := if_label_count (g_fun g) + 1\<rparr>\<rparr>"
    and l: "l = if_label_count (g_fun g)"
    using assms(2) by (auto simp: g_label_def)
  show "gen_inv S0 P (insert l R) J h"
    using assms(1) fun_inv_vregs [of S0 P R J "g_fun g"] unfolding gen_inv_def l
    by (auto simp: h intro: fun_inv_grow)
  show "l \<notin> R"
    using assms(1) by (auto simp: l gen_inv_def fun_inv_def Let_def)
  show "gen_frame g h" "g_symbols h = g_symbols g" "l < if_label_count (g_fun h)"
      "ir_code (g_fun h) = ir_code (g_fun g)" "readable P r g \<Longrightarrow> readable P r h"
    by (auto simp: h l gen_frame_def ir_code_def readable_def room_def)
qed

lemma inv_stack:
  assumes "gen_inv S0 P R J g" "g_stack g = (s, h)"
  shows "gen_inv S0 P R J h" "gen_frame g h" "g_symbols h = g_symbols g" "s \<in> {S0..<if_stack_count (g_fun h)}"
proof -
  have h: "h = g\<lparr>g_fun := (g_fun g)\<lparr>if_stack_count := if_stack_count (g_fun g) + 1\<rparr>\<rparr>"
    and s: "s = if_stack_count (g_fun g)"
    using assms(2) by (auto simp: g_stack_def)
  have "fun_inv S0 P R J (g_fun g) \<Longrightarrow> fun_inv S0 P R J (g_fun h)"
    using fun_inv_vregs [of S0 P R J "g_fun g"] by (auto simp: h intro: fun_inv_grow)
  then show "gen_inv S0 P R J h"
    using assms(1) unfolding gen_inv_def by (auto simp: h elim: symbols_bound_mono)
  show "gen_frame g h" "g_symbols h = g_symbols g"
    by (simp_all add: h gen_frame_def ir_code_def)
  show "s \<in> {S0..<if_stack_count (g_fun h)}"
    using assms(1) by (simp add: h s gen_inv_def fun_inv_def Let_def)
qed

text \<open>Allocating a register, and emitting the instruction that defines it.\<close>

lemma alloc_None:
  assumes "g_alloc g = (None, h)"
  obtains t where "h = g_error 0 0 t g" "MAX_VREGS_PER_FUNCTION \<le> if_vreg_count (g_fun g)"
  using assms by (auto simp: g_alloc_def ir_alloc_vreg_def g_error_def split: if_splits)

lemma alloc_Some:
  assumes "g_alloc g = (Some r, h)"
  shows "h = g\<lparr>g_fun := (g_fun g)\<lparr>if_vreg_count := Suc r\<rparr>\<rparr>" "r = if_vreg_count (g_fun g)"
    "r < MAX_VREGS_PER_FUNCTION"
  using assms by (auto simp: g_alloc_def ir_alloc_vreg_def split: if_splits)

lemma frame_alloc: "g_alloc g = (r, h) \<Longrightarrow> gen_frame g h \<and> g_symbols h = g_symbols g"
  by (cases r) (auto simp: g_alloc_def ir_alloc_vreg_def frame_error [unfolded g_error_def] gen_frame_def
    ir_code_def codegen_error_def split: if_splits)

lemma inv_alloc: "gen_inv S0 P R J g \<Longrightarrow> g_alloc g = (r, h) \<Longrightarrow> gen_inv S0 P R J h"
proof (cases r)
  case None
  then show "gen_inv S0 P R J g \<Longrightarrow> g_alloc g = (r, h) \<Longrightarrow> gen_inv S0 P R J h"
    by (auto elim: alloc_None intro: inv_error)
next
  case (Some v)
  show "gen_inv S0 P R J g \<Longrightarrow> g_alloc g = (r, h) \<Longrightarrow> gen_inv S0 P R J h"
    unfolding Some using alloc_Some [of g v h]
    by (auto simp: gen_inv_def intro: fun_inv_grow)
qed

lemma inv_define:
  assumes "gen_inv S0 P R J g" "g_alloc g = (Some v, h)" "in_dest i = v"
    and "instr_ok (if_vreg_count (g_fun h)) S0 (if_stack_count (g_fun h)) (if_label_count (g_fun h)) i"
    and "\<And>r. r \<in> reads i \<Longrightarrow> readable P r h"
    and "defines_vreg (in_op i)"
  shows "gen_inv S0 P R J (g_emit i h)" "gen_frame g (g_emit i h)" "readable P v (g_emit i h)" "v \<noteq> 0"
proof -
  note h = alloc_Some [OF assms(2)]
  have inv: "gen_inv S0 P R J h" using inv_alloc assms(1,2) by blast
  have fresh: "v \<notin> set (defs (ir_code (g_fun h)))" "P \<le> v" "1 \<le> v"
    using assms(1) by (auto simp: h gen_inv_def fun_inv_def Let_def ir_code_def)
  then show "v \<noteq> 0" by simp
  show "gen_frame g (g_emit i h)"
    using frame_alloc [OF assms(2)] frame_emit gen_frame_trans by blast
  show "readable P v (g_emit i h)"
    using fresh assms(3,6) by (cases "room (g_fun h)") (auto simp: readable_def emit_code emit_full h(1))
  show "gen_inv S0 P R J (g_emit i h)"
  proof (cases "room (g_fun h)")
    case True
    have "reads i \<subseteq> {1..<P} \<union> set (defs (ir_code (g_fun h)))"
      using assms(5) True unfolding readable_def by blast
    moreover have "in_op i \<noteq> IR_LABEL" "\<not> is_jump (in_op i)" "v < if_vreg_count (g_fun h)"
      using assms(6) by (auto simp: defines_vreg_def is_jump_def h(1))
    ultimately show ?thesis
      using inv assms(3,4,6) fresh
      unfolding gen_inv_def g_fun_simps fun_inv_def Let_def emit_fields emit_code [OF True]
      by (simp add: emit_chunks_ok True)
  next
    case False
    with inv show ?thesis by (simp add: g_emit_def emit_full)
  qed
qed

section \<open>Expressions\<close>

text \<open>The contract of the routines that return a register.\<close>

definition yields :: "nat \<Rightarrow> nat \<Rightarrow> nat set \<Rightarrow> nat set \<Rightarrow> gen \<Rightarrow> nat \<times> gen \<Rightarrow> bool" where
  "yields S0 P R J g = (\<lambda>(r, h). gen_inv S0 P R J h \<and> gen_frame g h \<and> g_symbols h = g_symbols g \<and>
     (r \<noteq> 0 \<longrightarrow> readable P r h))"

lemma yields_fail: "gen_inv S0 P R J g \<Longrightarrow> yields S0 P R J g (0, g)"
  by (simp add: yields_def)

lemma yields_trans:
  "gen_frame g h \<Longrightarrow> g_symbols h = g_symbols g \<Longrightarrow> yields S0 P R J h x \<Longrightarrow> yields S0 P R J g x"
  by (auto simp: yields_def intro: gen_frame_trans)

lemma with_vreg_yields:
  assumes "gen_inv S0 P R J g"
    and "\<And>v h. g_alloc g = (Some v, h) \<Longrightarrow> in_dest (i v) = v \<and> defines_vreg (in_op (i v)) \<and>
      (\<forall>r \<in> reads (i v). readable P r g) \<and>
      ((\<forall>r \<in> reads (i v). r \<in> {1..v}) \<longrightarrow> 1 \<le> v \<longrightarrow>
        instr_ok (Suc v) S0 (if_stack_count (g_fun g)) (if_label_count (g_fun g)) (i v))"
  shows "oall (yields S0 P R J g) (with_vreg g (\<lambda>v h. Ret (v, g_emit (i v) h)))"
proof (cases "g_alloc g")
  case (Pair v h)
  note frame = frame_alloc [OF Pair]
  show ?thesis
  proof (cases v)
    case None
    then show ?thesis
      using Pair frame inv_alloc [OF assms(1) Pair] by (simp add: with_vreg_def yields_def)
  next
    case (Some w)
    note al = Pair [unfolded Some]
    note h = alloc_Some [OF al] and i = assms(2) [OF al]
    have rd: "readable P r h" if "r \<in> reads (i w)" for r
      using i that frame readable_kept by blast
    have w1: "1 \<le> w" using assms(1) h by (simp add: gen_inv_def fun_inv_def Let_def)
    have "r \<in> {1..w}" if "r \<in> reads (i w)" for r
      using i that by (auto simp: readable_def h(2))
    then have ok: "instr_ok (if_vreg_count (g_fun h)) S0 (if_stack_count (g_fun h)) (if_label_count (g_fun h)) (i w)"
      using i w1 by (simp add: h(1))
    have "defines_vreg (in_op (i w))" "in_dest (i w) = w" using i by blast+
    note d = inv_define [OF assms(1) al this(2) ok rd this(1)]
    from d show ?thesis
      by (simp add: with_vreg_def al yields_def frame)
  qed
qed

lemma instr_of_fields [simp]:
  "in_op (instr_of op ty) = op" "in_dest (instr_of op ty) = 0" "in_src1 (instr_of op ty) = 0"
  "in_src2 (instr_of op ty) = 0" "in_imm (instr_of op ty) = 0" "in_label (instr_of op ty) = 0"
  "in_type (instr_of op ty) = ty" "in_func (instr_of op ty) = []"
  by (simp_all add: instr_of_def)

lemmas operand_simps = instr_ok_def Let_def defines_vreg_def reads_def

lemma unary_operands:
  "in_op i = unary_opcode op \<Longrightarrow> defines_vreg (in_op i) \<and> reads i = {in_src1 i} \<and>
   (instr_ok V S0 S L i \<longleftrightarrow> in_dest i \<in> {1..<V} \<and> in_src1 i \<in> {1..<V})"
  by (cases op) (auto simp: operand_simps)

lemma binary_operands:
  "in_op i = binary_opcode op t \<Longrightarrow> defines_vreg (in_op i) \<and> reads i = {in_src1 i, in_src2 i} \<and>
   (instr_ok V S0 S L i \<longleftrightarrow> in_dest i \<in> {1..<V} \<and> in_src1 i \<in> {1..<V} \<and> in_src2 i \<in> {1..<V})"
  by (cases op) (auto simp: operand_simps)

lemma with_vreg_fault:
  "gen_inv S0 P R J g \<Longrightarrow> (\<And>v h. \<not> returns (k v h)) \<Longrightarrow> oall (yields S0 P R J g) (with_vreg g k)"
  using frame_alloc inv_alloc
  by (cases "g_alloc g"; cases "fst (g_alloc g)") (auto simp: with_vreg_def yields_def oall_def returns_def)

lemma operator_defines [simp]: "defines_vreg (unary_opcode op)" "defines_vreg (binary_opcode b t)"
  by (cases op; simp add: defines_vreg_def) (cases b; simp add: defines_vreg_def)

lemma gen_number_yields: "gen_inv S0 P R J g \<Longrightarrow> oall (yields S0 P R J g) (gen_number g i v)"
  unfolding gen_number_def by (rule with_vreg_yields) (auto simp: operand_simps)

lemma gen_identifier_yields:
  assumes "gen_inv S0 P R J g"
  shows "oall (yields S0 P R J g) (gen_identifier g i nm)"
proof (cases "symbol_table_lookup (g_symbols g) nm")
  case None
  then show ?thesis
    using inv_error [OF assms] frame_error by (simp add: gen_identifier_def yields_def)
next
  case (Some cur)
  let ?s = "st_entries (g_symbols g) cur"
  have b: "if sy_is_stack ?s then sy_index ?s \<in> {S0..<if_stack_count (g_fun g)} else sy_index ?s \<in> {1..<P}"
    using assms symbol_lookup_Some [OF Some] unfolding gen_inv_def symbols_bound_def by blast
  show ?thesis
  proof (cases "sy_is_stack ?s")
    case True
    show ?thesis
      unfolding gen_identifier_def Some option.case Let_def if_P [OF True]
      by (rule with_vreg_yields [OF assms]) (use b True in \<open>auto simp: operand_simps\<close>)
  next
    case False
    then show ?thesis
      using b assms
      by (auto simp: gen_identifier_def Some yields_def readable_def gen_inv_def fun_inv_def Let_def)
  qed
qed

text \<open>The arguments of a call: one register each, at most 32, and one \<open>IR_ARG\<close> each.\<close>

definition yields_args :: "nat \<Rightarrow> nat \<Rightarrow> nat set \<Rightarrow> nat set \<Rightarrow> nat \<Rightarrow> nat \<Rightarrow> gen \<Rightarrow> nat list option \<times> gen \<Rightarrow> bool" where
  "yields_args S0 P R J n len g = (\<lambda>(rs, h). gen_inv S0 P R J h \<and> gen_frame g h \<and> g_symbols h = g_symbols g \<and>
     (\<forall>xs. rs = Some xs \<longrightarrow> length xs = len \<and> (0 < len \<longrightarrow> n + len \<le> MAX_PARAMS_PER_FUNCTION) \<and>
       (\<forall>r \<in> set xs. readable P r h)))"

lemma emit_args_inv:
  "gen_inv S0 P R J g \<Longrightarrow> \<forall>r \<in> set rs. readable P r g \<Longrightarrow> n + length rs \<le> MAX_PARAMS_PER_FUNCTION \<or> rs = [] \<Longrightarrow>
   oall (\<lambda>h. gen_inv S0 P R J h \<and> gen_frame g h \<and> g_symbols h = g_symbols g) (emit_args g n args rs)"
proof (induction g n args rs rule: emit_args.induct)
  case (1 g n arg args r rs)
  show ?case
  proof (cases "node_type_of arg")
    case (Ret t)
    let ?i = "(instr_of IR_ARG t)\<lparr>in_src1 := r, in_imm := int n\<rparr>"
    have "gen_inv S0 P R J (g_emit ?i g)"
      by (rule inv_emit [OF 1(2)])
        (use 1(3,4) in \<open>auto simp: operand_simps readable_def is_jump_def\<close>)
    moreover have "\<forall>r' \<in> set rs. readable P r' (g_emit ?i g)"
      using 1(3) frame_emit readable_kept by (metis list.set_intros(2))
    moreover have "Suc n + length rs \<le> MAX_PARAMS_PER_FUNCTION \<or> rs = []"
      using 1(4) by auto
    ultimately have "oall (\<lambda>h. gen_inv S0 P R J h \<and> gen_frame (g_emit ?i g) h \<and> g_symbols h = g_symbols g)
        (emit_args (g_emit ?i g) (Suc n) args rs)"
      using 1(1) [OF Ret] by simp
    then show ?thesis
      by (auto simp: Ret elim!: oall_mono intro: gen_frame_trans frame_emit)
  qed simp_all
qed simp_all

lemma yields_bind:
  assumes "oall (yields S0 P R J g) m"
    and "\<And>r h. m = Ret (r, h) \<Longrightarrow> gen_inv S0 P R J h \<Longrightarrow> gen_frame g h \<Longrightarrow> r \<noteq> 0 \<longrightarrow> readable P r h \<Longrightarrow>
      oall (yields S0 P R J h) (k r h)"
  shows "oall (yields S0 P R J g) (obind m (\<lambda>(r, h). k r h))"
proof (cases m)
  case (Ret x)
  obtain r h where x: "x = (r, h)" by (cases x)
  with assms(1) Ret have h: "gen_inv S0 P R J h" "gen_frame g h" "g_symbols h = g_symbols g"
      "r \<noteq> 0 \<longrightarrow> readable P r h"
    by (simp_all add: yields_def)
  show ?thesis
    using assms(2) [OF Ret [unfolded x] h(1,2,4)] h(2,3) by (auto simp: Ret x elim: oall_mono intro: yields_trans)
qed simp_all

theorem gen_expression_yields:
  "gen_inv S0 P R J g \<Longrightarrow> oall (yields S0 P R J g) (gen_expression g e)"
  "gen_inv S0 P R J g \<Longrightarrow> oall (yields_args S0 P R J n (length es) g) (gen_args g n es)"
proof (induction g e and g n es rule: gen_expression_gen_args.induct)
  case (2 g i v)
  then show ?case by (simp add: gen_number_yields)
next
  case (3 g i name)
  then show ?case by (simp add: gen_identifier_yields)
next
  case (4 g i name args)
  show ?case
    unfolding gen_expression.simps
  proof (rule obind_oall [OF 4(1) [OF 4(2)]])
    fix x assume "yields_args S0 P R J 0 (length args) g x"
    then obtain rs h where x: "x = (rs, h)" "gen_inv S0 P R J h" "gen_frame g h" "g_symbols h = g_symbols g"
        "\<And>xs. rs = Some xs \<Longrightarrow> length xs \<le> MAX_PARAMS_PER_FUNCTION \<and> (\<forall>r \<in> set xs. readable P r h)"
      by (cases x; cases "args = []") (force simp: yields_args_def)+
    show "oall (yields S0 P R J g) (case x of (regs, g) \<Rightarrow> case regs of None \<Rightarrow> Ret (0, g)
        | Some rs \<Rightarrow> obind (emit_args g 0 args rs) (\<lambda>g. with_vreg g (\<lambda>result_reg g.
            Ret (result_reg, g_emit ((instr_of IR_CALL (value_type i))\<lparr>in_dest := result_reg, in_func := name\<rparr>) g))))"
    proof (cases rs)
      case None
      with x show ?thesis by (simp add: yields_def)
    next
      case (Some xs)
      have "oall (\<lambda>k. gen_inv S0 P R J k \<and> gen_frame h k \<and> g_symbols k = g_symbols h) (emit_args h 0 args xs)"
        using emit_args_inv [OF x(2)] x(5) [OF Some] by simp
      then show ?thesis
        unfolding x(1) Some prod.case option.case
        by (rule obind_oall) (rule oall_mono, rule with_vreg_yields,
            use x in \<open>auto simp: operand_simps intro: yields_trans gen_frame_trans\<close>)
    qed
  qed
next
  case (5 g op i e)
  show ?case
    unfolding gen_expression.simps
    by (rule yields_bind [OF 5(1) [OF 5(2)]])
      (auto simp: yields_fail unary_operands intro!: with_vreg_yields)
next
  case (6 g op i l r)
  show ?case
    unfolding gen_expression.simps
  proof (rule yields_bind [OF 6(1) [OF 6(3)]])
    fix left h assume h: "gen_expression g l = Ret (left, h)" "gen_inv S0 P R J h" "gen_frame g h" "left \<noteq> 0 \<longrightarrow> readable P left h"
    show "oall (yields S0 P R J h) (if left = 0 then Ret (0, h) else obind (gen_expression h r) (\<lambda>(right, g).
        if right = 0 then Ret (0, g)
        else with_vreg g (\<lambda>dest g. obind (node_type_of l) (\<lambda>t.
            Ret (dest, g_emit ((instr_of (binary_opcode op t) (value_type i))
               \<lparr>in_dest := dest, in_src1 := left, in_src2 := right\<rparr>) g)))))"
    proof (cases "left = 0")
      case False
      show ?thesis
        unfolding if_not_P [OF False]
      proof (rule yields_bind [OF 6(2) [OF h(1) refl False h(2)]])
        fix right k assume k: "gen_inv S0 P R J k" "gen_frame h k" "right \<noteq> 0 \<longrightarrow> readable P right k"
        show "oall (yields S0 P R J k) (if right = 0 then Ret (0, k)
          else with_vreg k (\<lambda>dest g. obind (node_type_of l) (\<lambda>t.
                 Ret (dest, g_emit ((instr_of (binary_opcode op t) (value_type i))
                 \<lparr>in_dest := dest, in_src1 := left, in_src2 := right\<rparr>) g))))"
          using k h(4) False readable_kept
          by (cases "node_type_of l")
            (auto simp: yields_fail binary_operands intro!: with_vreg_yields, auto intro: with_vreg_fault)
      qed
    qed (simp add: yields_fail h)
  qed
next
  case (9 g n arg args)
  show ?case
  proof (cases "gen_expression g arg")
    case (Ret x)
    obtain r h where x: "x = (r, h)" by (cases x)
    with 9(1) [OF 9(3)] Ret have h: "gen_inv S0 P R J h" "gen_frame g h" "g_symbols h = g_symbols g"
        "r \<noteq> 0 \<longrightarrow> readable P r h"
      by (simp_all add: yields_def)
    show ?thesis
    proof (cases "n < MAX_PARAMS_PER_FUNCTION \<and> r \<noteq> 0")
      case True
      then have "oall (yields_args S0 P R J (Suc n) (length args) h) (gen_args h (Suc n) args)"
        using 9(2) [OF Ret x [symmetric] _ _ h(1)] by simp
      then show ?thesis
        using True h
        by (cases "gen_args h (Suc n) args"; cases "args = []")
          (auto simp: Ret x yields_args_def intro!: gen_frame_trans [OF h(2)], metis readable_kept)
    next
      case False
      with h show ?thesis by (auto simp: Ret x yields_args_def)
    qed
  qed simp_all
qed (simp_all add: yields_fail yields_def yields_args_def inv_error frame_error)

end
