(* ===== verification/IrStatementFacts.thy ===== *)
theory IrStatementFacts
  imports IrGenFacts
begin

text \<open>
  The invariant of \<open>IrGenFacts\<close> through the statement generators and through whole functions, which
  gives the facts on what \<open>ir_gen\<close> returns.
\<close>

section \<open>Statements\<close>

text \<open>The contract of the routines that generate code for effect.\<close>

definition generates :: "nat \<Rightarrow> nat \<Rightarrow> nat set \<Rightarrow> nat set \<Rightarrow> gen \<Rightarrow> gen \<Rightarrow> bool" where
  "generates S0 P R J g h \<longleftrightarrow> gen_inv S0 P R J h \<and> gen_frame g h"

lemma generates_refl: "gen_inv S0 P R J g \<Longrightarrow> generates S0 P R J g g"
  by (simp add: generates_def)

lemma generates_trans: "gen_frame g h \<Longrightarrow> generates S0 P R J h k \<Longrightarrow> generates S0 P R J g k"
  by (auto simp: generates_def intro: gen_frame_trans)

lemma generates_frame: "gen_frame g h \<Longrightarrow> oall (generates S0 P R J h) m \<Longrightarrow> oall (generates S0 P R J g) m"
  by (erule oall_mono) (rule generates_trans)

lemma generates_bind:
  assumes "oall (generates S0 P R J g) m"
    and "\<And>h. m = Ret h \<Longrightarrow> gen_inv S0 P R J h \<Longrightarrow> gen_frame g h \<Longrightarrow> oall (generates S0 P' R' J' g) (k h)"
  shows "oall (generates S0 P' R' J' g) (obind m k)"
  using assms by (cases m) (auto simp: generates_def)

lemma expression_bind:
  assumes "gen_inv S0 P R J g"
    and "\<And>r h. gen_expression g e = Ret (r, h) \<Longrightarrow> gen_inv S0 P R J h \<Longrightarrow> gen_frame g h \<Longrightarrow>
      g_symbols h = g_symbols g \<Longrightarrow> r \<noteq> 0 \<longrightarrow> readable P r h \<Longrightarrow> oall (generates S0 P R' J' g) (k r h)"
  shows "oall (generates S0 P R' J' g) (obind (gen_expression g e) (\<lambda>(r, h). k r h))"
  using gen_expression_yields(1) [OF assms(1), of e] assms(2)
  by (cases "gen_expression g e") (auto simp: yields_def)

lemma emit_generates:
  assumes "gen_frame g0 g" "gen_inv S0 P R J g"
    and "instr_ok (if_vreg_count (g_fun g)) S0 (if_stack_count (g_fun g)) (if_label_count (g_fun g)) i"
    and "\<And>r. r \<in> reads i \<Longrightarrow> readable P r g"
    and "\<not> defines_vreg (in_op i)" "in_op i \<noteq> IR_LABEL" "\<not> is_jump (in_op i)"
  shows "generates S0 P R J g0 (g_emit i g)"
  using inv_emit [OF assms(2-6)] assms(1,7) frame_emit gen_frame_trans by (auto simp: generates_def)

lemma gen_var_decl_generates:
  assumes "gen_inv S0 P R J g"
  shows "oall (generates S0 P R J g) (gen_var_decl g nm ty e)"
proof (cases "g_stack g")
  case (Pair s g1)
  note g1 = inv_stack [OF assms Pair]
  show ?thesis
  proof (cases "symbol_table_add (g_symbols g1) nm s")
    case (Ret st)
    from symbol_table_add_map [OF _ Ret] g1(1) have st: "symbols_ok st"
        "symbol_map st = (symbol_map (g_symbols g1))(nm \<mapsto> \<lparr>sy_name = nm, sy_index = s, sy_is_stack = False, sy_occupied = True\<rparr>)"
      by (auto simp: gen_inv_def)
    then obtain c where c: "symbol_table_lookup st nm = Some c"
        "st_entries st c = \<lparr>sy_name = nm, sy_index = s, sy_is_stack = False, sy_occupied = True\<rparr>"
      using lookup_symbol_map [of st nm] by auto
    let ?st = "symbol_set_stack st c"
    let ?g = "g1\<lparr>g_symbols := ?st\<rparr>"
    have inv: "gen_inv S0 P R J ?g"
      using symbol_set_stack_map [OF st(1) c(1)] g1(1,4) symbols_bound_upd [of S0 P _ "g_symbols g1" ?st nm]
      by (simp add: gen_inv_def st(2) c(2))
    have frame: "gen_frame g ?g"
      using since_add_set_stack [OF Ret c(1)] g1(1-3) by (auto simp: gen_frame_def gen_inv_def)
    have store: "generates S0 P R J g ((g_emit ((instr_of IR_STORE ty)\<lparr>in_dest := s, in_src1 := r\<rparr>) h)\<lparr>g_last_reg := r\<rparr>)"
      if "gen_inv S0 P R J h" "gen_frame ?g h" "readable P r h" for r h
    proof -
      have "s < if_stack_count (g_fun h)" "S0 \<le> s"
        using g1(4) gen_frame_counts(2) [OF that(2)] by auto
      then have "generates S0 P R J g (g_emit ((instr_of IR_STORE ty)\<lparr>in_dest := s, in_src1 := r\<rparr>) h)"
        by (intro emit_generates [OF gen_frame_trans [OF frame that(2)] that(1)])
          (use that(3) in \<open>auto simp: operand_simps is_jump_def readable_def\<close>)
      then show ?thesis by (simp add: generates_def)
    qed
    show ?thesis
    proof (cases "e = AstNull")
      case True
      obtain r h where al: "g_alloc ?g = (r, h)" by force
      show ?thesis
      proof (cases r)
        case None
        then show ?thesis
          using True al inv_alloc [OF inv al] gen_frame_trans [OF frame] frame_alloc [OF al]
          by (simp add: gen_var_decl_def Pair Ret c generates_def)
      next
        case (Some v)
        let ?i = "(instr_of IR_CONST ty)\<lparr>in_dest := v, in_imm := 0\<rparr>"
        note h = alloc_Some [OF al [unfolded Some]]
        have "1 \<le> v"
          using inv by (simp add: h gen_inv_def fun_inv_def Let_def)
        then have ok: "instr_ok (if_vreg_count (g_fun h)) S0 (if_stack_count (g_fun h)) (if_label_count (g_fun h)) ?i"
          by (simp add: h(1) operand_simps)
        have "gen_inv S0 P R J (g_emit ?i h)" "gen_frame ?g (g_emit ?i h)" "readable P v (g_emit ?i h)"
          by (rule inv_define [OF inv al [unfolded Some] _ ok]; simp add: operand_simps)+
        then show ?thesis
          using store True al by (simp add: gen_var_decl_def Pair Ret c Some)
      qed
    next
      case False
      show ?thesis
      proof (cases "gen_expression ?g e")
        case (Ret x)
        obtain r h where x: "x = (r, h)" by (cases x)
        have h: "gen_inv S0 P R J h" "gen_frame ?g h" "r \<noteq> 0 \<longrightarrow> readable P r h"
          using gen_expression_yields(1) [OF inv, of e] by (simp_all add: Ret x yields_def)
        then have "oall (generates S0 P R J g) (if r = 0 then Ret h else
            Ret ((g_emit ((instr_of IR_STORE ty)\<lparr>in_dest := s, in_src1 := r\<rparr>) h)\<lparr>g_last_reg := r\<rparr>))"
          using store gen_frame_trans [OF frame h(2)] by (simp add: generates_def)
        then show ?thesis
          using False by (simp add: gen_var_decl_def Pair \<open>symbol_table_add _ nm s = Ret st\<close> c Ret x)
      qed (use False in \<open>simp_all add: gen_var_decl_def Pair Ret c\<close>)
    qed
  qed (simp_all add: gen_var_decl_def Pair)
qed

lemma gen_assignment_generates:
  assumes "gen_inv S0 P R J g"
  shows "oall (generates S0 P R J g) (gen_assignment g i nm e)"
proof (cases "symbol_table_lookup (g_symbols g) nm")
  case None
  then show ?thesis
    using inv_error [OF assms] frame_error by (simp add: gen_assignment_def generates_def)
next
  case (Some cur)
  show ?thesis
    unfolding gen_assignment_def Some option.case
  proof (rule expression_bind [OF assms])
    fix r h assume h: "gen_inv S0 P R J h" "gen_frame g h" "g_symbols h = g_symbols g" "r \<noteq> 0 \<longrightarrow> readable P r h"
    let ?s = "st_entries (g_symbols h) cur"
    let ?i = "(instr_of (if sy_is_stack ?s then IR_STORE else IR_MOV) (value_type i))
      \<lparr>in_dest := sy_index ?s, in_src1 := r\<rparr>"
    have "if sy_is_stack ?s then sy_index ?s \<in> {S0..<if_stack_count (g_fun h)} else sy_index ?s \<in> {1..<P}"
      using h(1) symbol_lookup_Some [OF Some] h(3) unfolding gen_inv_def symbols_bound_def by metis
    moreover have "P \<le> if_vreg_count (g_fun h)"
      using h(1) by (simp add: gen_inv_def fun_inv_def Let_def)
    ultimately have "r \<noteq> 0 \<Longrightarrow> generates S0 P R J g (g_emit ?i h)"
      by (intro emit_generates [OF h(2,1)])
        (use h(4) in \<open>auto simp: operand_simps is_jump_def readable_def split: if_splits\<close>)
    then show "oall (generates S0 P R J g) (if r = 0 then Ret h else let sym = st_entries (g_symbols h) cur in
        Ret ((g_emit ((instr_of (if sy_is_stack sym then IR_STORE else IR_MOV) (value_type i))
          \<lparr>in_dest := sy_index sym, in_src1 := r\<rparr>) h)\<lparr>g_last_reg := r\<rparr>))"
      using h(1,2) by (simp add: generates_def Let_def)
  qed
qed

lemma gen_return_generates:
  "gen_inv S0 P R J g \<Longrightarrow> oall (generates S0 P R J g) (gen_return g i e)"
  unfolding gen_return_def
  by (rule expression_bind)
    (auto simp: generates_def operand_simps is_jump_def readable_def intro: inv_emit frame_emit gen_frame_trans)

lemma inv_jump:
  assumes "gen_inv S0 P R J g" "op = IR_JMP \<or> op = IR_JZ \<and> readable P r g"
    and "l < if_label_count (g_fun g)" "l \<in> J \<or> (room (g_fun g) \<longrightarrow> l \<in> set (labels (ir_code (g_fun g))))"
  shows "gen_inv S0 P R J (g_emit (jump_to op ty r l) g)"
  by (rule inv_emit [OF assms(1)]) (use assms(2-4) in \<open>auto simp: operand_simps readable_def\<close>)

lemma gen_block_generates:
  assumes "gen_inv S0 P R J g" "generates S0 P R J g h"
  shows "symbol_table_restore (g_symbols h) (st_changes (g_symbols g)) = Ret (g_symbols g)"
    "generates S0 P R J g (h\<lparr>g_symbols := g_symbols g\<rparr>)"
proof -
  have "since (g_symbols g) (g_symbols h)" using assms(2) by (simp add: generates_def gen_frame_def)
  then show "symbol_table_restore (g_symbols h) (st_changes (g_symbols g)) = Ret (g_symbols g)"
    by (rule symbol_table_restore_exact)
  show "generates S0 P R J g (h\<lparr>g_symbols := g_symbols g\<rparr>)"
    using assms by (auto simp: generates_def gen_inv_def gen_frame_def elim: symbols_bound_mono)
qed

text \<open>\<open>preserves S0 P k\<close>: the contract for every choice of the ghost sets.\<close>

definition preserves :: "nat \<Rightarrow> nat \<Rightarrow> (gen \<Rightarrow> gen outcome) \<Rightarrow> bool" where
  "preserves S0 P k \<longleftrightarrow> (\<forall>R J g. gen_inv S0 P R J g \<longrightarrow> oall (generates S0 P R J g) (k g))"

lemma preservesD: "preserves S0 P k \<Longrightarrow> gen_inv S0 P R J g \<Longrightarrow> oall (generates S0 P R J g) (k g)"
  by (simp add: preserves_def)

lemma gen_statements_preserves:
  "\<forall>s \<in> set ss. preserves S0 P (\<lambda>g. gen_statement g s) \<Longrightarrow> preserves S0 P (\<lambda>g. gen_statements g ss)"
proof (induction ss)
  case Nil
  then show ?case by (simp add: preserves_def generates_refl)
next
  case (Cons s ss)
  then have "preserves S0 P (\<lambda>g. gen_statement g s)" "preserves S0 P (\<lambda>g. gen_statements g ss)" by simp_all
  then show ?case
    unfolding preserves_def gen_statement.simps
    by (auto intro!: generates_bind intro: generates_frame)
qed

text \<open>The labelled skeletons of \<open>gen_if\<close> and \<open>gen_while\<close>, over any generator of the branches.\<close>

lemma then_part:
  assumes inv: "gen_inv S0 P (insert l R) (insert l J) h" and "readable P r h" "l < if_label_count (g_fun h)"
    and t: "preserves S0 P t"
  shows "oall (generates S0 P (insert l R) (insert l J) h) (t (g_emit (jump_to IR_JZ ty r l) h))"
proof -
  let ?h = "g_emit (jump_to IR_JZ ty r l) h"
  have "gen_inv S0 P (insert l R) (insert l J) ?h"
    using assms by (intro inv_jump) auto
  from preservesD [OF t this] show ?thesis
    by (rule oall_mono) (blast intro: generates_trans frame_emit)
qed

lemma place_generates:
  assumes "gen_frame g h" "gen_inv S0 P (insert l R) (insert l J) h" "l \<notin> R"
  shows "generates S0 P R J g (g_emit (jump_to IR_LABEL ty 0 l) h)"
  unfolding generates_def using inv_place [OF assms(2,3)] gen_frame_trans [OF assms(1) frame_emit] by simp

lemma if_part:
  assumes inv: "gen_inv S0 P R J g" and r: "readable P r g" and t: "preserves S0 P t"
    and l: "g_label g = (l, h)"
  shows "oall (generates S0 P R J g) (obind (t (g_emit (jump_to IR_JZ ty r l) h)) (\<lambda>h.
    Ret (g_emit (jump_to IR_LABEL TYPE_VOID 0 l) h)))"
proof -
  note lab = inv_label [OF inv l]
  have "gen_inv S0 P (insert l R) (insert l J) h" by (rule inv_weaken [OF lab(1)]) auto
  from then_part [OF this lab(7) [OF r] lab(5) t] show ?thesis
    by (rule obind_oall) (simp, rule place_generates [OF _ _ lab(2)],
      auto simp: generates_def intro: gen_frame_trans [OF lab(3)])
qed

lemma if_else_part:
  assumes inv: "gen_inv S0 P R J g" and r: "readable P r g" and t: "preserves S0 P t" and e: "preserves S0 P e"
    and l: "g_label g = (le, h)" and m: "g_label h = (ln, k)"
  shows "oall (generates S0 P R J g) (obind (t (g_emit (jump_to IR_JZ ty r le) k)) (\<lambda>h.
    let h = g_emit (jump_to IR_JMP TYPE_VOID 0 ln) h; h = g_emit (jump_to IR_LABEL TYPE_VOID 0 le) h in
    obind (e h) (\<lambda>h. Ret (g_emit (jump_to IR_LABEL TYPE_VOID 0 ln) h))))"
proof -
  note lab = inv_label [OF inv l] and lab' = inv_label [OF inv_label(1) [OF inv l] m]
  have fresh: "le \<notin> insert ln R" "ln \<notin> R" using lab(2) lab'(2) by auto
  have le: "le < if_label_count (g_fun k)" using lab(5) gen_frame_counts(3) [OF lab'(3)] by simp
  have "gen_inv S0 P (insert le (insert ln R)) (insert le (insert ln J)) k"
    by (rule inv_weaken [OF lab'(1)]) auto
  from then_part [OF this lab'(7) [OF lab(7) [OF r]] le t] show ?thesis
  proof (rule obind_oall)
    fix a assume a: "generates S0 P (insert le (insert ln R)) (insert le (insert ln J)) k a"
    let ?b = "g_emit (jump_to IR_LABEL TYPE_VOID 0 le) (g_emit (jump_to IR_JMP TYPE_VOID 0 ln) a)"
    have "ln < if_label_count (g_fun a)"
      using lab'(5) a gen_frame_counts(3) [of k a] by (simp add: generates_def)
    then have "gen_inv S0 P (insert le (insert ln R)) (insert le (insert ln J)) (g_emit (jump_to IR_JMP TYPE_VOID 0 ln) a)"
      using a by (intro inv_jump) (auto simp: generates_def)
    from inv_place [OF this fresh(1)] have b: "gen_inv S0 P (insert ln R) (insert ln J) ?b" .
    have "gen_frame g k" using lab(3) lab'(3) by (rule gen_frame_trans)
    then have "gen_frame g a" using a by (auto simp: generates_def intro: gen_frame_trans)
    then have gb: "gen_frame g ?b" by (blast intro: gen_frame_trans frame_emit)
    from preservesD [OF e b] show "oall (generates S0 P R J g) (let h = g_emit (jump_to IR_JMP TYPE_VOID 0 ln) a;
        h = g_emit (jump_to IR_LABEL TYPE_VOID 0 le) h in
        obind (e h) (\<lambda>h. Ret (g_emit (jump_to IR_LABEL TYPE_VOID 0 ln) h)))"
      unfolding Let_def
      by (rule obind_oall) (simp, rule place_generates [OF _ _ fresh(2)],
        auto simp: generates_def intro: gen_frame_trans [OF gb])
  qed
qed

lemma while_part:
  assumes inv: "gen_inv S0 P R J g" and b: "preserves S0 P b"
    and l: "g_label g = (ls, h)" and m: "g_label h = (ln, k)"
  shows "oall (generates S0 P R J g) (let k = g_emit (jump_to IR_LABEL TYPE_VOID 0 ls) k in
    obind (gen_expression k c) (\<lambda>(r, h).
    if r = 0 then Ret h
    else obind (b (g_emit (jump_to IR_JZ ty r ln) h)) (\<lambda>h.
      let h = g_emit (jump_to IR_JMP TYPE_VOID 0 ls) h in Ret (g_emit (jump_to IR_LABEL TYPE_VOID 0 ln) h))))"
proof -
  note lab = inv_label [OF inv l] and lab' = inv_label [OF inv_label(1) [OF inv l] m]
  have fresh: "ls \<notin> insert ln R" "ln \<notin> R" using lab(2) lab'(2) by auto
  let ?k = "g_emit (jump_to IR_LABEL TYPE_VOID 0 ls) k"
  have "gen_inv S0 P (insert ls (insert ln R)) (insert ls J) k"
    by (rule inv_weaken [OF lab'(1)]) auto
  from inv_place [OF this fresh(1)] have k: "gen_inv S0 P (insert ln R) J ?k" .
  have placed: "ls \<in> set (labels (ir_code (g_fun x)))" if "gen_frame ?k x" "room (g_fun x)" for x
    using labels_kept [OF that(1)] room_back [OF frame_emit room_back [OF that]]
    by (auto simp: emit_code)
  have gk: "gen_frame g ?k"
    using lab(3) lab'(3) frame_emit by (blast intro: gen_frame_trans)
  have cnt: "ls < if_label_count (g_fun x)" "ln < if_label_count (g_fun x)" if "gen_frame ?k x" for x
    using lab(5) lab'(5) gen_frame_counts(3) [OF lab'(3)] gen_frame_counts(3) [OF that] by simp_all
  show ?thesis
  proof (cases "gen_expression ?k c")
    case (Ret x)
    obtain r h where x: "x = (r, h)" by (cases x)
    have h: "gen_inv S0 P (insert ln R) J h" "gen_frame ?k h" "r \<noteq> 0 \<longrightarrow> readable P r h"
      using gen_expression_yields(1) [OF k, of c] by (simp_all add: Ret x yields_def)
    have gh: "gen_frame g h" using gk h(2) by (rule gen_frame_trans)
    have inv': "gen_inv S0 P (insert ln R) (insert ln J) h" by (rule inv_weaken [OF h(1)]) auto
    have "oall (generates S0 P R J g) (obind (b (g_emit (jump_to IR_JZ ty r ln) h)) (\<lambda>h.
        Ret (g_emit (jump_to IR_LABEL TYPE_VOID 0 ln) (g_emit (jump_to IR_JMP TYPE_VOID 0 ls) h))))" if "r \<noteq> 0"
    proof -
      have "readable P r h" using that h(3) by simp
      from then_part [OF inv' this cnt(2) [OF h(2)] b] show ?thesis
      proof (rule obind_oall)
        fix a assume "generates S0 P (insert ln R) (insert ln J) h a"
        then have a: "gen_inv S0 P (insert ln R) (insert ln J) a" "gen_frame ?k a" "gen_frame g a"
          by (auto simp: generates_def intro: gen_frame_trans [OF h(2)] gen_frame_trans [OF gh])
        have "gen_inv S0 P (insert ln R) (insert ln J) (g_emit (jump_to IR_JMP TYPE_VOID 0 ls) a)"
          using inv_jump [OF a(1), of IR_JMP 0 ls TYPE_VOID] cnt(1) [OF a(2)] placed [OF a(2)] by simp
        then show "oall (generates S0 P R J g)
            (Ret (g_emit (jump_to IR_LABEL TYPE_VOID 0 ln) (g_emit (jump_to IR_JMP TYPE_VOID 0 ls) a)))"
          using place_generates [OF gen_frame_trans [OF a(3) frame_emit] _ fresh(2)] by simp
      qed
    qed
    then show ?thesis
      using inv_weaken [OF h(1), of R J] gh by (auto simp: Ret x generates_def Let_def)
  qed simp_all
qed

theorem gen_statement_preserves: "preserves S0 P (\<lambda>g. gen_statement g s)"
proof (induction s)
  case (AstBlock i ss)
  then have ss: "preserves S0 P (\<lambda>g. gen_statements g ss)" by (simp add: gen_statements_preserves)
  show ?case
    unfolding preserves_def gen_statement.simps gen_block_def Let_def
  proof (intro allI impI)
    fix R J g assume g: "gen_inv S0 P R J g"
    show "oall (generates S0 P R J g) (obind (gen_statements g ss) (\<lambda>h.
        obind (symbol_table_restore (g_symbols h) (st_changes (g_symbols g))) (\<lambda>st. Ret (h\<lparr>g_symbols := st\<rparr>))))"
      by (rule obind_oall [OF preservesD [OF ss g]]) (simp add: gen_block_generates [OF g])
  qed
next
  case (AstIf i c t e)
  show ?case
    unfolding preserves_def gen_statement.simps gen_if_def
  proof (intro allI impI, rule expression_bind, assumption)
    fix R J g r h assume h: "gen_inv S0 P R J h" "gen_frame g h" "r \<noteq> 0 \<longrightarrow> readable P r h"
    show "oall (generates S0 P R J g) (obind (node_type_of c) (\<lambda>ty.
        if e \<noteq> AstNull then let (le, h) = g_label h; (ln, h) = g_label h in
          if r = 0 then Ret h
          else obind (gen_statement (g_emit (jump_to IR_JZ ty r le) h) t) (\<lambda>h.
            let h = g_emit (jump_to IR_JMP TYPE_VOID 0 ln) h;
                h = g_emit (jump_to IR_LABEL TYPE_VOID 0 le) h in
            obind (gen_statement h e) (\<lambda>h. Ret (g_emit (jump_to IR_LABEL TYPE_VOID 0 ln) h)))
        else let (ln, h) = g_label h in
          if r = 0 then Ret h
          else obind (gen_statement (g_emit (jump_to IR_JZ ty r ln) h) t) (\<lambda>h.
            Ret (g_emit (jump_to IR_LABEL TYPE_VOID 0 ln) h))))"
    proof (cases "node_type_of c")
      case (Ret ty)
      obtain l a where l: "g_label h = (l, a)" by force
      obtain m k where m: "g_label a = (m, k)" by force
      note la = inv_label [OF h(1) l] and ma = inv_label [OF inv_label(1) [OF h(1) l] m]
      have ga: "gen_frame g a" using h(2) la(3) by (rule gen_frame_trans)
      have "gen_inv S0 P R J a" "gen_inv S0 P R J k" "gen_frame g k"
        using inv_weaken [OF la(1), of R J] inv_weaken [OF ma(1), of R J] gen_frame_trans [OF ga ma(3)] by auto
      then show ?thesis
        using h ga generates_frame [OF h(2) if_part [OF h(1) _ AstIf.IH(2) l]]
          generates_frame [OF h(2) if_else_part [OF h(1) _ AstIf.IH(2,3) l m]]
        by (simp add: Ret l m generates_def)
    qed simp_all
  qed
next
  case (AstWhile i c b)
  show ?case
    unfolding preserves_def
  proof (intro allI impI)
    fix R J g assume g: "gen_inv S0 P R J g"
    obtain l a where l: "g_label g = (l, a)" by force
    obtain m k where m: "g_label a = (m, k)" by force
    show "oall (generates S0 P R J g) (gen_statement g (AstWhile i c b))"
      using while_part [OF g AstWhile.IH(2) l m, of c] by (cases "node_type_of c") (simp_all add: gen_while_def l m)
  qed
qed (auto simp: preserves_def generates_refl gen_var_decl_generates gen_assignment_generates gen_return_generates
    simp del: gen_expression.simps intro!: expression_bind, auto simp: generates_def)

section \<open>Functions\<close>

lemma gen_init_inv: "gen_inv S0 1 {} {} (gen_init (ir_function_init S0 nm errors filename))"
  by (simp add: gen_inv_def fun_inv_def gen_init_def ir_function_init_def chunks_ok_def ir_code_def Let_def
    symbols_bound_def MAX_VREGS_PER_FUNCTION_def room_def)

lemma reads_ok_mono: "reads_ok P is \<Longrightarrow> P \<le> P' \<Longrightarrow> reads_ok P' is"
  unfolding reads_ok_def by (auto simp: subset_iff) (meson less_le_trans)

text \<open>A parameter's register joins the ones that may be read from the start.\<close>

lemma inv_param:
  assumes "gen_inv S0 P R J g" "P = if_vreg_count (g_fun g)" "g_alloc g = (Some v, h)"
    and "symbol_table_add (g_symbols h) nm v = Ret st"
  shows "gen_inv S0 (Suc P) R J (h\<lparr>g_symbols := st\<rparr>)" "if_vreg_count (g_fun h) = Suc P"
    "gen_frame g (h\<lparr>g_symbols := st\<rparr>)"
proof -
  note h = alloc_Some [OF assms(3)]
  let ?h = "h\<lparr>g_symbols := st\<rparr>"
  have ok: "symbols_ok (g_symbols h)" "symbols_bound S0 P (if_stack_count (g_fun h)) (g_symbols h)" "1 \<le> P"
    using assms(1) by (simp_all add: h(1) gen_inv_def fun_inv_def Let_def)
  show P: "if_vreg_count (g_fun h) = Suc P" by (simp add: h assms(2))
  have "symbols_bound S0 (Suc P) (if_stack_count (g_fun h)) st"
    using symbol_table_add_map [OF ok(1) assms(4)] symbols_bound_mono [OF ok(2), of "Suc P"]
      symbols_bound_upd [of S0 "Suc P" _ "g_symbols h" st nm] ok(3) by (simp add: h(2) assms(2))
  moreover have "fun_inv S0 P R J (g_fun h)"
    using inv_alloc [OF assms(1,3)] by (simp add: gen_inv_def)
  moreover have "defs (ir_code (g_fun h)) = []"
    using assms(1,2) by (simp add: h(1) gen_inv_def fun_inv_def Let_def ir_code_def)
  ultimately show "gen_inv S0 (Suc P) R J ?h"
    using symbol_table_add_map [OF ok(1) assms(4)]
    by (simp add: gen_inv_def fun_inv_def Let_def P reads_ok_mono [of P _ "Suc P"])
  show "gen_frame g ?h"
    using frame_alloc [OF assms(3)] since_add [OF assms(4)]
    by (auto simp: gen_frame_def intro: since_trans)
qed

lemma gen_params_inv:
  "gen_params g ps = Ret (r, h) \<Longrightarrow> gen_inv S0 P {} {} g \<Longrightarrow> P = if_vreg_count (g_fun g) \<Longrightarrow>
   (\<forall>k. r = Some k \<longrightarrow> gen_inv S0 (P + length ps) {} {} k \<and> gen_frame g k) \<and> extends (if_errors (g_fun g)) (if_errors (g_fun h))"
proof (induction ps arbitrary: g P)
  case Nil
  then show ?case by auto
next
  case (Cons p ps)
  obtain v a where al: "g_alloc g = (v, a)" by force
  show ?case
  proof (cases v)
    case None
    with Cons.prems al frame_alloc [OF al] show ?thesis by (auto simp: gen_frame_def)
  next
    case (Some w)
    with Cons.prems al obtain st where st: "symbol_table_add (g_symbols a) (param_name p) w = Ret st"
        and rest: "gen_params (a\<lparr>g_symbols := st\<rparr>) ps = Ret (r, h)"
      by (auto simp: outcome_simps)
    note i = inv_param [OF Cons.prems(2,3) al [unfolded Some] st]
    show ?thesis
      using Cons.IH [OF rest i(1)] i(2,3) gen_frame_trans [OF i(3)]
      by (auto simp: gen_frame_def intro: extends_trans)
  qed
qed

text \<open>Registers \<open>{1..<param_limit root}\<close> hold the parameters.\<close>

fun param_limit :: "ast \<Rightarrow> nat" where
  "param_limit (AstFunction _ _ _ ps _ _) = 1 + length ps"
| "param_limit _ = 1"

lemma ir_finish_room:
  "ir_finish g = Ret (Some f, errs) \<Longrightarrow> f = g_fun g \<and> errs = if_errors f \<and> room f"
  by (auto simp: ir_finish_def Let_def room_def split: if_splits)

lemma ir_finish_inv:
  "generates S0 P {} {} g h \<Longrightarrow> ir_finish h = Ret (Some f, errs) \<Longrightarrow>
   fun_inv S0 P {} {} f \<and> room f \<and> errs = if_errors f \<and> extends (if_errors (g_fun g)) (if_errors f)"
  by (drule ir_finish_room) (auto simp: generates_def gen_inv_def gen_frame_def)

theorem ir_gen_inv:
  assumes "ir_gen S0 junk root errors filename = Ret (Some f, errs)"
  shows "fun_inv S0 (param_limit root) {} {} f \<and> room f \<and> errs = if_errors f \<and> extends errors (if_errors f)"
proof -
  note init = gen_init_inv [of S0 _ errors filename]
  let ?g = "\<lambda>nm. gen_init (ir_function_init S0 nm errors filename)"
  have errs0: "if_errors (g_fun (?g nm)) = errors" for nm
    by (simp add: gen_init_def ir_function_init_def)
  have expr: "fun_inv S0 1 {} {} f \<and> room f \<and> errs = if_errors f \<and> extends errors (if_errors f)"
    if "obind (gen_expression (?g junk) root) (\<lambda>(r, g).
          if r = 0 then Ret (None, if_errors (g_fun g))
          else obind (node_type_of root) (\<lambda>t.
            ir_finish (g_emit ((instr_of IR_RET t)\<lparr>in_src1 := r\<rparr>) g))) = Ret (Some f, errs)"
  proof -
    from that obtain r h t where h: "gen_expression (?g junk) root = Ret (r, h)" "r \<noteq> 0"
        and fin: "ir_finish (g_emit ((instr_of IR_RET t)\<lparr>in_src1 := r\<rparr>) h) = Ret (Some f, errs)"
      by (auto simp: outcome_simps split: if_splits)
    have y: "gen_inv S0 1 {} {} h" "gen_frame (?g junk) h" "readable 1 r h"
      using gen_expression_yields(1) [OF init, of junk root] h by (simp_all add: yields_def)
    have "generates S0 1 {} {} (?g junk) (g_emit ((instr_of IR_RET t)\<lparr>in_src1 := r\<rparr>) h)"
      by (rule emit_generates [OF y(2,1)]) (use y(3) in \<open>auto simp: operand_simps is_jump_def readable_def\<close>)
    from ir_finish_inv [OF this fin] show ?thesis by (simp add: errs0)
  qed
  have block: "fun_inv S0 P {} {} f \<and> room f \<and> errs = if_errors f \<and> extends errors (if_errors f)"
    if "obind (gen_statements g ss) ir_finish = Ret (Some f, errs)" "gen_inv S0 P {} {} g"
      "extends errors (if_errors (g_fun g))" for g ss P
  proof -
    from that obtain h where h: "gen_statements g ss = Ret h" "ir_finish h = Ret (Some f, errs)"
      by (auto simp: outcome_simps)
    have "generates S0 P {} {} g h"
      using preservesD [OF gen_statements_preserves [of ss S0 P] that(2)] h(1) by (simp add: gen_statement_preserves)
    from ir_finish_inv [OF this h(2)] that(3) show ?thesis by (auto intro: extends_trans)
  qed
  show ?thesis
  proof (cases root)
    case (AstFunction i nm ret ps body proto)
    from assms obtain g h where g: "gen_params (?g nm) ps = Ret (Some g, h)"
        and body: "obind (case body of AstBlock _ ss \<Rightarrow> gen_statements g ss | _ \<Rightarrow> Ret g) ir_finish = Ret (Some f, errs)"
      by (auto simp: AstFunction outcome_simps split: option.splits)
    have "gen_inv S0 (1 + length ps) {} {} g" "extends errors (if_errors (g_fun g))"
      using gen_params_inv [OF g init] by (simp_all add: errs0 gen_frame_def) (simp_all add: gen_init_def ir_function_init_def)
    note blk = block [OF _ this]
    have "obind (gen_statements g (case body of AstBlock _ ss \<Rightarrow> ss | _ \<Rightarrow> [])) ir_finish = Ret (Some f, errs)"
      using body by (cases body) simp_all
    from blk [OF this] show ?thesis by (simp only: AstFunction param_limit.simps)
  next
    case (AstBlock i ss)
    have "extends errors (if_errors (g_fun (?g junk)))" by (simp add: errs0)
    note blk = block [OF _ init this]
    have "obind (gen_statements (?g junk) ss) ir_finish = Ret (Some f, errs)"
      using assms by (simp add: AstBlock)
    from blk [OF this] show ?thesis by (simp only: AstBlock param_limit.simps)
  qed (use assms expr in \<open>auto simp del: gen_expression.simps\<close>)
qed

section \<open>Failures are reported\<close>

abbreviation gen_errors :: "gen \<Rightarrow> nat" where
  "gen_errors g \<equiv> error_count (if_errors (g_fun g))"

lemma gen_frame_errors: "gen_frame g h \<Longrightarrow> gen_errors g \<le> gen_errors h"
  by (auto simp: gen_frame_def intro: extends_error_count)

lemma error_grows [simp]: "error_count (if_errors f) < error_count (if_errors (codegen_error ln c t f))"
  by (simp add: codegen_error_def)

lemma with_vreg_zero:
  assumes "gen_inv S0 P R J g" "with_vreg g (\<lambda>v h. Ret (v, k v h)) = Ret (0, h)"
  shows "gen_errors g < gen_errors h"
proof (cases "g_alloc g")
  case (Pair v a)
  show ?thesis
  proof (cases v)
    case None
    with Pair have "h = a" using assms(2) by (simp add: with_vreg_def)
    then show ?thesis using alloc_None [OF Pair [unfolded None]] by (metis error_grows g_fun_simps(3))
  next
    case (Some w)
    then have "w = 0" using Pair assms(2) by (simp add: with_vreg_def)
    then show ?thesis
      using assms(1) alloc_Some(2) [OF Pair [unfolded Some]] by (simp add: gen_inv_def fun_inv_def Let_def)
  qed
qed

lemma gen_identifier_zero:
  assumes "gen_inv S0 P R J g" "gen_identifier g i nm = Ret (0, h)"
  shows "gen_errors g < gen_errors h"
proof (cases "symbol_table_lookup (g_symbols g) nm")
  case None
  then show ?thesis using assms(2) by (auto simp: gen_identifier_def)
next
  case (Some cur)
  then have "sy_is_stack (st_entries (g_symbols g) cur) \<or> 1 \<le> sy_index (st_entries (g_symbols g) cur)"
    using assms(1) symbol_lookup_Some [OF Some] unfolding gen_inv_def symbols_bound_def
    by (metis atLeastLessThan_iff)
  then show ?thesis
    using assms with_vreg_zero by (auto simp: gen_identifier_def Some Let_def split: if_splits)
qed

lemma gen_expression_zero:
  "gen_inv S0 P R J g \<Longrightarrow> complete_expr e \<Longrightarrow> gen_expression g e = Ret (r, h) \<Longrightarrow> r = 0 \<Longrightarrow> gen_errors g < gen_errors h"
  "gen_inv S0 P R J g \<Longrightarrow> list_all complete_expr es \<Longrightarrow> gen_args g n es = Ret (rs, h) \<Longrightarrow> rs = None \<Longrightarrow>
   gen_errors g < gen_errors h"
proof (induction g e and g n es arbitrary: r h and rs h rule: gen_expression_gen_args.induct)
  case (2 g i v)
  then show ?case using with_vreg_zero by (simp add: gen_number_def)
next
  case (3 g i nm)
  then show ?case using gen_identifier_zero by simp
next
  case (4 g i nm args)
  from 4(4) obtain rs k where k: "gen_args g 0 args = Ret (rs, k)" by (auto simp: outcome_simps)
  have y: "yields_args S0 P R J 0 (length args) g (rs, k)"
    using gen_expression_yields(2) [OF 4(2), of 0 args] by (simp add: k)
  show ?case
  proof (cases rs)
    case None
    then show ?thesis using 4(1) [OF 4(2) _ k] 4(3,4) by (simp add: k)
  next
    case (Some xs)
    with y have inv: "gen_inv S0 P R J k" "gen_frame g k" "\<forall>r \<in> set xs. readable P r k"
        "length xs \<le> MAX_PARAMS_PER_FUNCTION \<or> xs = []"
      by (auto simp: yields_args_def)
    obtain a where a: "emit_args k 0 args xs = Ret a" using 4(4) by (auto simp: k Some outcome_simps)
    have a': "gen_inv S0 P R J a" "gen_frame k a"
      using emit_args_inv [OF inv(1,3), of 0 args] inv(4) by (auto simp: a)
    have "gen_errors g \<le> gen_errors a"
      using gen_frame_errors [OF inv(2)] gen_frame_errors [OF a'(2)] by simp
    moreover have "gen_errors a < gen_errors h"
      using with_vreg_zero [OF a'(1)] 4(4,5) by (simp add: k Some a)
    ultimately show ?thesis by simp
  qed
next
  case (5 g op i e)
  from 5(4) obtain x k where k: "gen_expression g e = Ret (x, k)" by (auto simp: outcome_simps)
  have inv: "gen_inv S0 P R J k" "gen_frame g k"
    using gen_expression_yields(1) [OF 5(2), of e] by (simp_all add: k yields_def)
  show ?case
    using 5(1) [OF 5(2) _ k] 5(3-5) with_vreg_zero [OF inv(1)] gen_frame_errors [OF inv(2)]
    by (fastforce simp: k split: if_splits)
next
  case (6 g op i l e)
  from 6(5) obtain x k where k: "gen_expression g l = Ret (x, k)" by (auto simp: outcome_simps)
  have inv: "gen_inv S0 P R J k" "gen_frame g k"
    using gen_expression_yields(1) [OF 6(3), of l] by (simp_all add: k yields_def)
  obtain t where t: "node_type_of l = Ret t"
    using 6(4) by (cases l) (auto simp: node_type_of_def)
  show ?case
  proof (cases "x = 0")
    case True
    then show ?thesis using 6(1) [OF 6(3) _ k] 6(4,5) by (simp add: k)
  next
    case False
    then obtain y m where m: "gen_expression k e = Ret (y, m)" using 6(5) by (auto simp: k outcome_simps)
    have inv': "gen_inv S0 P R J m" "gen_frame k m"
      using gen_expression_yields(1) [OF inv(1), of e] by (simp_all add: m yields_def)
    have "gen_errors k < gen_errors h"
      using 6(2) [OF k refl False inv(1) _ m] 6(4-6) False with_vreg_zero [OF inv'(1)] gen_frame_errors [OF inv'(2)]
      by (fastforce simp: k m t split: if_splits)
    then show ?thesis using gen_frame_errors [OF inv(2)] by simp
  qed
next
  case (9 g n arg args)
  from 9(5) obtain x k where k: "gen_expression g arg = Ret (x, k)" by (auto simp: outcome_simps)
  have inv: "gen_inv S0 P R J k" "gen_frame g k"
    using gen_expression_yields(1) [OF 9(3), of arg] by (simp_all add: k yields_def)
  show ?case
  proof (cases "x = 0")
    case True
    then show ?thesis using 9(1) [OF 9(3) _ k] 9(4,5) by (simp add: k split: if_splits)
  next
    case False
    then obtain rs' m where m: "gen_args k (Suc n) args = Ret (rs', m)" "\<not> n \<ge> MAX_PARAMS_PER_FUNCTION"
        "h = m" "rs' = None"
      using 9(5,6) by (auto simp: k outcome_simps split: if_splits)
    have "gen_errors k < gen_errors m"
      using 9(2) [OF k refl m(2) False inv(1) _ m(1,4)] 9(4) by simp
    then show ?thesis using gen_frame_errors [OF inv(2)] m(3) by simp
  qed
qed auto

end
