(* ===== verification/BackEnd.thy ===== *)
theory BackEnd
  imports IrStatementFacts
begin

text \<open>
  The properties of the back end, one theorem each: the symbol table of the generator and its undo
  log, the chunked instruction lists and the intermediate code.
\<close>

section \<open>The symbol table\<close>

text \<open>
  The declarations a scope makes: \<open>gen_params\<close> adds registers, \<open>gen_var_decl\<close> adds a stack slot and
  marks the entry through the pointer of a lookup.
\<close>

fun declare_all :: "symbol_table \<Rightarrow> (string \<times> nat \<times> bool) list \<Rightarrow> symbol_table outcome" where
  "declare_all st [] = Ret st"
| "declare_all st ((name, index, on_stack) # ds) =
     obind (symbol_table_add st name index) (\<lambda>st.
       declare_all (if on_stack then
                      (case symbol_table_lookup st name of None \<Rightarrow> st | Some cur \<Rightarrow> symbol_set_stack st cur)
                    else st) ds)"

lemma declare_one:
  assumes "symbols_ok st" "symbol_table_add st nm v = Ret st'"
  shows "symbols_ok (if b then (case symbol_table_lookup st' nm of None \<Rightarrow> st' | Some c \<Rightarrow> symbol_set_stack st' c) else st') \<and>
    since st (if b then (case symbol_table_lookup st' nm of None \<Rightarrow> st' | Some c \<Rightarrow> symbol_set_stack st' c) else st') \<and>
    symbol_map (if b then (case symbol_table_lookup st' nm of None \<Rightarrow> st' | Some c \<Rightarrow> symbol_set_stack st' c) else st') =
      (symbol_map st)(nm \<mapsto> \<lparr>sy_name = nm, sy_index = v, sy_is_stack = b, sy_occupied = True\<rparr>)"
proof -
  note m = symbol_table_add_map [OF assms]
  then obtain c where c: "symbol_table_lookup st' nm = Some c"
      "st_entries st' c = \<lparr>sy_name = nm, sy_index = v, sy_is_stack = False, sy_occupied = True\<rparr>"
    using lookup_symbol_map [of st' nm] by auto
  then show ?thesis
    using m since_add [OF assms(2)] since_add_set_stack [OF assms(2) c(1) assms(1)] symbol_set_stack_map [OF _ c(1)]
    by auto
qed

lemma declare_all_since:
  "declare_all st ds = Ret st' \<Longrightarrow> symbols_ok st \<Longrightarrow> symbols_ok st' \<and> since st st' \<and>
   symbol_map st' = foldl (\<lambda>m (nm, v, b). m(nm \<mapsto> \<lparr>sy_name = nm, sy_index = v, sy_is_stack = b, sy_occupied = True\<rparr>))
     (symbol_map st) ds"
proof (induction st ds rule: declare_all.induct)
  case (2 st nm v b ds)
  then obtain st1 where st1: "symbol_table_add st nm v = Ret st1"
    by (auto simp: outcome_simps)
  show ?case
    using 2(1) [OF st1] 2(2) declare_one [OF 2(3) st1, of b] by (auto simp: st1 intro: since_trans)
qed simp

lemma declare_twice:
  "\<exists>st'. declare_all empty_symbol_table [(nm, a, False), (nm, b, True)] = Ret st'"
proof -
  obtain st where st: "symbol_table_add empty_symbol_table nm a = Ret st"
  proof (cases "symbol_table_add empty_symbol_table nm a")
    case (Fault e)
    then show ?thesis
      using symbol_table_add_Exited [OF Fault, THEN conjunct2, THEN spec, of 0]
      by (simp add: empty_symbol_table_def zero_symbol_def SYMBOL_TABLE_SIZE_def)
  qed (auto simp: symbol_table_add_def split: option.splits)
  obtain c where "symbol_table_lookup st nm = Some c"
    using symbol_table_add_map [OF symbols_ok_empty st] lookup_symbol_map [of st nm] by auto
  then have "symbol_find (st_entries st) nm = Some c" using symbol_lookup_Some by blast
  then have "\<exists>st2. symbol_table_add st nm b = Ret st2" by (simp add: symbol_table_add_def)
  then show ?thesis by (auto simp: st)
qed

text \<open>C35: Declarations are lookups. After any declarations, looking a name up finds its last declaration, and the
  names not declared as before; the table keeps its open-addressing invariant.\<close>

theorem declarations_lookup:
  assumes "symbols_ok st" and "declare_all st ds = Ret st'"
  shows "symbols_ok st' \<and> map_option (st_entries st') (symbol_table_lookup st' name) =
    foldl (\<lambda>m (nm, v, b). m(nm \<mapsto> \<lparr>sy_name = nm, sy_index = v, sy_is_stack = b, sy_occupied = True\<rparr>))
      (\<lambda>nm. map_option (st_entries st) (symbol_table_lookup st nm)) ds name"
  using declare_all_since [OF assms(2,1)] by (simp add: lookup_symbol_map)

theorem declarations_lookup_witness:
  "\<exists>st'. declare_all empty_symbol_table [(''x'', 1, False), (''x'', 4, True)] = Ret st' \<and>
     map_option (st_entries st') (symbol_table_lookup st' ''x'') =
       Some \<lparr>sy_name = ''x'', sy_index = 4, sy_is_stack = True, sy_occupied = True\<rparr>"
proof -
  obtain st' where st': "declare_all empty_symbol_table [(''x'', 1, False), (''x'', 4, True)] = Ret st'"
    using declare_twice by blast
  show ?thesis
    using declarations_lookup [OF symbols_ok_empty st', of "''x''"] st' by auto
qed

text \<open>C26: Leaving a scope is exact. Whatever a scope declares, replaying the log back to the mark taken on
  entry gives back the very table of the entry, slot for slot.\<close>

theorem restore_undoes_declarations:
  assumes "symbols_ok st" and "declare_all st ds = Ret st'"
  shows "symbol_table_restore st' (st_changes st) = Ret st"
  using declare_all_since [OF assms(2,1)] symbol_table_restore_exact by blast

theorem restore_undoes_declarations_witness:
  "\<exists>st'. declare_all empty_symbol_table [(''x'', 1, False), (''x'', 2, True)] = Ret st' \<and>
     symbol_table_restore st' [] = Ret empty_symbol_table"
proof -
  obtain st' where st': "declare_all empty_symbol_table [(''x'', 1, False), (''x'', 2, True)] = Ret st'"
    using declare_twice by blast
  with restore_undoes_declarations [OF symbols_ok_empty st'] show ?thesis
    by (auto simp: empty_symbol_table_def)
qed

section \<open>Instruction lists\<close>

text \<open>C36: Chunks refine lists. Appending to the linked chunks of 64 appends to the list of instructions they
  hold, unless the limit is reached, and keeps every chunk but the last one full and the counter
  exact; the dump prints that list.\<close>

theorem emit_appends:
  assumes "chunks_ok f"
  shows "ir_code (emit i f) = (if if_total_count f < MAX_IR_INSTRUCTIONS_PER_FUNCTION then ir_code f @ [i] else ir_code f) \<and>
    chunks_ok (emit i f) \<and> ir_print (emit i f) = map format_instruction (ir_code (emit i f))"
  using assms emit_code [of f i] emit_full [of f i] emit_chunks_ok
  by (simp add: ir_print_code room_def)

theorem emit_appends_witness:
  "ir_print (emit (instr_of IR_RET TYPE_INT) (ir_function_init 0 ''f'' error_context_init ''a.c'')) = [''RET %v0'']"
proof -
  have "chunks_ok (ir_function_init 0 ''f'' error_context_init ''a.c'')"
    by (simp add: chunks_ok_def ir_function_init_def ir_code_def)
  moreover have "ir_code (ir_function_init 0 ''f'' error_context_init ''a.c'') = []"
    "if_total_count (ir_function_init 0 ''f'' error_context_init ''a.c'') = 0"
    by (simp_all add: ir_function_init_def ir_code_def)
  moreover have "format_instruction (instr_of IR_RET TYPE_INT) = ''RET %v0''" by code_simp
  ultimately show ?thesis
    using emit_appends [of "ir_function_init 0 ''f'' error_context_init ''a.c''" "instr_of IR_RET TYPE_INT"]
    by (simp add: MAX_IR_INSTRUCTIONS_PER_FUNCTION_def)
qed

section \<open>Code generation\<close>

text \<open>C10: The intermediate code of a function is well formed. When \<open>ir_gen\<close> returns a function, no
  instruction was dropped, every register, stack slot, argument number and label an instruction names is in
  range, every register is defined at most once and read only after its definition (parameters
  apart), no label is placed twice, every jump goes to a label that is placed, and the diagnostics
  only grow.\<close>

theorem ir_gen_well_formed:
  assumes "ir_gen S0 junk root errors filename = Ret (Some f, errs)"
  shows "if_total_count f = length (ir_code f) \<and> if_total_count f < MAX_IR_INSTRUCTIONS_PER_FUNCTION \<and>
    if_vreg_count f \<le> MAX_VREGS_PER_FUNCTION \<and>
    list_all (instr_ok (if_vreg_count f) S0 (if_stack_count f) (if_label_count f)) (ir_code f) \<and>
    distinct (defs (ir_code f)) \<and> set (defs (ir_code f)) \<subseteq> {param_limit root..<if_vreg_count f} \<and>
    reads_ok (param_limit root) (ir_code f) \<and>
    distinct (labels (ir_code f)) \<and> targets (ir_code f) \<subseteq> set (labels (ir_code f)) \<and>
    errs = if_errors f \<and> extends errors errs"
  using ir_gen_inv [OF assms] by (simp add: fun_inv_def Let_def room_def chunks_ok_def)

text \<open>\<open>int f() { while (1) { } return 7; }\<close>\<close>

definition sample_loop :: ast where
  "sample_loop = AstFunction zero_info ''f'' TYPE_INT []
     (AstBlock zero_info
       [AstWhile zero_info (AstNumber zero_info ''1'') (AstBlock zero_info []),
        AstReturn zero_info (AstNumber zero_info ''7'')]) False"

theorem ir_gen_well_formed_witness:
  "\<exists>f errs. ir_gen 0 [] sample_loop error_context_init ''a.c'' = Ret (Some f, errs) \<and>
     targets (ir_code f) \<subseteq> set (labels (ir_code f))"
proof -
  have "\<exists>f errs. ir_gen 0 [] sample_loop error_context_init ''a.c'' = Ret (Some f, errs)"
    by (simp add: sample_loop_def gen_while_def gen_block_def gen_init_def ir_function_init_def g_label_def g_emit_def gen_number_def with_vreg_def
        g_alloc_def ir_alloc_vreg_def emit_def node_type_of_def symbol_table_restore_def restore_loop.simps
        gen_return_def ir_finish_def MAX_IR_INSTRUCTIONS_PER_FUNCTION_def MAX_VREGS_PER_FUNCTION_def IR_CHUNK_SIZE_def
        empty_symbol_table_def)
  then show ?thesis using ir_gen_well_formed by blast
qed

text \<open>C28: No silent failure. The generator gives up on an expression that is all there (result
  register 0) only after reporting a diagnostic.\<close>

theorem gen_expression_reports:
  assumes "complete_expr e" and "gen_inv S0 P R J g" and "gen_expression g e = Ret (0, h)"
  shows "error_count (if_errors (g_fun g)) < error_count (if_errors (g_fun h))"
  using gen_expression_zero(1) [OF assms(2,1,3)] by simp

theorem gen_expression_reports_witness:
  "\<exists>h. gen_expression (gen_init (ir_function_init 0 ''f'' error_context_init ''a.c''))
      (AstAssignment zero_info ''x'' (AstNumber zero_info ''1'')) = Ret (0, h) \<and>
     0 < error_count (if_errors (g_fun h))"
proof -
  let ?g = "gen_init (ir_function_init 0 ''f'' error_context_init ''a.c'')"
  let ?e = "AstAssignment zero_info ''x'' (AstNumber zero_info ''1'')"
  obtain h where h: "gen_expression ?g ?e = Ret (0, h)" by simp
  have "complete_expr ?e" by simp
  from gen_expression_reports [OF this gen_init_inv h] h show ?thesis by auto
qed

end
