(* ===== verification/Validation.thy ===== *)
theory Validation
  imports Lexer Diagnostics
begin

text \<open>
  \<open>srcs/validation/validation.c\<close> and \<open>incs/bounds.h\<close>: what is checked of source files before they are
  read, of identifiers and literals, and the checked arithmetic of the bounds header. The file system
  is the parameter \<open>os\<close>.
\<close>

section \<open>The operating system\<close>

text \<open>
  \<open>realpath\<close>; the size and kind \<open>stat\<close> reports; \<open>access (p, R_OK)\<close>; the contents \<open>open\<close> gives
  access to; whether \<open>fstat\<close> succeeds on them; where \<open>mmap\<close> places them; and the text of
  \<open>strerror (errno)\<close>. An open file is identified with its contents.
\<close>

record os =
  os_realpath :: "string \<Rightarrow> string option"
  os_stat :: "string \<Rightarrow> (nat \<times> bool) option"
  os_readable :: "string \<Rightarrow> bool"
  os_open :: "string \<Rightarrow> string option"
  os_fstat :: "string \<Rightarrow> bool"
  os_map :: "string \<Rightarrow> nat option"
  os_error :: string

record file_validation =
  fv_exists :: bool
  fv_readable :: bool
  fv_is_regular_file :: bool
  fv_size :: nat
  fv_canonical_path :: string

definition MAX_SOURCE_FILE_SIZE :: nat where "MAX_SOURCE_FILE_SIZE = 10 * 1024 * 1024"

text \<open>\<open>PATH_MAX\<close> of \<open>limits.h\<close>.\<close>

definition PATH_MAX :: nat where "PATH_MAX = 4096"

definition validate_file_extension :: "string \<Rightarrow> string \<Rightarrow> bool" where
  "validate_file_extension filepath expected_ext =
     (if length filepath < length expected_ext then False
      else drop (length filepath - length expected_ext) filepath = expected_ext)"

definition validate_file_size :: "nat \<Rightarrow> nat \<Rightarrow> string \<Rightarrow> error_context \<Rightarrow> bool \<times> error_context" where
  "validate_file_size sz max_size filepath errors =
     (if sz = 0 then
        (True, error_add errors ERROR_SYSTEM ERROR_LEVEL_WARNING (Some filepath) 0 0 ''file is empty'')
      else if sz > max_size then
        (False, error_fatal errors (Some filepath) 0 0
          (''file too large: '' @ fmt_nat sz @ '' bytes (max '' @ fmt_nat max_size @ '')''))
      else (True, errors))"

definition zero_validation :: file_validation where
  "zero_validation = \<lparr>fv_exists = False, fv_readable = False, fv_is_regular_file = False, fv_size = 0,
                      fv_canonical_path = []\<rparr>"

definition validate_source_file ::
  "os \<Rightarrow> string \<Rightarrow> error_context \<Rightarrow> bool \<times> file_validation \<times> error_context" where
  "validate_source_file sys filepath errors =
     (let out = zero_validation in
      if filepath = [] then (False, out, error_fatal errors None 0 0 ''empty filepath provided'')
      else if length filepath \<ge> PATH_MAX then
        (False, out, error_fatal errors None 0 0 (''filepath too long (max '' @ fmt_nat PATH_MAX @ '')''))
      else case os_realpath sys filepath of
        None \<Rightarrow> (False, out, error_fatal errors (Some filepath) 0 0 (''cannot resolve filepath: '' @ os_error sys))
      | Some path \<Rightarrow>
          let out = out\<lparr>fv_canonical_path := path\<rparr> in
          case os_stat sys path of
            None \<Rightarrow> (False, out, error_fatal errors (Some filepath) 0 0 (''cannot access file: '' @ os_error sys))
          | Some (st_size, is_reg) \<Rightarrow>
              let out = out\<lparr>fv_exists := True, fv_size := st_size\<rparr> in
              if \<not> is_reg then (False, out, error_fatal errors (Some filepath) 0 0 ''not a regular file'')
              else
                let out = out\<lparr>fv_is_regular_file := True\<rparr> in
                if \<not> os_readable sys path then
                  (False, out, error_fatal errors (Some filepath) 0 0 (''file not readable: '' @ os_error sys))
                else
                  let out = out\<lparr>fv_readable := True\<rparr>;
                      (size_ok, errors) = validate_file_size st_size MAX_SOURCE_FILE_SIZE filepath errors in
                  if \<not> validate_file_extension filepath ''.c'' then
                    (False, out, error_fatal errors (Some filepath) 0 0 ''expected .c file extension'')
                  else (size_ok, out, errors))"

section \<open>Identifiers\<close>

definition reserved :: "string list" where
  "reserved = [
     ''auto'', ''break'', ''case'', ''char'', ''const'', ''continue'', ''default'',
     ''do'', ''double'', ''else'', ''enum'', ''extern'', ''float'', ''for'', ''goto'',
     ''if'', ''inline'', ''int'', ''long'', ''register'', ''restrict'', ''return'',
     ''short'', ''signed'', ''sizeof'', ''static'', ''struct'', ''switch'', ''typedef'',
     ''union'', ''unsigned'', ''void'', ''volatile'', ''while'', ''_Bool'', ''_Complex'',
     ''_Imaginary'']"

text \<open>\<open>strncmp (name, r, len) == 0 && r[len] == '\0'\<close> for a name without NUL.\<close>

definition is_reserved :: "string \<Rightarrow> bool" where
  "is_reserved name \<longleftrightarrow> list_ex (\<lambda>r. take (length name) r = name \<and> length r = length name) reserved"

definition validate_identifier :: "string \<Rightarrow> error_context \<Rightarrow> string \<Rightarrow> int \<Rightarrow> bool \<times> error_context" where
  "validate_identifier name errors filename ln =
     (let err = error_semantic errors (Some filename) ln 0 in
      if name = [] then (False, err ''empty identifier'')
      else if \<not> is_alpha (hd name) \<and> hd name \<noteq> CHR ''_'' then
        (False, err ''identifiers must start with letter or underscore'')
      else case find (\<lambda>c. \<not> is_alnum c \<and> c \<noteq> CHR ''_'') name of
        Some c \<Rightarrow> (False, err (''invalid character '' @ quoted [c] @ '' in identifier''))
      | None \<Rightarrow>
          if is_reserved name then (False, err (quoted name @ '' is a reserved keyword''))
          else if length name > 255 then (False, err ''identifier too long (max 255 characters)'')
          else (True, errors))"

section \<open>Literals\<close>

definition is_space :: "char \<Rightarrow> bool" where
  "is_space c \<longleftrightarrow> (let n = (of_char c :: nat) in n = 32 \<or> 9 \<le> n \<and> n \<le> 13)"

text \<open>
  \<open>strtoll (text, &endptr, 10)\<close> of the C library: white space, a sign, digits. The result is the
  clamped value, the characters consumed and whether \<open>errno\<close> is \<open>ERANGE\<close>.
\<close>

definition strtoll :: "string \<Rightarrow> int \<times> nat \<times> bool" where
  "strtoll text =
     (let spaces = length (takeWhile is_space text);
          rest = drop spaces text;
          signed = rest \<noteq> [] \<and> (hd rest = CHR ''-'' \<or> hd rest = CHR ''+'');
          negative = signed \<and> hd rest = CHR ''-'';
          digits = takeWhile is_digit (if signed then tl rest else rest);
          n = int (foldl (\<lambda>v c. 10 * v + digit_value c) 0 digits);
          v = (if negative then - n else n) in
      if digits = [] then (0, 0, False)
      else if v > INT64_MAX then (INT64_MAX, spaces + (if signed then 1 else 0) + length digits, True)
      else if v < INT64_MIN then (INT64_MIN, spaces + (if signed then 1 else 0) + length digits, True)
      else (v, spaces + (if signed then 1 else 0) + length digits, False))"

text \<open>\<open>text\<close> is the buffer from the literal on, \<open>len\<close> the length of the literal; \<open>out_value\<close> is returned.\<close>

definition validate_integer_literal ::
  "string \<Rightarrow> nat \<Rightarrow> error_context \<Rightarrow> string \<Rightarrow> int \<Rightarrow> int option \<times> error_context" where
  "validate_integer_literal text len errors filename ln =
     (let err = error_lexer errors (Some filename) ln 0 in
      if len = 0 then (None, err ''empty number literal'')
      else if len > 1 \<and> text ! 0 = CHR ''0'' \<and> is_digit (text ! 1) then
        (None, err ''octal literals not supported (leading zero)'')
      else
        let (v, consumed, erange) = strtoll text in
        if erange then (None, err (''integer literal out of range: '' @ take len text))
        else if consumed \<noteq> len then (None, err (''invalid integer literal: '' @ take len text))
        else (Some v, errors))"

section \<open>Checked bounds\<close>

text \<open>The message on \<open>stderr\<close> of a failed check is left out.\<close>

definition bounds_check :: "nat \<Rightarrow> nat \<Rightarrow> bool" where
  "bounds_check index capacity \<longleftrightarrow> \<not> index \<ge> capacity"

text \<open>\<open>SAFE_INDEX\<close>: the index of the element, or NULL.\<close>

definition SAFE_INDEX :: "nat \<Rightarrow> nat \<Rightarrow> nat option" where
  "SAFE_INDEX index capacity = (if bounds_check index capacity then Some index else None)"

text \<open>\<open>size_t\<close> arithmetic, kept at its width.\<close>

definition safe_increment :: "u64 \<Rightarrow> u64 \<Rightarrow> bool \<times> u64" where
  "safe_increment val limit = (if limit = 0 \<or> val \<ge> limit - 1 then (False, val) else (True, val + 1))"

definition safe_add :: "u64 \<Rightarrow> u64 \<Rightarrow> u64 \<Rightarrow> bool \<times> u64" where
  "safe_add dest val limit = (if val > limit \<or> dest > limit - val then (False, dest) else (True, dest + val))"

section \<open>Facts\<close>

text \<open>The checked operations never wrap: they succeed exactly when the true result is in bounds.\<close>

lemma safe_increment_exact:
  "safe_increment val limit = (ok, r) \<Longrightarrow> ok \<longleftrightarrow> unat val + 1 < unat limit"
  "safe_increment val limit = (True, r) \<Longrightarrow> unat r = unat val + 1"
proof -
  have sub: "unat (limit - 1) = unat limit - 1" if "limit \<noteq> 0"
    using that by (simp add: unat_sub_if' word_le_nat_alt unat_gt_0 Suc_leI)
  show "safe_increment val limit = (ok, r) \<Longrightarrow> ok \<longleftrightarrow> unat val + 1 < unat limit"
    using sub by (cases "limit = 0") (auto simp: safe_increment_def word_le_nat_alt split: if_splits)
  assume *: "safe_increment val limit = (True, r)"
  then have "limit \<noteq> 0" "unat val < unat (limit - 1)" and r: "r = val + 1"
    by (auto simp: safe_increment_def word_le_nat_alt split: if_splits)
  then have "unat val + 1 < 2 ^ 64" using unsigned_less [of limit, where 'a = nat] sub by simp
  then show "unat r = unat val + 1" by (simp add: r unat_word_ariths)
qed

lemma safe_add_exact:
  "safe_add dest val limit = (ok, r) \<Longrightarrow> ok \<longleftrightarrow> unat dest + unat val \<le> unat limit"
  "safe_add dest val limit = (True, r) \<Longrightarrow> unat r = unat dest + unat val"
proof -
  have sub: "unat (limit - val) = unat limit - unat val" if "val \<le> limit"
    using that by (simp add: unat_sub)
  show ok: "safe_add dest val limit = (ok, r) \<Longrightarrow> ok \<longleftrightarrow> unat dest + unat val \<le> unat limit" for ok r
    using sub by (auto simp: safe_add_def word_le_nat_alt word_less_nat_alt not_less split: if_splits)
  assume *: "safe_add dest val limit = (True, r)"
  then have "unat dest + unat val < 2 ^ 64"
    using ok [OF *] unsigned_less [of limit, where 'a = nat] by simp
  then have "unat (dest + val) = unat dest + unat val" by (simp add: unat_word_ariths)
  then show "unat r = unat dest + unat val"
    using * by (simp add: safe_add_def split: if_splits)
qed

lemma validate_identifier_iff:
  "fst (validate_identifier name errors filename ln) \<longleftrightarrow>
     name \<noteq> [] \<and> (is_alpha (hd name) \<or> hd name = CHR ''_'') \<and> (\<forall>c\<in>set name. is_alnum c \<or> c = CHR ''_'') \<and>
     name \<notin> set reserved \<and> length name \<le> 255"
proof -
  have "is_reserved name \<longleftrightarrow> name \<in> set reserved"
    by (auto simp: is_reserved_def list_ex_iff intro: bexI [of _ name])
  then show ?thesis
    by (auto simp: validate_identifier_def Let_def find_None_iff find_Some_iff split: option.split)
qed

end
