(* ===== verification/Resources.thy ===== *)
theory Resources
  imports Prelude "HOL-Library.Multiset"
begin

text \<open>
  \<open>srcs/cleanup/cleanup.c\<close>: the table of open descriptors and mappings that \<open>main\<close> releases on its
  way out. Each routine returns, with its result, the calls of \<open>close\<close> and \<open>munmap\<close> it makes. The
  table is allocated once and is assumed to be there; \<open>capacity\<close> bounds it.
\<close>

datatype release = Close int | Munmap nat nat

record file_resource =
  fr_fd :: int
  fr_addr :: nat
  fr_size :: nat
  fr_needs_close :: bool
  fr_needs_munmap :: bool

record tracker =
  tr_files :: "file_resource list"
  tr_capacity :: nat

definition resource_tracker_init :: "nat \<Rightarrow> tracker" where
  "resource_tracker_init capacity = \<lparr>tr_files = [], tr_capacity = capacity\<rparr>"

definition resource_track_fd :: "tracker \<Rightarrow> int \<Rightarrow> bool \<times> tracker \<times> release list" where
  "resource_track_fd t fd =
     (if length (tr_files t) \<ge> tr_capacity t then (False, t, [Close fd])
      else (True, t\<lparr>tr_files := tr_files t @
              [\<lparr>fr_fd = fd, fr_addr = 0, fr_size = 0, fr_needs_close = True, fr_needs_munmap = False\<rparr>]\<rparr>, []))"

definition resource_track_mmap :: "tracker \<Rightarrow> nat \<Rightarrow> nat \<Rightarrow> bool \<times> tracker \<times> release list" where
  "resource_track_mmap t addr n =
     (if length (tr_files t) \<ge> tr_capacity t then (False, t, [Munmap addr n])
      else (True, t\<lparr>tr_files := tr_files t @
              [\<lparr>fr_fd = -1, fr_addr = addr, fr_size = n, fr_needs_close = False, fr_needs_munmap = True\<rparr>]\<rparr>, []))"

definition resource_track_file :: "tracker \<Rightarrow> int \<Rightarrow> nat \<Rightarrow> nat \<Rightarrow> bool \<times> tracker \<times> release list" where
  "resource_track_file t fd addr n =
     (if length (tr_files t) \<ge> tr_capacity t then (False, t, [Close fd, Munmap addr n])
      else (True, t\<lparr>tr_files := tr_files t @
              [\<lparr>fr_fd = fd, fr_addr = addr, fr_size = n, fr_needs_close = True, fr_needs_munmap = True\<rparr>]\<rparr>, []))"

definition release_resource :: "file_resource \<Rightarrow> release list" where
  "release_resource res =
     (if fr_needs_munmap res \<and> fr_addr res \<noteq> 0 then [Munmap (fr_addr res) (fr_size res)] else []) @
     (if fr_needs_close res \<and> fr_fd res \<ge> 0 then [Close (fr_fd res)] else [])"

definition resource_cleanup_all :: "tracker \<Rightarrow> tracker \<times> release list" where
  "resource_cleanup_all t = (t\<lparr>tr_files := []\<rparr>, concat (map release_resource (tr_files t)))"

fun untrack_loop :: "int \<Rightarrow> file_resource list \<Rightarrow> file_resource list" where
  "untrack_loop fd [] = []"
| "untrack_loop fd (r # rs) = (if fr_fd r = fd then r\<lparr>fr_needs_close := False\<rparr> # rs else r # untrack_loop fd rs)"

definition resource_untrack_fd :: "tracker \<Rightarrow> int \<Rightarrow> tracker" where
  "resource_untrack_fd t fd = t\<lparr>tr_files := untrack_loop fd (tr_files t)\<rparr>"

section \<open>Every resource is released once\<close>

datatype tracked = Fd int | Mapping nat nat | File int nat nat

fun track :: "tracker \<Rightarrow> tracked \<Rightarrow> bool \<times> tracker \<times> release list" where
  "track t (Fd fd) = resource_track_fd t fd"
| "track t (Mapping a n) = resource_track_mmap t a n"
| "track t (File fd a n) = resource_track_file t fd a n"

text \<open>A descriptor and a mapping that exist: descriptors are not negative, mappings not at NULL.\<close>

fun tracked_ok :: "tracked \<Rightarrow> bool" where
  "tracked_ok (Fd fd) \<longleftrightarrow> 0 \<le> fd"
| "tracked_ok (Mapping a n) \<longleftrightarrow> a \<noteq> 0"
| "tracked_ok (File fd a n) \<longleftrightarrow> 0 \<le> fd \<and> a \<noteq> 0"

fun owed :: "tracked \<Rightarrow> release multiset" where
  "owed (Fd fd) = {#Close fd#}"
| "owed (Mapping a n) = {#Munmap a n#}"
| "owed (File fd a n) = {#Close fd, Munmap a n#}"

fun track_all :: "tracker \<Rightarrow> tracked list \<Rightarrow> tracker \<times> release list" where
  "track_all t [] = (t, [])"
| "track_all t (x # xs) =
     (let (_, t, now) = track t x; (t, later) = track_all t xs in (t, now @ later))"

definition pending_releases :: "tracker \<Rightarrow> release multiset" where
  "pending_releases t = mset (concat (map release_resource (tr_files t)))"

lemma track_owed:
  "tracked_ok x \<Longrightarrow> track t x = (ok, t', now) \<Longrightarrow> pending_releases t' + mset now = pending_releases t + owed x"
  by (cases x) (auto simp: pending_releases_def resource_track_fd_def resource_track_mmap_def resource_track_file_def
      release_resource_def split: if_splits)

lemma track_all_owed:
  "\<forall>x\<in>set xs. tracked_ok x \<Longrightarrow> track_all t xs = (t', now) \<Longrightarrow>
     pending_releases t' + mset now = pending_releases t + (\<Sum>x\<in>#mset xs. owed x)"
proof (induction xs arbitrary: t now)
  case (Cons x xs)
  obtain ok t1 n1 where x: "track t x = (ok, t1, n1)" by (metis prod_cases3)
  obtain n2 where xs: "track_all t1 xs = (t', n2)" and now: "now = n1 @ n2"
    using Cons.prems(2) by (auto simp: x split: prod.splits)
  have "pending_releases t' + mset n2 = pending_releases t1 + (\<Sum>x\<in>#mset xs. owed x)"
    using Cons.IH [OF _ xs] Cons.prems(1) by simp
  then show ?case
    using track_owed [OF _ x] Cons.prems(1) by (simp add: now) (metis (no_types, opaque_lifting) add.assoc add.commute)
qed simp

lemma diff_beside: "x \<notin># A \<Longrightarrow> A + B - {#x#} = A + (B - {#x#})"
  by (rule multiset_eqI) (auto simp: not_in_iff)

text \<open>A descriptor handed over to somebody else is not closed any more.\<close>

lemma untrack_pending:
  assumes "0 \<le> fd" "\<forall>r\<in>set (tr_files t). fr_fd r = fd \<longrightarrow> fr_needs_close r"
  shows "pending_releases (resource_untrack_fd t fd) = pending_releases t - {#Close fd#}"
proof -
  have "mset (concat (map release_resource (untrack_loop fd rs))) = mset (concat (map release_resource rs)) - {#Close fd#}"
    if "\<forall>r\<in>set rs. fr_fd r = fd \<longrightarrow> fr_needs_close r" for rs
    using that
  proof (induction rs)
    case (Cons r rs)
    show ?case
    proof (cases "fr_fd r = fd")
      case True
      then show ?thesis using Cons.prems assms(1) by (auto simp: release_resource_def)
    next
      case False
      then have "Close fd \<notin># mset (release_resource r)" by (simp add: release_resource_def)
      then show ?thesis using False Cons by (simp add: diff_beside)
    qed
  qed simp
  then show ?thesis using assms(2) by (simp add: pending_releases_def resource_untrack_fd_def)
qed

end
