(* ===== verification/X86.thy ===== *)
theory X86
  imports Limits
begin

text \<open>
  The machine code emitter, \<open>srcs/jit/emit.c\<close>, with the enumerations of \<open>incs/jit.h\<close>. The cursor
  \<open>uint8_t **buf\<close>, the byte counter and the memory it writes to are one record, \<open>emitter\<close>; address
  \<open>0\<close> is NULL, and emitting at NULL only counts, which is how the first pass measures.
  Every routine is shown to append a list of bytes, \<open>emit_list\<close>.
\<close>

section \<open>Registers and opcodes\<close>

datatype x86_reg =
    REG_RAX | REG_RCX | REG_RDX | REG_RBX | REG_RSP | REG_RBP | REG_RSI | REG_RDI
  | REG_R8 | REG_R9 | REG_R12 | REG_R13 | REG_R14 | REG_R15

fun reg_code :: "x86_reg \<Rightarrow> u8" where
  "reg_code REG_RAX = 0"
| "reg_code REG_RCX = 1"
| "reg_code REG_RDX = 2"
| "reg_code REG_RBX = 3"
| "reg_code REG_RSP = 4"
| "reg_code REG_RBP = 5"
| "reg_code REG_RSI = 6"
| "reg_code REG_RDI = 7"
| "reg_code REG_R8 = 8"
| "reg_code REG_R9 = 9"
| "reg_code REG_R12 = 12"
| "reg_code REG_R13 = 13"
| "reg_code REG_R14 = 14"
| "reg_code REG_R15 = 15"

definition REX :: u8 where "REX = 0x40"
definition REX_B :: u8 where "REX_B = 0x41"
definition REX_W :: u8 where "REX_W = 0x48"

datatype x86_condition = CC_E | CC_NE | CC_L | CC_GE | CC_LE | CC_G

fun cc_code :: "x86_condition \<Rightarrow> u8" where
  "cc_code CC_E = 0x4"
| "cc_code CC_NE = 0x5"
| "cc_code CC_L = 0xC"
| "cc_code CC_GE = 0xD"
| "cc_code CC_LE = 0xE"
| "cc_code CC_G = 0xF"

datatype x86_opcode =
    ALU_ADD | ALU_OR | ALU_AND | ALU_SUB | ALU_XOR | ALU_CMP | ALU_IMM | ALU_IMM8 | ALU_TEST
  | MOV_RM_R | MOV_RM_R8 | MOV_R_RM | MOV_IMM_R
  | OP_PUSH | OP_POP | OP_RET | OP_LEAVE | OP_CALL_IND
  | OP_JMP_REL32 | OP_PREFIX_0F | OP_MOVSXD | OP_MOVSX_8 | OP_MOVZX | OP_LEA | OP_SHIFT_CL
  | OP_CQO | OP_IDIV | OP_GRP3 | OP_IMUL_1 | OP_IMUL_2

fun opcode_byte :: "x86_opcode \<Rightarrow> u8" where
  "opcode_byte ALU_ADD = 0x01"
| "opcode_byte ALU_OR = 0x09"
| "opcode_byte ALU_AND = 0x21"
| "opcode_byte ALU_SUB = 0x29"
| "opcode_byte ALU_XOR = 0x31"
| "opcode_byte ALU_CMP = 0x39"
| "opcode_byte ALU_IMM = 0x81"
| "opcode_byte ALU_IMM8 = 0x83"
| "opcode_byte ALU_TEST = 0x85"
| "opcode_byte MOV_RM_R = 0x89"
| "opcode_byte MOV_RM_R8 = 0x88"
| "opcode_byte MOV_R_RM = 0x8B"
| "opcode_byte MOV_IMM_R = 0xB8"
| "opcode_byte OP_PUSH = 0x50"
| "opcode_byte OP_POP = 0x58"
| "opcode_byte OP_RET = 0xC3"
| "opcode_byte OP_LEAVE = 0xC9"
| "opcode_byte OP_CALL_IND = 0xFF"
| "opcode_byte OP_JMP_REL32 = 0xE9"
| "opcode_byte OP_PREFIX_0F = 0x0F"
| "opcode_byte OP_MOVSXD = 0x63"
| "opcode_byte OP_MOVSX_8 = 0xBE"
| "opcode_byte OP_MOVZX = 0xB6"
| "opcode_byte OP_LEA = 0x8D"
| "opcode_byte OP_SHIFT_CL = 0xD3"
| "opcode_byte OP_CQO = 0x99"
| "opcode_byte OP_IDIV = 0xF7"
| "opcode_byte OP_GRP3 = 0xF7"
| "opcode_byte OP_IMUL_1 = 0x0F"
| "opcode_byte OP_IMUL_2 = 0xAF"

definition MOD_MEM :: u8 where "MOD_MEM = 0x00"
definition MOD_MEM_DISP8 :: u8 where "MOD_MEM_DISP8 = 0x40"
definition MOD_MEM_DISP32 :: u8 where "MOD_MEM_DISP32 = 0x80"
definition MOD_REG :: u8 where "MOD_REG = 0xC0"

datatype x86_extension = EXT_ADD | EXT_CALL | EXT_NOT | EXT_NEG | EXT_SHL | EXT_SHR | EXT_SUB | EXT_IDIV | EXT_CMP | EXT_SAR

fun ext_code :: "x86_extension \<Rightarrow> u8" where
  "ext_code EXT_ADD = 0"
| "ext_code EXT_CALL = 2"
| "ext_code EXT_NOT = 2"
| "ext_code EXT_NEG = 3"
| "ext_code EXT_SHL = 4"
| "ext_code EXT_SHR = 5"
| "ext_code EXT_SUB = 5"
| "ext_code EXT_IDIV = 7"
| "ext_code EXT_CMP = 7"
| "ext_code EXT_SAR = 7"

lemmas prefix_defs = REX_def REX_B_def REX_W_def MOD_MEM_def MOD_MEM_DISP8_def MOD_MEM_DISP32_def MOD_REG_def

text \<open>\<open>reg & 7\<close>, and the ModR/M byte \<open>mod | (reg << 3) | rm\<close>.\<close>

definition low3 :: "x86_reg \<Rightarrow> u8" where
  "low3 r = reg_code r AND 7"

definition modrm :: "u8 \<Rightarrow> u8 \<Rightarrow> u8 \<Rightarrow> u8" where
  "modrm md reg rm = md OR push_bit 3 reg OR rm"

section \<open>The emitter\<close>

record emitter =
  em_buf :: nat
  em_size :: nat
  em_mem :: "nat \<Rightarrow> u8"

definition emit_u8 :: "u8 \<Rightarrow> emitter \<Rightarrow> emitter" where
  "emit_u8 byte em =
     (let em = (if em_buf em \<noteq> 0
                then em\<lparr>em_mem := (em_mem em)(em_buf em := byte), em_buf := em_buf em + 1\<rparr> else em)
      in em\<lparr>em_size := em_size em + 1\<rparr>)"

definition emit_u32 :: "u32 \<Rightarrow> emitter \<Rightarrow> emitter" where
  "emit_u32 val em =
     (let em = emit_u8 (ucast (val AND 0xFF)) em;
          em = emit_u8 (ucast (drop_bit 8 val AND 0xFF)) em;
          em = emit_u8 (ucast (drop_bit 16 val AND 0xFF)) em
      in emit_u8 (ucast (drop_bit 24 val AND 0xFF)) em)"

definition emit_u64 :: "u64 \<Rightarrow> emitter \<Rightarrow> emitter" where
  "emit_u64 val em =
     (let em = emit_u32 (ucast (val AND 0xFFFFFFFF)) em
      in emit_u32 (ucast (drop_bit 32 val AND 0xFFFFFFFF)) em)"

definition get_rex :: "x86_reg \<Rightarrow> x86_reg \<Rightarrow> u8" where
  "get_rex dst src =
     (let rex = REX_W;
          rex = (if reg_code src \<ge> 8 then rex OR 0x04 else rex)
      in if reg_code dst \<ge> 8 then rex OR 0x01 else rex)"

text \<open>Displacements are \<open>int32_t\<close>, kept as 32-bit words.\<close>

definition emit_store_local :: "x86_reg \<Rightarrow> u32 \<Rightarrow> emitter \<Rightarrow> emitter" where
  "emit_store_local src disp em =
     (let em = emit_u8 (get_rex REG_RAX src) em;
          em = emit_u8 (opcode_byte MOV_RM_R) em;
          em = emit_u8 (modrm MOD_MEM_DISP32 (low3 src) (reg_code REG_RBP)) em
      in emit_u32 disp em)"

definition emit_load_param :: "x86_reg \<Rightarrow> u32 \<Rightarrow> emitter \<Rightarrow> emitter" where
  "emit_load_param dst disp em =
     (let em = emit_u8 (get_rex REG_RAX dst) em;
          em = emit_u8 (opcode_byte MOV_R_RM) em;
          em = emit_u8 (modrm MOD_MEM_DISP32 (low3 dst) (reg_code REG_RBP)) em
      in emit_u32 disp em)"

definition emit_mov_imm :: "x86_reg \<Rightarrow> u64 \<Rightarrow> emitter \<Rightarrow> emitter" where
  "emit_mov_imm dst imm em =
     (let em = emit_u8 (get_rex dst REG_RAX) em;
          em = emit_u8 (opcode_byte MOV_IMM_R + low3 dst) em
      in emit_u64 imm em)"

definition emit_alu :: "x86_opcode \<Rightarrow> x86_reg \<Rightarrow> x86_reg \<Rightarrow> emitter \<Rightarrow> emitter" where
  "emit_alu op dst src em =
     (let em = emit_u8 (get_rex dst src) em;
          em = emit_u8 (opcode_byte op) em
      in emit_u8 (modrm MOD_REG (low3 src) (low3 dst)) em)"

definition emit_imul_r64 :: "x86_reg \<Rightarrow> x86_reg \<Rightarrow> emitter \<Rightarrow> emitter" where
  "emit_imul_r64 dst src em =
     (let em = emit_u8 (get_rex src dst) em;
          em = emit_u8 (opcode_byte OP_IMUL_1) em;
          em = emit_u8 (opcode_byte OP_IMUL_2) em
      in emit_u8 (modrm MOD_REG (low3 dst) (low3 src)) em)"

definition emit_mov_reg_reg :: "x86_reg \<Rightarrow> x86_reg \<Rightarrow> emitter \<Rightarrow> emitter" where
  "emit_mov_reg_reg dst src em =
     (let em = emit_u8 (get_rex dst src) em;
          em = emit_u8 (opcode_byte MOV_RM_R) em
      in emit_u8 (modrm MOD_REG (low3 src) (low3 dst)) em)"

definition emit_cmp :: "x86_reg \<Rightarrow> x86_reg \<Rightarrow> emitter \<Rightarrow> emitter" where
  "emit_cmp dst src em =
     (let em = emit_u8 (get_rex dst src) em;
          em = emit_u8 (opcode_byte ALU_CMP) em
      in emit_u8 (modrm MOD_REG (low3 src) (low3 dst)) em)"

definition emit_setcc :: "x86_condition \<Rightarrow> x86_reg \<Rightarrow> emitter \<Rightarrow> emitter" where
  "emit_setcc cc dst em =
     (let em = (if reg_code dst \<ge> 8 \<or> reg_code dst \<ge> 4 \<and> reg_code dst \<le> 7
                then emit_u8 (if reg_code dst \<ge> 8 then 0x40 OR 0x01 else 0x40) em else em);
          em = emit_u8 (opcode_byte OP_PREFIX_0F) em;
          em = emit_u8 (0x90 OR cc_code cc) em
      in emit_u8 (modrm MOD_REG 0 (low3 dst)) em)"

definition emit_movzx :: "x86_reg \<Rightarrow> x86_reg \<Rightarrow> emitter \<Rightarrow> emitter" where
  "emit_movzx dst src em =
     (let rex = REX_W;
          rex = (if reg_code dst \<ge> 8 then rex OR 0x04 else rex);
          rex = (if reg_code src \<ge> 8 then rex OR 0x01 else rex);
          em = emit_u8 rex em;
          em = emit_u8 (opcode_byte OP_PREFIX_0F) em;
          em = emit_u8 (opcode_byte OP_MOVZX) em
      in emit_u8 (modrm MOD_REG (low3 dst) (low3 src)) em)"

definition emit_test :: "x86_reg \<Rightarrow> x86_reg \<Rightarrow> emitter \<Rightarrow> emitter" where
  "emit_test dst src em =
     (let em = emit_u8 (get_rex dst src) em;
          em = emit_u8 (opcode_byte ALU_TEST) em
      in emit_u8 (modrm MOD_REG (low3 src) (low3 dst)) em)"

definition emit_push :: "x86_reg \<Rightarrow> emitter \<Rightarrow> emitter" where
  "emit_push r em =
     (let em = (if reg_code r \<ge> 8 then emit_u8 REX_B em else em)
      in emit_u8 (opcode_byte OP_PUSH + low3 r) em)"

definition emit_pop :: "x86_reg \<Rightarrow> emitter \<Rightarrow> emitter" where
  "emit_pop r em =
     (let em = (if reg_code r \<ge> 8 then emit_u8 REX_B em else em)
      in emit_u8 (opcode_byte OP_POP + low3 r) em)"

text \<open>The bits \<open>((reg >= 8) ? 4 : 0) | ((base >= 8) ? 1 : 0)\<close>.\<close>

definition rex_rb :: "x86_reg \<Rightarrow> x86_reg \<Rightarrow> u8" where
  "rex_rb r base = (if reg_code r \<ge> 8 then 4 else 0) OR (if reg_code base \<ge> 8 then 1 else 0)"

definition emit_load_signext :: "x86_reg \<Rightarrow> x86_reg \<Rightarrow> u32 \<Rightarrow> nat \<Rightarrow> emitter \<Rightarrow> emitter" where
  "emit_load_signext dst base disp sz em =
     (if sz = 1 \<or> sz = 4 then
        let em = emit_u8 (REX_W OR rex_rb dst base) em;
            em = (if sz = 1 then emit_u8 (opcode_byte OP_MOVSX_8) (emit_u8 (opcode_byte OP_PREFIX_0F) em)
                  else emit_u8 (opcode_byte OP_MOVSXD) em);
            em = emit_u8 (modrm MOD_MEM_DISP32 (low3 dst) (low3 base)) em
        in emit_u32 disp em
      else emit_load_param dst disp em)"

definition emit_store_sized :: "x86_reg \<Rightarrow> x86_reg \<Rightarrow> u32 \<Rightarrow> nat \<Rightarrow> emitter \<Rightarrow> emitter" where
  "emit_store_sized src base disp sz em =
     (if sz = 1 then
        let em = emit_u8 (REX OR rex_rb src base) em;
            em = emit_u8 (opcode_byte MOV_RM_R8) em;
            em = emit_u8 (modrm MOD_MEM_DISP32 (low3 src) (low3 base)) em
        in emit_u32 disp em
      else if sz = 4 then
        let rex = rex_rb src base;
            em = (if rex \<noteq> 0 then emit_u8 (0x40 OR rex) em else em);
            em = emit_u8 (opcode_byte MOV_RM_R) em;
            em = emit_u8 (modrm MOD_MEM_DISP32 (low3 src) (low3 base)) em
        in emit_u32 disp em
      else emit_store_local src disp em)"

section \<open>Appending bytes\<close>

definition emit_list :: "u8 list \<Rightarrow> emitter \<Rightarrow> emitter" where
  "emit_list bs em = fold emit_u8 bs em"

lemma emit_list_simps [simp]:
  "emit_list [] em = em" "emit_list (b # bs) em = emit_list bs (emit_u8 b em)"
  "emit_list bs (emit_list as em) = emit_list (as @ bs) em"
  by (simp_all add: emit_list_def)

lemma emit_list_single: "emit_u8 b em = emit_list [b] em"
  by simp

definition write_bytes :: "nat \<Rightarrow> u8 list \<Rightarrow> (nat \<Rightarrow> u8) \<Rightarrow> nat \<Rightarrow> u8" where
  "write_bytes a bs m = (\<lambda>x. if a \<le> x \<and> x < a + length bs then bs ! (x - a) else m x)"

definition read_bytes :: "nat \<Rightarrow> nat \<Rightarrow> (nat \<Rightarrow> u8) \<Rightarrow> u8 list" where
  "read_bytes a n m = map m [a..<a + n]"

lemma write_bytes_Nil [simp]: "write_bytes a [] m = m"
  by (auto simp: write_bytes_def fun_eq_iff)

lemma write_bytes_Cons: "write_bytes a (b # bs) m = write_bytes (Suc a) bs (m(a := b))"
  by (auto simp: write_bytes_def fun_eq_iff nth_Cons split: nat.split) (metis Suc_diff_Suc diff_Suc_Suc le_neq_implies_less nat.inject old.nat.distinct(2))+

lemma write_bytes_append: "write_bytes (a + length bs) cs (write_bytes a bs m) = write_bytes a (bs @ cs) m"
  by (rule ext) (auto simp: write_bytes_def nth_append)

lemma read_write_bytes [simp]: "read_bytes a (length bs) (write_bytes a bs m) = bs"
  by (rule nth_equalityI) (simp_all add: read_bytes_def write_bytes_def)

lemma write_bytes_outside: "x < a \<or> a + length bs \<le> x \<Longrightarrow> write_bytes a bs m x = m x"
  by (auto simp: write_bytes_def)

lemma read_bytes_outside:
  "a + n \<le> b \<or> b + length bs \<le> a \<Longrightarrow> read_bytes a n (write_bytes b bs m) = read_bytes a n m"
  by (auto simp: read_bytes_def write_bytes_def)

lemma emit_list_NULL: "em_buf em = 0 \<Longrightarrow> emit_list bs em = em\<lparr>em_size := em_size em + length bs\<rparr>"
  by (induction bs arbitrary: em) (simp_all add: emit_u8_def)

lemma emit_list_write:
  "em_buf em \<noteq> 0 \<Longrightarrow> emit_list bs em =
     em\<lparr>em_buf := em_buf em + length bs, em_size := em_size em + length bs,
        em_mem := write_bytes (em_buf em) bs (em_mem em)\<rparr>"
  by (induction bs arbitrary: em) (simp_all add: emit_u8_def write_bytes_Cons)

lemma emit_list_size [simp]: "em_size (emit_list bs em) = em_size em + length bs"
  by (cases "em_buf em = 0") (simp_all add: emit_list_NULL emit_list_write)

text \<open>Little-endian bytes.\<close>

definition le32 :: "u32 \<Rightarrow> u8 list" where
  "le32 w = [ucast w, ucast (drop_bit 8 w), ucast (drop_bit 16 w), ucast (drop_bit 24 w)]"

definition le64 :: "u64 \<Rightarrow> u8 list" where
  "le64 w = le32 (ucast w) @ le32 (ucast (drop_bit 32 w))"

lemma length_le [simp]: "length (le32 w) = 4" "length (le64 v) = 8"
  by (simp_all add: le32_def le64_def)

lemma ucast_low_byte: "(ucast (w AND 255) :: u8) = ucast (w :: u32)"
proof -
  have "(255 :: u32) = mask 8" by (simp add: mask_eq_exp_minus_1)
  show ?thesis
    unfolding \<open>(255 :: u32) = mask 8\<close> by (auto intro!: bit_word_eqI simp: bit_simps)
qed

lemma ucast_low_half: "(ucast (w AND 4294967295) :: u32) = ucast (w :: u64)"
proof -
  have "(4294967295 :: u64) = mask 32" by (simp add: mask_eq_exp_minus_1)
  show ?thesis
    unfolding \<open>(4294967295 :: u64) = mask 32\<close> by (auto intro!: bit_word_eqI simp: bit_simps)
qed

lemma emit_u32_list: "emit_u32 w em = emit_list (le32 w) em"
  by (simp add: emit_u32_def le32_def ucast_low_byte)

lemma emit_u64_list: "emit_u64 w em = emit_list (le64 w) em"
  by (simp add: emit_u64_def le64_def ucast_low_half emit_u32_list)

text \<open>Reading them back.\<close>

definition of_le32 :: "u8 list \<Rightarrow> u32" where
  "of_le32 bs = (case bs of [a, b, c, d] \<Rightarrow>
     ucast a OR push_bit 8 (ucast b) OR push_bit 16 (ucast c) OR push_bit 24 (ucast d) | _ \<Rightarrow> 0)"

definition of_le64 :: "u8 list \<Rightarrow> u64" where
  "of_le64 bs = ucast (of_le32 (take 4 bs)) OR push_bit 32 (ucast (of_le32 (drop 4 bs)))"

lemma of_le32_le32 [simp]: "of_le32 (le32 w) = w"
proof (rule bit_word_eqI)
  fix n assume "n < LENGTH(32)"
  then consider "n < 8" | "8 \<le> n" "n < 16" | "16 \<le> n" "n < 24" | "24 \<le> n" "n < 32" by force
  then show "bit (of_le32 (le32 w)) n = bit w n"
    by cases (auto simp: of_le32_def le32_def bit_simps not_less)
qed

lemma of_le64_le64 [simp]: "of_le64 (le64 w) = w"
proof (rule bit_word_eqI)
  fix n assume "n < LENGTH(64)"
  then show "bit (of_le64 (le64 w)) n = bit w n"
    by (auto simp: of_le64_def le64_def bit_simps not_less)
qed

end
