(* ===== verification/Asm.thy ===== *)
theory Asm
  imports X86
begin

text \<open>
  The instruction set the emitter targets: a datatype of the x86-64 instructions, the bytes each
  routine of \<open>emit.c\<close> writes for them, and a decoder that reads bytes the way the
  processor does: an optional REX prefix, the opcode, the fields of the ModR/M byte extended by the
  bits of the prefix, displacement and immediate. The encodings are shown to be right by decoding
  them.
\<close>

datatype alu = A_Add | A_Or | A_And | A_Sub | A_Xor | A_Cmp
datatype grp3 = G_Not | G_Neg | G_Idiv
datatype shift = S_Shl | S_Shr | S_Sar

text \<open>Memory operands are \<open>[base + disp]\<close>; destinations come first.\<close>

datatype x86 =
    Push x86_reg
  | Pop x86_reg
  | MovRR x86_reg x86_reg
  | AluRR alu x86_reg x86_reg
  | TestRR x86_reg x86_reg
  | ImulRR x86_reg x86_reg
  | SetCC x86_condition x86_reg
  | MovzxB x86_reg x86_reg
  | Load64 x86_reg x86_reg u32
  | Load32 x86_reg x86_reg u32
  | Load8 x86_reg x86_reg u32
  | Store64 x86_reg u32 x86_reg
  | Store32 x86_reg u32 x86_reg
  | Store8 x86_reg u32 x86_reg
  | MovImm x86_reg u64
  | AluImm32 alu x86_reg u32
  | AluImm8 alu x86_reg u8
  | Cqo
  | Grp3 grp3 x86_reg
  | ShiftCL shift x86_reg
  | Lea8 x86_reg x86_reg u8
  | CallR x86_reg
  | RetN
  | Jmp32 u32
  | Jcc32 x86_condition u32

section \<open>Decoding\<close>

definition all_regs :: "x86_reg list" where
  "all_regs = [REG_RAX, REG_RCX, REG_RDX, REG_RBX, REG_RSP, REG_RBP, REG_RSI, REG_RDI,
               REG_R8, REG_R9, REG_R12, REG_R13, REG_R14, REG_R15]"

definition reg_of :: "u8 \<Rightarrow> x86_reg option" where
  "reg_of w = find (\<lambda>r. reg_code r = w) all_regs"

definition cc_of :: "u8 \<Rightarrow> x86_condition option" where
  "cc_of w = find (\<lambda>c. cc_code c = w) [CC_E, CC_NE, CC_L, CC_GE, CC_LE, CC_G]"

text \<open>The digit that selects an operation of groups 1, 2 and 3.\<close>

fun alu_of_digit :: "u8 \<Rightarrow> alu option" where
  "alu_of_digit w =
     (if w = 0 then Some A_Add else if w = 1 then Some A_Or else if w = 4 then Some A_And
      else if w = 5 then Some A_Sub else if w = 6 then Some A_Xor else if w = 7 then Some A_Cmp else None)"

fun grp3_of_digit :: "u8 \<Rightarrow> grp3 option" where
  "grp3_of_digit w =
     (if w = 2 then Some G_Not else if w = 3 then Some G_Neg else if w = 7 then Some G_Idiv else None)"

fun shift_of_digit :: "u8 \<Rightarrow> shift option" where
  "shift_of_digit w =
     (if w = 4 then Some S_Shl else if w = 5 then Some S_Shr else if w = 7 then Some S_Sar else None)"

definition rexR :: "u8 \<Rightarrow> u8" where "rexR rex = (if bit rex 2 then 8 else 0)"
definition rexB :: "u8 \<Rightarrow> u8" where "rexB rex = (if bit rex 0 then 8 else 0)"

text \<open>ModR/M fields: mode, digit, register, register or base.\<close>

definition mode_of :: "u8 \<Rightarrow> u8" where "mode_of m = drop_bit 6 m"
definition digit_of :: "u8 \<Rightarrow> u8" where "digit_of m = drop_bit 3 m AND 7"
definition modrm_reg :: "u8 \<Rightarrow> u8 \<Rightarrow> x86_reg option" where
  "modrm_reg rex m = reg_of (rexR rex OR digit_of m)"
definition modrm_rm :: "u8 \<Rightarrow> u8 \<Rightarrow> x86_reg option" where
  "modrm_rm rex m = reg_of (rexB rex OR (m AND 7))"

fun both :: "('a \<Rightarrow> 'b \<Rightarrow> 'c) \<Rightarrow> 'a option \<Rightarrow> 'b option \<Rightarrow> 'c option" where
  "both f (Some a) (Some b) = Some (f a b)"
| "both f _ _ = None"

definition with32 :: "u8 list \<Rightarrow> (u32 \<Rightarrow> 'a) \<Rightarrow> ('a \<times> u8 list) option" where
  "with32 bs k = (if length bs < 4 then None else Some (k (of_le32 (take 4 bs)), drop 4 bs))"

definition with_rest :: "'a option \<Rightarrow> u8 list \<Rightarrow> ('a \<times> u8 list) option" where
  "with_rest x bs = map_option (\<lambda>a. (a, bs)) x"

text \<open>Register form (mode 3) of \<open>op r/m, r\<close>; the register field is the source.\<close>

definition rm_r :: "u8 \<Rightarrow> u8 list \<Rightarrow> (x86_reg \<Rightarrow> x86_reg \<Rightarrow> x86) \<Rightarrow> (x86 \<times> u8 list) option" where
  "rm_r rex bs f = (case bs of [] \<Rightarrow> None | m # bs \<Rightarrow>
     if mode_of m = 3 then with_rest (both f (modrm_rm rex m) (modrm_reg rex m)) bs else None)"

text \<open>Memory form with a 32-bit displacement (mode 2); a low field of 4 would announce a SIB byte.\<close>

definition mem32 :: "u8 \<Rightarrow> u8 list \<Rightarrow> (x86_reg \<Rightarrow> x86_reg \<Rightarrow> u32 \<Rightarrow> x86) \<Rightarrow> (x86 \<times> u8 list) option" where
  "mem32 rex bs f = (case bs of [] \<Rightarrow> None | m # bs \<Rightarrow>
     if mode_of m = 2 \<and> m AND 7 \<noteq> 4 then
       case (modrm_reg rex m, modrm_rm rex m) of
         (Some r, Some b) \<Rightarrow> with32 bs (f r b) | _ \<Rightarrow> None
     else None)"

text \<open>Register form whose register field is a digit.\<close>

definition digit_rm :: "u8 \<Rightarrow> u8 list \<Rightarrow> (u8 \<Rightarrow> 'a option) \<Rightarrow> ('a \<times> x86_reg \<times> u8 list) option" where
  "digit_rm rex bs f = (case bs of [] \<Rightarrow> None | m # bs \<Rightarrow>
     if mode_of m = 3 then
       case (f (digit_of m), modrm_rm rex m) of (Some a, Some r) \<Rightarrow> Some (a, r, bs) | _ \<Rightarrow> None
     else None)"

definition decode_0f :: "u8 \<Rightarrow> bool \<Rightarrow> u8 list \<Rightarrow> (x86 \<times> u8 list) option" where
  "decode_0f rex wide bs = (case bs of [] \<Rightarrow> None | b # bs \<Rightarrow>
     if b = 0xAF \<and> wide then rm_r rex bs (\<lambda>rm r. ImulRR r rm)
     else if b = 0xB6 \<and> wide then rm_r rex bs (\<lambda>rm r. MovzxB r rm)
     else if b = 0xBE \<and> wide then mem32 rex bs Load8
     else if b AND 0xF0 = 0x80 then
       (case cc_of (b AND 0x0F) of None \<Rightarrow> None | Some c \<Rightarrow> with32 bs (Jcc32 c))
     else if b AND 0xF0 = 0x90 then
       (case cc_of (b AND 0x0F) of None \<Rightarrow> None | Some c \<Rightarrow>
          case bs of [] \<Rightarrow> None | m # bs \<Rightarrow>
            if mode_of m = 3 \<and> (rex \<noteq> 0 \<or> m AND 7 < 4) then with_rest (map_option (SetCC c) (modrm_rm rex m)) bs
            else None)
     else None)"

definition alu_of_opcode :: "u8 \<Rightarrow> alu option" where
  "alu_of_opcode b = (if b AND 7 = 1 then alu_of_digit (drop_bit 3 b) else None)"

definition decode_op :: "u8 \<Rightarrow> u8 list \<Rightarrow> (x86 \<times> u8 list) option" where
  "decode_op rex bs = (case bs of [] \<Rightarrow> None | b # bs \<Rightarrow>
     let wide = bit rex 3 in
     if b = 0x0F then decode_0f rex wide bs
     else if b AND 0xF8 = 0x50 then with_rest (map_option Push (reg_of (rexB rex OR (b AND 7)))) bs
     else if b AND 0xF8 = 0x58 then with_rest (map_option Pop (reg_of (rexB rex OR (b AND 7)))) bs
     else if b = 0xC3 then Some (RetN, bs)
     else if b = 0xE9 then with32 bs Jmp32
     else if b = 0xFF then
       (case digit_rm rex bs (\<lambda>d. if d = 2 then Some () else None) of
          Some (_, r, bs) \<Rightarrow> Some (CallR r, bs) | None \<Rightarrow> None)
     else if b = 0x88 then
       (case bs of [] \<Rightarrow> None | m # _ \<Rightarrow>
          if rex \<noteq> 0 \<or> digit_of m < 4 then mem32 rex bs (\<lambda>r b d. Store8 b d r) else None)
     else if \<not> wide then (if b = 0x89 then mem32 rex bs (\<lambda>r b d. Store32 b d r) else None)
     else if b = 0x89 then
       (case bs of [] \<Rightarrow> None | m # _ \<Rightarrow>
          if mode_of m = 3 then rm_r rex bs MovRR else mem32 rex bs (\<lambda>r b d. Store64 b d r))
     else if b = 0x8B then mem32 rex bs Load64
     else if b = 0x63 then mem32 rex bs Load32
     else if b = 0x85 then rm_r rex bs TestRR
     else if b = 0x99 then Some (Cqo, bs)
     else if b AND 0xF8 = 0xB8 then
       (if length bs < 8 then None else
          with_rest (map_option (\<lambda>r. MovImm r (of_le64 (take 8 bs))) (reg_of (rexB rex OR (b AND 7)))) (drop 8 bs))
     else if b = 0x81 then
       (case digit_rm rex bs alu_of_digit of Some (a, r, bs) \<Rightarrow> with32 bs (AluImm32 a r) | None \<Rightarrow> None)
     else if b = 0x83 then
       (case digit_rm rex bs alu_of_digit of
          Some (a, r, i # bs) \<Rightarrow> Some (AluImm8 a r i, bs) | _ \<Rightarrow> None)
     else if b = 0xF7 then
       (case digit_rm rex bs grp3_of_digit of Some (a, r, bs) \<Rightarrow> Some (Grp3 a r, bs) | None \<Rightarrow> None)
     else if b = 0xD3 then
       (case digit_rm rex bs shift_of_digit of Some (a, r, bs) \<Rightarrow> Some (ShiftCL a r, bs) | None \<Rightarrow> None)
     else if b = 0x8D then
       (case bs of m # d # bs \<Rightarrow>
          if mode_of m = 1 \<and> m AND 7 \<noteq> 4 then
            with_rest (both (\<lambda>r b. Lea8 r b d) (modrm_reg rex m) (modrm_rm rex m)) bs else None
        | _ \<Rightarrow> None)
     else (case alu_of_opcode b of None \<Rightarrow> None | Some a \<Rightarrow> rm_r rex bs (AluRR a)))"

definition decode :: "u8 list \<Rightarrow> (x86 \<times> u8 list) option" where
  "decode bs = (case bs of [] \<Rightarrow> None | b # r \<Rightarrow> if b AND 0xF0 = 0x40 then decode_op b r else decode_op 0 bs)"

text \<open>\<open>decodes bs is\<close>: the bytes are these instructions, one after the other.\<close>

fun decodes :: "u8 list \<Rightarrow> x86 list \<Rightarrow> bool" where
  "decodes bs [] \<longleftrightarrow> bs = []"
| "decodes bs (i # is) \<longleftrightarrow> (\<exists>r. decode bs = Some (i, r) \<and> decodes r is)"

section \<open>Encodings\<close>

fun alu_opcode :: "alu \<Rightarrow> x86_opcode" where
  "alu_opcode A_Add = ALU_ADD"
| "alu_opcode A_Or = ALU_OR"
| "alu_opcode A_And = ALU_AND"
| "alu_opcode A_Sub = ALU_SUB"
| "alu_opcode A_Xor = ALU_XOR"
| "alu_opcode A_Cmp = ALU_CMP"

fun alu_ext :: "alu \<Rightarrow> u8" where
  "alu_ext A_Add = 0" | "alu_ext A_Or = 1" | "alu_ext A_And = 4"
| "alu_ext A_Sub = 5" | "alu_ext A_Xor = 6" | "alu_ext A_Cmp = 7"

fun grp3_ext :: "grp3 \<Rightarrow> x86_extension" where
  "grp3_ext G_Not = EXT_NOT" | "grp3_ext G_Neg = EXT_NEG" | "grp3_ext G_Idiv = EXT_IDIV"

fun shift_ext :: "shift \<Rightarrow> x86_extension" where
  "shift_ext S_Shl = EXT_SHL" | "shift_ext S_Shr = EXT_SHR" | "shift_ext S_Sar = EXT_SAR"

definition rex_prefix :: "x86_reg \<Rightarrow> u8 list" where
  "rex_prefix r = (if reg_code r \<ge> 8 then [REX_B] else [])"

fun asm :: "x86 \<Rightarrow> u8 list" where
  "asm (Push r) = rex_prefix r @ [0x50 + low3 r]"
| "asm (Pop r) = rex_prefix r @ [0x58 + low3 r]"
| "asm (MovRR d s) = [get_rex d s, 0x89, modrm MOD_REG (low3 s) (low3 d)]"
| "asm (AluRR a d s) = [get_rex d s, opcode_byte (alu_opcode a), modrm MOD_REG (low3 s) (low3 d)]"
| "asm (TestRR d s) = [get_rex d s, 0x85, modrm MOD_REG (low3 s) (low3 d)]"
| "asm (ImulRR d s) = [get_rex s d, 0x0F, 0xAF, modrm MOD_REG (low3 d) (low3 s)]"
| "asm (SetCC c d) = (if reg_code d \<ge> 4 then [if reg_code d \<ge> 8 then 0x41 else 0x40] else []) @
     [0x0F, 0x90 OR cc_code c, modrm MOD_REG 0 (low3 d)]"
| "asm (MovzxB d s) = [get_rex s d, 0x0F, 0xB6, modrm MOD_REG (low3 d) (low3 s)]"
| "asm (Load64 d b x) = [get_rex b d, 0x8B, modrm MOD_MEM_DISP32 (low3 d) (low3 b)] @ le32 x"
| "asm (Load32 d b x) = [get_rex b d, 0x63, modrm MOD_MEM_DISP32 (low3 d) (low3 b)] @ le32 x"
| "asm (Load8 d b x) = [get_rex b d, 0x0F, 0xBE, modrm MOD_MEM_DISP32 (low3 d) (low3 b)] @ le32 x"
| "asm (Store64 b x s) = [get_rex b s, 0x89, modrm MOD_MEM_DISP32 (low3 s) (low3 b)] @ le32 x"
| "asm (Store32 b x s) = (if rex_rb s b \<noteq> 0 then [REX OR rex_rb s b] else []) @
     [0x89, modrm MOD_MEM_DISP32 (low3 s) (low3 b)] @ le32 x"
| "asm (Store8 b x s) = [REX OR rex_rb s b, 0x88, modrm MOD_MEM_DISP32 (low3 s) (low3 b)] @ le32 x"
| "asm (MovImm d i) = [get_rex d REG_RAX, 0xB8 + low3 d] @ le64 i"
| "asm (AluImm32 a r i) = [get_rex r REG_RAX, 0x81, modrm MOD_REG (alu_ext a) (low3 r)] @ le32 i"
| "asm (AluImm8 a r i) = [get_rex r REG_RAX, 0x83, modrm MOD_REG (alu_ext a) (low3 r), i]"
| "asm Cqo = [REX_W, 0x99]"
| "asm (Grp3 g r) = [get_rex r REG_RAX, 0xF7, modrm MOD_REG (ext_code (grp3_ext g)) (low3 r)]"
| "asm (ShiftCL s r) = [get_rex r REG_RAX, 0xD3, modrm MOD_REG (ext_code (shift_ext s)) (low3 r)]"
| "asm (Lea8 d b x) = [get_rex b d, 0x8D, modrm MOD_MEM_DISP8 (low3 d) (low3 b), x]"
| "asm (CallR r) = rex_prefix r @ [0xFF, modrm MOD_REG 2 (low3 r)]"
| "asm RetN = [0xC3]"
| "asm (Jmp32 x) = 0xE9 # le32 x"
| "asm (Jcc32 c x) = [0x0F, 0x80 OR cc_code c] @ le32 x"

text \<open>A base register whose low bits are 4 (\<open>rsp\<close>, \<open>r12\<close>) would need a SIB byte.\<close>

fun encodable :: "x86 \<Rightarrow> bool" where
  "encodable (Load64 d b x) \<longleftrightarrow> low3 b \<noteq> 4"
| "encodable (Load32 d b x) \<longleftrightarrow> low3 b \<noteq> 4"
| "encodable (Load8 d b x) \<longleftrightarrow> low3 b \<noteq> 4"
| "encodable (Store64 b x s) \<longleftrightarrow> low3 b \<noteq> 4"
| "encodable (Store32 b x s) \<longleftrightarrow> low3 b \<noteq> 4"
| "encodable (Store8 b x s) \<longleftrightarrow> low3 b \<noteq> 4"
| "encodable (Lea8 d b x) \<longleftrightarrow> low3 b \<noteq> 4"
| "encodable _ \<longleftrightarrow> True"

subsection \<open>Fields of the encoded bytes\<close>

lemmas field_defs = reg_of_def all_regs_def rexR_def rexB_def mode_of_def digit_of_def modrm_reg_def modrm_rm_def
  get_rex_def rex_rb_def modrm_def low3_def prefix_defs

lemma rex_fields [simp]:
  "get_rex d s AND 240 = 64" "bit (get_rex d s) 3" "get_rex d s \<noteq> 0"
  "rexR (get_rex d s) = (if reg_code s \<ge> 8 then 8 else 0)" "rexB (get_rex d s) = (if reg_code d \<ge> 8 then 8 else 0)"
  by (cases "reg_code d \<ge> 8"; cases "reg_code s \<ge> 8"; simp add: field_defs)+

lemma rex_rb_fields [simp]:
  "(REX OR rex_rb s b) AND 240 = 64" "\<not> bit (REX OR rex_rb s b) 3" "REX OR rex_rb s b \<noteq> 0"
  "rexR (REX OR rex_rb s b) = (if reg_code s \<ge> 8 then 8 else 0)"
  "rexB (REX OR rex_rb s b) = (if reg_code b \<ge> 8 then 8 else 0)"
  "rex_rb s b = 0 \<longleftrightarrow> \<not> reg_code s \<ge> 8 \<and> \<not> reg_code b \<ge> 8"
  by (cases "reg_code b \<ge> 8"; cases "reg_code s \<ge> 8"; simp add: field_defs)+

lemma rex_zero [simp]: "rexR 0 = 0" "rexB 0 = 0" "rexB REX_B = 8" "REX_B AND 240 = 64" "rexB REX_W = 0"
    "bit REX_W 3" "REX_W AND 240 = 64"
  by (simp_all add: field_defs)

lemma low3_and [simp]: "low3 r AND 7 = low3 r"
  by (cases r) (simp_all add: low3_def)

lemma reg_of_code [simp]: "reg_of (reg_code r) = Some r"
  by (cases r) (simp_all add: reg_of_def all_regs_def)

lemma high_regs: "reg_code r \<ge> 8 \<longleftrightarrow> r \<in> {REG_R8, REG_R9, REG_R12, REG_R13, REG_R14, REG_R15}"
  by (cases r) (simp_all add: word_le_nat_alt)

lemma code_split: "(if reg_code r \<ge> 8 then 8 else 0) OR low3 r = reg_code r"
  unfolding high_regs by (cases r) (simp_all add: low3_def)

lemma reg_of_low3 [simp]: "reg_of ((if reg_code r \<ge> 8 then 8 else 0) OR low3 r) = Some r"
  "reg_code r \<ge> 8 \<Longrightarrow> reg_of (8 OR low3 r) = Some r" "\<not> reg_code r \<ge> 8 \<Longrightarrow> reg_of (low3 r) = Some r"
  using code_split [of r] by (simp_all split: if_splits)

lemma seven: "(7 :: u8) = mask 3"
  by (simp add: mask_eq_exp_minus_1)

lemma low_bits: "a AND 7 = (a :: u8) \<Longrightarrow> bit a n \<Longrightarrow> n < 3"
  unfolding seven by (metis bit_and_iff bit_mask_iff)

lemma modrm_split:
  assumes "a AND 7 = a" "c AND 7 = c"
  shows "modrm (push_bit 6 k) a c AND 7 = c" "digit_of (modrm (push_bit 6 k) a c) = a"
    "mode_of (modrm (push_bit 6 k) a c) = take_bit 2 k"
proof -
  show "modrm (push_bit 6 k) a c AND 7 = c"
    unfolding seven modrm_def using low_bits [OF assms(2)] by (intro bit_word_eqI) (auto simp: bit_simps)
  show "digit_of (modrm (push_bit 6 k) a c) = a"
    unfolding seven modrm_def digit_of_def using low_bits [OF assms(1)] low_bits [OF assms(2)]
    by (intro bit_word_eqI) (force simp: bit_simps)
  show "mode_of (modrm (push_bit 6 k) a c) = take_bit 2 k"
    unfolding modrm_def mode_of_def using low_bits [OF assms(1)] low_bits [OF assms(2)]
    by (intro bit_word_eqI) (force simp: bit_simps)
qed

lemma modes: "MOD_REG = push_bit 6 3" "MOD_MEM_DISP32 = push_bit 6 2" "MOD_MEM_DISP8 = push_bit 6 1"
  by (simp_all add: prefix_defs)

lemma modrm_fields [simp]:
  assumes "a AND 7 = a" "c AND 7 = c"
  shows "modrm MOD_REG a c AND 7 = c" "digit_of (modrm MOD_REG a c) = a" "mode_of (modrm MOD_REG a c) = 3"
    "modrm MOD_MEM_DISP32 a c AND 7 = c" "digit_of (modrm MOD_MEM_DISP32 a c) = a"
    "mode_of (modrm MOD_MEM_DISP32 a c) = 2"
    "modrm MOD_MEM_DISP8 a c AND 7 = c" "digit_of (modrm MOD_MEM_DISP8 a c) = a"
    "mode_of (modrm MOD_MEM_DISP8 a c) = 1"
  unfolding modes modrm_split [OF assms] by simp_all

lemma ext_digits [simp]:
  "alu_ext a AND 7 = alu_ext a" "ext_code e AND 7 = ext_code e"
  "alu_of_digit (alu_ext a) = Some a" "grp3_of_digit (ext_code (grp3_ext g)) = Some g"
  "shift_of_digit (ext_code (shift_ext s)) = Some s"
  by (cases a; simp; fail | cases e; simp; fail | cases g; simp; fail | cases s; simp)+

lemma plus_low3 [simp]:
  "(0x50 + low3 r) AND 0xF8 = 0x50" "(0x50 + low3 r) AND 7 = low3 r" "0x50 + low3 r \<noteq> 0x0F"
  "(0x58 + low3 r) AND 0xF8 = 0x58" "(0x58 + low3 r) AND 7 = low3 r" "0x58 + low3 r \<noteq> 0x0F"
  "(0xB8 + low3 r) AND 0xF8 = 0xB8" "(0xB8 + low3 r) AND 7 = low3 r" "0xB8 + low3 r \<noteq> 0x0F"
  "(0x50 + low3 r) AND 0xF0 \<noteq> 0x40" "(0x58 + low3 r) AND 0xF0 \<noteq> 0x40"
  by (cases r; simp add: low3_def)+

lemma modrm_regs [simp]:
  "modrm_reg (get_rex d s) (modrm MOD_REG (low3 s) (low3 d)) = Some s"
  "modrm_rm (get_rex d s) (modrm MOD_REG (low3 s) (low3 d)) = Some d"
  by (simp_all add: modrm_reg_def modrm_rm_def)

lemma modrm_regs_mem [simp]:
  "modrm_reg (get_rex b r) (modrm MOD_MEM_DISP32 (low3 r) (low3 b)) = Some r"
  "modrm_rm (get_rex b r) (modrm MOD_MEM_DISP32 (low3 r) (low3 b)) = Some b"
  "modrm_reg (REX OR rex_rb r b) (modrm MOD_MEM_DISP32 (low3 r) (low3 b)) = Some r"
  "modrm_rm (REX OR rex_rb r b) (modrm MOD_MEM_DISP32 (low3 r) (low3 b)) = Some b"
  "modrm_reg (get_rex b r) (modrm MOD_MEM_DISP8 (low3 r) (low3 b)) = Some r"
  "modrm_rm (get_rex b r) (modrm MOD_MEM_DISP8 (low3 r) (low3 b)) = Some b"
  "a AND 7 = a \<Longrightarrow> modrm_rm (get_rex r x) (modrm MOD_REG a (low3 r)) = Some r"
  by (simp_all add: modrm_reg_def modrm_rm_def)

lemma with_le [simp]: "with32 (le32 w @ bs) k = Some (k w, bs)" "take 8 (le64 v @ bs) = le64 v"
    "drop 8 (le64 v @ bs) = bs" "\<not> length (le64 v @ bs) < 8"
  by (simp_all add: with32_def)

lemmas decode_defs = decode_def decode_op_def decode_0f_def Let_def rm_r_def mem32_def digit_rm_def with_rest_def

lemma decode_push: "decode (asm (Push r) @ bs) = Some (Push r, bs)" "decode (asm (Pop r) @ bs) = Some (Pop r, bs)"
  by (cases "reg_code r \<ge> 8"; simp add: decode_defs rex_prefix_def)+

lemma decode_rr:
  "decode (asm (MovRR d s) @ bs) = Some (MovRR d s, bs)"
  "decode (asm (TestRR d s) @ bs) = Some (TestRR d s, bs)"
  "decode (asm (ImulRR d s) @ bs) = Some (ImulRR d s, bs)"
  "decode (asm (MovzxB d s) @ bs) = Some (MovzxB d s, bs)"
  by (simp_all add: decode_defs)

lemma decode_alu: "decode (asm (AluRR a d s) @ bs) = Some (AluRR a d s, bs)"
  by (cases a) (simp_all add: decode_defs alu_of_opcode_def)

lemma decode_mem:
  "low3 b \<noteq> 4 \<Longrightarrow> decode (asm (Load64 d b x) @ bs) = Some (Load64 d b x, bs)"
  "low3 b \<noteq> 4 \<Longrightarrow> decode (asm (Load32 d b x) @ bs) = Some (Load32 d b x, bs)"
  "low3 b \<noteq> 4 \<Longrightarrow> decode (asm (Load8 d b x) @ bs) = Some (Load8 d b x, bs)"
  "low3 b \<noteq> 4 \<Longrightarrow> decode (asm (Store64 b x d) @ bs) = Some (Store64 b x d, bs)"
  "low3 b \<noteq> 4 \<Longrightarrow> decode (asm (Store8 b x d) @ bs) = Some (Store8 b x d, bs)"
  "low3 b \<noteq> 4 \<Longrightarrow> decode (asm (Lea8 d b y) @ bs) = Some (Lea8 d b y, bs)"
  by (simp_all add: decode_defs)

lemma cc_fields [simp]:
  "(0x90 OR cc_code c) AND 0xF0 = 0x90" "(0x80 OR cc_code c) AND 0xF0 = 0x80"
  "(0x90 OR cc_code c) AND 0x0F = cc_code c" "(0x80 OR cc_code c) AND 0x0F = cc_code c"
  "cc_of (cc_code c) = Some c"
  "0x90 OR cc_code c \<notin> {0xAF, 0xB6, 0xBE}" "0x80 OR cc_code c \<notin> {0xAF, 0xB6, 0xBE}"
  by (cases c; simp add: cc_of_def)+

lemma byte_regs: "\<not> reg_code r \<ge> 4 \<Longrightarrow> low3 r < 4 \<and> \<not> reg_code r \<ge> 8" "reg_code r \<ge> 8 \<Longrightarrow> reg_code r \<ge> 4"
  by (cases r; simp add: low3_def word_le_nat_alt word_less_nat_alt)+

lemma rex_byte [simp]: "rexB 0x41 = 8" "rexB 0x40 = 0" "\<not> bit (0x40 :: u8) 3" "\<not> bit (0x41 :: u8) 3"
  by (simp_all add: field_defs)

lemma zero_digit [simp]: "a AND 7 = a \<Longrightarrow> modrm_rm 0 (modrm MOD_REG a (low3 r)) = reg_of (low3 r)"
    "a AND 7 = a \<Longrightarrow> modrm_rm 0x41 (modrm MOD_REG a (low3 r)) = reg_of (8 OR low3 r)"
    "a AND 7 = a \<Longrightarrow> modrm_rm 0x40 (modrm MOD_REG a (low3 r)) = reg_of (low3 r)"
    "a AND 7 = a \<Longrightarrow> modrm_rm REX_B (modrm MOD_REG a (low3 r)) = reg_of (8 OR low3 r)"
  by (simp_all add: modrm_rm_def)

lemma decode_setcc: "decode (asm (SetCC c d) @ bs) = Some (SetCC c d, bs)"
  using cc_fields [of c] byte_regs [of d]
  by (cases "reg_code d \<ge> 8"; cases "reg_code d \<ge> 4") (simp_all add: decode_defs)

lemma decode_store32: "low3 b \<noteq> 4 \<Longrightarrow> decode (asm (Store32 b x s) @ bs) = Some (Store32 b x s, bs)"
  by (cases "rex_rb s b = 0") (simp_all add: decode_defs modrm_reg_def modrm_rm_def)

lemma decode_movimm: "decode (asm (MovImm d w) @ bs) = Some (MovImm d w, bs)"
proof -
  define b :: u8 where "b = 0xB8 + low3 d"
  have b: "b AND 0xF8 = 0xB8" "b AND 7 = low3 d" by (simp_all add: b_def)
  then have "b \<noteq> 0x0F" "b \<noteq> 0xC3" "b \<noteq> 0xE9" "b \<noteq> 0xFF" "b \<noteq> 0x88" "b \<noteq> 0x89" "b \<noteq> 0x8B" "b \<noteq> 0x63" "b \<noteq> 0x85" "b \<noteq> 0x99"
    by auto
  with b show ?thesis
    by (simp add: decode_defs flip: b_def)
qed

lemma decode_imm:
  "decode (asm (AluImm32 a d x) @ bs) = Some (AluImm32 a d x, bs)"
  "decode (asm (AluImm8 a d y) @ bs) = Some (AluImm8 a d y, bs)"
  "decode (asm (Grp3 g d) @ bs) = Some (Grp3 g d, bs)"
  "decode (asm (ShiftCL h d) @ bs) = Some (ShiftCL h d, bs)"
  by (simp_all add: decode_defs del: alu_of_digit.simps grp3_of_digit.simps shift_of_digit.simps)

lemma decode_flow:
  "decode (asm Cqo @ bs) = Some (Cqo, bs)" "decode (asm RetN @ bs) = Some (RetN, bs)"
  "decode (asm (Jmp32 x) @ bs) = Some (Jmp32 x, bs)"
  "decode (asm (Jcc32 c x) @ bs) = Some (Jcc32 c x, bs)"
  using cc_fields [of c] by (simp_all add: decode_defs)

lemma decode_call: "decode (asm (CallR r) @ bs) = Some (CallR r, bs)"
  by (cases "reg_code r \<ge> 8") (simp_all add: decode_defs rex_prefix_def)

theorem decode_asm: "encodable i \<Longrightarrow> decode (asm i @ bs) = Some (i, bs)"
  by (cases i) (simp_all only: encodable.simps decode_push decode_rr decode_alu decode_mem decode_setcc decode_store32
      decode_movimm decode_imm decode_flow decode_call simp_thms)

lemma decodes_asm: "list_all encodable is \<Longrightarrow> decodes (concat (map asm is)) is"
  by (induction "is") (simp_all add: decode_asm del: asm.simps)

section \<open>What the emitter writes\<close>

named_theorems emits \<open>the instruction each emitter routine writes\<close>

lemma emit_simps [emits]:
  "emit_push r em = emit_list (asm (Push r)) em"
  "emit_pop r em = emit_list (asm (Pop r)) em"
  "emit_mov_reg_reg d s em = emit_list (asm (MovRR d s)) em"
  "emit_alu (alu_opcode a) d s em = emit_list (asm (AluRR a d s)) em"
  "emit_cmp d s em = emit_list (asm (AluRR A_Cmp d s)) em"
  "emit_test d s em = emit_list (asm (TestRR d s)) em"
  "emit_imul_r64 d s em = emit_list (asm (ImulRR d s)) em"
  "emit_mov_imm d i em = emit_list (asm (MovImm d i)) em"
  "emit_store_local s x em = emit_list (asm (Store64 REG_RBP x s)) em"
  "emit_load_param d x em = emit_list (asm (Load64 d REG_RBP x)) em"
  by (simp_all add: emit_push_def emit_pop_def emit_mov_reg_reg_def emit_alu_def emit_cmp_def emit_test_def
      emit_imul_r64_def emit_mov_imm_def emit_store_local_def emit_load_param_def Let_def rex_prefix_def
      emit_u32_list emit_u64_list get_rex_def low3_def)

lemma emit_setcc_list [emits]: "emit_setcc c d em = emit_list (asm (SetCC c d)) em"
  using byte_regs(2) [of d]
  by (cases d) (simp_all add: emit_setcc_def Let_def low3_def word_le_nat_alt)

lemma emit_movzx_list [emits]: "emit_movzx d s em = emit_list (asm (MovzxB d s)) em"
  by (simp add: emit_movzx_def Let_def get_rex_def)

text \<open>Loads and stores of the size of a type, through \<open>rbp\<close>.\<close>

definition load_sized :: "x86_reg \<Rightarrow> u32 \<Rightarrow> nat \<Rightarrow> x86" where
  "load_sized d x n = (if n = 1 then Load8 d REG_RBP x else if n = 4 then Load32 d REG_RBP x else Load64 d REG_RBP x)"

definition store_sized :: "u32 \<Rightarrow> x86_reg \<Rightarrow> nat \<Rightarrow> x86" where
  "store_sized x s n = (if n = 1 then Store8 REG_RBP x s else if n = 4 then Store32 REG_RBP x s else Store64 REG_RBP x s)"

lemma emit_sized [emits]:
  "emit_load_signext d REG_RBP x n em = emit_list (asm (load_sized d x n)) em"
  "emit_store_sized s REG_RBP x n em = emit_list (asm (store_sized x s n)) em"
  by (simp_all add: emit_load_signext_def emit_store_sized_def load_sized_def store_sized_def Let_def
      emit_load_param_def emit_store_local_def emit_u32_list rex_rb_def get_rex_def REX_def REX_W_def low3_def)

end
