(* ===== verification/Arena.thy ===== *)
theory Arena
  imports Prelude
begin

text \<open>
  The memory arena of \<open>incs/memarena.h\<close>: a stack of blocks obtained from \<open>mmap\<close>, bump allocation
  inside the newest block, and growth either by a new block or, when the kernel honours the hint,
  in place. The operating system is a parameter, the record \<open>system\<close> of the calls the code makes;
  its documented behaviour is the predicate \<open>system_ok\<close>. \<open>MEMARENA_DISABLE_RESIZE\<close> is not defined by
  the build. Sizes are natural numbers, addresses too, and \<open>0\<close> is NULL.
\<close>

section \<open>The operating system\<close>

text \<open>
  \<open>mapped\<close> lists the regions that are mapped. \<open>sys_mmap mapped hint size prot\<close> is the address of the new
  region, \<open>None\<close> for \<open>MAP_FAILED\<close>.
\<close>

type_synonym regions = "(nat \<times> nat) list"

record system =
  sys_pagesize :: int
  sys_mmap :: "regions \<Rightarrow> nat option \<Rightarrow> nat \<Rightarrow> nat \<Rightarrow> nat option"
  sys_mprotect :: "regions \<Rightarrow> nat \<Rightarrow> nat \<Rightarrow> nat \<Rightarrow> bool"

definition bytes_of :: "regions \<Rightarrow> nat set" where
  "bytes_of rs = (\<Union>(a, n) \<in> set rs. {a..<a + n})"

text \<open>\<open>munmap\<close> of a range removes the regions inside it.\<close>

definition munmap :: "nat \<Rightarrow> nat \<Rightarrow> regions \<Rightarrow> regions" where
  "munmap a n rs = filter (\<lambda>(b, m). \<not> (a \<le> b \<and> b + m \<le> a + n)) rs"

section \<open>Blocks\<close>

record arena_block =
  bk_base :: nat
  bk_size :: nat
  bk_offset :: nat

text \<open>The chain \<open>curr\<close>, \<open>curr->prev\<close>, \dots\ is the list \<open>ar_blocks\<close>.\<close>

record arena =
  ar_blocks :: "arena_block list"
  ar_prot :: nat

definition SIZEOF_ARENA_BLOCK :: nat where "SIZEOF_ARENA_BLOCK = 24"
definition MEMARENA_DEFAULT_SIZE :: nat where "MEMARENA_DEFAULT_SIZE = 64 * 1024 * 1024"
definition DEFAULT_ALIGNMENT :: nat where "DEFAULT_ALIGNMENT = 8"

definition is_power_of_two :: "nat \<Rightarrow> bool" where
  "is_power_of_two x \<longleftrightarrow> x \<noteq> 0 \<and> x AND (x - 1) = 0"

definition get_page_size :: "system \<Rightarrow> nat" where
  "get_page_size sys = (if sys_pagesize sys > 0 then nat (sys_pagesize sys) else 4096)"

definition align_to_page :: "system \<Rightarrow> nat \<Rightarrow> nat" where
  "align_to_page sys sz =
     (let page_size = get_page_size sys in
      unat ((of_nat (sz + page_size - 1) :: u64) AND NOT (of_nat (page_size - 1))))"

definition align_forward :: "nat \<Rightarrow> nat \<Rightarrow> nat" where
  "align_forward ptr align =
     (let modulo = ptr AND (align - 1) in if modulo \<noteq> 0 then ptr + (align - modulo) else ptr)"

text \<open>
  The block that \<open>arena_create_block\<close> returns: the previous one, grown, when the new region
  starts where it ends, and a new one otherwise.
\<close>

definition arena_create_block ::
  "system \<Rightarrow> nat \<Rightarrow> nat \<Rightarrow> arena_block option \<Rightarrow> regions \<Rightarrow> arena_block option \<times> regions" where
  "arena_create_block sys capacity prot prev_block mapped =
     (let hint_addr = map_option (\<lambda>p. bk_base p + bk_size p) prev_block;
          total_needed = capacity + SIZEOF_ARENA_BLOCK;
          total_size = align_to_page sys total_needed in
      case sys_mmap sys mapped hint_addr total_size prot of
        None \<Rightarrow> (None, mapped)
      | Some base \<Rightarrow>
          ((case prev_block of
              Some p \<Rightarrow>
                if Some base = hint_addr then Some (p\<lparr>bk_size := bk_size p + total_size\<rparr>)
                else Some \<lparr>bk_base = base, bk_size = total_size, bk_offset = SIZEOF_ARENA_BLOCK\<rparr>
            | None \<Rightarrow> Some \<lparr>bk_base = base, bk_size = total_size, bk_offset = SIZEOF_ARENA_BLOCK\<rparr>),
           (base, total_size) # mapped))"

section \<open>Operations\<close>

definition arena_init :: "nat \<Rightarrow> arena" where
  "arena_init prot = \<lparr>ar_blocks = [], ar_prot = prot\<rparr>"

text \<open>The last lines of \<open>arena_alloc_aligned\<close>.\<close>

definition bump :: "arena \<Rightarrow> nat \<Rightarrow> nat \<Rightarrow> nat \<times> arena" where
  "bump a padding sz =
     (case ar_blocks a of
        [] \<Rightarrow> (0, a)
      | cur # prev \<Rightarrow>
          (bk_base cur + (bk_offset cur + padding),
           a\<lparr>ar_blocks := cur\<lparr>bk_offset := bk_offset cur + padding + sz\<rparr> # prev\<rparr>))"

definition padding_of :: "arena_block \<Rightarrow> nat \<Rightarrow> nat" where
  "padding_of cur align =
     (let current_addr = bk_base cur + bk_offset cur in align_forward current_addr align - current_addr)"

text \<open>\<open>arena_alloc_aligned\<close> from the point where the arena has a current block.\<close>

definition alloc_in_block :: "system \<Rightarrow> nat \<Rightarrow> nat \<Rightarrow> arena \<Rightarrow> regions \<Rightarrow> nat \<times> arena \<times> regions" where
  "alloc_in_block sys sz align a mapped =
     (let cur = hd (ar_blocks a); padding = padding_of cur align in
      if bk_offset cur + padding + sz > bk_size cur then
        (let needed = sz + align;
             next_size = (if needed > MEMARENA_DEFAULT_SIZE then needed else MEMARENA_DEFAULT_SIZE) in
         case arena_create_block sys next_size (ar_prot a) (Some cur) mapped of
           (None, mapped) \<Rightarrow> (0, a, mapped)
         | (Some new_block, mapped) \<Rightarrow>
             if bk_base new_block \<noteq> bk_base cur then
               (let a = a\<lparr>ar_blocks := new_block # ar_blocks a\<rparr>;
                    (ptr, a) = bump a (padding_of new_block align) sz in (ptr, a, mapped))
             else
               (let a = a\<lparr>ar_blocks := new_block # tl (ar_blocks a)\<rparr>;
                    (ptr, a) = bump a padding sz in (ptr, a, mapped)))
      else let (ptr, a) = bump a padding sz in (ptr, a, mapped))"

definition arena_alloc_aligned ::
  "system \<Rightarrow> nat \<Rightarrow> nat \<Rightarrow> arena \<times> regions \<Rightarrow> nat \<times> arena \<times> regions" where
  "arena_alloc_aligned sys sz align = (\<lambda>(a, mapped).
     if sz = 0 then (0, a, mapped)
     else if \<not> is_power_of_two align then (0, a, mapped)
     else if ar_blocks a = [] then
       let block_size = (if sz > MEMARENA_DEFAULT_SIZE then sz else MEMARENA_DEFAULT_SIZE) in
       (case arena_create_block sys block_size (ar_prot a) None mapped of
          (None, mapped) \<Rightarrow> (0, a, mapped)
        | (Some b, mapped) \<Rightarrow> alloc_in_block sys sz align (a\<lparr>ar_blocks := [b]\<rparr>) mapped)
     else alloc_in_block sys sz align a mapped)"

definition arena_alloc :: "system \<Rightarrow> nat \<Rightarrow> arena \<times> regions \<Rightarrow> nat \<times> arena \<times> regions" where
  "arena_alloc sys sz = arena_alloc_aligned sys sz DEFAULT_ALIGNMENT"

text \<open>\<open>memset\<close> on the memory, when the allocation succeeded.\<close>

definition arena_alloc_zeroed ::
  "system \<Rightarrow> nat \<Rightarrow> arena \<times> regions \<Rightarrow> (nat \<Rightarrow> u8) \<Rightarrow> nat \<times> (arena \<times> regions) \<times> (nat \<Rightarrow> u8)" where
  "arena_alloc_zeroed sys sz am mem =
     (let (ptr, am) = arena_alloc sys sz am in
      (ptr, am, if ptr \<noteq> 0 then (\<lambda>x. if x \<in> {ptr..<ptr + sz} then 0 else mem x) else mem))"

fun unmap_blocks :: "arena_block list \<Rightarrow> regions \<Rightarrow> regions" where
  "unmap_blocks [] mapped = mapped"
| "unmap_blocks (b # bs) mapped = unmap_blocks bs (munmap (bk_base b) (bk_size b) mapped)"

definition arena_free :: "arena \<times> regions \<Rightarrow> arena \<times> regions" where
  "arena_free = (\<lambda>(a, mapped). (a\<lparr>ar_blocks := []\<rparr>, unmap_blocks (ar_blocks a) mapped))"

definition arena_reset :: "arena \<times> regions \<Rightarrow> arena \<times> regions" where
  "arena_reset = (\<lambda>(a, mapped).
     if ar_blocks a = [] then (a, mapped)
     else
       let cur = last (ar_blocks a) in
       (a\<lparr>ar_blocks := [cur\<lparr>bk_offset := SIZEOF_ARENA_BLOCK\<rparr>]\<rparr>, unmap_blocks (butlast (ar_blocks a)) mapped))"

text \<open>A position: the address of the current block, if any, and its offset.\<close>

record arena_pos =
  pos_block :: "nat option"
  pos_offset :: nat

definition arena_temp_begin :: "arena \<Rightarrow> arena_pos" where
  "arena_temp_begin a =
     (case ar_blocks a of
        [] \<Rightarrow> \<lparr>pos_block = None, pos_offset = 0\<rparr>
      | cur # _ \<Rightarrow> \<lparr>pos_block = Some (bk_base cur), pos_offset = bk_offset cur\<rparr>)"

text \<open>
  The loop of \<open>arena_temp_end\<close>. When it reaches the oldest block without having met the
  position it returns, and the arena keeps its chain although the newer blocks are gone.
\<close>

fun temp_loop :: "nat option \<Rightarrow> arena_block list \<Rightarrow> regions \<Rightarrow> arena_block list option \<times> regions" where
  "temp_loop target [] mapped = (None, mapped)"
| "temp_loop target (cur # prev) mapped =
     (if Some (bk_base cur) = target then (Some (cur # prev), mapped)
      else if prev = [] then (None, mapped)
      else temp_loop target prev (munmap (bk_base cur) (bk_size cur) mapped))"

definition arena_temp_end :: "arena_pos \<Rightarrow> arena \<times> regions \<Rightarrow> arena \<times> regions" where
  "arena_temp_end pos = (\<lambda>(a, mapped).
     case temp_loop (pos_block pos) (ar_blocks a) mapped of
       (Some (cur # prev), mapped) \<Rightarrow> (a\<lparr>ar_blocks := cur\<lparr>bk_offset := pos_offset pos\<rparr> # prev\<rparr>, mapped)
     | (_, mapped) \<Rightarrow> (a, mapped))"

definition arena_total_used :: "arena \<Rightarrow> nat" where
  "arena_total_used a = sum_list (map bk_offset (ar_blocks a))"

fun protect_loop :: "system \<Rightarrow> regions \<Rightarrow> arena_block list \<Rightarrow> nat \<Rightarrow> bool" where
  "protect_loop sys mapped [] prot = True"
| "protect_loop sys mapped (b # bs) prot =
     (if \<not> sys_mprotect sys mapped (bk_base b) (bk_size b) prot then False else protect_loop sys mapped bs prot)"

definition arena_set_prot :: "system \<Rightarrow> regions \<Rightarrow> arena \<Rightarrow> nat \<Rightarrow> bool \<times> arena" where
  "arena_set_prot sys mapped a prot =
     (if protect_loop sys mapped (ar_blocks a) prot then (True, a\<lparr>ar_prot := prot\<rparr>) else (False, a))"

text \<open>The totals that \<open>arena_print_stats\<close> prints: blocks, capacity, bytes used.\<close>

definition arena_stats :: "arena \<Rightarrow> nat \<times> nat \<times> nat" where
  "arena_stats a = (length (ar_blocks a), sum_list (map bk_size (ar_blocks a)), sum_list (map bk_offset (ar_blocks a)))"

definition arena_print_stats :: "system \<Rightarrow> arena \<Rightarrow> string" where
  "arena_print_stats sys a =
     (let (block_count, total_capacity, total_used) = arena_stats a;
          line = (\<lambda>label n. label @ fmt_nat (n div (1024 * 1024)) @ '' MB ('' @ fmt_nat (n div 1024) @ '' KiB) ['' @
            fmt_nat n @ '' bytes]'' @ [CHR 10]) in
      ''Arena Stats:'' @ [CHR 10] @
      ''  OS Page size: '' @ fmt_nat (get_page_size sys div 1024) @ ''KiB'' @ [CHR 10] @
      ''  Blocks:'' @ [CHR 9] @ fmt_nat block_count @ [CHR 10] @
      line (''  Capacity: '') total_capacity @
      line (''  Used:'' @ [CHR 9, CHR 9]) total_used)"

record mem_arena_version =
  mv_major :: int
  mv_minor :: int
  mv_patch :: int

definition memarena_get_version :: mem_arena_version where
  "memarena_get_version = \<lparr>mv_major = 1, mv_minor = 0, mv_patch = 0\<rparr>"

text \<open>
  \<open>formatted\<close> is what \<open>vsnprintf\<close> makes of the format and the arguments, \<open>None\<close> for a negative return value. The memory
  is not checked before the second call writes to it.
\<close>

definition arena_sprintf ::
  "system \<Rightarrow> string option \<Rightarrow> arena \<times> regions \<Rightarrow> (nat \<Rightarrow> u8) \<Rightarrow> (nat \<times> (arena \<times> regions) \<times> (nat \<Rightarrow> u8)) outcome" where
  "arena_sprintf sys formatted am mem =
     (case formatted of
        None \<Rightarrow> Ret (0, am, mem)
      | Some str \<Rightarrow>
          if length str + 1 \<ge> 2 ^ 31 then Fault Undefined
          else
            let (buffer, am) = arena_alloc sys (length str + 1) am in
            if buffer = 0 then Fault NullDeref
            else Ret (buffer, am, \<lambda>x. if x \<in> {buffer..<buffer + length str} then of_char (str ! (x - buffer))
                                     else if x = buffer + length str then 0 else mem x))"

end
