(* ===== verification/Jit.thy ===== *)
theory Jit
  imports Asm Ir Arena
begin

text \<open>
  The code generator: \<open>incs/jit.h\<close>, \<open>srcs/jit/helpers.c\<close>, \<open>srcs/jit/encoders.c\<close> and \<open>srcs/jit/jit.c\<close>.
  The context is the record \<open>jit\<close>; the memory the code is written to is one of its fields, and
  addresses are natural numbers, \<open>0\<close> being NULL. An encoder called with buffer \<open>0\<close> only measures.
  The data arena is left out: allocating a \<open>Patch\<close> is assumed to succeed.
\<close>

section \<open>The context\<close>

datatype location = LOC_NONE | LOC_REG x86_reg | LOC_STACK u32 | LOC_CONST i64

record patch =
  pt_label :: nat
  pt_loc :: nat

record compiled_function =
  cf_name :: string
  cf_addr :: nat
  cf_size :: nat

record call_site =
  cs_location :: nat
  cs_target :: string

record jit =
  jx_exec :: "arena \<times> regions"
  jx_registry :: "compiled_function list"
  jx_sites :: "call_site list"
  jx_pending :: "nat list"
  jx_label_offset :: "nat \<Rightarrow> nat"
  jx_label_defined :: "nat \<Rightarrow> bool"
  jx_patches :: "patch list"
  jx_vreg_map :: "nat \<Rightarrow> location"
  jx_phys :: "nat \<Rightarrow> bool"
  jx_stack_base :: nat
  jx_mem :: "nat \<Rightarrow> u8"

definition arg_registers :: "x86_reg list" where
  "arg_registers = [REG_RDI, REG_RSI, REG_RDX, REG_RCX, REG_R8, REG_R9, REG_R12, REG_R13, REG_R14, REG_R15]"

section \<open>Register allocation\<close>

definition is_allocatable_register :: "nat \<Rightarrow> bool" where
  "is_allocatable_register r \<longleftrightarrow> r = 3 \<or> 12 \<le> r \<and> r \<le> 15"

text \<open>The offset of the slot with index \<open>stack_base + vreg\<close>, in \<open>int32_t\<close>.\<close>

definition spill_offset :: "nat \<Rightarrow> u32" where
  "spill_offset slot =
     (let slot_idx = of_nat slot in
      - (of_nat CALLEE_SAVED_SIZE + of_nat (STACK_ALIGNMENT div 2) + (slot_idx + 1) * of_nat (STACK_ALIGNMENT div 2)))"

definition get_location :: "jit \<Rightarrow> nat \<Rightarrow> (location \<times> jit) outcome" where
  "get_location ctx vreg =
     (if vreg \<ge> MAX_VREGS_PER_FUNCTION then Fault OutOfBounds
      else if jx_vreg_map ctx vreg \<noteq> LOC_NONE then Ret (jx_vreg_map ctx vreg, ctx)
      else
        case find (\<lambda>i. is_allocatable_register i \<and> \<not> jx_phys ctx i) [0..<16] of
          Some i \<Rightarrow>
            (case reg_of (of_nat i) of
               None \<Rightarrow> Fault Undefined
             | Some r \<Rightarrow>
                 Ret (LOC_REG r, ctx\<lparr>jx_phys := (jx_phys ctx)(i := True),
                                      jx_vreg_map := (jx_vreg_map ctx)(vreg := LOC_REG r)\<rparr>))
        | None \<Rightarrow>
            let loc = LOC_STACK (spill_offset (jx_stack_base ctx + vreg)) in
            Ret (loc, ctx\<lparr>jx_vreg_map := (jx_vreg_map ctx)(vreg := loc)\<rparr>))"

section \<open>Helpers\<close>

definition load_location_to_reg :: "x86_reg \<Rightarrow> location \<Rightarrow> emitter \<Rightarrow> emitter" where
  "load_location_to_reg dst loc em =
     (case loc of
        LOC_REG r \<Rightarrow> if r \<noteq> dst then emit_mov_reg_reg dst r em else em
      | LOC_STACK offset \<Rightarrow> emit_load_param dst offset em
      | LOC_CONST imm \<Rightarrow> emit_mov_imm dst imm em
      | LOC_NONE \<Rightarrow> em)"

definition store_reg_to_location :: "location \<Rightarrow> x86_reg \<Rightarrow> emitter \<Rightarrow> emitter" where
  "store_reg_to_location loc src em =
     (case loc of
        LOC_REG r \<Rightarrow> if r \<noteq> src then emit_mov_reg_reg r src em else em
      | LOC_STACK offset \<Rightarrow> emit_store_local src offset em
      | LOC_CONST _ \<Rightarrow> em
      | LOC_NONE \<Rightarrow> em)"

text \<open>The result is \<open>*out_right_reg\<close>.\<close>

definition load_binary_operands ::
  "x86_reg \<Rightarrow> x86_reg \<Rightarrow> location \<Rightarrow> location \<Rightarrow> emitter \<Rightarrow> x86_reg \<times> emitter" where
  "load_binary_operands dst tmp left right em =
     (let em = load_location_to_reg dst left em in
      case right of
        LOC_REG r \<Rightarrow> (r, em)
      | _ \<Rightarrow> (tmp, load_location_to_reg tmp right em))"

text \<open>An encoder returns the size it wrote and the context.\<close>

type_synonym encoder = "nat \<Rightarrow> instr \<Rightarrow> jit \<Rightarrow> (nat \<times> jit) outcome"

definition em_start :: "nat \<Rightarrow> jit \<Rightarrow> emitter" where
  "em_start buf ctx = \<lparr>em_buf = buf, em_size = 0, em_mem = jx_mem ctx\<rparr>"

definition em_finish :: "emitter \<Rightarrow> jit \<Rightarrow> (nat \<times> jit) outcome" where
  "em_finish em ctx = Ret (em_size em, ctx\<lparr>jx_mem := em_mem em\<rparr>)"

text \<open>The three locations of a binary operation, in the order the code asks for them.\<close>

definition binary_locations ::
  "instr \<Rightarrow> jit \<Rightarrow> (location \<Rightarrow> location \<Rightarrow> location \<Rightarrow> jit \<Rightarrow> 'a outcome) \<Rightarrow> 'a outcome" where
  "binary_locations inst ctx k =
     obind (get_location ctx (in_dest inst)) (\<lambda>(dest, ctx).
     obind (get_location ctx (in_src1 inst)) (\<lambda>(src_1, ctx).
     obind (get_location ctx (in_src2 inst)) (\<lambda>(src_2, ctx). k dest src_1 src_2 ctx)))"

definition unary_locations ::
  "instr \<Rightarrow> jit \<Rightarrow> (location \<Rightarrow> location \<Rightarrow> jit \<Rightarrow> 'a outcome) \<Rightarrow> 'a outcome" where
  "unary_locations inst ctx k =
     obind (get_location ctx (in_dest inst)) (\<lambda>(dest, ctx).
     obind (get_location ctx (in_src1 inst)) (\<lambda>(src, ctx). k dest src ctx))"

definition emit_standard_binary_op :: "x86_opcode \<Rightarrow> encoder" where
  "emit_standard_binary_op opcode buf inst ctx =
     binary_locations inst ctx (\<lambda>dest src_1 src_2 ctx.
       let em = em_start buf ctx;
           (right_reg, em) = load_binary_operands REG_RAX REG_RDX src_1 src_2 em;
           em = emit_alu opcode REG_RAX right_reg em
       in em_finish (store_reg_to_location dest REG_RAX em) ctx)"

definition emit_comparison_op :: "x86_condition \<Rightarrow> encoder" where
  "emit_comparison_op condition buf inst ctx =
     binary_locations inst ctx (\<lambda>dest src_1 src_2 ctx.
       let em = em_start buf ctx;
           (right_reg, em) = load_binary_operands REG_RAX REG_RCX src_1 src_2 em;
           em = emit_cmp REG_RAX right_reg em;
           em = emit_setcc condition REG_RAX em;
           em = emit_movzx REG_RAX REG_RAX em
       in em_finish (store_reg_to_location dest REG_RAX em) ctx)"

definition emit_shift_op :: "x86_extension \<Rightarrow> encoder" where
  "emit_shift_op extension buf inst ctx =
     binary_locations inst ctx (\<lambda>dest src_1 src_2 ctx.
       let em = em_start buf ctx;
           em = load_location_to_reg REG_RAX src_1 em;
           em = load_location_to_reg REG_RCX src_2 em;
           em = emit_u8 REX_W em;
           em = emit_u8 (opcode_byte OP_SHIFT_CL) em;
           em = emit_u8 (modrm MOD_REG (ext_code extension) (reg_code REG_RAX)) em
       in em_finish (store_reg_to_location dest REG_RAX em) ctx)"

section \<open>Encoders\<close>

text \<open>\<open>memcpy (loc, &rel, 4)\<close>.\<close>

definition patch_jump_offset :: "nat \<Rightarrow> nat \<Rightarrow> (nat \<Rightarrow> u8) \<Rightarrow> nat \<Rightarrow> u8" where
  "patch_jump_offset loc target mem = write_bytes loc (le32 (of_int (int target - int (loc + 4)))) mem"

definition get_local_offset :: "nat \<Rightarrow> u32" where
  "get_local_offset idx =
     - (of_nat CALLEE_SAVED_SIZE + of_nat WORD_SIZE + of_nat (idx + 1) * of_nat WORD_SIZE)"

text \<open>\<open>opcode\<close> is the byte of the jump: \<open>0xE9\<close>, or the second byte of a conditional one.\<close>

definition emit_jump :: "nat \<Rightarrow> nat \<Rightarrow> jit \<Rightarrow> u8 \<Rightarrow> nat \<times> jit" where
  "emit_jump buf label_id ctx opcode =
     (let em = em_start buf ctx;
          em = (if opcode = opcode_byte OP_JMP_REL32 then emit_u8 (opcode_byte OP_JMP_REL32) em
                else emit_u8 opcode (emit_u8 (opcode_byte OP_PREFIX_0F) em)) in
      if buf = 0 then (em_size em + 4, ctx)
      else if label_id < MAX_LABELS \<and> jx_label_defined ctx label_id then
        let target = jx_label_offset ctx label_id;
            em = emit_u32 (of_int (int target - int (em_buf em + 4))) em
        in (em_size em, ctx\<lparr>jx_mem := em_mem em\<rparr>)
      else
        let ctx = ctx\<lparr>jx_patches := \<lparr>pt_label = label_id, pt_loc = em_buf em\<rparr> # jx_patches ctx\<rparr>;
            em = emit_u32 0 em
        in (em_size em, ctx\<lparr>jx_mem := em_mem em\<rparr>))"

definition emit_jz_jnz :: "instr \<Rightarrow> jit \<Rightarrow> emitter \<Rightarrow> (emitter \<times> jit) outcome" where
  "emit_jz_jnz inst ctx em =
     obind (get_location ctx (in_src1 inst)) (\<lambda>(src, ctx).
       Ret (case src of
              LOC_REG r \<Rightarrow> emit_test r r em
            | _ \<Rightarrow>
                let em = load_location_to_reg REG_RAX src em;
                    em = emit_u8 REX_W em;
                    em = emit_u8 (opcode_byte ALU_IMM8) em;
                    em = emit_u8 (modrm MOD_REG (ext_code EXT_CMP) (reg_code REG_RAX)) em
                in emit_u8 0 em, ctx))"

definition encode_mov :: encoder where
  "encode_mov buf inst ctx =
     unary_locations inst ctx (\<lambda>dest src ctx.
       if (case (dest, src) of (LOC_REG d, LOC_REG s) \<Rightarrow> d = s | _ \<Rightarrow> False) then Ret (0, ctx)
       else
         let em = em_start buf ctx;
             em = load_location_to_reg REG_RAX src em
         in em_finish (store_reg_to_location dest REG_RAX em) ctx)"

fun condition_of :: "opcode \<Rightarrow> x86_condition" where
  "condition_of IR_EQ = CC_E"
| "condition_of IR_NEQ = CC_NE"
| "condition_of IR_LT = CC_L"
| "condition_of IR_LE = CC_LE"
| "condition_of IR_GT = CC_G"
| "condition_of IR_GE = CC_GE"
| "condition_of _ = CC_E"

definition encode_cmp :: encoder where
  "encode_cmp buf inst ctx = emit_comparison_op (condition_of (in_op inst)) buf inst ctx"

definition encode_jmp :: encoder where
  "encode_jmp buf inst ctx = Ret (emit_jump buf (in_label inst) ctx (opcode_byte OP_JMP_REL32))"

definition encode_branch :: encoder where
  "encode_branch buf inst ctx =
     obind (emit_jz_jnz inst ctx (em_start buf ctx)) (\<lambda>(em, ctx).
       let opcode = 0x80 OR cc_code (if in_op inst = IR_JZ then CC_E else CC_NE);
           (jmp_size, ctx) = emit_jump (em_buf em) (in_label inst) (ctx\<lparr>jx_mem := em_mem em\<rparr>) opcode
       in Ret (em_size em + jmp_size, ctx))"

text \<open>The loop over the patches: those of the label are applied and unlinked.\<close>

fun apply_patches :: "nat \<Rightarrow> nat \<Rightarrow> patch list \<Rightarrow> (nat \<Rightarrow> u8) \<Rightarrow> patch list \<times> (nat \<Rightarrow> u8)" where
  "apply_patches label_id buf [] mem = ([], mem)"
| "apply_patches label_id buf (p # ps) mem =
     (if pt_label p = label_id then apply_patches label_id buf ps (patch_jump_offset (pt_loc p) buf mem)
      else let (ps, mem) = apply_patches label_id buf ps mem in (p # ps, mem))"

definition encode_label :: encoder where
  "encode_label buf inst ctx =
     (let label_id = in_label inst in
      if label_id \<ge> MAX_LABELS then Ret (0, ctx)
      else if buf \<noteq> 0 then
        let (patches, mem) = apply_patches label_id buf (jx_patches ctx) (jx_mem ctx) in
        Ret (0, ctx\<lparr>jx_label_defined := (jx_label_defined ctx)(label_id := True),
                     jx_label_offset := (jx_label_offset ctx)(label_id := buf),
                     jx_patches := patches, jx_mem := mem\<rparr>)
      else Ret (0, ctx))"

definition encode_const :: encoder where
  "encode_const buf inst ctx =
     obind (get_location ctx (in_dest inst)) (\<lambda>(dest, ctx).
       let em = em_start buf ctx;
           em = emit_mov_imm REG_RAX (of_int (in_imm inst)) em
       in em_finish (store_reg_to_location dest REG_RAX em) ctx)"

definition encode_add :: encoder where
  "encode_add buf inst ctx = emit_standard_binary_op ALU_ADD buf inst ctx"

definition encode_sub :: encoder where
  "encode_sub buf inst ctx = emit_standard_binary_op ALU_SUB buf inst ctx"

definition encode_and :: encoder where
  "encode_and buf inst ctx = emit_standard_binary_op ALU_AND buf inst ctx"

definition encode_or :: encoder where
  "encode_or buf inst ctx = emit_standard_binary_op ALU_OR buf inst ctx"

definition encode_xor :: encoder where
  "encode_xor buf inst ctx = emit_standard_binary_op ALU_XOR buf inst ctx"

definition encode_lshift :: encoder where
  "encode_lshift buf inst ctx = emit_shift_op EXT_SHL buf inst ctx"

definition encode_rshift :: encoder where
  "encode_rshift buf inst ctx = emit_shift_op EXT_SAR buf inst ctx"

definition encode_urshift :: encoder where
  "encode_urshift buf inst ctx = emit_shift_op EXT_SHR buf inst ctx"

definition encode_mul :: encoder where
  "encode_mul buf inst ctx =
     binary_locations inst ctx (\<lambda>dest src_1 src_2 ctx.
       let em = em_start buf ctx;
           (right_reg, em) = load_binary_operands REG_RAX REG_RCX src_1 src_2 em;
           em = emit_imul_r64 REG_RAX right_reg em
       in em_finish (store_reg_to_location dest REG_RAX em) ctx)"

definition encode_div :: encoder where
  "encode_div buf inst ctx =
     binary_locations inst ctx (\<lambda>dest src_1 src_2 ctx.
       let em = em_start buf ctx;
           em = load_location_to_reg REG_RAX src_1 em;
           em = emit_u8 REX_W em;
           em = emit_u8 (opcode_byte OP_CQO) em;
           (divisor, em) = (case src_2 of
               LOC_REG r \<Rightarrow> (r, em)
             | _ \<Rightarrow> (REG_RCX, load_location_to_reg REG_RCX src_2 em));
           rex = (if reg_code divisor \<ge> 8 then REX_W OR 0x01 else REX_W);
           em = emit_u8 rex em;
           em = emit_u8 (opcode_byte OP_IDIV) em;
           em = emit_u8 (modrm MOD_REG (ext_code EXT_IDIV) (low3 divisor)) em
       in em_finish (store_reg_to_location dest REG_RAX em) ctx)"

text \<open>Unary operations: load into \<open>rax\<close>, operate, store.\<close>

definition unary_op :: "(emitter \<Rightarrow> emitter) \<Rightarrow> encoder" where
  "unary_op operate buf inst ctx =
     unary_locations inst ctx (\<lambda>dest src ctx.
       let em = em_start buf ctx;
           em = load_location_to_reg REG_RAX src em;
           em = operate em
       in em_finish (store_reg_to_location dest REG_RAX em) ctx)"

definition encode_neg :: encoder where
  "encode_neg = unary_op (\<lambda>em.
     let em = emit_u8 REX_W em;
         em = emit_u8 (opcode_byte OP_IDIV) em
     in emit_u8 (modrm MOD_REG (ext_code EXT_NEG) (reg_code REG_RAX)) em)"

definition encode_not_bitwise :: encoder where
  "encode_not_bitwise = unary_op (\<lambda>em.
     let em = emit_u8 REX_W em;
         em = emit_u8 (opcode_byte OP_GRP3) em
     in emit_u8 (modrm MOD_REG (ext_code EXT_NOT) (reg_code REG_RAX)) em)"

definition encode_not :: encoder where
  "encode_not = unary_op (\<lambda>em.
     let em = emit_u8 REX_W em;
         em = emit_u8 (opcode_byte ALU_IMM8) em;
         em = emit_u8 (modrm MOD_REG (ext_code EXT_CMP) (reg_code REG_RAX)) em;
         em = emit_u8 0 em;
         em = emit_setcc CC_E REG_RAX em
     in emit_movzx REG_RAX REG_RAX em)"

definition encode_arg :: encoder where
  "encode_arg buf inst ctx =
     (if length (jx_pending ctx) \<ge> MAX_PARAMS_PER_FUNCTION then Fault OutOfBounds
      else Ret (0, ctx\<lparr>jx_pending := jx_pending ctx @ [in_src1 inst]\<rparr>))"

text \<open>The pieces of a call: stack arguments last to first, then the register arguments.\<close>

fun push_stack_args :: "nat list \<Rightarrow> emitter \<Rightarrow> jit \<Rightarrow> (emitter \<times> jit) outcome" where
  "push_stack_args [] em ctx = Ret (em, ctx)"
| "push_stack_args (v # vs) em ctx =
     obind (get_location ctx v) (\<lambda>(loc, ctx).
       push_stack_args vs (emit_push REG_RAX (load_location_to_reg REG_RAX loc em)) ctx)"

fun push_reg_args :: "nat list \<Rightarrow> emitter \<Rightarrow> jit \<Rightarrow> (emitter \<times> jit) outcome" where
  "push_reg_args [] em ctx = Ret (em, ctx)"
| "push_reg_args (v # vs) em ctx =
     obind (get_location ctx v) (\<lambda>(loc, ctx).
       push_reg_args vs
         (case loc of
            LOC_REG r \<Rightarrow> emit_push r em
          | _ \<Rightarrow> emit_push REG_RAX (load_location_to_reg REG_RAX loc em)) ctx)"

fun pop_args :: "x86_reg list \<Rightarrow> emitter \<Rightarrow> emitter" where
  "pop_args [] em = em"
| "pop_args (r # rs) em = pop_args rs (emit_pop r em)"

text \<open>\<open>sub rsp, n\<close> and \<open>add rsp, n\<close>.\<close>

definition emit_rsp :: "x86_extension \<Rightarrow> nat \<Rightarrow> emitter \<Rightarrow> emitter" where
  "emit_rsp extension n em =
     (let em = emit_u8 REX_W em;
          em = emit_u8 (opcode_byte ALU_IMM) em;
          em = emit_u8 (modrm MOD_REG (ext_code extension) (reg_code REG_RSP)) em
      in emit_u32 (of_nat n) em)"

definition add_call_site :: "nat \<Rightarrow> emitter \<Rightarrow> string \<Rightarrow> jit \<Rightarrow> jit" where
  "add_call_site buf em name ctx =
     (if buf \<noteq> 0 \<and> length (jx_sites ctx) < MAX_CALL_SITES
      then ctx\<lparr>jx_sites := jx_sites ctx @ [\<lparr>cs_location = em_buf em, cs_target = name\<rparr>]\<rparr>
      else ctx)"

definition encode_call :: encoder where
  "encode_call buf inst ctx =
     obind (get_location ctx (in_dest inst)) (\<lambda>(dest, ctx).
     let args = jx_pending ctx;
         stack_args = (if length args > SYS_V_MAX_REG_ARGS then length args - SYS_V_MAX_REG_ARGS else 0);
         reg_args = (if length args > SYS_V_MAX_REG_ARGS then SYS_V_MAX_REG_ARGS else length args);
         needs_alignment = (stack_args mod 2 \<noteq> 0);
         em = em_start buf ctx;
         em = (if needs_alignment then emit_rsp EXT_SUB (STACK_ALIGNMENT div 2) em else em) in
     obind (push_stack_args (rev (drop 6 args)) em ctx) (\<lambda>(em, ctx).
     obind (push_reg_args (rev (take reg_args args)) em ctx) (\<lambda>(em, ctx).
     let em = pop_args (take reg_args arg_registers) em;
         em = emit_u8 REX_W em;
         em = emit_u8 (opcode_byte MOV_IMM_R + reg_code REG_RAX) em;
         ctx = add_call_site buf em (in_func inst) ctx;
         em = emit_u64 0xDEADBEEFDEADBEEF em;
         em = emit_u8 (opcode_byte OP_CALL_IND) em;
         em = emit_u8 (modrm MOD_REG (ext_code EXT_CALL) (reg_code REG_RAX)) em;
         em = (if stack_args > 0 \<or> needs_alignment
               then emit_rsp EXT_ADD (stack_args * (STACK_ALIGNMENT div 2) +
                                      (if needs_alignment then STACK_ALIGNMENT div 2 else 0)) em
               else em);
         em = store_reg_to_location dest REG_RAX em
     in em_finish em (ctx\<lparr>jx_pending := []\<rparr>))))"

definition encode_ret :: encoder where
  "encode_ret buf inst ctx =
     obind (get_location ctx (in_src1 inst)) (\<lambda>(src, ctx).
     let em = em_start buf ctx;
         em = load_location_to_reg REG_RAX src em;
         em = emit_u8 REX_W em;
         em = emit_u8 (opcode_byte OP_LEA) em;
         em = emit_u8 (modrm MOD_MEM_DISP8 (reg_code REG_RSP) (reg_code REG_RBP)) em;
         em = emit_u8 (- of_nat CALLEE_SAVED_SIZE) em;
         em = pop_args [REG_R15, REG_R14, REG_R13, REG_R12, REG_RBX] em;
         em = emit_pop REG_RBP em;
         em = emit_u8 (opcode_byte OP_RET) em
     in em_finish em ctx)"

definition encode_store :: encoder where
  "encode_store buf inst ctx =
     obind (get_location ctx (in_src1 inst)) (\<lambda>(src, ctx).
     let offset = get_local_offset (in_dest inst);
         data_size = type_size (in_type inst);
         em = em_start buf ctx;
         em = (case src of
                 LOC_REG r \<Rightarrow> emit_store_sized r REG_RBP offset data_size em
               | _ \<Rightarrow> emit_store_sized REG_RAX REG_RBP offset data_size (load_location_to_reg REG_RAX src em))
     in em_finish em ctx)"

definition encode_load :: encoder where
  "encode_load buf inst ctx =
     obind (get_location ctx (in_dest inst)) (\<lambda>(dest, ctx).
     let offset = get_local_offset (in_src1 inst);
         data_size = type_size (in_type inst);
         em = em_start buf ctx;
         em = (case dest of
                 LOC_REG r \<Rightarrow> emit_load_signext r REG_RBP offset data_size em
               | _ \<Rightarrow> store_reg_to_location dest REG_RAX (emit_load_signext REG_RAX REG_RBP offset data_size em))
     in em_finish em ctx)"

text \<open>Column \<open>encoder\<close> of the operation table.\<close>

fun encoders :: "opcode \<Rightarrow> encoder" where
  "encoders IR_ADD = encode_add"
| "encoders IR_SUB = encode_sub"
| "encoders IR_MUL = encode_mul"
| "encoders IR_DIV = encode_div"
| "encoders IR_EQ = encode_cmp"
| "encoders IR_NEQ = encode_cmp"
| "encoders IR_LT = encode_cmp"
| "encoders IR_LE = encode_cmp"
| "encoders IR_GT = encode_cmp"
| "encoders IR_GE = encode_cmp"
| "encoders IR_LSHIFT = encode_lshift"
| "encoders IR_RSHIFT = encode_rshift"
| "encoders IR_URSHIFT = encode_urshift"
| "encoders IR_BAND = encode_and"
| "encoders IR_BOR = encode_or"
| "encoders IR_BXOR = encode_xor"
| "encoders IR_BNOT = encode_not_bitwise"
| "encoders IR_NEG = encode_neg"
| "encoders IR_NOT = encode_not"
| "encoders IR_MOV = encode_mov"
| "encoders IR_LOAD = encode_load"
| "encoders IR_STORE = encode_store"
| "encoders IR_CONST = encode_const"
| "encoders IR_ARG = encode_arg"
| "encoders IR_LABEL = encode_label"
| "encoders IR_JMP = encode_jmp"
| "encoders IR_JZ = encode_branch"
| "encoders IR_JNZ = encode_branch"
| "encoders IR_CALL = encode_call"
| "encoders IR_RET = encode_ret"

definition encode_inst :: encoder where
  "encode_inst buf inst ctx = encoders (in_op inst) buf inst ctx"

section \<open>Functions\<close>

text \<open>The loop over the parameters, from parameter \<open>i\<close> on.\<close>

fun place_params :: "nat \<Rightarrow> nat \<Rightarrow> emitter \<Rightarrow> jit \<Rightarrow> (emitter \<times> jit) outcome" where
  "place_params 0 i em ctx = Ret (em, ctx)"
| "place_params (Suc n) i em ctx =
     obind (get_location ctx (i + 1)) (\<lambda>(loc, ctx).
     obind
       (if i < 6 then
          let src_reg = arg_registers ! i in
          Ret (case loc of
                 LOC_REG r \<Rightarrow> if r \<noteq> src_reg then emit_mov_reg_reg r src_reg em else em
               | LOC_STACK offset \<Rightarrow> emit_store_local src_reg offset em
               | _ \<Rightarrow> em)
        else
          let src_offset = of_nat (2 * WORD_SIZE + (i - 6) * WORD_SIZE) in
          (case loc of
             LOC_REG r \<Rightarrow> Ret (emit_load_param r src_offset em)
           | LOC_STACK offset \<Rightarrow> Ret (emit_store_local REG_RAX offset (emit_load_param REG_RAX src_offset em))
           | _ \<Rightarrow> Fault Undefined))
       (\<lambda>em. place_params n (i + 1) em ctx))"

fun push_all :: "x86_reg list \<Rightarrow> emitter \<Rightarrow> emitter" where
  "push_all [] em = em"
| "push_all (r # rs) em = push_all rs (emit_push r em)"

definition encode_prologue :: "nat \<Rightarrow> nat \<Rightarrow> nat \<Rightarrow> jit \<Rightarrow> (nat \<times> jit) outcome" where
  "encode_prologue buf stack_size param_count ctx =
     (let em = em_start buf ctx;
          em = emit_push REG_RBP em;
          em = emit_mov_reg_reg REG_RBP REG_RSP em;
          em = push_all [REG_RBX, REG_R12, REG_R13, REG_R14, REG_R15] em;
          em = (if stack_size > 0 then emit_rsp EXT_SUB stack_size em else em)
      in obind (place_params param_count 0 em ctx) (\<lambda>(em, ctx). em_finish em ctx))"

definition jit_ctx_init :: "arena \<times> regions \<Rightarrow> (nat \<Rightarrow> u8) \<Rightarrow> jit" where
  "jit_ctx_init exec mem =
     \<lparr>jx_exec = exec, jx_registry = [], jx_sites = [], jx_pending = [], jx_label_offset = (\<lambda>_. 0),
      jx_label_defined = (\<lambda>_. False), jx_patches = [], jx_vreg_map = (\<lambda>_. LOC_NONE), jx_phys = (\<lambda>_. False),
      jx_stack_base = 0, jx_mem = mem\<rparr>"

definition reset_state :: "jit \<Rightarrow> jit" where
  "reset_state ctx =
     ctx\<lparr>jx_pending := [], jx_patches := [], jx_label_offset := (\<lambda>_. 0), jx_label_defined := (\<lambda>_. False),
         jx_vreg_map := (\<lambda>_. LOC_NONE), jx_phys := (\<lambda>_. False)\<rparr>"

definition calculate_aligned_stack_size :: "ir_function \<Rightarrow> nat" where
  "calculate_aligned_stack_size f =
     (let raw_locals_size = (if_stack_count f + if_vreg_count f) * WORD_SIZE;
          bytes_pushed = WORD_SIZE * 2 + CALLEE_SAVED_COUNT * WORD_SIZE;
          total_usage = bytes_pushed + raw_locals_size;
          remainder = total_usage mod STACK_ALIGNMENT;
          padding = (if remainder = 0 then 0 else STACK_ALIGNMENT - remainder)
      in raw_locals_size + padding)"

text \<open>Pass 1: the sizes, with a NULL buffer.\<close>

fun measure_code :: "instr list \<Rightarrow> nat \<Rightarrow> jit \<Rightarrow> (nat \<times> jit) outcome" where
  "measure_code [] predicted ctx = Ret (predicted, ctx)"
| "measure_code (i # is) predicted ctx =
     obind (encode_inst 0 i ctx) (\<lambda>(n, ctx). measure_code is (predicted + n) ctx)"

text \<open>
  Pass 2: the bytes. \<open>code\<close> is the start of the buffer and \<open>write_ptr\<close> the cursor. When the
  allocation has failed the code goes on with \<open>code = NULL\<close>, and its first write faults.
\<close>

fun write_code :: "nat \<Rightarrow> nat \<Rightarrow> instr list \<Rightarrow> nat \<Rightarrow> jit \<Rightarrow> (nat \<times> jit) outcome" where
  "write_code code predicted [] write_ptr ctx = Ret (write_ptr, ctx)"
| "write_code code predicted (i # is) write_ptr ctx =
     obind (encode_inst write_ptr i ctx) (\<lambda>(n, ctx).
     if code = 0 \<and> n > 0 then Fault NullDeref
     else
       let write_ptr = write_ptr + n in
       if write_ptr - code > predicted then Fault Aborted
       else write_code code predicted is write_ptr ctx)"

text \<open>The result is the address and the size, \<open>0\<close> for NULL.\<close>

definition jit_compile_function ::
  "system \<Rightarrow> jit \<Rightarrow> ir_function \<Rightarrow> string \<Rightarrow> nat \<Rightarrow> ((nat \<times> nat) \<times> jit) outcome" where
  "jit_compile_function sys ctx f name param_count =
     (let ctx = reset_state ctx in
      if if_label_count f \<ge> MAX_LABELS then Ret ((0, 0), ctx)
      else
        let ctx = ctx\<lparr>jx_stack_base := if_stack_count f\<rparr>;
            stack_bytes = calculate_aligned_stack_size f in
        obind (encode_prologue 0 stack_bytes param_count ctx) (\<lambda>(n, ctx).
        obind (measure_code (ir_code f) n ctx) (\<lambda>(predicted, ctx).
        if length (ir_code f) \<noteq> if_total_count f then Fault Aborted
        else
          let (code, exec) = arena_alloc_aligned sys predicted STACK_ALIGNMENT (jx_exec ctx);
              ctx = reset_state (ctx\<lparr>jx_exec := exec\<rparr>) in
          obind (encode_prologue code stack_bytes param_count ctx) (\<lambda>(n, ctx).
          obind (write_code code predicted (ir_code f) (code + n) ctx) (\<lambda>(write_ptr, ctx).
          let actual_size = write_ptr - code in
          if actual_size \<noteq> predicted then Fault Aborted
          else if length (jx_registry ctx) \<ge> MAX_FUNCTION_COUNT then Ret ((0, 0), ctx)
          else Ret ((code, actual_size),
                    ctx\<lparr>jx_registry := jx_registry ctx @
                          [\<lparr>cf_name = name, cf_addr = code, cf_size = actual_size\<rparr>]\<rparr>))))))"

section \<open>Linking\<close>

definition resolve :: "compiled_function list \<Rightarrow> string \<Rightarrow> nat" where
  "resolve functions target =
     (case find (\<lambda>f. sv_eq target (cf_name f)) functions of None \<Rightarrow> 0 | Some f \<Rightarrow> cf_addr f)"

fun link_sites :: "compiled_function list \<Rightarrow> call_site list \<Rightarrow> (nat \<Rightarrow> u8) \<Rightarrow> error_context \<Rightarrow>
    bool \<times> (nat \<Rightarrow> u8) \<times> error_context" where
  "link_sites functions [] mem errors = (True, mem, errors)"
| "link_sites functions (site # sites) mem errors =
     (let target_addr = resolve functions (cs_target site) in
      if target_addr = 0 then
        let errors = error_add errors ERROR_CODEGEN ERROR_LEVEL_ERROR None 0 0
              (''undefined reference to function '' @ quoted (cs_target site));
            (_, mem, errors) = link_sites functions sites mem errors
        in (False, mem, errors)
      else link_sites functions sites (write_bytes (cs_location site) (le64 (of_nat target_addr)) mem) errors)"

definition jit_link_all :: "jit \<Rightarrow> error_context \<Rightarrow> bool \<times> jit \<times> error_context" where
  "jit_link_all ctx errors =
     (let (ok, mem, errors) = link_sites (jx_registry ctx) (jx_sites ctx) (jx_mem ctx) errors
      in (ok, ctx\<lparr>jx_mem := mem\<rparr>, errors))"

end
