(* ===== verification/Driver.thy ===== *)
theory Driver
  imports Validation Resources Parser Semantic IrGen Jit
begin

text \<open>
  \<open>srcs/compile/compile.c\<close>, \<open>jit_compile_pass\<close> of \<open>srcs/jit/jit.c\<close> and \<open>srcs/main.c\<close>: the phases of
  the compiler and their composition. Progress messages on \<open>stdout\<close> are left out; allocation in the
  data arenas is assumed to succeed. What the processor does with the machine code is the parameter
  \<open>run\<close> of \<open>tiny_main\<close>, a function from the context and an entry address to \<open>rax\<close>.
\<close>

section \<open>Compilation units\<close>

text \<open>A \<open>FileMap\<close> is a name, the bytes and the address they are mapped at.\<close>

record compilation_unit =
  cu_name :: string
  cu_data :: string
  cu_ast :: ast
  cu_parsed_ok :: bool

record compilation =
  cc_units :: "compilation_unit list"
  cc_capacity :: nat
  cc_errors :: error_context
  cc_global :: global_scope

definition compile_ctx_init :: "error_context \<Rightarrow> nat \<Rightarrow> bool \<times> compilation" where
  "compile_ctx_init errors file_count =
     (let ctx = \<lparr>cc_units = [], cc_capacity = 0, cc_errors = errors, cc_global = []\<rparr> in
      if file_count < 1 then
        (False, ctx\<lparr>cc_errors := error_fatal errors None 0 0 ''expected at least 1 source file''\<rparr>)
      else if file_count > MAX_SOURCE_FILES then
        (False, ctx\<lparr>cc_errors := error_fatal errors None 0 0 (''too many files (max '' @ fmt_nat MAX_SOURCE_FILES @ '')'')\<rparr>)
      else (True, ctx\<lparr>cc_capacity := file_count\<rparr>))"

text \<open>
  \<open>map_input\<close> of \<open>srcs/utils.c\<close>: the address and the length of the mapping; the descriptor is closed in
  every case. \<open>mmap\<close> refuses length 0.
\<close>

definition map_input :: "os \<Rightarrow> string \<Rightarrow> (nat \<times> nat) option" where
  "map_input sys data =
     (if \<not> os_fstat sys data then None
      else if length data = 0 then None
      else map_option (\<lambda>addr. (addr, length data)) (os_map sys data))"

text \<open>The result carries the mappings given back on the way.\<close>

definition compile_ctx_add_file ::
  "os \<Rightarrow> compilation \<Rightarrow> string \<Rightarrow> tracker \<Rightarrow> bool \<times> compilation \<times> tracker \<times> release list" where
  "compile_ctx_add_file sys ctx filepath resources =
     (let fail = (\<lambda>file text. (False, ctx\<lparr>cc_errors := error_fatal (cc_errors ctx) file 0 0 text\<rparr>, resources, [])) in
      if length (cc_units ctx) \<ge> cc_capacity ctx then fail None ''internal error: compilation unit overflow''
      else
        let (valid, validation, errors) = validate_source_file sys filepath (cc_errors ctx);
            ctx = ctx\<lparr>cc_errors := errors\<rparr>;
            fail = (\<lambda>text. (False, ctx\<lparr>cc_errors := error_fatal errors (Some filepath) 0 0 text\<rparr>, resources, [])) in
        if \<not> valid then (False, ctx, resources, [])
        else case os_open sys (fv_canonical_path validation) of
          None \<Rightarrow> fail (''failed to open file: '' @ os_error sys)
        | Some data \<Rightarrow>
            (case map_input sys data of
               None \<Rightarrow> fail (''failed to map file into memory: '' @ os_error sys)
             | Some (addr, len) \<Rightarrow>
                 let (tracked, resources', given_back) = resource_track_mmap resources addr len in
                 if \<not> tracked then
                   (False, ctx\<lparr>cc_errors := error_fatal errors (Some filepath) 0 0
                      (''resource tracker full (capacity '' @ fmt_nat (tr_capacity resources) @ '')'')\<rparr>,
                    resources', given_back)
                 else
                   (True, ctx\<lparr>cc_units := cc_units ctx @
                      [\<lparr>cu_name = filepath, cu_data = data, cu_ast = AstNull, cu_parsed_ok = False\<rparr>]\<rparr>,
                    resources', given_back)))"

fun add_files :: "os \<Rightarrow> compilation \<Rightarrow> string list \<Rightarrow> tracker \<Rightarrow> bool \<times> compilation \<times> tracker \<times> release list" where
  "add_files sys ctx [] resources = (True, ctx, resources, [])"
| "add_files sys ctx (f # fs) resources =
     (let (ok, ctx, resources, given_back) = compile_ctx_add_file sys ctx f resources in
      if \<not> ok then (False, ctx, resources, given_back)
      else let (ok, ctx, resources, more) = add_files sys ctx fs resources in (ok, ctx, resources, given_back @ more))"

section \<open>Parsing and analysis\<close>

text \<open>The fuel of the parser is the length of the file plus two, which is always enough.\<close>

fun parse_units :: "compilation_unit list \<Rightarrow> error_context \<Rightarrow> (bool \<times> compilation_unit list \<times> error_context) outcome" where
  "parse_units [] errors = Ret (True, [], errors)"
| "parse_units (unit # units) errors =
     obind (parser_parse (length (cu_data unit) + 2) (lexer_init (cu_name unit) (cu_data unit)) errors) (\<lambda>(ast, p).
     let unit = unit\<lparr>cu_ast := ast, cu_parsed_ok := ast \<noteq> AstNull\<rparr> in
     obind (parse_units units (ps_errors p)) (\<lambda>(all_ok, units, errors).
       Ret (cu_parsed_ok unit \<and> all_ok, unit # units, errors)))"

definition compile_parse_all :: "compilation \<Rightarrow> (bool \<times> compilation) outcome" where
  "compile_parse_all ctx =
     obind (parse_units (cc_units ctx) (cc_errors ctx)) (\<lambda>(all_ok, units, errors).
       Ret (all_ok, ctx\<lparr>cc_units := units, cc_errors := errors\<rparr>))"

text \<open>\<open>unit->ast->translation_unit.declarations\<close>.\<close>

fun declarations_of :: "ast \<Rightarrow> ast list outcome" where
  "declarations_of (AstTranslationUnit i ds) = Ret ds"
| "declarations_of AstNull = Fault NullDeref"
| "declarations_of _ = Fault Undefined"

fun collect_declarations :: "string \<Rightarrow> ast list \<Rightarrow> global_scope \<Rightarrow> error_context \<Rightarrow>
    (bool \<times> global_scope \<times> error_context) outcome" where
  "collect_declarations name [] global errors = Ret (True, global, errors)"
| "collect_declarations name (func # ds) global errors =
     (if is_null func then Fault NullDeref
      else
        let (ok, global, errors) =
              (if is_function func then semantic_global_declare_function global errors func name
               else (True, global, errors)) in
        obind (collect_declarations name ds global errors) (\<lambda>(all_ok, global, errors).
          Ret (ok \<and> all_ok, global, errors)))"

fun collect_units :: "compilation_unit list \<Rightarrow> global_scope \<Rightarrow> error_context \<Rightarrow>
    (bool \<times> global_scope \<times> error_context) outcome" where
  "collect_units [] global errors = Ret (True, global, errors)"
| "collect_units (unit # units) global errors =
     (if \<not> cu_parsed_ok unit then collect_units units global errors
      else
        obind (declarations_of (cu_ast unit)) (\<lambda>ds.
        obind (collect_declarations (cu_name unit) ds global errors) (\<lambda>(ok, global, errors).
        obind (collect_units units global errors) (\<lambda>(all_ok, global, errors).
          Ret (ok \<and> all_ok, global, errors)))))"

fun analyze_units :: "compilation_unit list \<Rightarrow> global_scope \<Rightarrow> error_context \<Rightarrow>
    (bool \<times> compilation_unit list \<times> error_context) outcome" where
  "analyze_units [] global errors = Ret (True, [], errors)"
| "analyze_units (unit # units) global errors =
     (if \<not> cu_parsed_ok unit \<or> cu_ast unit = AstNull then
        obind (analyze_units units global errors) (\<lambda>(all_ok, units, errors). Ret (all_ok, unit # units, errors))
      else
        obind (semantic_analyze (cu_ast unit) (cu_name unit) errors global) (\<lambda>(ok, ast, errors).
        obind (analyze_units units global errors) (\<lambda>(all_ok, units, errors).
          Ret (ok \<and> all_ok, unit\<lparr>cu_ast := ast\<rparr> # units, errors))))"

definition compile_analyze_all :: "compilation \<Rightarrow> (bool \<times> compilation) outcome" where
  "compile_analyze_all ctx =
     obind (collect_units (cc_units ctx) (cc_global ctx) (cc_errors ctx)) (\<lambda>(all_ok, global, errors).
     let ctx = ctx\<lparr>cc_global := global, cc_errors := errors\<rparr> in
     if \<not> all_ok then Ret (False, ctx)
     else obind (analyze_units (cc_units ctx) global errors) (\<lambda>(all_ok, units, errors).
       Ret (all_ok, ctx\<lparr>cc_units := units, cc_errors := errors\<rparr>)))"

fun is_named :: "string \<Rightarrow> ast \<Rightarrow> bool" where
  "is_named name (AstFunction i nm ret params body proto) \<longleftrightarrow> sv_eq_cstr nm name"
| "is_named name _ = False"

fun find_entry :: "compilation_unit list \<Rightarrow> ast option outcome" where
  "find_entry [] = Ret None"
| "find_entry (unit # units) =
     (if cu_ast unit = AstNull \<or> \<not> cu_parsed_ok unit then find_entry units
      else obind (declarations_of (cu_ast unit)) (\<lambda>ds.
        case find (is_named ''main'') ds of Some func \<Rightarrow> Ret (Some func) | None \<Rightarrow> find_entry units))"

definition compile_get_entry_point :: "compilation \<Rightarrow> (ast option \<times> compilation) outcome" where
  "compile_get_entry_point ctx =
     obind (find_entry (cc_units ctx)) (\<lambda>r.
       case r of
         Some func \<Rightarrow> Ret (Some func, ctx)
       | None \<Rightarrow> Ret (None, ctx\<lparr>cc_errors := error_fatal (cc_errors ctx) None 0 0 ''no main() function found''\<rparr>))"

section \<open>Compiling to machine code\<close>

text \<open>
  \<open>ir_gen\<close> leaves \<open>stack_count\<close> uninitialised, in memory of the data arena that may have been used
  before: \<open>stack0 k\<close> is what the field of the \<open>k\<close>-th compiled function holds.
\<close>

fun compile_functions ::
  "system \<Rightarrow> (nat \<Rightarrow> nat) \<Rightarrow> string \<Rightarrow> ast list \<Rightarrow> jit \<Rightarrow> error_context \<Rightarrow> (bool \<times> jit \<times> error_context) outcome" where
  "compile_functions sys stack0 file [] ctx errors = Ret (True, ctx, errors)"
| "compile_functions sys stack0 file (func # ds) ctx errors =
     (case func of
        AstFunction i name ret params body proto \<Rightarrow>
          if proto then compile_functions sys stack0 file ds ctx errors
          else
            obind (ir_gen (stack0 (length (jx_registry ctx))) [] func errors file) (\<lambda>(ir, errors).
            case ir of
              None \<Rightarrow> Ret (False, ctx, error_fatal errors (Some file) (node_line i) 0
                (''IR generation failed for function '' @ quoted name))
            | Some f \<Rightarrow>
                obind (jit_compile_function sys ctx f name (length params)) (\<lambda>((code, sz), ctx).
                if code = 0 then
                  Ret (False, ctx, error_fatal errors (Some file) (node_line i) 0
                    (''JIT compilation failed for function '' @ quoted name))
                else compile_functions sys stack0 file ds ctx errors))
      | AstNull \<Rightarrow> Fault NullDeref
      | _ \<Rightarrow> Fault Undefined)"

fun jit_compile_pass ::
  "system \<Rightarrow> (nat \<Rightarrow> nat) \<Rightarrow> compilation_unit list \<Rightarrow> jit \<Rightarrow> error_context \<Rightarrow> (bool \<times> jit \<times> error_context) outcome" where
  "jit_compile_pass sys stack0 [] ctx errors = Ret (True, ctx, errors)"
| "jit_compile_pass sys stack0 (unit # units) ctx errors =
     (if \<not> cu_parsed_ok unit then jit_compile_pass sys stack0 units ctx errors
      else
        obind (declarations_of (cu_ast unit)) (\<lambda>ds.
        obind (compile_functions sys stack0 (cu_name unit) ds ctx errors) (\<lambda>(ok, ctx, errors).
          if \<not> ok then Ret (False, ctx, errors) else jit_compile_pass sys stack0 units ctx errors)))"

section \<open>The program\<close>

text \<open>\<open>PROT_READ | PROT_WRITE\<close> and \<open>PROT_READ | PROT_EXEC\<close>.\<close>

definition PROT_RW :: nat where "PROT_RW = 3"
definition PROT_RX :: nat where "PROT_RX = 5"

text \<open>
  What \<open>main\<close> leaves behind: its exit code, the return code it prints if \<open>main\<close> of the program was
  run, the diagnostics, and the descriptors and mappings given back.
\<close>

record main_result =
  mr_exit :: int
  mr_printed :: "i64 option"
  mr_errors :: error_context
  mr_released :: "release list"

text \<open>The code from label \<open>cleanup\<close> on.\<close>

definition cleanup :: "int \<Rightarrow> i64 option \<Rightarrow> error_context \<Rightarrow> tracker \<Rightarrow> release list \<Rightarrow> main_result" where
  "cleanup exit_code printed errors resources released =
     \<lparr>mr_exit = exit_code, mr_printed = printed, mr_errors = errors,
      mr_released = released @ snd (resource_cleanup_all resources)\<rparr>"

text \<open>Phases 4 and 5: machine code, linking, execution.\<close>

definition run_program ::
  "system \<Rightarrow> (nat \<Rightarrow> nat) \<Rightarrow> (jit \<Rightarrow> nat \<Rightarrow> i64 outcome) \<Rightarrow> (nat \<Rightarrow> u8) \<Rightarrow> regions \<Rightarrow> compilation_unit list \<Rightarrow>
   error_context \<Rightarrow> (int \<times> i64 option \<times> error_context) outcome" where
  "run_program sys stack0 run mem mapped units errors =
     obind (jit_compile_pass sys stack0 units (jit_ctx_init (arena_init PROT_RW, mapped) mem) errors) (\<lambda>(ok, ctx, errors).
     if \<not> ok then Ret (1, None, errors)
     else
       let (ok, ctx, errors) = jit_link_all ctx errors in
       if \<not> ok then Ret (1, None, errors)
       else
         let (ok, exec) = arena_set_prot sys (snd (jx_exec ctx)) (fst (jx_exec ctx)) PROT_RX;
             ctx = ctx\<lparr>jx_exec := (exec, snd (jx_exec ctx))\<rparr> in
         if \<not> ok then Ret (1, None, errors)
         else case find (\<lambda>f. sv_eq_cstr (cf_name f) ''main'') (jx_registry ctx) of
           None \<Rightarrow> Ret (1, None, error_fatal errors None 0 0 (''No '' @ quoted ''main'' @ '' function found.''))
         | Some f \<Rightarrow> obind (run ctx (cf_addr f)) (\<lambda>result. Ret (0, Some result, errors)))"

definition tiny_main ::
  "os \<Rightarrow> system \<Rightarrow> (nat \<Rightarrow> nat) \<Rightarrow> (jit \<Rightarrow> nat \<Rightarrow> i64 outcome) \<Rightarrow> (nat \<Rightarrow> u8) \<Rightarrow> regions \<Rightarrow> string list \<Rightarrow>
   main_result outcome" where
  "tiny_main fs sys stack0 run mem mapped files =
     (let resources = resource_tracker_init (length files + 1);
          (ok, ctx) = compile_ctx_init error_context_init (length files) in
      if \<not> ok then Ret (cleanup 1 None (cc_errors ctx) resources [])
      else
        let (ok, ctx, resources, released) = add_files fs ctx files resources in
        if \<not> ok then Ret (cleanup 1 None (cc_errors ctx) resources released)
        else
          obind (compile_parse_all ctx) (\<lambda>(ok, ctx).
          if \<not> ok then Ret (cleanup 1 None (cc_errors ctx) resources released)
          else
            obind (compile_analyze_all ctx) (\<lambda>(ok, ctx).
            if \<not> ok then Ret (cleanup 1 None (cc_errors ctx) resources released)
            else
              obind (run_program sys stack0 run mem mapped (cc_units ctx) (cc_errors ctx)) (\<lambda>(exit_code, printed, errors).
                Ret (cleanup exit_code printed errors resources released)))))"

section \<open>Printing\<close>

text \<open>\<open>print_phase\<close> of \<open>srcs/utils.c\<close>: the heading of a phase, filled up with dots to 42 columns.\<close>

definition BOLD :: string where "BOLD = CHR 0x1B # ''[1m''"
definition DIM :: string where "DIM = CHR 0x1B # ''[2m''"
definition GREEN :: string where "GREEN = CHR 0x1B # ''[0;32m''"
definition RED :: string where "RED = CHR 0x1B # ''[0;31m''"

definition print_phase :: "int \<Rightarrow> string \<Rightarrow> string" where
  "print_phase step name =
     (let digits = fmt_int step;
          two = (if length digits < 2 then CHR ''0'' # digits else digits);
          dots = 42 - (length name + 4) in
      (if step < 0 then newline @ BOLD_RED @ ''[KO] '' @ name @ RESET
       else newline @ BOLD_GREEN @ ''['' @ two @ ''] '' @ name @ RESET) @
      (if step < 0 then DIM @ RED else DIM @ GREEN) @
      replicate dots (CHR ''.'') @ RESET @ newline)"


fun binary_symbol :: "binary_type \<Rightarrow> string option" where
  "binary_symbol AST_ADD = Some ''+''"
| "binary_symbol AST_SUB = Some ''-''"
| "binary_symbol AST_MUL = Some ''*''"
| "binary_symbol AST_DIV = Some ''/''"
| "binary_symbol _ = None"

definition indentation :: "nat \<Rightarrow> string" where
  "indentation n = concat (replicate n ''  '')"

text \<open>\<open>print_ast\<close> of \<open>srcs/utils.c\<close>, as the text it prints.\<close>

fun print_ast :: "ast \<Rightarrow> nat \<Rightarrow> string" where
  "print_ast AstNull n = []"
| "print_ast (AstFunction i name ret params body proto) n =
     indentation n @ ''Function: '' @ name @ newline @ print_ast body (n + 1)"
| "print_ast (AstBlock i ss) n = indentation n @ ''Block'' @ newline @ concat (map (\<lambda>s. print_ast s (n + 1)) ss)"
| "print_ast (AstVarDecl i name t e) n =
     indentation n @ ''VarDecl: '' @ name @ newline @ (if e \<noteq> AstNull then print_ast e (n + 2) else [])"
| "print_ast (AstAssignment i name e) n = indentation n @ ''Assign: '' @ name @ newline @ print_ast e (n + 1)"
| "print_ast (AstReturn i e) n = indentation n @ ''Return'' @ newline @ print_ast e (n + 1)"
| "print_ast (AstIdentifier i name) n = indentation n @ ''ID: '' @ name @ newline"
| "print_ast (AstNumber i v) n = indentation n @ ''Int: '' @ v @ newline"
| "print_ast (AstBinary op i l r) n =
     indentation n @
     (case binary_symbol op of
        Some s \<Rightarrow> ''Op: '' @ s @ newline @ print_ast l (n + 1) @ print_ast r (n + 1)
      | None \<Rightarrow> ''Unknown node'' @ newline)"
| "print_ast (AstCall i name args) n =
     indentation n @ ''Call: '' @ name @ ''('' @
     concat (map (\<lambda>k. (if k > 0 then '', '' else []) @ ''arg'' @ fmt_nat k) [0..<length args]) @ '')'' @ newline @
     concat (map (\<lambda>a. print_ast a (n + 1)) args)"
| "print_ast _ n = indentation n @ ''Unknown node'' @ newline"

end
