(* ===== verification/JitSpec.thy ===== *)
theory JitSpec
  imports Jit
begin

text \<open>
  What the code generator is to produce. Instruction selection is a function from an
  instruction and the state of the register allocator to symbolic assembly, a list of \<open>item\<close>s in which
  jumps name their label. \<open>assemble\<close> turns symbolic assembly into instructions once the address of
  every label is known. The encoders of \<open>Jit\<close> measure and write exactly this (\<open>JitFacts\<close>).
\<close>

section \<open>The allocator by itself\<close>

record alloc =
  al_map :: "nat \<Rightarrow> location"
  al_phys :: "nat \<Rightarrow> bool"
  al_base :: nat
  al_pending :: "nat list"

definition alloc_of :: "jit \<Rightarrow> alloc" where
  "alloc_of ctx = \<lparr>al_map = jx_vreg_map ctx, al_phys = jx_phys ctx, al_base = jx_stack_base ctx, al_pending = jx_pending ctx\<rparr>"

definition set_alloc :: "alloc \<Rightarrow> jit \<Rightarrow> jit" where
  "set_alloc a ctx = ctx\<lparr>jx_vreg_map := al_map a, jx_phys := al_phys a, jx_stack_base := al_base a, jx_pending := al_pending a\<rparr>"

text \<open>The first free register of \<open>rbx\<close>, \<open>r12\<close>, \dots, \<open>r15\<close>, then the vreg's own stack slot.\<close>

definition saved_registers :: "(nat \<times> x86_reg) list" where
  "saved_registers = [(3, REG_RBX), (12, REG_R12), (13, REG_R13), (14, REG_R14), (15, REG_R15)]"

definition al_fresh :: "alloc \<Rightarrow> nat \<Rightarrow> location" where
  "al_fresh a v = (case find (\<lambda>(i, r). \<not> al_phys a i) saved_registers of
     Some (i, r) \<Rightarrow> LOC_REG r | None \<Rightarrow> LOC_STACK (spill_offset (al_base a + v)))"

definition al_assign :: "alloc \<Rightarrow> nat \<Rightarrow> alloc" where
  "al_assign a v =
     (let a' = a\<lparr>al_map := (al_map a)(v := al_fresh a v)\<rparr> in
      case find (\<lambda>(i, r). \<not> al_phys a i) saved_registers of
        Some (i, r) \<Rightarrow> a'\<lparr>al_phys := (al_phys a)(i := True)\<rparr> | None \<Rightarrow> a')"

definition al_location :: "alloc \<Rightarrow> nat \<Rightarrow> (location \<times> alloc) outcome" where
  "al_location a v =
     (if v \<ge> MAX_VREGS_PER_FUNCTION then Fault OutOfBounds
      else if al_map a v \<noteq> LOC_NONE then Ret (al_map a v, a) else Ret (al_fresh a v, al_assign a v))"

fun al_locations :: "alloc \<Rightarrow> nat list \<Rightarrow> (location list \<times> alloc) outcome" where
  "al_locations a [] = Ret ([], a)"
| "al_locations a (v # vs) =
     obind (al_location a v) (\<lambda>(l, a). obind (al_locations a vs) (\<lambda>(ls, a). Ret (l # ls, a)))"

section \<open>Symbolic assembly\<close>

text \<open>
  \<open>CallTo\<close> is the \<open>mov rax, imm64\<close> whose immediate the linker fills in, and \<open>Mark\<close> places a label.
\<close>

datatype item = Op x86 | Jump "x86_condition option" nat | CallTo string | Mark nat

fun item_size :: "item \<Rightarrow> nat" where
  "item_size (Op i) = length (asm i)"
| "item_size (Jump None l) = 5"
| "item_size (Jump (Some c) l) = 6"
| "item_size (CallTo f) = 10"
| "item_size (Mark l) = 0"

definition items_size :: "item list \<Rightarrow> nat" where
  "items_size is = sum_list (map item_size is)"

lemma items_size_simps [simp]: "items_size [] = 0" "items_size (i # is) = item_size i + items_size is"
  "items_size (is @ js) = items_size is + items_size js"
  by (simp_all add: items_size_def)

text \<open>The label addresses of symbolic assembly placed at \<open>pc\<close>, and its instructions.\<close>

fun label_addresses :: "nat \<Rightarrow> item list \<Rightarrow> nat \<rightharpoonup> nat" where
  "label_addresses pc [] = Map.empty"
| "label_addresses pc (i # is) =
     (case i of Mark l \<Rightarrow> (label_addresses pc is)(l \<mapsto> pc) | _ \<Rightarrow> label_addresses (pc + item_size i) is)"

definition displacement :: "(nat \<rightharpoonup> nat) \<Rightarrow> nat \<Rightarrow> nat \<Rightarrow> u32" where
  "displacement lab l pc = (case lab l of None \<Rightarrow> 0 | Some a \<Rightarrow> of_int (int a - int pc))"

definition placeholder :: u64 where
  "placeholder = 0xDEADBEEFDEADBEEF"

text \<open>\<open>lab\<close> gives the addresses of labels and \<open>calls\<close> the immediates of calls.\<close>

fun item_code :: "(nat \<rightharpoonup> nat) \<Rightarrow> (string \<Rightarrow> u64) \<Rightarrow> nat \<Rightarrow> item \<Rightarrow> x86 list" where
  "item_code lab calls pc (Op i) = [i]"
| "item_code lab calls pc (Jump None l) = [Jmp32 (displacement lab l (pc + 5))]"
| "item_code lab calls pc (Jump (Some c) l) = [Jcc32 c (displacement lab l (pc + 6))]"
| "item_code lab calls pc (CallTo f) = [MovImm REG_RAX (calls f)]"
| "item_code lab calls pc (Mark l) = []"

fun assemble :: "(nat \<rightharpoonup> nat) \<Rightarrow> (string \<Rightarrow> u64) \<Rightarrow> nat \<Rightarrow> item list \<Rightarrow> x86 list" where
  "assemble lab calls pc [] = []"
| "assemble lab calls pc (i # is) = item_code lab calls pc i @ assemble lab calls (pc + item_size i) is"

definition code :: "x86 list \<Rightarrow> u8 list" where
  "code is = concat (map asm is)"

lemma code_simps [simp]: "code [] = []" "code (i # is) = asm i @ code is" "code (is @ js) = code is @ code js"
  by (simp_all add: code_def)

section \<open>Instruction selection\<close>

definition load_sel :: "x86_reg \<Rightarrow> location \<Rightarrow> x86 list" where
  "load_sel dst loc =
     (case loc of
        LOC_REG r \<Rightarrow> if r \<noteq> dst then [MovRR dst r] else []
      | LOC_STACK x \<Rightarrow> [Load64 dst REG_RBP x]
      | LOC_CONST i \<Rightarrow> [MovImm dst i]
      | LOC_NONE \<Rightarrow> [])"

definition store_sel :: "location \<Rightarrow> x86_reg \<Rightarrow> x86 list" where
  "store_sel loc src =
     (case loc of
        LOC_REG r \<Rightarrow> if r \<noteq> src then [MovRR r src] else []
      | LOC_STACK x \<Rightarrow> [Store64 REG_RBP x src]
      | _ \<Rightarrow> [])"

text \<open>The register that holds an operand, and the code that brings it there if it must.\<close>

definition operand_reg :: "x86_reg \<Rightarrow> location \<Rightarrow> x86_reg" where
  "operand_reg tmp loc = (case loc of LOC_REG r \<Rightarrow> r | _ \<Rightarrow> tmp)"

definition operand_sel :: "x86_reg \<Rightarrow> location \<Rightarrow> x86 list" where
  "operand_sel tmp loc = (case loc of LOC_REG r \<Rightarrow> [] | _ \<Rightarrow> load_sel tmp loc)"

fun is_reg :: "location \<Rightarrow> bool" where
  "is_reg (LOC_REG _) = True"
| "is_reg _ = False"

definition binary_sel :: "x86_reg \<Rightarrow> (x86_reg \<Rightarrow> x86 list) \<Rightarrow> location \<Rightarrow> location \<Rightarrow> x86 list" where
  "binary_sel tmp op a b = load_sel REG_RAX a @ operand_sel tmp b @ op (operand_reg tmp b)"

text \<open>Code that leaves the result of a binary operation in \<open>rax\<close>.\<close>

fun select_binary :: "opcode \<Rightarrow> location \<Rightarrow> location \<Rightarrow> x86 list" where
  "select_binary IR_ADD a b = binary_sel REG_RDX (\<lambda>r. [AluRR A_Add REG_RAX r]) a b"
| "select_binary IR_SUB a b = binary_sel REG_RDX (\<lambda>r. [AluRR A_Sub REG_RAX r]) a b"
| "select_binary IR_BAND a b = binary_sel REG_RDX (\<lambda>r. [AluRR A_And REG_RAX r]) a b"
| "select_binary IR_BOR a b = binary_sel REG_RDX (\<lambda>r. [AluRR A_Or REG_RAX r]) a b"
| "select_binary IR_BXOR a b = binary_sel REG_RDX (\<lambda>r. [AluRR A_Xor REG_RAX r]) a b"
| "select_binary IR_MUL a b = binary_sel REG_RCX (\<lambda>r. [ImulRR REG_RAX r]) a b"
| "select_binary IR_DIV a b = load_sel REG_RAX a @ [Cqo] @ operand_sel REG_RCX b @ [Grp3 G_Idiv (operand_reg REG_RCX b)]"
| "select_binary IR_LSHIFT a b = load_sel REG_RAX a @ load_sel REG_RCX b @ [ShiftCL S_Shl REG_RAX]"
| "select_binary IR_RSHIFT a b = load_sel REG_RAX a @ load_sel REG_RCX b @ [ShiftCL S_Sar REG_RAX]"
| "select_binary IR_URSHIFT a b = load_sel REG_RAX a @ load_sel REG_RCX b @ [ShiftCL S_Shr REG_RAX]"
| "select_binary op a b =
     binary_sel REG_RCX (\<lambda>r. [AluRR A_Cmp REG_RAX r, SetCC (condition_of op) REG_RAX, MovzxB REG_RAX REG_RAX]) a b"

fun select_unary :: "opcode \<Rightarrow> x86 list" where
  "select_unary IR_NEG = [Grp3 G_Neg REG_RAX]"
| "select_unary IR_BNOT = [Grp3 G_Not REG_RAX]"
| "select_unary IR_NOT = [AluImm8 A_Cmp REG_RAX 0, SetCC CC_E REG_RAX, MovzxB REG_RAX REG_RAX]"
| "select_unary _ = []"

definition push_stack_sel :: "location \<Rightarrow> x86 list" where
  "push_stack_sel loc = load_sel REG_RAX loc @ [Push REG_RAX]"

definition push_reg_sel :: "location \<Rightarrow> x86 list" where
  "push_reg_sel loc = (case loc of LOC_REG r \<Rightarrow> [Push r] | _ \<Rightarrow> push_stack_sel loc)"

text \<open>Bytes the caller moves \<open>rsp\<close> by before the pushes, and after the call.\<close>

definition call_pad :: "nat \<Rightarrow> nat" where
  "call_pad n = (if n mod 2 = 0 then 0 else 8)"

definition call_sel :: "string \<Rightarrow> nat \<Rightarrow> location list \<Rightarrow> location list \<Rightarrow> location \<Rightarrow> item list" where
  "call_sel f nargs on_stack in_regs dest =
     (let n = nargs - 6; pad = call_pad n in
      map Op ((if pad \<noteq> 0 then [AluImm32 A_Sub REG_RSP (of_nat pad)] else []) @
              concat (map push_stack_sel on_stack) @ concat (map push_reg_sel in_regs) @
              map Pop (take nargs (take 6 arg_registers))) @
      [CallTo f] @
      map Op ([CallR REG_RAX] @
              (if n > 0 then [AluImm32 A_Add REG_RSP (of_nat (8 * n + pad))] else []) @
              store_sel dest REG_RAX))"

definition epilogue :: "x86 list" where
  "epilogue = [Lea8 REG_RSP REG_RBP (- 40), Pop REG_R15, Pop REG_R14, Pop REG_R13, Pop REG_R12, Pop REG_RBX,
               Pop REG_RBP, RetN]"

text \<open>Which opcodes have two operands and a result.\<close>

definition is_binary :: "opcode \<Rightarrow> bool" where
  "is_binary op \<longleftrightarrow> op \<in> {IR_ADD, IR_SUB, IR_MUL, IR_DIV, IR_EQ, IR_NEQ, IR_LT, IR_LE, IR_GT, IR_GE,
     IR_LSHIFT, IR_RSHIFT, IR_URSHIFT, IR_BAND, IR_BOR, IR_BXOR}"

definition select :: "instr \<Rightarrow> alloc \<Rightarrow> (item list \<times> alloc) outcome" where
  "select i a =
     (if is_binary (in_op i) then
        obind (al_locations a [in_dest i, in_src1 i, in_src2 i]) (\<lambda>(ls, a).
          Ret (map Op (select_binary (in_op i) (ls ! 1) (ls ! 2) @ store_sel (ls ! 0) REG_RAX), a))
      else if in_op i \<in> {IR_NEG, IR_NOT, IR_BNOT} then
        obind (al_locations a [in_dest i, in_src1 i]) (\<lambda>(ls, a).
          Ret (map Op (load_sel REG_RAX (ls ! 1) @ select_unary (in_op i) @ store_sel (ls ! 0) REG_RAX), a))
      else if in_op i = IR_MOV then
        obind (al_locations a [in_dest i, in_src1 i]) (\<lambda>(ls, a).
          Ret (if ls ! 0 = ls ! 1 \<and> is_reg (ls ! 0) then []
               else map Op (load_sel REG_RAX (ls ! 1) @ store_sel (ls ! 0) REG_RAX), a))
      else if in_op i = IR_CONST then
        obind (al_location a (in_dest i)) (\<lambda>(d, a).
          Ret (map Op (MovImm REG_RAX (of_int (in_imm i)) # store_sel d REG_RAX), a))
      else if in_op i = IR_LOAD then
        obind (al_location a (in_dest i)) (\<lambda>(d, a).
          Ret (map Op (load_sized (operand_reg REG_RAX d) (get_local_offset (in_src1 i)) (type_size (in_type i)) #
                       (if is_reg d then [] else store_sel d REG_RAX)), a))
      else if in_op i = IR_STORE then
        obind (al_location a (in_src1 i)) (\<lambda>(s, a).
          Ret (map Op (operand_sel REG_RAX s @
                       [store_sized (get_local_offset (in_dest i)) (operand_reg REG_RAX s) (type_size (in_type i))]), a))
      else if in_op i = IR_ARG then
        (if length (al_pending a) \<ge> MAX_PARAMS_PER_FUNCTION then Fault OutOfBounds
         else Ret ([], a\<lparr>al_pending := al_pending a @ [in_src1 i]\<rparr>))
      else if in_op i = IR_LABEL then
        Ret (if in_label i < MAX_LABELS then [Mark (in_label i)] else [], a)
      else if in_op i = IR_JMP then Ret ([Jump None (in_label i)], a)
      else if in_op i = IR_CALL then
        obind (al_location a (in_dest i)) (\<lambda>(d, a).
        obind (al_locations a (rev (drop 6 (al_pending a)))) (\<lambda>(ss, a).
        obind (al_locations a (rev (take 6 (al_pending a)))) (\<lambda>(rs, a).
          Ret (call_sel (in_func i) (length (al_pending a)) ss rs d, a\<lparr>al_pending := []\<rparr>))))
      else if in_op i = IR_RET then
        obind (al_location a (in_src1 i)) (\<lambda>(s, a). Ret (map Op (load_sel REG_RAX s @ epilogue), a))
      else
        obind (al_location a (in_src1 i)) (\<lambda>(s, a).
          Ret (map Op (operand_sel REG_RAX s @
                       [if is_reg s then TestRR (operand_reg REG_RAX s) (operand_reg REG_RAX s)
                        else AluImm8 A_Cmp REG_RAX 0]) @
               [Jump (Some (if in_op i = IR_JZ then CC_E else CC_NE)) (in_label i)], a)))"

fun select_all :: "instr list \<Rightarrow> alloc \<Rightarrow> (item list \<times> alloc) outcome" where
  "select_all [] a = Ret ([], a)"
| "select_all (i # is) a =
     obind (select i a) (\<lambda>(xs, a). obind (select_all is a) (\<lambda>(ys, a). Ret (xs @ ys, a)))"

text \<open>The prologue: frame, saved registers, locals, parameters.\<close>

definition param_sel :: "nat \<Rightarrow> location \<Rightarrow> x86 list" where
  "param_sel i loc =
     (if i < 6 then store_sel loc (arg_registers ! i)
      else (let x = of_nat (2 * WORD_SIZE + (i - 6) * WORD_SIZE) in
            case loc of LOC_REG r \<Rightarrow> [Load64 r REG_RBP x] | _ \<Rightarrow> Load64 REG_RAX REG_RBP x # store_sel loc REG_RAX))"

fun select_params :: "nat \<Rightarrow> nat \<Rightarrow> alloc \<Rightarrow> (x86 list \<times> alloc) outcome" where
  "select_params 0 i a = Ret ([], a)"
| "select_params (Suc n) i a =
     obind (al_location a (i + 1)) (\<lambda>(loc, a).
     obind (select_params n (i + 1) a) (\<lambda>(xs, a). Ret (param_sel i loc @ xs, a)))"

definition frame_sel :: "nat \<Rightarrow> x86 list" where
  "frame_sel stack_size =
     [Push REG_RBP, MovRR REG_RBP REG_RSP, Push REG_RBX, Push REG_R12, Push REG_R13, Push REG_R14, Push REG_R15] @
     (if stack_size > 0 then [AluImm32 A_Sub REG_RSP (of_nat stack_size)] else [])"

definition initial_alloc :: "nat \<Rightarrow> alloc" where
  "initial_alloc base = \<lparr>al_map = (\<lambda>_. LOC_NONE), al_phys = (\<lambda>_. False), al_base = base, al_pending = []\<rparr>"

text \<open>The symbolic assembly of a function.\<close>

definition select_function :: "ir_function \<Rightarrow> nat \<Rightarrow> (item list \<times> alloc) outcome" where
  "select_function f param_count =
     obind (select_params param_count 0 (initial_alloc (if_stack_count f))) (\<lambda>(ps, a).
     obind (select_all (ir_code f) a) (\<lambda>(items, a).
       Ret (map Op (frame_sel (calculate_aligned_stack_size f) @ ps) @ items, a)))"

end
