(* ===== verification/JitFacts.thy ===== *)
theory JitFacts
  imports JitSpec
begin

text \<open>
  The encoders refine instruction selection: with a NULL buffer they measure the selected code, and
  with a buffer they write it, record call sites, and resolve or postpone jumps. Both passes over a
  function therefore agree.
\<close>

section \<open>Register allocation\<close>

lemma alloc_of_set [simp]: "alloc_of (set_alloc a ctx) = a" "set_alloc (alloc_of ctx) ctx = ctx"
  "set_alloc a (set_alloc b ctx) = set_alloc a ctx"
  by (simp_all add: alloc_of_def set_alloc_def)

lemma set_alloc_fields [simp]:
  "jx_mem (set_alloc a ctx) = jx_mem ctx" "jx_sites (set_alloc a ctx) = jx_sites ctx"
  "jx_patches (set_alloc a ctx) = jx_patches ctx" "jx_label_offset (set_alloc a ctx) = jx_label_offset ctx"
  "jx_label_defined (set_alloc a ctx) = jx_label_defined ctx" "jx_registry (set_alloc a ctx) = jx_registry ctx"
  "jx_exec (set_alloc a ctx) = jx_exec ctx" "jx_pending (set_alloc a ctx) = al_pending a"
  by (simp_all add: set_alloc_def)

definition lift :: "jit \<Rightarrow> ('a \<times> alloc) outcome \<Rightarrow> ('a \<times> jit) outcome" where
  "lift ctx m = obind m (\<lambda>(x, a). Ret (x, set_alloc a ctx))"

lemma upt16: "[0..<16] = [0, 1, 2, 3, 4, 5, 6, 7, 8, 9, 10, 11, 12, 13, 14, 15 :: nat]"
  by (simp add: upt_rec)

lemma get_location_lift: "get_location ctx v = lift ctx (al_location (alloc_of ctx) v)"
proof -
  have r: "reg_of 3 = Some REG_RBX" "reg_of 12 = Some REG_R12" "reg_of 13 = Some REG_R13" "reg_of 14 = Some REG_R14"
      "reg_of 15 = Some REG_R15"
    by (simp_all add: reg_of_def all_regs_def)
  show ?thesis
    by (simp add: get_location_def lift_def al_location_def alloc_of_def set_alloc_def upt16 is_allocatable_register_def
        al_fresh_def al_assign_def saved_registers_def Let_def r)
qed

lemma lift_bind: "obind (lift ctx m) (\<lambda>(x, c). k x c) = obind m (\<lambda>(x, a). k x (set_alloc a ctx))"
  by (cases m) (auto simp: lift_def)

lemma get_bind: "obind (get_location ctx v) (\<lambda>(l, c). k l c) =
    obind (al_location (alloc_of ctx) v) (\<lambda>(l, a). k l (set_alloc a ctx))"
  by (simp add: get_location_lift lift_bind)

lemma bind_pair: "obind (obind m (\<lambda>(x, a). f x a)) (\<lambda>(y, b). k y b) = obind m (\<lambda>(x, a). obind (f x a) (\<lambda>(y, b). k y b))"
  by (cases m) auto

section \<open>Emitting code\<close>

definition write_to :: "nat \<Rightarrow> u8 list \<Rightarrow> (nat \<Rightarrow> u8) \<Rightarrow> nat \<Rightarrow> u8" where
  "write_to buf bs mem = (if buf = 0 then mem else write_bytes buf bs mem)"

lemma finish_list:
  "em_finish (emit_list bs (em_start buf ctx)) c = Ret (length bs, c\<lparr>jx_mem := write_to buf bs (jx_mem ctx)\<rparr>)"
  by (cases "buf = 0") (simp_all add: em_finish_def em_start_def emit_list_NULL emit_list_write write_to_def)

lemma emit_code_singles:
  "emit_list (asm i) em = emit_list (code [i]) em"
  by simp

lemma alu_opcodes [simp]:
  "opcode_byte (alu_opcode a) = opcode_byte (alu_opcode a)"
  "emit_alu ALU_ADD d s em = emit_list (asm (AluRR A_Add d s)) em"
  "emit_alu ALU_SUB d s em = emit_list (asm (AluRR A_Sub d s)) em"
  "emit_alu ALU_AND d s em = emit_list (asm (AluRR A_And d s)) em"
  "emit_alu ALU_OR d s em = emit_list (asm (AluRR A_Or d s)) em"
  "emit_alu ALU_XOR d s em = emit_list (asm (AluRR A_Xor d s)) em"
  using emit_simps(4) [of A_Add] emit_simps(4) [of A_Sub] emit_simps(4) [of A_And] emit_simps(4) [of A_Or]
    emit_simps(4) [of A_Xor] by simp_all

lemma load_emits [emits]: "load_location_to_reg d l em = emit_list (code (load_sel d l)) em"
  by (cases l) (simp_all add: load_location_to_reg_def load_sel_def emits del: asm.simps)

lemma store_emits [emits]: "store_reg_to_location l s em = emit_list (code (store_sel l s)) em"
  by (cases l) (simp_all add: store_reg_to_location_def store_sel_def emits del: asm.simps)

lemma operand_emits [emits]:
  "load_binary_operands d t a b em = (operand_reg t b, emit_list (code (load_sel d a @ operand_sel t b)) em)"
  by (cases b) (simp_all add: load_binary_operands_def operand_reg_def operand_sel_def emits Let_def del: asm.simps)

lemma raw_emits:
  "emit_u8 (modrm MOD_REG (ext_code EXT_SHL) (reg_code REG_RAX)) (emit_u8 (opcode_byte OP_SHIFT_CL) (emit_u8 REX_W em)) =
     emit_list (asm (ShiftCL S_Shl REG_RAX)) em"
  "emit_u8 (modrm MOD_REG (ext_code EXT_SHR) (reg_code REG_RAX)) (emit_u8 (opcode_byte OP_SHIFT_CL) (emit_u8 REX_W em)) =
     emit_list (asm (ShiftCL S_Shr REG_RAX)) em"
  "emit_u8 (modrm MOD_REG (ext_code EXT_SAR) (reg_code REG_RAX)) (emit_u8 (opcode_byte OP_SHIFT_CL) (emit_u8 REX_W em)) =
     emit_list (asm (ShiftCL S_Sar REG_RAX)) em"
  "emit_u8 (opcode_byte OP_CQO) (emit_u8 REX_W em) = emit_list (asm Cqo) em"
  "emit_u8 (modrm MOD_REG (ext_code EXT_IDIV) (low3 r))
     (emit_u8 (opcode_byte OP_IDIV) (emit_u8 (if reg_code r \<ge> 8 then REX_W OR 1 else REX_W) em)) =
     emit_list (asm (Grp3 G_Idiv r)) em"
  "emit_u8 (modrm MOD_REG (ext_code EXT_NEG) (reg_code REG_RAX)) (emit_u8 (opcode_byte OP_IDIV) (emit_u8 REX_W em)) =
     emit_list (asm (Grp3 G_Neg REG_RAX)) em"
  "emit_u8 (modrm MOD_REG (ext_code EXT_NOT) (reg_code REG_RAX)) (emit_u8 (opcode_byte OP_GRP3) (emit_u8 REX_W em)) =
     emit_list (asm (Grp3 G_Not REG_RAX)) em"
  "emit_u8 0 (emit_u8 (modrm MOD_REG (ext_code EXT_CMP) (reg_code REG_RAX)) (emit_u8 (opcode_byte ALU_IMM8) (emit_u8 REX_W em))) =
     emit_list (asm (AluImm8 A_Cmp REG_RAX 0)) em"
  "emit_u8 (- of_nat CALLEE_SAVED_SIZE) (emit_u8 (modrm MOD_MEM_DISP8 (reg_code REG_RSP) (reg_code REG_RBP))
     (emit_u8 (opcode_byte OP_LEA) (emit_u8 REX_W em))) = emit_list (asm (Lea8 REG_RSP REG_RBP (- 40))) em"
  "emit_u8 (opcode_byte OP_RET) em = emit_list (asm RetN) em"
  "emit_u64 0xDEADBEEFDEADBEEF (emit_u8 (opcode_byte MOV_IMM_R + reg_code REG_RAX) (emit_u8 REX_W em)) =
     emit_list (asm (MovImm REG_RAX placeholder)) em"
  "emit_u8 (modrm MOD_REG (ext_code EXT_CALL) (reg_code REG_RAX)) (emit_u8 (opcode_byte OP_CALL_IND) em) =
     emit_list (asm (CallR REG_RAX)) em"
  "emit_rsp EXT_SUB n em = emit_list (asm (AluImm32 A_Sub REG_RSP (of_nat n))) em"
  "emit_rsp EXT_ADD n em = emit_list (asm (AluImm32 A_Add REG_RSP (of_nat n))) em"
  by (simp_all add: get_rex_def low3_def rex_prefix_def emit_rsp_def Let_def emit_u32_list emit_u64_list placeholder_def
      CALLEE_SAVED_SIZE_def WORD_SIZE_def CALLEE_SAVED_COUNT_def)

lemma divisor_emits [emits]:
  "(case b of LOC_REG r \<Rightarrow> (r, em) | _ \<Rightarrow> (REG_RCX, load_location_to_reg REG_RCX b em)) =
     (operand_reg REG_RCX b, emit_list (code (operand_sel REG_RCX b)) em)"
  by (cases b) (simp_all add: operand_reg_def operand_sel_def emits del: asm.simps)

end
