(* ===== verification/JitRefine.thy ===== *)
theory JitRefine
  imports JitFacts
begin

text \<open>
  Every encoder carries out instruction selection: with a NULL buffer it measures the selected items,
  else it places them one after the other. \<open>place\<close> says what placing an item does to the
  context.
\<close>

section \<open>Placing items\<close>

definition jump_opcode :: "x86_condition option \<Rightarrow> u8" where
  "jump_opcode c = (case c of None \<Rightarrow> opcode_byte OP_JMP_REL32 | Some c \<Rightarrow> 0x80 OR cc_code c)"

definition place_label :: "nat \<Rightarrow> nat \<Rightarrow> jit \<Rightarrow> jit" where
  "place_label buf l ctx =
     (let (patches, mem) = apply_patches l buf (jx_patches ctx) (jx_mem ctx) in
      ctx\<lparr>jx_label_defined := (jx_label_defined ctx)(l := True), jx_label_offset := (jx_label_offset ctx)(l := buf),
          jx_patches := patches, jx_mem := mem\<rparr>)"

definition place_bytes :: "nat \<Rightarrow> u8 list \<Rightarrow> jit \<Rightarrow> jit" where
  "place_bytes buf bs ctx = ctx\<lparr>jx_mem := write_bytes buf bs (jx_mem ctx)\<rparr>"

definition place_site :: "nat \<Rightarrow> string \<Rightarrow> jit \<Rightarrow> jit" where
  "place_site loc f ctx =
     (if length (jx_sites ctx) < MAX_CALL_SITES
      then ctx\<lparr>jx_sites := jx_sites ctx @ [\<lparr>cs_location = loc, cs_target = f\<rparr>]\<rparr> else ctx)"

fun place_item :: "nat \<Rightarrow> item \<Rightarrow> jit \<Rightarrow> jit" where
  "place_item buf (Op i) ctx = place_bytes buf (asm i) ctx"
| "place_item buf (Jump c l) ctx = snd (emit_jump buf l ctx (jump_opcode c))"
| "place_item buf (CallTo f) ctx = place_site (buf + 2) f (place_bytes buf (asm (MovImm REG_RAX placeholder)) ctx)"
| "place_item buf (Mark l) ctx = place_label buf l ctx"

fun place :: "nat \<Rightarrow> item list \<Rightarrow> jit \<Rightarrow> jit" where
  "place buf [] ctx = ctx"
| "place buf (i # is) ctx = place (buf + item_size i) is (place_item buf i ctx)"

definition put :: "nat \<Rightarrow> item list \<Rightarrow> jit \<Rightarrow> jit" where
  "put buf is ctx = (if buf = 0 then ctx else place buf is ctx)"

lemma place_append: "place buf (is @ js) ctx = place (buf + items_size is) js (place buf is ctx)"
  by (induction "is" arbitrary: buf ctx) (simp_all add: add.assoc)

lemma put_Nil [simp]: "put buf [] ctx = ctx"
  by (simp add: put_def)

lemma put_append: "put buf (is @ js) ctx = put (if buf = 0 then 0 else buf + items_size is) js (put buf is ctx)"
  by (simp add: put_def place_append)

lemma items_size_ops [simp]: "items_size (map Op xs) = length (code xs)"
  by (induction xs) simp_all

lemma place_bytes_append: "place_bytes (a + length bs) cs (place_bytes a bs ctx) = place_bytes a (bs @ cs) ctx"
  by (simp add: place_bytes_def write_bytes_append)

lemma place_ops: "place buf (map Op xs) ctx = place_bytes buf (code xs) ctx"
  by (induction xs arbitrary: buf ctx) (simp_all add: place_bytes_append, simp add: place_bytes_def)

lemma put_ops: "put buf (map Op xs) ctx = ctx\<lparr>jx_mem := write_to buf (code xs) (jx_mem ctx)\<rparr>"
  by (simp add: put_def place_ops write_to_def place_bytes_def)

lemma put_bytes: "ctx\<lparr>jx_mem := write_to buf bs (jx_mem ctx)\<rparr> = (if buf = 0 then ctx else place_bytes buf bs ctx)"
  by (simp add: write_to_def place_bytes_def)

lemma length_asm_jump [simp]: "length (asm (MovImm d w)) = 10"
  by simp

section \<open>Encoders of register operations\<close>

text \<open>What an encoder does when selection yields the instructions \<open>xs\<close> and the allocator \<open>a\<close>.\<close>

definition placed :: "nat \<Rightarrow> jit \<Rightarrow> (item list \<times> alloc) \<Rightarrow> (nat \<times> jit) outcome" where
  "placed buf ctx = (\<lambda>(is, a). Ret (items_size is, put buf is (set_alloc a ctx)))"

lemma placed_simp [simp]: "placed buf ctx (is, a) = Ret (items_size is, put buf is (set_alloc a ctx))"
  by (simp add: placed_def)

lemma placed_set_alloc [simp]: "placed buf (set_alloc a ctx) = placed buf ctx"
  by (simp add: placed_def)

lemma finish_ops:
  "em_finish (emit_list (code xs) (em_start buf (set_alloc a ctx))) (set_alloc a ctx) = placed buf ctx (map Op xs, a)"
  by (simp add: finish_list put_ops)

lemma al_one: "al_locations a [v] = obind (al_location a v) (\<lambda>(l, a). Ret ([l], a))"
  by simp

lemma binary_refines:
  assumes "\<And>d a b c. k d a b c = em_finish (emit_list (code (X d a b)) (em_start buf c)) c"
  shows "binary_locations i ctx k =
    obind (al_locations (alloc_of ctx) [in_dest i, in_src1 i, in_src2 i])
      (\<lambda>(ls, a). placed buf ctx (map Op (X (ls ! 0) (ls ! 1) (ls ! 2)), a))"
  by (simp add: binary_locations_def assms get_bind finish_ops bind_pair del: placed_simp)

lemma unary_refines:
  assumes "\<And>d a c. k d a c = em_finish (emit_list (code (X d a)) (em_start buf c)) c"
  shows "unary_locations i ctx k =
    obind (al_locations (alloc_of ctx) [in_dest i, in_src1 i])
      (\<lambda>(ls, a). placed buf ctx (map Op (X (ls ! 0) (ls ! 1)), a))"
  by (simp add: unary_locations_def assms get_bind finish_ops bind_pair del: placed_simp)

lemma single_refines:
  assumes "\<And>l c. k l c = em_finish (emit_list (code (X l)) (em_start buf c)) c"
  shows "obind (get_location ctx v) (\<lambda>(l, c). k l c) =
    obind (al_location (alloc_of ctx) v) (\<lambda>(l, a). placed buf ctx (map Op (X l), a))"
  by (simp add: assms get_bind finish_ops del: placed_simp)

text \<open>What selection yields for the operands, once their locations are known.\<close>

definition binary_items :: "opcode \<Rightarrow> location list \<Rightarrow> item list" where
  "binary_items op ls = map Op (select_binary op (ls ! 1) (ls ! 2) @ store_sel (ls ! 0) REG_RAX)"

definition unary_items :: "opcode \<Rightarrow> location list \<Rightarrow> item list" where
  "unary_items op ls = map Op (load_sel REG_RAX (ls ! 1) @ select_unary op @ store_sel (ls ! 0) REG_RAX)"

definition refines_binary :: "encoder \<Rightarrow> opcode \<Rightarrow> bool" where
  "refines_binary enc op \<longleftrightarrow> (\<forall>buf i ctx. enc buf i ctx =
     obind (al_locations (alloc_of ctx) [in_dest i, in_src1 i, in_src2 i]) (\<lambda>(ls, a). placed buf ctx (binary_items op ls, a)))"

definition refines_unary :: "encoder \<Rightarrow> opcode \<Rightarrow> bool" where
  "refines_unary enc op \<longleftrightarrow> (\<forall>buf i ctx. enc buf i ctx =
     obind (al_locations (alloc_of ctx) [in_dest i, in_src1 i]) (\<lambda>(ls, a). placed buf ctx (unary_items op ls, a)))"

lemma standard_ops:
  "refines_binary encode_add IR_ADD"
  "refines_binary encode_sub IR_SUB"
  "refines_binary encode_and IR_BAND"
  "refines_binary encode_or IR_BOR"
  "refines_binary encode_xor IR_BXOR"
  unfolding refines_binary_def encode_add_def encode_sub_def encode_and_def encode_or_def encode_xor_def
    emit_standard_binary_op_def binary_items_def
  by (intro allI binary_refines, simp add: emits binary_sel_def Let_def del: asm.simps)+

lemma shift_ops:
  "refines_binary encode_lshift IR_LSHIFT"
  "refines_binary encode_rshift IR_RSHIFT"
  "refines_binary encode_urshift IR_URSHIFT"
  unfolding refines_binary_def encode_lshift_def encode_rshift_def encode_urshift_def emit_shift_op_def binary_items_def
    Let_def raw_emits
  by (intro allI binary_refines, simp add: emits del: asm.simps)+

lemma mul_op: "refines_binary encode_mul IR_MUL"
  unfolding refines_binary_def encode_mul_def binary_items_def
  by (intro allI binary_refines, simp add: emits binary_sel_def Let_def del: asm.simps)

lemma div_op: "refines_binary encode_div IR_DIV"
  unfolding refines_binary_def encode_div_def binary_items_def Let_def raw_emits
  by (intro allI binary_refines, simp add: emits raw_emits del: asm.simps)

lemma comparison_ops:
  assumes "op \<in> {IR_EQ, IR_NEQ, IR_LT, IR_LE, IR_GT, IR_GE}"
  shows "refines_binary (emit_comparison_op (condition_of op)) op"
  unfolding refines_binary_def emit_comparison_op_def binary_items_def
  by (intro allI binary_refines) (use assms in \<open>elim insertE emptyE; simp add: emits binary_sel_def Let_def del: asm.simps\<close>)

lemma encode_cmp_binary: "op \<in> {IR_EQ, IR_NEQ, IR_LT, IR_LE, IR_GT, IR_GE} \<Longrightarrow> in_op i = op \<Longrightarrow>
    encode_cmp buf i ctx = emit_comparison_op (condition_of op) buf i ctx"
  by (simp add: encode_cmp_def)

lemma unary_ops: "refines_unary encode_neg IR_NEG" "refines_unary encode_not_bitwise IR_BNOT" "refines_unary encode_not IR_NOT"
  unfolding refines_unary_def encode_neg_def encode_not_bitwise_def encode_not_def unary_op_def unary_items_def Let_def raw_emits
  by (intro allI unary_refines, simp add: emits del: asm.simps)+

section \<open>The other encoders\<close>

definition refines :: "encoder \<Rightarrow> opcode \<Rightarrow> bool" where
  "refines enc op \<longleftrightarrow> (\<forall>buf i ctx. in_op i = op \<longrightarrow> enc buf i ctx = obind (select i (alloc_of ctx)) (placed buf ctx))"

lemma refinesI: "(\<And>buf i ctx. in_op i = op \<Longrightarrow> enc buf i ctx = obind (select i (alloc_of ctx)) (placed buf ctx)) \<Longrightarrow> refines enc op"
  by (simp add: refines_def)

lemma bind_ret_pair: "obind (obind m (\<lambda>(x, a). Ret (f x a))) k = obind m (\<lambda>(x, a). k (f x a))"
  by (cases m) auto

lemma refines_binaryI: "refines_binary enc op \<Longrightarrow> is_binary op \<Longrightarrow> refines enc op"
  by (auto intro!: refinesI simp: refines_binary_def select_def binary_items_def bind_ret_pair simp del: placed_simp al_locations.simps map_append)

lemma refines_unaryI: "refines_unary enc op \<Longrightarrow> op \<in> {IR_NEG, IR_NOT, IR_BNOT} \<Longrightarrow> refines enc op"
  by (rule refinesI, elim insertE emptyE)
    (simp_all add: refines_unary_def select_def unary_items_def bind_ret_pair is_binary_def del: placed_simp al_locations.simps map_append)

lemma refines_comparison: "op \<in> {IR_EQ, IR_NEQ, IR_LT, IR_LE, IR_GT, IR_GE} \<Longrightarrow> refines encode_cmp op"
proof (rule refinesI)
  fix buf and i :: instr and ctx :: jit
  assume op: "op \<in> {IR_EQ, IR_NEQ, IR_LT, IR_LE, IR_GT, IR_GE}" "in_op i = op"
  then have "refines (emit_comparison_op (condition_of op)) op"
    by (intro refines_binaryI comparison_ops) (auto simp: is_binary_def)
  then show "encode_cmp buf i ctx = obind (select i (alloc_of ctx)) (placed buf ctx)"
    using op encode_cmp_binary by (auto simp: refines_def)
qed

lemma unary_placed:
  assumes "\<And>d a c. k d a c = placed buf c (X d a, alloc_of c)"
  shows "unary_locations i ctx k =
    obind (al_locations (alloc_of ctx) [in_dest i, in_src1 i]) (\<lambda>(ls, a). placed buf ctx (X (ls ! 0) (ls ! 1), a))"
  by (simp add: unary_locations_def assms get_bind bind_pair)

lemma mov_refines: "refines encode_mov IR_MOV"
proof (rule refinesI)
  fix buf and i :: instr and ctx :: jit assume op: "in_op i = IR_MOV"
  let ?X = "\<lambda>d s. if d = s \<and> is_reg d then [] else map Op (load_sel REG_RAX s @ store_sel d REG_RAX)"
  have same: "(case (d, s) of (LOC_REG d, LOC_REG s) \<Rightarrow> d = s | _ \<Rightarrow> False) \<longleftrightarrow> d = s \<and> is_reg d" for d s
    by (cases d; cases s) auto
  have "encode_mov buf i ctx = obind (al_locations (alloc_of ctx) [in_dest i, in_src1 i]) (\<lambda>(ls, a).
      placed buf ctx (?X (ls ! 0) (ls ! 1), a))"
    unfolding encode_mov_def same
    by (rule unary_placed) (auto simp: emits finish_list put_ops simp del: asm.simps simp flip: map_append)
  then show "encode_mov buf i ctx = obind (select i (alloc_of ctx)) (placed buf ctx)"
    by (simp add: select_def op is_binary_def bind_ret_pair del: placed_simp al_locations.simps)
qed

lemma const_refines: "refines encode_const IR_CONST"
  unfolding encode_const_def
  by (rule refinesI, subst single_refines [where X = "\<lambda>d. MovImm REG_RAX (of_int (in_imm i)) # store_sel d REG_RAX" for i :: instr])
    (simp_all add: emits Let_def select_def is_binary_def bind_ret_pair del: asm.simps placed_simp)

lemma load_refines: "refines encode_load IR_LOAD"
proof (rule refinesI)
  fix buf and i :: instr and ctx :: jit assume op: "in_op i = IR_LOAD"
  let ?X = "\<lambda>d. load_sized (operand_reg REG_RAX d) (get_local_offset (in_src1 i)) (type_size (in_type i)) #
      (if is_reg d then [] else store_sel d REG_RAX)"
  show "encode_load buf i ctx = obind (select i (alloc_of ctx)) (placed buf ctx)"
    unfolding encode_load_def
    by (subst single_refines [where X = ?X])
      (simp_all add: emits Let_def select_def is_binary_def op bind_ret_pair operand_reg_def del: asm.simps placed_simp split: location.split)
qed

lemma store_refines: "refines encode_store IR_STORE"
proof (rule refinesI)
  fix buf and i :: instr and ctx :: jit assume op: "in_op i = IR_STORE"
  let ?X = "\<lambda>s. operand_sel REG_RAX s @
      [store_sized (get_local_offset (in_dest i)) (operand_reg REG_RAX s) (type_size (in_type i))]"
  show "encode_store buf i ctx = obind (select i (alloc_of ctx)) (placed buf ctx)"
    unfolding encode_store_def
    by (subst single_refines [where X = ?X])
      (simp_all add: emits Let_def select_def is_binary_def op bind_ret_pair operand_reg_def operand_sel_def
        del: asm.simps placed_simp split: location.split)
qed

lemma pop_args_emits: "pop_args rs em = emit_list (code (map Pop rs)) em"
  by (induction rs arbitrary: em) (simp_all add: emits del: asm.simps)

lemma ret_refines: "refines encode_ret IR_RET"
proof (rule refinesI)
  fix buf and i :: instr and ctx :: jit assume op: "in_op i = IR_RET"
  let ?X = "\<lambda>s. load_sel REG_RAX s @ epilogue"
  show "encode_ret buf i ctx = obind (select i (alloc_of ctx)) (placed buf ctx)"
    unfolding encode_ret_def Let_def raw_emits
    by (subst single_refines [where X = ?X])
      (simp_all add: emits select_def is_binary_def op bind_ret_pair epilogue_def pop_args_emits del: asm.simps placed_simp)
qed

lemma arg_refines: "refines encode_arg IR_ARG"
  by (rule refinesI)
    (auto simp: encode_arg_def select_def is_binary_def alloc_of_def set_alloc_def)

lemma label_refines: "refines encode_label IR_LABEL"
  by (rule refinesI)
    (auto simp: encode_label_def select_def is_binary_def put_def place_label_def Let_def split: prod.split)

lemma emit_jump_NULL [simp]: "emit_jump 0 l ctx (jump_opcode c) = (item_size (Jump c l), ctx)"
  by (cases c; cases "the c") (auto simp: emit_jump_def jump_opcode_def em_start_def emit_u8_def)

lemma jmp_refines: "refines encode_jmp IR_JMP"
proof (rule refinesI)
  fix buf and i :: instr and ctx :: jit assume op: "in_op i = IR_JMP"
  have o: "opcode_byte OP_JMP_REL32 = jump_opcode None" by (simp add: jump_opcode_def)
  have "snd (emit_jump buf l ctx (jump_opcode None)) = put buf [Jump None l] ctx" for l
    by (simp add: put_def)
  moreover have "fst (emit_jump buf l ctx (jump_opcode None)) = 5" for l
    by (simp add: emit_jump_def jump_opcode_def Let_def em_start_def emit_u32_list emit_list_size) (simp add: emit_u8_def)
  ultimately show "encode_jmp buf i ctx = obind (select i (alloc_of ctx)) (placed buf ctx)"
    by (simp add: encode_jmp_def select_def is_binary_def op o prod_eq_iff del: opcode_byte.simps)
qed

lemma emit_jump_cursor:
  assumes "buf \<noteq> 0"
  shows "place buf [Jump c l] ctx = snd (emit_jump buf l ctx (jump_opcode c))"
    and "fst (emit_jump buf l ctx (jump_opcode c)) = item_size (Jump c l)"
proof -
  show "place buf [Jump c l] ctx = snd (emit_jump buf l ctx (jump_opcode c))" by simp
  have "jump_opcode (Some c) \<noteq> opcode_byte OP_JMP_REL32" for c
    by (cases c) (simp_all add: jump_opcode_def)
  then show "fst (emit_jump buf l ctx (jump_opcode c)) = item_size (Jump c l)"
    using assms by (cases c)
      (simp_all add: emit_jump_def Let_def em_start_def emit_u32_list emit_u8_def jump_opcode_def emit_list_size
        split: if_splits)
qed

lemma em_start_set_alloc [simp]: "em_start buf (set_alloc a ctx) = em_start buf ctx"
  by (simp add: em_start_def)

lemma put_NULL [simp]: "put 0 is ctx = ctx"
  by (simp add: put_def)

lemma put_after_ops:
  fixes xs buf c
  defines "em \<equiv> emit_list (code xs) (em_start buf c)"
  shows "put (em_buf em) js (c\<lparr>jx_mem := em_mem em\<rparr>) = put buf (map Op xs @ js) c"
proof (cases "buf = 0")
  case True
  then have "em_buf em = 0" "em_mem em = jx_mem c" by (simp_all add: em_def em_start_def emit_list_NULL)
  then show ?thesis by (simp add: True)
next
  case False
  then have "em_buf em = buf + length (code xs)" "em_mem em = write_to buf (code xs) (jx_mem c)"
    by (simp_all add: em_def em_start_def emit_list_write write_to_def)
  then show ?thesis by (simp add: put_append put_ops False)
qed

text \<open>The test before a branch, then the jump.\<close>

definition test_sel :: "location \<Rightarrow> x86 list" where
  "test_sel s = operand_sel REG_RAX s @
     [if is_reg s then TestRR (operand_reg REG_RAX s) (operand_reg REG_RAX s) else AluImm8 A_Cmp REG_RAX 0]"

lemma emit_jz_jnz_emits:
  "emit_jz_jnz i ctx em = obind (al_location (alloc_of ctx) (in_src1 i)) (\<lambda>(s, a). Ret (emit_list (code (test_sel s)) em, set_alloc a ctx))"
proof -
  have "(case s of LOC_REG r \<Rightarrow> emit_test r r em
     | _ \<Rightarrow> emit_list (asm (AluImm8 A_Cmp REG_RAX 0)) (load_location_to_reg REG_RAX s em)) = emit_list (code (test_sel s)) em" for s
    by (cases s) (simp_all add: test_sel_def emits operand_sel_def operand_reg_def del: asm.simps)
  then show ?thesis
    unfolding emit_jz_jnz_def Let_def raw_emits by (simp add: get_bind)
qed

lemma branch_refines: "op \<in> {IR_JZ, IR_JNZ} \<Longrightarrow> refines encode_branch op"
proof (rule refinesI)
  fix buf and i :: instr and ctx :: jit assume op: "op \<in> {IR_JZ, IR_JNZ}" "in_op i = op"
  let ?c = "Some (if in_op i = IR_JZ then CC_E else CC_NE)"
  let ?its = "\<lambda>s. map Op (test_sel s) @ [Jump ?c (in_label i)]"
  have jump: "(let (n, ctx) = emit_jump b l ctx (jump_opcode c) in Ret (k + n, ctx)) =
      Ret (k + item_size (Jump c l), put b [Jump c l] ctx)" for b l ctx k c
    using emit_jump_cursor(2) [of b l ctx c] by (cases "b = 0") (auto simp: put_def split: prod.split)
  have sz: "items_size (?its s) = length (code (test_sel s)) + item_size (Jump ?c (in_label i))" for s by simp
  let ?K = "\<lambda>(em, c). let opcode = 0x80 OR cc_code (if in_op i = IR_JZ then CC_E else CC_NE);
           (jmp_size, ctx) = emit_jump (em_buf em) (in_label i) (c\<lparr>jx_mem := em_mem em\<rparr>) opcode
       in Ret (em_size em + jmp_size, ctx)"
  have K: "?K (em, c) = placed buf c (?its s, alloc_of c)"
    if em: "em = emit_list (code (test_sel s)) (em_start buf c)" for em c s
  proof -
    have "em_size em = length (code (test_sel s))" by (simp add: em em_start_def)
    moreover have "put (em_buf em) [Jump ?c (in_label i)] (c\<lparr>jx_mem := em_mem em\<rparr>) = put buf (?its s) c"
      unfolding em by (rule put_after_ops)
    ultimately show ?thesis
      using jump [of "em_buf em" "in_label i" "c\<lparr>jx_mem := em_mem em\<rparr>" ?c "em_size em"]
      by (simp add: jump_opcode_def sz del: items_size_simps)
  qed
  have "?K (emit_list (code (test_sel s)) (em_start buf ctx), set_alloc a ctx) = placed buf ctx (?its s, a)" for s a
    using K [of "emit_list (code (test_sel s)) (em_start buf ctx)" s "set_alloc a ctx"]
    by (simp only: alloc_of_set placed_set_alloc em_start_set_alloc)
  then have "encode_branch buf i ctx = obind (al_location (alloc_of ctx) (in_src1 i)) (\<lambda>(s, a). placed buf ctx (?its s, a))"
    by (simp only: encode_branch_def emit_jz_jnz_emits bind_ret_pair)
  then show "encode_branch buf i ctx = obind (select i (alloc_of ctx)) (placed buf ctx)"
    using op by (auto simp: select_def is_binary_def bind_ret_pair test_sel_def simp del: placed_simp)
qed

section \<open>Calls\<close>

lemma push_stack_emits:
  "push_stack_args vs em ctx =
     obind (al_locations (alloc_of ctx) vs) (\<lambda>(ls, a). Ret (emit_list (code (concat (map push_stack_sel ls))) em, set_alloc a ctx))"
proof (induction vs arbitrary: em ctx)
  case (Cons v vs)
  have e: "emit_push REG_RAX (load_location_to_reg REG_RAX l em) = emit_list (code (push_stack_sel l)) em" for l em
    by (simp add: push_stack_sel_def emits del: asm.simps)
  show ?case by (simp add: get_bind Cons.IH e bind_pair del: emit_list_simps(2))
qed simp

lemma push_reg_emits:
  "push_reg_args vs em ctx =
     obind (al_locations (alloc_of ctx) vs) (\<lambda>(ls, a). Ret (emit_list (code (concat (map push_reg_sel ls))) em, set_alloc a ctx))"
proof (induction vs arbitrary: em ctx)
  case (Cons v vs)
  have e: "(case l of LOC_REG r \<Rightarrow> emit_push r em | _ \<Rightarrow> emit_push REG_RAX (load_location_to_reg REG_RAX l em)) =
      emit_list (code (push_reg_sel l)) em" for l em
    by (cases l) (simp_all add: push_reg_sel_def push_stack_sel_def emits del: asm.simps)
  show ?case by (simp add: get_bind Cons.IH e bind_pair del: emit_list_simps(2))
qed simp

lemma al_location_pending: "al_location a v = Ret (l, b) \<Longrightarrow> al_pending b = al_pending a"
  by (auto simp: al_location_def al_assign_def Let_def split: if_splits option.splits)

lemma al_locations_pending: "al_locations a vs = Ret (ls, b) \<Longrightarrow> al_pending b = al_pending a"
  by (induction vs arbitrary: a ls b) (auto simp: outcome_simps dest: al_location_pending)

lemma set_alloc_pending: "(set_alloc a ctx)\<lparr>jx_pending := []\<rparr> = set_alloc (a\<lparr>al_pending := []\<rparr>) ctx"
  by (simp add: set_alloc_def)

lemma call_emits:
  fixes buf pre post and c :: jit
  defines "em1 \<equiv> emit_u8 (opcode_byte MOV_IMM_R + reg_code REG_RAX) (emit_u8 REX_W (emit_list (code pre) (em_start buf c)))"
  shows "em_finish (emit_list (code post) (emit_u64 0xDEADBEEFDEADBEEF em1)) ((add_call_site buf em1 f c)\<lparr>jx_pending := []\<rparr>) =
    Ret (items_size (map Op pre @ [CallTo f] @ map Op post), put buf (map Op pre @ [CallTo f] @ map Op post) (c\<lparr>jx_pending := []\<rparr>))"
proof -
  have mov: "emit_u64 0xDEADBEEFDEADBEEF em1 = emit_list (asm (MovImm REG_RAX placeholder)) (emit_list (code pre) (em_start buf c))"
    unfolding em1_def raw_emits ..
  have em: "emit_list (code post) (emit_u64 0xDEADBEEFDEADBEEF em1) =
      emit_list (code pre @ asm (MovImm REG_RAX placeholder) @ code post) (em_start buf c)"
    by (simp only: mov emit_list_simps append_assoc)
  have b: "em_buf em1 = (if buf = 0 then 0 else buf + length (code pre) + 2)"
    by (cases "buf = 0") (simp_all add: em1_def emit_u8_def em_start_def emit_list_NULL emit_list_write)
  have mem: "write_to buf (code pre @ asm (MovImm REG_RAX placeholder) @ code post) (jx_mem c) =
      write_to (if buf = 0 then 0 else buf + (length (code pre) + 10)) (code post)
       (write_to (if buf = 0 then 0 else buf + length (code pre)) (asm (MovImm REG_RAX placeholder)) (write_to buf (code pre) (jx_mem c)))"
    by (simp add: write_to_def write_bytes_append [symmetric] add.assoc del: asm.simps)
  show ?thesis
    unfolding em
    by (cases "buf = 0")
      (simp_all add: finish_list add_call_site_def put_append put_ops mem b del: asm.simps,
       simp_all add: put_def write_to_def place_site_def place_ops place_bytes_def add.assoc del: asm.simps)
qed

lemma call_refines: "refines encode_call IR_CALL"
proof (rule refinesI)
  fix buf and i :: instr and ctx :: jit assume op: "in_op i = IR_CALL"
  let ?args = "jx_pending ctx" and ?n = "length (jx_pending ctx) - 6"
  let ?pre = "\<lambda>ss rs. (if call_pad ?n \<noteq> 0 then [AluImm32 A_Sub REG_RSP (of_nat (call_pad ?n))] else []) @
      concat (map push_stack_sel ss) @ concat (map push_reg_sel rs) @ map Pop (take (length ?args) (take 6 arg_registers))"
  let ?post = "\<lambda>d. [CallR REG_RAX] @
      (if ?n > 0 then [AluImm32 A_Add REG_RSP (of_nat (8 * ?n + call_pad ?n))] else []) @ store_sel d REG_RAX"
  have sel: "call_sel (in_func i) (length ?args) ss rs d = map Op (?pre ss rs) @ [CallTo (in_func i)] @ map Op (?post d)" for ss rs d
    by (simp add: call_sel_def Let_def)
    have take: "take (if length ?args > SYS_V_MAX_REG_ARGS then SYS_V_MAX_REG_ARGS else length ?args) ?args = take 6 ?args"
        "take (if length ?args > SYS_V_MAX_REG_ARGS then SYS_V_MAX_REG_ARGS else length ?args) arg_registers =
          take (length ?args) (take 6 arg_registers)"
        "(if length ?args > SYS_V_MAX_REG_ARGS then length ?args - SYS_V_MAX_REG_ARGS else 0) = ?n"
      by (simp_all add: SYS_V_MAX_REG_ARGS_def min_def)
  show "encode_call buf i ctx = obind (select i (alloc_of ctx)) (placed buf ctx)"
  proof (cases "al_location (alloc_of ctx) (in_dest i)")
    case (Ret x)
    obtain d a1 where x: "x = (d, a1)" by force
    have p1: "al_pending a1 = ?args" using al_location_pending Ret x by (force simp: alloc_of_def)
    let ?c1 = "set_alloc a1 ctx"
    have em0: "(if ?n mod 2 \<noteq> 0 then emit_list (asm (AluImm32 A_Sub REG_RSP (of_nat (STACK_ALIGNMENT div 2)))) em else em) =
        emit_list (code (if call_pad ?n \<noteq> 0 then [AluImm32 A_Sub REG_RSP (of_nat (call_pad ?n))] else [])) em" for em
      by (simp add: call_pad_def STACK_ALIGNMENT_def del: asm.simps)
    show ?thesis
    proof (cases "al_locations a1 (rev (drop 6 ?args))")
      case (Ret y)
      obtain ss a2 where y: "y = (ss, a2)" by force
      have p2: "al_pending a2 = ?args" using al_locations_pending [of a1] Ret y p1 by simp
      show ?thesis
      proof (cases "al_locations a2 (rev (take 6 ?args))")
        case (Ret z)
        obtain rs a3 where z: "z = (rs, a3)" by force
        have p3: "al_pending a3 = ?args" using al_locations_pending [of a2] Ret z p2 by simp
        let ?em = "\<lambda>em. emit_u8 (opcode_byte MOV_IMM_R + reg_code REG_RAX) (emit_u8 REX_W em)"
        let ?em1 = "?em (emit_list (code (?pre ss rs)) (em_start buf (set_alloc a3 ctx)))"
        have post: "store_reg_to_location d REG_RAX
            (if ?n > 0 \<or> ?n mod 2 \<noteq> 0 then emit_list (asm (AluImm32 A_Add REG_RSP (of_nat (?n * (STACK_ALIGNMENT div 2) +
               (if ?n mod 2 \<noteq> 0 then STACK_ALIGNMENT div 2 else 0))))) (emit_list (asm (CallR REG_RAX)) em)
             else emit_list (asm (CallR REG_RAX)) em) = emit_list (code (?post d)) em" for em
          by (cases "?n > 0") (simp_all add: raw_emits emits call_pad_def STACK_ALIGNMENT_def mult.commute del: asm.simps)
        have "encode_call buf i ctx = em_finish (emit_list (code (?post d)) (emit_u64 0xDEADBEEFDEADBEEF ?em1))
            ((add_call_site buf ?em1 (in_func i) (set_alloc a3 ctx))\<lparr>jx_pending := []\<rparr>)"
          unfolding encode_call_def Let_def get_bind \<open>al_location _ _ = _\<close> x obind.simps prod.case set_alloc_fields p1 take
            push_stack_emits push_reg_emits bind_ret_pair alloc_of_set \<open>al_locations a1 _ = _\<close> y Ret z raw_emits em0 pop_args_emits post
          by (simp only: emit_list_simps code_simps append_assoc em_start_set_alloc)
        also have "\<dots> = placed buf ctx (map Op (?pre ss rs) @ [CallTo (in_func i)] @ map Op (?post d), a3\<lparr>al_pending := []\<rparr>)"
          by (simp only: call_emits set_alloc_pending placed_simp)
        also have "\<dots> = obind (select i (alloc_of ctx)) (placed buf ctx)"
          using \<open>al_location _ _ = _\<close> \<open>al_locations a1 _ = _\<close> Ret
          by (simp add: select_def op is_binary_def x y z p1 p2 p3 sel del: placed_simp)
        finally show ?thesis .
      qed (use \<open>al_location _ _ = _\<close> \<open>al_locations a1 _ = _\<close> x y p1 p2 in
          \<open>(cases "6 < length ?args"; simp add: encode_call_def Let_def get_bind push_stack_emits push_reg_emits
             select_def op is_binary_def SYS_V_MAX_REG_ARGS_def del: emit_list_simps(2))+\<close>)
    qed (use \<open>al_location _ _ = _\<close> x p1 in
        \<open>simp_all add: encode_call_def Let_def get_bind push_stack_emits select_def op is_binary_def\<close>)
  qed (simp_all add: encode_call_def get_bind select_def op is_binary_def)
qed

section \<open>Every instruction\<close>

theorem encode_inst_refines:
  "encode_inst buf i ctx = obind (select i (alloc_of ctx)) (\<lambda>(is, a). Ret (items_size is, put buf is (set_alloc a ctx)))"
proof -
  have "refines (encoders op) op" for op
    by (cases op)
      (simp_all add: standard_ops shift_ops mul_op div_op refines_binaryI is_binary_def unary_ops refines_unaryI mov_refines
        const_refines load_refines store_refines ret_refines arg_refines label_refines jmp_refines branch_refines call_refines
        refines_comparison)
  then show ?thesis
    by (simp add: refines_def encode_inst_def placed_def)
qed

section \<open>The prologue\<close>

lemma push_all_emits: "push_all rs em = emit_list (code (map Push rs)) em"
  by (induction rs arbitrary: em) (simp_all add: emits del: asm.simps)

lemma place_item_alloc [simp]: "alloc_of (place_item buf i ctx) = alloc_of ctx"
  "place_item buf i (set_alloc a ctx) = set_alloc a (place_item buf i ctx)"
  by (cases i;
      simp add: place_bytes_def place_site_def place_label_def emit_jump_def em_start_def Let_def alloc_of_def set_alloc_def
        split: prod.split)+

lemma place_alloc [simp]: "alloc_of (place buf is ctx) = alloc_of ctx"
  "place buf is (set_alloc a ctx) = set_alloc a (place buf is ctx)"
  by (induction "is" arbitrary: buf ctx) simp_all

text \<open>What placing items leaves alone.\<close>

lemma place_item_frame [simp]:
  "jx_exec (place_item buf i ctx) = jx_exec ctx" "jx_registry (place_item buf i ctx) = jx_registry ctx"
  by (cases i; simp add: place_bytes_def place_site_def place_label_def emit_jump_def em_start_def Let_def split: prod.split)+

lemma place_frame [simp]:
  "jx_exec (place buf is ctx) = jx_exec ctx" "jx_registry (place buf is ctx) = jx_registry ctx"
  by (induction "is" arbitrary: buf ctx) simp_all

end
