(* ===== verification/RegAlloc.thy ===== *)
theory RegAlloc
  imports JitRefine
begin

text \<open>
  The register allocator: a virtual register keeps the location it is given, two virtual registers
  never share one, registers are callee-saved ones, and slots depend on the virtual register only.
\<close>

definition alloc_ok :: "alloc \<Rightarrow> bool" where
  "alloc_ok a \<longleftrightarrow>
     (\<forall>v r. al_map a v = LOC_REG r \<longrightarrow> (\<exists>i. (i, r) \<in> set saved_registers \<and> al_phys a i)) \<and>
     (\<forall>v x. al_map a v = LOC_STACK x \<longrightarrow> x = spill_offset (al_base a + v)) \<and>
     (\<forall>v x. al_map a v \<noteq> LOC_CONST x) \<and>
     (\<forall>v w r. al_map a v = LOC_REG r \<and> al_map a w = LOC_REG r \<longrightarrow> v = w)"

definition alloc_le :: "alloc \<Rightarrow> alloc \<Rightarrow> bool" where
  "alloc_le a b \<longleftrightarrow> al_base b = al_base a \<and> (\<forall>v. al_map a v \<noteq> LOC_NONE \<longrightarrow> al_map b v = al_map a v)"

lemma alloc_le_refl [simp]: "alloc_le a a"
  by (simp add: alloc_le_def)

lemma alloc_le_trans: "alloc_le a b \<Longrightarrow> alloc_le b c \<Longrightarrow> alloc_le a c"
  by (auto simp: alloc_le_def)

lemma alloc_le_pending [simp]: "alloc_le (a\<lparr>al_pending := p\<rparr>) b \<longleftrightarrow> alloc_le a b" "alloc_le a (b\<lparr>al_pending := p\<rparr>) \<longleftrightarrow> alloc_le a b"
  by (simp_all add: alloc_le_def)

lemma alloc_ok_pending [simp]: "alloc_ok (a\<lparr>al_pending := p\<rparr>) \<longleftrightarrow> alloc_ok a"
  by (simp add: alloc_ok_def)

lemma initial_alloc_ok: "alloc_ok (initial_alloc base)"
  by (simp add: alloc_ok_def initial_alloc_def)

lemma saved_inj: "(i, r) \<in> set saved_registers \<Longrightarrow> (j, r) \<in> set saved_registers \<Longrightarrow> i = j"
  by (auto simp: saved_registers_def)

lemma alloc_ok_reg: "alloc_ok a \<Longrightarrow> al_map a v = LOC_REG r \<Longrightarrow> \<exists>i. (i, r) \<in> set saved_registers \<and> al_phys a i"
  by (simp add: alloc_ok_def)

lemma al_fresh_Some:
  assumes "find (\<lambda>(i, r). \<not> al_phys a i) saved_registers = Some (i, r)"
  shows "(i, r) \<in> set saved_registers" "\<not> al_phys a i" "al_fresh a v = LOC_REG r"
  using assms by (auto simp: saved_registers_def al_fresh_def split: if_splits)

lemma al_location_ok:
  assumes ok: "alloc_ok a" and r: "al_location a v = Ret (l, b)"
  shows "alloc_ok b" and "alloc_le a b" and "al_map b v = l" and "l \<noteq> LOC_NONE"
proof -
  have "alloc_ok b \<and> alloc_le a b \<and> al_map b v = l \<and> l \<noteq> LOC_NONE"
  proof (cases "al_map a v = LOC_NONE")
    case False
    then show ?thesis using r ok by (auto simp: al_location_def split: if_splits)
  next
    case True
    then have b: "b = al_assign a v" "l = al_fresh a v"
      using r by (auto simp: al_location_def split: if_splits)
    show ?thesis
    proof (cases "find (\<lambda>(i, r). \<not> al_phys a i) saved_registers")
      case None
      then have l: "l = LOC_STACK (spill_offset (al_base a + v))" and b: "b = a\<lparr>al_map := (al_map a)(v := l)\<rparr>"
        by (simp_all add: b al_fresh_def al_assign_def)
      have "alloc_ok b" using ok by (simp add: l b alloc_ok_def)
      then show ?thesis using True by (simp add: l b alloc_le_def)
    next
      case (Some x)
      obtain i r where x: "x = (i, r)" by force
      note f = al_fresh_Some [OF Some [unfolded x]]
      have l: "l = LOC_REG r" and b: "b = a\<lparr>al_map := (al_map a)(v := l), al_phys := (al_phys a)(i := True)\<rparr>"
        using Some f(3) by (simp_all add: b al_assign_def x)
      have "al_map a w \<noteq> LOC_REG r" for w
        using alloc_ok_reg [OF ok, of w r] f(1,2) saved_inj by blast
      moreover have "\<exists>j. (j, s) \<in> set saved_registers \<and> (j \<noteq> i \<longrightarrow> al_phys a j)" if "al_map a w = LOC_REG s" for w s
        using alloc_ok_reg [OF ok that] by blast
      ultimately have "alloc_ok b"
        using ok f(1) by (auto simp: l b alloc_ok_def) (metis (mono_tags, lifting))
      then show ?thesis using True by (simp add: l b alloc_le_def)
    qed
  qed
  then show "alloc_ok b" "alloc_le a b" "al_map b v = l" "l \<noteq> LOC_NONE" by auto
qed

lemma al_locations_ok_all:
  "alloc_ok a \<Longrightarrow> al_locations a vs = Ret (ls, b) \<Longrightarrow>
     alloc_ok b \<and> alloc_le a b \<and> ls = map (al_map b) vs \<and> LOC_NONE \<notin> set ls"
proof (induction vs arbitrary: a ls)
  case (Cons v vs)
  obtain l c ks where l: "al_location a v = Ret (l, c)" and ks: "al_locations c vs = Ret (ks, b)" and ls: "ls = l # ks"
    using Cons.prems(2) by (auto simp: outcome_simps)
  note s = al_location_ok [OF Cons.prems(1) l] and r = Cons.IH [OF al_location_ok(1) [OF Cons.prems(1) l] ks]
  have "al_map b v = l" using s(3,4) r by (auto simp: alloc_le_def)
  then show ?case using s r alloc_le_trans [of a c b] by (auto simp: ls)
qed auto

lemmas al_locations_ok = al_locations_ok_all [THEN conjunct1] al_locations_ok_all [THEN conjunct2, THEN conjunct1]
  al_locations_ok_all [THEN conjunct2, THEN conjunct2, THEN conjunct1]
  al_locations_ok_all [THEN conjunct2, THEN conjunct2, THEN conjunct2]

lemma select_ok:
  assumes ok: "alloc_ok a" and sel: "select i a = Ret (is, b)"
  shows "alloc_ok b" "alloc_le a b"
proof -
  have many: "alloc_ok b \<and> alloc_le a b" if "obind (al_locations a vs) (\<lambda>(ls, a). Ret (f ls, a)) = Ret (is, b)" for vs f
    using that by (auto simp: outcome_simps dest: al_locations_ok(1,2) [OF ok])
  have one: "alloc_ok b \<and> alloc_le a b" if "obind (al_location a v) (\<lambda>(l, a). Ret (f l, a)) = Ret (is, b)" for v f
    using that by (auto simp: outcome_simps dest: al_location_ok(1,2) [OF ok])
  have call: "alloc_ok b \<and> alloc_le a b"
    if call: "obind (al_location a v) (\<lambda>(d, a). obind (al_locations a (f a)) (\<lambda>(ss, a). obind (al_locations a (g a)) (\<lambda>(rs, a).
          Ret (h a ss rs d, a\<lparr>al_pending := []\<rparr>)))) = Ret (is, b)" for v f g h
  proof -
    obtain d a1 ss a2 rs a3 where s: "al_location a v = Ret (d, a1)" "al_locations a1 (f a1) = Ret (ss, a2)"
        "al_locations a2 (g a2) = Ret (rs, a3)" "b = a3\<lparr>al_pending := []\<rparr>"
      using call by (auto simp: outcome_simps)
    have 1: "alloc_ok a1" "alloc_le a a1" using al_location_ok [OF ok s(1)] by auto
    have 2: "alloc_ok a2" "alloc_le a1 a2" using al_locations_ok [OF 1(1) s(2)] by auto
    have 3: "alloc_ok a3" "alloc_le a2 a3" using al_locations_ok [OF 2(1) s(3)] by auto
    show ?thesis using 1 2 3 by (auto simp: s(4) intro: alloc_le_trans)
  qed
  have "alloc_ok b \<and> alloc_le a b"
    using sel ok unfolding select_def
    by (simp only: split: if_splits) ((rule many, assumption) | (rule one, assumption) | (rule call, assumption) | force)+
  then show "alloc_ok b" "alloc_le a b" by auto
qed

text \<open>The effect of selection on the arguments that wait for their call.\<close>

lemma select_pending:
  assumes "select i a = Ret (xs, b)"
  shows "al_pending b = (if in_op i = IR_ARG then al_pending a @ [in_src1 i] else if in_op i = IR_CALL then [] else al_pending a)"
proof -
  have many: "al_pending b = al_pending a" if "obind (al_locations a vs) (\<lambda>(ls, a). Ret (f ls, a)) = Ret (xs, b)" for vs f
    using that by (auto simp: outcome_simps dest: al_locations_pending)
  have one: "al_pending b = al_pending a" if "obind (al_location a v) (\<lambda>(l, a). Ret (f l, a)) = Ret (xs, b)" for v f
    using that by (auto simp: outcome_simps dest: al_location_pending)
  show ?thesis
    using assms many one unfolding select_def
    by (cases "in_op i") (auto simp: is_binary_def outcome_simps simp del: al_locations.simps
      dest!: al_location_pending al_locations_pending split: if_splits)
qed

end
