(* ===== verification/CodeImage.thy ===== *)
theory CodeImage
  imports RegAlloc
begin

text \<open>
  The code of a function in memory. Both passes of \<open>jit_compile_function\<close> carry out the same
  selection, so the size predicted by the first is the size written by the second; and when the
  second pass is over, every jump holds the displacement of its label, whether the label came before
  the jump or was patched in afterwards: memory is the image of the assembled code.
\<close>

section \<open>The prologue\<close>

lemma place_params_emits:
  "alloc_ok (alloc_of ctx) \<Longrightarrow> place_params n i em ctx =
     obind (select_params n i (alloc_of ctx)) (\<lambda>(xs, a). Ret (emit_list (code xs) em, set_alloc a ctx))"
proof (induction n arbitrary: i em ctx)
  case (Suc n)
  show ?case
  proof (cases "al_location (alloc_of ctx) (i + 1)")
    case (Ret x)
    obtain l a where x: "x = (l, a)" by force
    note ok = al_location_ok [OF Suc.prems Ret [unfolded x]]
    have "l \<noteq> LOC_CONST c" for c using ok(1,3) by (auto simp: alloc_ok_def)
    then have step: "(if i < 6 then
          let src_reg = arg_registers ! i in
          Ret (case l of
                 LOC_REG r \<Rightarrow> if r \<noteq> src_reg then emit_mov_reg_reg r src_reg em else em
               | LOC_STACK offset \<Rightarrow> emit_store_local src_reg offset em
               | _ \<Rightarrow> em)
        else
          let src_offset = of_nat (2 * WORD_SIZE + (i - 6) * WORD_SIZE) in
          (case l of
             LOC_REG r \<Rightarrow> Ret (emit_load_param r src_offset em)
           | LOC_STACK offset \<Rightarrow> Ret (emit_store_local REG_RAX offset (emit_load_param REG_RAX src_offset em))
           | _ \<Rightarrow> Fault Undefined)) = Ret (emit_list (code (param_sel i l)) em)"
      using ok(4) by (cases l) (auto simp: param_sel_def store_sel_def emits Let_def simp del: asm.simps)
    show ?thesis
      by (simp add: get_bind Ret x step Suc.IH [of "set_alloc a ctx"] ok(1) bind_pair del: asm.simps emit_list_simps(2) One_nat_def)
  qed (simp_all add: get_bind)
qed simp

lemma select_params_ok:
  "alloc_ok a \<Longrightarrow> select_params n i a = Ret (xs, b) \<Longrightarrow> alloc_ok b \<and> alloc_le a b"
proof (induction n arbitrary: i a xs)
  case (Suc n)
  obtain l c ys where l: "al_location a (i + 1) = Ret (l, c)" and ys: "select_params n (i + 1) c = Ret (ys, b)"
    using Suc.prems(2) by (auto simp: outcome_simps simp del: One_nat_def)
  show ?case
    using al_location_ok(2) [OF Suc.prems(1) l] Suc.IH [OF al_location_ok(1) [OF Suc.prems(1) l] ys]
    by (auto intro: alloc_le_trans)
qed auto

lemma select_all_ok:
  "alloc_ok a \<Longrightarrow> select_all is a = Ret (its, b) \<Longrightarrow> alloc_ok b \<and> alloc_le a b"
proof (induction "is" arbitrary: a its)
  case (Cons i "is")
  obtain xs c ys where x: "select i a = Ret (xs, c)" and y: "select_all is c = Ret (ys, b)"
    using Cons.prems(2) by (auto simp: outcome_simps)
  show ?case
    using select_ok [OF Cons.prems(1) x] Cons.IH [OF _ y] by (auto intro: alloc_le_trans)
qed auto

lemma select_function_ok:
  assumes "select_function f k = Ret (items, a)"
  shows "alloc_ok a" "al_base a = if_stack_count f"
proof -
  obtain ps b its where p: "select_params k 0 (initial_alloc (if_stack_count f)) = Ret (ps, b)"
      and i: "select_all (ir_code f) b = Ret (its, a)"
    using assms by (auto simp: select_function_def outcome_simps)
  note b = select_params_ok [OF initial_alloc_ok p]
  show "alloc_ok a" "al_base a = if_stack_count f"
    using b select_all_ok [OF _ i] by (auto simp: alloc_le_def initial_alloc_def)
qed

theorem encode_prologue_refines:
  assumes "alloc_ok (alloc_of ctx)"
  shows "encode_prologue buf n k ctx = obind (select_params k 0 (alloc_of ctx)) (\<lambda>(ps, a).
      Ret (items_size (map Op (frame_sel n @ ps)), put buf (map Op (frame_sel n @ ps)) (set_alloc a ctx)))"
proof -
  have push: "push_all [REG_RBX, REG_R12, REG_R13, REG_R14, REG_R15]
      (emit_mov_reg_reg REG_RBP REG_RSP (emit_push REG_RBP em)) =
      emit_list (code [Push REG_RBP, MovRR REG_RBP REG_RSP, Push REG_RBX, Push REG_R12, Push REG_R13, Push REG_R14, Push REG_R15]) em"
    for em
    by (simp only: push_all_emits emits emit_list_simps(3)) simp
  have frame: "(if n > 0 then emit_rsp EXT_SUB n em else em) =
      emit_list (code (if n > 0 then [AluImm32 A_Sub REG_RSP (of_nat n)] else [])) em" for em
    by (simp add: raw_emits del: asm.simps)
  have fin: "em_finish (emit_list (code xs) (emit_list (code B) (emit_list (code A) (em_start buf ctx)))) (set_alloc a ctx) =
      Ret (items_size (map Op ((A @ B) @ xs)), put buf (map Op ((A @ B) @ xs)) (set_alloc a ctx))" for A B xs a
    using finish_ops [of "(A @ B) @ xs" buf a ctx] by (simp del: asm.simps emit_list_simps(2) map_append)
  show ?thesis
    unfolding encode_prologue_def Let_def push frame place_params_emits [OF assms] bind_ret_pair
    by (simp only: frame_sel_def fin prod.case)
qed

section \<open>The two passes\<close>

lemma measure_refines:
  "measure_code is n ctx = obind (select_all is (alloc_of ctx)) (\<lambda>(its, a). Ret (n + items_size its, set_alloc a ctx))"
proof (induction "is" arbitrary: n ctx)
  case (Cons i "is")
  show ?case by (simp add: encode_inst_refines bind_ret_pair Cons.IH bind_pair add.assoc)
qed simp

lemma write_refines:
  assumes "select_all is (alloc_of ctx) = Ret (its, a)" "0 < start" "start \<le> pos" "pos - start + items_size its \<le> n"
  shows "write_code start n is pos ctx = Ret (pos + items_size its, place pos its (set_alloc a ctx))"
  using assms
proof (induction "is" arbitrary: pos ctx its)
  case (Cons i "is")
  obtain xs b ys where x: "select i (alloc_of ctx) = Ret (xs, b)" and y: "select_all is b = Ret (ys, a)" and its: "its = xs @ ys"
    using Cons.prems(1) by (auto simp: outcome_simps)
  have "write_code start n is (pos + items_size xs) (place pos xs (set_alloc b ctx)) =
      Ret (pos + items_size xs + items_size ys, place (pos + items_size xs) ys (set_alloc a (place pos xs (set_alloc b ctx))))"
    using Cons.prems y by (intro Cons.IH) (auto simp: its)
  then show ?case
    using Cons.prems by (simp add: encode_inst_refines x its put_def Let_def add.assoc place_append)
qed auto

text \<open>The context in which the second pass starts.\<close>

definition fresh :: "jit \<Rightarrow> ir_function \<Rightarrow> arena \<times> regions \<Rightarrow> jit" where
  "fresh ctx f exec = reset_state (ctx\<lparr>jx_stack_base := if_stack_count f, jx_exec := exec\<rparr>)"

lemma reset_state_frame [simp]: "jx_exec (reset_state ctx) = jx_exec ctx" "jx_registry (reset_state ctx) = jx_registry ctx"
    "jx_mem (reset_state ctx) = jx_mem ctx" "jx_sites (reset_state ctx) = jx_sites ctx"
  by (simp_all add: reset_state_def)

lemma fresh_alloc: "alloc_of (fresh ctx f exec) = initial_alloc (if_stack_count f)"
  by (simp add: fresh_def reset_state_def alloc_of_def initial_alloc_def)

text \<open>The first pass predicts the size of the selected code, whatever the allocation returns.\<close>

lemma compile_second_pass:
  assumes labels: "if_label_count f < MAX_LABELS" and total: "length (ir_code f) = if_total_count f"
    and ps: "select_params k 0 (initial_alloc (if_stack_count f)) = Ret (ps, b)"
    and its: "select_all (ir_code f) b = Ret (its, a)"
    and items: "items = map Op (frame_sel (calculate_aligned_stack_size f) @ ps) @ its"
    and alloc: "arena_alloc_aligned sys (items_size items) STACK_ALIGNMENT (jx_exec ctx) = (addr, exec)"
  shows "jit_compile_function sys ctx f name k =
    obind (encode_prologue addr (calculate_aligned_stack_size f) k (fresh ctx f exec)) (\<lambda>(n, ctx).
    obind (write_code addr (items_size items) (ir_code f) (addr + n) ctx) (\<lambda>(write_ptr, ctx).
    let actual_size = write_ptr - addr in
    if actual_size \<noteq> items_size items then Fault Aborted
    else if length (jx_registry ctx) \<ge> MAX_FUNCTION_COUNT then Ret ((0, 0), ctx)
    else Ret ((addr, actual_size), ctx\<lparr>jx_registry := jx_registry ctx @
      [\<lparr>cf_name = name, cf_addr = addr, cf_size = actual_size\<rparr>]\<rparr>)))"
proof -
  let ?n = "calculate_aligned_stack_size f" and ?c1 = "(reset_state ctx)\<lparr>jx_stack_base := if_stack_count f\<rparr>"
  have sel: "select_function f k = Ret (items, a)"
    by (simp add: select_function_def ps its items)
  have a1: "alloc_of ?c1 = initial_alloc (if_stack_count f)"
    by (simp add: reset_state_def alloc_of_def initial_alloc_def)
  have p1: "encode_prologue 0 ?n k ?c1 = Ret (items_size (map Op (frame_sel ?n @ ps)), set_alloc b ?c1)"
    using encode_prologue_refines [of ?c1 0 ?n k] by (simp add: a1 initial_alloc_ok ps del: items_size_ops map_append)
  have m1: "measure_code (ir_code f) (items_size (map Op (frame_sel ?n @ ps))) (set_alloc b ?c1) =
      Ret (items_size items, set_alloc a ?c1)"
    by (simp add: measure_refines its items)
  have reset: "reset_state ((set_alloc a ?c1)\<lparr>jx_exec := exec\<rparr>) = fresh ctx f exec"
    using select_function_ok(2) [OF sel] by (simp add: reset_state_def set_alloc_def fresh_def)
  have exec: "jx_exec (set_alloc a ?c1) = jx_exec ctx" by (simp add: reset_state_def)
  show ?thesis
    unfolding jit_compile_function_def Let_def
    using labels total alloc by (simp add: p1 m1 reset exec del: items_size_ops map_append)
qed

lemma select_functionE:
  assumes "select_function f k = Ret (items, a)"
  obtains ps b its where "select_params k 0 (initial_alloc (if_stack_count f)) = Ret (ps, b)"
    "select_all (ir_code f) b = Ret (its, a)" "items = map Op (frame_sel (calculate_aligned_stack_size f) @ ps) @ its"
  using assms by (auto simp: select_function_def outcome_simps)

lemma compile_passes:
  assumes labels: "if_label_count f < MAX_LABELS" and total: "length (ir_code f) = if_total_count f"
    and sel: "select_function f k = Ret (items, a)"
    and alloc: "arena_alloc_aligned sys (items_size items) STACK_ALIGNMENT (jx_exec ctx) = (addr, exec)" "addr \<noteq> 0"
  shows "jit_compile_function sys ctx f name k =
    (if length (jx_registry ctx) \<ge> MAX_FUNCTION_COUNT then Ret ((0, 0), place addr items (set_alloc a (fresh ctx f exec)))
     else Ret ((addr, items_size items), (place addr items (set_alloc a (fresh ctx f exec)))
       \<lparr>jx_registry := jx_registry ctx @ [\<lparr>cf_name = name, cf_addr = addr, cf_size = items_size items\<rparr>]\<rparr>))"
proof -
  let ?n = "calculate_aligned_stack_size f"
  obtain ps b its where ps: "select_params k 0 (initial_alloc (if_stack_count f)) = Ret (ps, b)"
      and its: "select_all (ir_code f) b = Ret (its, a)" and items: "items = map Op (frame_sel ?n @ ps) @ its"
    using sel by (rule select_functionE)
  let ?c2 = "fresh ctx f exec" and ?pro = "map Op (frame_sel ?n @ ps)"
  have p2: "encode_prologue addr ?n k ?c2 = Ret (items_size ?pro, place addr ?pro (set_alloc b ?c2))"
    using encode_prologue_refines [of ?c2 addr ?n k]
    by (simp add: fresh_alloc initial_alloc_ok ps put_def alloc(2) del: items_size_ops map_append)
  have w2: "write_code addr (items_size items) (ir_code f) (addr + items_size ?pro) (place addr ?pro (set_alloc b ?c2)) =
      Ret (addr + items_size items, place addr items (set_alloc a ?c2))"
    using write_refines [of "ir_code f" "place addr ?pro (set_alloc b ?c2)" its a addr "addr + items_size ?pro" "items_size items"] alloc(2)
    by (simp add: its items place_append add.assoc)
  have reg: "jx_registry ?c2 = jx_registry ctx" by (simp add: fresh_def reset_state_def)
  show ?thesis
    unfolding compile_second_pass [OF labels total ps its items alloc(1)]
    by (simp add: p2 w2 reg Let_def del: items_size_ops map_append place_alloc(2))
qed

theorem compile_refines:
  assumes "if_label_count f < MAX_LABELS" "length (ir_code f) = if_total_count f" "select_function f k = Ret (items, a)"
    and "arena_alloc_aligned sys (items_size items) STACK_ALIGNMENT (jx_exec ctx) = (addr, exec)" "addr \<noteq> 0"
    and room: "length (jx_registry ctx) < MAX_FUNCTION_COUNT"
  shows "jit_compile_function sys ctx f name k =
    Ret ((addr, items_size items), (place addr items (set_alloc a (fresh ctx f exec)))
      \<lparr>jx_registry := jx_registry ctx @ [\<lparr>cf_name = name, cf_addr = addr, cf_size = items_size items\<rparr>]\<rparr>)"
  using compile_passes [OF assms(1-5)] room by simp

section \<open>Ways to fail\<close>

text \<open>Selection fails on a virtual register or an argument out of range, and in no other way.\<close>

definition guarded :: "'a outcome \<Rightarrow> bool" where
  "guarded m \<longleftrightarrow> m = Fault OutOfBounds \<or> returns m"

named_theorems guards \<open>rules for guarded\<close>

lemma guarded_Ret [guards]: "guarded (Ret x)"
  by (simp add: guarded_def)

lemma guarded_Fault [guards]: "guarded (Fault OutOfBounds)"
  by (simp add: guarded_def)

lemma guarded_bind [guards]: "guarded m \<Longrightarrow> (\<And>x. guarded (k x)) \<Longrightarrow> guarded (obind m k)"
  by (cases m) (auto simp: guarded_def)

lemma guarded_if [guards]: "guarded x \<Longrightarrow> guarded y \<Longrightarrow> guarded (if c then x else y)"
  by simp

lemma guarded_prod [guards]: "(\<And>x y. guarded (f x y)) \<Longrightarrow> guarded (case p of (x, y) \<Rightarrow> f x y)"
  by (cases p) simp

lemma guarded_location [guards]: "guarded (al_location a v)"
  unfolding al_location_def by (intro guards)

lemma guarded_locations [guards]: "guarded (al_locations a vs)"
proof (induction vs arbitrary: a)
  case (Cons v vs)
  show ?case unfolding al_locations.simps by (intro guards Cons.IH)
qed (simp add: guards)

lemma guarded_select [guards]: "guarded (select i a)"
  unfolding select_def by (intro guards)

lemma guarded_select_all [guards]: "guarded (select_all is a)"
proof (induction "is" arbitrary: a)
  case (Cons i "is")
  show ?case unfolding select_all.simps by (intro guards Cons.IH)
qed (simp add: guards)

lemma guarded_select_params [guards]: "guarded (select_params n i a)"
proof (induction n arbitrary: i a)
  case (Suc n)
  show ?case unfolding select_params.simps by (intro guards Suc.IH)
qed (simp add: guards)

lemma guarded_select_function: "guarded (select_function f k)"
  unfolding select_function_def by (intro guards)

text \<open>The first pass fails as selection fails.\<close>

lemma compile_select_fault:
  assumes "if_label_count f < MAX_LABELS" "select_function f k = Fault e"
  shows "jit_compile_function sys ctx f name k = Fault e"
proof -
  let ?n = "calculate_aligned_stack_size f" and ?c = "(reset_state ctx)\<lparr>jx_stack_base := if_stack_count f\<rparr>"
  have a: "alloc_of ?c = initial_alloc (if_stack_count f)"
    by (simp add: reset_state_def alloc_of_def initial_alloc_def)
  have p: "encode_prologue 0 ?n k ?c = obind (select_params k 0 (initial_alloc (if_stack_count f))) (\<lambda>(ps, b).
      Ret (items_size (map Op (frame_sel ?n @ ps)), set_alloc b ?c))"
    using encode_prologue_refines [of ?c 0 ?n k] by (simp add: a initial_alloc_ok del: items_size_ops map_append)
  have "obind (encode_prologue 0 ?n k ?c) (\<lambda>(n, ctx). measure_code (ir_code f) n ctx) = Fault e"
    using assms(2) by (auto simp: p measure_refines select_function_def outcome_simps simp del: items_size_ops map_append)
  then have "obind (encode_prologue 0 ?n k ?c) (\<lambda>(n, ctx). obind (measure_code (ir_code f) n ctx) h) = Fault e" for h
    by (auto simp: outcome_simps)
  then show ?thesis
    using assms(1) by (simp add: jit_compile_function_def Let_def)
qed

text \<open>When the allocation fails, the second pass runs with \<open>code = NULL\<close>.\<close>

lemma write_null:
  assumes "select_all is (alloc_of ctx) = Ret (its, a)" "pos + items_size its \<le> n"
  shows "write_code 0 n is pos ctx = Fault NullDeref \<or> (\<exists>ctx'. write_code 0 n is pos ctx = Ret (pos + items_size its, ctx'))"
  using assms
proof (induction "is" arbitrary: pos ctx its)
  case (Cons i "is")
  obtain xs b ys where x: "select i (alloc_of ctx) = Ret (xs, b)" and y: "select_all is b = Ret (ys, a)" and its: "its = xs @ ys"
    using Cons.prems(1) by (auto simp: outcome_simps)
  show ?case
  proof (cases "items_size xs = 0")
    case True
    have "alloc_of (put pos xs (set_alloc b ctx)) = b" by (simp add: put_def)
    then show ?thesis
      using True Cons.IH [of "put pos xs (set_alloc b ctx)" ys pos] Cons.prems(2) y by (simp add: encode_inst_refines x its)
  qed (simp add: encode_inst_refines x)
qed auto

lemma compile_null:
  assumes labels: "if_label_count f < MAX_LABELS" and total: "length (ir_code f) = if_total_count f"
    and sel: "select_function f k = Ret (items, a)"
    and alloc: "arena_alloc_aligned sys (items_size items) STACK_ALIGNMENT (jx_exec ctx) = (0, exec)"
  shows "jit_compile_function sys ctx f name k = Fault NullDeref \<or>
    (\<exists>n ctx'. jit_compile_function sys ctx f name k = Ret ((0, n), ctx'))"
proof -
  obtain ps b its where ps: "select_params k 0 (initial_alloc (if_stack_count f)) = Ret (ps, b)"
      and its: "select_all (ir_code f) b = Ret (its, a)"
      and items: "items = map Op (frame_sel (calculate_aligned_stack_size f) @ ps) @ its"
    using sel by (rule select_functionE)
  let ?pro = "map Op (frame_sel (calculate_aligned_stack_size f) @ ps)" and ?c = "fresh ctx f exec"
  have p: "encode_prologue 0 (calculate_aligned_stack_size f) k ?c = Ret (items_size ?pro, set_alloc b ?c)"
    using encode_prologue_refines [of ?c 0] by (simp add: fresh_alloc initial_alloc_ok ps del: items_size_ops map_append)
  have size: "items_size items = items_size ?pro + items_size its" by (simp add: items)
  then have w: "write_code 0 (items_size items) (ir_code f) (items_size ?pro) (set_alloc b ?c) = Fault NullDeref \<or>
      (\<exists>ctx'. write_code 0 (items_size items) (ir_code f) (items_size ?pro) (set_alloc b ?c) =
        Ret (items_size ?pro + items_size its, ctx'))"
    using write_null [of "ir_code f" "set_alloc b ?c" its a "items_size ?pro"] its by simp
  show ?thesis
    unfolding compile_second_pass [OF labels total ps its items alloc] p size
    by (rule disjE [OF w [unfolded size]]; (elim exE)?; simp del: items_size_ops map_append split: if_split)
qed

text \<open>Both \<open>abort\<close>s of \<open>jit_compile_function\<close> are out of reach.\<close>

theorem compile_not_aborted:
  assumes total: "length (ir_code f) = if_total_count f"
  shows "jit_compile_function sys ctx f name k \<noteq> Fault Aborted"
proof (cases "if_label_count f < MAX_LABELS")
  case True
  show ?thesis
  proof (cases "select_function f k")
    case (Fault e)
    then show ?thesis
      using guarded_select_function [of f k] compile_select_fault [OF True Fault] by (simp add: guarded_def)
  next
    case Timeout
    then show ?thesis using guarded_select_function [of f k] by (simp add: guarded_def)
  next
    case (Ret x)
    obtain items a where x: "x = (items, a)" by force
    obtain addr exec where alloc: "arena_alloc_aligned sys (items_size items) STACK_ALIGNMENT (jx_exec ctx) = (addr, exec)"
      by (cases "arena_alloc_aligned sys (items_size items) STACK_ALIGNMENT (jx_exec ctx)")
    show ?thesis
    proof (cases "addr = 0")
      case False
      show ?thesis
        unfolding compile_passes [OF True total Ret [unfolded x] alloc False] by (simp split: if_split)
    next
      case zero: True
      show ?thesis
        using compile_null [OF True total Ret [unfolded x] alloc [unfolded zero], of name] by (elim disjE exE) simp_all
    qed
  qed
qed (simp add: jit_compile_function_def Let_def)

text \<open>What a result other than NULL says of the run.\<close>

lemma compile_cases:
  assumes run: "jit_compile_function sys ctx f name k = Ret ((addr, n), ctx')" and "addr \<noteq> 0"
    and total: "length (ir_code f) = if_total_count f"
  obtains items a exec where "if_label_count f < MAX_LABELS" "select_function f k = Ret (items, a)"
    "arena_alloc_aligned sys (items_size items) STACK_ALIGNMENT (jx_exec ctx) = (addr, exec)"
    "length (jx_registry ctx) < MAX_FUNCTION_COUNT"
proof -
  have labels: "if_label_count f < MAX_LABELS"
  proof (rule ccontr)
    assume "\<not> ?thesis"
    then have "jit_compile_function sys ctx f name k = Ret ((0, 0), reset_state ctx)" by (simp add: jit_compile_function_def Let_def)
    then show False using run assms(2) by simp
  qed
  obtain items a where sel: "select_function f k = Ret (items, a)"
    using compile_select_fault [OF labels] run guarded_select_function [of f k]
    by (cases "select_function f k") (auto simp: guarded_def)
  obtain addr' exec where alloc: "arena_alloc_aligned sys (items_size items) STACK_ALIGNMENT (jx_exec ctx) = (addr', exec)"
    by (cases "arena_alloc_aligned sys (items_size items) STACK_ALIGNMENT (jx_exec ctx)")
  have "addr' \<noteq> 0"
  proof
    assume "addr' = 0"
    then show False using compile_null [OF labels total sel, of sys ctx exec name] alloc run assms(2) by auto
  qed
  from compile_passes [OF labels total sel alloc this, of name] run assms(2)
  have "addr' = addr" "length (jx_registry ctx) < MAX_FUNCTION_COUNT" by (auto split: if_splits)
  then show thesis using that labels sel alloc by blast
qed

section \<open>Jumps\<close>

text \<open>The addresses of the displacement fields of the jumps to \<open>l\<close>.\<close>

fun jump_fields :: "nat \<Rightarrow> nat \<Rightarrow> item list \<Rightarrow> nat list" where
  "jump_fields l pc [] = []"
| "jump_fields l pc (i # is) =
     (case i of Jump c l' \<Rightarrow> if l' = l then [pc + item_size i - 4] else [] | _ \<Rightarrow> []) @ jump_fields l (pc + item_size i) is"

lemma length_item_code [simp]: "length (code (item_code lab calls pc i)) = item_size i"
  by (cases "(lab, calls, pc, i)" rule: item_code.cases) simp_all

lemma length_assemble [simp]: "length (code (assemble lab calls pc is)) = items_size is"
  by (induction "is" arbitrary: pc) simp_all

lemma assemble_append:
  "assemble lab calls pc (is @ js) = assemble lab calls pc is @ assemble lab calls (pc + items_size is) js"
  by (induction "is" arbitrary: pc) (simp_all add: add.assoc)

lemma write_bytes_commute:
  "a + length as \<le> b \<Longrightarrow> write_bytes a as (write_bytes b bs m) = write_bytes b bs (write_bytes a as m)"
  by (rule ext) (auto simp: write_bytes_def)

lemma write_bytes_overlay:
  "length z = length d \<Longrightarrow> write_bytes (a + length xs) d (write_bytes a (xs @ z) m) = write_bytes a (xs @ d) m"
  by (rule ext) (auto simp: write_bytes_def nth_append)

lemma label_addresses_append:
  "label_addresses pc (is @ js) = label_addresses (pc + items_size is) js ++ label_addresses pc is"
  by (induction "is" arbitrary: pc) (auto simp: add.assoc split: item.split)

lemma jump_fields_append: "jump_fields l pc (is @ js) = jump_fields l pc is @ jump_fields l (pc + items_size is) js"
  by (induction "is" arbitrary: pc) (simp_all add: add.assoc)

lemma dom_label_addresses: "dom (label_addresses pc is) = {l. Mark l \<in> set is}"
  by (induction "is" arbitrary: pc) (auto split: item.split)

definition patch_all :: "nat list \<Rightarrow> nat \<Rightarrow> (nat \<Rightarrow> u8) \<Rightarrow> nat \<Rightarrow> u8" where
  "patch_all locs t m = foldr (\<lambda>loc m. patch_jump_offset loc t m) locs m"

text \<open>The displacement field is the last four bytes of a jump.\<close>

definition jump_head :: "x86_condition option \<Rightarrow> u8 list" where
  "jump_head c = (case c of None \<Rightarrow> [0xE9] | Some c \<Rightarrow> [0x0F, 0x80 OR cc_code c])"

lemma jump_code:
  "code (item_code lab calls pc (Jump c l)) = jump_head c @ le32 (displacement lab l (pc + item_size (Jump c l)))"
  "length (jump_head c) = item_size (Jump c l) - 4"
  by (cases c; simp add: jump_head_def)+

lemma jump_size: "item_size (Jump c l) = length (jump_head c) + 4"
  by (cases c) (simp_all add: jump_head_def)

lemma item_code_label:
  "(\<nexists>c. i = Jump c l) \<Longrightarrow> item_code (lab(l \<mapsto> t)) calls pc i = item_code lab calls pc i"
  by (cases "(lab, calls, pc, i)" rule: item_code.cases) (auto simp: displacement_def)

theorem patching:
  assumes "lab l = None"
  shows "patch_all (jump_fields l pc is) t (write_bytes pc (code (assemble lab calls pc is)) m) =
    write_bytes pc (code (assemble (lab(l \<mapsto> t)) calls pc is)) m"
proof (induction "is" arbitrary: pc m)
  case (Cons i "is")
  let ?lab' = "lab(l \<mapsto> t)" and ?next = "pc + item_size i"
  have split: "write_bytes pc (code (assemble lab calls pc (i # is))) m =
      write_bytes ?next (code (assemble lab calls ?next is)) (write_bytes pc (code (item_code lab calls pc i)) m)" for lab m
    using write_bytes_append [of pc "code (item_code lab calls pc i)"] by simp
  show ?case
  proof (cases "\<exists>c. i = Jump c l")
    case False
    then have "jump_fields l pc (i # is) = jump_fields l ?next is"
      by (auto split: item.split)
    then show ?thesis
      using item_code_label [OF False] by (simp only: split Cons.IH)
  next
    case True
    then obtain c where i: "i = Jump c l" by blast
    let ?z = "le32 (displacement lab l ?next)" and ?d = "le32 (of_int (int t - int ?next))"
    have f: "pc + item_size i - 4 = pc + length (jump_head c)" and e: "?next = pc + length (jump_head c) + 4"
      using jump_code(2) [of c l] by (cases c; simp add: i jump_head_def)+
    have "patch_all (jump_fields l pc (i # is)) t (write_bytes pc (code (assemble lab calls pc (i # is))) m) =
        patch_jump_offset (pc + length (jump_head c)) t (write_bytes ?next (code (assemble ?lab' calls ?next is))
          (write_bytes pc (jump_head c @ ?z) m))"
      unfolding split Cons.IH [symmetric] by (simp add: i f [unfolded i] patch_all_def jump_code del: item_size.simps item_code.simps)
    also have "\<dots> = write_bytes ?next (code (assemble ?lab' calls ?next is))
        (write_bytes (pc + length (jump_head c)) ?d (write_bytes pc (jump_head c @ ?z) m))"
      unfolding patch_jump_offset_def e by (subst write_bytes_commute) simp_all
    also have "\<dots> = write_bytes ?next (code (assemble ?lab' calls ?next is)) (write_bytes pc (jump_head c @ ?d) m)"
      by (simp add: write_bytes_overlay)
    also have "\<dots> = write_bytes pc (code (assemble ?lab' calls pc (i # is))) m"
      unfolding split by (simp add: i jump_code displacement_def del: item_size.simps item_code.simps)
    finally show ?thesis .
  qed
qed (simp add: patch_all_def)

section \<open>The second pass\<close>

text \<open>What the context knows of labels and pending jumps after placing the items \<open>is\<close> at \<open>pc\<close>.\<close>

definition pending_of :: "nat \<Rightarrow> patch list \<Rightarrow> nat list" where
  "pending_of l ps = rev (map pt_loc (filter (\<lambda>p. pt_label p = l) ps))"

definition tracks :: "nat \<Rightarrow> item list \<Rightarrow> jit \<Rightarrow> bool" where
  "tracks pc is ctx \<longleftrightarrow>
     (\<forall>l. label_addresses pc is l = None \<longrightarrow>
        \<not> jx_label_defined ctx l \<and> pending_of l (jx_patches ctx) = jump_fields l pc is) \<and>
     (\<forall>l a. label_addresses pc is l = Some a \<longrightarrow> jx_label_defined ctx l \<and> jx_label_offset ctx l = a)"

lemma tracksD:
  "tracks pc is ctx \<Longrightarrow> label_addresses pc is l = None \<Longrightarrow> \<not> jx_label_defined ctx l"
  "tracks pc is ctx \<Longrightarrow> label_addresses pc is l = None \<Longrightarrow> pending_of l (jx_patches ctx) = jump_fields l pc is"
  "tracks pc is ctx \<Longrightarrow> label_addresses pc is l = Some a \<Longrightarrow> jx_label_defined ctx l \<and> jx_label_offset ctx l = a"
  by (simp_all add: tracks_def)

lemma apply_patches_eq:
  "apply_patches l t ps m = (filter (\<lambda>p. pt_label p \<noteq> l) ps, patch_all (pending_of l ps) t m)"
proof (induction ps arbitrary: m)
  case (Cons p ps)
  have "patch_all (pending_of l (p # ps)) t m = patch_all (pending_of l ps) t (if pt_label p = l then patch_jump_offset (pt_loc p) t m else m)"
    by (simp add: patch_all_def pending_of_def)
  then show ?case by (auto simp: Cons.IH split: prod.split)
qed (simp add: patch_all_def pending_of_def)

lemma pending_other: "l' \<noteq> l \<Longrightarrow> pending_of l' (filter (\<lambda>p. pt_label p \<noteq> l) ps) = pending_of l' ps"
  by (induction ps) (auto simp: pending_of_def)

lemma emit_jump_place:
  assumes "buf \<noteq> 0"
  shows "snd (emit_jump buf l ctx (jump_opcode c)) =
    (if l < MAX_LABELS \<and> jx_label_defined ctx l
     then place_bytes buf (jump_head c @ le32 (of_int (int (jx_label_offset ctx l) - int (buf + item_size (Jump c l))))) ctx
     else place_bytes buf (jump_head c @ le32 0)
       (ctx\<lparr>jx_patches := \<lparr>pt_label = l, pt_loc = buf + length (jump_head c)\<rparr> # jx_patches ctx\<rparr>))"
proof -
  have o: "jump_opcode (Some c) \<noteq> opcode_byte OP_JMP_REL32" for c
    by (cases c) (simp_all add: jump_opcode_def)
  have h: "(if jump_opcode c = opcode_byte OP_JMP_REL32 then emit_u8 (opcode_byte OP_JMP_REL32) em
      else emit_u8 (jump_opcode c) (emit_u8 (opcode_byte OP_PREFIX_0F) em)) = emit_list (jump_head c) em" for em
    using o by (cases c) (simp_all add: jump_opcode_def jump_head_def)
  show ?thesis
    unfolding emit_jump_def Let_def h emit_u32_list
    using assms
    by (simp add: jump_size em_start_def emit_list_write place_bytes_def write_bytes_append add.assoc del: emit_list_simps(2) item_size.simps)
qed

lemma tracks_cong:
  assumes "tracks pc is ctx" "jx_patches ctx' = jx_patches ctx" "jx_label_defined ctx' = jx_label_defined ctx"
    "jx_label_offset ctx' = jx_label_offset ctx"
    "label_addresses pc js = label_addresses pc is"
    "\<And>l. label_addresses pc is l = None \<Longrightarrow> jump_fields l pc js = jump_fields l pc is"
  shows "tracks pc js ctx'"
  using assms by (simp add: tracks_def)

text \<open>Every label is placed once, below the limit, and no jump names a label beyond it.\<close>

definition items_ok :: "item list \<Rightarrow> bool" where
  "items_ok is \<longleftrightarrow> distinct (concat (map (\<lambda>i. case i of Mark l \<Rightarrow> [l] | _ \<Rightarrow> []) is)) \<and>
     (\<forall>i\<in>set is. case i of Jump c l \<Rightarrow> l < MAX_LABELS | _ \<Rightarrow> True)"

lemma items_ok_snoc:
  "items_ok (is @ [i]) \<Longrightarrow> items_ok is"
  "items_ok (is @ [Jump c l]) \<Longrightarrow> l < MAX_LABELS"
  "items_ok (is @ [Mark l]) \<Longrightarrow> label_addresses pc is l = None"
proof -
  show "items_ok (is @ [i]) \<Longrightarrow> items_ok is" "items_ok (is @ [Jump c l]) \<Longrightarrow> l < MAX_LABELS"
    by (auto simp: items_ok_def)
  assume "items_ok (is @ [Mark l])"
  then have "Mark l \<notin> set is" by (force simp: items_ok_def)
  then show "label_addresses pc is l = None"
    using dom_label_addresses [of pc "is"] by blast
qed

lemma place_image_step:
  fixes pc "is" i ctx
  defines "lab \<equiv> label_addresses pc is" and "end_pc \<equiv> pc + items_size is"
  assumes ok: "items_ok (is @ [i])" and pc: "0 < pc"
    and mem: "jx_mem ctx = write_bytes pc (code (assemble lab (\<lambda>_. placeholder) pc is)) m"
    and tr: "tracks pc is ctx"
  shows "jx_mem (place_item end_pc i ctx) =
      write_bytes pc (code (assemble (label_addresses pc (is @ [i])) (\<lambda>_. placeholder) pc (is @ [i]))) m \<and>
    tracks pc (is @ [i]) (place_item end_pc i ctx)"
proof -
  have image: "write_bytes end_pc (code (item_code lab (\<lambda>_. placeholder) end_pc i))
        (write_bytes pc (code (assemble lab (\<lambda>_. placeholder) pc is)) m) =
      write_bytes pc (code (assemble lab (\<lambda>_. placeholder) pc (is @ [i]))) m" for lab
    using write_bytes_append [of pc "code (assemble lab (\<lambda>_. placeholder) pc is)"]
    by (simp add: assemble_append end_pc_def)
  have addr: "label_addresses pc (is @ [i]) = label_addresses end_pc [i] ++ lab"
    by (simp add: label_addresses_append lab_def end_pc_def)
  have fields: "jump_fields l pc (is @ [i]) = jump_fields l pc is @ jump_fields l end_pc [i]" for l
    by (simp add: jump_fields_append end_pc_def)
  show ?thesis
  proof (cases i)
    case (Op x)
    show ?thesis
      using image [of lab] tr
      by (auto simp: Op addr [unfolded Op] mem place_bytes_def fields [unfolded Op] lab_def intro: tracks_cong)
  next
    case (CallTo f)
    show ?thesis
      using image [of lab] tr
      by (auto simp: CallTo addr [unfolded CallTo] mem place_bytes_def place_site_def fields [unfolded CallTo] lab_def
          simp del: asm.simps intro: tracks_cong)
  next
    case (Jump c l)
    have lab': "label_addresses pc (is @ [i]) = lab" by (simp add: addr [unfolded Jump] Jump)
    show ?thesis
    proof (cases "lab l")
      case (Some a)
      then have d: "jx_label_defined ctx l" "jx_label_offset ctx l = a"
        using tracksD(3) [OF tr] by (simp_all add: lab_def)
      have p: "place_item end_pc i ctx = place_bytes end_pc (code (item_code lab (\<lambda>_. placeholder) end_pc i)) ctx"
        using pc items_ok_snoc(2) ok by (simp add: Jump emit_jump_place end_pc_def d jump_code displacement_def Some del: item_size.simps)
      have "tracks pc (is @ [Jump c l]) (place_item end_pc i ctx)"
        unfolding p by (rule tracks_cong [OF tr])
          (use lab' Some in \<open>auto simp: place_bytes_def Jump fields [unfolded Jump] lab_def\<close>)
      then show ?thesis
        using image [of lab] lab' by (simp add: p [unfolded Jump] mem place_bytes_def Jump del: place_item.simps)
    next
      case None
      then have d: "\<not> jx_label_defined ctx l" and f: "pending_of l (jx_patches ctx) = jump_fields l pc is"
        using tracksD(1,2) [OF tr] by (simp_all add: lab_def)
      let ?p = "\<lparr>pt_label = l, pt_loc = end_pc + length (jump_head c)\<rparr>"
      let ?ctx = "ctx\<lparr>jx_patches := ?p # jx_patches ctx\<rparr>"
      have p: "place_item end_pc i ctx = place_bytes end_pc (code (item_code lab (\<lambda>_. placeholder) end_pc i)) ?ctx"
        using pc by (simp add: Jump emit_jump_place end_pc_def d jump_code displacement_def None del: item_size.simps)
      have "tracks pc (is @ [Jump c l]) ?ctx"
        using tr lab' f d None
        by (auto simp: tracks_def jump_size Jump fields [unfolded Jump] lab_def pending_of_def)
      then have "tracks pc (is @ [i]) (place_item end_pc i ctx)"
        unfolding p by (rule tracks_cong) (simp_all add: place_bytes_def Jump)
      then show ?thesis
        using image [of lab] lab' by (simp add: p [unfolded Jump] mem place_bytes_def Jump del: place_item.simps)
    qed
  next
    case (Mark l)
    have new: "lab l = None" using ok items_ok_snoc(3) by (simp add: Mark lab_def)
    have lab': "label_addresses pc (is @ [Mark l]) = lab(l \<mapsto> end_pc)"
      using new by (auto simp: addr [unfolded Mark] map_add_def fun_eq_iff split: option.split)
    have pend: "pending_of l (jx_patches ctx) = jump_fields l pc is"
      using tracksD(2) [OF tr] new by (simp add: lab_def)
    have "tracks pc (is @ [Mark l]) (place_label end_pc l ctx)"
      using tr by (auto simp: tracks_def lab' place_label_def apply_patches_eq pending_other fields [unfolded Mark] lab_def)
    moreover have "jx_mem (place_label end_pc l ctx) = write_bytes pc (code (assemble (lab(l \<mapsto> end_pc)) (\<lambda>_. placeholder) pc is)) m"
      using patching [of lab l pc "is" end_pc "\<lambda>_. placeholder" m] new
      by (simp add: place_label_def apply_patches_eq pend mem)
    ultimately show ?thesis
      by (simp add: Mark lab' assemble_append)
  qed
qed

theorem place_image:
  assumes "items_ok is" "0 < pc" "\<forall>l. \<not> jx_label_defined ctx l" "jx_patches ctx = []"
  shows "jx_mem (place pc is ctx) =
      write_bytes pc (code (assemble (label_addresses pc is) (\<lambda>_. placeholder) pc is)) (jx_mem ctx) \<and>
    tracks pc is (place pc is ctx)"
  using assms(1)
proof (induction "is" rule: rev_induct)
  case Nil
  then show ?case using assms(3,4) by (simp add: tracks_def pending_of_def)
next
  case (snoc i "is")
  note IH = snoc.IH [OF items_ok_snoc(1) [OF snoc.prems]]
  show ?case
    using place_image_step [OF snoc.prems assms(2) IH [THEN conjunct1] IH [THEN conjunct2]]
    by (simp add: place_append)
qed

end
