(* ===== verification/CodeShape.thy ===== *)
theory CodeShape
  imports CodeImage IrGenFacts
begin

text \<open>
  What the selected code of a function looks like: its labels, jump targets and calls are those of the
  intermediate code, and every instruction has an encoding the processor decodes.
\<close>

section \<open>Labels, jumps and calls of symbolic assembly\<close>

definition marks :: "item list \<Rightarrow> nat list" where
  "marks is = concat (map (\<lambda>i. case i of Mark l \<Rightarrow> [l] | _ \<Rightarrow> []) is)"

definition jumps :: "item list \<Rightarrow> nat list" where
  "jumps is = concat (map (\<lambda>i. case i of Jump c l \<Rightarrow> [l] | _ \<Rightarrow> []) is)"

definition callees :: "item list \<Rightarrow> string list" where
  "callees is = concat (map (\<lambda>i. case i of CallTo f \<Rightarrow> [f] | _ \<Rightarrow> []) is)"

definition ops :: "item list \<Rightarrow> x86 list" where
  "ops is = concat (map (\<lambda>i. case i of Op x \<Rightarrow> [x] | _ \<Rightarrow> []) is)"

named_theorems shapes \<open>the parts of symbolic assembly\<close>

lemma parts_simps [shapes]:
  "marks [] = []" "jumps [] = []" "callees [] = []" "ops [] = []"
  "marks (is @ js) = marks is @ marks js" "jumps (is @ js) = jumps is @ jumps js"
  "callees (is @ js) = callees is @ callees js" "ops (is @ js) = ops is @ ops js"
  "marks (Mark l # is) = l # marks is" "marks (Jump c l # is) = marks is" "marks (CallTo f # is) = marks is" "marks (Op x # is) = marks is"
  "jumps (Mark l # is) = jumps is" "jumps (Jump c l # is) = l # jumps is" "jumps (CallTo f # is) = jumps is" "jumps (Op x # is) = jumps is"
  "callees (Mark l # is) = callees is" "callees (Jump c l # is) = callees is" "callees (CallTo f # is) = f # callees is"
  "callees (Op x # is) = callees is"
  "ops (Mark l # is) = ops is" "ops (Jump c l # is) = ops is" "ops (CallTo f # is) = ops is" "ops (Op x # is) = x # ops is"
  by (simp_all add: marks_def jumps_def callees_def ops_def)

lemma parts_ops [shapes]: "marks (map Op xs) = []" "jumps (map Op xs) = []" "callees (map Op xs) = []" "ops (map Op xs) = xs"
  by (induction xs) (simp_all add: shapes)

lemma parts_ops_comp [shapes]:
  "marks (map (Op \<circ> f) ys) = []" "jumps (map (Op \<circ> f) ys) = []" "callees (map (Op \<circ> f) ys) = []"
  "ops (map (Op \<circ> f) ys) = map f ys"
  using parts_ops [of "map f ys"] by simp_all

section \<open>Instructions that can be encoded\<close>

named_theorems encodes \<open>selected instructions have an encoding\<close>

lemma base_ok [encodes]: "low3 REG_RBP \<noteq> 4" "(5 :: u8) \<noteq> 4"
  by (simp_all add: low3_def)

lemma encodable_load [encodes]: "list_all encodable (load_sel d l)"
  by (cases l) (simp_all add: load_sel_def low3_def)

lemma encodable_store [encodes]: "list_all encodable (store_sel l s)"
  by (cases l) (simp_all add: store_sel_def low3_def)

lemma encodable_operand [encodes]: "list_all encodable (operand_sel t l)"
  by (cases l) (simp_all add: operand_sel_def encodes)

lemma encodable_sized [encodes]: "encodable (load_sized d x n)" "encodable (store_sized x s n)"
  by (simp_all add: load_sized_def store_sized_def low3_def)

lemma encodable_binary [encodes]: "list_all encodable (select_binary op a b)"
  by (cases "(op, a, b)" rule: select_binary.cases) (simp_all add: binary_sel_def encodes)

lemma encodable_unary [encodes]: "list_all encodable (select_unary op)"
  by (cases op) simp_all

lemma encodable_push [encodes]: "list_all encodable (push_stack_sel l)" "list_all encodable (push_reg_sel l)"
  by (cases l; simp add: push_stack_sel_def push_reg_sel_def encodes)+

lemma encodable_concat [encodes]: "list_all encodable (concat (map push_stack_sel ls))" "list_all encodable (concat (map push_reg_sel ls))"
  by (induction ls) (simp_all add: encodes)

lemma encodable_pops [encodes]: "list_all encodable (map Pop rs)"
  by (induction rs) simp_all

lemma encodable_epilogue [encodes]: "list_all encodable epilogue"
  by (simp add: epilogue_def low3_def)

lemma encodable_call [encodes]: "list_all encodable (ops (call_sel f n ss rs d))"
  by (simp add: call_sel_def Let_def shapes encodes)

lemma encodable_params [encodes]: "list_all encodable (param_sel i l)"
  by (cases l) (simp_all add: param_sel_def encodes low3_def Let_def)

lemma encodable_frame [encodes]: "list_all encodable (frame_sel n)"
  by (simp add: frame_sel_def)

section \<open>Selection\<close>

lemma call_sel_parts [shapes]:
  "marks (call_sel f n ss rs d) = []" "jumps (call_sel f n ss rs d) = []" "callees (call_sel f n ss rs d) = [f]"
  by (simp_all add: call_sel_def Let_def shapes)

definition shape_of :: "instr \<Rightarrow> item list \<Rightarrow> bool" where
  "shape_of i is \<longleftrightarrow>
     list_all encodable (ops is) \<and>
     marks is = (if in_op i = IR_LABEL \<and> in_label i < MAX_LABELS then [in_label i] else []) \<and>
     jumps is = (if is_jump (in_op i) then [in_label i] else []) \<and>
     callees is = (if in_op i = IR_CALL then [in_func i] else [])"

lemma select_shape:
  assumes "select i a = Ret (is, b)"
  shows "shape_of i is"
proof -
  have many: "shape_of i is"
    if "obind m (\<lambda>(ls, a). Ret (map Op (f ls), a)) = Ret (is, b)" "\<And>ls. list_all encodable (f ls)"
      "\<not> is_jump (in_op i) \<and> in_op i \<noteq> IR_LABEL \<and> in_op i \<noteq> IR_CALL" for m :: "('b \<times> alloc) outcome" and f
    using that by (auto simp: outcome_simps shape_of_def shapes)
  have move: "shape_of i is"
    if "obind m (\<lambda>(ls, a). Ret (if c ls then [] else map Op (f ls), a)) = Ret (is, b)" "\<And>ls. list_all encodable (f ls)"
      "\<not> is_jump (in_op i) \<and> in_op i \<noteq> IR_LABEL \<and> in_op i \<noteq> IR_CALL" for m :: "('b \<times> alloc) outcome" and c f
    using that by (auto simp: outcome_simps shape_of_def shapes)
  have call: "shape_of i is"
    if "obind m (\<lambda>(d, a). obind (m1 a) (\<lambda>(ss, a). obind (m2 a) (\<lambda>(rs, a). Ret (call_sel (in_func i) (n a) ss rs d, h a)))) = Ret (is, b)"
      "in_op i = IR_CALL" for m :: "(location \<times> alloc) outcome" and m1 m2 n h
    using that by (auto simp: outcome_simps shape_of_def shapes encodes is_jump_def)
  have branch: "shape_of i is"
    if "obind m (\<lambda>(s, a). Ret (map Op (f s) @ [Jump c (in_label i)], a)) = Ret (is, b)" "\<And>s. list_all encodable (f s)"
      "is_jump (in_op i)" for m :: "('b \<times> alloc) outcome" and c f
    using that by (auto simp: outcome_simps shape_of_def shapes is_jump_def)
  show ?thesis
    using assms unfolding select_def
    by (simp only: split: if_splits)
      ((rule many move branch call, assumption, simp add: encodes, force simp: is_binary_def is_jump_def)
       | (rule call, assumption, assumption)
       | (rule branch, assumption, simp add: encodes, (cases "in_op i"; simp add: is_binary_def is_jump_def))
       | (force simp: shape_of_def shapes is_jump_def))+
qed

lemma encodable_ops_code:
  "list_all encodable (ops is) \<Longrightarrow> list_all encodable (assemble lab calls pc is)"
proof (induction "is" arbitrary: pc)
  case (Cons i "is")
  then show ?case
    by (cases "(lab, calls, pc, i)" rule: item_code.cases) (simp_all add: shapes)
qed simp

lemma select_all_shape:
  assumes "select_all is a = Ret (its, b)" and "\<forall>i\<in>set is. in_op i = IR_LABEL \<longrightarrow> in_label i < MAX_LABELS"
  shows "list_all encodable (ops its) \<and> marks its = labels is \<and> set (jumps its) = targets is \<and>
    callees its = map in_func (filter (\<lambda>i. in_op i = IR_CALL) is)"
  using assms
proof (induction "is" arbitrary: a its)
  case (Cons i "is")
  obtain xs c ys where x: "select i a = Ret (xs, c)" and y: "select_all is c = Ret (ys, b)" and its: "its = xs @ ys"
    using Cons.prems(1) by (auto simp: outcome_simps)
  note r = Cons.IH [OF y] and s = select_shape [OF x, unfolded shape_of_def]
  have "targets (i # is) = (if is_jump (in_op i) then {in_label i} else {}) \<union> targets is"
    by (auto simp: targets_def)
  then show ?case
    using r s Cons.prems(2) by (auto simp: its shapes labels_def)
qed (simp_all add: shapes)

lemma items_okI: "distinct (marks is) \<Longrightarrow> \<forall>l\<in>set (jumps is). l < MAX_LABELS \<Longrightarrow> items_ok is"
  unfolding items_ok_def marks_def jumps_def by (fastforce split: item.splits)

lemma select_params_encodable: "select_params n i a = Ret (ps, b) \<Longrightarrow> list_all encodable ps"
  by (induction n arbitrary: i a ps) (auto simp: outcome_simps encodes simp del: One_nat_def)

section \<open>The code of a function\<close>

text \<open>What the code generator expects of a function, all of it guaranteed by \<open>ir_gen\<close>.\<close>

definition labels_ok :: "ir_function \<Rightarrow> bool" where
  "labels_ok f \<longleftrightarrow> distinct (labels (ir_code f)) \<and> targets (ir_code f) \<subseteq> set (labels (ir_code f)) \<and>
     (\<forall>l\<in>set (labels (ir_code f)). l < if_label_count f)"

lemma select_function_shape:
  assumes sel: "select_function f k = Ret (items, a)" and ok: "labels_ok f" "if_label_count f < MAX_LABELS"
  shows "items_ok items" "list_all encodable (ops items)" "marks items = labels (ir_code f)"
    "set (jumps items) = targets (ir_code f)" "callees items = map in_func (filter (\<lambda>i. in_op i = IR_CALL) (ir_code f))"
proof -
  obtain ps b its where ps: "select_params k 0 (initial_alloc (if_stack_count f)) = Ret (ps, b)"
      and its: "select_all (ir_code f) b = Ret (its, a)"
      and items: "items = map Op (frame_sel (calculate_aligned_stack_size f) @ ps) @ its"
    using sel by (auto simp: select_function_def outcome_simps)
  have "in_label i < MAX_LABELS" if "i \<in> set (ir_code f)" "in_op i = IR_LABEL" for i
    using ok that by (force simp: labels_ok_def labels_def)
  then have s: "list_all encodable (ops its) \<and> marks its = labels (ir_code f) \<and> set (jumps its) = targets (ir_code f) \<and>
      callees its = map in_func (filter (\<lambda>i. in_op i = IR_CALL) (ir_code f))"
    using select_all_shape [OF its] by blast
  show "list_all encodable (ops items)" "marks items = labels (ir_code f)" "set (jumps items) = targets (ir_code f)"
    "callees items = map in_func (filter (\<lambda>i. in_op i = IR_CALL) (ir_code f))"
    using s select_params_encodable [OF ps] by (simp_all add: items shapes encodes)
  then show "items_ok items"
    using ok by (intro items_okI) (fastforce simp: labels_ok_def)+
qed

text \<open>The label map is total on the jumps, so no displacement is left at 0 by default.\<close>

lemma jumps_resolved:
  assumes "select_function f k = Ret (items, a)" "labels_ok f" "if_label_count f < MAX_LABELS" "l \<in> set (jumps items)"
  shows "label_addresses pc items l \<noteq> None"
proof -
  have "l \<in> set (marks items)"
    using select_function_shape(3,4) [OF assms(1-3)] assms(2,4) by (auto simp: labels_ok_def)
  then have "Mark l \<in> set items" by (auto simp: marks_def split: item.splits)
  then show ?thesis using dom_label_addresses [of pc items] by blast
qed

end
