(* ===== verification/CodeSize.thy ===== *)
theory CodeSize
  imports CodeShape
begin

text \<open>
  How big code can get. No instruction of the intermediate code takes more than a kilobyte, so the
  code of a function stays below \<open>2 ^ 27\<close> bytes: the sizes passed to the arena do not overflow, and the
  32-bit displacement of every jump is the signed distance to its label.
\<close>

section \<open>Instructions\<close>

lemma asm_length: "length (asm i) \<le> 11"
  by (cases i; simp only: asm.simps rex_prefix_def length_append list.size length_le if_distrib [of length]; simp)

lemma code_length: "length (code xs) \<le> 11 * length xs"
proof (induction xs)
  case (Cons x xs)
  then show ?case using asm_length [of x] by simp
qed simp

lemma items_size_Op: "length xs \<le> n \<Longrightarrow> items_size (map Op xs) \<le> 11 * n"
  using code_length [of xs] by (auto intro: order_trans)

section \<open>Selection\<close>

lemma load_sel_length: "length (load_sel d l) \<le> 1"
  by (cases l) (simp_all add: load_sel_def)

lemma store_sel_length: "length (store_sel l s) \<le> 1"
  by (cases l) (simp_all add: store_sel_def)

lemma operand_sel_length: "length (operand_sel t l) \<le> 1"
  by (cases l) (simp_all add: operand_sel_def load_sel_def)

lemma binary_sel_length: "length (binary_sel t f a b) \<le> 2 + length (f (operand_reg t b))"
  using load_sel_length [of REG_RAX a] operand_sel_length [of t b] by (simp add: binary_sel_def)

lemma select_binary_length: "length (select_binary op a b) \<le> 5"
  using load_sel_length [of REG_RAX a] load_sel_length [of REG_RCX b] operand_sel_length [of REG_RCX b]
  by (cases "(op, a, b)" rule: select_binary.cases)
    (simp_all add: order_trans [OF binary_sel_length])

lemma select_unary_length: "length (select_unary op) \<le> 3"
  by (cases op) simp_all

lemma push_sel_length: "length (concat (map push_stack_sel ls)) \<le> 2 * length ls" "length (concat (map push_reg_sel ls)) \<le> 2 * length ls"
proof -
  have s: "length (push_stack_sel l) \<le> 2" for l
    using load_sel_length [of REG_RAX l] by (simp add: push_stack_sel_def)
  then have r: "length (push_reg_sel l) \<le> 2" for l
    by (cases l) (simp_all add: push_reg_sel_def)
  show "length (concat (map push_stack_sel ls)) \<le> 2 * length ls"
  proof (induction ls)
    case (Cons l ls)
    then show ?case using s [of l] by simp
  qed simp
  show "length (concat (map push_reg_sel ls)) \<le> 2 * length ls"
  proof (induction ls)
    case (Cons l ls)
    then show ?case using r [of l] by simp
  qed simp
qed

lemma call_sel_size:
  assumes "length ss + length rs \<le> 32"
  shows "items_size (call_sel f n ss rs d) \<le> 1024"
proof -
  let ?pre = "(if call_pad (n - 6) \<noteq> 0 then [AluImm32 A_Sub REG_RSP (of_nat (call_pad (n - 6)))] else []) @
      concat (map push_stack_sel ss) @ concat (map push_reg_sel rs) @ map Pop (take n (take 6 arg_registers))"
  let ?post = "[CallR REG_RAX] @ (if n - 6 > 0 then [AluImm32 A_Add REG_RSP (of_nat (8 * (n - 6) + call_pad (n - 6)))] else []) @
      store_sel d REG_RAX"
  have "length ?pre \<le> 71"
    using push_sel_length(1) [of ss] push_sel_length(2) [of rs] assms by (simp add: min_def)
  moreover have "length ?post \<le> 3" using store_sel_length [of d REG_RAX] by simp
  moreover have "items_size (call_sel f n ss rs d) = length (code ?pre) + 10 + length (code ?post)"
    unfolding call_sel_def Let_def items_size_simps items_size_ops item_size.simps by (simp only: add.assoc)
  ultimately show ?thesis
    using code_length [of ?pre] code_length [of ?post] by linarith
qed

lemma al_locations_length: "al_locations a vs = Ret (ls, b) \<Longrightarrow> length ls = length vs \<and> al_pending b = al_pending a"
  by (induction vs arbitrary: a ls) (auto simp: outcome_simps dest: al_location_pending)

text \<open>A kilobyte for every instruction.\<close>

lemma select_size:
  assumes sel: "select i a = Ret (is, b)" and room: "length (al_pending a) \<le> MAX_PARAMS_PER_FUNCTION"
  shows "items_size is \<le> 1024 \<and> length (al_pending b) \<le> MAX_PARAMS_PER_FUNCTION"
proof -
  let ?P = "\<lambda>is b. items_size is \<le> 1024 \<and> length (al_pending b) \<le> MAX_PARAMS_PER_FUNCTION"
  have ops: "items_size (map Op xs) \<le> 1024" if "length xs \<le> 16" for xs
    using items_size_Op [OF that] by simp
  have many: "?P is b" if "obind (al_locations a vs) (\<lambda>(ls, a). Ret (map Op (f ls), a)) = Ret (is, b)" "\<And>ls. length (f ls) \<le> 16" for vs f
    using that room by (auto simp: outcome_simps dest!: al_locations_length intro!: ops simp del: items_size_ops)
  have one: "?P is b" if "obind (al_location a v) (\<lambda>(l, a). Ret (map Op (f l), a)) = Ret (is, b)" "\<And>ls. length (f ls) \<le> 16" for v f
    using that room by (auto simp: outcome_simps dest!: al_location_pending intro!: ops simp del: items_size_ops)
  have move: "?P is b"
    if "obind (al_locations a vs) (\<lambda>(ls, a). Ret (if c ls then [] else map Op (f ls), a)) = Ret (is, b)" "\<And>ls. length (f ls) \<le> 16" for vs c f
    using that room by (auto simp: outcome_simps dest!: al_locations_length intro!: ops simp del: items_size_ops)
  have branch: "?P is b"
    if "obind (al_location a v) (\<lambda>(s, a). Ret (map Op (f s) @ [Jump (Some c) l], a)) = Ret (is, b)" "\<And>s. length (f s) \<le> 2" for v c l f
    using that room
    by (auto simp: outcome_simps dest!: al_location_pending intro!: order_trans [OF items_size_Op [of _ 2]] simp del: items_size_ops)
  have call: "?P is b"
    if "obind (al_location a v) (\<lambda>(d, a). obind (al_locations a (rev (drop 6 (al_pending a)))) (\<lambda>(ss, a).
          obind (al_locations a (rev (take 6 (al_pending a)))) (\<lambda>(rs, a).
          Ret (call_sel f (length (al_pending a)) ss rs d, a\<lparr>al_pending := []\<rparr>)))) = Ret (is, b)" for v f
    using that room
    by (auto simp: outcome_simps MAX_PARAMS_PER_FUNCTION_def dest!: al_locations_length al_location_pending intro!: call_sel_size)
  note lens = load_sel_length store_sel_length operand_sel_length select_binary_length select_unary_length
  have bin: "length (select_binary op x y @ store_sel z r) \<le> 16" for op x y z r
    using select_binary_length [of op x y] store_sel_length [of z r] by simp
  have un: "length (load_sel r x @ select_unary op @ store_sel z s) \<le> 16" for r x op z s
    using load_sel_length [of r x] select_unary_length [of op] store_sel_length [of z s] by simp
  have mov: "length (load_sel r x @ store_sel z s) \<le> 16" for r x z s
    using load_sel_length [of r x] store_sel_length [of z s] by simp
  have imm: "length (x # store_sel z s) \<le> 16" "length (x # (if p then [] else store_sel z s)) \<le> 16" for x z s p
    using store_sel_length [of z s] by auto
  have st: "length (operand_sel r x @ [y]) \<le> 16" "length (operand_sel r x @ [y]) \<le> 2" for r x y
    using operand_sel_length [of r x] by auto
  have ret: "length (load_sel r x @ epilogue) \<le> 16" for r x
    using load_sel_length [of r x] by (simp add: epilogue_def)
  show ?thesis
    using sel room unfolding select_def
    by (simp only: split: if_splits)
      ((rule many move one branch, assumption, rule bin un mov imm st ret)
       | (rule call, assumption)
       | force)+
qed

lemma select_all_size:
  "select_all is a = Ret (its, b) \<Longrightarrow> length (al_pending a) \<le> MAX_PARAMS_PER_FUNCTION \<Longrightarrow> items_size its \<le> 1024 * length is"
proof (induction "is" arbitrary: a its)
  case (Cons i "is")
  obtain xs c ys where x: "select i a = Ret (xs, c)" and y: "select_all is c = Ret (ys, b)" and its: "its = xs @ ys"
    using Cons.prems(1) by (auto simp: outcome_simps)
  show ?case
    using select_size [OF x Cons.prems(2)] Cons.IH [OF y] by (simp add: its)
qed simp

lemma select_params_size:
  "select_params n i a = Ret (ps, b) \<Longrightarrow> length ps \<le> 2 * n \<and> (n > 0 \<longrightarrow> i + n < MAX_VREGS_PER_FUNCTION) \<and> al_pending b = al_pending a"
proof (induction n arbitrary: i a ps)
  case (Suc n)
  obtain l c ys where l: "al_location a (i + 1) = Ret (l, c)" and ys: "select_params n (i + 1) c = Ret (ys, b)"
      and ps: "ps = param_sel i l @ ys"
    using Suc.prems by (auto simp: outcome_simps simp del: One_nat_def)
  have "length (param_sel i l) \<le> 2"
    using store_sel_length by (cases l) (simp_all add: param_sel_def store_sel_def Let_def)
  moreover have "i + 1 < MAX_VREGS_PER_FUNCTION"
    using l by (simp add: al_location_def split: if_splits)
  ultimately show ?case
    using Suc.IH [OF ys] al_location_pending [OF l] by (cases n) (simp_all add: ps)
qed simp

section \<open>Functions\<close>

definition MAX_CODE_SIZE :: nat where
  "MAX_CODE_SIZE = 2 ^ 27"

theorem select_function_size:
  assumes sel: "select_function f k = Ret (items, a)" and small: "length (ir_code f) < MAX_IR_INSTRUCTIONS_PER_FUNCTION"
  shows "items_size items < MAX_CODE_SIZE"
proof -
  let ?frame = "frame_sel (calculate_aligned_stack_size f)"
  obtain ps b its where ps: "select_params k 0 (initial_alloc (if_stack_count f)) = Ret (ps, b)"
      and its: "select_all (ir_code f) b = Ret (its, a)" and items: "items = map Op (?frame @ ps) @ its"
    using sel by (auto simp: select_function_def outcome_simps)
  note p = select_params_size [OF ps]
  then have "length ps \<le> 2 * MAX_VREGS_PER_FUNCTION" by (cases k) auto
  then have "length (?frame @ ps) \<le> 8 + 2 * MAX_VREGS_PER_FUNCTION" by (simp add: frame_sel_def)
  from items_size_Op [OF this] have "items_size (map Op (?frame @ ps)) \<le> 11 * (8 + 2 * MAX_VREGS_PER_FUNCTION)" .
  moreover have "items_size its \<le> 1024 * length (ir_code f)"
    using select_all_size [OF its] p by (simp add: initial_alloc_def)
  moreover have "items_size items = items_size (map Op (?frame @ ps)) + items_size its"
    by (simp add: items)
  ultimately show ?thesis
    using small by (simp add: MAX_CODE_SIZE_def MAX_IR_INSTRUCTIONS_PER_FUNCTION_def MAX_VREGS_PER_FUNCTION_def del: items_size_ops)
qed

text \<open>So displacements are exact.\<close>

lemma label_addresses_range: "label_addresses pc is l = Some t \<Longrightarrow> pc \<le> t \<and> t \<le> pc + items_size is"
proof (induction "is" arbitrary: pc)
  case (Cons i "is")
  then show ?case by (cases i) (fastforce split: if_splits)+
qed simp

theorem displacement_exact:
  assumes "label_addresses pc items l = Some t" "items_size items < 2 ^ 31" "pc \<le> next" "next \<le> pc + items_size items"
  shows "int next + sint (displacement (label_addresses pc items) l next) = int t"
proof -
  have "\<bar>int t - int next\<bar> < 2 ^ 31"
    using label_addresses_range [OF assms(1)] assms(2-4) by auto
  then have "sint (of_int (int t - int next) :: u32) = int t - int next"
    by (simp only: signed_of_int of_int_eq_id id_apply) (rule signed_take_bit_int_eq_self; simp)
  then show ?thesis using assms(1) by (simp add: displacement_def del: of_int_diff)
qed

end
