(* ===== verification/ArenaFacts.thy ===== *)
theory ArenaFacts
  imports Arena
begin

text \<open>
  The arena hands out memory that is aligned, mapped, inside one of its blocks and disjoint from
  everything handed out before; marks and resets give it back. \<open>arena_ok\<close> is the invariant: blocks are
  mapped, page aligned, disjoint, and their offsets within bounds.
\<close>

section \<open>Alignment\<close>

lemma and_mask_nat: "n AND (2 ^ k - 1) = (n :: nat) mod 2 ^ k"
  by (simp only: mask_eq_exp_minus_1 [symmetric] take_bit_eq_mask [symmetric] take_bit_eq_mod)

lemma power_of_two_nat: "is_power_of_two n \<longleftrightarrow> (\<exists>k. n = 2 ^ k)"
proof
  have "n \<noteq> 0 \<Longrightarrow> n AND (n - 1) = 0 \<Longrightarrow> \<exists>k. n = 2 ^ k"
  proof (induction n rule: less_induct)
    case (less n)
    show ?case
    proof (cases "even n")
      case True
      then obtain m where m: "n = 2 * m" by blast
      with less.prems have "m \<noteq> 0" by simp
      have "(2 * m) AND (2 * m - 1) = 2 * (m AND (m - 1))"
      proof -
        have "(2 * m - 1) div 2 = m - 1" using \<open>m \<noteq> 0\<close> by (cases m) simp_all
        then show ?thesis by (subst and_nat_unfold) simp
      qed
      then have "m AND (m - 1) = 0" using less.prems(2) m by simp
      then obtain k where "m = 2 ^ k" using less.IH [of m] \<open>m \<noteq> 0\<close> m by auto
      then have "n = 2 ^ Suc k" using m by simp
      then show ?thesis by blast
    next
      case False
      then obtain m where m: "n = 2 * m + 1" by (elim oddE)
      then have "n AND (n - 1) = 2 * m" by (simp add: and_nat_unfold [of "Suc (2 * m)"])
      then have "n = 2 ^ 0" using less.prems(2) m by simp
      then show ?thesis by blast
    qed
  qed
  then show "is_power_of_two n \<Longrightarrow> \<exists>k. n = 2 ^ k" by (simp add: is_power_of_two_def)
  show "\<exists>k. n = 2 ^ k \<Longrightarrow> is_power_of_two n"
    by (auto simp: is_power_of_two_def and_mask_nat [simplified])
qed

lemma align_forward_power:
  assumes "align = 2 ^ k"
  shows "align dvd align_forward p align" "p \<le> align_forward p align" "align_forward p align < p + align"
proof -
  have m: "p AND (align - 1) = p mod align" by (simp only: assms and_mask_nat)
  have pos: "0 < align" by (simp add: assms)
  then have lt: "p mod align < align" by simp
  have "p + (align - p mod align) = (p div align + 1) * align"
    using lt div_mult_mod_eq [of p align] unfolding add_mult_distrib by linarith
  then show "align dvd align_forward p align"
    unfolding align_forward_def m Let_def by (auto simp del: mult_Suc)
  show "p \<le> align_forward p align" by (simp add: align_forward_def Let_def)
  show "align_forward p align < p + align"
    using pos lt unfolding align_forward_def m Let_def by auto
qed

lemma unat_and_not_mask:
  assumes "n < 2 ^ 64"
  shows "unat ((of_nat n :: u64) AND NOT (mask k)) = n div 2 ^ k * 2 ^ k"
proof -
  have "(of_nat n :: u64) AND NOT (mask k) = push_bit k (drop_bit k (of_nat n))"
    by (rule bit_word_eqI) (auto simp: bit_simps)
  also have "unat \<dots> = take_bit 64 (push_bit k (drop_bit k n))"
    using assms by (simp add: unsigned_push_bit_eq unsigned_drop_bit_eq unat_of_nat take_bit_eq_mod)
  also have "push_bit k (drop_bit k n) = n div 2 ^ k * 2 ^ k"
    by (simp add: push_bit_eq_mult drop_bit_eq_div)
  also have "take_bit 64 (n div 2 ^ k * 2 ^ k) = n div 2 ^ k * 2 ^ k"
    by (rule take_bit_nat_eq_self) (rule le_less_trans [OF div_times_less_eq_dividend assms])
  finally show ?thesis .
qed

lemma align_to_page_power:
  assumes "get_page_size sys = 2 ^ k" "sz + 2 ^ k \<le> 2 ^ 64"
  shows "align_to_page sys sz = (sz + 2 ^ k - 1) div 2 ^ k * 2 ^ k" "sz \<le> align_to_page sys sz"
    "2 ^ k dvd align_to_page sys sz"
proof -
  have k: "(of_nat (2 ^ k - 1) :: u64) = mask k"
    by (simp add: mask_eq_exp_minus_1 of_nat_diff)
  let ?n = "sz + 2 ^ k - 1"
  have "?n < 2 ^ 64" using assms(2) by simp
  then show eq: "align_to_page sys sz = ?n div 2 ^ k * 2 ^ k"
    unfolding align_to_page_def Let_def assms(1) k by (rule unat_and_not_mask)
  show "2 ^ k dvd align_to_page sys sz" by (simp add: eq)
  have "?n div 2 ^ k * 2 ^ k + ?n mod 2 ^ k = ?n" by (rule div_mult_mod_eq)
  moreover have "?n mod 2 ^ k < 2 ^ k" by simp
  ultimately show "sz \<le> align_to_page sys sz" unfolding eq by linarith
qed

section \<open>The invariant\<close>

text \<open>
  The documented behaviour of the system: pages are a power of two and hold a block header, and
  \<open>mmap\<close> without \<open>MAP_FIXED\<close> returns a page-aligned region that overlaps none that is mapped.
\<close>

definition system_ok :: "system \<Rightarrow> bool" where
  "system_ok sys \<longleftrightarrow> (\<exists>k. get_page_size sys = 2 ^ k) \<and>
     (\<forall>rs hint n prot b. sys_mmap sys rs hint n prot = Some b \<longrightarrow>
        b \<noteq> 0 \<and> get_page_size sys dvd b \<and> {b..<b + n} \<inter> bytes_of rs = {})"

definition region :: "arena_block \<Rightarrow> nat set" where
  "region b = {bk_base b..<bk_base b + bk_size b}"

definition used_block :: "arena_block \<Rightarrow> nat set" where
  "used_block b = {bk_base b..<bk_base b + bk_offset b}"

text \<open>Bytes taken: block headers and everything allocated.\<close>

definition used :: "arena \<Rightarrow> nat set" where
  "used a = (\<Union>b \<in> set (ar_blocks a). used_block b)"

definition block_ok :: "regions \<Rightarrow> arena_block \<Rightarrow> bool" where
  "block_ok rs b \<longleftrightarrow> bk_base b \<noteq> 0 \<and> SIZEOF_ARENA_BLOCK \<le> bk_offset b \<and> bk_offset b \<le> bk_size b \<and> region b \<subseteq> bytes_of rs"

fun blocks_ok :: "regions \<Rightarrow> arena_block list \<Rightarrow> bool" where
  "blocks_ok rs [] = True"
| "blocks_ok rs (b # bs) \<longleftrightarrow> block_ok rs b \<and> (\<forall>c \<in> set bs. region b \<inter> region c = {}) \<and> blocks_ok rs bs"

definition arena_ok :: "arena \<times> regions \<Rightarrow> bool" where
  "arena_ok am \<longleftrightarrow> blocks_ok (snd am) (ar_blocks (fst am))"

lemma bytes_of_Cons [simp]: "bytes_of ((a, n) # rs) = {a..<a + n} \<union> bytes_of rs"
  by (simp add: bytes_of_def)

lemma blocks_ok_mono: "blocks_ok rs bs \<Longrightarrow> bytes_of rs \<subseteq> bytes_of rs' \<Longrightarrow> blocks_ok rs' bs"
  by (induction bs) (auto simp: block_ok_def)

lemma used_region: "block_ok rs b \<Longrightarrow> used_block b \<subseteq> region b"
  by (auto simp: used_block_def region_def block_ok_def)

lemma block_ok_base: "block_ok rs b \<Longrightarrow> bk_base b \<in> region b"
  by (auto simp: region_def block_ok_def SIZEOF_ARENA_BLOCK_def)

lemma blocks_ok_block: "blocks_ok rs bs \<Longrightarrow> b \<in> set bs \<Longrightarrow> block_ok rs b"
  by (induction bs) auto

text \<open>A created block is either a fresh one or the previous one grown.\<close>

lemma create_block:
  assumes "system_ok sys" "capacity + SIZEOF_ARENA_BLOCK + get_page_size sys \<le> 2 ^ 64"
    and "arena_create_block sys capacity prot prev rs = (Some b, rs')"
    and "\<And>p. prev = Some p \<Longrightarrow> block_ok rs p"
  shows "bytes_of rs \<subseteq> bytes_of rs' \<and>
    (bk_base b \<noteq> 0 \<and> bk_offset b = SIZEOF_ARENA_BLOCK \<and> capacity + SIZEOF_ARENA_BLOCK \<le> bk_size b \<and>
       region b \<subseteq> bytes_of rs' \<and> region b \<inter> bytes_of rs = {} \<and> (\<forall>p. prev = Some p \<longrightarrow> bk_base b \<noteq> bk_base p)
     \<or> (\<exists>p n. prev = Some p \<and> b = p\<lparr>bk_size := bk_size p + n\<rparr> \<and> capacity + SIZEOF_ARENA_BLOCK \<le> n \<and>
       region b \<subseteq> bytes_of rs' \<and> region b \<inter> bytes_of rs \<subseteq> region p))"
proof -
  let ?n = "align_to_page sys (capacity + SIZEOF_ARENA_BLOCK)"
  from assms(1) obtain k where k: "get_page_size sys = 2 ^ k" by (auto simp: system_ok_def)
  have n: "capacity + SIZEOF_ARENA_BLOCK \<le> ?n"
    using align_to_page_power(2) [OF k] assms(2) k by simp
  then have npos: "0 < ?n" by (simp add: SIZEOF_ARENA_BLOCK_def)
  from assms(3) obtain base where base: "sys_mmap sys rs (map_option (\<lambda>p. bk_base p + bk_size p) prev) ?n prot = Some base"
      and rs': "rs' = (base, ?n) # rs"
    by (auto simp: arena_create_block_def Let_def split: option.splits)
  have fresh: "base \<noteq> 0" "{base..<base + ?n} \<inter> bytes_of rs = {}"
    using assms(1) base unfolding system_ok_def by blast+
  show ?thesis
  proof (cases "\<exists>p. prev = Some p \<and> base = bk_base p + bk_size p")
    case True
    then obtain p where p: "prev = Some p" "base = bk_base p + bk_size p" by blast
    then have b: "b = p\<lparr>bk_size := bk_size p + ?n\<rparr>"
      using assms(3) base by (simp add: arena_create_block_def Let_def)
    have "region b = region p \<union> {base..<base + ?n}" by (auto simp: region_def b p)
    then show ?thesis
      using fresh n b p assms(4) [OF p(1)] by (auto simp: rs' block_ok_def)
  next
    case False
    then have b: "b = \<lparr>bk_base = base, bk_size = ?n, bk_offset = SIZEOF_ARENA_BLOCK\<rparr>"
      using assms(3) base by (auto simp: arena_create_block_def Let_def split: option.splits if_splits)
    have "bk_base b \<noteq> bk_base p" if "prev = Some p" for p
    proof -
      have "bk_base p \<in> bytes_of rs" using block_ok_base [OF assms(4) [OF that]] assms(4) [OF that]
        by (auto simp: block_ok_def)
      moreover have "base \<in> {base..<base + ?n}" using npos by simp
      ultimately show ?thesis using fresh(2) by (metis IntI arena_block.select_convs(1) b empty_iff)
    qed
    then show ?thesis using fresh n by (auto simp: b rs' region_def)
  qed
qed

section \<open>Allocation\<close>

text \<open>What an allocation promises of the address it returns.\<close>

definition allocates :: "nat \<Rightarrow> nat \<Rightarrow> arena \<times> regions \<Rightarrow> nat \<times> arena \<times> regions \<Rightarrow> bool" where
  "allocates sz align am = (\<lambda>(p, am'). arena_ok am' \<and> bytes_of (snd am) \<subseteq> bytes_of (snd am') \<and>
     used (fst am) \<subseteq> used (fst am') \<and>
     (p \<noteq> 0 \<longrightarrow> align dvd p \<and> {p..<p + sz} \<subseteq> used (fst am') \<and> {p..<p + sz} \<inter> used (fst am) = {}))"

lemma padding_of_power:
  assumes "align = 2 ^ k"
  shows "align dvd bk_base b + (bk_offset b + padding_of b align)" "padding_of b align < align"
  using align_forward_power [OF assms, of "bk_base b + bk_offset b"]
  by (simp_all add: padding_of_def Let_def)

text \<open>Bumping a block that has room.\<close>

lemma bump_allocates:
  assumes ok: "blocks_ok rs (b # bs)" and align: "align = 2 ^ k" and a: "ar_blocks a = b # bs"
    and room: "bk_offset b + padding_of b align + sz \<le> bk_size b"
    and bump: "bump a (padding_of b align) sz = (p, a')"
    and before: "bytes_of rs0 \<subseteq> bytes_of rs" "used a0 \<subseteq> used a" "used a0 \<inter> region b \<subseteq> used_block b"
  shows "allocates sz align (a0, rs0) (p, a', rs)"
proof -
  let ?b = "b\<lparr>bk_offset := bk_offset b + padding_of b align + sz\<rparr>"
  have p: "p = bk_base b + (bk_offset b + padding_of b align)" and a': "ar_blocks a' = ?b # bs"
    using bump a by (auto simp: bump_def)
  have "block_ok rs ?b" "region ?b = region b"
    using ok room by (auto simp: block_ok_def region_def)
  then have "blocks_ok rs (?b # bs)" using ok by simp
  moreover have "used a' = used a \<union> {bk_base b..<p + sz}"
    by (auto simp: used_def a a' used_block_def p)
  moreover have "{p..<p + sz} \<subseteq> region b" "{p..<p + sz} \<inter> used_block b = {}"
    using room by (auto simp: p region_def used_block_def)
  moreover have "bk_base b \<le> p" by (simp add: p)
  moreover have "align dvd p" using padding_of_power(1) [OF align] by (simp add: p)
  ultimately show ?thesis
    using before by (auto simp: allocates_def arena_ok_def a')
qed

lemma used_subset: "blocks_ok rs bs \<Longrightarrow> ar_blocks a = bs \<Longrightarrow> used a \<subseteq> bytes_of rs"
  using used_region blocks_ok_block unfolding used_def block_ok_def by blast

lemma allocates_NULL:
  "arena_ok (a', rs') \<Longrightarrow> bytes_of rs \<subseteq> bytes_of rs' \<Longrightarrow> used a \<subseteq> used a' \<Longrightarrow> allocates sz align (a, rs) (0, a', rs')"
  by (simp add: allocates_def)

lemma used_disjoint:
  "blocks_ok rs (b # bs) \<Longrightarrow> ar_blocks a = b # bs \<Longrightarrow> used a \<inter> region b \<subseteq> used_block b"
proof -
  assume ok: "blocks_ok rs (b # bs)" and a: "ar_blocks a = b # bs"
  have "used_block c \<inter> region b = {}" if "c \<in> set bs" for c
    using used_region [of rs c] blocks_ok_block [of rs bs c] ok that by auto
  then show ?thesis by (auto simp: used_def a)
qed

text \<open>Once there is a current block.\<close>

lemma grow_allocates:
  assumes sys: "system_ok sys" and size: "sz + align + SIZEOF_ARENA_BLOCK + get_page_size sys \<le> 2 ^ 64"
      "MEMARENA_DEFAULT_SIZE + SIZEOF_ARENA_BLOCK + get_page_size sys \<le> 2 ^ 64"
    and align: "align = 2 ^ k" and ok: "blocks_ok rs (b # bs)" and a: "ar_blocks a = b # bs"
    and create: "arena_create_block sys (if sz + align > MEMARENA_DEFAULT_SIZE then sz + align else MEMARENA_DEFAULT_SIZE)
      prot (Some b) rs = (Some c, rs')"
    and before: "bytes_of rs0 \<subseteq> bytes_of rs" "used a0 \<subseteq> used a"
  shows "bk_base c \<noteq> bk_base b \<Longrightarrow> bump (a\<lparr>ar_blocks := c # b # bs\<rparr>) (padding_of c align) sz = (p, a') \<Longrightarrow>
      allocates sz align (a0, rs0) (p, a', rs')"
    and "bk_base c = bk_base b \<Longrightarrow> bump (a\<lparr>ar_blocks := c # bs\<rparr>) (padding_of b align) sz = (p, a') \<Longrightarrow>
      allocates sz align (a0, rs0) (p, a', rs')"
proof -
  let ?cap = "if sz + align > MEMARENA_DEFAULT_SIZE then sz + align else MEMARENA_DEFAULT_SIZE"
  have cap: "?cap + SIZEOF_ARENA_BLOCK + get_page_size sys \<le> 2 ^ 64" "sz + align \<le> ?cap" using size by auto
  have bok: "block_ok rs b" and bsok: "blocks_ok rs bs" using ok by auto
  note created = create_block [OF sys cap(1) create, simplified]
  have rs: "bytes_of rs \<subseteq> bytes_of rs'" using created bok by blast
  have rs0: "bytes_of rs0 \<subseteq> bytes_of rs'" using before(1) rs by blast
  have all_ok: "blocks_ok rs' (b # bs)" using ok rs by (rule blocks_ok_mono)
  have within: "region d \<subseteq> bytes_of rs" if "d \<in> set (b # bs)" for d
    using blocks_ok_block [OF ok that] by (simp add: block_ok_def)
  have used_in: "used a \<subseteq> bytes_of rs" by (rule used_subset [OF ok a])
  {
    assume ne: "bk_base c \<noteq> bk_base b" and bump: "bump (a\<lparr>ar_blocks := c # b # bs\<rparr>) (padding_of c align) sz = (p, a')"
    from ne created bok have c: "bk_base c \<noteq> 0" "bk_offset c = SIZEOF_ARENA_BLOCK"
        "?cap + SIZEOF_ARENA_BLOCK \<le> bk_size c" "region c \<subseteq> bytes_of rs'" "region c \<inter> bytes_of rs = {}"
      by auto
    have "blocks_ok rs' (c # b # bs)"
      using c all_ok within by (auto simp: block_ok_def)
    moreover have "bk_offset c + padding_of c align + sz \<le> bk_size c"
      using c(2,3) cap(2) padding_of_power(2) [OF align, of c] by simp
    moreover have "used a0 \<subseteq> used (a\<lparr>ar_blocks := c # b # bs\<rparr>)"
      using before(2) by (auto simp: used_def a)
    moreover have "used a0 \<inter> region c \<subseteq> used_block c" using c(5) used_in before(2) by blast
    ultimately show "allocates sz align (a0, rs0) (p, a', rs')"
      using bump_allocates [where a = "a\<lparr>ar_blocks := c # b # bs\<rparr>" and bs = "b # bs", OF _ align _ _ bump rs0]
      by simp
  }
  {
    assume eq: "bk_base c = bk_base b" and bump: "bump (a\<lparr>ar_blocks := c # bs\<rparr>) (padding_of b align) sz = (p, a')"
    from eq created bok obtain n where c: "c = b\<lparr>bk_size := bk_size b + n\<rparr>" "?cap + SIZEOF_ARENA_BLOCK \<le> n"
        "region c \<subseteq> bytes_of rs'" "region c \<inter> bytes_of rs \<subseteq> region b"
      by auto
    have pad: "padding_of c align = padding_of b align" by (simp add: c padding_of_def)
    have "block_ok rs' c" using bok c(1,3) by (auto simp: block_ok_def)
    moreover have "\<forall>d \<in> set bs. region c \<inter> region d = {}"
      using c(4) within ok by fastforce
    ultimately have "blocks_ok rs' (c # bs)" using all_ok by simp
    moreover have "bk_offset c + padding_of c align + sz \<le> bk_size c"
      unfolding pad using bok c(2) cap(2) padding_of_power(2) [OF align, of b] by (simp add: c(1) block_ok_def)
    moreover have same: "used_block c = used_block b" by (simp add: used_block_def c)
    then have "used a0 \<subseteq> used (a\<lparr>ar_blocks := c # bs\<rparr>)"
      using before(2) by (auto simp: used_def a)
    moreover have "used a0 \<inter> region c \<subseteq> used_block c"
      using c(4) used_in before(2) used_disjoint [OF ok a] same by blast
    ultimately show "allocates sz align (a0, rs0) (p, a', rs')"
      using bump_allocates [where a = "a\<lparr>ar_blocks := c # bs\<rparr>" and bs = bs, OF _ align _ _ bump [folded pad] rs0]
      by simp
  }
qed

lemma alloc_in_block_allocates:
  assumes sys: "system_ok sys" and size: "sz + align + SIZEOF_ARENA_BLOCK + get_page_size sys \<le> 2 ^ 64"
      "MEMARENA_DEFAULT_SIZE + SIZEOF_ARENA_BLOCK + get_page_size sys \<le> 2 ^ 64"
    and align: "align = 2 ^ k" and ok: "blocks_ok rs (b # bs)" and a: "ar_blocks a = b # bs"
    and before: "bytes_of rs0 \<subseteq> bytes_of rs" "used a0 \<subseteq> used a" "used a0 \<inter> region b \<subseteq> used_block b"
  shows "allocates sz align (a0, rs0) (alloc_in_block sys sz align a rs)"
proof (cases "bk_offset b + padding_of b align + sz > bk_size b")
  case True
  let ?cap = "if sz + align > MEMARENA_DEFAULT_SIZE then sz + align else MEMARENA_DEFAULT_SIZE"
  obtain r rs' where create: "arena_create_block sys ?cap (ar_prot a) (Some b) rs = (r, rs')" by force
  show ?thesis
  proof (cases r)
    case None
    then have "rs' = rs" using create by (auto simp: arena_create_block_def Let_def split: option.splits if_splits)
    then show ?thesis
      using True create None before ok by (simp add: alloc_in_block_def a Let_def allocates_def arena_ok_def)
  next
    case (Some c)
    note grow = grow_allocates [OF sys size align ok a create [unfolded Some] before(1,2)]
    obtain p a' q a'' where "bump (a\<lparr>ar_blocks := c # b # bs\<rparr>) (padding_of c align) sz = (p, a')"
        "bump (a\<lparr>ar_blocks := c # bs\<rparr>) (padding_of b align) sz = (q, a'')"
      by force
    then show ?thesis
      using True create Some grow by (simp add: alloc_in_block_def a Let_def)
  qed
next
  case False
  obtain p a' where bump: "bump a (padding_of b align) sz = (p, a')" by force
  have "bk_offset b + padding_of b align + sz \<le> bk_size b" using False by simp
  from bump_allocates [OF ok align a this bump before] show ?thesis
    using False bump by (simp add: alloc_in_block_def a Let_def)
qed

theorem alloc_allocates:
  assumes sys: "system_ok sys" and size: "sz + align + SIZEOF_ARENA_BLOCK + get_page_size sys \<le> 2 ^ 64"
      "MEMARENA_DEFAULT_SIZE + SIZEOF_ARENA_BLOCK + get_page_size sys \<le> 2 ^ 64"
    and ok: "arena_ok (a, rs)"
  shows "allocates sz align (a, rs) (arena_alloc_aligned sys sz align (a, rs))"
proof (cases "sz = 0 \<or> \<not> is_power_of_two align")
  case True
  then show ?thesis using ok by (auto simp: arena_alloc_aligned_def allocates_def)
next
  case False
  then obtain k where align: "align = 2 ^ k" by (auto simp: power_of_two_nat)
  show ?thesis
  proof (cases "ar_blocks a")
    case (Cons b bs)
    have eq: "arena_alloc_aligned sys sz align (a, rs) = alloc_in_block sys sz align a rs"
      using False Cons by (simp add: arena_alloc_aligned_def alloc_in_block_def Let_def)
    have ok': "blocks_ok rs (b # bs)" using ok by (simp add: arena_ok_def Cons)
    show ?thesis
      unfolding eq by (rule alloc_in_block_allocates [OF sys size align ok' Cons _ _ used_disjoint [OF ok' Cons]]) auto
  next
    case Nil
    let ?cap = "if sz > MEMARENA_DEFAULT_SIZE then sz else MEMARENA_DEFAULT_SIZE"
    obtain r rs' where create: "arena_create_block sys ?cap (ar_prot a) None rs = (r, rs')" by force
    show ?thesis
    proof (cases r)
      case None
      then have "rs' = rs" using create by (auto simp: arena_create_block_def Let_def split: option.splits if_splits)
      then show ?thesis
        using False Nil create None ok by (simp add: arena_alloc_aligned_def allocates_def)
    next
      case (Some b)
      have cap: "?cap + SIZEOF_ARENA_BLOCK + get_page_size sys \<le> 2 ^ 64" using size by auto
      from create_block [OF sys cap create [unfolded Some]] have b: "bk_base b \<noteq> 0" "bk_offset b = SIZEOF_ARENA_BLOCK"
          "?cap + SIZEOF_ARENA_BLOCK \<le> bk_size b" "region b \<subseteq> bytes_of rs'" and rs': "bytes_of rs \<subseteq> bytes_of rs'"
        by auto
      let ?a = "a\<lparr>ar_blocks := [b]\<rparr>"
      have "blocks_ok rs' [b]" using b by (simp add: block_ok_def)
      moreover have "used a = {}" by (simp add: used_def Nil)
      ultimately have "allocates sz align (a, rs) (alloc_in_block sys sz align ?a rs')"
        using alloc_in_block_allocates [OF sys size align, of rs' b "[]" ?a rs a] rs' by simp
      moreover have "arena_alloc_aligned sys sz align (a, rs) = alloc_in_block sys sz align ?a rs'"
        using False Nil create Some by (simp add: arena_alloc_aligned_def alloc_in_block_def Let_def)
      ultimately show ?thesis by simp
    qed
  qed
qed

section \<open>Giving memory back\<close>

lemma arena_free_ok: "arena_ok (arena_free (a, rs)) \<and> used (fst (arena_free (a, rs))) = {}"
  by (simp add: arena_free_def arena_ok_def used_def)

lemma bytes_of_munmap: "bytes_of rs - {a..<a + n} \<subseteq> bytes_of (munmap a n rs)"
  by (force simp: bytes_of_def munmap_def)

lemma unmap_blocks_keeps: "bytes_of rs - (\<Union>b \<in> set bs. region b) \<subseteq> bytes_of (unmap_blocks bs rs)"
proof (induction bs arbitrary: rs)
  case (Cons b bs)
  then show ?case
    using bytes_of_munmap [of rs "bk_base b" "bk_size b"] by (fastforce simp: region_def)
qed simp

lemma blocks_ok_last: "blocks_ok rs (bs @ [b]) \<Longrightarrow> c \<in> set bs \<Longrightarrow> region c \<inter> region b = {}"
  by (induction bs) auto

lemma reset_ok:
  assumes "arena_ok (a, rs)"
  shows "arena_ok (arena_reset (a, rs)) \<and>
    arena_total_used (fst (arena_reset (a, rs))) = (if ar_blocks a = [] then 0 else SIZEOF_ARENA_BLOCK)"
proof (cases "ar_blocks a" rule: rev_cases)
  case Nil
  then show ?thesis using assms by (simp add: arena_reset_def arena_ok_def arena_total_used_def)
next
  case (snoc bs b)
  have "region c \<inter> region b = {}" if "c \<in> set bs" for c
    using assms that blocks_ok_last [of rs bs b c] by (simp add: arena_ok_def snoc)
  moreover have b: "block_ok rs b" using assms blocks_ok_block [of rs "ar_blocks a" b] by (simp add: arena_ok_def snoc)
  ultimately have "region b \<subseteq> bytes_of (unmap_blocks bs rs)"
    using unmap_blocks_keeps [of rs bs] by (fastforce simp: block_ok_def)
  then show ?thesis
    using b by (simp add: arena_reset_def snoc arena_ok_def arena_total_used_def block_ok_def region_def)
qed

text \<open>A run of allocations, and the chain of blocks it leaves.\<close>

fun alloc_all :: "system \<Rightarrow> (nat \<times> nat) list \<Rightarrow> arena \<times> regions \<Rightarrow> arena \<times> regions" where
  "alloc_all sys [] am = am"
| "alloc_all sys ((sz, align) # rs) am = alloc_all sys rs (snd (arena_alloc_aligned sys sz align am))"

lemma create_block_base:
  "arena_create_block sys cap prot (Some p) rs = (Some c, rs') \<Longrightarrow> bk_base c = bk_base p \<Longrightarrow> bk_offset c = bk_offset p \<or>
   bk_offset c = SIZEOF_ARENA_BLOCK"
  by (auto simp: arena_create_block_def Let_def split: option.splits if_splits)

lemma alloc_chain:
  assumes "ar_blocks a = x # xs"
  shows "\<exists>news y. ar_blocks (fst (snd (arena_alloc_aligned sys sz align (a, rs)))) = news @ y # xs \<and> bk_base y = bk_base x"
proof -
  have "\<exists>news y. ar_blocks (fst (snd (alloc_in_block sys sz align a rs))) = news @ y # xs \<and> bk_base y = bk_base x"
    using assms by (auto simp: alloc_in_block_def bump_def Let_def split: option.split prod.split
      intro: exI [of _ "[]"] exI [of _ "[c]" for c])
  then show ?thesis
    using assms by (auto simp: arena_alloc_aligned_def intro: exI [of _ "[]"])
qed

lemma alloc_all_chain:
  "ar_blocks (fst am) = news @ y # xs \<Longrightarrow>
   \<exists>news z. ar_blocks (fst (alloc_all sys ss am)) = news @ z # xs \<and> bk_base z = bk_base y"
proof (induction sys ss am arbitrary: news y rule: alloc_all.induct)
  case (2 sys sz align rs am)
  obtain a m where am: "am = (a, m)" by force
  have "\<exists>news' z. ar_blocks (fst (snd (arena_alloc_aligned sys sz align am))) = news' @ z # xs \<and> bk_base z = bk_base y"
  proof (cases news)
    case Nil
    then show ?thesis using alloc_chain [of a y xs sys sz align m] 2(2) by (auto simp: am)
  next
    case (Cons b bs)
    then obtain n' b' where "ar_blocks (fst (snd (arena_alloc_aligned sys sz align am))) = n' @ b' # bs @ y # xs"
      using alloc_chain [of a b "bs @ y # xs" sys sz align m] 2(2) by (auto simp: am)
    then show ?thesis by (intro exI [of _ "n' @ b' # bs"] exI [of _ y]) simp
  qed
  then show ?case using 2(1) by fastforce
qed auto

lemma alloc_all_ok:
  "system_ok sys \<Longrightarrow> MEMARENA_DEFAULT_SIZE + SIZEOF_ARENA_BLOCK + get_page_size sys \<le> 2 ^ 64 \<Longrightarrow>
   \<forall>(sz, align) \<in> set ss. sz + align + SIZEOF_ARENA_BLOCK + get_page_size sys \<le> 2 ^ 64 \<Longrightarrow>
   arena_ok am \<Longrightarrow> arena_ok (alloc_all sys ss am) \<and> used (fst am) \<subseteq> used (fst (alloc_all sys ss am))"
proof (induction sys ss am rule: alloc_all.induct)
  case (2 sys sz align ss am)
  obtain a m where am: "am = (a, m)" by force
  have "allocates sz align am (arena_alloc_aligned sys sz align am)"
    using alloc_allocates [of sys sz align a m] 2(2-5) by (simp add: am)
  then have "arena_ok (snd (arena_alloc_aligned sys sz align am))"
      "used (fst am) \<subseteq> used (fst (snd (arena_alloc_aligned sys sz align am)))"
    by (auto simp: allocates_def am split: prod.splits)
  with 2(1) [OF 2(2,3)] 2(4) show ?case by auto
qed auto

lemma temp_loop_chain:
  "blocks_ok rs (news @ y # xs) \<Longrightarrow> bk_base y = b \<Longrightarrow> \<exists>m'. temp_loop (Some b) (news @ y # xs) m = (Some (y # xs), m')"
proof (induction news arbitrary: m)
  case (Cons n ns)
  have "bk_base n \<noteq> b"
  proof
    assume "bk_base n = b"
    then have "bk_base n \<in> region n \<inter> region y"
      using Cons.prems blocks_ok_block [OF Cons.prems(1)] block_ok_base by (metis IntI append_Cons in_set_conv_decomp list.set_intros(1))
    then show False using Cons.prems(1) by auto
  qed
  then show ?case using Cons by auto
qed simp

theorem temp_end_restores:
  assumes "system_ok sys" "MEMARENA_DEFAULT_SIZE + SIZEOF_ARENA_BLOCK + get_page_size sys \<le> 2 ^ 64"
    and "\<forall>(sz, align) \<in> set ss. sz + align + SIZEOF_ARENA_BLOCK + get_page_size sys \<le> 2 ^ 64"
    and ok: "arena_ok (a, rs)" and ne: "ar_blocks a \<noteq> []"
  shows "used (fst (arena_temp_end (arena_temp_begin a) (alloc_all sys ss (a, rs)))) = used a"
    "arena_total_used (fst (arena_temp_end (arena_temp_begin a) (alloc_all sys ss (a, rs)))) = arena_total_used a"
proof -
  obtain b bs where b: "ar_blocks a = b # bs" using ne by (cases "ar_blocks a") auto
  obtain a' rs' where a': "alloc_all sys ss (a, rs) = (a', rs')" by force
  obtain news y where y: "ar_blocks a' = news @ y # bs" "bk_base y = bk_base b"
    using alloc_all_chain [of "(a, rs)" "[]" b bs sys ss] by (auto simp: b a')
  have "blocks_ok rs' (news @ y # bs)"
    using alloc_all_ok [OF assms(1-4)] by (simp add: a' arena_ok_def y)
  from temp_loop_chain [OF this y(2), of rs'] obtain m where m: "temp_loop (Some (bk_base b)) (news @ y # bs) rs' = (Some (y # bs), m)"
    by blast
  show "used (fst (arena_temp_end (arena_temp_begin a) (alloc_all sys ss (a, rs)))) = used a"
    "arena_total_used (fst (arena_temp_end (arena_temp_begin a) (alloc_all sys ss (a, rs)))) = arena_total_used a"
    using y(2) by (simp_all add: arena_temp_end_def arena_temp_begin_def b a' y(1) m used_def used_block_def arena_total_used_def)
qed

text \<open>A position taken on an empty arena matches no block: the loop unmaps all blocks but the oldest and gives up.\<close>

lemma temp_loop_none: "temp_loop None bs m = (None, unmap_blocks (butlast bs) m)"
  by (induction bs arbitrary: m) simp_all

lemma temp_end_empty:
  "ar_blocks a = [] \<Longrightarrow> arena_temp_end (arena_temp_begin a) (a', rs) = (a', unmap_blocks (butlast (ar_blocks a')) rs)"
  by (simp add: arena_temp_end_def arena_temp_begin_def temp_loop_none)

end
