(* ===== verification/Linking.thy ===== *)
theory Linking
  imports CodeShape ArenaFacts
begin

text \<open>
  From functions to a program. Compiling one function after the other leaves in executable memory,
  in disjoint blocks, the code of each; the call sites recorded on the way are exactly the
  immediates of their calls; and linking fills in the address of the function each call names, or
  reports those that nobody defines.
\<close>

section \<open>Call sites\<close>

fun call_fields :: "nat \<Rightarrow> item list \<Rightarrow> call_site list" where
  "call_fields pc [] = []"
| "call_fields pc (i # is) =
     (case i of CallTo f \<Rightarrow> [\<lparr>cs_location = pc + 2, cs_target = f\<rparr>] | _ \<Rightarrow> []) @ call_fields (pc + item_size i) is"

lemma call_fields_targets: "map cs_target (call_fields pc is) = callees is"
  by (induction "is" arbitrary: pc) (auto simp: callees_def split: item.split)

lemma call_fields_range:
  "s \<in> set (call_fields pc is) \<Longrightarrow> pc \<le> cs_location s \<and> cs_location s + 8 \<le> pc + items_size is"
proof (induction "is" arbitrary: pc)
  case (Cons i "is")
  then show ?case by (cases i) (auto dest!: Cons.IH)
qed simp

lemma place_item_sites [simp]:
  "jx_sites (place_item pc i ctx) =
     (case i of CallTo f \<Rightarrow> if length (jx_sites ctx) < MAX_CALL_SITES
        then jx_sites ctx @ [\<lparr>cs_location = pc + 2, cs_target = f\<rparr>] else jx_sites ctx | _ \<Rightarrow> jx_sites ctx)"
  by (cases i) (simp_all add: place_bytes_def place_site_def place_label_def emit_jump_def em_start_def Let_def split: prod.split)

text \<open>Sites beyond the capacity of the list are dropped.\<close>

lemma place_sites:
  "length (jx_sites ctx) \<le> MAX_CALL_SITES \<Longrightarrow>
   jx_sites (place pc is ctx) = take MAX_CALL_SITES (jx_sites ctx @ call_fields pc is)"
proof (induction "is" arbitrary: pc ctx)
  case (Cons i "is")
  have "length (jx_sites (place_item pc i ctx)) \<le> MAX_CALL_SITES"
    using Cons.prems by (simp del: place_item.simps split: item.split)
  from Cons.IH [OF this] show ?case
    using Cons.prems by (cases i) (simp_all add: take_Cons' del: place_item.simps item_size.simps)
qed simp

section \<open>Filling in addresses\<close>

definition resolves :: "compiled_function list \<Rightarrow> call_site list \<Rightarrow> bool" where
  "resolves fs sites \<longleftrightarrow> (\<forall>s\<in>set sites. resolve fs (cs_target s) \<noteq> 0)"

definition fill_site :: "compiled_function list \<Rightarrow> call_site \<Rightarrow> (nat \<Rightarrow> u8) \<Rightarrow> nat \<Rightarrow> u8" where
  "fill_site fs s mem =
     (if resolve fs (cs_target s) = 0 then mem
      else write_bytes (cs_location s) (le64 (of_nat (resolve fs (cs_target s)))) mem)"

definition fill_sites :: "compiled_function list \<Rightarrow> call_site list \<Rightarrow> (nat \<Rightarrow> u8) \<Rightarrow> nat \<Rightarrow> u8" where
  "fill_sites fs sites mem = fold (fill_site fs) sites mem"

lemma fill_sites_simps [simp]: "fill_sites fs [] mem = mem"
  "fill_sites fs (s # ss) mem = fill_sites fs ss (fill_site fs s mem)"
  "fill_sites fs (ss @ ts) mem = fill_sites fs ts (fill_sites fs ss mem)"
  by (simp_all add: fill_sites_def)

definition unresolved :: "compiled_function list \<Rightarrow> call_site list \<Rightarrow> call_site list" where
  "unresolved fs sites = filter (\<lambda>s. resolve fs (cs_target s) = 0) sites"

lemma link_sites_eq:
  "\<exists>errs. link_sites fs sites mem errors = (resolves fs sites, fill_sites fs sites mem, errs) \<and>
     error_count errs = error_count errors + length (unresolved fs sites) \<and> extends errors errs"
proof (induction sites arbitrary: mem errors)
  case Nil
  show ?case by (simp add: resolves_def unresolved_def)
next
  case (Cons s sites)
  show ?case
  proof (cases "resolve fs (cs_target s) = 0")
    case True
    let ?e = "error_add errors ERROR_CODEGEN ERROR_LEVEL_ERROR None 0 0
        (''undefined reference to function '' @ quoted (cs_target s))"
    obtain errs where l: "link_sites fs sites mem ?e = (resolves fs sites, fill_sites fs sites mem, errs)"
        "error_count errs = error_count ?e + length (unresolved fs sites)" "extends ?e errs"
      using Cons.IH by blast
    have "link_sites fs (s # sites) mem errors = (False, fill_sites fs sites mem, errs)"
      using True by (simp only: link_sites.simps Let_def l(1) prod.case if_True refl)
    moreover have "extends errors errs"
      by (rule extends_trans [OF extends_add l(3)])
    moreover have "error_count errs = error_count errors + length (unresolved fs (s # sites))"
      using l(2) True by (simp add: unresolved_def)
    ultimately show ?thesis
      using True by (simp add: resolves_def fill_site_def)
  next
    case False
    then show ?thesis
      using Cons.IH [of "write_bytes (cs_location s) (le64 (of_nat (resolve fs (cs_target s)))) mem" errors]
      by (auto simp: resolves_def unresolved_def fill_site_def)
  qed
qed

lemma fill_site_beyond:
  "cs_location s + 8 \<le> a \<Longrightarrow> fill_site fs s (write_bytes a bs m) = write_bytes a bs (fill_site fs s m)"
  by (simp add: fill_site_def write_bytes_commute)

text \<open>
  Filling in the sites of symbolic assembly gives the calls that can be resolved the address of their
  callee; the others keep what was there.
\<close>

definition filled :: "compiled_function list \<Rightarrow> (string \<Rightarrow> u64) \<Rightarrow> string \<Rightarrow> u64" where
  "filled fs c f = (if resolve fs f = 0 then c f else of_nat (resolve fs f))"

theorem filling:
  "fill_sites fs (call_fields pc is) (write_bytes pc (code (assemble lab c pc is)) m) =
    write_bytes pc (code (assemble lab (filled fs c) pc is)) m"
proof (induction "is" arbitrary: pc m)
  case (Cons i "is")
  let ?c' = "filled fs c" and ?next = "pc + item_size i"
  have split: "write_bytes pc (code (assemble lab c pc (i # is))) m =
      write_bytes ?next (code (assemble lab c ?next is)) (write_bytes pc (code (item_code lab c pc i)) m)" for c m
    using write_bytes_append [of pc "code (item_code lab c pc i)"] by simp
  show ?case
  proof (cases "\<exists>f. i = CallTo f")
    case False
    then have "call_fields pc (i # is) = call_fields ?next is" "item_code lab c pc i = item_code lab ?c' pc i"
      by (auto split: item.split) (cases "(lab, c, pc, i)" rule: item_code.cases; auto)
    then show ?thesis by (simp only: split Cons.IH)
  next
    case True
    then obtain f where i: "i = CallTo f" by blast
    let ?a = "of_nat (resolve fs f) :: u64"
    have head: "code (item_code lab c pc i) = [get_rex REG_RAX REG_RAX, 0xB8 + low3 REG_RAX] @ le64 (c f)" for c
      by (simp add: i)
    have field: "fill_site fs \<lparr>cs_location = pc + 2, cs_target = f\<rparr> (write_bytes pc (code (item_code lab c pc i)) m) =
        write_bytes pc (code (item_code lab ?c' pc i)) m"
      unfolding head using write_bytes_overlay [of "le64 (c f)" "le64 ?a" pc "[get_rex REG_RAX REG_RAX, 0xB8 + low3 REG_RAX]" m]
      by (simp add: fill_site_def filled_def)
    have "fill_sites fs (call_fields pc (i # is)) (write_bytes pc (code (assemble lab c pc (i # is))) m) =
        fill_sites fs (call_fields ?next is) (write_bytes ?next (code (assemble lab c ?next is))
          (fill_site fs \<lparr>cs_location = pc + 2, cs_target = f\<rparr> (write_bytes pc (code (item_code lab c pc i)) m)))"
      unfolding split by (simp add: i fill_site_beyond del: item_code.simps)
    also have "\<dots> = write_bytes ?next (code (assemble lab ?c' ?next is)) (write_bytes pc (code (item_code lab ?c' pc i)) m)"
      unfolding field by (rule Cons.IH)
    finally show ?thesis unfolding split .
  qed
qed simp

lemma assemble_callees:
  "(\<And>f. f \<in> set (callees is) \<Longrightarrow> c f = c' f) \<Longrightarrow> assemble lab c pc is = assemble lab c' pc is"
proof (induction "is" arbitrary: pc)
  case (Cons i "is")
  have "assemble lab c (pc + item_size i) is = assemble lab c' (pc + item_size i) is"
    by (rule Cons.IH) (use Cons.prems in \<open>cases i; simp add: shapes\<close>)
  moreover have "item_code lab c pc i = item_code lab c' pc i"
    using Cons.prems by (cases "(lab, c, pc, i)" rule: item_code.cases) (auto simp: shapes)
  ultimately show ?case by simp
qed simp

section \<open>Programs\<close>

text \<open>
  \<open>built fs ctx\<close>: the functions \<open>fs\<close>, a name, an address and symbolic assembly each, are what has been
  compiled so far.
\<close>

type_synonym placed_function = "string \<times> nat \<times> item list"

definition block_of :: "placed_function \<Rightarrow> nat set" where
  "block_of = (\<lambda>(name, pc, is). {pc..<pc + items_size is})"

definition image_of :: "(string \<Rightarrow> u64) \<Rightarrow> placed_function \<Rightarrow> x86 list" where
  "image_of calls = (\<lambda>(name, pc, is). assemble (label_addresses pc is) calls pc is)"

definition holds :: "(nat \<Rightarrow> u8) \<Rightarrow> placed_function \<Rightarrow> x86 list \<Rightarrow> bool" where
  "holds mem = (\<lambda>(name, pc, is) xs. read_bytes pc (items_size is) mem = code xs)"

definition built :: "placed_function list \<Rightarrow> jit \<Rightarrow> bool" where
  "built fs ctx \<longleftrightarrow>
     jx_registry ctx = map (\<lambda>(name, pc, is). \<lparr>cf_name = name, cf_addr = pc, cf_size = items_size is\<rparr>) fs \<and>
     jx_sites ctx = concat (map (\<lambda>(name, pc, is). call_fields pc is) fs) \<and>
     arena_ok (jx_exec ctx) \<and>
     (\<forall>f\<in>set fs. block_of f \<subseteq> used (fst (jx_exec ctx)) \<and> fst (snd f) \<noteq> 0 \<and>
        list_all encodable (ops (snd (snd f))) \<and> holds (jx_mem ctx) f (image_of (\<lambda>_. placeholder) f)) \<and>
     sorted_wrt (\<lambda>f g. block_of f \<inter> block_of g = {}) fs"

lemma length_image [simp]: "length (code (image_of calls (name, pc, is))) = items_size is"
  by (simp add: image_of_def)

lemma read_bytes_eq: "read_bytes a n m = bs \<longleftrightarrow> length bs = n \<and> write_bytes a bs m = m"
proof
  assume "read_bytes a n m = bs"
  then show "length bs = n \<and> write_bytes a bs m = m"
    by (auto simp: read_bytes_def write_bytes_def fun_eq_iff)
next
  assume "length bs = n \<and> write_bytes a bs m = m"
  then show "read_bytes a n m = bs" using read_write_bytes [of a bs m] by auto
qed

lemma holds_cong:
  assumes "\<And>x. x \<in> block_of f \<Longrightarrow> m' x = m x"
  shows "holds m' f xs = holds m f xs"
proof -
  obtain name pc "is" where f: "f = (name, pc, is)" by (cases f) blast
  have "map m' [pc..<pc + items_size is] = map m [pc..<pc + items_size is]"
    using assms by (intro map_cong) (auto simp: f block_of_def)
  then show ?thesis by (simp only: f holds_def read_bytes_def prod.case)
qed

lemma built_init: "jx_registry ctx = [] \<Longrightarrow> jx_sites ctx = [] \<Longrightarrow> arena_ok (jx_exec ctx) \<Longrightarrow> built [] ctx"
  by (simp add: built_def)

theorem compile_built:
  assumes sys: "system_ok sys" "MEMARENA_DEFAULT_SIZE + SIZEOF_ARENA_BLOCK + get_page_size sys \<le> 2 ^ 64"
      "items_size items + STACK_ALIGNMENT + SIZEOF_ARENA_BLOCK + get_page_size sys \<le> 2 ^ 64"
    and built: "built fs ctx"
    and f: "labels_ok f" "if_label_count f < MAX_LABELS" "length (ir_code f) = if_total_count f"
    and sel: "select_function f k = Ret (items, a)"
    and alloc: "arena_alloc_aligned sys (items_size items) STACK_ALIGNMENT (jx_exec ctx) = (addr, exec)" "addr \<noteq> 0"
    and room: "length fs < MAX_FUNCTION_COUNT" "length (jx_sites ctx) + length (callees items) \<le> MAX_CALL_SITES"
  shows "\<exists>ctx'. jit_compile_function sys ctx f name k = Ret ((addr, items_size items), ctx') \<and>
    built (fs @ [(name, addr, items)]) ctx' \<and> STACK_ALIGNMENT dvd addr"
proof -
  let ?c = "set_alloc a (fresh ctx f exec)" and ?new = "(name, addr, items)"
  let ?ctx = "(place addr items ?c)
      \<lparr>jx_registry := jx_registry ctx @ [\<lparr>cf_name = name, cf_addr = addr, cf_size = items_size items\<rparr>]\<rparr>"
  have ctx': "jit_compile_function sys ctx f name k = Ret ((addr, items_size items), ?ctx)"
    using built room(1) by (intro compile_refines f(2,3) sel alloc) (simp add: built_def)
  note shape = select_function_shape [OF sel f(1,2)]
  obtain ar rs where am: "jx_exec ctx = (ar, rs)" by force
  have ok: "arena_ok (ar, rs)" using built by (simp add: built_def am)
  have "allocates (items_size items) STACK_ALIGNMENT (ar, rs) (addr, exec)"
    using alloc_allocates [OF sys(1) sys(3,2) ok] alloc(1) by (simp add: am)
  then have exec: "arena_ok exec" "used ar \<subseteq> used (fst exec)" "STACK_ALIGNMENT dvd addr"
      "block_of ?new \<subseteq> used (fst exec)" "block_of ?new \<inter> used ar = {}"
    using alloc(2) by (auto simp: allocates_def block_of_def)
  have fresh: "jx_mem ?c = jx_mem ctx" "jx_sites ?c = jx_sites ctx" "jx_exec ?c = exec" "jx_patches ?c = []"
      "\<forall>l. \<not> jx_label_defined ?c l"
    by (simp_all add: fresh_def) (simp_all add: reset_state_def)
  have mem: "jx_mem ?ctx = write_bytes addr (code (image_of (\<lambda>_. placeholder) ?new)) (jx_mem ctx)"
    using place_image [OF shape(1) _ fresh(5,4), of addr] alloc(2) fresh(1) by (simp add: image_of_def)
  have sites: "jx_sites ?ctx = jx_sites ctx @ call_fields addr items"
    using place_sites [of ?c addr items] room(2) call_fields_targets [of addr items, THEN arg_cong, of length] fresh(2)
    by (simp del: place_alloc(2))
  have same: "holds (jx_mem ?ctx) g xs = holds (jx_mem ctx) g xs" if "g \<in> set fs" for g xs
  proof (rule holds_cong)
    fix x assume "x \<in> block_of g"
    then have "x \<notin> block_of ?new" using that built exec(5) by (auto simp: built_def am)
    then show "jx_mem ?ctx x = jx_mem ctx x"
      unfolding mem by (intro write_bytes_outside) (auto simp: block_of_def)
  qed
  have "holds (jx_mem ?ctx) ?new (image_of (\<lambda>_. placeholder) ?new)"
    unfolding mem holds_def using read_write_bytes [of addr "code (image_of (\<lambda>_. placeholder) ?new)"] by simp
  moreover have "jx_exec ?ctx = exec" using fresh(3) by simp
  moreover have "block_of g \<subseteq> used (fst exec) \<and> block_of g \<inter> block_of ?new = {}" if "g \<in> set fs" for g
    using that built exec(2,5) by (fastforce simp: built_def am)
  ultimately have "built (fs @ [?new]) ?ctx"
    using built exec(1,4) alloc(2) shape(2) same sites
    by (simp add: built_def am sorted_wrt_append del: place_alloc(2))
  then show ?thesis using ctx' exec(3) by blast
qed

section \<open>The linked program\<close>

lemma fill_sites_outside:
  assumes "\<And>s. s \<in> set ss \<Longrightarrow> {cs_location s..<cs_location s + 8} \<inter> block_of f = {}"
  shows "holds (fill_sites fs ss mem) f xs = holds mem f xs"
  using assms
proof (induction ss arbitrary: mem)
  case (Cons s ss)
  have "holds (fill_site fs s mem) f xs = holds mem f xs"
  proof (rule holds_cong)
    fix x assume "x \<in> block_of f"
    then have "x \<notin> {cs_location s..<cs_location s + 8}" using Cons.prems [of s] by auto
    then show "fill_site fs s mem x = mem x"
      unfolding fill_site_def by (auto intro!: write_bytes_outside)
  qed
  then show ?case using Cons.IH [of "fill_site fs s mem"] Cons.prems by simp
qed simp

definition sites_of :: "placed_function \<Rightarrow> call_site list" where
  "sites_of = (\<lambda>(name, pc, is). call_fields pc is)"

lemma sites_in_block: "s \<in> set (sites_of f) \<Longrightarrow> {cs_location s..<cs_location s + 8} \<subseteq> block_of f"
  using call_fields_range by (fastforce simp: sites_of_def block_of_def split: prod.splits)

lemma fill_own_sites:
  assumes "holds mem f (image_of c f)"
  shows "holds (fill_sites fs (sites_of f) mem) f (image_of (filled fs c) f)"
proof -
  obtain name pc "is" where f: "f = (name, pc, is)" by (cases f) blast
  let ?lab = "label_addresses pc is"
  have "write_bytes pc (code (assemble ?lab c pc is)) mem = mem"
    using assms by (simp add: f holds_def image_of_def read_bytes_eq)
  then have "fill_sites fs (call_fields pc is) mem = write_bytes pc (code (assemble ?lab (filled fs c) pc is)) mem"
    using filling [of fs pc "is" ?lab c mem] by (simp add: f)
  then show ?thesis
    using read_write_bytes [of pc "code (assemble ?lab (filled fs c) pc is)"] by (simp add: f holds_def image_of_def sites_of_def)
qed

lemma fill_program:
  assumes "sorted_wrt (\<lambda>f g. block_of f \<inter> block_of g = {}) fs" and f: "f \<in> set fs"
    and img: "holds mem f (image_of c f)"
  shows "holds (fill_sites R (concat (map sites_of fs)) mem) f (image_of (filled R c) f)"
proof -
  obtain xs ys where fs: "fs = xs @ f # ys" using f by (meson split_list)
  have disj: "block_of g \<inter> block_of f = {}" if "g \<in> set xs \<union> set ys" for g
    using assms(1) that by (auto simp: fs sorted_wrt_append)
  have away: "{cs_location s..<cs_location s + 8} \<inter> block_of f = {}"
    if "s \<in> set (concat (map sites_of xs)) \<union> set (concat (map sites_of ys))" for s
    using that disj sites_in_block by fastforce
  have "holds (fill_sites R (concat (map sites_of xs)) mem) f (image_of c f)"
    using img away by (subst fill_sites_outside) auto
  then have "holds (fill_sites R (sites_of f) (fill_sites R (concat (map sites_of xs)) mem)) f (image_of (filled R c) f)"
    by (rule fill_own_sites)
  moreover have "{cs_location s..<cs_location s + 8} \<inter> block_of f = {}" if "s \<in> set (concat (map sites_of ys))" for s
    using that away by blast
  ultimately show ?thesis
    by (simp add: fs fill_sites_outside del: set_concat)
qed

lemma fill_sites_elsewhere:
  "(\<And>s. s \<in> set ss \<Longrightarrow> x \<notin> {cs_location s..<cs_location s + 8}) \<Longrightarrow> fill_sites fs ss mem x = mem x"
proof (induction ss arbitrary: mem)
  case (Cons s ss)
  have "fill_site fs s mem x = mem x"
    using Cons.prems [of s] unfolding fill_site_def by (auto intro!: write_bytes_outside)
  then show ?case using Cons.IH [of "fill_site fs s mem"] Cons.prems by simp
qed simp

lemma resolve_zero:
  assumes built: "built fs ctx"
  shows "resolve (jx_registry ctx) g \<noteq> 0 \<longleftrightarrow> g \<in> fst ` set fs"
proof -
  have sv: "sv_eq a b \<longleftrightarrow> a = b" for a b by (auto simp: sv_eq_def)
  have names: "cf_name ` set (jx_registry ctx) = fst ` set fs" and addrs: "\<forall>x\<in>set (jx_registry ctx). cf_addr x \<noteq> 0"
    using built by (auto simp: built_def image_image case_prod_unfold)
  show ?thesis
  proof (cases "find (\<lambda>f. sv_eq g (cf_name f)) (jx_registry ctx)")
    case None
    then have "g \<notin> cf_name ` set (jx_registry ctx)" by (auto simp: find_None_iff sv)
    then show ?thesis using None by (simp add: resolve_def names)
  next
    case (Some x)
    then have "x \<in> set (jx_registry ctx)" "cf_name x = g" by (auto simp: find_Some_iff sv)
    then show ?thesis using Some addrs names by (auto simp: resolve_def)
  qed
qed

theorem link_built:
  assumes built: "built fs ctx"
  shows "\<exists>ctx' errs. jit_link_all ctx errors = (\<forall>f\<in>set fs. set (callees (snd (snd f))) \<subseteq> fst ` set fs, ctx', errs) \<and>
    error_count errs = error_count errors + length (unresolved (jx_registry ctx) (jx_sites ctx)) \<and>
    jx_registry ctx' = jx_registry ctx \<and>
    (\<forall>x. (\<forall>s\<in>set (jx_sites ctx). x \<notin> {cs_location s..<cs_location s + 8}) \<longrightarrow> jx_mem ctx' x = jx_mem ctx x) \<and>
    (\<forall>f\<in>set fs. holds (jx_mem ctx') f (image_of (filled (jx_registry ctx) (\<lambda>_. placeholder)) f)) \<and>
    (\<forall>f\<in>set fs. set (callees (snd (snd f))) \<subseteq> fst ` set fs \<longrightarrow>
       holds (jx_mem ctx') f (image_of (\<lambda>g. of_nat (resolve (jx_registry ctx) g)) f))"
proof -
  let ?R = "jx_registry ctx"
  obtain errs where l: "link_sites ?R (jx_sites ctx) (jx_mem ctx) errors =
      (resolves ?R (jx_sites ctx), fill_sites ?R (jx_sites ctx) (jx_mem ctx), errs)"
      "error_count errs = error_count errors + length (unresolved ?R (jx_sites ctx))"
    using link_sites_eq by blast
  let ?ctx = "ctx\<lparr>jx_mem := fill_sites ?R (jx_sites ctx) (jx_mem ctx)\<rparr>"
  have s: "jx_sites ctx = concat (map sites_of fs)" using built by (simp add: built_def sites_of_def)
  have targets: "cs_target ` set (sites_of f) = set (callees (snd (snd f)))" for f
    using call_fields_targets [of "fst (snd f)" "snd (snd f)", THEN arg_cong, of set]
    by (cases f) (simp add: sites_of_def)
  have "(\<forall>s\<in>set (sites_of f). resolve ?R (cs_target s) \<noteq> 0) \<longleftrightarrow> (\<forall>g\<in>set (callees (snd (snd f))). resolve ?R g \<noteq> 0)" for f
    unfolding targets [symmetric] by simp
  then have "resolves ?R (jx_sites ctx) \<longleftrightarrow> (\<forall>f\<in>set fs. \<forall>g\<in>set (callees (snd (snd f))). resolve ?R g \<noteq> 0)"
    unfolding resolves_def s by simp
  then have ok: "resolves ?R (jx_sites ctx) \<longleftrightarrow> (\<forall>f\<in>set fs. set (callees (snd (snd f))) \<subseteq> fst ` set fs)"
    using resolve_zero [OF built] by blast
  have apart: "sorted_wrt (\<lambda>f g. block_of f \<inter> block_of g = {}) fs"
    and img: "\<And>f. f \<in> set fs \<Longrightarrow> holds (jx_mem ctx) f (image_of (\<lambda>_. placeholder) f)"
    using built by (simp_all add: built_def)
  have all: "holds (jx_mem ?ctx) f (image_of (filled ?R (\<lambda>_. placeholder)) f)" if "f \<in> set fs" for f
    unfolding s using fill_program [OF apart that img [OF that], of ?R] by simp
  have "holds (jx_mem ?ctx) f (image_of (\<lambda>g. of_nat (resolve ?R g)) f)"
    if "f \<in> set fs" "set (callees (snd (snd f))) \<subseteq> fst ` set fs" for f
  proof -
    have "\<forall>g\<in>set (callees (snd (snd f))). resolve ?R g \<noteq> 0"
      using that(2) resolve_zero [OF built] by blast
    then have "image_of (filled ?R (\<lambda>_. placeholder)) f = image_of (\<lambda>g. of_nat (resolve ?R g)) f"
      by (cases f) (auto simp: image_of_def filled_def intro!: assemble_callees)
    then show ?thesis using all [OF that(1)] by simp
  qed
  moreover have "jit_link_all ctx errors = (resolves ?R (jx_sites ctx), ?ctx, errs)"
    by (simp add: jit_link_all_def l(1))
  moreover have "jx_mem ?ctx x = jx_mem ctx x" if "\<forall>s\<in>set (jx_sites ctx). x \<notin> {cs_location s..<cs_location s + 8}" for x
    using fill_sites_elsewhere [of "jx_sites ctx" x] that by simp
  moreover have "jx_registry ?ctx = ?R" by simp
  ultimately show ?thesis
    using l(2) all unfolding ok by blast
qed

section \<open>What linking does\<close>

lemma resolve_placed:
  "resolve (map (\<lambda>(name, pc, is). \<lparr>cf_name = name, cf_addr = pc, cf_size = items_size is\<rparr>) fs) g =
     (case map_of fs g of None \<Rightarrow> 0 | Some (addr, items) \<Rightarrow> addr)"
  by (induction fs) (auto simp: resolve_def sv_eq_iff)

text \<open>All calls of a program, and the address that each gets: that of the first function of its name, or the placeholder.\<close>

definition calls_of :: "placed_function list \<Rightarrow> string list" where
  "calls_of fs = concat (map (\<lambda>(name, pc, is). callees is) fs)"

definition call_target :: "placed_function list \<Rightarrow> string \<Rightarrow> u64" where
  "call_target fs g = (case map_of fs g of None \<Rightarrow> placeholder | Some (addr, items) \<Rightarrow> of_nat addr)"

lemma built_resolve:
  assumes "built fs ctx"
  shows "resolve (jx_registry ctx) g = 0 \<longleftrightarrow> g \<notin> fst ` set fs" "filled (jx_registry ctx) (\<lambda>_. placeholder) g = call_target fs g"
proof -
  show unknown: "resolve (jx_registry ctx) g = 0 \<longleftrightarrow> g \<notin> fst ` set fs" using resolve_zero [OF assms] by blast
  have r: "resolve (jx_registry ctx) g = (case map_of fs g of None \<Rightarrow> 0 | Some (addr, items) \<Rightarrow> addr)"
    using assms by (simp only: built_def resolve_placed)
  show "filled (jx_registry ctx) (\<lambda>_. placeholder) g = call_target fs g"
  proof (cases "map_of fs g")
    case None
    then show ?thesis by (simp add: filled_def call_target_def r)
  next
    case (Some p)
    then have "g \<in> fst ` set fs" by (metis map_of_eq_None_iff option.distinct(1))
    then have "resolve (jx_registry ctx) g \<noteq> 0" using unknown by simp
    then show ?thesis using Some by (simp add: filled_def call_target_def r split: prod.split)
  qed
qed

lemma built_unresolved:
  assumes "built fs ctx"
  shows "length (unresolved (jx_registry ctx) (jx_sites ctx)) = length (filter (\<lambda>g. g \<notin> fst ` set fs) (calls_of fs))"
proof -
  have "map cs_target (jx_sites ctx) = calls_of fs"
    using assms by (simp add: built_def calls_of_def map_concat o_def case_prod_unfold call_fields_targets)
  then have "length (filter (\<lambda>g. resolve (jx_registry ctx) g = 0) (calls_of fs)) = length (unresolved (jx_registry ctx) (jx_sites ctx))"
    by (simp add: unresolved_def filter_map o_def flip: \<open>map cs_target (jx_sites ctx) = calls_of fs\<close>)
  then show ?thesis by (simp add: built_resolve(1) [OF assms])
qed

lemma built_decodes:
  assumes "built fs ctx" "(name, pc, is) \<in> set fs" "holds mem (name, pc, is) (image_of (filled (jx_registry ctx) (\<lambda>_. placeholder)) (name, pc, is))"
  shows "decodes (read_bytes pc (items_size is) mem) (assemble (label_addresses pc is) (call_target fs) pc is)"
proof -
  have "filled (jx_registry ctx) (\<lambda>_. placeholder) = call_target fs" using built_resolve(2) [OF assms(1)] by (rule ext)
  moreover have "list_all encodable (ops is)" using assms(1,2) by (fastforce simp: built_def)
  ultimately show ?thesis
    using assms(3) decodes_asm [OF encodable_ops_code, of "is"] by (simp add: holds_def image_of_def code_def del: decodes.simps)
qed

end
