(* ===== verification/Program.thy ===== *)
theory Program
  imports Driver CodeSize Linking IrStatementFacts
begin

text \<open>
  The phases behind the analysis taken together. Every function definition of the parsed files is
  translated to intermediate code, selected, placed in executable memory and linked; when \<open>main\<close> of
  the program is called, memory holds the linked code of every one of them.
\<close>

section \<open>What intermediate code guarantees\<close>

lemma ir_gen_compiles:
  assumes "ir_gen S0 junk root errors filename = Ret (Some f, errs)"
  shows "labels_ok f" "length (ir_code f) = if_total_count f" "length (ir_code f) < MAX_IR_INSTRUCTIONS_PER_FUNCTION"
  using ir_gen_inv [OF assms] by (auto simp: fun_inv_def Let_def room_def chunks_ok_def labels_ok_def)

text \<open>The pages of the machine are smaller than half the address space.\<close>

definition machine_ok :: "system \<Rightarrow> bool" where
  "machine_ok sys \<longleftrightarrow> system_ok sys \<and> get_page_size sys \<le> 2 ^ 63"

section \<open>One function\<close>

lemma place_sites_full: "MAX_CALL_SITES \<le> length (jx_sites ctx) \<Longrightarrow> jx_sites (place pc is ctx) = jx_sites ctx"
proof (induction "is" arbitrary: pc ctx)
  case (Cons i "is")
  then have same: "jx_sites (place_item pc i ctx) = jx_sites ctx"
    by (simp del: place_item.simps split: item.split)
  then show ?case using Cons.IH [of "place_item pc i ctx"] Cons.prems by (simp del: place_item.simps)
qed simp

lemma place_sites_bound: "length (jx_sites (place pc is ctx)) \<le> length (jx_sites ctx) + length (callees is)"
proof (induction "is" arbitrary: pc ctx)
  case (Cons i "is")
  have "length (jx_sites (place_item pc i ctx)) + length (callees is) \<le> length (jx_sites ctx) + length (callees (i # is))"
    by (cases i) (simp_all add: shapes del: place_item.simps)
  then show ?case using Cons.IH [of "pc + item_size i" "place_item pc i ctx"] by (simp del: place_item.simps)
qed simp

text \<open>A context whose list of call sites is not full holds the functions \<open>fs\<close>.\<close>

definition tracks_all :: "placed_function list \<Rightarrow> jit \<Rightarrow> bool" where
  "tracks_all fs ctx \<longleftrightarrow> MAX_CALL_SITES \<le> length (jx_sites ctx) \<or> built fs ctx"

text \<open>\<open>implements d p\<close>: \<open>p\<close> is the code selected for the function definition \<open>d\<close>.\<close>

definition implements :: "ast \<Rightarrow> placed_function \<Rightarrow> bool" where
  "implements d = (\<lambda>(name, addr, items). \<exists>i ret params body S0 errors file f errs a.
     d = AstFunction i name ret params body False \<and> ir_gen S0 [] d errors file = Ret (Some f, errs) \<and>
     select_function f (length params) = Ret (items, a))"

text \<open>
  The same in two steps: \<open>translated stack0 d q\<close>, \<open>q\<close> has the name, intermediate code and number of
  parameters of the definition \<open>d\<close>, and \<open>selected q p\<close>, \<open>p\<close> is the code selected for \<open>q\<close>.
\<close>

type_synonym ir_program = "(string \<times> ir_function \<times> nat) list"

definition translated :: "(nat \<Rightarrow> nat) \<Rightarrow> ast \<Rightarrow> string \<times> ir_function \<times> nat \<Rightarrow> bool" where
  "translated stack0 d = (\<lambda>(name, f, k). \<exists>i ret params body m errors file errs.
     d = AstFunction i name ret params body False \<and> ir_gen (stack0 m) [] d errors file = Ret (Some f, errs) \<and> k = length params)"

definition selected :: "string \<times> ir_function \<times> nat \<Rightarrow> placed_function \<Rightarrow> bool" where
  "selected = (\<lambda>(name, f, k) (name', addr, items).
     name' = name \<and> if_label_count f < MAX_LABELS \<and> (\<exists>a. select_function f k = Ret (items, a)))"

lemma implements_selected: "translated stack0 d q \<Longrightarrow> selected q p \<Longrightarrow> implements d p"
  by (cases q; cases p) (auto simp: translated_def selected_def implements_def, blast)

lemma implements_all: "list_all2 (translated stack0) ds qs \<Longrightarrow> list_all2 selected qs gs \<Longrightarrow> list_all2 implements ds gs"
  by (rule list_all2_trans [of "translated stack0" selected implements]) (auto intro: implements_selected)

lemma compile_step:
  assumes sys: "machine_ok sys" and fs: "tracks_all fs ctx"
    and gen: "ir_gen S0 junk root errors filename = Ret (Some f, errs)"
    and run: "jit_compile_function sys ctx f name k = Ret ((addr, n), ctx')" "addr \<noteq> 0"
  shows "\<exists>items. selected (name, f, k) (name, addr, items) \<and> tracks_all (fs @ [(name, addr, items)]) ctx' \<and>
    length (jx_registry ctx') = Suc (length (jx_registry ctx)) \<and> length (jx_sites ctx') \<le> length (jx_sites ctx) + length (callees items)"
proof -
  note g = ir_gen_compiles [OF gen]
  obtain items a exec where labels: "if_label_count f < MAX_LABELS" and sel: "select_function f k = Ret (items, a)"
      and alloc: "arena_alloc_aligned sys (items_size items) STACK_ALIGNMENT (jx_exec ctx) = (addr, exec)"
      and reg: "length (jx_registry ctx) < MAX_FUNCTION_COUNT"
    using compile_cases [OF run g(2)] by metis
  let ?c = "set_alloc a (fresh ctx f exec)"
  have sites: "jx_sites ?c = jx_sites ctx" by (simp add: fresh_def)
  have sites': "jx_sites (fresh ctx f exec) = jx_sites ctx" by (simp add: fresh_def)
  have ctx': "jx_sites ctx' = jx_sites (place addr items ?c)"
    using compile_refines [OF labels g(2) sel alloc run(2) reg, of name] run(1) by auto
  have size: "items_size items < MAX_CODE_SIZE" by (rule select_function_size [OF sel g(3)])
  have "tracks_all (fs @ [(name, addr, items)]) ctx'"
  proof (cases "length (jx_sites ctx) + length (callees items) \<le> MAX_CALL_SITES \<and> length (jx_sites ctx) < MAX_CALL_SITES")
    case True
    then have built: "built fs ctx" using fs by (simp add: tracks_all_def)
    have len: "length fs < MAX_FUNCTION_COUNT" using built reg by (auto simp: built_def dest: arg_cong [of _ _ length])
    have mem: "MEMARENA_DEFAULT_SIZE + SIZEOF_ARENA_BLOCK + get_page_size sys \<le> 2 ^ 64"
        "items_size items + STACK_ALIGNMENT + SIZEOF_ARENA_BLOCK + get_page_size sys \<le> 2 ^ 64"
      using sys size
      by (simp_all add: machine_ok_def MEMARENA_DEFAULT_SIZE_def SIZEOF_ARENA_BLOCK_def STACK_ALIGNMENT_def MAX_CODE_SIZE_def)
    show ?thesis
      using compile_built [OF _ mem built g(1) labels g(2) sel alloc run(2) len, of name] True run(1) sys
      by (auto simp: machine_ok_def tracks_all_def)
  next
    case False
    have "MAX_CALL_SITES \<le> length (jx_sites (place addr items ?c))"
    proof (cases "length (jx_sites ctx) < MAX_CALL_SITES")
      case True
      then show ?thesis
        using False place_sites [of ?c addr items] call_fields_targets [of addr items, THEN arg_cong, of length] sites
        by (simp del: place_alloc(2))
    next
      case False
      then show ?thesis using place_sites_full [of ?c addr items] sites by simp
    qed
    then show ?thesis by (simp add: tracks_all_def ctx')
  qed
  moreover have "length (jx_registry ctx') = Suc (length (jx_registry ctx))"
    using compile_refines [OF labels g(2) sel alloc run(2) reg, of name] run(1) by auto
  moreover have "length (jx_sites ctx') \<le> length (jx_sites ctx) + length (callees items)"
    using place_sites_bound [of addr items ?c] by (simp add: ctx' sites')
  ultimately show ?thesis using sel labels by (auto simp: selected_def)
qed

section \<open>All functions\<close>

fun is_definition :: "ast \<Rightarrow> bool" where
  "is_definition (AstFunction i name ret params body proto) \<longleftrightarrow> \<not> proto"
| "is_definition _ = True"

definition definitions_of :: "compilation_unit list \<Rightarrow> ast list" where
  "definitions_of units = concat (map (\<lambda>u.
     if cu_parsed_ok u then (case declarations_of (cu_ast u) of Ret ds \<Rightarrow> filter is_definition ds | _ \<Rightarrow> []) else []) units)"

text \<open>
  The intermediate code of all definitions, one after the other, with the diagnostics on the way: what the pass
  computes apart from machine code. \<open>m\<close> counts the functions.
\<close>

fun translate_functions ::
  "(nat \<Rightarrow> nat) \<Rightarrow> string \<Rightarrow> ast list \<Rightarrow> nat \<Rightarrow> error_context \<Rightarrow> (ir_program \<times> error_context) outcome" where
  "translate_functions stack0 filename [] m errors = Ret ([], errors)"
| "translate_functions stack0 filename (d # ds) m errors =
     (case d of
        AstFunction i name ret params body proto \<Rightarrow>
          if proto then translate_functions stack0 filename ds m errors
          else obind (ir_gen (stack0 m) [] d errors filename) (\<lambda>(ir, errors).
            case ir of
              None \<Rightarrow> Fault Undefined
            | Some f \<Rightarrow> obind (translate_functions stack0 filename ds (Suc m) errors) (\<lambda>(P, errors).
                Ret ((name, f, length params) # P, errors)))
      | _ \<Rightarrow> Fault Undefined)"

fun translate_units ::
  "(nat \<Rightarrow> nat) \<Rightarrow> compilation_unit list \<Rightarrow> nat \<Rightarrow> error_context \<Rightarrow> (ir_program \<times> error_context) outcome" where
  "translate_units stack0 [] m errors = Ret ([], errors)"
| "translate_units stack0 (u # us) m errors =
     (if \<not> cu_parsed_ok u then translate_units stack0 us m errors
      else obind (declarations_of (cu_ast u)) (\<lambda>ds.
        obind (translate_functions stack0 (cu_name u) ds m errors) (\<lambda>(P, errors).
        obind (translate_units stack0 us (m + length P) errors) (\<lambda>(Q, errors). Ret (P @ Q, errors)))))"

lemma translate_functions_translated:
  "translate_functions stack0 filename ds m errors = Ret (P, errs) \<Longrightarrow> list_all2 (translated stack0) (filter is_definition ds) P"
proof (induction ds arbitrary: m errors P)
  case (Cons d ds)
  obtain i name ret params body proto where d: "d = AstFunction i name ret params body proto"
    using Cons.prems by (cases d) (auto simp del: ir_gen.simps)
  show ?case
  proof (cases proto)
    case True
    then show ?thesis using Cons by (simp add: d)
  next
    case False
    obtain f e Q where gen: "ir_gen (stack0 m) [] d errors filename = Ret (Some f, e)"
        and rest: "translate_functions stack0 filename ds (Suc m) e = Ret (Q, errs)" and P: "P = (name, f, length params) # Q"
      using Cons.prems False by (auto simp: d outcome_simps simp del: ir_gen.simps split: option.splits)
    have "translated stack0 d (name, f, length params)"
      unfolding translated_def using False d gen by blast
    then show ?thesis using Cons.IH [OF rest] False by (simp add: P d)
  qed
qed simp

lemma translate_units_translated:
  "translate_units stack0 units m errors = Ret (P, errs) \<Longrightarrow> list_all2 (translated stack0) (definitions_of units) P"
proof (induction units arbitrary: m errors P)
  case (Cons u us)
  show ?case
  proof (cases "cu_parsed_ok u")
    case False
    then show ?thesis using Cons by (simp add: definitions_of_def)
  next
    case True
    obtain ds Q e R where ds: "declarations_of (cu_ast u) = Ret ds" "translate_functions stack0 (cu_name u) ds m errors = Ret (Q, e)"
        and rest: "translate_units stack0 us (m + length Q) e = Ret (R, errs)" and P: "P = Q @ R"
      using Cons.prems True by (auto simp: outcome_simps)
    show ?thesis
      using list_all2_appendI [OF translate_functions_translated [OF ds(2)] Cons.IH [OF rest]] ds(1) True
      by (simp add: definitions_of_def P)
  qed
qed (simp add: definitions_of_def)

text \<open>The number of calls in the code of functions.\<close>

definition call_count :: "placed_function list \<Rightarrow> nat" where
  "call_count fs = sum_list (map (\<lambda>(name, pc, is). length (callees is)) fs)"

lemma call_count_simps [simp]:
  "call_count [] = 0" "call_count ((g, a, is) # fs) = length (callees is) + call_count fs" "call_count (fs @ gs) = call_count fs + call_count gs"
  by (simp_all add: call_count_def)

text \<open>What a part of the pass does: it places the code of \<open>gs\<close> for the intermediate code \<open>qs\<close>.\<close>

definition places :: "placed_function list \<Rightarrow> jit \<Rightarrow> ir_program \<Rightarrow> placed_function list \<Rightarrow> jit \<Rightarrow> bool" where
  "places fs ctx qs gs ctx' \<longleftrightarrow> list_all2 selected qs gs \<and> tracks_all (fs @ gs) ctx' \<and>
     length (jx_registry ctx') = length (jx_registry ctx) + length qs \<and>
     length (jx_sites ctx') \<le> length (jx_sites ctx) + call_count gs"

lemma places_trans: "places fs ctx qs gs ctx1 \<Longrightarrow> places (fs @ gs) ctx1 rs hs ctx' \<Longrightarrow> places fs ctx (qs @ rs) (gs @ hs) ctx'"
  by (auto simp: places_def intro: list_all2_appendI)

lemma compile_functions_places:
  "compile_functions sys stack0 file ds ctx errors = Ret (True, ctx', errs) \<Longrightarrow> machine_ok sys \<Longrightarrow> tracks_all fs ctx \<Longrightarrow>
   \<exists>qs gs. translate_functions stack0 file ds (length (jx_registry ctx)) errors = Ret (qs, errs) \<and> places fs ctx qs gs ctx'"
proof (induction ds arbitrary: ctx errors fs)
  case (Cons d ds)
  obtain i name ret params body proto where d: "d = AstFunction i name ret params body proto"
    using Cons.prems(1) by (cases d) auto
  show ?case
  proof (cases proto)
    case True
    then show ?thesis using Cons.prems Cons.IH [of ctx errors fs] by (simp add: d)
  next
    case False
    let ?m = "length (jx_registry ctx)"
    obtain f e addr n ctx1 where gen: "ir_gen (stack0 ?m) [] d errors file = Ret (Some f, e)"
        and c: "jit_compile_function sys ctx f name (length params) = Ret ((addr, n), ctx1)" "addr \<noteq> 0"
        and rest: "compile_functions sys stack0 file ds ctx1 e = Ret (True, ctx', errs)"
      using Cons.prems(1) False by (auto simp: d outcome_simps split: option.splits if_splits)
    let ?q = "(name, f, length params)"
    obtain items where it: "selected ?q (name, addr, items)" "tracks_all (fs @ [(name, addr, items)]) ctx1"
        "length (jx_registry ctx1) = Suc ?m" "length (jx_sites ctx1) \<le> length (jx_sites ctx) + length (callees items)"
      using compile_step [OF Cons.prems(2,3) gen c] by blast
    obtain qs gs where gs: "translate_functions stack0 file ds (Suc ?m) e = Ret (qs, errs)" "places (fs @ [(name, addr, items)]) ctx1 qs gs ctx'"
      using Cons.IH [OF rest Cons.prems(2) it(2)] it(3) by auto
    have "places fs ctx [?q] [(name, addr, items)] ctx1" using it by (simp add: places_def)
    then have "places fs ctx (?q # qs) ((name, addr, items) # gs) ctx'" using places_trans gs(2) by fastforce
    moreover have "translate_functions stack0 file (d # ds) ?m errors = Ret (?q # qs, errs)"
      using gen gs(1) False by (simp add: d del: ir_gen.simps)
    ultimately show ?thesis by blast
  qed
qed (auto simp: places_def intro: exI [of _ "[]"])

lemma compile_pass_places:
  "jit_compile_pass sys stack0 units ctx errors = Ret (True, ctx', errs) \<Longrightarrow> machine_ok sys \<Longrightarrow> tracks_all fs ctx \<Longrightarrow>
   \<exists>qs gs. translate_units stack0 units (length (jx_registry ctx)) errors = Ret (qs, errs) \<and> places fs ctx qs gs ctx'"
proof (induction units arbitrary: ctx errors fs)
  case (Cons u us)
  show ?case
  proof (cases "cu_parsed_ok u")
    case False
    then show ?thesis using Cons by simp
  next
    case True
    obtain ds c1 e1 where ds: "declarations_of (cu_ast u) = Ret ds"
        and c: "compile_functions sys stack0 (cu_name u) ds ctx errors = Ret (True, c1, e1)"
        and rest: "jit_compile_pass sys stack0 us c1 e1 = Ret (True, ctx', errs)"
      using Cons.prems(1) True by (auto simp: outcome_simps split: if_splits)
    obtain qs gs where gs: "translate_functions stack0 (cu_name u) ds (length (jx_registry ctx)) errors = Ret (qs, e1)" "places fs ctx qs gs c1"
      using compile_functions_places [OF c Cons.prems(2,3)] by blast
    then have c1: "tracks_all (fs @ gs) c1" "length (jx_registry c1) = length (jx_registry ctx) + length qs" by (simp_all add: places_def)
    obtain rs hs where hs: "translate_units stack0 us (length (jx_registry c1)) e1 = Ret (rs, errs)" "places (fs @ gs) c1 rs hs ctx'"
      using Cons.IH [OF rest Cons.prems(2) c1(1)] by blast
    have "translate_units stack0 (u # us) (length (jx_registry ctx)) errors = Ret (qs @ rs, errs)"
      using gs(1) hs(1) ds True by (simp add: c1(2))
    then show ?thesis using places_trans [OF gs(2) hs(2)] by blast
  qed
qed (auto simp: places_def intro: exI [of _ "[]"])

lemma compile_pass_built:
  "jit_compile_pass sys stack0 units ctx errors = Ret (True, ctx', errs) \<Longrightarrow> machine_ok sys \<Longrightarrow> tracks_all fs ctx \<Longrightarrow>
   \<exists>gs. list_all2 implements (definitions_of units) gs \<and> tracks_all (fs @ gs) ctx'"
  using compile_pass_places translate_units_translated implements_all unfolding places_def by meson

section \<open>The code that runs\<close>

text \<open>Memory decodes to the linked code of a function.\<close>

definition linked :: "jit \<Rightarrow> placed_function \<Rightarrow> bool" where
  "linked ctx f \<longleftrightarrow> decodes (read_bytes (fst (snd f)) (items_size (snd (snd f))) (jx_mem ctx))
     (image_of (\<lambda>g. of_nat (resolve (jx_registry ctx) g)) f)"

lemma holds_linked:
  assumes "list_all encodable (ops (snd (snd f)))" "holds (jx_mem ctx) f (image_of (\<lambda>g. of_nat (resolve (jx_registry ctx) g)) f)"
  shows "linked ctx f"
proof -
  obtain name pc "is" where f: "f = (name, pc, is)" by (cases f)
  show ?thesis
    using assms decodes_asm [OF encodable_ops_code, of "is"]
    by (simp add: linked_def f holds_def image_of_def code_def del: decodes.simps)
qed

text \<open>More precisely, it is the code of the function with the addresses of its callees.\<close>

definition loaded :: "jit \<Rightarrow> placed_function \<Rightarrow> bool" where
  "loaded ctx f \<longleftrightarrow> list_all encodable (ops (snd (snd f))) \<and>
     holds (jx_mem ctx) f (image_of (\<lambda>g. of_nat (resolve (jx_registry ctx) g)) f)"

lemma loaded_linked: "loaded ctx f \<Longrightarrow> linked ctx f"
  by (auto simp: loaded_def intro: holds_linked)

lemma link_all_loaded:
  assumes "built fs ctx" "jit_link_all ctx errors = (True, ctx', errs)"
  shows "\<forall>f\<in>set fs. loaded ctx' f \<and> set (callees (snd (snd f))) \<subseteq> fst ` set fs"
    and "jx_registry ctx' = jx_registry ctx"
proof -
  obtain ok: "\<forall>f\<in>set fs. set (callees (snd (snd f))) \<subseteq> fst ` set fs" and reg: "jx_registry ctx' = jx_registry ctx"
      and img: "\<And>f. f \<in> set fs \<Longrightarrow> holds (jx_mem ctx') f (image_of (\<lambda>g. of_nat (resolve (jx_registry ctx) g)) f)"
    using link_built [OF assms(1), of errors] assms(2) by auto
  show "jx_registry ctx' = jx_registry ctx" by (rule reg)
  show "\<forall>f\<in>set fs. loaded ctx' f \<and> set (callees (snd (snd f))) \<subseteq> fst ` set fs"
    using ok img assms(1) by (auto simp: built_def reg loaded_def)
qed

lemma jit_init_tracks: "tracks_all [] (jit_ctx_init (arena_init p, mapped) mem)"
  by (simp add: tracks_all_def built_def jit_ctx_init_def arena_ok_def arena_init_def)

text \<open>
  A program that is run: \<open>qs\<close> is the intermediate code of its function definitions, in order, and \<open>fs\<close> are
  selected for them; the entry called is that of \<open>main\<close>; and unless the list of call sites is full, every function
  is in memory and calls only functions that are there.
\<close>

theorem run_program_loads:
  assumes sys: "machine_ok sys"
    and run: "run_program sys stack0 run mem mapped units errors = Ret (c, Some r, errs)"
  shows "\<exists>qs errs fs ctx entry. translate_units stack0 units 0 errors = Ret (qs, errs) \<and> list_all2 selected qs fs \<and>
    run ctx entry = Ret r \<and> entry = resolve (jx_registry ctx) ''main'' \<and> length (jx_sites ctx) \<le> call_count fs \<and>
    (length (jx_sites ctx) < MAX_CALL_SITES \<longrightarrow>
       jx_registry ctx = map (\<lambda>(name, pc, is). \<lparr>cf_name = name, cf_addr = pc, cf_size = items_size is\<rparr>) fs \<and>
       (\<exists>items. (''main'', entry, items) \<in> set fs) \<and>
       sorted_wrt (\<lambda>f g. block_of f \<inter> block_of g = {}) fs \<and>
       (\<forall>f\<in>set fs. loaded ctx f \<and> set (callees (snd (snd f))) \<subseteq> fst ` set fs))"
proof -
  let ?init = "jit_ctx_init (arena_init PROT_RW, mapped) mem"
  obtain ctx e1 where pass: "jit_compile_pass sys stack0 units ?init errors = Ret (True, ctx, e1)"
    using run by (auto simp: run_program_def outcome_simps split: if_splits)
  obtain ctx1 e2 where link: "jit_link_all ctx e1 = (True, ctx1, e2)"
    using run by (auto simp: run_program_def outcome_simps pass split: if_splits prod.splits)
  obtain exec where prot: "arena_set_prot sys (snd (jx_exec ctx1)) (fst (jx_exec ctx1)) PROT_RX = (True, exec)"
    using run by (cases "arena_set_prot sys (snd (jx_exec ctx1)) (fst (jx_exec ctx1)) PROT_RX")
      (auto simp: run_program_def pass link Let_def split: if_splits)
  let ?ctx = "ctx1\<lparr>jx_exec := (exec, snd (jx_exec ctx1))\<rparr>"
  obtain m where m: "find (\<lambda>f. sv_eq_cstr (cf_name f) ''main'') (jx_registry ctx1) = Some m" and r: "run ?ctx (cf_addr m) = Ret r"
    using run by (auto simp: run_program_def outcome_simps pass link prot split: option.splits)
  have main: "cf_addr m = resolve (jx_registry ctx1) ''main''"
  proof -
    have "(\<lambda>f :: compiled_function. sv_eq ''main'' (cf_name f)) = (\<lambda>f. sv_eq_cstr (cf_name f) ''main'')" by (auto simp: sv_eq_cstr_def sv_eq_iff)
    then show ?thesis unfolding resolve_def by (simp only: m option.case)
  qed
  have init: "jx_registry ?init = []" "jx_sites ?init = []" by (simp_all add: jit_ctx_init_def)
  obtain qs fs where qs: "translate_units stack0 units 0 errors = Ret (qs, e1)" and "places [] ?init qs fs ctx"
    using compile_pass_places [OF pass sys jit_init_tracks] by (auto simp: init)
  then have fs: "list_all2 selected qs fs" "tracks_all fs ctx" "length (jx_sites ctx) \<le> call_count fs" by (simp_all add: places_def init)
  have sites: "jx_sites ctx1 = jx_sites ctx"
    using link by (auto simp: jit_link_all_def split: prod.splits)
  have "jx_registry ?ctx = map (\<lambda>(name, pc, is). \<lparr>cf_name = name, cf_addr = pc, cf_size = items_size is\<rparr>) fs \<and>
      (\<exists>items. (''main'', cf_addr m, items) \<in> set fs) \<and> sorted_wrt (\<lambda>f g. block_of f \<inter> block_of g = {}) fs \<and>
      (\<forall>f\<in>set fs. loaded ?ctx f \<and> set (callees (snd (snd f))) \<subseteq> fst ` set fs)"
    if "length (jx_sites ?ctx) < MAX_CALL_SITES"
  proof -
    have built: "built fs ctx" using fs(2) that sites by (simp add: tracks_all_def)
    note l = link_all_loaded [OF built link]
    have "m \<in> set (jx_registry ctx)" "cf_name m = ''main''"
      using m l(2) by (auto simp: find_Some_iff sv_eq_cstr_def)
    then show ?thesis using l built by (auto simp: built_def loaded_def)
  qed
  moreover have "cf_addr m = resolve (jx_registry ?ctx) ''main''" using main by simp
  moreover have "length (jx_sites ?ctx) \<le> call_count fs" using fs(3) sites by simp
  ultimately show ?thesis using qs fs(1) r by blast
qed

theorem run_program_runs:
  assumes sys: "machine_ok sys"
    and run: "run_program sys stack0 run mem mapped units errors = Ret (c, Some r, errs)"
  shows "\<exists>fs ctx entry. list_all2 implements (definitions_of units) fs \<and> run ctx entry = Ret r \<and>
    (call_count fs < MAX_CALL_SITES \<longrightarrow>
       (\<exists>items. (''main'', entry, items) \<in> set fs) \<and>
       (\<forall>f\<in>set fs. linked ctx f \<and> set (callees (snd (snd f))) \<subseteq> fst ` set fs))"
proof -
  obtain qs e fs ctx entry where tr: "translate_units stack0 units 0 errors = Ret (qs, e)" and sel: "list_all2 selected qs fs"
      and r: "run ctx entry = Ret r"
      and n: "length (jx_sites ctx) \<le> call_count fs" and l: "length (jx_sites ctx) < MAX_CALL_SITES \<Longrightarrow> (\<exists>items. (''main'', entry, items) \<in> set fs) \<and>
        (\<forall>f\<in>set fs. loaded ctx f \<and> set (callees (snd (snd f))) \<subseteq> fst ` set fs)"
    using run_program_loads [OF assms] by metis
  have "list_all2 implements (definitions_of units) fs"
    by (rule implements_all [OF translate_units_translated [OF tr] sel])
  moreover have "length (jx_sites ctx) < MAX_CALL_SITES" if "call_count fs < MAX_CALL_SITES" using n that by simp
  ultimately show ?thesis using r l loaded_linked by blast
qed

end
