(* ===== verification/IrCalls.thy ===== *)
theory IrCalls
  imports IrStatementFacts
begin

text \<open>
  Calls in intermediate code. The code generator keeps the arguments it has seen in an array of 32
  until the next call. \<open>arg_run\<close> counts them, and the contract \<open>settles\<close> says that a generator
  routine that reports no error leaves no argument without its call.
\<close>

section \<open>Pending arguments\<close>

text \<open>
  The number of pending arguments after \<open>is\<close>; \<open>None\<close> when the array overflows or anything but a further
  argument or the call comes behind an argument.
\<close>

fun arg_run :: "nat \<Rightarrow> instr list \<Rightarrow> nat option" where
  "arg_run n [] = Some n"
| "arg_run n (i # is) =
     (if in_op i = IR_ARG then (if n < MAX_PARAMS_PER_FUNCTION then arg_run (Suc n) is else None)
      else if in_op i = IR_CALL then arg_run 0 is
      else if n = 0 then arg_run 0 is else None)"

lemma arg_run_append: "arg_run n (is @ js) = Option.bind (arg_run n is) (\<lambda>m. arg_run m js)"
  by (induction n "is" rule: arg_run.induct) auto

definition pending_args :: "gen \<Rightarrow> nat option" where
  "pending_args g = arg_run 0 (ir_code (g_fun g))"

lemma pending_emit:
  assumes "room (g_fun g)"
  shows "pending_args (g_emit i g) =
    (if in_op i = IR_ARG
     then Option.bind (pending_args g) (\<lambda>n. if n < MAX_PARAMS_PER_FUNCTION then Some (Suc n) else None)
     else if in_op i = IR_CALL then map_option (\<lambda>_. 0) (pending_args g)
     else Option.bind (pending_args g) (\<lambda>n. if n = 0 then Some 0 else None))"
  using assms by (cases "pending_args g") (auto simp: pending_args_def emit_code arg_run_append)

section \<open>The contract\<close>

text \<open>
  \<open>advances\<close>: errors, code, registers and slots are only added and the instruction limit only approached;
  \<open>settles\<close>: moreover, if nothing went wrong, no argument is pending that was not pending before.
\<close>

definition advances :: "gen \<Rightarrow> gen \<Rightarrow> bool" where
  "advances g h \<longleftrightarrow> gen_errors g \<le> gen_errors h \<and> (room (g_fun h) \<longrightarrow> room (g_fun g)) \<and>
     prefix (ir_code (g_fun g)) (ir_code (g_fun h)) \<and> if_vreg_count (g_fun g) \<le> if_vreg_count (g_fun h) \<and>
     if_stack_count (g_fun g) \<le> if_stack_count (g_fun h)"

definition settles :: "gen \<Rightarrow> gen \<Rightarrow> bool" where
  "settles g h \<longleftrightarrow> advances g h \<and>
     (gen_errors h = gen_errors g \<longrightarrow> room (g_fun h) \<longrightarrow> pending_args g = Some 0 \<longrightarrow> pending_args h = Some 0)"

lemma advances_refl [simp]: "advances g g"
  by (simp add: advances_def)

lemma advances_trans: "advances g h \<Longrightarrow> advances h k \<Longrightarrow> advances g k"
  by (auto simp: advances_def)

lemma settles_refl [simp]: "settles g g"
  by (simp add: settles_def)

lemma settles_trans: "settles g h \<Longrightarrow> settles h k \<Longrightarrow> settles g k"
proof -
  assume a: "settles g h" "settles h k"
  then have "gen_errors h = gen_errors g \<and> gen_errors k = gen_errors h" if "gen_errors k = gen_errors g"
    using that by (auto simp: settles_def advances_def)
  then show "settles g k"
    using a by (auto simp: settles_def advances_def)
qed

lemma settles_after: "settles g h \<Longrightarrow> oall (settles h) m \<Longrightarrow> oall (settles g) m"
  by (erule oall_mono) (rule settles_trans)

lemma settles_bind:
  "oall (settles g) m \<Longrightarrow> (\<And>h. m = Ret h \<Longrightarrow> oall (settles h) (k h)) \<Longrightarrow> oall (settles g) (obind m k)"
  by (cases m) (auto intro: settles_after)

lemma settles_same:
  "g_fun h = g_fun g \<Longrightarrow> settles g h"
  by (simp add: settles_def advances_def pending_args_def)

lemma settles_fields [simp]:
  "settles k (g\<lparr>g_symbols := st\<rparr>) = settles k g" "settles k (g\<lparr>g_last_reg := r\<rparr>) = settles k g"
  "settles (g\<lparr>g_symbols := st\<rparr>) k = settles g k" "settles (g\<lparr>g_last_reg := r\<rparr>) k = settles g k"
  by (simp_all add: settles_def advances_def pending_args_def)

lemma advances_emit: "advances g (g_emit i g)"
  by (auto simp: advances_def emit_prefix emit_total room_def split: if_splits)

lemma settles_emit: "in_op i \<noteq> IR_ARG \<Longrightarrow> settles g (g_emit i g)"
  using advances_emit [of g i] by (auto simp: settles_def advances_def pending_emit)

lemma settles_error: "settles g (g_error ln c t g)"
  by (auto simp: settles_def advances_def g_error_def pending_args_def codegen_error_def room_def ir_code_def)

lemma alloc_fails: "g_alloc g = (None, h) \<Longrightarrow> gen_errors g < gen_errors h \<and> advances g h"
  by (auto simp: g_alloc_def ir_alloc_vreg_def advances_def room_def codegen_error_def ir_code_def split: if_splits)

lemma settles_alloc: "g_alloc g = (r, h) \<Longrightarrow> settles g h"
  by (auto simp: g_alloc_def ir_alloc_vreg_def settles_def advances_def pending_args_def room_def ir_code_def codegen_error_def
      split: if_splits)

lemma settles_label: "g_label g = (l, h) \<Longrightarrow> settles g h"
  by (auto simp: g_label_def settles_def advances_def pending_args_def room_def ir_code_def)

lemma settles_stack: "g_stack g = (s, h) \<Longrightarrow> settles g h"
  by (auto simp: g_stack_def settles_def advances_def pending_args_def room_def ir_code_def)

lemmas settles_steps = settles_emit settles_error settles_alloc settles_label settles_stack

section \<open>Expressions\<close>

abbreviation settled :: "gen \<Rightarrow> nat generated \<Rightarrow> bool" where
  "settled g \<equiv> oall (\<lambda>(r, h). settles g h)"

lemma settled_after: "settles g h \<Longrightarrow> settled h m \<Longrightarrow> settled g m"
  by (erule oall_mono) (auto intro: settles_trans)

lemma settled_bind:
  "settled g m \<Longrightarrow> (\<And>r h. settled h (k r h)) \<Longrightarrow> settled g (obind m (\<lambda>(r, h). k r h))"
  by (cases m) (auto intro: settled_after)

lemma settled_with_vreg:
  "(\<And>v h. settled h (k v h)) \<Longrightarrow> settled g (with_vreg g k)"
  by (auto simp: with_vreg_def dest!: settles_alloc intro: settled_after split: prod.split option.split)

text \<open>The arguments go out together: \<open>n\<close> arguments are pending behind them.\<close>

lemma emit_args_pending:
  "emit_args g n args rs = Ret h \<Longrightarrow> length rs = length args \<Longrightarrow> m + length rs \<le> MAX_PARAMS_PER_FUNCTION \<Longrightarrow>
   advances g h \<and> gen_errors h = gen_errors g \<and>
   (room (g_fun h) \<longrightarrow> pending_args g = Some m \<longrightarrow> pending_args h = Some (m + length rs))"
proof (induction g n args rs arbitrary: m rule: emit_args.induct)
  case (1 g i arg args r rs)
  then obtain t where t: "node_type_of arg = Ret t" by (auto simp: outcome_simps)
  let ?g = "g_emit ((instr_of IR_ARG t)\<lparr>in_src1 := r, in_imm := int i\<rparr>) g"
  have "emit_args ?g (Suc i) args rs = Ret h" using 1(2) by (simp add: t)
  note IH = 1(1) [OF t this, of "Suc m"]
  have "pending_args ?g = Some (Suc m)" if "room (g_fun g)" "pending_args g = Some m"
    using that 1(4) by (simp add: pending_emit)
  then show ?case
    using IH 1(3,4) advances_emit [of g "(instr_of IR_ARG t)\<lparr>in_src1 := r, in_imm := int i\<rparr>"]
    by (auto simp: advances_def)
qed simp_all

lemma call_settles:
  assumes rs: "length rs = length args" "length rs \<le> MAX_PARAMS_PER_FUNCTION"
  shows "settled g (obind (emit_args g 0 args rs) (\<lambda>g. with_vreg g (\<lambda>v g. Ret (v, g_emit ((instr_of IR_CALL t)\<lparr>in_dest := v, in_func := f\<rparr>) g))))"
proof (cases "emit_args g 0 args rs")
  case (Ret h)
  note e = emit_args_pending [OF Ret rs(1), of 0]
  obtain r k where k: "g_alloc h = (r, k)" by force
  show ?thesis
  proof (cases r)
    case None
    then show ?thesis
      using alloc_fails [of h k] e rs k by (auto simp: Ret with_vreg_def settles_def advances_def)
  next
    case (Some v)
    let ?i = "(instr_of IR_CALL t)\<lparr>in_dest := v, in_func := f\<rparr>"
    have k': "g_fun k = (g_fun h)\<lparr>if_vreg_count := Suc v\<rparr>"
      using alloc_Some(1) [of h v k] k by (simp add: Some)
    then have "room (g_fun k) = room (g_fun h)" "gen_errors k = gen_errors h" "pending_args k = pending_args h"
      by (simp_all add: room_def pending_args_def ir_code_def)
    moreover have adv: "advances g (g_emit ?i k)"
      using e rs(2) settles_alloc [OF k] advances_emit [of k ?i] by (simp add: settles_def) (metis advances_trans)
    moreover have "room (g_fun k)" if "room (g_fun (g_emit ?i k))"
      using that advances_emit [of k ?i] by (simp add: advances_def)
    ultimately have "settles g (g_emit ?i k)"
      using e rs by (auto simp: settles_def pending_emit simp del: g_fun_simps)
    then show ?thesis by (simp add: Ret with_vreg_def k Some)
  qed
qed simp_all

lemma gen_expression_settles:
  "settled g (gen_expression g e)"
  "oall (\<lambda>(rs, h). settles g h \<and> (\<forall>xs. rs = Some xs \<longrightarrow> length xs = length es \<and>
     (es = [] \<or> n + length xs \<le> MAX_PARAMS_PER_FUNCTION))) (gen_args g n es)"
proof (induction g e and g n es rule: gen_expression_gen_args.induct)
  case (2 g i v)
  then show ?case by (auto simp: gen_number_def settles_emit intro!: settled_with_vreg)
next
  case (3 g i nm)
  then show ?case
    by (auto simp: gen_identifier_def Let_def settles_error settles_emit intro!: settled_with_vreg split: option.split)
next
  case (4 g i name args)
  show ?case
    unfolding gen_expression.simps
  proof (rule obind_oall [OF 4], clarify)
    fix rs :: "nat list option" and h assume gh: "settles g h" and rs: "\<forall>xs. rs = Some xs \<longrightarrow> length xs = length args \<and> (args = [] \<or> 0 + length xs \<le> MAX_PARAMS_PER_FUNCTION)"
    show "settled g (case rs of None \<Rightarrow> Ret (0, h) | Some rs \<Rightarrow> obind (emit_args h 0 args rs) (\<lambda>g.
         with_vreg g (\<lambda>result_reg g. Ret (result_reg, g_emit ((instr_of IR_CALL (value_type i))
             \<lparr>in_dest := result_reg, in_func := name\<rparr>) g))))"
    proof (cases rs)
      case (Some xs)
      then have "length xs = length args" "length xs \<le> MAX_PARAMS_PER_FUNCTION" using rs by auto
      then show ?thesis using call_settles [of xs args h name "value_type i"] gh
        by (auto simp: Some intro: settled_after)
    qed (simp add: gh)
  qed
next
  case (5 g op i e)
  show ?case
    unfolding gen_expression.simps
  proof (rule settled_bind [OF 5])
    fix r h show "settled h (if r = 0 then Ret (0, h) else with_vreg h (\<lambda>dest g.
        Ret (dest, g_emit ((instr_of (unary_opcode op) (value_type i))\<lparr>in_dest := dest, in_src1 := r\<rparr>) g)))"
      by (cases op) (auto simp: settles_emit intro!: settled_with_vreg)
  qed
next
  case (6 g op i l e)
  have out: "settled k (with_vreg k (\<lambda>dest g. obind (node_type_of l) (\<lambda>t. Ret (dest,
      g_emit ((instr_of (binary_opcode op t) (value_type i))\<lparr>in_dest := dest, in_src1 := x, in_src2 := y\<rparr>) g))))" for k x y
  proof (rule settled_with_vreg)
    fix v h
    have "binary_opcode op t \<noteq> IR_ARG" for t by (cases op) auto
    then show "settled h (obind (node_type_of l) (\<lambda>t. Ret (v,
        g_emit ((instr_of (binary_opcode op t) (value_type i))\<lparr>in_dest := v, in_src1 := x, in_src2 := y\<rparr>) h)))"
      by (cases "node_type_of l") (simp_all add: settles_emit)
  qed
  show ?case
  proof (cases "gen_expression g l")
    case (Ret p)
    obtain x h where p: "p = (x, h)" by force
    have gh: "settles g h" using 6(1) by (simp add: Ret p)
    show ?thesis
    proof (cases "x = 0")
      case False
      have "settled h (obind (gen_expression h e) (\<lambda>(right, g). if right = 0 then Ret (0, g)
         else with_vreg g (\<lambda>dest g. obind (node_type_of l) (\<lambda>t. Ret (dest,
           g_emit ((instr_of (binary_opcode op t) (value_type i))\<lparr>in_dest := dest, in_src1 := x, in_src2 := right\<rparr>) g)))))"
        by (rule settled_bind [OF 6(2) [OF Ret p [symmetric] False]]) (auto intro: out)
      then show ?thesis using gh False by (auto simp: Ret p intro: settled_after)
    qed (simp add: Ret p gh)
  qed simp_all
next
  case (9 g n arg args)
  show ?case
  proof (cases "gen_expression g arg")
    case (Ret p)
    obtain r h where p: "p = (r, h)" by force
    have gh: "settles g h" using 9(1) by (simp add: Ret p)
    show ?thesis
    proof (cases "n < MAX_PARAMS_PER_FUNCTION \<and> r \<noteq> 0")
      case True
      then show ?thesis using 9(2) [OF Ret p [symmetric]] gh
        by (cases "gen_args h (Suc n) args"; cases "args = []") (auto simp: Ret p intro: settles_trans)
    qed (auto simp: Ret p gh)
  qed simp_all
qed (simp_all add: settles_error)

section \<open>Statements and functions\<close>

lemma expression_settles:
  assumes "settles g g1" "\<And>r h. oall (settles h) (k r h)"
  shows "oall (settles g) (obind (gen_expression g1 e) (\<lambda>(r, h). k r h))"
  using gen_expression_settles(1) [of g1 e] assms
  by (cases "gen_expression g1 e") (auto intro: settles_after settles_trans)

lemma emit_after: "in_op i \<noteq> IR_ARG \<Longrightarrow> settles (g_emit i g) h \<Longrightarrow> settles g h"
  by (rule settles_trans [OF settles_emit])

lemma settles_emits: "in_op i \<noteq> IR_ARG \<Longrightarrow> settles g h \<Longrightarrow> settles g (g_emit i h)"
  by (rule settles_trans [OF _ settles_emit])

lemma emit_then:
  "(\<And>g. oall (settles g) (statement g)) \<Longrightarrow> in_op i \<noteq> IR_ARG \<Longrightarrow> oall (settles g) (statement (g_emit i g))"
  by (rule settles_after [OF settles_emit])

lemma gen_var_decl_settles: "oall (settles g) (gen_var_decl g nm ty e)"
proof -
  obtain s h where s: "g_stack g = (s, h)" by force
  show ?thesis
    unfolding gen_var_decl_def s Let_def prod.case
    by (rule settles_after [OF settles_stack [OF s]], cases "symbol_table_add (g_symbols h) nm s")
      (auto simp: settles_emit settles_emits split: prod.split option.split intro!: expression_settles dest!: settles_alloc)
qed

lemma gen_assignment_settles: "oall (settles g) (gen_assignment g i nm e)"
  by (auto simp: gen_assignment_def Let_def settles_error settles_emit intro!: expression_settles split: option.split)

lemma gen_return_settles: "oall (settles g) (gen_return g i e)"
  by (auto simp: gen_return_def settles_emit intro!: expression_settles)

lemma gen_if_settles:
  assumes "\<And>g. oall (settles g) (statement g t)" "\<And>g. oall (settles g) (statement g e)"
  shows "oall (settles g) (gen_if statement g c t e)"
  unfolding gen_if_def
proof (rule expression_settles [OF settles_refl])
  fix r h
  obtain l a where l: "g_label h = (l, a)" by force
  obtain m b where m: "g_label a = (m, b)" by force
  have ab: "settles h a" "settles h b"
    using settles_label [OF l] settles_label [OF m] settles_trans by blast+
  have s: "oall (settles k) (statement (g_emit (jump_to op ty x y) k) u)" if "u \<in> {t, e}" "op \<noteq> IR_ARG" for k op ty x y u
    using that emit_then [of "\<lambda>g. statement g u"] assms by auto
  have "oall (settles b) (obind (statement (g_emit (jump_to IR_JZ ty r l) b) t) (\<lambda>g.
      let g = g_emit (jump_to IR_JMP TYPE_VOID 0 m) g; g = g_emit (jump_to IR_LABEL TYPE_VOID 0 l) g in
      obind (statement g e) (\<lambda>g. Ret (g_emit (jump_to IR_LABEL TYPE_VOID 0 m) g))))" for ty
    unfolding Let_def
proof (rule settles_bind [OF s])
    fix k
    let ?k = "g_emit (jump_to IR_LABEL TYPE_VOID 0 l) (g_emit (jump_to IR_JMP TYPE_VOID 0 m) k)"
    have "oall (settles ?k) (obind (statement ?k e) (\<lambda>g. Ret (g_emit (jump_to IR_LABEL TYPE_VOID 0 m) g)))"
      using assms(2) by (intro settles_bind) (auto simp: settles_emit)
    moreover have "settles k ?k" by (simp add: settles_emit settles_emits)
    ultimately show "oall (settles k) (obind (statement ?k e) (\<lambda>g. Ret (g_emit (jump_to IR_LABEL TYPE_VOID 0 m) g)))"
      by (rule settles_after [rotated])
  qed simp_all
  moreover have "oall (settles a) (obind (statement (g_emit (jump_to IR_JZ ty r l) a) t) (\<lambda>g.
      Ret (g_emit (jump_to IR_LABEL TYPE_VOID 0 l) g)))" for ty
    by (intro settles_bind s) (auto simp: settles_emit)
  ultimately show "oall (settles h) (obind (node_type_of c) (\<lambda>ty.
      if e \<noteq> AstNull then let (le, h) = g_label h; (ln, h) = g_label h in
        if r = 0 then Ret h
        else obind (statement (g_emit (jump_to IR_JZ ty r le) h) t) (\<lambda>h.
          let h = g_emit (jump_to IR_JMP TYPE_VOID 0 ln) h;
              h = g_emit (jump_to IR_LABEL TYPE_VOID 0 le) h in
          obind (statement h e) (\<lambda>h. Ret (g_emit (jump_to IR_LABEL TYPE_VOID 0 ln) h)))
      else let (ln, h) = g_label h in
        if r = 0 then Ret h
        else obind (statement (g_emit (jump_to IR_JZ ty r ln) h) t) (\<lambda>h.
          Ret (g_emit (jump_to IR_LABEL TYPE_VOID 0 ln) h))))"
    using ab by (cases "node_type_of c") (auto simp: l m Let_def intro: settles_after)
qed

lemma gen_while_settles:
  assumes "\<And>g. oall (settles g) (statement g b)"
  shows "oall (settles g) (gen_while statement g c b)"
proof -
  obtain l h where l: "g_label g = (l, h)" by force
  obtain m k where m: "g_label h = (m, k)" by force
  have gk: "settles g k" using settles_label [OF l] settles_label [OF m] settles_trans by blast
  have body: "oall (settles k) (obind (statement (g_emit (jump_to IR_JZ ty r m) k) b) (\<lambda>g.
      Ret (g_emit (jump_to IR_LABEL TYPE_VOID 0 m) (g_emit (jump_to IR_JMP TYPE_VOID 0 l) g))))" for k ty r
    using emit_then [of "\<lambda>g. statement g b", OF assms] by (intro settles_bind) (auto simp: settles_emit settles_emits)
  show ?thesis
    using gk body by (cases "node_type_of c") (auto simp: gen_while_def l m Let_def settles_emits intro!: expression_settles)
qed

lemma gen_statement_settles:
  "oall (settles g) (gen_statement g s)"
  "oall (settles g) (gen_statements g ss)"
proof (induction g s and g ss rule: gen_statement_gen_statements.induct)
  case (5 g i ss)
  have "oall (settles g) (gen_statements g ss)" using 5 by blast
  then have "oall (settles g) (obind (gen_statements g ss) (\<lambda>h. obind (symbol_table_restore (g_symbols h) n) (\<lambda>st. Ret (h\<lparr>g_symbols := st\<rparr>))))" for n
    by (rule obind_oall) (auto simp: oall_def outcome_simps)
  then show ?case by (simp add: gen_block_def Let_def)
qed (auto simp: gen_var_decl_settles gen_assignment_settles gen_return_settles gen_if_settles gen_while_settles
    simp del: gen_expression.simps intro!: expression_settles settles_bind)

end
