(* ===== verification/Progress.thy ===== *)
theory Progress
  imports Program IrCalls
begin

text \<open>
  Progress: a definition that is translated without an error is also selected, measured, written and
  registered, and a program of such definitions is run when it has a \<open>main\<close> and all its calls are defined, and is
  reported otherwise.
\<close>

section \<open>Intermediate code of clean functions\<close>

lemma gen_params_settles: "gen_params g ps = Ret (Some k, h) \<Longrightarrow> settles g k"
proof (induction ps arbitrary: g)
  case (Cons p ps)
  obtain v a where al: "g_alloc g = (v, a)" by force
  obtain w st where w: "v = Some w" and st: "symbol_table_add (g_symbols a) (param_name p) w = Ret st"
      and rest: "gen_params (a\<lparr>g_symbols := st\<rparr>) ps = Ret (Some k, h)"
    using Cons.prems al by (cases v) (auto simp: outcome_simps)
  show ?case
    using settles_alloc [OF al] Cons.IH [OF rest] by (auto intro: settles_trans)
qed simp

lemma ir_gen_args:
  assumes "ir_gen S0 junk (AstFunction i name ret params body proto) errors file = Ret (Some f, errs)"
    and "error_count errs = error_count errors"
  shows "arg_run 0 (ir_code f) = Some 0"
proof -
  let ?g = "gen_init (ir_function_init S0 name errors file)"
  have init: "pending_args ?g = Some 0" "gen_errors ?g = error_count errors"
    by (simp_all add: pending_args_def gen_init_def ir_function_init_def ir_code_def)
  obtain g h where g: "gen_params ?g params = Ret (Some g, h)"
      and body: "obind (gen_statements g (case body of AstBlock _ ss \<Rightarrow> ss | _ \<Rightarrow> [])) ir_finish = Ret (Some f, errs)"
    using assms(1) by (cases body) (auto simp: outcome_simps split: option.splits)
  obtain k where k: "gen_statements g (case body of AstBlock _ ss \<Rightarrow> ss | _ \<Rightarrow> []) = Ret k" "ir_finish k = Ret (Some f, errs)"
    using body by (auto simp: outcome_simps)
  have "settles ?g k"
    using gen_params_settles [OF g] oallD [OF gen_statement_settles(2) k(1)] by (rule settles_trans)
  then show ?thesis
    using ir_finish_room [OF k(2)] init assms(2) by (auto simp: settles_def pending_args_def)
qed

section \<open>Selection\<close>

lemma returns_obindI: "returns m \<Longrightarrow> (\<And>x. m = Ret x \<Longrightarrow> returns (k x)) \<Longrightarrow> returns (obind m k)"
  by (auto simp: returns_bind) (auto simp: returns_def)

lemma returns_pairE: "returns m \<Longrightarrow> (\<And>x y. m = Ret (x, y) \<Longrightarrow> thesis) \<Longrightarrow> thesis"
  by (auto simp: returns_def)

lemma al_location_returns: "v < MAX_VREGS_PER_FUNCTION \<Longrightarrow> returns (al_location a v)"
  by (simp add: al_location_def)

lemma al_locations_returns: "list_all (\<lambda>v. v < MAX_VREGS_PER_FUNCTION) vs \<Longrightarrow> returns (al_locations a vs)"
proof (induction vs arbitrary: a)
  case (Cons v vs)
  then show ?case by (auto intro!: returns_obindI al_location_returns)
qed simp

text \<open>The arguments that wait for their call are registers, and the effect of selection on them.\<close>

definition small_pending :: "alloc \<Rightarrow> bool" where
  "small_pending a \<longleftrightarrow> list_all (\<lambda>v. v < MAX_VREGS_PER_FUNCTION) (al_pending a)"

lemma select_returns:
  assumes ok: "instr_ok V S0 S L i" "V \<le> MAX_VREGS_PER_FUNCTION" and a: "small_pending a"
    and args: "in_op i = IR_ARG \<Longrightarrow> length (al_pending a) < MAX_PARAMS_PER_FUNCTION"
  shows "returns (select i a)"
proof (cases "in_op i = IR_CALL")
  case True
  have "list_all (\<lambda>v. v < MAX_VREGS_PER_FUNCTION) (rev (drop n (al_pending a)))"
      "list_all (\<lambda>v. v < MAX_VREGS_PER_FUNCTION) (rev (take n (al_pending a)))" for n
    using a by (auto simp: small_pending_def list_all_iff dest: in_set_dropD in_set_takeD)
  then show ?thesis
    using ok by (auto simp: select_def is_binary_def True instr_ok_def Let_def dest!: al_location_pending al_locations_pending
      intro!: returns_obindI al_location_returns al_locations_returns)
next
  case False
  then show ?thesis
    using ok args unfolding select_def instr_ok_def Let_def
    by (cases "in_op i") (auto simp: is_binary_def simp del: al_locations.simps
      intro!: returns_obindI al_location_returns al_locations_returns)
qed

lemma select_all_returns:
  "list_all (instr_ok V S0 S L) is \<Longrightarrow> V \<le> MAX_VREGS_PER_FUNCTION \<Longrightarrow> small_pending a \<Longrightarrow>
   arg_run (length (al_pending a)) is = Some n \<Longrightarrow> returns (select_all is a)"
proof (induction "is" arbitrary: a)
  case (Cons i "is")
  have args: "in_op i = IR_ARG \<Longrightarrow> length (al_pending a) < MAX_PARAMS_PER_FUNCTION"
    using Cons.prems(4) by (simp split: if_splits)
  have ok: "instr_ok V S0 S L i" "list_all (instr_ok V S0 S L) is" using Cons.prems(1) by simp_all
  obtain xs b where x: "select i a = Ret (xs, b)"
    using select_returns [OF ok(1) Cons.prems(2,3) args] by (rule returns_pairE)
  have "small_pending b"
    using Cons.prems(2,3) ok(1) by (auto simp: small_pending_def select_pending [OF x] instr_ok_def Let_def)
  moreover have "arg_run (length (al_pending b)) is = Some n"
    using Cons.prems(4) args by (cases "in_op i") (simp_all add: select_pending [OF x] split: if_splits)
  ultimately have "returns (select_all is b)" by (rule Cons.IH [OF ok(2) Cons.prems(2)])
  then show ?case by (auto simp: x intro!: returns_obindI)
qed simp

lemma select_params_returns: "i + n < MAX_VREGS_PER_FUNCTION \<Longrightarrow> returns (select_params n i a)"
proof (induction n arbitrary: i a)
  case (Suc n)
  have "returns (al_location a (i + 1))" using Suc.prems by (intro al_location_returns) simp
  then show ?case using Suc.IH [of "i + 1"] Suc.prems by (auto intro!: returns_obindI simp del: One_nat_def)
qed simp

lemma select_function_returns:
  assumes gen: "ir_gen S0 junk (AstFunction i name ret params body proto) errors file = Ret (Some f, errs)"
    and clean: "error_count errs = error_count errors"
  shows "returns (select_function f (length params))"
proof -
  have inv: "fun_inv S0 (1 + length params) {} {} f" using ir_gen_inv [OF gen] by simp
  then have "length params < MAX_VREGS_PER_FUNCTION" by (simp add: fun_inv_def Let_def)
  then obtain ps a where ps: "select_params (length params) 0 (initial_alloc (if_stack_count f)) = Ret (ps, a)"
    using returns_pairE [OF select_params_returns [of 0 "length params"]] by auto
  have "al_pending a = []" using select_params_size [OF ps] by (simp add: initial_alloc_def)
  then have "returns (select_all (ir_code f) a)"
    using inv ir_gen_args [OF gen clean] by (intro select_all_returns) (auto simp: fun_inv_def Let_def small_pending_def)
  then show ?thesis
    unfolding select_function_def by (auto simp: ps intro!: returns_obindI)
qed

section \<open>Memory\<close>

text \<open>A system that never runs out of memory and lets every page be protected.\<close>

definition grants :: "system \<Rightarrow> bool" where
  "grants sys \<longleftrightarrow> (\<forall>rs hint n prot. sys_mmap sys rs hint n prot \<noteq> None) \<and>
     (\<forall>rs a n prot. sys_mprotect sys rs a n prot)"

lemma grants_create:
  assumes "grants sys" "system_ok sys" "\<And>p. prev = Some p \<Longrightarrow> bk_base p \<noteq> 0"
  obtains b rs' where "arena_create_block sys cap prot prev rs = (Some b, rs')" "bk_base b \<noteq> 0"
proof -
  let ?hint = "map_option (\<lambda>p. bk_base p + bk_size p) prev" and ?n = "align_to_page sys (cap + SIZEOF_ARENA_BLOCK)"
  obtain base where base: "sys_mmap sys rs ?hint ?n prot = Some base"
    using assms(1) unfolding grants_def by blast
  then have "base \<noteq> 0" using assms(2) by (auto simp: system_ok_def)
  then have "\<exists>b rs'. arena_create_block sys cap prot prev rs = (Some b, rs') \<and> bk_base b \<noteq> 0"
    using base assms(3) by (cases prev) (auto simp: arena_create_block_def Let_def)
  then show thesis using that by blast
qed

lemma bump_nonzero: "ar_blocks a = b # bs \<Longrightarrow> bk_base b \<noteq> 0 \<Longrightarrow> fst (bump a pad sz) \<noteq> 0"
  by (simp add: bump_def)

lemma grants_alloc_in_block:
  assumes "grants sys" "system_ok sys" and a: "ar_blocks a = b # bs" "bk_base b \<noteq> 0"
  shows "fst (alloc_in_block sys sz align a rs) \<noteq> 0"
proof -
  let ?size = "if sz + align > MEMARENA_DEFAULT_SIZE then sz + align else MEMARENA_DEFAULT_SIZE"
  obtain c rs' where c: "arena_create_block sys ?size (ar_prot a) (Some b) rs = (Some c, rs')" "bk_base c \<noteq> 0"
    using grants_create [OF assms(1,2), of "Some b"] a(2) by blast
  show ?thesis
    unfolding alloc_in_block_def Let_def using a c
    by (auto simp: bump_def split: prod.split)
qed

lemma grants_alloc:
  assumes "grants sys" "system_ok sys" "arena_ok am" "0 < sz" "is_power_of_two align"
  shows "fst (arena_alloc_aligned sys sz align am) \<noteq> 0"
proof -
  obtain a rs where am: "am = (a, rs)" by force
  let ?size = "if sz > MEMARENA_DEFAULT_SIZE then sz else MEMARENA_DEFAULT_SIZE"
  obtain c rs' where c: "arena_create_block sys ?size (ar_prot a) None rs = (Some c, rs')" "bk_base c \<noteq> 0"
    using grants_create [OF assms(1,2), of None] by blast
  show ?thesis
  proof (cases "ar_blocks a")
    case Nil
    then show ?thesis
      using grants_alloc_in_block [OF assms(1,2), of "a\<lparr>ar_blocks := [c]\<rparr>" c "[]"] c assms(4,5)
      by (simp add: am arena_alloc_aligned_def)
  next
    case (Cons b bs)
    then have "bk_base b \<noteq> 0" using assms(3) by (simp add: am arena_ok_def block_ok_def)
    then show ?thesis
      using grants_alloc_in_block [OF assms(1,2) Cons] Cons assms(4,5) by (simp add: am arena_alloc_aligned_def)
  qed
qed

section \<open>Programs\<close>

text \<open>A definition whose translation succeeds without a diagnostic, whatever came before it.\<close>

definition translates :: "string \<Rightarrow> ast \<Rightarrow> bool" where
  "translates file d \<longleftrightarrow> (\<forall>S0 errors. \<exists>f errs. ir_gen S0 [] d errors file = Ret (Some f, errs) \<and>
     error_count errs = error_count errors \<and> if_label_count f < MAX_LABELS)"

lemma compile_progress:
  assumes sys: "machine_ok sys" "grants sys" and exec: "arena_ok (jx_exec ctx)" and room: "length (jx_registry ctx) < MAX_FUNCTION_COUNT"
    and gen: "ir_gen S0 junk (AstFunction i nm ret params body proto) errors file = Ret (Some f, errs)"
    and clean: "error_count errs = error_count errors" and labels: "if_label_count f < MAX_LABELS"
  obtains addr n ctx' where "jit_compile_function sys ctx f name (length params) = Ret ((addr, n), ctx')" "addr \<noteq> 0"
    "arena_ok (jx_exec ctx')" "length (jx_registry ctx') = Suc (length (jx_registry ctx))"
proof -
  note g = ir_gen_compiles [OF gen]
  obtain items a where sel: "select_function f (length params) = Ret (items, a)"
    using select_function_returns [OF gen clean] by (rule returns_pairE)
  have size: "items_size items < MAX_CODE_SIZE" by (rule select_function_size [OF sel g(3)])
  have pos: "0 < items_size items"
    using sel by (auto simp: select_function_def outcome_simps frame_sel_def simp del: items_size_ops)
  obtain addr exec where alloc: "arena_alloc_aligned sys (items_size items) STACK_ALIGNMENT (jx_exec ctx) = (addr, exec)" by (metis surj_pair)
  have pow: "is_power_of_two STACK_ALIGNMENT"
    unfolding power_of_two_nat by (rule exI [of _ 4]) (simp add: STACK_ALIGNMENT_def)
  have addr: "addr \<noteq> 0"
    using grants_alloc [OF sys(2) _ exec pos pow] sys(1) alloc by (simp add: machine_ok_def)
  have "MEMARENA_DEFAULT_SIZE + SIZEOF_ARENA_BLOCK + get_page_size sys \<le> 2 ^ 64"
      "items_size items + STACK_ALIGNMENT + SIZEOF_ARENA_BLOCK + get_page_size sys \<le> 2 ^ 64"
    using sys(1) size
    by (simp_all add: machine_ok_def MEMARENA_DEFAULT_SIZE_def SIZEOF_ARENA_BLOCK_def STACK_ALIGNMENT_def MAX_CODE_SIZE_def)
  then have "arena_ok exec"
    using alloc_allocates [of sys "items_size items" STACK_ALIGNMENT "fst (jx_exec ctx)" "snd (jx_exec ctx)"] sys(1) exec alloc
    by (auto simp: machine_ok_def allocates_def)
  then show thesis
    using that compile_refines [OF labels g(2) sel alloc addr room, of name] addr by (simp add: fresh_def)
qed

text \<open>The definitions of a unit that the parser returned: functions only, each of which translates.\<close>

definition ready :: "string \<Rightarrow> ast \<Rightarrow> bool" where
  "ready file d \<longleftrightarrow> (\<exists>i name ret params body proto. d = AstFunction i name ret params body proto \<and>
     (\<not> proto \<longrightarrow> translates file d))"

definition ready_unit :: "compilation_unit \<Rightarrow> bool" where
  "ready_unit u \<longleftrightarrow> (cu_parsed_ok u \<longrightarrow> (\<exists>i ds. cu_ast u = AstTranslationUnit i ds \<and> list_all (ready (cu_name u)) ds))"

lemma compile_functions_progress:
  assumes "machine_ok sys" "grants sys"
  shows "list_all (ready file) ds \<Longrightarrow> arena_ok (jx_exec ctx) \<Longrightarrow>
    length (jx_registry ctx) + length (filter is_definition ds) \<le> MAX_FUNCTION_COUNT \<Longrightarrow>
    \<exists>ctx' errs. compile_functions sys stack0 file ds ctx errors = Ret (True, ctx', errs) \<and>
      error_count errs = error_count errors \<and> arena_ok (jx_exec ctx') \<and>
      length (jx_registry ctx') = length (jx_registry ctx) + length (filter is_definition ds)"
proof (induction ds arbitrary: ctx errors)
  case (Cons d ds)
  have "ready file d" and ds: "list_all (ready file) ds" using Cons.prems(1) by simp_all
  then obtain i name ret params body proto where d: "d = AstFunction i name ret params body proto"
      and t: "\<not> proto \<longrightarrow> translates file d"
    unfolding ready_def by blast
  show ?case
  proof (cases proto)
    case True
    then show ?thesis using Cons.IH [OF ds Cons.prems(2), of errors] Cons.prems(3) by (simp add: d)
  next
    case False
    let ?S0 = "stack0 (length (jx_registry ctx))"
    obtain f errs where gen: "ir_gen ?S0 [] d errors file = Ret (Some f, errs)" "error_count errs = error_count errors"
        "if_label_count f < MAX_LABELS"
      using t False unfolding translates_def by blast
    have "length (jx_registry ctx) < MAX_FUNCTION_COUNT" using Cons.prems(3) False by (simp add: d)
    then obtain addr n ctx1 where c: "jit_compile_function sys ctx f name (length params) = Ret ((addr, n), ctx1)" "addr \<noteq> 0"
        "arena_ok (jx_exec ctx1)" "length (jx_registry ctx1) = Suc (length (jx_registry ctx))"
      using compile_progress [OF assms Cons.prems(2) _ gen(1) [unfolded d] gen(2,3)] by metis
    have "length (jx_registry ctx1) + length (filter is_definition ds) \<le> MAX_FUNCTION_COUNT"
      using Cons.prems(3) False c(4) by (simp add: d)
    from Cons.IH [OF ds c(3) this, of errs] show ?thesis
      using False gen c by (auto simp: d)
  qed
qed simp

lemma compile_pass_progress:
  assumes "machine_ok sys" "grants sys"
  shows "list_all ready_unit units \<Longrightarrow> arena_ok (jx_exec ctx) \<Longrightarrow>
    length (jx_registry ctx) + length (definitions_of units) \<le> MAX_FUNCTION_COUNT \<Longrightarrow>
    \<exists>ctx' errs. jit_compile_pass sys stack0 units ctx errors = Ret (True, ctx', errs) \<and> error_count errs = error_count errors"
proof (induction units arbitrary: ctx errors)
  case (Cons u us)
  show ?case
  proof (cases "cu_parsed_ok u")
    case False
    then show ?thesis using Cons.IH [of ctx errors] Cons.prems by (simp add: definitions_of_def)
  next
    case True
    then obtain i ds where u: "cu_ast u = AstTranslationUnit i ds" "list_all (ready (cu_name u)) ds"
      using Cons.prems(1) by (auto simp: ready_unit_def)
    have n: "length (definitions_of (u # us)) = length (filter is_definition ds) + length (definitions_of us)"
      using True by (simp add: definitions_of_def u(1))
    obtain ctx1 e where c: "compile_functions sys stack0 (cu_name u) ds ctx errors = Ret (True, ctx1, e)"
        "error_count e = error_count errors" "arena_ok (jx_exec ctx1)"
        "length (jx_registry ctx1) = length (jx_registry ctx) + length (filter is_definition ds)"
      using compile_functions_progress [OF assms u(2) Cons.prems(2), of stack0 errors] Cons.prems(3) by (auto simp: n)
    have "length (jx_registry ctx1) + length (definitions_of us) \<le> MAX_FUNCTION_COUNT"
      using Cons.prems(3) c(4) by (simp add: n)
    then show ?thesis using Cons.IH [of ctx1 e] Cons.prems(1) True c by (auto simp: u(1))
  qed
qed simp

lemma grants_protects: "grants sys \<Longrightarrow> arena_set_prot sys rs a prot = (True, a\<lparr>ar_prot := prot\<rparr>)"
proof -
  assume "grants sys"
  then have "protect_loop sys rs bs prot" for bs by (induction bs) (auto simp: grants_def)
  then show ?thesis by (simp add: arena_set_prot_def)
qed

lemma link_all_reports: "jit_link_all ctx errors = (False, ctx', errs) \<Longrightarrow> error_count errors < error_count errs"
proof -
  obtain errs' where l: "link_sites (jx_registry ctx) (jx_sites ctx) (jx_mem ctx) errors =
      (resolves (jx_registry ctx) (jx_sites ctx), fill_sites (jx_registry ctx) (jx_sites ctx) (jx_mem ctx), errs')"
      "error_count errs' = error_count errors + length (unresolved (jx_registry ctx) (jx_sites ctx))"
    using link_sites_eq by blast
  assume "jit_link_all ctx errors = (False, ctx', errs)"
  then have "\<not> resolves (jx_registry ctx) (jx_sites ctx)" "errs = errs'" by (simp_all add: jit_link_all_def l)
  then show ?thesis using l(2) by (auto simp: resolves_def unresolved_def filter_empty_conv)
qed

theorem run_program_progress:
  assumes "machine_ok sys" "grants sys" "list_all ready_unit units" "length (definitions_of units) \<le> MAX_FUNCTION_COUNT"
  shows "(\<exists>ctx entry errs. run_program sys stack0 run mem mapped units errors = obind (run ctx entry) (\<lambda>r. Ret (0, Some r, errs)) \<and>
      error_count errs = error_count errors) \<or>
    (\<exists>errs. run_program sys stack0 run mem mapped units errors = Ret (1, None, errs) \<and> error_count errors < error_count errs)"
proof -
  let ?init = "jit_ctx_init (arena_init PROT_RW, mapped) mem"
  have "arena_ok (jx_exec ?init)" "jx_registry ?init = []"
    by (simp_all add: jit_ctx_init_def arena_ok_def arena_init_def)
  then obtain ctx e1 where pass: "jit_compile_pass sys stack0 units ?init errors = Ret (True, ctx, e1)" "error_count e1 = error_count errors"
    using compile_pass_progress [OF assms(1-3), of ?init stack0 errors] assms(4) by auto
  obtain ok ctx1 e2 where link: "jit_link_all ctx e1 = (ok, ctx1, e2)" by (metis surj_pair)
  show ?thesis
  proof (cases ok)
    case False
    then show ?thesis
      using link_all_reports [of ctx e1 ctx1 e2] link pass by (simp add: run_program_def del: jit_compile_pass.simps)
  next
    case True
    have "error_count e2 = error_count e1"
      using link True link_sites_eq [of "jx_registry ctx" "jx_sites ctx" "jx_mem ctx" e1]
      by (auto simp: jit_link_all_def resolves_def unresolved_def filter_empty_conv)
    then show ?thesis
      using link pass True grants_protects [OF assms(2)]
      by (cases "find (\<lambda>f. sv_eq_cstr (cf_name f) ''main'') (jx_registry ctx1)")
        (auto simp: run_program_def Let_def simp del: jit_compile_pass.simps)
  qed
qed

section \<open>Closed programs\<close>

text \<open>The calls in the intermediate code of a program are those in its code.\<close>

definition ir_call_count :: "ir_program \<Rightarrow> nat" where
  "ir_call_count P = sum_list (map (\<lambda>(g, f, k). length (filter (\<lambda>i. in_op i = IR_CALL) (ir_code f))) P)"

lemma call_count_translated:
  "list_all2 (translated stack0) ds P \<Longrightarrow> list_all2 selected P fs \<Longrightarrow> call_count fs = ir_call_count P"
proof (induction ds P arbitrary: fs rule: list_all2_induct)
  case Nil
  then show ?case by (simp add: ir_call_count_def)
next
  case (Cons d ds q P)
  obtain p gs where fs: "fs = p # gs" "selected q p" "list_all2 selected P gs" using Cons.prems by (cases fs) auto
  obtain g f k where q: "q = (g, f, k)" by (cases q)
  obtain S0 root errors filename errs where gen: "ir_gen S0 [] root errors filename = Ret (Some f, errs)"
    using Cons.hyps(1) by (auto simp: q translated_def simp del: ir_gen.simps)
  obtain addr items a where p: "p = (g, addr, items)" "select_function f k = Ret (items, a)" "if_label_count f < MAX_LABELS"
    using fs(2) by (cases p) (auto simp: q selected_def)
  have "length (callees items) = length (filter (\<lambda>i. in_op i = IR_CALL) (ir_code f))"
    using select_function_shape(5) [OF p(2) ir_gen_compiles(1) [OF gen] p(3)] by simp
  then show ?case using Cons.IH [OF fs(3)] by (simp add: fs(1) p(1) q ir_call_count_def)
qed

text \<open>A program with a \<open>main\<close> whose calls are all defined: such a program runs, any other is reported.\<close>

definition closed_program :: "ir_program \<Rightarrow> bool" where
  "closed_program P \<longleftrightarrow> ''main'' \<in> fst ` set P \<and>
     list_all (\<lambda>(g, f, k). list_all (\<lambda>i. in_op i = IR_CALL \<longrightarrow> in_func i \<in> fst ` set P) (ir_code f)) P"

lemma selected_names: "list_all2 selected P fs \<Longrightarrow> fst ` set fs = fst ` set P"
proof (induction rule: list_all2_induct)
  case (Cons q P p fs)
  then show ?case by (cases q; cases p) (simp add: selected_def)
qed simp

lemma translated_callees:
  assumes "translated stack0 d (g, f, k)" "selected (g, f, k) (h, addr, items)"
  shows "set (callees items) = in_func ` {i \<in> set (ir_code f). in_op i = IR_CALL}"
proof -
  obtain i ret params body m errors filename errs where
      gen: "ir_gen (stack0 m) [] d errors filename = Ret (Some f, errs)"
    using assms(1) by (auto simp: translated_def simp del: ir_gen.simps)
  obtain a where sel: "select_function f k = Ret (items, a)" "if_label_count f < MAX_LABELS"
    using assms(2) by (auto simp: selected_def)
  show ?thesis
    using select_function_shape(5) [OF sel(1) ir_gen_compiles(1) [OF gen] sel(2)] by auto
qed

lemma closed_callees:
  assumes "list_all2 (translated stack0) ds P" "list_all2 selected P fs"
  shows "closed_program P \<longleftrightarrow> ''main'' \<in> fst ` set fs \<and> (\<forall>f\<in>set fs. set (callees (snd (snd f))) \<subseteq> fst ` set fs)"
proof -
  have "list_all (\<lambda>(g, f, k). list_all (\<lambda>i. in_op i = IR_CALL \<longrightarrow> in_func i \<in> N) (ir_code f)) P \<longleftrightarrow>
      (\<forall>f\<in>set fs. set (callees (snd (snd f))) \<subseteq> N)" for N
    using assms
  proof (induction ds P arbitrary: fs rule: list_all2_induct)
    case (Cons d ds q P)
    obtain p gs where fs: "fs = p # gs" "selected q p" "list_all2 selected P gs" using Cons.prems(1) by (cases fs) auto
    show ?case
      using Cons.IH [OF fs(3)] translated_callees [of stack0 d "fst q" "fst (snd q)" "snd (snd q)" "fst p" "fst (snd p)" "snd (snd p)"]
        Cons.hyps(1) fs(2)
      by (auto simp: fs(1) list_all_iff split: prod.splits)
  qed simp
  then show ?thesis by (simp add: closed_program_def selected_names [OF assms(2)])
qed

theorem run_program_settles:
  assumes sys: "machine_ok sys" "grants sys" and ready: "list_all ready_unit units" "length (definitions_of units) \<le> MAX_FUNCTION_COUNT"
    and P: "translate_units stack0 units 0 errors = Ret (P, e)" "ir_call_count P < MAX_CALL_SITES"
  shows "if closed_program P
    then \<exists>ctx entry errs. error_count errs = error_count errors \<and>
      (\<forall>run. run_program sys stack0 run mem mapped units errors = obind (run ctx entry) (\<lambda>r. Ret (0, Some r, errs)))
    else \<exists>errs. error_count errors < error_count errs \<and>
      (\<forall>run. run_program sys stack0 run mem mapped units errors = Ret (1, None, errs))"
proof -
  let ?init = "jit_ctx_init (arena_init PROT_RW, mapped) mem"
  have init: "arena_ok (jx_exec ?init)" "jx_registry ?init = []" "jx_sites ?init = []"
    by (simp_all add: jit_ctx_init_def arena_ok_def arena_init_def)
  then obtain ctx e1 where pass: "jit_compile_pass sys stack0 units ?init errors = Ret (True, ctx, e1)" "error_count e1 = error_count errors"
    using compile_pass_progress [OF sys ready(1), of ?init stack0 errors] ready(2) by auto
  obtain fs where fs: "list_all2 selected P fs" "tracks_all fs ctx" "length (jx_sites ctx) \<le> call_count fs"
    using compile_pass_places [OF pass(1) sys(1) jit_init_tracks] P(1) by (auto simp: init places_def)
  note tr = translate_units_translated [OF P(1)]
  have built: "built fs ctx" using fs P(2) call_count_translated [OF tr fs(1)] by (simp add: tracks_all_def)
  then have names: "cf_name ` set (jx_registry ctx) = fst ` set fs" by (auto simp: built_def image_image case_prod_unfold)
  obtain ctx1 e2 where link: "jit_link_all ctx e1 = (\<forall>f\<in>set fs. set (callees (snd (snd f))) \<subseteq> fst ` set fs, ctx1, e2)"
      "jx_registry ctx1 = jx_registry ctx"
    using link_built [OF built, of e1] by blast
  have clean: "error_count e2 = error_count e1" if "\<forall>f\<in>set fs. set (callees (snd (snd f))) \<subseteq> fst ` set fs"
    using link(1) that link_sites_eq [of "jx_registry ctx" "jx_sites ctx" "jx_mem ctx" e1]
    by (auto simp: jit_link_all_def resolves_def unresolved_def filter_empty_conv)
  show ?thesis
  proof (cases "\<forall>f\<in>set fs. set (callees (snd (snd f))) \<subseteq> fst ` set fs")
    case False
    then have "\<not> closed_program P" using closed_callees [OF tr fs(1)] by blast
    then show ?thesis
      using link_all_reports [of ctx e1 ctx1 e2] link(1) False pass by (auto simp: run_program_def simp del: jit_compile_pass.simps)
  next
    case True
    then have closed: "closed_program P \<longleftrightarrow> ''main'' \<in> cf_name ` set (jx_registry ctx1)"
      using closed_callees [OF tr fs(1)] names link(2) by simp
    show ?thesis
    proof (cases "find (\<lambda>f. sv_eq_cstr (cf_name f) ''main'') (jx_registry ctx1)")
      case None
      then have "\<not> closed_program P" by (auto simp: closed find_None_iff sv_eq_cstr_def)
      then show ?thesis
        using link True clean pass grants_protects [OF sys(2)] None
        by (auto simp: run_program_def Let_def simp del: jit_compile_pass.simps)
    next
      case (Some f)
      then have "f \<in> set (jx_registry ctx1)" "cf_name f = ''main''" by (auto simp: find_Some_iff sv_eq_cstr_def)
      then have "closed_program P" by (force simp: closed)
      then show ?thesis
        using link True clean pass grants_protects [OF sys(2)] Some
        by (auto simp: run_program_def Let_def simp del: jit_compile_pass.simps)
    qed
  qed
qed

end
