(* ===== verification/Samples.thy ===== *)
theory Samples
  imports Progress
begin

text \<open>
  A small machine and a small program on which the properties of the back end are tried out:
  \<open>int main() { return 7; }\<close>, from its tree to the run of its code.
\<close>

section \<open>A machine\<close>

text \<open>\<open>mmap\<close> never fails and returns the next page above everything that is mapped.\<close>

definition sample_mmap :: "regions \<Rightarrow> nat option \<Rightarrow> nat \<Rightarrow> nat \<Rightarrow> nat option" where
  "sample_mmap rs hint n prot = Some (4096 * (1 + sum_list (map (\<lambda>(a, n). a + n) rs)))"

definition sample_system :: system where
  "sample_system = \<lparr>sys_pagesize = 4096, sys_mmap = sample_mmap, sys_mprotect = (\<lambda>_ _ _ _. True)\<rparr>"

lemma sample_page [simp]: "get_page_size sample_system = 4096"
  by (simp add: get_page_size_def sample_system_def)

lemma bytes_below: "x \<in> bytes_of rs \<Longrightarrow> x < 1 + sum_list (map (\<lambda>(a, n). a + n) rs)"
proof (induction rs)
  case (Cons r rs)
  then show ?case by (cases r) auto
qed (simp add: bytes_of_def)

lemma sample_system_ok: "system_ok sample_system"
proof -
  have "{b..<b + n} \<inter> bytes_of rs = {}" if "b = 4096 * (1 + sum_list (map (\<lambda>(a, n). a + n) rs))" for b n :: nat and rs
    using bytes_below [of _ rs] that by fastforce
  then show ?thesis
    unfolding system_ok_def by (auto simp: sample_system_def sample_mmap_def get_page_size_def intro: exI [of _ 12])
qed

lemma sample_machine_ok: "machine_ok sample_system"
  by (simp add: machine_ok_def sample_system_ok)

lemma sample_grants: "grants sample_system"
  by (simp add: grants_def sample_system_def sample_mmap_def)

lemma sample_alloc:
  "0 < n \<Longrightarrow> n < 1000 \<Longrightarrow> arena_alloc_aligned sample_system n STACK_ALIGNMENT (arena_init p, []) =
    (4128, \<lparr>ar_blocks = [\<lparr>bk_base = 4096, bk_size = 67112960, bk_offset = 32 + n\<rparr>], ar_prot = p\<rparr>, [(4096, 67112960)])"
  by (simp add: arena_alloc_aligned_def is_power_of_two_def arena_init_def MEMARENA_DEFAULT_SIZE_def arena_create_block_def
     SIZEOF_ARENA_BLOCK_def align_to_page_def get_page_size_def sample_system_def sample_mmap_def Let_def alloc_in_block_def
     padding_of_def bump_def align_forward_def STACK_ALIGNMENT_def)

section \<open>A program\<close>

definition sample_main :: ast where
  "sample_main = AstFunction zero_info ''main'' TYPE_INT []
     (AstBlock zero_info [AstReturn zero_info (AstNumber zero_info ''7'')]) False"

definition sample_ir :: ir_function where
  "sample_ir = \<lparr>if_chunks = [[(instr_of IR_CONST (value_type zero_info))\<lparr>in_dest := 1, in_imm := 7\<rparr>,
       (instr_of IR_RET (value_type zero_info))\<lparr>in_src1 := 1\<rparr>]],
     if_total_count = 2, if_vreg_count = 2, if_stack_count = 0, if_label_count = 0, if_name = ''main'',
     if_errors = error_context_init, if_filename = ''a.c''\<rparr>"

lemma sample_ir_gen: "ir_gen 0 [] sample_main error_context_init ''a.c'' = Ret (Some sample_ir, error_context_init)"
proof -
  have "sv_to_int64 ''7'' = 7" by code_simp
  then show ?thesis
    by (simp add: sample_main_def sample_ir_def gen_block_def gen_init_def ir_function_init_def g_emit_def gen_number_def
        with_vreg_def g_alloc_def ir_alloc_vreg_def emit_def node_type_of_def symbol_table_restore_def restore_loop.simps
        gen_return_def ir_finish_def MAX_IR_INSTRUCTIONS_PER_FUNCTION_def MAX_VREGS_PER_FUNCTION_def IR_CHUNK_SIZE_def
        empty_symbol_table_def)
qed

lemma sample_translates: "translates ''a.c'' sample_main"
proof -
  have "sv_to_int64 ''7'' = 7" by code_simp
  then show ?thesis
    unfolding translates_def
    by (simp add: sample_main_def gen_block_def gen_init_def ir_function_init_def g_emit_def gen_number_def
        with_vreg_def g_alloc_def ir_alloc_vreg_def emit_def node_type_of_def symbol_table_restore_def restore_loop.simps
        gen_return_def ir_finish_def MAX_IR_INSTRUCTIONS_PER_FUNCTION_def MAX_VREGS_PER_FUNCTION_def IR_CHUNK_SIZE_def
        empty_symbol_table_def MAX_LABELS_def)
qed

definition sample_items :: "item list" where
  "sample_items = map Op ([Push REG_RBP, MovRR REG_RBP REG_RSP, Push REG_RBX, Push REG_R12, Push REG_R13, Push REG_R14,
     Push REG_R15, AluImm32 A_Sub REG_RSP 24, MovImm REG_RAX 7, MovRR REG_RBX REG_RAX, MovRR REG_RAX REG_RBX] @ epilogue)"

definition sample_alloc_state :: alloc where
  "sample_alloc_state = \<lparr>al_map = (\<lambda>_. LOC_NONE)(1 := LOC_REG REG_RBX), al_phys = (\<lambda>_. False)(3 := True), al_base = 0,
     al_pending = []\<rparr>"

lemma sample_select: "select_function sample_ir 0 = Ret (sample_items, sample_alloc_state)"
  by (simp add: sample_ir_def select_function_def initial_alloc_def ir_code_def select_def is_binary_def frame_sel_def
      calculate_aligned_stack_size_def al_location_def MAX_VREGS_PER_FUNCTION_def al_fresh_def al_assign_def
      saved_registers_def Let_def store_sel_def load_sel_def WORD_SIZE_def CALLEE_SAVED_COUNT_def STACK_ALIGNMENT_def
      sample_items_def sample_alloc_state_def del: asm.simps)

lemma sample_size: "0 < items_size sample_items" "items_size sample_items < 1000"
proof -
  show "0 < items_size sample_items" by (simp add: sample_items_def del: items_size_ops)
  have "items_size sample_items \<le> 11 * 19"
    unfolding sample_items_def by (rule items_size_Op) (simp add: epilogue_def)
  then show "items_size sample_items < 1000" by simp
qed

definition sample_ctx :: jit where
  "sample_ctx = jit_ctx_init (arena_init PROT_RW, []) (\<lambda>_. 0)"

lemma sample_built: "built [] sample_ctx"
  by (rule built_init) (simp_all add: sample_ctx_def jit_ctx_init_def arena_ok_def arena_init_def)

lemma sample_compiled:
  obtains ctx where "jit_compile_function sample_system sample_ctx sample_ir ''main'' 0 = Ret ((4128, items_size sample_items), ctx)"
    "jx_registry ctx = [\<lparr>cf_name = ''main'', cf_addr = 4128, cf_size = items_size sample_items\<rparr>]" "jx_sites ctx = []"
    "snd (jx_exec ctx) = [(4096, 67112960)]"
proof -
  note alloc = sample_alloc [OF sample_size, of PROT_RW]
  let ?exec = "(\<lparr>ar_blocks = [\<lparr>bk_base = 4096, bk_size = 67112960, bk_offset = 32 + items_size sample_items\<rparr>], ar_prot = PROT_RW\<rparr>,
    [(4096, 67112960)])"
  let ?c = "set_alloc sample_alloc_state (fresh sample_ctx sample_ir ?exec)"
  have sites: "call_fields pc (map Op xs) = []" for pc xs by (induction xs arbitrary: pc) simp_all
  have c: "jx_sites ?c = []" "jx_exec ?c = ?exec" by (simp_all add: fresh_def sample_ctx_def jit_ctx_init_def)
  have "jit_compile_function sample_system sample_ctx sample_ir ''main'' 0 =
      Ret ((4128, items_size sample_items), (place 4128 sample_items ?c)
        \<lparr>jx_registry := jx_registry sample_ctx @ [\<lparr>cf_name = ''main'', cf_addr = 4128, cf_size = items_size sample_items\<rparr>]\<rparr>)"
    using sample_select alloc
    by (intro compile_refines)
      (simp_all add: sample_ctx_def jit_ctx_init_def sample_ir_def MAX_LABELS_def ir_code_def MAX_FUNCTION_COUNT_def)
  moreover have "jx_sites (place 4128 sample_items ?c) = []"
    using place_sites [of ?c 4128 sample_items] c(1) by (simp add: sample_items_def sites del: place_alloc(2))
  moreover have "jx_exec (place 4128 sample_items ?c) = ?exec" using c(2) by simp
  ultimately show thesis
    using that by (simp add: sample_ctx_def jit_ctx_init_def)
qed

definition sample_unit :: compilation_unit where
  "sample_unit = \<lparr>cu_name = ''a.c'', cu_data = ''int main() { return 7; }'',
     cu_ast = AstTranslationUnit zero_info [sample_main], cu_parsed_ok = True\<rparr>"

lemma sample_ready: "list_all ready_unit [sample_unit]" "length (definitions_of [sample_unit]) \<le> MAX_FUNCTION_COUNT"
proof -
  have "ready ''a.c'' sample_main"
    unfolding ready_def using sample_translates by (auto simp: sample_main_def)
  then show "list_all ready_unit [sample_unit]" "length (definitions_of [sample_unit]) \<le> MAX_FUNCTION_COUNT"
    by (simp_all add: ready_unit_def sample_unit_def definitions_of_def MAX_FUNCTION_COUNT_def)
qed

text \<open>The run of the program, for whatever the call of its code gives.\<close>

lemma sample_run_with:
  assumes "\<And>ctx. jx_sites ctx = [] \<Longrightarrow> jx_registry ctx = [\<lparr>cf_name = ''main'', cf_addr = 4128, cf_size = items_size sample_items\<rparr>] \<Longrightarrow>
    run ctx 4128 = Ret r"
  shows "run_program sample_system (\<lambda>_. 0) run (\<lambda>_. 0) [] [sample_unit] error_context_init = Ret (0, Some r, error_context_init)"
proof -
  obtain ctx where c: "jit_compile_function sample_system sample_ctx sample_ir ''main'' 0 = Ret ((4128, items_size sample_items), ctx)"
      "jx_registry ctx = [\<lparr>cf_name = ''main'', cf_addr = 4128, cf_size = items_size sample_items\<rparr>]" "jx_sites ctx = []"
    using sample_compiled by metis
  have pass: "jit_compile_pass sample_system (\<lambda>_. 0) [sample_unit] sample_ctx error_context_init = Ret (True, ctx, error_context_init)"
    using sample_ir_gen c(1) by (simp add: sample_unit_def sample_main_def)
  have link: "jit_link_all ctx error_context_init = (True, ctx, error_context_init)"
    by (simp add: jit_link_all_def c(3))
  have protect: "protect_loop sample_system rs bs p" for rs bs p
    by (induction bs) (simp_all add: sample_system_def)
  have "sv_eq_cstr ''main'' ''main''" by code_simp
  moreover have "run (ctx\<lparr>jx_exec := e\<rparr>) 4128 = Ret r" for e by (rule assms) (simp_all add: c(2,3))
  ultimately show ?thesis
    by (simp add: run_program_def pass [unfolded sample_ctx_def] link arena_set_prot_def protect c(2) Let_def del: jit_compile_pass.simps)
qed

lemma sample_run:
  "run_program sample_system (\<lambda>_. 0) (\<lambda>ctx entry. if entry = 4128 then Ret 7 else Fault Trap) (\<lambda>_. 0) [] [sample_unit] error_context_init =
   Ret (0, Some 7, error_context_init)"
  by (rule sample_run_with) simp

end
