(* ===== verification/SampleCalls.thy ===== *)
theory SampleCalls
  imports Samples
begin

text \<open>
  A program of two files with a loop and a call, on the machine of \<open>Samples\<close>:
  \<open>int main() { while (1) return seven(); return 8; }\<close> and \<open>int seven() { return 7; }\<close>.
\<close>

section \<open>The functions\<close>

definition sample_seven :: ast where
  "sample_seven = AstFunction zero_info ''seven'' TYPE_INT []
     (AstBlock zero_info [AstReturn zero_info (AstNumber zero_info ''7'')]) False"

definition sample_caller :: ast where
  "sample_caller = AstFunction zero_info ''main'' TYPE_INT []
     (AstBlock zero_info
       [AstWhile zero_info (AstNumber zero_info ''1'') (AstReturn zero_info (AstCall zero_info ''seven'' [])),
        AstReturn zero_info (AstNumber zero_info ''8'')]) False"

definition seven_code :: "instr list" where
  "seven_code = [(instr_of IR_CONST (value_type zero_info))\<lparr>in_dest := 1, in_imm := 7\<rparr>,
     (instr_of IR_RET (value_type zero_info))\<lparr>in_src1 := 1\<rparr>]"

definition caller_code :: "instr list" where
  "caller_code = (let t = value_type zero_info in
     [jump_to IR_LABEL TYPE_VOID 0 0, (instr_of IR_CONST t)\<lparr>in_dest := 1, in_imm := 1\<rparr>, jump_to IR_JZ t 1 1,
      (instr_of IR_CALL t)\<lparr>in_dest := 2, in_func := ''seven''\<rparr>, (instr_of IR_RET t)\<lparr>in_src1 := 2\<rparr>,
      jump_to IR_JMP TYPE_VOID 0 0, jump_to IR_LABEL TYPE_VOID 0 1,
      (instr_of IR_CONST t)\<lparr>in_dest := 3, in_imm := 8\<rparr>, (instr_of IR_RET t)\<lparr>in_src1 := 3\<rparr>])"

definition coded :: "string \<Rightarrow> instr list \<Rightarrow> nat \<Rightarrow> nat \<Rightarrow> nat \<Rightarrow> error_context \<Rightarrow> string \<Rightarrow> ir_function" where
  "coded name is V S L errors file =
     \<lparr>if_chunks = [is], if_total_count = length is, if_vreg_count = V, if_stack_count = S, if_label_count = L,
      if_name = name, if_errors = errors, if_filename = file\<rparr>"

lemmas sample_gen_defs = gen_block_def gen_init_def ir_function_init_def g_emit_def gen_number_def
  with_vreg_def g_alloc_def ir_alloc_vreg_def emit_def node_type_of_def symbol_table_restore_def restore_loop.simps
  gen_return_def ir_finish_def MAX_IR_INSTRUCTIONS_PER_FUNCTION_def MAX_VREGS_PER_FUNCTION_def IR_CHUNK_SIZE_def
  empty_symbol_table_def gen_while_def g_label_def coded_def Let_def

lemma caller_gen: "ir_gen S0 junk sample_caller errors file = Ret (Some (coded ''main'' caller_code 4 S0 2 errors file), errors)"
proof -
  have "sv_to_int64 ''1'' = 1" "sv_to_int64 ''8'' = 8" by code_simp+
  then show ?thesis by (simp add: sample_caller_def caller_code_def sample_gen_defs)
qed

lemma seven_gen: "ir_gen S0 junk sample_seven errors file = Ret (Some (coded ''seven'' seven_code 2 S0 0 errors file), errors)"
proof -
  have "sv_to_int64 ''7'' = 7" by code_simp
  then show ?thesis by (simp add: sample_seven_def seven_code_def sample_gen_defs)
qed

text \<open>The loop jumps to both labels; the caller makes one call.\<close>

lemma coded_parts [simp]: "ir_code (coded name is V S L errors file) = is" "if_label_count (coded name is V S L errors file) = L"
  by (simp_all add: coded_def ir_code_def)

lemma caller_targets: "targets caller_code = {0, 1}"
proof -
  have "targets is = in_label ` set (filter (\<lambda>i. is_jump (in_op i)) is)" for "is" by (auto simp: targets_def)
  moreover have "filter (\<lambda>i. is_jump (in_op i)) caller_code = [jump_to IR_JZ (value_type zero_info) 1 1, jump_to IR_JMP TYPE_VOID 0 0]"
    by (simp add: caller_code_def jump_to_def is_jump_def instr_of_def Let_def)
  ultimately show ?thesis by (simp only:) (auto simp: jump_to_def)
qed

lemma caller_calls: "filter (\<lambda>i. in_op i = IR_CALL) caller_code = [(instr_of IR_CALL (value_type zero_info))\<lparr>in_dest := 2, in_func := ''seven''\<rparr>]"
    "filter (\<lambda>i. in_op i = IR_CALL) seven_code = []"
  by (simp_all add: caller_code_def seven_code_def jump_to_def instr_of_def Let_def)

section \<open>Both files\<close>

definition caller_unit :: compilation_unit where
  "caller_unit = \<lparr>cu_name = ''main.c'', cu_data = ''int seven(); int main() { while (1) return seven(); return 8; }'',
     cu_ast = AstTranslationUnit zero_info [sample_caller], cu_parsed_ok = True\<rparr>"

definition seven_unit :: compilation_unit where
  "seven_unit = \<lparr>cu_name = ''seven.c'', cu_data = ''int seven() { return 7; }'',
     cu_ast = AstTranslationUnit zero_info [sample_seven], cu_parsed_ok = True\<rparr>"

lemma pair_definitions: "definitions_of [caller_unit, seven_unit] = [sample_caller, sample_seven]"
  by (simp add: definitions_of_def caller_unit_def seven_unit_def sample_caller_def sample_seven_def)

lemma pair_ready: "list_all ready_unit [caller_unit, seven_unit]" "length (definitions_of [caller_unit, seven_unit]) \<le> MAX_FUNCTION_COUNT"
proof -
  have "translates name sample_caller" "translates name sample_seven" for name
    unfolding translates_def caller_gen seven_gen by (simp_all add: MAX_LABELS_def)
  then have "ready name sample_caller" "ready name sample_seven" for name
    unfolding ready_def by (auto simp: sample_caller_def sample_seven_def)
  then show "list_all ready_unit [caller_unit, seven_unit]" "length (definitions_of [caller_unit, seven_unit]) \<le> MAX_FUNCTION_COUNT"
    by (simp_all add: ready_unit_def caller_unit_def seven_unit_def definitions_of_def MAX_FUNCTION_COUNT_def)
qed

definition pair_program :: ir_program where
  "pair_program = [(''main'', coded ''main'' caller_code 4 0 2 error_context_init ''main.c'', 0),
     (''seven'', coded ''seven'' seven_code 2 0 0 error_context_init ''seven.c'', 0)]"

lemma pair_translation:
  "translate_units (\<lambda>_. 0) [caller_unit, seven_unit] 0 error_context_init = Ret (pair_program, error_context_init)"
  using caller_gen [of 0 "[]" error_context_init "''main.c''"] seven_gen [of 0 "[]" error_context_init "''seven.c''"]
  by (simp add: caller_unit_def seven_unit_def pair_program_def sample_caller_def sample_seven_def del: ir_gen.simps)

lemma pair_closed: "closed_program pair_program" "ir_call_count pair_program < MAX_CALL_SITES"
proof -
  have calls: "(\<And>i. i \<in> set (filter (\<lambda>i. in_op i = IR_CALL) is) \<Longrightarrow> Q i) \<Longrightarrow> list_all (\<lambda>i. in_op i = IR_CALL \<longrightarrow> Q i) is"
    for Q "is" by (auto simp: list_all_iff)
  have "list_all (\<lambda>i. in_op i = IR_CALL \<longrightarrow> in_func i \<in> {''main'', ''seven''}) caller_code"
      "list_all (\<lambda>i. in_op i = IR_CALL \<longrightarrow> in_func i \<in> {''main'', ''seven''}) seven_code"
    by (rule calls; simp only: caller_calls; simp)+
  then show "closed_program pair_program" by (simp add: closed_program_def pair_program_def)
  show "ir_call_count pair_program < MAX_CALL_SITES"
    by (simp add: ir_call_count_def pair_program_def caller_calls MAX_CALL_SITES_def)
qed

text \<open>Whatever executes it, \<open>main\<close> of the pair is called.\<close>

lemma pair_runs:
  obtains ctx entry errs where "\<And>run. run_program sample_system (\<lambda>_. 0) run (\<lambda>_. 0) [] [caller_unit, seven_unit] error_context_init =
    obind (run ctx entry) (\<lambda>r. Ret (0, Some r, errs))"
  using run_program_settles [OF sample_machine_ok sample_grants pair_ready pair_translation pair_closed(2), of "\<lambda>_. 0" "[]"]
    pair_closed(1) by auto

section \<open>Their code\<close>

lemma compile_next:
  assumes gen: "ir_gen 0 [] d error_context_init file = Ret (Some f, error_context_init)"
    and d: "d = AstFunction i name ret [] body False" and L: "if_label_count f < MAX_LABELS"
    and built: "built fs ctx" and room: "length (jx_registry ctx) < MAX_FUNCTION_COUNT"
      "length (jx_sites ctx) + length (filter (\<lambda>i. in_op i = IR_CALL) (ir_code f)) < MAX_CALL_SITES"
  obtains addr n ctx' items where "jit_compile_function sample_system ctx f name 0 = Ret ((addr, n), ctx')" "addr \<noteq> 0"
    "built (fs @ [(name, addr, items)]) ctx'" "callees items = map in_func (filter (\<lambda>i. in_op i = IR_CALL) (ir_code f))"
    "length (jx_registry ctx') = Suc (length (jx_registry ctx))"
    "length (jx_sites ctx') \<le> length (jx_sites ctx) + length (filter (\<lambda>i. in_op i = IR_CALL) (ir_code f))"
proof -
  have ok: "arena_ok (jx_exec ctx)" "tracks_all fs ctx" using built by (simp_all add: built_def tracks_all_def)
  obtain addr n ctx' where c: "jit_compile_function sample_system ctx f name 0 = Ret ((addr, n), ctx')" "addr \<noteq> 0"
    using compile_progress [OF sample_machine_ok sample_grants ok(1) room(1) gen [unfolded d] refl L] by (metis list.size(3))
  obtain items where it: "selected (name, f, 0) (name, addr, items)" "tracks_all (fs @ [(name, addr, items)]) ctx'"
      "length (jx_registry ctx') = Suc (length (jx_registry ctx))" "length (jx_sites ctx') \<le> length (jx_sites ctx) + length (callees items)"
    using compile_step [OF sample_machine_ok ok(2) gen c] by blast
  obtain a where "select_function f 0 = Ret (items, a)" using it(1) by (auto simp: selected_def)
  then have callees: "callees items = map in_func (filter (\<lambda>i. in_op i = IR_CALL) (ir_code f))"
    using select_function_shape(5) [OF _ ir_gen_compiles(1) [OF gen] L] by blast
  have "built (fs @ [(name, addr, items)]) ctx'"
    using it(2,4) room(2) by (simp add: callees tracks_all_def)
  then show thesis using that c callees it(3,4) by simp
qed

text \<open>The context after the first function, and after both.\<close>

lemma pair_built:
  obtains addr n addr' items items' ctx ctx' where
    "jit_compile_function sample_system sample_ctx (coded ''main'' caller_code 4 0 2 error_context_init ''main.c'') ''main'' 0 = Ret ((addr, n), ctx)"
    "addr \<noteq> 0" "callees items = [''seven'']" "callees items' = []"
    "built [(''main'', addr, items)] ctx" "built [(''main'', addr, items), (''seven'', addr', items')] ctx'"
proof -
  have init: "jx_registry sample_ctx = []" "jx_sites sample_ctx = []" by (simp_all add: sample_ctx_def jit_ctx_init_def)
  obtain addr n ctx items where c: "jit_compile_function sample_system sample_ctx
      (coded ''main'' caller_code 4 0 2 error_context_init ''main.c'') ''main'' 0 = Ret ((addr, n), ctx)" "addr \<noteq> 0"
      "built [(''main'', addr, items)] ctx" "callees items = [''seven'']" "length (jx_registry ctx) = 1" "length (jx_sites ctx) \<le> 1"
    by (rule compile_next [OF caller_gen sample_caller_def _ sample_built])
      (simp_all add: MAX_LABELS_def MAX_FUNCTION_COUNT_def MAX_CALL_SITES_def caller_calls init)
  obtain addr' ctx' items' where "built [(''main'', addr, items), (''seven'', addr', items')] ctx'" "callees items' = []"
    by (rule compile_next [OF seven_gen sample_seven_def _ c(3)])
      (use c(5,6) in \<open>simp_all add: MAX_LABELS_def MAX_FUNCTION_COUNT_def MAX_CALL_SITES_def caller_calls\<close>)
  then show thesis using that c by blast
qed

text \<open>Any placement of both functions has the calls of their sources.\<close>

lemma implements_calls:
  assumes "implements d p" "d = AstFunction i nm ret [] body False"
    and "\<And>S0 errors name. ir_gen S0 [] d errors name = Ret (Some (coded nm is V S0 L errors name), errors)" "L < MAX_LABELS"
  shows "fst p = nm \<and> callees (snd (snd p)) = map in_func (filter (\<lambda>i. in_op i = IR_CALL) is)"
proof -
  obtain nm' addr items where p: "p = (nm', addr, items)" by (cases p)
  obtain i' ret' ps' body' S0 errors name f errs a where d: "d = AstFunction i' nm' ret' ps' body' False"
      and gen: "ir_gen S0 [] d errors name = Ret (Some f, errs)" and sel: "select_function f (length ps') = Ret (items, a)"
    using assms(1) unfolding implements_def p by (simp only: prod.case) blast
  have nm: "nm' = nm" using d assms(2) by simp
  have f: "f = coded nm is V S0 L errors name" using gen unfolding assms(3) by auto
  show ?thesis
    using select_function_shape(5) [OF sel ir_gen_compiles(1) [OF gen]] assms(4) by (simp add: f p nm)
qed

lemma pair_implemented:
  assumes "list_all2 implements [sample_caller, sample_seven] fs"
  obtains addr items addr' items' where "fs = [(''main'', addr, items), (''seven'', addr', items')]"
    "callees items = [''seven'']" "callees items' = []"
proof -
  obtain p q where fs: "fs = [p, q]" "implements sample_caller p" "implements sample_seven q"
    using assms by (auto simp: list_all2_Cons1)
  have "fst p = ''main'' \<and> callees (snd (snd p)) = [''seven'']" "fst q = ''seven'' \<and> callees (snd (snd q)) = []"
    using implements_calls [OF fs(2) sample_caller_def caller_gen] implements_calls [OF fs(3) sample_seven_def seven_gen]
    by (simp_all add: MAX_LABELS_def caller_calls)
  then show thesis using that fs(1) by (cases p; cases q) auto
qed

end
