(* ===== verification/Processor.thy ===== *)
theory Processor
  imports Asm
begin

text \<open>
  What the generated instructions do: registers, memory addressed by 64-bit words, the flags that
  comparisons leave, and one function \<open>exec\<close> for every instruction that continues with the next one.
  Flags that an instruction leaves undefined, or that the generated code does not look at, are
  \<open>None\<close>, and testing them is a fault.
\<close>

section \<open>State\<close>

text \<open>Zero, sign and overflow flag.\<close>

record flags =
  fl_zero :: bool
  fl_sign :: bool
  fl_over :: bool

record machine =
  mc_regs :: "x86_reg \<Rightarrow> u64"
  mc_mem :: "u64 \<Rightarrow> u8"
  mc_flags :: "flags option"

section \<open>Memory\<close>

definition store_bytes :: "u64 \<Rightarrow> u8 list \<Rightarrow> (u64 \<Rightarrow> u8) \<Rightarrow> u64 \<Rightarrow> u8" where
  "store_bytes a bs m = (\<lambda>x. if unat (x - a) < length bs then bs ! unat (x - a) else m x)"

definition load_bytes :: "u64 \<Rightarrow> nat \<Rightarrow> (u64 \<Rightarrow> u8) \<Rightarrow> u8 list" where
  "load_bytes a n m = map (\<lambda>i. m (a + of_nat i)) [0..<n]"

definition load64 :: "(u64 \<Rightarrow> u8) \<Rightarrow> u64 \<Rightarrow> u64" where
  "load64 m a = of_le64 (load_bytes a 8 m)"

definition load32 :: "(u64 \<Rightarrow> u8) \<Rightarrow> u64 \<Rightarrow> u32" where
  "load32 m a = of_le32 (load_bytes a 4 m)"

definition store64 :: "u64 \<Rightarrow> u64 \<Rightarrow> (u64 \<Rightarrow> u8) \<Rightarrow> u64 \<Rightarrow> u8" where
  "store64 a v = store_bytes a (le64 v)"

definition store32 :: "u64 \<Rightarrow> u32 \<Rightarrow> (u64 \<Rightarrow> u8) \<Rightarrow> u64 \<Rightarrow> u8" where
  "store32 a v = store_bytes a (le32 v)"

definition store8 :: "u64 \<Rightarrow> u8 \<Rightarrow> (u64 \<Rightarrow> u8) \<Rightarrow> u64 \<Rightarrow> u8" where
  "store8 a v = store_bytes a [v]"

section \<open>Arithmetic\<close>

text \<open>The flags of a result, and those of a subtraction.\<close>

definition logic_flags :: "u64 \<Rightarrow> flags" where
  "logic_flags r = \<lparr>fl_zero = r = 0, fl_sign = sint r < 0, fl_over = False\<rparr>"

definition add_flags :: "u64 \<Rightarrow> u64 \<Rightarrow> flags" where
  "add_flags a b = \<lparr>fl_zero = a + b = 0, fl_sign = sint (a + b) < 0, fl_over = sint (a + b) \<noteq> sint a + sint b\<rparr>"

definition sub_flags :: "u64 \<Rightarrow> u64 \<Rightarrow> flags" where
  "sub_flags a b = \<lparr>fl_zero = a - b = 0, fl_sign = sint (a - b) < 0, fl_over = sint (a - b) \<noteq> sint a - sint b\<rparr>"

fun condition :: "x86_condition \<Rightarrow> flags \<Rightarrow> bool" where
  "condition CC_E f \<longleftrightarrow> fl_zero f"
| "condition CC_NE f \<longleftrightarrow> \<not> fl_zero f"
| "condition CC_L f \<longleftrightarrow> fl_sign f \<noteq> fl_over f"
| "condition CC_GE f \<longleftrightarrow> fl_sign f = fl_over f"
| "condition CC_LE f \<longleftrightarrow> fl_zero f \<or> fl_sign f \<noteq> fl_over f"
| "condition CC_G f \<longleftrightarrow> \<not> fl_zero f \<and> fl_sign f = fl_over f"

text \<open>The result, \<open>None\<close> for a comparison, and the flags.\<close>

fun alu_result :: "alu \<Rightarrow> u64 \<Rightarrow> u64 \<Rightarrow> u64 option \<times> flags" where
  "alu_result A_Add a b = (Some (a + b), add_flags a b)"
| "alu_result A_Or a b = (Some (a OR b), logic_flags (a OR b))"
| "alu_result A_And a b = (Some (a AND b), logic_flags (a AND b))"
| "alu_result A_Sub a b = (Some (a - b), sub_flags a b)"
| "alu_result A_Xor a b = (Some (a XOR b), logic_flags (a XOR b))"
| "alu_result A_Cmp a b = (None, sub_flags a b)"

text \<open>The count of a 64-bit shift is taken modulo 64.\<close>

fun shift_result :: "shift \<Rightarrow> u64 \<Rightarrow> nat \<Rightarrow> u64" where
  "shift_result S_Shl a n = push_bit (n mod 64) a"
| "shift_result S_Shr a n = drop_bit (n mod 64) a"
| "shift_result S_Sar a n = signed_drop_bit (n mod 64) a"

section \<open>Instructions\<close>

definition set_reg :: "x86_reg \<Rightarrow> u64 \<Rightarrow> machine \<Rightarrow> machine" where
  "set_reg r v s = s\<lparr>mc_regs := (mc_regs s)(r := v)\<rparr>"

definition set_flags :: "flags option \<Rightarrow> machine \<Rightarrow> machine" where
  "set_flags f s = s\<lparr>mc_flags := f\<rparr>"

definition set_mem :: "(u64 \<Rightarrow> u8) \<Rightarrow> machine \<Rightarrow> machine" where
  "set_mem m s = s\<lparr>mc_mem := m\<rparr>"

text \<open>\<open>[base + disp]\<close> with a sign-extended displacement.\<close>

definition address :: "machine \<Rightarrow> x86_reg \<Rightarrow> u32 \<Rightarrow> u64" where
  "address s base disp = mc_regs s base + scast disp"

definition exec_alu :: "alu \<Rightarrow> x86_reg \<Rightarrow> u64 \<Rightarrow> machine \<Rightarrow> machine" where
  "exec_alu a d v s =
     (case alu_result a (mc_regs s d) v of
        (None, f) \<Rightarrow> set_flags (Some f) s
      | (Some r, f) \<Rightarrow> set_flags (Some f) (set_reg d r s))"

definition push :: "u64 \<Rightarrow> machine \<Rightarrow> machine" where
  "push v s = (let sp = mc_regs s REG_RSP - 8 in set_mem (store64 sp v (mc_mem s)) (set_reg REG_RSP sp s))"

text \<open>
  \<open>idiv\<close> divides \<open>rdx:rax\<close>, truncating towards zero, and traps when the divisor is zero or the
  quotient does not fit.
\<close>

definition exec_idiv :: "u64 \<Rightarrow> machine \<Rightarrow> machine outcome" where
  "exec_idiv v s =
     (let dividend = sint (mc_regs s REG_RDX) * 2 ^ 64 + uint (mc_regs s REG_RAX);
          quotient = c_div dividend (sint v) in
      if v = 0 \<or> \<not> fits_int64 quotient then Fault Trap
      else Ret (set_flags None (set_reg REG_RDX (of_int (dividend - quotient * sint v)) (set_reg REG_RAX (of_int quotient) s))))"

fun exec :: "x86 \<Rightarrow> machine \<Rightarrow> machine outcome" where
  "exec (Push r) s = Ret (push (mc_regs s r) s)"
| "exec (Pop r) s = Ret (let sp = mc_regs s REG_RSP in set_reg r (load64 (mc_mem s) sp) (set_reg REG_RSP (sp + 8) s))"
| "exec (MovRR d r) s = Ret (set_reg d (mc_regs s r) s)"
| "exec (AluRR a d r) s = Ret (exec_alu a d (mc_regs s r) s)"
| "exec (TestRR d r) s = Ret (set_flags (Some (logic_flags (mc_regs s d AND mc_regs s r))) s)"
| "exec (ImulRR d r) s = Ret (set_flags None (set_reg d (mc_regs s d * mc_regs s r) s))"
| "exec (SetCC c d) s =
     (case mc_flags s of
        None \<Rightarrow> Fault Undefined
      | Some f \<Rightarrow> Ret (set_reg d (mc_regs s d AND NOT 0xFF OR (if condition c f then 1 else 0)) s))"
| "exec (MovzxB d r) s = Ret (set_reg d (mc_regs s r AND 0xFF) s)"
| "exec (Load64 d b x) s = Ret (set_reg d (load64 (mc_mem s) (address s b x)) s)"
| "exec (Load32 d b x) s = Ret (set_reg d (scast (load32 (mc_mem s) (address s b x))) s)"
| "exec (Load8 d b x) s = Ret (set_reg d (scast (mc_mem s (address s b x))) s)"
| "exec (Store64 b x r) s = Ret (set_mem (store64 (address s b x) (mc_regs s r) (mc_mem s)) s)"
| "exec (Store32 b x r) s = Ret (set_mem (store32 (address s b x) (ucast (mc_regs s r)) (mc_mem s)) s)"
| "exec (Store8 b x r) s = Ret (set_mem (store8 (address s b x) (ucast (mc_regs s r)) (mc_mem s)) s)"
| "exec (MovImm d i) s = Ret (set_reg d i s)"
| "exec (AluImm32 a d i) s = Ret (exec_alu a d (scast i) s)"
| "exec (AluImm8 a d i) s = Ret (exec_alu a d (scast i) s)"
| "exec Cqo s = Ret (set_reg REG_RDX (if sint (mc_regs s REG_RAX) < 0 then -1 else 0) s)"
| "exec (Grp3 G_Not r) s = Ret (set_reg r (NOT (mc_regs s r)) s)"
| "exec (Grp3 G_Neg r) s = Ret (set_flags None (set_reg r (- mc_regs s r) s))"
| "exec (Grp3 G_Idiv r) s = exec_idiv (mc_regs s r) s"
| "exec (ShiftCL h r) s = Ret (set_flags None (set_reg r (shift_result h (mc_regs s r) (unat (mc_regs s REG_RCX AND 0xFF))) s))"
| "exec (Lea8 d b x) s = Ret (set_reg d (mc_regs s b + scast x) s)"
| "exec _ s = Fault Undefined"

fun exec_all :: "x86 list \<Rightarrow> machine \<Rightarrow> machine outcome" where
  "exec_all [] s = Ret s"
| "exec_all (i # is) s = obind (exec i s) (exec_all is)"

lemma exec_all_append: "exec_all (is @ js) s = obind (exec_all is s) (exec_all js)"
proof (induction "is" arbitrary: s)
  case (Cons i "is")
  then show ?case by (cases "exec i s") simp_all
qed simp

lemma machine_simps [simp]:
  "mc_regs (set_reg r v s) = (mc_regs s)(r := v)" "mc_mem (set_reg r v s) = mc_mem s" "mc_flags (set_reg r v s) = mc_flags s"
  "mc_regs (set_flags f s) = mc_regs s" "mc_mem (set_flags f s) = mc_mem s" "mc_flags (set_flags f s) = f"
  "mc_regs (set_mem m s) = mc_regs s" "mc_mem (set_mem m s) = m" "mc_flags (set_mem m s) = mc_flags s"
  by (simp_all add: set_reg_def set_flags_def set_mem_def)

section \<open>Facts on memory\<close>

lemma load_bytes_store:
  assumes "length bs < 2 ^ 64"
  shows "load_bytes a (length bs) (store_bytes a bs m) = bs"
proof (rule nth_equalityI)
  fix i assume "i < length (load_bytes a (length bs) (store_bytes a bs m))"
  then have i: "i < length bs" by (simp add: load_bytes_def)
  then have "unat (of_nat i :: u64) = i" using assms by (simp add: unat_of_nat take_bit_nat_eq_self)
  then show "load_bytes a (length bs) (store_bytes a bs m) ! i = bs ! i"
    using i by (simp add: load_bytes_def store_bytes_def)
qed (simp add: load_bytes_def)

lemma unat_64: "unat (w :: u64) < 2 ^ 64"
  using unsigned_less [of w] by simp

text \<open>\<open>apart a b\<close>: eight bytes at \<open>a\<close> and eight bytes at \<open>b\<close> do not overlap.\<close>

definition apart :: "u64 \<Rightarrow> u64 \<Rightarrow> bool" where
  "apart a b \<longleftrightarrow> 8 \<le> unat (b - a) \<and> 8 \<le> unat (a - b)"

lemma apart_offset:
  assumes "apart a b" "i < 8"
  shows "\<not> unat (b + of_nat i - a) < 8"
proof -
  have d: "unat (b - a) + unat (a - b) = 2 ^ 64"
    using assms(1) unat_64 [of a] unat_64 [of b]
    by (auto simp: apart_def unat_sub_if_size word_size split: if_splits)
  then have "unat (b - a) + i < 2 ^ 64" using assms by (simp add: apart_def)
  then have "unat ((b - a) + of_nat i) = unat (b - a) + i"
    using assms(2) by (simp add: unat_plus_if_size word_size unat_of_nat take_bit_nat_eq_self)
  then show ?thesis using assms(1) by (simp add: apart_def algebra_simps)
qed

lemma load64_store_bytes_apart: "apart a b \<Longrightarrow> length bs \<le> 8 \<Longrightarrow> load64 (store_bytes a bs m) b = load64 m b"
  unfolding load64_def load_bytes_def
  by (rule arg_cong [of _ _ of_le64], rule map_cong [OF refl]) (use apart_offset in \<open>force simp: store_bytes_def\<close>)

lemma load64_store:
  "load64 (store64 a v m) a = v"
  "apart a b \<Longrightarrow> load64 (store64 a v m) b = load64 m b"
  "apart a b \<Longrightarrow> load64 (store32 a w m) b = load64 m b"
  "apart a b \<Longrightarrow> load64 (store8 a x m) b = load64 m b"
  using load_bytes_store [of "le64 v" a m]
  by (simp_all add: store64_def store32_def store8_def load64_store_bytes_apart) (simp add: load64_def)

end
