(* ===== verification/IrSemantics.thy ===== *)
theory IrSemantics
  imports Ir
begin

text \<open>
  What intermediate code means. Virtual registers hold 64-bit words, stack slots eight bytes each, of
  which a load or store touches as many as its type has; arithmetic wraps around at 64 bits, division
  truncates and traps like the processor's. Registers and slots start out undefined, and reading one
  that is undefined, or more of a slot than was stored, is a fault. A call takes the registers
  named by the \<open>IR_ARG\<close> instructions before it, and what the callee does is the parameter \<open>callee\<close>.
\<close>

section \<open>Operations\<close>

definition truth :: "bool \<Rightarrow> u64" where
  "truth b = (if b then 1 else 0)"

fun binary_value :: "opcode \<Rightarrow> u64 \<Rightarrow> u64 \<Rightarrow> u64 outcome" where
  "binary_value IR_ADD a b = Ret (a + b)"
| "binary_value IR_SUB a b = Ret (a - b)"
| "binary_value IR_MUL a b = Ret (a * b)"
| "binary_value IR_DIV a b =
     (if b = 0 \<or> \<not> fits_int64 (c_div (sint a) (sint b)) then Fault Trap else Ret (of_int (c_div (sint a) (sint b))))"
| "binary_value IR_EQ a b = Ret (truth (a = b))"
| "binary_value IR_NEQ a b = Ret (truth (a \<noteq> b))"
| "binary_value IR_LT a b = Ret (truth (sint a < sint b))"
| "binary_value IR_LE a b = Ret (truth (sint a \<le> sint b))"
| "binary_value IR_GT a b = Ret (truth (sint a > sint b))"
| "binary_value IR_GE a b = Ret (truth (sint a \<ge> sint b))"
| "binary_value IR_LSHIFT a b = Ret (push_bit (unat b mod 64) a)"
| "binary_value IR_RSHIFT a b = Ret (signed_drop_bit (unat b mod 64) a)"
| "binary_value IR_URSHIFT a b = Ret (drop_bit (unat b mod 64) a)"
| "binary_value IR_BAND a b = Ret (a AND b)"
| "binary_value IR_BOR a b = Ret (a OR b)"
| "binary_value IR_BXOR a b = Ret (a XOR b)"
| "binary_value _ a b = Fault Undefined"

fun unary_value :: "opcode \<Rightarrow> u64 \<Rightarrow> u64" where
  "unary_value IR_NEG a = - a"
| "unary_value IR_BNOT a = NOT a"
| "unary_value IR_NOT a = truth (a = 0)"
| "unary_value _ a = a"

text \<open>Loading and storing the low bytes of a slot, with sign extension.\<close>

definition slot_load :: "nat \<Rightarrow> u64 \<Rightarrow> u64" where
  "slot_load n w = (if n = 1 then scast (ucast w :: u8) else if n = 4 then scast (ucast w :: u32) else w)"

definition slot_store :: "nat \<Rightarrow> u64 \<Rightarrow> u64 \<Rightarrow> u64" where
  "slot_store n v w =
     (if n = 1 then w AND NOT (mask 8) OR ucast (ucast v :: u8)
      else if n = 4 then w AND NOT (mask 32) OR ucast (ucast v :: u32) else v)"

definition slot_width :: "nat \<Rightarrow> nat" where
  "slot_width n = (if n = 1 then 1 else if n = 4 then 4 else 8)"

text \<open>\<open>holds_low k v w\<close>: the low \<open>k\<close> bytes of \<open>w\<close> are those of \<open>v\<close>.\<close>

definition holds_low :: "nat \<Rightarrow> u64 \<Rightarrow> u64 \<Rightarrow> bool" where
  "holds_low k v w \<longleftrightarrow> take_bit (8 * k) w = take_bit (8 * k) v"

lemma holds_low_bit: "holds_low k v w \<Longrightarrow> i < 8 * k \<Longrightarrow> bit w i = bit v i"
  unfolding holds_low_def by (metis bit_take_bit_iff)

lemma holds_low_ucast: "holds_low k v w \<Longrightarrow> LENGTH('a::len) \<le> 8 * k \<Longrightarrow> (ucast w :: 'a word) = ucast v"
  by (rule bit_word_eqI) (auto simp: bit_simps holds_low_bit)

lemma slot_load_low:
  assumes "holds_low k v w" "slot_width n \<le> k"
  shows "slot_load n w = slot_load n v"
proof -
  consider "n = 1" | "n = 4" | "n \<noteq> 1" "n \<noteq> 4" by blast
  then show ?thesis
  proof cases
    case 3
    then have "w = v" using assms(2) holds_low_bit [OF assms(1)] by (intro bit_word_eqI) (auto simp: slot_width_def)
    then show ?thesis by simp
  qed (use assms holds_low_ucast [where 'a = 8] holds_low_ucast [where 'a = 32] in \<open>auto simp: slot_load_def slot_width_def\<close>)
qed

lemma slot_store_low: "holds_low (slot_width n) v (slot_store n v w)"
  unfolding holds_low_def by (rule bit_word_eqI) (auto simp: slot_store_def slot_width_def bit_simps)

section \<open>Steps\<close>

text \<open>A defined slot has the number of bytes that were stored last and their value.\<close>

record ir_state =
  ir_regs :: "nat \<Rightarrow> u64 option"
  ir_slots :: "nat \<Rightarrow> (nat \<times> u64) option"
  ir_args :: "nat list"

definition set_vreg :: "nat \<Rightarrow> u64 \<Rightarrow> ir_state \<Rightarrow> ir_state" where
  "set_vreg r v st = st\<lparr>ir_regs := (ir_regs st)(r := Some v)\<rparr>"

definition ir_value :: "ir_state \<Rightarrow> nat \<Rightarrow> u64 outcome" where
  "ir_value st r = (case ir_regs st r of None \<Rightarrow> Fault Undefined | Some v \<Rightarrow> Ret v)"

fun ir_values :: "ir_state \<Rightarrow> nat list \<Rightarrow> u64 list outcome" where
  "ir_values st [] = Ret []"
| "ir_values st (r # rs) = obind (ir_value st r) (\<lambda>v. obind (ir_values st rs) (\<lambda>vs. Ret (v # vs)))"

definition ir_load :: "ir_state \<Rightarrow> nat \<Rightarrow> nat \<Rightarrow> u64 outcome" where
  "ir_load st k n =
     (case ir_slots st k of
        Some (m, v) \<Rightarrow> if slot_width n \<le> m then Ret (slot_load n v) else Fault Undefined
      | None \<Rightarrow> Fault Undefined)"

definition set_slot :: "nat \<Rightarrow> nat \<Rightarrow> u64 \<Rightarrow> ir_state \<Rightarrow> ir_state" where
  "set_slot k n v st = st\<lparr>ir_slots := (ir_slots st)(k := Some (slot_width n, v))\<rparr>"

text \<open>What an instruction without control flow does.\<close>

definition ir_effect :: "instr \<Rightarrow> ir_state \<Rightarrow> ir_state outcome" where
  "ir_effect i st =
     (let src1 = ir_value st (in_src1 i); dest = (\<lambda>v. Ret (set_vreg (in_dest i) v st)) in
      case in_op i of
        IR_CONST \<Rightarrow> dest (of_int (in_imm i))
      | IR_MOV \<Rightarrow> obind src1 dest
      | IR_NEG \<Rightarrow> obind src1 (\<lambda>a. dest (unary_value IR_NEG a))
      | IR_NOT \<Rightarrow> obind src1 (\<lambda>a. dest (unary_value IR_NOT a))
      | IR_BNOT \<Rightarrow> obind src1 (\<lambda>a. dest (unary_value IR_BNOT a))
      | IR_LOAD \<Rightarrow> obind (ir_load st (in_src1 i) (type_size (in_type i))) dest
      | IR_STORE \<Rightarrow> obind src1 (\<lambda>a. Ret (set_slot (in_dest i) (type_size (in_type i)) a st))
      | op \<Rightarrow> obind src1 (\<lambda>a. obind (ir_value st (in_src2 i)) (\<lambda>b. obind (binary_value op a b) dest)))"

text \<open>The code behind the first placement of a label.\<close>

definition after_label :: "nat \<Rightarrow> instr list \<Rightarrow> instr list" where
  "after_label l is = tl (dropWhile (\<lambda>i. \<not> (in_op i = IR_LABEL \<and> in_label i = l)) is)"

datatype 'a progress = Continue "instr list" 'a | Return u64

text \<open>
  One instruction of the function with code \<open>prog\<close>; \<open>rest\<close> is the code behind it. Falling off the end
  is a fault of \<open>ir_run\<close>.
\<close>

definition ir_step ::
  "(string \<Rightarrow> u64 list \<Rightarrow> u64 outcome) \<Rightarrow> instr list \<Rightarrow> instr \<Rightarrow> instr list \<Rightarrow> ir_state \<Rightarrow> ir_state progress outcome" where
  "ir_step callee prog i rest st =
     (let src1 = ir_value st (in_src1 i); next = (\<lambda>st. Ret (Continue rest st));
          jump = Ret (Continue (after_label (in_label i) prog) st) in
      case in_op i of
        IR_ARG \<Rightarrow> next (st\<lparr>ir_args := ir_args st @ [in_src1 i]\<rparr>)
      | IR_CALL \<Rightarrow> obind (ir_values st (ir_args st)) (\<lambda>vs. obind (callee (in_func i) vs) (\<lambda>v.
          next ((set_vreg (in_dest i) v st)\<lparr>ir_args := []\<rparr>)))
      | IR_LABEL \<Rightarrow> next st
      | IR_JMP \<Rightarrow> jump
      | IR_JZ \<Rightarrow> obind src1 (\<lambda>a. if a = 0 then jump else next st)
      | IR_JNZ \<Rightarrow> obind src1 (\<lambda>a. if a \<noteq> 0 then jump else next st)
      | IR_RET \<Rightarrow> obind src1 (\<lambda>a. Ret (Return a))
      | _ \<Rightarrow> obind (ir_effect i st) next)"

text \<open>At most \<open>fuel\<close> instructions.\<close>

fun ir_run :: "(string \<Rightarrow> u64 list \<Rightarrow> u64 outcome) \<Rightarrow> nat \<Rightarrow> instr list \<Rightarrow> instr list \<Rightarrow> ir_state \<Rightarrow> u64 outcome" where
  "ir_run callee 0 prog rest st = Timeout"
| "ir_run callee (Suc n) prog [] st = Fault Undefined"
| "ir_run callee (Suc n) prog (i # rest) st =
     obind (ir_step callee prog i rest st) (\<lambda>p.
       case p of Return v \<Rightarrow> Ret v | Continue rest st \<Rightarrow> ir_run callee n prog rest st)"

end
