(* ===== verification/Operands.thy ===== *)
theory Operands
  imports Processor IrSemantics JitSpec
begin

text \<open>
  What the selected pieces of code do on the processor: loading an operand, storing a result, and
  the operation between them, which leaves its result in \<open>rax\<close> and touches nothing but \<open>rax\<close>,
  \<open>rcx\<close>, \<open>rdx\<close> and the flags.
\<close>

section \<open>Locations\<close>

text \<open>The location of a virtual register: a callee-saved register or a slot of the frame.\<close>

fun placed_at :: "location \<Rightarrow> bool" where
  "placed_at (LOC_REG r) \<longleftrightarrow> r \<in> {REG_RBX, REG_R12, REG_R13, REG_R14, REG_R15}"
| "placed_at (LOC_STACK x) \<longleftrightarrow> True"
| "placed_at _ \<longleftrightarrow> False"

fun loc_value :: "machine \<Rightarrow> location \<Rightarrow> u64" where
  "loc_value s (LOC_REG r) = mc_regs s r"
| "loc_value s (LOC_STACK x) = load64 (mc_mem s) (address s REG_RBP x)"
| "loc_value s (LOC_CONST i) = i"
| "loc_value s LOC_NONE = 0"

fun set_loc :: "location \<Rightarrow> u64 \<Rightarrow> machine \<Rightarrow> machine" where
  "set_loc (LOC_REG r) v s = set_reg r v s"
| "set_loc (LOC_STACK x) v s = set_mem (store64 (address s REG_RBP x) v (mc_mem s)) s"
| "set_loc _ v s = s"

text \<open>States that differ in scratch registers and flags only.\<close>

definition agrees :: "machine \<Rightarrow> machine \<Rightarrow> bool" where
  "agrees s t \<longleftrightarrow> mc_mem t = mc_mem s \<and> (\<forall>r. r \<notin> {REG_RAX, REG_RCX, REG_RDX} \<longrightarrow> mc_regs t r = mc_regs s r)"

lemma agrees_refl [simp]: "agrees s s"
  by (simp add: agrees_def)

lemma agrees_trans: "agrees s t \<Longrightarrow> agrees t u \<Longrightarrow> agrees s u"
  by (simp add: agrees_def)

lemma agrees_steps [simp]:
  "r \<in> {REG_RAX, REG_RCX, REG_RDX} \<Longrightarrow> agrees s (set_reg r v t) = agrees s t"
  "agrees s (set_flags f t) = agrees s t"
  by (auto simp: agrees_def)

lemma loc_value_scratch [simp]:
  "placed_at l \<Longrightarrow> r \<in> {REG_RAX, REG_RCX, REG_RDX} \<Longrightarrow> loc_value (set_reg r v s) l = loc_value s l"
  "loc_value (set_flags f s) l = loc_value s l"
  by (cases l; auto simp: address_def)+

lemma agrees_loc: "agrees s t \<Longrightarrow> placed_at l \<Longrightarrow> loc_value t l = loc_value s l"
  by (cases l) (auto simp: agrees_def address_def)

section \<open>Loads and stores\<close>

lemma set_reg_same [simp]: "set_reg r (mc_regs s r) s = s"
  by (simp add: set_reg_def)

lemma exec_load_sel: "placed_at l \<Longrightarrow> exec_all (load_sel d l) s = Ret (set_reg d (loc_value s l) s)"
  by (cases l) (auto simp: load_sel_def)

lemma exec_store_sel: "placed_at l \<Longrightarrow> exec_all (store_sel l r) s = Ret (set_loc l (mc_regs s r) s)"
  by (cases l) (auto simp: store_sel_def)

text \<open>An operand that is needed in a register: it is there, or it is brought to \<open>tmp\<close>.\<close>

lemma exec_operand_sel:
  assumes "placed_at l"
  shows "exec_all (operand_sel tmp l) s = Ret (if is_reg l then s else set_reg tmp (loc_value s l) s)"
    "mc_regs (if is_reg l then s else set_reg tmp (loc_value s l) s) (operand_reg tmp l) = loc_value s l"
  using assms exec_load_sel [OF assms, of tmp s] by (cases l; simp add: operand_sel_def operand_reg_def)+

section \<open>Binary operations\<close>

text \<open>\<open>leaves s m v\<close>: running \<open>m\<close> from \<open>s\<close> leaves \<open>v\<close> in \<open>rax\<close>.\<close>

definition leaves :: "machine \<Rightarrow> machine outcome \<Rightarrow> u64 outcome \<Rightarrow> bool" where
  "leaves s m v \<longleftrightarrow> (case v of Ret w \<Rightarrow> \<exists>t. m = Ret t \<and> agrees s t \<and> mc_regs t REG_RAX = w | Fault e \<Rightarrow> m = Fault e | Timeout \<Rightarrow> False)"

lemma leaves_Ret [simp]: "leaves s m (Ret w) \<longleftrightarrow> (\<exists>t. m = Ret t \<and> agrees s t \<and> mc_regs t REG_RAX = w)"
  by (simp add: leaves_def)

lemma obind_exec_all: "obind (Ret s) k = k s" by simp

text \<open>Both operands are loaded; then the register \<open>r\<close> holds the second one.\<close>

lemma binary_sel_leaves:
  assumes "placed_at a" "placed_at b" "tmp \<in> {REG_RCX, REG_RDX}"
    and "\<And>t r. agrees s t \<Longrightarrow> mc_regs t REG_RAX = loc_value s a \<Longrightarrow> mc_regs t r = loc_value s b \<Longrightarrow> r \<noteq> REG_RAX \<Longrightarrow>
      leaves s (exec_all (op r) t) v"
  shows "leaves s (exec_all (binary_sel tmp op a b) s) v"
proof -
  let ?s1 = "set_reg REG_RAX (loc_value s a) s"
  let ?s2 = "if is_reg b then ?s1 else set_reg tmp (loc_value ?s1 b) ?s1"
  have run: "exec_all (binary_sel tmp op a b) s = exec_all (op (operand_reg tmp b)) ?s2"
    unfolding binary_sel_def exec_all_append exec_load_sel [OF assms(1)] obind_exec_all exec_operand_sel(1) [OF assms(2)] ..
  have "agrees s ?s2" "mc_regs ?s2 REG_RAX = loc_value s a" using assms(3) by auto
  moreover have "mc_regs ?s2 (operand_reg tmp b) = loc_value s b"
    using exec_operand_sel(2) [OF assms(2), of ?s1 tmp] assms(2) by simp
  moreover have "operand_reg tmp b \<noteq> REG_RAX"
    using assms(2,3) by (cases b) (auto simp: operand_reg_def)
  ultimately show ?thesis unfolding run by (rule assms(4))
qed

text \<open>A difference of 64 bits is the difference of the integers or off by \<open>2^64\<close>.\<close>

lemma sint_range: "- (2 ^ 63) \<le> sint (a :: u64)" "sint (a :: u64) < 2 ^ 63"
  using sint_ge [of a] sint_lt [of a] by simp_all

lemma sint_diff:
  obtains "sint (a - b :: u64) = sint a - sint b"
  | "sint (a - b) = sint a - sint b - 2 ^ 64" | "sint (a - b) = sint a - sint b + 2 ^ 64"
proof -
  have "(word_of_int (sint (a - b)) :: u64) = word_of_int (sint a - sint b)" by simp
  then have "2 ^ 64 dvd sint (a - b) - (sint a - sint b)"
    unfolding word_of_int_eq_iff by (simp add: take_bit_eq_mod mod_eq_dvd_iff)
  then obtain k where k: "sint (a - b) = sint a - sint b + 2 ^ 64 * k" by (auto simp: dvd_def algebra_simps)
  have "- 2 < k" "k < 2" using sint_range [of a] sint_range [of b] sint_range [of "a - b"] k by auto
  then consider "k = 0" | "k = -1" | "k = 1" by linarith
  then show thesis using that k by cases auto
qed

lemma sub_conditions:
  "condition CC_E (sub_flags a b) \<longleftrightarrow> a = b" "condition CC_NE (sub_flags a b) \<longleftrightarrow> a \<noteq> b"
  "condition CC_L (sub_flags a b) \<longleftrightarrow> sint a < sint b" "condition CC_GE (sub_flags a b) \<longleftrightarrow> sint b \<le> sint a"
  "condition CC_LE (sub_flags a b) \<longleftrightarrow> sint a \<le> sint b" "condition CC_G (sub_flags a b) \<longleftrightarrow> sint b < sint a"
proof -
  have z: "fl_zero (sub_flags a b) \<longleftrightarrow> a = b" by (simp add: sub_flags_def)
  have eq: "a = b \<longleftrightarrow> sint a = sint b" by (auto intro: signed_word_eqI)
  have so: "fl_sign (sub_flags a b) \<noteq> fl_over (sub_flags a b) \<longleftrightarrow> sint a < sint b"
    using sint_range [of "a - b"] sint_range [of a] sint_range [of b] by (cases rule: sint_diff [of a b]) (auto simp: sub_flags_def)
  show "condition CC_E (sub_flags a b) \<longleftrightarrow> a = b" "condition CC_NE (sub_flags a b) \<longleftrightarrow> a \<noteq> b"
    "condition CC_L (sub_flags a b) \<longleftrightarrow> sint a < sint b" "condition CC_GE (sub_flags a b) \<longleftrightarrow> sint b \<le> sint a"
    "condition CC_LE (sub_flags a b) \<longleftrightarrow> sint a \<le> sint b" "condition CC_G (sub_flags a b) \<longleftrightarrow> sint b < sint a"
    using z so eq by auto
qed

text \<open>\<open>setcc al\<close> and \<open>movzx rax, al\<close> make a truth value.\<close>

lemma mask_byte: "(0xFF :: u64) = mask 8" "(- 256 :: u64) = NOT (mask 8)"
  by (simp_all add: mask_eq_exp_minus_1)

lemma truth_byte: "((w :: u64) AND - 256 OR 1) AND 0xFF = 1" "((w :: u64) AND - 256) AND 0xFF = 0"
  unfolding mask_byte by (rule bit_word_eqI; auto simp: bit_simps bit_1_iff)+

lemma leaves_truth:
  "agrees s t \<Longrightarrow> mc_flags t = Some f \<Longrightarrow>
   leaves s (exec_all [SetCC c REG_RAX, MovzxB REG_RAX REG_RAX] t) (Ret (truth (condition c f)))"
  by (simp add: truth_byte truth_def)

lemma leaves_shift:
  assumes "placed_at a" "placed_at b"
  shows "leaves s (exec_all (load_sel REG_RAX a @ load_sel REG_RCX b @ [ShiftCL h REG_RAX]) s)
    (Ret (shift_result h (loc_value s a) (unat (loc_value s b) mod 64)))"
proof -
  have "unat (w AND 0xFF) mod 64 = unat w mod 64" for w :: u64
  proof -
    have "unat (w AND 0xFF) = take_bit 8 (unat w)"
      unfolding mask_byte by (simp add: unsigned_take_bit_eq flip: take_bit_eq_mask)
    then show ?thesis by (simp add: take_bit_eq_mod mod_mod_cancel)
  qed
  moreover have "shift_result h v (n mod 64) = shift_result h v n" for v n by (cases h) simp_all
  ultimately have "shift_result h v (unat (w AND 0xFF)) = shift_result h v (unat w mod 64)" for v and w :: u64
    by metis
  then show ?thesis using assms by (simp add: exec_all_append exec_load_sel)
qed

text \<open>\<open>cqo\<close> extends the sign, so \<open>idiv\<close> divides the two words.\<close>

lemma dividend: "sint (if sint a < 0 then - 1 else 0 :: u64) * 2 ^ 64 + uint a = sint (a :: u64)"
proof -
  have "(word_of_int (sint a) :: u64) = word_of_int (uint a)" by simp
  then have "2 ^ 64 dvd sint a - uint a"
    unfolding word_of_int_eq_iff by (simp only: take_bit_eq_mod mod_eq_dvd_iff) simp
  then obtain k where k: "sint a = uint a + 2 ^ 64 * k" by (auto simp: dvd_def algebra_simps)
  have u: "0 \<le> uint a" "uint a < 18446744073709551616" using unsigned_less [of a] by simp_all
  have "- 9223372036854775808 \<le> sint a" "sint a < 9223372036854775808" using sint_range [of a] by simp_all
  moreover have "sint a = uint a + 18446744073709551616 * k" using k by simp
  ultimately have "- 2 < k" "k < 1" using u by linarith+
  then consider "k = 0" | "k = -1" by linarith
  then show ?thesis using k u by cases auto
qed

lemma obind_exec_Nil [simp]: "obind m (exec_all []) = m"
  by (cases m) simp_all

lemma leaves_div:
  assumes "placed_at a" "placed_at b"
  shows "leaves s (exec_all (load_sel REG_RAX a @ [Cqo] @ operand_sel REG_RCX b @ [Grp3 G_Idiv (operand_reg REG_RCX b)]) s)
    (binary_value IR_DIV (loc_value s a) (loc_value s b))"
proof -
  let ?x = "loc_value s a" and ?y = "loc_value s b"
  let ?s1 = "set_reg REG_RDX (if sint ?x < 0 then -1 else 0) (set_reg REG_RAX ?x s)"
  let ?s2 = "if is_reg b then ?s1 else set_reg REG_RCX (loc_value ?s1 b) ?s1"
  have r: "mc_regs ?s2 (operand_reg REG_RCX b) = ?y" "operand_reg REG_RCX b \<notin> {REG_RAX, REG_RDX}"
    using assms(2) exec_operand_sel(2) [OF assms(2), of ?s1 REG_RCX] by (simp, cases b) (auto simp: operand_reg_def)
  have d: "sint (mc_regs ?s2 REG_RDX) * 2 ^ 64 + uint (mc_regs ?s2 REG_RAX) = sint ?x"
    using dividend [of ?x] by simp
  have "agrees s ?s2" by simp
  have "exec_all (load_sel REG_RAX a @ [Cqo] @ operand_sel REG_RCX b @ [Grp3 G_Idiv (operand_reg REG_RCX b)]) s =
      exec_idiv ?y ?s2"
    using r exec_operand_sel(1) [OF assms(2), of REG_RCX ?s1]
    by (simp add: exec_all_append exec_load_sel [OF assms(1)] del: exec_operand_sel)
  then show ?thesis
    using \<open>agrees s ?s2\<close> unfolding exec_idiv_def Let_def d by (simp add: leaves_def)
qed

lemma condition_of_value:
  assumes "op \<in> {IR_EQ, IR_NEQ, IR_LT, IR_LE, IR_GT, IR_GE}"
  shows "binary_value op a b = Ret (truth (condition (condition_of op) (sub_flags a b)))"
  using assms sub_conditions [of a b] by (auto simp del: condition.simps)

theorem select_binary_leaves:
  assumes "placed_at a" "placed_at b" "is_binary op"
  shows "leaves s (exec_all (select_binary op a b) s) (binary_value op (loc_value s a) (loc_value s b))"
proof -
  note bin = binary_sel_leaves [OF assms(1,2)]
  have compare: "leaves s (exec_all (binary_sel REG_RCX (\<lambda>r. [AluRR A_Cmp REG_RAX r, SetCC c REG_RAX, MovzxB REG_RAX REG_RAX]) a b) s)
      (Ret (truth (condition c (sub_flags (loc_value s a) (loc_value s b)))))" for c
    by (rule bin) (simp_all add: exec_alu_def truth_byte truth_def)
  show ?thesis
  proof (cases "op \<in> {IR_EQ, IR_NEQ, IR_LT, IR_LE, IR_GT, IR_GE}")
    case True
    show ?thesis
      unfolding condition_of_value [OF True] using True compare by (auto simp del: condition.simps)
  next
    case False
    have alu: "leaves s (exec_all (binary_sel REG_RDX (\<lambda>r. [AluRR x REG_RAX r]) a b) s) (Ret v)"
      if "fst (alu_result x (loc_value s a) (loc_value s b)) = Some v" for x v
      by (rule bin) (use that in \<open>auto simp: exec_alu_def split: option.split prod.split\<close>)
    have mul: "leaves s (exec_all (binary_sel REG_RCX (\<lambda>r. [ImulRR REG_RAX r]) a b) s) (Ret (loc_value s a * loc_value s b))"
      by (rule bin) simp_all
    show ?thesis
      using False assms(3) alu mul leaves_div [OF assms(1,2), of s] leaves_shift [OF assms(1,2), of s S_Shl]
        leaves_shift [OF assms(1,2), of s S_Shr] leaves_shift [OF assms(1,2), of s S_Sar]
      by (cases op) (simp_all add: is_binary_def del: binary_value.simps(4))
  qed
qed

end
