(* ===== verification/Frame.thy ===== *)
theory Frame
  imports RegAlloc Operands
begin

text \<open>
  The frame of a generated function, below \<open>rbp\<close>: five saved registers, a gap, and one slot of
  eight bytes for every local variable and every virtual register. Addresses are \<open>rbp + of_int d\<close>.
\<close>

section \<open>Offsets\<close>

lemma spill_local: "spill_offset n = get_local_offset n"
  by (simp add: spill_offset_def get_local_offset_def Let_def CALLEE_SAVED_SIZE_def CALLEE_SAVED_COUNT_def STACK_ALIGNMENT_def WORD_SIZE_def)

lemma sint_local_offset: "n < 2 ^ 27 \<Longrightarrow> sint (get_local_offset n) = - (int (8 * n) + 56)"
proof -
  assume "n < 2 ^ 27"
  then have "sint (of_int (- (int (8 * n) + 56)) :: u32) = - (int (8 * n) + 56)"
    by (simp only: signed_of_int of_int_eq_id id_apply) (rule signed_take_bit_int_eq_self; simp)
  moreover have "get_local_offset n = of_int (- (int (8 * n) + 56))"
    by (simp only: get_local_offset_def CALLEE_SAVED_SIZE_def CALLEE_SAVED_COUNT_def WORD_SIZE_def of_int_minus of_int_add of_int_of_nat_eq)
      (simp add: algebra_simps)
  ultimately show ?thesis by (simp only:)
qed

text \<open>The eight bytes of a slot, relative to \<open>rbp\<close>.\<close>

definition slot_bytes :: "u32 \<Rightarrow> int set" where
  "slot_bytes x = {sint x..<sint x + 8}"

lemma slots_apart: "m < 2 ^ 27 \<Longrightarrow> n < 2 ^ 27 \<Longrightarrow> m \<noteq> n \<Longrightarrow> slot_bytes (get_local_offset m) \<inter> slot_bytes (get_local_offset n) = {}"
  by (auto simp: slot_bytes_def sint_local_offset)

lemma frame_size:
  "calculate_aligned_stack_size f =
     8 * (if_stack_count f + if_vreg_count f) + (if even (if_stack_count f + if_vreg_count f) then 8 else 0)"
proof -
  define n where "n = if_stack_count f + if_vreg_count f"
  have "(16 + 5 * 8 + n * 8) mod 16 = (if even n then 8 else 0 :: nat)"
  proof (cases "even n")
    case True
    then obtain m where "n = 2 * m" by blast
    then show ?thesis by presburger
  next
    case False
    then obtain m where "n = 2 * m + 1" by (metis oddE)
    then show ?thesis by presburger
  qed
  then show ?thesis
    by (simp add: calculate_aligned_stack_size_def Let_def WORD_SIZE_def CALLEE_SAVED_COUNT_def STACK_ALIGNMENT_def mult.commute
        flip: n_def)
qed

section \<open>Addresses\<close>

lemma scast_offset: "scast (x :: u32) = (of_int (sint x) :: u64)"
  by (rule scast_eq)

lemma uint_of_int_small: "\<bar>d\<bar> < 2 ^ 63 \<Longrightarrow> uint (of_int d :: u64) = (if d < 0 then d + 2 ^ 64 else d)"
proof -
  assume d: "\<bar>d\<bar> < 2 ^ 63"
  have "uint (of_int d :: u64) = d mod 2 ^ 64" by (simp add: uint_word_of_int)
  also have "\<dots> = (if d < 0 then d + 2 ^ 64 else d)"
  proof (cases "d < 0")
    case True
    have "d mod 2 ^ 64 = (d + 2 ^ 64) mod 2 ^ 64" by (simp only: mod_add_self2)
    also have "\<dots> = d + 2 ^ 64" using True d by (intro mod_pos_pos_trivial) auto
    finally show ?thesis using True by (simp only: if_True)
  next
    case False
    then have "d mod 2 ^ 64 = d" using d by (intro mod_pos_pos_trivial) auto
    then show ?thesis using False by (simp only: if_False)
  qed
  finally show ?thesis .
qed

lemma uint_unat: "uint (w :: u64) = int (unat w)"
  by simp

lemma apart_offsets: "8 \<le> \<bar>d - e\<bar> \<Longrightarrow> \<bar>d - e\<bar> < 2 ^ 62 \<Longrightarrow> apart (b + of_int d) (b + of_int e)"
proof -
  assume d: "8 \<le> \<bar>d - e\<bar>" "\<bar>d - e\<bar> < 2 ^ 62"
  have "(8 :: int) \<le> uint (of_int (e - d) :: u64)" "(8 :: int) \<le> uint (of_int (d - e) :: u64)"
    using d uint_of_int_small [of "e - d"] uint_of_int_small [of "d - e"] by (auto simp del: of_int_diff)
  moreover have "8 \<le> unat x" if "8 \<le> uint x" for x :: u64 using that uint_unat [of x] by linarith
  ultimately show ?thesis by (simp add: apart_def)
qed

text \<open>\<open>below sp n a\<close>: \<open>a\<close> is one of the \<open>n\<close> bytes under \<open>sp\<close>.\<close>

definition below :: "u64 \<Rightarrow> nat \<Rightarrow> u64 \<Rightarrow> bool" where
  "below sp n a \<longleftrightarrow> unat (sp - 1 - a) < n"

lemma store_below:
  assumes "length bs \<le> 8" "d \<le> - 8" "- int n \<le> d" "n < 2 ^ 62" "\<not> below sp n a"
  shows "store_bytes (sp + of_int d) bs m a = m a"
proof (rule ccontr)
  assume "store_bytes (sp + of_int d) bs m a \<noteq> m a"
  then have "unat (a - (sp + of_int d)) < length bs" by (simp only: store_bytes_def split: if_splits)
  then obtain i where i: "unat (a - (sp + of_int d)) = i" "i < 8" using assms(1) by (meson less_le_trans)
  have "a - (sp + of_int d) = of_nat (unat (a - (sp + of_int d)))" by simp
  then have "a = sp + of_int d + of_nat i" unfolding i(1) by (simp add: algebra_simps)
  then have "sp - 1 - a = of_int (- 1 - d - int i)" by simp
  then have "uint (sp - 1 - a) = - 1 - d - int i"
    using assms(2-4) i(2) uint_of_int_small [of "- 1 - d - int i"] by (simp del: of_int_diff)
  then have "unat (sp - 1 - a) < n" using assms(3) i unfolding uint_unat by linarith
  then show False using assms(5) by (simp add: below_def)
qed

section \<open>Slots\<close>

lemma load_bytes_overwrite:
  assumes "length bs \<le> 8"
  shows "load_bytes a 8 (store_bytes a bs m) = bs @ drop (length bs) (load_bytes a 8 m)"
proof (rule nth_equalityI)
  fix i assume "i < length (load_bytes a 8 (store_bytes a bs m))"
  then have i: "i < 8" by (simp add: load_bytes_def)
  then have "unat (of_nat i :: u64) = i" by (simp add: unat_of_nat take_bit_nat_eq_self)
  then have "load_bytes a 8 (store_bytes a bs m) ! i = (if i < length bs then bs ! i else m (a + of_nat i))"
    using i by (simp add: load_bytes_def store_bytes_def)
  then show "load_bytes a 8 (store_bytes a bs m) ! i = (bs @ drop (length bs) (load_bytes a 8 m)) ! i"
    using i by (cases "i < length bs") (simp_all add: load_bytes_def nth_append)
qed (use assms in \<open>simp add: load_bytes_def\<close>)

lemma load_bytes_8: "load_bytes a 8 m = [m a, m (a + 1), m (a + 2), m (a + 3), m (a + 4), m (a + 5), m (a + 6), m (a + 7)]"
  by (simp add: load_bytes_def upt_rec)

lemma load_bytes_4: "load_bytes a 4 m = [m a, m (a + 1), m (a + 2), m (a + 3)]"
  by (simp add: load_bytes_def upt_rec)

lemma load_parts: "load32 m a = ucast (load64 m a)" "m a = ucast (load64 m a)"
  by (rule bit_word_eqI; auto simp: load32_def load64_def load_bytes_8 load_bytes_4 of_le64_def of_le32_def bit_simps)+

lemma of_le32_byte: "of_le32 [x, b, c, d] = of_le32 [y, b, c, d] AND NOT (mask 8) OR ucast x"
  by (rule bit_word_eqI) (auto simp: of_le32_def bit_simps dest: bit_imp_le_length)

lemma store_parts:
  "load64 (store32 a w m) a = load64 m a AND NOT (mask 32) OR ucast w"
  "load64 (store8 a x m) a = load64 m a AND NOT (mask 8) OR ucast x"
proof -
  have 1: "load_bytes a 8 (store32 a w m) = le32 w @ [m (a + 4), m (a + 5), m (a + 6), m (a + 7)]"
    using load_bytes_overwrite [of "le32 w" a m] by (simp add: store32_def load_bytes_8)
  have 2: "load_bytes a 8 (store8 a x m) = [x, m (a + 1), m (a + 2), m (a + 3), m (a + 4), m (a + 5), m (a + 6), m (a + 7)]"
    using load_bytes_overwrite [of "[x]" a m] by (simp add: store8_def load_bytes_8)
  show "load64 (store32 a w m) a = load64 m a AND NOT (mask 32) OR ucast w"
    unfolding load64_def 1 load_bytes_8 [of a m]
    by (rule bit_word_eqI) (auto simp: of_le64_def bit_simps dest: bit_imp_le_length)
  show "load64 (store8 a x m) a = load64 m a AND NOT (mask 8) OR ucast x"
    unfolding load64_def 2 load_bytes_8 [of a m]
    by (rule bit_word_eqI) (auto simp: of_le64_def of_le32_byte [of x _ _ _ "m a"] bit_simps dest: bit_imp_le_length)
qed

end
