(* ===== verification/MachineCode.thy ===== *)
theory MachineCode
  imports SampleCalls Frame
begin

text \<open>
  The properties of the code generator, one theorem each: what the emitter writes, how the encoders
  and both passes over a function relate, where jumps go, where virtual registers live, what linking
  does and what is run in the end.
\<close>

section \<open>Emitting\<close>

text \<open>What a routine writes into a buffer decodes to the instruction \<open>i\<close>.\<close>

definition writes :: "(emitter \<Rightarrow> emitter) \<Rightarrow> x86 \<Rightarrow> bool" where
  "writes routine i \<longleftrightarrow> (\<forall>em. em_buf em \<noteq> 0 \<longrightarrow>
     decodes (read_bytes (em_buf em) (em_size (routine em) - em_size em) (em_mem (routine em))) [i])"

lemma writes_asm: "encodable i \<Longrightarrow> (\<And>em. routine em = emit_list (asm i) em) \<Longrightarrow> writes routine i"
  using decodes_asm [of "[i]"] by (simp add: writes_def emit_list_write read_write_bytes del: asm.simps decodes.simps)

text \<open>C20: Emitted bytes decode. The bytes that each routine of the emitter writes are the encoding of
  the instruction it is named for, whatever its registers, prefixes and displacements: decoding
  them the way the processor does gives that instruction back.\<close>

theorem emitted_bytes_decode:
  "writes (emit_push r) (Push r) \<and> writes (emit_pop r) (Pop r) \<and> writes (emit_mov_reg_reg d s) (MovRR d s) \<and>
   writes (emit_alu (alu_opcode a) d s) (AluRR a d s) \<and> writes (emit_cmp d s) (AluRR A_Cmp d s) \<and>
   writes (emit_test d s) (TestRR d s) \<and> writes (emit_imul_r64 d s) (ImulRR d s) \<and> writes (emit_mov_imm d i) (MovImm d i) \<and>
   writes (emit_store_local s x) (Store64 REG_RBP x s) \<and> writes (emit_load_param d x) (Load64 d REG_RBP x) \<and>
   writes (emit_setcc c d) (SetCC c d) \<and> writes (emit_movzx d s) (MovzxB d s) \<and>
   writes (emit_load_signext d REG_RBP x n) (load_sized d x n) \<and>
   writes (emit_store_sized s REG_RBP x n) (store_sized x s n)"
  by (intro conjI writes_asm emits) (simp_all add: encodes)

section \<open>Encoders and passes\<close>

text \<open>C13: Encoders carry out instruction selection. For every opcode, the encoder of the operation
  table assigns the same locations and returns the size of the same symbolic code as the
  selection function, and with a buffer writes exactly that code; it fails exactly when selection fails.\<close>

theorem encoders_select:
  "encode_inst buf i ctx =
     obind (select i (alloc_of ctx)) (\<lambda>(is, a). Ret (items_size is, put buf is (set_alloc a ctx)))"
  by (rule encode_inst_refines)

text \<open>C12: The passes agree. On intermediate code that \<open>ir_gen\<close> returned, none of the three checks that end
  \<open>jit_compile_function\<close> in \<open>abort\<close> fires, whatever the state of the context: the instruction count is
  right, the second pass never overruns the size predicted by the first, and reaches it.\<close>

theorem passes_agree:
  assumes "ir_gen S0 junk root errors filename = Ret (Some f, errs)"
  shows "jit_compile_function sys ctx f name k \<noteq> Fault Aborted"
  by (rule compile_not_aborted) (rule ir_gen_compiles(2) [OF assms])

theorem passes_agree_witness:
  "jit_compile_function sample_system sample_ctx sample_ir ''main'' 0 \<noteq> Fault Aborted"
  by (rule passes_agree [OF sample_ir_gen])

lemma compiled_image:
  assumes gen: "ir_gen S0 junk root errors filename = Ret (Some f, errs)"
    and run: "jit_compile_function sys ctx f name k = Ret ((addr, n), ctx')" "addr \<noteq> 0"
  obtains items a where "select_function f k = Ret (items, a)" "n = items_size items" "n < MAX_CODE_SIZE" "if_label_count f < MAX_LABELS"
    "jx_mem ctx' = write_bytes addr (code (assemble (label_addresses addr items) (\<lambda>_. placeholder) addr items)) (jx_mem ctx)"
    "jx_registry ctx' = jx_registry ctx @ [\<lparr>cf_name = name, cf_addr = addr, cf_size = n\<rparr>]"
proof -
  note g = ir_gen_compiles [OF gen]
  obtain items a exec where labels: "if_label_count f < MAX_LABELS" and sel: "select_function f k = Ret (items, a)"
      and alloc: "arena_alloc_aligned sys (items_size items) STACK_ALIGNMENT (jx_exec ctx) = (addr, exec)"
      and reg: "length (jx_registry ctx) < MAX_FUNCTION_COUNT"
    using compile_cases [OF run g(2)] by metis
  let ?c = "set_alloc a (fresh ctx f exec)"
  have n: "n = items_size items" and ctx': "ctx' = (place addr items ?c)
      \<lparr>jx_registry := jx_registry ctx @ [\<lparr>cf_name = name, cf_addr = addr, cf_size = n\<rparr>]\<rparr>"
    using compile_refines [OF labels g(2) sel alloc run(2) reg, of name] run(1) by auto
  have fresh: "jx_mem ?c = jx_mem ctx" "jx_patches ?c = []" "\<forall>l. \<not> jx_label_defined ?c l"
    by (simp_all add: fresh_def) (simp_all add: reset_state_def)
  have "jx_mem ctx' = write_bytes addr (code (assemble (label_addresses addr items) (\<lambda>_. placeholder) addr items)) (jx_mem ctx)"
    using place_image [OF select_function_shape(1) [OF sel g(1) labels] _ fresh(3,2), of addr] run(2)
    by (simp add: ctx') (simp add: fresh_def)
  moreover have "n < MAX_CODE_SIZE" using select_function_size [OF sel g(3)] by (simp add: n)
  ultimately show thesis using that sel n labels ctx' by simp
qed

text \<open>Reading a part of the assembled code gives the instructions of the items there.\<close>

lemma read_item:
  assumes "jx_mem ctx = write_bytes addr (code (assemble lab c addr (is @ i # js))) m" "list_all encodable (ops (is @ i # js))"
  shows "decodes (read_bytes (addr + items_size is) (item_size i) (jx_mem ctx)) (item_code lab c (addr + items_size is) i)"
proof -
  let ?p = "addr + items_size is" and ?xs = "code (item_code lab c (addr + items_size is) i)"
  let ?pre = "code (assemble lab c addr is)" and ?post = "code (assemble lab c (?p + item_size i) js)"
  have "jx_mem ctx = write_bytes (?p + item_size i) ?post (write_bytes ?p ?xs (write_bytes addr ?pre m))"
    using write_bytes_append [of addr ?pre ?xs m] write_bytes_append [of addr "?pre @ ?xs" ?post m]
    by (simp add: assms(1) assemble_append add.assoc)
  then have "read_bytes ?p (item_size i) (jx_mem ctx) = ?xs"
    using read_write_bytes [of ?p ?xs] by (simp add: read_bytes_outside)
  moreover have "list_all encodable (assemble lab c ?p [i])"
    using assms(2) by (intro encodable_ops_code) (cases i; simp add: shapes)
  ultimately show ?thesis using decodes_asm [of "item_code lab c ?p i"] by (simp add: code_def del: decodes.simps)
qed

lemma marked: "label_addresses pc is l = Some t \<Longrightarrow> \<exists>us vs. is = us @ Mark l # vs \<and> t = pc + items_size us"
proof (induction "is" arbitrary: pc)
  case (Cons i "is")
  show ?case
  proof (cases "i = Mark l")
    case True
    then show ?thesis using Cons.prems by (intro exI [of _ "[]"] exI [of _ "is"]) simp
  next
    case False
    then have "label_addresses (pc + item_size i) is l = Some t" using Cons.prems by (cases i) auto
    from Cons.IH [OF this] obtain us vs where "is = us @ Mark l # vs" "t = pc + item_size i + items_size us" by blast
    then show ?thesis by (intro exI [of _ "i # us"] exI [of _ vs]) simp
  qed
qed simp

lemma compiled_code:
  assumes gen: "ir_gen S0 junk root errors filename = Ret (Some f, errs)"
    and run: "jit_compile_function sys ctx f name k = Ret ((addr, n), ctx')" "addr \<noteq> 0"
  shows "\<exists>items a. select_function f k = Ret (items, a) \<and> n = items_size items \<and> n < MAX_CODE_SIZE \<and>
    decodes (read_bytes addr n (jx_mem ctx')) (assemble (label_addresses addr items) (\<lambda>_. placeholder) addr items) \<and>
    (\<forall>x. x \<notin> {addr..<addr + n} \<longrightarrow> jx_mem ctx' x = jx_mem ctx x) \<and>
    jx_registry ctx' = jx_registry ctx @ [\<lparr>cf_name = name, cf_addr = addr, cf_size = n\<rparr>]"
proof -
  obtain items a where sel: "select_function f k = Ret (items, a)" and n: "n = items_size items" "n < MAX_CODE_SIZE"
      and labels: "if_label_count f < MAX_LABELS"
      and mem: "jx_mem ctx' = write_bytes addr (code (assemble (label_addresses addr items) (\<lambda>_. placeholder) addr items)) (jx_mem ctx)"
      and reg: "jx_registry ctx' = jx_registry ctx @ [\<lparr>cf_name = name, cf_addr = addr, cf_size = n\<rparr>]"
    by (rule compiled_image [OF assms])
  let ?code = "assemble (label_addresses addr items) (\<lambda>_. placeholder) addr items"
  note shape = select_function_shape [OF sel ir_gen_compiles(1) [OF gen] labels]
  have "decodes (read_bytes addr n (jx_mem ctx')) ?code"
    unfolding mem using read_write_bytes [of addr "code ?code"] decodes_asm [OF encodable_ops_code [OF shape(2)], folded code_def]
    by (simp add: n(1))
  moreover have "jx_mem ctx' x = jx_mem ctx x" if "x \<notin> {addr..<addr + n}" for x
    unfolding mem using that by (intro write_bytes_outside) (auto simp: n(1))
  ultimately show ?thesis using sel n reg by fastforce
qed

text \<open>C11: Compiled code is the selected code. When \<open>jit_compile_function\<close> returns an address, memory there
  decodes to the symbolic code selected for the function, assembled at that address, with a
  placeholder in every call; no other byte has changed; the size is less than \<open>2 ^ 27\<close>; and the function
  is registered.\<close>

theorem compiled_code_decodes:
  assumes "ir_gen S0 junk root errors filename = Ret (Some f, errs)"
    and "jit_compile_function sys ctx f name k = Ret ((addr, n), ctx')" "addr \<noteq> 0"
  shows "\<exists>items a. select_function f k = Ret (items, a) \<and> n = items_size items \<and> n < MAX_CODE_SIZE \<and>
    decodes (read_bytes addr n (jx_mem ctx')) (assemble (label_addresses addr items) (\<lambda>_. placeholder) addr items) \<and>
    (\<forall>x. x \<notin> {addr..<addr + n} \<longrightarrow> jx_mem ctx' x = jx_mem ctx x) \<and>
    jx_registry ctx' = jx_registry ctx @ [\<lparr>cf_name = name, cf_addr = addr, cf_size = n\<rparr>]"
  by (rule compiled_code [OF assms])

theorem compiled_code_decodes_witness:
  "\<exists>n ctx. jit_compile_function sample_system sample_ctx sample_ir ''main'' 0 = Ret ((4128, n), ctx) \<and>
     decodes (read_bytes 4128 n (jx_mem ctx))
       (assemble (label_addresses 4128 sample_items) (\<lambda>_. placeholder) 4128 sample_items)"
proof -
  obtain n ctx where c: "jit_compile_function sample_system sample_ctx sample_ir ''main'' 0 = Ret ((4128, n), ctx)"
    using sample_compiled by metis
  then show ?thesis
    using compiled_code_decodes [OF sample_ir_gen c] sample_select by auto
qed

definition jump_instruction :: "x86_condition option \<Rightarrow> u32 \<Rightarrow> x86" where
  "jump_instruction c d = (case c of None \<Rightarrow> Jmp32 d | Some cc \<Rightarrow> Jcc32 cc d)"

text \<open>C17: Jumps land on their labels. The labels that the code of a function jumps to are those of its
  intermediate code. Wherever the selected code has a jump, the bytes in memory at that place decode to the jump instruction
  with a displacement that, read as a signed 32-bit number and added to the address of the next instruction, is the
  address at which the selected code has the label: nothing overflows, and forward jumps are patched. That address is
  inside the code.\<close>

theorem jumps_land:
  assumes "ir_gen S0 junk root errors filename = Ret (Some f, errs)"
    and "jit_compile_function sys ctx f name k = Ret ((addr, n), ctx')" "addr \<noteq> 0"
  shows "\<exists>items a. select_function f k = Ret (items, a) \<and> n = items_size items \<and> set (jumps items) = targets (ir_code f) \<and>
    (\<forall>is c l js. items = is @ Jump c l # js \<longrightarrow>
       (\<exists>d us vs. items = us @ Mark l # vs \<and>
          decodes (read_bytes (addr + items_size is) (item_size (Jump c l)) (jx_mem ctx')) [jump_instruction c d] \<and>
          int (addr + items_size (is @ [Jump c l])) + sint d = int (addr + items_size us)))"
proof -
  obtain items a where sel: "select_function f k = Ret (items, a)" and n: "n = items_size items" "n < MAX_CODE_SIZE"
      and labels: "if_label_count f < MAX_LABELS"
      and mem: "jx_mem ctx' = write_bytes addr (code (assemble (label_addresses addr items) (\<lambda>_. placeholder) addr items)) (jx_mem ctx)"
    by (rule compiled_image [OF assms])
  let ?lab = "label_addresses addr items"
  note g = ir_gen_compiles(1) [OF assms(1)]
  note shape = select_function_shape [OF sel g labels]
  have "\<exists>d us vs. items = us @ Mark l # vs \<and>
      decodes (read_bytes (addr + items_size is) (item_size (Jump c l)) (jx_mem ctx')) [jump_instruction c d] \<and>
      int (addr + items_size (is @ [Jump c l])) + sint d = int (addr + items_size us)"
    if it: "items = is @ Jump c l # js" for "is" c l js
  proof -
    have "l \<in> set (jumps items)" by (simp add: it shapes)
    then obtain t where t: "?lab l = Some t" using jumps_resolved [OF sel g labels] by blast
    from marked [OF t] obtain us vs where us: "items = us @ Mark l # vs" "t = addr + items_size us" by blast
    let ?next = "addr + items_size (is @ [Jump c l])"
    have "int ?next + sint (displacement ?lab l ?next) = int t"
      using n(2) by (intro displacement_exact [OF t]) (simp_all add: n(1) it MAX_CODE_SIZE_def)
    moreover have "item_code ?lab (\<lambda>_. placeholder) (addr + items_size is) (Jump c l) = [jump_instruction c (displacement ?lab l ?next)]"
      by (cases c) (simp_all add: jump_instruction_def add.assoc)
    moreover have "decodes (read_bytes (addr + items_size is) (item_size (Jump c l)) (jx_mem ctx'))
        (item_code ?lab (\<lambda>_. placeholder) (addr + items_size is) (Jump c l))"
      using mem shape(2) unfolding it by (rule read_item)
    ultimately show ?thesis using us by auto
  qed
  then show ?thesis using sel n(1) shape(4) by blast
qed

text \<open>On the sample: the jump back to the start of the loop is in memory, and leads there.\<close>

theorem jumps_land_witness:
  "\<exists>addr n ctx items is c js d us vs. jit_compile_function sample_system sample_ctx
       (coded ''main'' caller_code 4 0 2 error_context_init ''main.c'') ''main'' 0 = Ret ((addr, n), ctx) \<and>
     items = is @ Jump c 0 # js \<and> items = us @ Mark 0 # vs \<and>
     decodes (read_bytes (addr + items_size is) (item_size (Jump c 0)) (jx_mem ctx)) [jump_instruction c d] \<and>
     int (addr + items_size (is @ [Jump c 0])) + sint d = int (addr + items_size us)"
proof -
  obtain addr n ctx where c: "jit_compile_function sample_system sample_ctx
      (coded ''main'' caller_code 4 0 2 error_context_init ''main.c'') ''main'' 0 = Ret ((addr, n), ctx)" "addr \<noteq> 0"
    by (rule pair_built)
  obtain items where jumps: "set (jumps items) = targets caller_code"
      and land: "\<And>is c l js. items = is @ Jump c l # js \<Longrightarrow> \<exists>d us vs. items = us @ Mark l # vs \<and>
          decodes (read_bytes (addr + items_size is) (item_size (Jump c l)) (jx_mem ctx)) [jump_instruction c d] \<and>
          int (addr + items_size (is @ [Jump c l])) + sint d = int (addr + items_size us)"
    using jumps_land [OF caller_gen c] unfolding coded_parts by (elim exE conjE) (rule that, assumption, simp only:)
  have "0 \<in> set (jumps items)" by (simp add: jumps caller_targets)
  then obtain c where "Jump c 0 \<in> set items" by (auto simp: jumps_def split: item.splits)
  then obtain "is" js where "items = is @ Jump c 0 # js" by (meson split_list)
  with land obtain d us vs where "items = us @ Mark 0 # vs"
      "decodes (read_bytes (addr + items_size is) (item_size (Jump c 0)) (jx_mem ctx)) [jump_instruction c d]"
      "int (addr + items_size (is @ [Jump c 0])) + sint d = int (addr + items_size us)" by blast
  then show ?thesis using c(1) \<open>items = is @ Jump c 0 # js\<close> by blast
qed

section \<open>Where values live\<close>

text \<open>C19: Virtual registers do not share. Asking for the location of a virtual register keeps every location
  given out before; the location is a callee-saved register, held by no other virtual register, or the
  slot of the virtual register in the frame, which overlaps the slot of no other virtual register
  and of no local variable.\<close>

theorem locations_private:
  assumes ok: "alloc_ok (alloc_of ctx)" and loc: "get_location ctx v = Ret (l, ctx')"
    and small: "jx_stack_base ctx + MAX_VREGS_PER_FUNCTION \<le> 2 ^ 27"
  shows "alloc_ok (alloc_of ctx') \<and> jx_vreg_map ctx' v = l \<and> (\<forall>w. jx_vreg_map ctx w \<noteq> LOC_NONE \<longrightarrow> jx_vreg_map ctx' w = jx_vreg_map ctx w) \<and>
    (case l of
       LOC_REG r \<Rightarrow> r \<in> {REG_RBX, REG_R12, REG_R13, REG_R14, REG_R15} \<and> (\<forall>w. jx_vreg_map ctx' w = LOC_REG r \<longrightarrow> w = v)
     | LOC_STACK x \<Rightarrow>
         (\<forall>w y. w < MAX_VREGS_PER_FUNCTION \<and> w \<noteq> v \<and> jx_vreg_map ctx' w = LOC_STACK y \<longrightarrow> slot_bytes x \<inter> slot_bytes y = {}) \<and>
         (\<forall>idx < jx_stack_base ctx. slot_bytes x \<inter> slot_bytes (get_local_offset idx) = {})
     | _ \<Rightarrow> False)"
proof -
  obtain b where b: "al_location (alloc_of ctx) v = Ret (l, b)" "ctx' = set_alloc b ctx"
    using loc by (auto simp: get_location_lift lift_def outcome_simps)
  note k = al_location_ok [OF ok b(1)]
  have v: "v < MAX_VREGS_PER_FUNCTION" using b(1) by (auto simp: al_location_def split: if_splits)
  have maps: "jx_vreg_map ctx' = al_map b" "jx_vreg_map ctx = al_map (alloc_of ctx)" "al_base b = jx_stack_base ctx"
    using k(2) by (simp_all add: b(2) set_alloc_def alloc_of_def alloc_le_def)
  have keep: "\<forall>w. jx_vreg_map ctx w \<noteq> LOC_NONE \<longrightarrow> jx_vreg_map ctx' w = jx_vreg_map ctx w"
    using k(2) by (simp add: maps alloc_le_def)
  have slot: "y = get_local_offset (jx_stack_base ctx + w)" if "al_map b w = LOC_STACK y" for w y
    using k(1) that by (simp add: alloc_ok_def spill_local maps(3))
  have ok': "alloc_ok (alloc_of ctx')" using k(1) by (simp add: b(2))
  have at: "jx_vreg_map ctx' v = l" using k(3) by (simp only: maps(1))
  show ?thesis
  proof (cases l)
    case (LOC_REG r)
    then have r: "al_map b v = LOC_REG r" using k(3) by simp
    obtain i where "(i, r) \<in> set saved_registers" using alloc_ok_reg [OF k(1) r] by blast
    then have "r \<in> {REG_RBX, REG_R12, REG_R13, REG_R14, REG_R15}" by (auto simp: saved_registers_def)
    moreover have "\<forall>w. al_map b w = LOC_REG r \<longrightarrow> w = v" using k(1) r by (simp add: alloc_ok_def)
    ultimately show ?thesis
      using ok' at keep unfolding LOC_REG location.case maps(1) by blast
  next
    case (LOC_STACK x)
    then have x: "al_map b v = LOC_STACK x" using k(3) by simp
    have "slot_bytes x \<inter> slot_bytes y = {}" if "w < MAX_VREGS_PER_FUNCTION" "w \<noteq> v" "al_map b w = LOC_STACK y" for w y
      unfolding slot [OF x] slot [OF that(3)] using that small v by (intro slots_apart) auto
    moreover have "slot_bytes x \<inter> slot_bytes (get_local_offset idx) = {}" if "idx < jx_stack_base ctx" for idx
      unfolding slot [OF x] using that small v by (intro slots_apart) auto
    ultimately show ?thesis
      using ok' at keep unfolding LOC_STACK location.case maps(1) by blast
  qed (use k(1,3,4) in \<open>auto simp: alloc_ok_def\<close>)
qed

theorem locations_private_witness:
  "\<exists>ctx. get_location sample_ctx 1 = Ret (LOC_REG REG_RBX, ctx) \<and> jx_vreg_map ctx 1 = LOC_REG REG_RBX \<and>
     (\<forall>w. jx_vreg_map ctx w = LOC_REG REG_RBX \<longrightarrow> w = 1)"
proof -
  have ok: "alloc_ok (alloc_of sample_ctx)"
    using initial_alloc_ok [of 0] by (simp add: sample_ctx_def jit_ctx_init_def alloc_of_def initial_alloc_def)
  have base: "jx_stack_base sample_ctx + MAX_VREGS_PER_FUNCTION \<le> 2 ^ 27"
    by (simp add: sample_ctx_def jit_ctx_init_def MAX_VREGS_PER_FUNCTION_def)
  obtain ctx where "get_location sample_ctx 1 = Ret (LOC_REG REG_RBX, ctx)"
    by (simp add: get_location_lift lift_def al_location_def alloc_of_def sample_ctx_def jit_ctx_init_def MAX_VREGS_PER_FUNCTION_def
        al_fresh_def saved_registers_def)
  from locations_private [OF ok this base] this show ?thesis by auto
qed

text \<open>C21: Frames. The frame of a function keeps the stack pointer aligned to 16 bytes: return address,
  saved registers and frame together are a multiple of 16, with at most 8 bytes of padding. It covers the slots of
  the local variables and virtual registers, except for the lowest one when the number of slots is
  odd: then no padding is added and that slot lies just below the stack pointer.\<close>

theorem frame_bounds:
  assumes small: "if_stack_count f + if_vreg_count f < 2 ^ 27"
  defines "bytes \<equiv> calculate_aligned_stack_size f" and "slots \<equiv> if_stack_count f + if_vreg_count f"
  shows "16 dvd 16 + CALLEE_SAVED_SIZE + bytes \<and> 8 * slots \<le> bytes \<and> bytes \<le> 8 * slots + 8 \<and>
    (\<forall>j < slots. slot_bytes (get_local_offset j) \<subseteq> {- int (CALLEE_SAVED_SIZE + bytes)..<- int CALLEE_SAVED_SIZE} \<longleftrightarrow>
       j + 1 < slots \<or> even slots)"
proof -
  have bytes: "bytes = 8 * slots + (if even slots then 8 else 0)" unfolding bytes_def slots_def by (rule frame_size)
  have "slot_bytes (get_local_offset j) \<subseteq> {- int (CALLEE_SAVED_SIZE + bytes)..<- int CALLEE_SAVED_SIZE} \<longleftrightarrow> j + 1 < slots \<or> even slots"
    if "j < slots" for j
  proof -
    have "j < 2 ^ 27" using that small unfolding slots_def by linarith
    then have s: "sint (get_local_offset j) = - (int (8 * j) + 56)" by (rule sint_local_offset)
    show ?thesis
      using that unfolding slot_bytes_def bytes s CALLEE_SAVED_SIZE_def CALLEE_SAVED_COUNT_def by (cases "even slots") auto
  qed
  moreover have "16 dvd 16 + CALLEE_SAVED_SIZE + bytes"
    unfolding bytes CALLEE_SAVED_SIZE_def CALLEE_SAVED_COUNT_def by presburger
  ultimately show ?thesis using bytes by auto
qed

theorem frame_bounds_witness: "calculate_aligned_stack_size sample_ir = 24 \<and> 16 dvd 16 + CALLEE_SAVED_SIZE + calculate_aligned_stack_size sample_ir"
proof -
  have "if_stack_count sample_ir + if_vreg_count sample_ir < 2 ^ 27" by (simp add: sample_ir_def)
  from frame_bounds [OF this] show ?thesis
    by (simp add: sample_ir_def calculate_aligned_stack_size_def Let_def WORD_SIZE_def CALLEE_SAVED_COUNT_def STACK_ALIGNMENT_def)
qed

section \<open>Linking and running\<close>

text \<open>C18: Functions do not disturb each other. Compiling all files in turn, as long as the list of call
  sites does not fill up, keeps in disjoint blocks of executable memory the code of every function compiled
  before, adds that of every function definition of the files in their order, and records exactly the
  immediates of their calls as call sites.\<close>

theorem compile_pass_keeps:
  assumes "machine_ok sys" and "built fs ctx"
    and "jit_compile_pass sys stack0 units ctx errors = Ret (True, ctx', errs)" and "length (jx_sites ctx') < MAX_CALL_SITES"
  shows "\<exists>gs. list_all2 implements (definitions_of units) gs \<and> built (fs @ gs) ctx'"
  using compile_pass_built [OF assms(3,1), of fs] assms(2,4) by (auto simp: tracks_all_def)

theorem compile_pass_keeps_witness:
  "\<exists>ctx gs. jit_compile_pass sample_system (\<lambda>_. 0) [sample_unit] sample_ctx error_context_init = Ret (True, ctx, error_context_init) \<and>
     list_all2 implements [sample_main] gs \<and> built gs ctx"
proof -
  obtain ctx where c: "jit_compile_function sample_system sample_ctx sample_ir ''main'' 0 = Ret ((4128, items_size sample_items), ctx)"
      "jx_sites ctx = []"
    using sample_compiled by metis
  have pass: "jit_compile_pass sample_system (\<lambda>_. 0) [sample_unit] sample_ctx error_context_init = Ret (True, ctx, error_context_init)"
    using sample_ir_gen c(1) by (simp add: sample_unit_def sample_main_def)
  have "definitions_of [sample_unit] = [sample_main]"
    by (simp add: definitions_of_def sample_unit_def sample_main_def)
  then show ?thesis
    using compile_pass_keeps [OF sample_machine_ok sample_built pass] c(2) pass by (simp add: MAX_CALL_SITES_def)
qed

text \<open>C16: Linking is complete and honest. It succeeds exactly when every function called is defined, and reports
  one error per call of an undefined one. Afterwards memory decodes, for every function, to its code with the address of
  the callee in each call of a defined function, and the placeholder still in the others; no byte outside
  of the address fields of the calls has changed.\<close>

theorem linking_resolves:
  assumes "built fs ctx"
  shows "\<exists>ctx' errs. jit_link_all ctx errors = (set (calls_of fs) \<subseteq> fst ` set fs, ctx', errs) \<and>
    error_count errs = error_count errors + length (filter (\<lambda>g. g \<notin> fst ` set fs) (calls_of fs)) \<and>
    (\<forall>(name, pc, is)\<in>set fs. decodes (read_bytes pc (items_size is) (jx_mem ctx'))
       (assemble (label_addresses pc is) (call_target fs) pc is)) \<and>
    (\<forall>x. (\<forall>s\<in>set (jx_sites ctx). x \<notin> {cs_location s..<cs_location s + 8}) \<longrightarrow> jx_mem ctx' x = jx_mem ctx x)"
proof -
  have closed: "(\<forall>f\<in>set fs. set (callees (snd (snd f))) \<subseteq> fst ` set fs) \<longleftrightarrow> set (calls_of fs) \<subseteq> fst ` set fs"
    by (simp add: calls_of_def UN_subset_iff case_prod_unfold)
  obtain ctx' errs where l: "jit_link_all ctx errors = (set (calls_of fs) \<subseteq> fst ` set fs, ctx', errs)"
      "error_count errs = error_count errors + length (filter (\<lambda>g. g \<notin> fst ` set fs) (calls_of fs))"
      "\<forall>x. (\<forall>s\<in>set (jx_sites ctx). x \<notin> {cs_location s..<cs_location s + 8}) \<longrightarrow> jx_mem ctx' x = jx_mem ctx x"
      "\<And>f. f \<in> set fs \<Longrightarrow> holds (jx_mem ctx') f (image_of (filled (jx_registry ctx) (\<lambda>_. placeholder)) f)"
    using link_built [OF assms, of errors] unfolding closed built_unresolved [OF assms] by blast
  have "\<forall>(name, pc, is)\<in>set fs. decodes (read_bytes pc (items_size is) (jx_mem ctx'))
       (assemble (label_addresses pc is) (call_target fs) pc is)"
    using built_decodes [OF assms _ l(4)] by blast
  then show ?thesis using l(1-3) by blast
qed

text \<open>On the sample: linked before the second file is compiled, the call is reported and keeps its placeholder;
  linked afterwards, it has the address of the callee.\<close>

theorem linking_resolves_witness:
  "\<exists>addr addr' items items' c1 c2 d1 d2 e1 e2. callees items = [''seven''] \<and>
     built [(''main'', addr, items)] c1 \<and> jit_link_all c1 error_context_init = (False, d1, e1) \<and> error_count e1 = 1 \<and>
     decodes (read_bytes addr (items_size items) (jx_mem d1)) (assemble (label_addresses addr items) (\<lambda>_. placeholder) addr items) \<and>
     built [(''main'', addr, items), (''seven'', addr', items')] c2 \<and>
     jit_link_all c2 error_context_init = (True, d2, e2) \<and> error_count e2 = 0 \<and>
     decodes (read_bytes addr (items_size items) (jx_mem d2))
       (assemble (label_addresses addr items) (\<lambda>_. of_nat addr') addr items)"
proof -
  obtain addr n addr' items items' c1 c2 where b: "callees items = [''seven'']" "callees items' = []"
    "built [(''main'', addr, items)] c1" "built [(''main'', addr, items), (''seven'', addr', items')] c2"
    by (rule pair_built)
  have calls: "calls_of [(''main'', addr, items)] = [''seven'']"
      "calls_of [(''main'', addr, items), (''seven'', addr', items')] = [''seven'']"
    by (simp_all add: calls_of_def b(1,2))
  have code: "assemble lab (call_target [(''main'', addr, items)]) addr items = assemble lab (\<lambda>_. placeholder) addr items"
      "assemble lab (call_target [(''main'', addr, items), (''seven'', addr', items')]) addr items = assemble lab (\<lambda>_. of_nat addr') addr items"
    for lab by (rule assemble_callees, simp add: b(1) call_target_def)+
  obtain d1 e1 where l1: "jit_link_all c1 error_context_init = (False, d1, e1)" "error_count e1 = 1"
      "decodes (read_bytes addr (items_size items) (jx_mem d1)) (assemble (label_addresses addr items) (\<lambda>_. placeholder) addr items)"
    using linking_resolves [OF b(3), of error_context_init] by (auto simp: calls code error_context_init_def)
  obtain d2 e2 where l2: "jit_link_all c2 error_context_init = (True, d2, e2)" "error_count e2 = 0"
      "decodes (read_bytes addr (items_size items) (jx_mem d2)) (assemble (label_addresses addr items) (\<lambda>_. of_nat addr') addr items)"
    using linking_resolves [OF b(4), of error_context_init] by (auto simp: calls code error_context_init_def)
  show ?thesis using b l1 l2 by blast
qed

text \<open>C6: What runs is the program. When the last phases call \<open>main\<close>, the function definitions of the files,
  in their order, have been translated, selected and placed; and when there are fewer than 1024 calls in their code, so that the
  list of call sites has not filled up, the address called is that of a
  function named \<open>main\<close>, memory decodes, for each of them, to its
  code with all jumps and calls resolved, and every callee is one of them.\<close>

theorem program_runs_its_code:
  assumes "machine_ok sys"
    and "run_program sys stack0 run mem mapped units errors = Ret (c, Some r, errs)"
  shows "\<exists>fs ctx entry. list_all2 implements (definitions_of units) fs \<and> run ctx entry = Ret r \<and>
    (call_count fs < MAX_CALL_SITES \<longrightarrow>
       (\<exists>items. (''main'', entry, items) \<in> set fs) \<and>
       (\<forall>f\<in>set fs. linked ctx f \<and> set (callees (snd (snd f))) \<subseteq> fst ` set fs))"
  by (rule run_program_runs [OF assms])

text \<open>On the sample, executed by a machine that returns the address it is given.\<close>

theorem program_runs_its_code_witness:
  "\<exists>ctx entry errs addr main_items seven_items.
     run_program sample_system (\<lambda>_. 0) (\<lambda>_ e. Ret (of_nat e)) (\<lambda>_. 0) [] [caller_unit, seven_unit] error_context_init =
       Ret (0, Some (of_nat entry), errs) \<and>
     callees main_items = [''seven''] \<and> linked ctx (''main'', entry, main_items) \<and> linked ctx (''seven'', addr, seven_items)"
proof -
  obtain ctx0 entry0 errs where go: "\<And>run. run_program sample_system (\<lambda>_. 0) run (\<lambda>_. 0) [] [caller_unit, seven_unit] error_context_init =
      obind (run ctx0 entry0) (\<lambda>r. Ret (0, Some r, errs))"
    by (rule pair_runs) blast
  let ?e = "\<lambda>_ e. Ret (of_nat e) :: i64 outcome"
  obtain fs ctx entry where fs: "list_all2 implements [sample_caller, sample_seven] fs" and e: "?e ctx entry = Ret (of_nat entry0)"
      and l: "call_count fs < MAX_CALL_SITES \<Longrightarrow> (\<exists>items. (''main'', entry, items) \<in> set fs) \<and> (\<forall>f\<in>set fs. linked ctx f)"
    using program_runs_its_code [OF sample_machine_ok go [of ?e, unfolded obind.simps]] unfolding pair_definitions by auto
  obtain a items a' items' where f: "fs = [(''main'', a, items), (''seven'', a', items')]" "callees items = [''seven'']" "callees items' = []"
    using fs by (rule pair_implemented)
  have "call_count fs < MAX_CALL_SITES" by (simp add: f MAX_CALL_SITES_def)
  from l [OF this] have "entry = a" "linked ctx (''main'', a, items)" "linked ctx (''seven'', a', items')" by (auto simp: f(1))
  moreover from this have "run_program sample_system (\<lambda>_. 0) ?e (\<lambda>_. 0) [] [caller_unit, seven_unit] error_context_init =
      Ret (0, Some (of_nat a), errs)" using go [of ?e] e by simp
  ultimately show ?thesis using f(2) by blast
qed

text \<open>C7: Clean programs run. When memory and protection are granted, every function definition translates without a
  diagnostic to code with fewer than 512 labels, and there are at most 256 definitions, the last
  phases do not stop early and nothing is dropped: either \<open>main\<close> of the program is called, without a
  new diagnostic, and \<open>main\<close> of the compiler ends as that call ends, or an error is reported and the exit code
  is 1.\<close>

theorem clean_programs_run:
  assumes "machine_ok sys" and "grants sys" and "list_all ready_unit units"
    and "length (definitions_of units) \<le> MAX_FUNCTION_COUNT"
  shows "(\<exists>ctx entry errs. run_program sys stack0 run mem mapped units errors = obind (run ctx entry) (\<lambda>r. Ret (0, Some r, errs)) \<and>
      error_count errs = error_count errors) \<or>
    (\<exists>errs. run_program sys stack0 run mem mapped units errors = Ret (1, None, errs) \<and> error_count errors < error_count errs)"
  by (rule run_program_progress [OF assms])

theorem clean_programs_run_witness:
  "run_program sample_system (\<lambda>_. 5) (\<lambda>_ _. Ret 9) (\<lambda>_. 0) [] [sample_unit] error_context_init \<in>
     {Ret (0, Some 9, errs) | errs. error_count errs = 0} \<union> {Ret (1, None, errs) | errs. 0 < error_count errs}"
  using clean_programs_run [OF sample_machine_ok sample_grants sample_ready, of "\<lambda>_. 5" "\<lambda>_ _. Ret 9" "\<lambda>_. 0" "[]" error_context_init]
  by (auto simp: error_context_init_def)

end
