(* ===== verification/Allocation.thy ===== *)
theory Allocation
  imports ArenaFacts
begin

text \<open>
  The interface between the arena and its clients: a locale of allocators, and what follows for any
  run of allocations. The arena of \<open>incs/memarena.h\<close> is an instance.
\<close>

text \<open>The addresses that a run of requests, a size and an alignment each, returns, with the requests they serve.\<close>

fun allocations :: "(nat \<Rightarrow> nat \<Rightarrow> 's \<Rightarrow> nat \<times> 's) \<Rightarrow> (nat \<times> nat) list \<Rightarrow> 's \<Rightarrow> (nat \<times> nat \<times> nat) list \<times> 's" where
  "allocations alloc [] s = ([], s)"
| "allocations alloc ((n, align) # rs) s =
     (let (p, s) = alloc n align s; (ps, s) = allocations alloc rs s in (if p = 0 then ps else (p, n, align) # ps, s))"

definition block :: "nat \<times> nat \<times> nat \<Rightarrow> nat set" where
  "block = (\<lambda>(p, n, align). {p..<p + n})"

definition aligned :: "nat \<times> nat \<times> nat \<Rightarrow> bool" where
  "aligned = (\<lambda>(p, n, align). align dvd p)"

text \<open>
  \<open>taken\<close> are the addresses given out so far, \<open>fits\<close> the requests whose size can be computed with.
\<close>

locale allocator =
  fixes alloc :: "nat \<Rightarrow> nat \<Rightarrow> 's \<Rightarrow> nat \<times> 's"
    and inv :: "'s \<Rightarrow> bool"
    and taken :: "'s \<Rightarrow> nat set"
    and fits :: "nat \<Rightarrow> nat \<Rightarrow> bool"
  assumes keeps: "inv s \<Longrightarrow> fits n align \<Longrightarrow> alloc n align s = (p, s') \<Longrightarrow> inv s' \<and> taken s \<subseteq> taken s'"
    and fresh: "inv s \<Longrightarrow> fits n align \<Longrightarrow> alloc n align s = (p, s') \<Longrightarrow> p \<noteq> 0 \<Longrightarrow>
      aligned (p, n, align) \<and> block (p, n, align) \<subseteq> taken s' \<and> block (p, n, align) \<inter> taken s = {}"
begin

lemma allocations_disjoint:
  "inv s \<Longrightarrow> \<forall>(n, align)\<in>set rs. fits n align \<Longrightarrow> allocations alloc rs s = (ps, s') \<Longrightarrow>
   inv s' \<and> taken s \<subseteq> taken s' \<and> (\<forall>b\<in>set ps. block b \<subseteq> taken s' \<and> block b \<inter> taken s = {}) \<and>
   (\<forall>b\<in>set ps. aligned b) \<and> sorted_wrt (\<lambda>b c. block b \<inter> block c = {}) ps"
proof (induction rs arbitrary: s ps)
  case (Cons r rs)
  obtain n align where r: "r = (n, align)" by force
  obtain p t where p: "alloc n align s = (p, t)" by force
  obtain qs where qs: "allocations alloc rs t = (qs, s')" and ps: "ps = (if p = 0 then qs else (p, n, align) # qs)"
    using Cons.prems(3) by (auto simp: r p split: prod.splits)
  have f: "fits n align" using Cons.prems(2) by (simp add: r)
  note k = keeps [OF Cons.prems(1) f p]
  have i: "inv s' \<and> taken t \<subseteq> taken s' \<and> (\<forall>b\<in>set qs. block b \<subseteq> taken s' \<and> block b \<inter> taken t = {}) \<and>
      (\<forall>b\<in>set qs. aligned b) \<and> sorted_wrt (\<lambda>b c. block b \<inter> block c = {}) qs"
    using Cons.IH [OF _ _ qs] k Cons.prems(2) by simp
  show ?case
  proof (cases "p = 0")
    case True
    then show ?thesis using i k unfolding ps by simp blast
  next
    case False
    note new = fresh [OF Cons.prems(1) f p False]
    then show ?thesis using i k False unfolding ps by simp blast
  qed
qed simp

end

text \<open>The requests the arena can serve without overflow of the size of a block.\<close>

definition request_fits :: "system \<Rightarrow> nat \<Rightarrow> nat \<Rightarrow> bool" where
  "request_fits sys n align \<longleftrightarrow> system_ok sys \<and> n + align + SIZEOF_ARENA_BLOCK + get_page_size sys \<le> 2 ^ 64 \<and>
     MEMARENA_DEFAULT_SIZE + SIZEOF_ARENA_BLOCK + get_page_size sys \<le> 2 ^ 64"

lemma arena_alloc_contract:
  assumes "arena_ok am" "request_fits sys n align" "arena_alloc_aligned sys n align am = (p, am')"
  shows "arena_ok am' \<and> used (fst am) \<subseteq> used (fst am') \<and>
    (p \<noteq> 0 \<longrightarrow> aligned (p, n, align) \<and> block (p, n, align) \<subseteq> used (fst am') \<and> block (p, n, align) \<inter> used (fst am) = {})"
proof -
  obtain a rs where am: "am = (a, rs)" by force
  have "allocates n align (a, rs) (p, am')"
    using alloc_allocates [of sys n align a rs] assms by (simp add: request_fits_def am)
  then show ?thesis by (auto simp: allocates_def block_def aligned_def am)
qed

interpretation arena: allocator "arena_alloc_aligned sys" arena_ok "\<lambda>am. used (fst am)" "request_fits sys" for sys
  by unfold_locales (use arena_alloc_contract in blast)+

end
