(* ===== verification/Runtime.thy ===== *)
theory Runtime
  imports Allocation Samples
begin

text \<open>
  The properties of the run-time support and of the driver: the arena, the resource tracker, the checked
  operations, and \<open>main\<close> from its arguments to its exit code.
\<close>

section \<open>The arena\<close>



text \<open>C37: Temporary memory is given back, unless the arena was empty. After \<open>arena_temp_begin\<close> on an arena that
  has a block, any run of allocations and \<open>arena_temp_end\<close>, exactly the bytes in use before are in use. When the
  arena had no block, nothing is given back: the arena keeps its chain as the allocations left it, although all
  of its blocks but the oldest are unmapped. No size computation may wrap at \<open>2 ^ 64\<close>.\<close>

theorem temp_restores:
  assumes "\<forall>(n, align)\<in>set ss. request_fits sys n align" "request_fits sys 0 0" "arena_ok (a, rs)"
    and allocs: "alloc_all sys ss (a, rs) = (b, m)"
  shows "(ar_blocks a \<noteq> [] \<longrightarrow> used (fst (arena_temp_end (arena_temp_begin a) (b, m))) = used a \<and>
      arena_total_used (fst (arena_temp_end (arena_temp_begin a) (b, m))) = arena_total_used a) \<and>
    (ar_blocks a = [] \<longrightarrow> arena_temp_end (arena_temp_begin a) (b, m) = (b, unmap_blocks (butlast (ar_blocks b)) m))"
  using temp_end_restores [of sys ss a rs] temp_end_empty [of a b m] assms by (auto simp: request_fits_def split_beta)

theorem temp_restores_witness:
  "\<exists>a rs. arena_alloc_aligned sample_system 100 STACK_ALIGNMENT (arena_init 3, []) = (4128, a, rs) \<and>
     arena_total_used (fst (arena_temp_end (arena_temp_begin a) (alloc_all sample_system [(40, 8)] (a, rs)))) = arena_total_used a"
proof -
  obtain a rs where a: "arena_alloc_aligned sample_system 100 STACK_ALIGNMENT (arena_init 3, []) = (4128, a, rs)" "ar_blocks a \<noteq> []"
    using sample_alloc [of 100 3] by simp
  have fits: "request_fits sample_system 40 8" "request_fits sample_system 0 0" "request_fits sample_system 100 STACK_ALIGNMENT"
    by (simp_all add: request_fits_def sample_system_ok SIZEOF_ARENA_BLOCK_def MEMARENA_DEFAULT_SIZE_def STACK_ALIGNMENT_def)
  have "arena_ok (arena_init 3, [])" by (simp add: arena_ok_def arena_init_def)
  then have "arena_ok (a, rs)" using arena_alloc_contract [OF _ fits(3) a(1)] by blast
  then show ?thesis using temp_restores [of "[(40, 8)]" sample_system a rs] fits a
    by (cases "alloc_all sample_system [(40, 8)] (a, rs)") auto
qed

section \<open>Resources and checks\<close>

text \<open>C38: Every resource is released once. However many descriptors and mappings are tracked, whether
  the table has room for them or not, what is given back on the way and by the final cleanup is, counted with
  multiplicity, exactly what was tracked, and the table is empty afterwards.\<close>

theorem resources_released:
  assumes "\<forall>x\<in>set xs. tracked_ok x"
  shows "(let (t, now) = track_all (resource_tracker_init capacity) xs; (t', later) = resource_cleanup_all t in
      mset (now @ later) = (\<Sum>x\<in>#mset xs. owed x) \<and> tr_files t' = [])"
proof -
  obtain t now where t: "track_all (resource_tracker_init capacity) xs = (t, now)" by force
  have "pending_releases (resource_tracker_init capacity) = {#}"
    by (simp add: pending_releases_def resource_tracker_init_def)
  then have "pending_releases t + mset now = (\<Sum>x\<in>#mset xs. owed x)"
    using track_all_owed [OF assms t] by simp
  then show ?thesis
    unfolding t Let_def prod.case by (simp add: resource_cleanup_all_def pending_releases_def union_commute)
qed

theorem resources_released_witness:
  "(let (t, now) = track_all (resource_tracker_init 1) [Fd 3, Mapping 4096 10]; (t', later) = resource_cleanup_all t in
      mset (now @ later) = {#Close 3, Munmap 4096 10#})"
proof -
  have "\<forall>x\<in>set [Fd 3, Mapping 4096 10]. tracked_ok x" by simp
  from resources_released [OF this, of 1] show ?thesis by (auto simp: Let_def add_mset_commute split: prod.splits)
qed

text \<open>C39: Checked arithmetic is exact. \<open>safe_increment\<close> and \<open>safe_add\<close> succeed exactly when the sum of the
  64-bit operands, taken without wrap-around, is below or at the limit, and then return that sum;
  otherwise they leave the value alone.\<close>

theorem checked_arithmetic:
  "(let (ok, r) = safe_increment val limit in
      (ok \<longleftrightarrow> unat val + 1 < unat limit) \<and> unat r = (if ok then unat val + 1 else unat val)) \<and>
   (let (ok, r) = safe_add dest val limit in
      (ok \<longleftrightarrow> unat dest + unat val \<le> unat limit) \<and> unat r = (if ok then unat dest + unat val else unat dest))"
proof -
  obtain ok r where i: "safe_increment val limit = (ok, r)" by force
  have "unat r = (if ok then unat val + 1 else unat val)"
    using safe_increment_exact(2) [of val limit r] i by (auto simp: safe_increment_def split: if_splits)
  moreover obtain ok' r' where a: "safe_add dest val limit = (ok', r')" by force
  moreover have "unat r' = (if ok' then unat dest + unat val else unat dest)"
    using safe_add_exact(2) [of dest val limit r'] a by (auto simp: safe_add_def split: if_splits)
  ultimately show ?thesis
    using safe_increment_exact(1) [OF i] safe_add_exact(1) [OF a] by (simp add: i)
qed

text \<open>C40: Identifiers. \<open>validate_identifier\<close> accepts exactly the C identifiers of at most 255 characters
  that are not reserved words, and reports one error for every other name.\<close>

theorem identifiers_validated:
  "(let (ok, errors') = validate_identifier name errors filename ln in
     (ok \<longleftrightarrow> name \<noteq> [] \<and> (is_alpha (hd name) \<or> hd name = CHR ''_'') \<and> list_all (\<lambda>c. is_alnum c \<or> c = CHR ''_'') name \<and>
        name \<notin> set reserved \<and> length name \<le> 255) \<and>
     error_count errors' = error_count errors + (if ok then 0 else 1))"
proof -
  obtain ok e where r: "validate_identifier name errors filename ln = (ok, e)" by force
  have "error_count e = error_count errors + (if ok then 0 else 1)"
    using r by (auto simp: validate_identifier_def Let_def split: if_splits option.splits)
  then show ?thesis using validate_identifier_iff [of name errors filename ln] by (simp add: r list_all_iff)
qed

section \<open>The driver\<close>

text \<open>The mapping that adding a file to the compilation makes, if it is accepted.\<close>

definition mapped_file :: "os \<Rightarrow> string \<Rightarrow> (nat \<times> nat) option" where
  "mapped_file sys f =
     (let (valid, validation, _) = validate_source_file sys f error_context_init in
      if valid then Option.bind (os_open sys (fv_canonical_path validation)) (map_input sys) else None)"

text \<open>The files are added in their order until one of them is refused.\<close>

fun mappings :: "os \<Rightarrow> string list \<Rightarrow> (nat \<times> nat) list" where
  "mappings sys [] = []"
| "mappings sys (f # fs) = (case mapped_file sys f of None \<Rightarrow> [] | Some m \<Rightarrow> m # mappings sys fs)"

lemma validate_file_size_errors: "fst (validate_file_size n m f e) = fst (validate_file_size n m f e')"
  by (simp add: validate_file_size_def)

lemma validate_any_errors:
  "validate_source_file sys f e = (v, out, e') \<Longrightarrow> \<exists>e2. validate_source_file sys f error_context_init = (v, out, e2)"
  using validate_file_size_errors [of _ MAX_SOURCE_FILE_SIZE f e error_context_init]
  by (auto simp: validate_source_file_def Let_def split: if_splits option.splits prod.splits) (metis fst_conv)+

lemma add_file_mapped:
  assumes "length (cc_units ctx) < cc_capacity ctx" "length (tr_files t) < tr_capacity t"
    and "compile_ctx_add_file sys ctx f t = (ok, ctx', t', given_back)"
  shows "given_back = [] \<and> cc_capacity ctx' = cc_capacity ctx \<and> tr_capacity t' = tr_capacity t \<and> ok = (mapped_file sys f \<noteq> None) \<and>
    (case mapped_file sys f of
       None \<Rightarrow> t' = t
     | Some (a, n) \<Rightarrow> length (cc_units ctx') = Suc (length (cc_units ctx)) \<and>
         tr_files t' = tr_files t @ [\<lparr>fr_fd = - 1, fr_addr = a, fr_size = n, fr_needs_close = False, fr_needs_munmap = True\<rparr>])"
proof -
  obtain v out e where v: "validate_source_file sys f (cc_errors ctx) = (v, out, e)" by (metis prod_cases3)
  obtain e2 where "validate_source_file sys f error_context_init = (v, out, e2)" using validate_any_errors [OF v] by blast
  then have m: "mapped_file sys f = (if v then Option.bind (os_open sys (fv_canonical_path out)) (map_input sys) else None)"
    by (simp add: mapped_file_def)
  show ?thesis
    using assms
    by (auto simp: compile_ctx_add_file_def Let_def v m resource_track_mmap_def split: if_splits option.splits prod.splits)
qed

definition releases :: "(nat \<times> nat) list \<Rightarrow> release list" where
  "releases ms = map (\<lambda>(a, n). Munmap a n) ms"

lemma add_files_mapped:
  "add_files sys ctx fs t = (ok, ctx', t', given_back) \<Longrightarrow> length (cc_units ctx) + length fs \<le> cc_capacity ctx \<Longrightarrow>
   length (tr_files t) + length fs \<le> tr_capacity t \<Longrightarrow> \<forall>data a. os_map sys data = Some a \<longrightarrow> a \<noteq> 0 \<Longrightarrow>
   given_back = [] \<and> snd (resource_cleanup_all t') = snd (resource_cleanup_all t) @ releases (mappings sys fs) \<and>
   (ok \<longleftrightarrow> length (mappings sys fs) = length fs)"
proof (induction fs arbitrary: ctx t ok given_back)
  case (Cons f fs)
  obtain ok1 c1 t1 g1 where add: "compile_ctx_add_file sys ctx f t = (ok1, c1, t1, g1)" by (metis prod_cases4)
  have f: "g1 = [] \<and> cc_capacity c1 = cc_capacity ctx \<and> tr_capacity t1 = tr_capacity t \<and> ok1 = (mapped_file sys f \<noteq> None) \<and>
    (case mapped_file sys f of
       None \<Rightarrow> t1 = t
     | Some (a, n) \<Rightarrow> length (cc_units c1) = Suc (length (cc_units ctx)) \<and>
         tr_files t1 = tr_files t @ [\<lparr>fr_fd = - 1, fr_addr = a, fr_size = n, fr_needs_close = False, fr_needs_munmap = True\<rparr>])"
    using Cons.prems(2,3) by (intro add_file_mapped [OF _ _ add]) auto
  show ?case
  proof (cases "mapped_file sys f")
    case None
    then show ?thesis using f Cons.prems(1) by (simp add: add releases_def)
  next
    case (Some m)
    obtain a n where m: "m = (a, n)" by force
    have "a \<noteq> 0"
      using Some Cons.prems(4) by (auto simp: m mapped_file_def map_input_def Let_def bind_eq_Some_conv split: prod.splits if_splits)
    obtain ok2 g2 where rest: "add_files sys c1 fs t1 = (ok2, ctx', t', g2)" "ok = ok2" "given_back = g2"
      using Cons.prems(1) f Some by (auto simp: add split: prod.splits)
    have "g2 = [] \<and> snd (resource_cleanup_all t') = snd (resource_cleanup_all t1) @ releases (mappings sys fs) \<and>
        (ok2 \<longleftrightarrow> length (mappings sys fs) = length fs)"
      using Cons.prems(2,3) f Some m by (intro Cons.IH [OF rest(1) _ _ Cons.prems(4)]) auto
    then show ?thesis
      using f Some m \<open>a \<noteq> 0\<close> rest(2,3) by (simp add: resource_cleanup_all_def release_resource_def releases_def)
  qed
qed (simp add: releases_def)

definition sample_os :: os where
  "sample_os = \<lparr>os_realpath = (\<lambda>f. if f = ''a.c'' then Some ''/a.c'' else None), os_stat = (\<lambda>f. Some (5, True)), os_readable = (\<lambda>f. True),
     os_open = (\<lambda>f. Some ''int;;''), os_fstat = (\<lambda>d. True), os_map = (\<lambda>d. Some 4096), os_error = ''No such file''\<rparr>"

lemmas sample_refused = tiny_main_def compile_ctx_init_def MAX_SOURCE_FILES_def compile_ctx_add_file_def validate_source_file_def
  validate_file_size_def validate_file_extension_def MAX_SOURCE_FILE_SIZE_def PATH_MAX_def sample_os_def map_input_def
  resource_track_mmap_def resource_tracker_init_def cleanup_def zero_validation_def Let_def

text \<open>C23: Every mapping is undone. However \<open>main\<close> ends, every source file that it mapped is unmapped
  exactly once, in the order of the arguments, and nothing else is.\<close>

theorem main_releases:
  assumes "tiny_main fs sys stack0 run mem mapped files = Ret res" and "1 \<le> length files" "length files \<le> MAX_SOURCE_FILES"
    and "\<forall>data a. os_map fs data = Some a \<longrightarrow> a \<noteq> 0"
  shows "mr_released res = map (\<lambda>(a, n). Munmap a n) (mappings fs files)"
proof -
  let ?ctx = "\<lparr>cc_units = [], cc_capacity = length files, cc_errors = error_context_init, cc_global = []\<rparr>"
  have init: "compile_ctx_init error_context_init (length files) = (True, ?ctx)"
    using assms(2,3) by (cases files) (simp_all add: compile_ctx_init_def Let_def)
  obtain ok c t g where add: "add_files fs ?ctx files (resource_tracker_init (length files + 1)) = (ok, c, t, g)"
    by (metis prod_cases4)
  have a: "g = [] \<and> snd (resource_cleanup_all t) = releases (mappings fs files)"
    using add_files_mapped [OF add] assms(4) by (simp add: resource_tracker_init_def resource_cleanup_all_def)
  have "mr_released res = g @ snd (resource_cleanup_all t)"
    using assms(1) unfolding tiny_main_def Let_def init add prod.case
    by (auto simp: cleanup_def outcome_simps split: if_splits)
  then show ?thesis using a by (simp add: releases_def)
qed

theorem main_releases_witness:
  "\<exists>res. tiny_main sample_os sample_system (\<lambda>_. 0) (\<lambda>ctx entry. Ret 7) (\<lambda>_. 0) [] [''a.c'', ''b.c''] = Ret res \<and>
     mr_released res = [Munmap 4096 5]"
proof -
  obtain res where r: "tiny_main sample_os sample_system (\<lambda>_. 0) (\<lambda>ctx entry. Ret 7) (\<lambda>_. 0) [] [''a.c'', ''b.c''] = Ret res"
    by (simp add: sample_refused)
  have "mappings sample_os [''a.c'', ''b.c''] = [(4096, 5)]" by (simp add: mapped_file_def sample_refused)
  then show ?thesis
    using main_releases [OF r] r by (simp add: sample_os_def MAX_SOURCE_FILES_def)
qed

text \<open>C27: Exit codes. When \<open>main\<close> ends it exits with 0 or 1, and with 0 exactly when it has called the
  function \<open>main\<close> of the program and printed what it returned.\<close>

theorem main_exit_code:
  assumes "tiny_main fs sys stack0 run mem mapped files = Ret res"
  shows "mr_exit res \<in> {0, 1} \<and> (mr_exit res = 0 \<longleftrightarrow> mr_printed res \<noteq> None)"
proof -
  have run: "c = 0 \<and> (\<exists>r. p = Some r) \<or> c = 1 \<and> p = None"
    if "run_program sys stack0 run mem mapped units errors = Ret (c, p, e)" for units errors c p e
    using that by (auto simp: run_program_def outcome_simps Let_def split: if_splits prod.splits option.splits)
  show ?thesis
    using assms unfolding tiny_main_def Let_def
    by (auto simp: cleanup_def outcome_simps split: if_splits prod.splits dest!: run)
qed

theorem main_exit_code_witness:
  "\<exists>res. tiny_main sample_os sample_system (\<lambda>_. 0) (\<lambda>ctx entry. Ret 7) (\<lambda>_. 0) [] [''b.c''] = Ret res \<and>
     mr_exit res \<in> {0, 1} \<and> mr_printed res = None"
proof -
  obtain res where r: "tiny_main sample_os sample_system (\<lambda>_. 0) (\<lambda>ctx entry. Ret 7) (\<lambda>_. 0) [] [''b.c''] = Ret res" "mr_exit res = 1"
    by (simp add: sample_refused)
  then show ?thesis using main_exit_code [OF r(1)] by auto
qed

end
