(* ===== verification/SourceSemantics.thy ===== *)
theory SourceSemantics
  imports IrSemantics
begin

text \<open>
  What programs of the compiled language mean, on the trees that parser and analysis leave. Values are
  64-bit words and expressions are computed at that width; the type of a node matters where a local variable is
  read or written, which touches as many bytes as the type has, and for right shifts. Expressions have no
  side effect: a function is a function of its arguments, the parameter \<open>callee\<close>. What the language
  leaves undefined, an uninitialised variable or a function that ends without a value, is a fault, and so is what a
  processor traps on.
\<close>

section \<open>Expressions\<close>

fun source_unary :: "unary_type \<Rightarrow> u64 \<Rightarrow> u64" where
  "source_unary AST_NEGATE a = - a"
| "source_unary AST_NOT a = (if a = 0 then 1 else 0)"
| "source_unary AST_BIT_NOT a = NOT a"

text \<open>\<open>t\<close> is the type of the left operand.\<close>

fun source_binary :: "binary_type \<Rightarrow> data_type \<Rightarrow> u64 \<Rightarrow> u64 \<Rightarrow> u64 outcome" where
  "source_binary AST_ADD t a b = Ret (a + b)"
| "source_binary AST_SUB t a b = Ret (a - b)"
| "source_binary AST_MUL t a b = Ret (a * b)"
| "source_binary AST_DIV t a b =
     (if b = 0 \<or> \<not> fits_int64 (c_div (sint a) (sint b)) then Fault Trap else Ret (of_int (c_div (sint a) (sint b))))"
| "source_binary AST_EQUAL t a b = Ret (if a = b then 1 else 0)"
| "source_binary AST_NOT_EQUAL t a b = Ret (if a \<noteq> b then 1 else 0)"
| "source_binary AST_LESS t a b = Ret (if sint a < sint b then 1 else 0)"
| "source_binary AST_LESS_EQUAL t a b = Ret (if sint a \<le> sint b then 1 else 0)"
| "source_binary AST_GREATER t a b = Ret (if sint b < sint a then 1 else 0)"
| "source_binary AST_GREATER_EQUAL t a b = Ret (if sint b \<le> sint a then 1 else 0)"
| "source_binary AST_BIT_AND t a b = Ret (a AND b)"
| "source_binary AST_BIT_OR t a b = Ret (a OR b)"
| "source_binary AST_BIT_XOR t a b = Ret (a XOR b)"
| "source_binary AST_LSHIFT t a b = Ret (push_bit (unat b mod 64) a)"
| "source_binary AST_RSHIFT t a b =
     Ret (if type_is_unsigned t then drop_bit (unat b mod 64) a else signed_drop_bit (unat b mod 64) a)"

text \<open>A parameter holds a word; a local variable the bytes stored last, \<open>None\<close> before the first time.\<close>

datatype variable = Parameter u64 | Local "(nat \<times> u64) option"

text \<open>The bindings in scope, the innermost one first.\<close>

type_synonym bindings = "(string \<times> variable) list"

fun read_variable :: "data_type \<Rightarrow> variable \<Rightarrow> u64 outcome" where
  "read_variable t (Parameter v) = Ret v"
| "read_variable t (Local None) = Fault Undefined"
| "read_variable t (Local (Some (m, v))) =
     (if slot_width (type_size t) \<le> m then Ret (slot_load (type_size t) v) else Fault Undefined)"

fun write_variable :: "data_type \<Rightarrow> u64 \<Rightarrow> variable \<Rightarrow> variable" where
  "write_variable t v (Parameter _) = Parameter v"
| "write_variable t v (Local _) = Local (Some (slot_width (type_size t), v))"

fun source_eval :: "(string \<Rightarrow> u64 list \<Rightarrow> u64 outcome) \<Rightarrow> bindings \<Rightarrow> ast \<Rightarrow> u64 outcome"
  and source_args :: "(string \<Rightarrow> u64 list \<Rightarrow> u64 outcome) \<Rightarrow> bindings \<Rightarrow> ast list \<Rightarrow> u64 list outcome" where
  "source_eval callee E (AstNumber i value) = Ret (of_int (sv_to_int64 value))"
| "source_eval callee E (AstIdentifier i name) =
     (case map_of E name of None \<Rightarrow> Fault Undefined | Some var \<Rightarrow> read_variable (value_type i) var)"
| "source_eval callee E (AstUnary op i e) = obind (source_eval callee E e) (\<lambda>a. Ret (source_unary op a))"
| "source_eval callee E (AstBinary op i l r) =
     obind (source_eval callee E l) (\<lambda>a. obind (source_eval callee E r) (\<lambda>b.
     obind (node_type_of l) (\<lambda>t. source_binary op t a b)))"
| "source_eval callee E (AstCall i name args) = obind (source_args callee E args) (callee name)"
| "source_eval callee E _ = Fault Undefined"
| "source_args callee E [] = Ret []"
| "source_args callee E (e # es) =
     obind (source_eval callee E e) (\<lambda>v. obind (source_args callee E es) (\<lambda>vs. Ret (v # vs)))"

section \<open>Statements\<close>

datatype flow = Goes_on bindings | Returned u64

text \<open>The innermost binding of \<open>x\<close>.\<close>

fun rebind :: "string \<Rightarrow> variable \<Rightarrow> bindings \<Rightarrow> bindings" where
  "rebind x var [] = []"
| "rebind x var ((y, old) # E) = (if x = y then (y, var) # E else (y, old) # rebind x var E)"

text \<open>\<open>r\<close>, followed by \<open>k\<close> when it does not return.\<close>

definition and_then :: "flow outcome \<Rightarrow> (bindings \<Rightarrow> flow outcome) \<Rightarrow> flow outcome" where
  "and_then r k = obind r (\<lambda>fl. case fl of Goes_on E \<Rightarrow> k E | Returned v \<Rightarrow> Ret (Returned v))"

lemma and_then_cong [fundef_cong]: "r = r' \<Longrightarrow> (\<And>E. r' = Ret (Goes_on E) \<Longrightarrow> k E = k' E) \<Longrightarrow> and_then r k = and_then r' k'"
  by (cases r') (auto simp: and_then_def split: flow.split)

text \<open>Every loop runs at most \<open>n\<close> times more. A declaration is in scope in its own initialiser, as in C.\<close>

fun source_exec :: "(string \<Rightarrow> u64 list \<Rightarrow> u64 outcome) \<Rightarrow> nat \<Rightarrow> bindings \<Rightarrow> ast \<Rightarrow> flow outcome"
  and source_exec_all :: "(string \<Rightarrow> u64 list \<Rightarrow> u64 outcome) \<Rightarrow> nat \<Rightarrow> bindings \<Rightarrow> ast list \<Rightarrow> flow outcome" where
  "source_exec callee n E AstNull = Ret (Goes_on E)"
| "source_exec callee n E (AstVarDecl i name ty init) =
     obind (if init = AstNull then Ret 0 else source_eval callee ((name, Local None) # E) init) (\<lambda>v.
     Ret (Goes_on ((name, write_variable ty v (Local None)) # E)))"
| "source_exec callee n E (AstAssignment i name value) =
     (case map_of E name of
        None \<Rightarrow> Fault Undefined
      | Some var \<Rightarrow> obind (source_eval callee E value) (\<lambda>v.
          Ret (Goes_on (rebind name (write_variable (value_type i) v var) E))))"
| "source_exec callee n E (AstReturn i e) = obind (source_eval callee E e) (\<lambda>v. Ret (Returned v))"
| "source_exec callee n E (AstBlock i ss) =
     and_then (source_exec_all callee n E ss) (\<lambda>E'. Ret (Goes_on (drop (length E' - length E) E')))"
| "source_exec callee n E (AstIf i c t e) =
     obind (source_eval callee E c) (\<lambda>v.
     if v \<noteq> 0 then source_exec callee n E t
     else if e = AstNull then Ret (Goes_on E)
     else source_exec callee n E e)"
| "source_exec callee 0 E (AstWhile i c b) = Timeout"
| "source_exec callee (Suc n) E (AstWhile i c b) =
     obind (source_eval callee E c) (\<lambda>v.
     if v = 0 then Ret (Goes_on E)
     else and_then (source_exec callee n E b) (\<lambda>E. source_exec callee n E (AstWhile i c b)))"
| "source_exec callee n E e = obind (source_eval callee E e) (\<lambda>_. Ret (Goes_on E))"
| "source_exec_all callee n E [] = Ret (Goes_on E)"
| "source_exec_all callee n E (s # ss) = and_then (source_exec callee n E s) (\<lambda>E. source_exec_all callee n E ss)"

section \<open>Programs\<close>

definition source_call ::
  "(string \<Rightarrow> u64 list \<Rightarrow> u64 outcome) \<Rightarrow> nat \<Rightarrow> parameter list \<Rightarrow> ast list \<Rightarrow> u64 list \<Rightarrow> u64 outcome" where
  "source_call callee n params ss args =
     (if length args = length params then
        obind (source_exec_all callee n (rev (zip (map param_name params) (map Parameter args))) ss) (\<lambda>fl.
        case fl of Goes_on E \<Rightarrow> Fault Undefined | Returned v \<Rightarrow> Ret v)
      else Fault Undefined)"

text \<open>The function a name stands for: its parameters and statements.\<close>

fun source_function :: "ast list \<Rightarrow> string \<Rightarrow> (parameter list \<times> ast list) option" where
  "source_function [] g = None"
| "source_function (AstFunction i name ret params body False # ds) g =
     (if name = g then (case body of AstBlock j ss \<Rightarrow> Some (params, ss) | _ \<Rightarrow> None) else source_function ds g)"
| "source_function (d # ds) g = source_function ds g"

text \<open>Calls of at most \<open>d\<close> nested functions, with loops of at most \<open>n\<close> iterations.\<close>

primrec source_calls :: "ast list \<Rightarrow> nat \<Rightarrow> nat \<Rightarrow> string \<Rightarrow> u64 list \<Rightarrow> u64 outcome" where
  "source_calls ds n 0 = (\<lambda>g args. Timeout)"
| "source_calls ds n (Suc d) = (\<lambda>g args.
     case source_function ds g of
       None \<Rightarrow> Fault Undefined
     | Some (params, ss) \<Rightarrow> source_call (source_calls ds n d) n params ss args)"

text \<open>
  A declaration is not the branch of a conditional or the body of a loop: there the generator would leave it in scope
  behind the statement.
\<close>

fun is_decl :: "ast \<Rightarrow> bool" where
  "is_decl (AstVarDecl i name ty init) = True"
| "is_decl _ = False"

fun scoped :: "ast \<Rightarrow> bool" where
  "scoped (AstIf i c t e) \<longleftrightarrow> \<not> is_decl t \<and> \<not> is_decl e \<and> scoped t \<and> scoped e"
| "scoped (AstWhile i c b) \<longleftrightarrow> \<not> is_decl b \<and> scoped b"
| "scoped (AstBlock i ss) \<longleftrightarrow> list_all scoped ss"
| "scoped (AstFunction i name ret params body proto) \<longleftrightarrow> scoped body"
| "scoped _ = True"

end
