(* ===== verification/GenCorrect.thy ===== *)
theory GenCorrect
  imports SourceSemantics IrCalls
begin

text \<open>
  The generator is correct: the intermediate code of an expression computes its value into the register that is
  returned. The code is run inside the finished function, the generator state \<open>G\<close>; a position in it is given by the state
  in which the generator was when it had emitted everything before.
\<close>

section \<open>Running code\<close>

text \<open>
  \<open>irc k\<close> is what calls do with fuel \<open>k\<close>. Statements about runs hold for all \<open>k\<close> that are large enough, and
  for any number of steps left.
\<close>

type_synonym calls = "nat \<Rightarrow> string \<Rightarrow> u64 list \<Rightarrow> u64 outcome"

definition arrives :: "calls \<Rightarrow> instr list \<Rightarrow> instr list \<Rightarrow> ir_state \<Rightarrow> instr list \<Rightarrow> ir_state \<Rightarrow> bool" where
  "arrives irc prog is s js t \<longleftrightarrow> (\<exists>m n. \<forall>k\<ge>m. \<forall>j. ir_run (irc k) (n + j) prog is s = ir_run (irc k) j prog js t)"

definition finishes :: "calls \<Rightarrow> instr list \<Rightarrow> instr list \<Rightarrow> ir_state \<Rightarrow> u64 \<Rightarrow> bool" where
  "finishes irc prog is s v \<longleftrightarrow> (\<exists>m n. \<forall>k\<ge>m. \<forall>j. ir_run (irc k) (n + j) prog is s = Ret v)"

lemma arrives_refl [simp]: "arrives irc prog is s is s"
  unfolding arrives_def by (intro exI [of _ 0]) simp

lemma arrives_trans [trans]:
  assumes "arrives irc prog is s js t" "arrives irc prog js t ks u"
  shows "arrives irc prog is s ks u"
proof -
  obtain m n where a: "\<And>k j. m \<le> k \<Longrightarrow> ir_run (irc k) (n + j) prog is s = ir_run (irc k) j prog js t"
    using assms(1) unfolding arrives_def by blast
  obtain m' n' where b: "\<And>k j. m' \<le> k \<Longrightarrow> ir_run (irc k) (n' + j) prog js t = ir_run (irc k) j prog ks u"
    using assms(2) unfolding arrives_def by blast
  have "ir_run (irc k) (n + n' + j) prog is s = ir_run (irc k) j prog ks u" if "max m m' \<le> k" for k j
    using a [of k "n' + j"] b [of k j] that by (simp add: add.assoc)
  then show ?thesis unfolding arrives_def by blast
qed

lemma finishes_trans [trans]:
  assumes "arrives irc prog is s js t" "finishes irc prog js t v"
  shows "finishes irc prog is s v"
proof -
  obtain m n where a: "\<And>k j. m \<le> k \<Longrightarrow> ir_run (irc k) (n + j) prog is s = ir_run (irc k) j prog js t"
    using assms(1) unfolding arrives_def by blast
  obtain m' n' where b: "\<And>k j. m' \<le> k \<Longrightarrow> ir_run (irc k) (n' + j) prog js t = Ret v"
    using assms(2) unfolding finishes_def by blast
  have "ir_run (irc k) (n + n' + j) prog is s = Ret v" if "max m m' \<le> k" for k j
    using a [of k "n' + j"] b [of k j] that by (simp add: add.assoc)
  then show ?thesis unfolding finishes_def by blast
qed

lemma arrives_step:
  assumes "\<And>k. m \<le> k \<Longrightarrow> ir_step (irc k) prog i rest s = Ret (Continue js t)"
  shows "arrives irc prog (i # rest) s js t"
  unfolding arrives_def using assms by (intro exI [of _ m] exI [of _ 1]) simp

lemma finishes_step:
  assumes "\<And>k. ir_step (irc k) prog i rest s = Ret (Return v)"
  shows "finishes irc prog (i # rest) s v"
  unfolding finishes_def using assms by (intro exI [of _ 0] exI [of _ 1]) simp

section \<open>Positions\<close>

definition at :: "gen \<Rightarrow> gen \<Rightarrow> instr list" where
  "at G g = drop (length (ir_code (g_fun g))) (ir_code (g_fun G))"

text \<open>\<open>G\<close> is reached from \<open>g\<close> without errors and below the instruction limit.\<close>

definition leads :: "gen \<Rightarrow> gen \<Rightarrow> bool" where
  "leads g G \<longleftrightarrow> advances g G \<and> gen_errors G = gen_errors g \<and> room (g_fun G)"

lemma leads_room: "leads g G \<Longrightarrow> room (g_fun g)"
  by (simp add: leads_def advances_def)

lemma leads_back: "advances g h \<Longrightarrow> leads h G \<Longrightarrow> gen_errors G = gen_errors g \<Longrightarrow> leads g G"
  by (auto simp: leads_def intro: advances_trans)

text \<open>A state between two others.\<close>

lemma leads_between: "advances g h \<Longrightarrow> advances h k \<Longrightarrow> leads k G \<Longrightarrow> gen_errors G = gen_errors g \<Longrightarrow> leads h G"
  by (auto simp: leads_def advances_def intro: order.trans prefix_order.trans)

lemma at_emit:
  assumes "leads (g_emit i g) G"
  shows "at G g = i # at G (g_emit i g)"
proof -
  have "room (g_fun (g_emit i g))" by (rule leads_room [OF assms])
  then have "room (g_fun g)" using advances_emit [of g i] by (simp add: advances_def)
  then have code: "ir_code (g_fun (g_emit i g)) = ir_code (g_fun g) @ [i]" by (simp add: emit_code)
  obtain zs where "ir_code (g_fun G) = ir_code (g_fun (g_emit i g)) @ zs"
    using assms by (auto simp: leads_def advances_def prefix_def simp del: g_fun_simps)
  then show ?thesis unfolding at_def code by simp
qed

lemma at_same: "ir_code (g_fun h) = ir_code (g_fun g) \<Longrightarrow> at G h = at G g"
  by (simp add: at_def)

lemma settles_advances: "settles g h \<Longrightarrow> advances g h"
  by (simp add: settles_def)

section \<open>Bindings and symbols\<close>

text \<open>Where a symbol lives: in a stack slot or a register, with its number.\<close>

definition place_of :: "symbol \<Rightarrow> bool \<times> nat" where
  "place_of sb = (sy_is_stack sb, sy_index sb)"

type_synonym layout = "(string \<times> symbol) list"

text \<open>
  The symbol table is the map of the layout \<open>L\<close>, in which no two bindings, shadowed ones included, share a place.
  Parameters live in registers below \<open>P\<close>.
\<close>

definition laid :: "nat \<Rightarrow> gen \<Rightarrow> layout \<Rightarrow> bool" where
  "laid P g L \<longleftrightarrow> symbols_ok (g_symbols g) \<and> symbol_map (g_symbols g) = map_of L \<and> distinct (map (place_of \<circ> snd) L) \<and>
     list_all (\<lambda>(x, sb). if sy_is_stack sb then sy_index sb < if_stack_count (g_fun g) else sy_index sb \<in> {1..<P}) L \<and>
     1 \<le> P \<and> P \<le> if_vreg_count (g_fun g)"

definition stored :: "ir_state \<Rightarrow> symbol \<Rightarrow> variable \<Rightarrow> bool" where
  "stored s sb var \<longleftrightarrow>
     (case var of
        Parameter v \<Rightarrow> \<not> sy_is_stack sb \<and> ir_regs s (sy_index sb) = Some v
      | Local c \<Rightarrow> sy_is_stack sb \<and> (\<forall>w. c = Some w \<longrightarrow> ir_slots s (sy_index sb) = Some w))"

definition env_rel :: "ir_state \<Rightarrow> layout \<Rightarrow> bindings \<Rightarrow> bool" where
  "env_rel s = list_all2 (\<lambda>(x, sb) (y, var). x = y \<and> stored s sb var)"

lemma env_rel_simps [simp]:
  "env_rel s [] [] = True" "env_rel s ((x, sb) # L) ((y, var) # E) = (x = y \<and> stored s sb var \<and> env_rel s L E)"
  by (simp_all add: env_rel_def)

lemma env_rel_lookup:
  "env_rel s L E \<Longrightarrow> map_of E x = Some var \<Longrightarrow> \<exists>sb. map_of L x = Some sb \<and> stored s sb var"
  unfolding env_rel_def by (induction rule: list_all2_induct) (auto split: if_splits)

lemma laid_lookup:
  assumes "laid P g L" "map_of L x = Some sb"
  obtains cur where "symbol_table_lookup (g_symbols g) x = Some cur" "st_entries (g_symbols g) cur = sb"
proof -
  have "symbol_map (g_symbols g) x = Some sb" using assms by (simp add: laid_def)
  then show thesis using that lookup_symbol_map [of "g_symbols g" x] by auto
qed

lemma laid_place:
  assumes "laid P g L" "map_of L x = Some sb"
  shows "if sy_is_stack sb then sy_index sb < if_stack_count (g_fun g) else sy_index sb \<in> {1..<P}"
proof -
  have "(x, sb) \<in> set L" by (rule map_of_SomeD [OF assms(2)])
  then show ?thesis using assms(1) by (auto simp: laid_def list_all_iff split: if_splits)
qed

lemma laid_mono: "laid P g L \<Longrightarrow> advances g h \<Longrightarrow> g_symbols h = g_symbols g \<Longrightarrow> laid P h L"
  unfolding laid_def advances_def list_all_iff by fastforce

text \<open>An expression changes only registers that it allocates.\<close>

definition fresh_only :: "gen \<Rightarrow> ir_state \<Rightarrow> ir_state \<Rightarrow> bool" where
  "fresh_only g s t \<longleftrightarrow> ir_slots t = ir_slots s \<and> ir_args t = ir_args s \<and>
     (\<forall>r < if_vreg_count (g_fun g). ir_regs t r = ir_regs s r)"

lemma fresh_only_refl [simp]: "fresh_only g s s"
  by (simp add: fresh_only_def)

lemma fresh_only_trans: "fresh_only g s t \<Longrightarrow> advances g h \<Longrightarrow> fresh_only h t u \<Longrightarrow> fresh_only g s u"
  by (auto simp: fresh_only_def advances_def)

lemma fresh_only_stored:
  assumes "fresh_only g s t" "P \<le> if_vreg_count (g_fun g)"
    "if sy_is_stack sb then sy_index sb < n else sy_index sb \<in> {1..<P}" "stored s sb var"
  shows "stored t sb var"
  using assms by (auto simp: fresh_only_def stored_def split: variable.splits if_splits)

lemma fresh_only_env:
  assumes "fresh_only g s t" "laid P g L" "env_rel s L E"
  shows "env_rel t L E"
proof -
  have P: "P \<le> if_vreg_count (g_fun g)" using assms(2) by (simp add: laid_def)
  have "\<forall>(x, sb) \<in> set L. if sy_is_stack sb then sy_index sb < if_stack_count (g_fun g) else sy_index sb \<in> {1..<P}"
    using assms(2) by (simp add: laid_def list_all_iff)
  then have "stored t sb var" if "(x, sb) \<in> set L" "stored s sb var" for x sb var
    using that fresh_only_stored [OF assms(1) P, of sb "if_stack_count (g_fun g)" var] by auto
  then show ?thesis
    using assms(3) unfolding env_rel_def by (auto elim!: list.rel_mono_strong)
qed

section \<open>Expressions\<close>

text \<open>
  The register \<open>r\<close> that a routine returned holds \<open>v\<close> when the code it emitted between \<open>g\<close> and \<open>h\<close> has run.
\<close>

definition computes :: "calls \<Rightarrow> gen \<Rightarrow> gen \<Rightarrow> ir_state \<Rightarrow> nat \<times> gen \<Rightarrow> u64 \<Rightarrow> bool" where
  "computes irc G g s = (\<lambda>(r, h) v. r \<in> {1..<if_vreg_count (g_fun h)} \<and> g_symbols h = g_symbols g \<and>
     (\<exists>t. arrives irc (ir_code (g_fun G)) (at G g) s (at G h) t \<and> ir_regs t r = Some v \<and> fresh_only g s t))"

text \<open>One instruction that writes a fresh register.\<close>

lemma emit_arrives:
  assumes al: "g_alloc g = (Some r, h)" and leads: "leads (g_emit i h) G"
    and step: "\<And>k rest. m \<le> k \<Longrightarrow> ir_step (irc k) (ir_code (g_fun G)) i rest s = Ret (Continue rest t)"
  shows "arrives irc (ir_code (g_fun G)) (at G g) s (at G (g_emit i h)) t"
proof -
  have "at G g = at G h" by (rule at_same [symmetric]) (simp add: alloc_Some(1) [OF al] ir_code_def)
  also have "at G h = i # at G (g_emit i h)" by (rule at_emit [OF leads])
  finally show ?thesis by (simp only:) (rule arrives_step [OF step])
qed

lemma emit_computes:
  assumes al: "g_alloc g = (Some r, h)" and leads: "leads (g_emit i h) G" and vregs: "1 \<le> if_vreg_count (g_fun g)"
    and step: "\<And>k rest. m \<le> k \<Longrightarrow> ir_step (irc k) (ir_code (g_fun G)) i rest s = Ret (Continue rest (set_vreg r v t))"
    and same: "ir_regs t = ir_regs s" "ir_slots t = ir_slots s" "ir_args t = ir_args s"
  shows "computes irc G g s (r, g_emit i h) v"
proof -
  note h = alloc_Some [OF al]
  have "arrives irc (ir_code (g_fun G)) (at G g) s (at G (g_emit i h)) (set_vreg r v t)"
    by (rule emit_arrives [OF al leads step])
  moreover have "fresh_only g s (set_vreg r v t)" using same by (simp add: fresh_only_def set_vreg_def h(2))
  moreover have "r \<in> {1..<if_vreg_count (g_fun (g_emit i h))}" using vregs h(2) by (simp add: h(1))
  ultimately show ?thesis
    unfolding computes_def prod.case using h(1) by (auto simp: set_vreg_def)
qed

text \<open>Allocation fails only with an error.\<close>

lemma with_vregE:
  assumes "with_vreg g k = Ret (r, h)" "gen_errors h = gen_errors g"
  obtains v a where "g_alloc g = (Some v, a)" "k v a = Ret (r, h)" "settles g a"
proof (cases "g_alloc g")
  case (Pair v a)
  show thesis
  proof (cases v)
    case None
    then have "h = a" using assms(1) Pair by (simp add: with_vreg_def)
    then show thesis using alloc_fails [OF Pair [unfolded None]] assms(2) by simp
  next
    case (Some w)
    then show thesis using that Pair assms(1) settles_alloc [OF Pair] by (simp add: with_vreg_def)
  qed
qed

lemma with_vreg_emitE:
  assumes "with_vreg g (\<lambda>r g. Ret (r, g_emit (i r) g)) = Ret (r, h)" "gen_errors h = gen_errors g"
  obtains a where "g_alloc g = (Some r, a)" "h = g_emit (i r) a"
  by (rule with_vregE [OF assms]) (use that in auto)

lemma emit_unary_step:
  "in_op i = unary_opcode op \<Longrightarrow> in_dest i = r \<Longrightarrow> ir_regs s (in_src1 i) = Some a \<Longrightarrow>
   ir_step callee prog i rest s = Ret (Continue rest (set_vreg r (source_unary op a) s))"
  by (cases op) (simp_all add: ir_step_def ir_effect_def ir_value_def Let_def truth_def)

lemma emit_binary_step:
  "in_op i = binary_opcode op t \<Longrightarrow> in_dest i = r \<Longrightarrow> ir_regs s (in_src1 i) = Some a \<Longrightarrow> ir_regs s (in_src2 i) = Some b \<Longrightarrow>
   source_binary op t a b = Ret v \<Longrightarrow> ir_step callee prog i rest s = Ret (Continue rest (set_vreg r v s))"
  by (cases op) (auto simp: ir_step_def ir_effect_def ir_value_def Let_def truth_def split: if_splits)

text \<open>Functions of the intermediate code have the values that those of the source have.\<close>

definition follows :: "(string \<Rightarrow> u64 list \<Rightarrow> u64 outcome) \<Rightarrow> calls \<Rightarrow> bool" where
  "follows callee irc \<longleftrightarrow> (\<forall>f vs w. callee f vs = Ret w \<longrightarrow> (\<exists>m. \<forall>k\<ge>m. irc k f vs = Ret w))"

definition computes_args :: "calls \<Rightarrow> gen \<Rightarrow> gen \<Rightarrow> ir_state \<Rightarrow> nat list \<times> gen \<Rightarrow> u64 list \<Rightarrow> bool" where
  "computes_args irc G g s = (\<lambda>(rs, h) vs. list_all (\<lambda>r. r < if_vreg_count (g_fun h)) rs \<and> g_symbols h = g_symbols g \<and>
     (\<exists>t. arrives irc (ir_code (g_fun G)) (at G g) s (at G h) t \<and> list_all2 (\<lambda>r v. ir_regs t r = Some v) rs vs \<and> fresh_only g s t))"

lemma expression_advances: "gen_expression g e = Ret (r, h) \<Longrightarrow> advances g h"
  using gen_expression_settles(1) [of g e] by (simp add: settles_def)

lemma args_advances: "gen_args g n es = Ret (rs, h) \<Longrightarrow> advances g h \<and> (\<forall>xs. rs = Some xs \<longrightarrow> length xs = length es)"
  using gen_expression_settles(2) [where g = g and n = n and es = es] by (simp add: settles_def)

text \<open>Handing over the arguments.\<close>

lemma emit_args_frame:
  "emit_args g n args rs = Ret h \<Longrightarrow> advances g h \<and> gen_errors h = gen_errors g \<and> g_symbols h = g_symbols g \<and>
   if_vreg_count (g_fun h) = if_vreg_count (g_fun g)"
proof (induction g n args rs rule: emit_args.induct)
  case (1 g i arg args r rs)
  then obtain t where t: "node_type_of arg = Ret t" by (auto simp: outcome_simps)
  let ?i = "(instr_of IR_ARG t)\<lparr>in_src1 := r, in_imm := int i\<rparr>"
  have "emit_args (g_emit ?i g) (Suc i) args rs = Ret h" using 1(2) by (simp add: t)
  from 1(1) [OF t this] show ?case using advances_trans [OF advances_emit [of g ?i]] by simp
qed simp_all

lemma emit_args_arrives:
  "emit_args g n args rs = Ret h \<Longrightarrow> length rs = length args \<Longrightarrow> leads h G \<Longrightarrow>
   arrives irc (ir_code (g_fun G)) (at G g) s (at G h) (s\<lparr>ir_args := ir_args s @ rs\<rparr>)"
proof (induction g n args rs arbitrary: s rule: emit_args.induct)
  case (1 g i arg args r rs)
  then obtain t where t: "node_type_of arg = Ret t" by (auto simp: outcome_simps)
  let ?i = "(instr_of IR_ARG t)\<lparr>in_src1 := r, in_imm := int i\<rparr>"
  let ?g = "g_emit ?i g" and ?s = "s\<lparr>ir_args := ir_args s @ [r]\<rparr>"
  have rest: "emit_args ?g (Suc i) args rs = Ret h" using 1(2) by (simp add: t)
  have len: "length rs = length args" using 1(3) by simp
  have lead: "leads ?g G"
    by (rule leads_back [OF _ 1(4)]) (use emit_args_frame [OF rest] 1(4) in \<open>simp_all add: leads_def\<close>)
  have "arrives irc (ir_code (g_fun G)) (at G g) s (at G ?g) ?s"
    unfolding at_emit [OF lead] by (rule arrives_step [of 0]) (simp add: ir_step_def Let_def)
  also have "arrives irc (ir_code (g_fun G)) (at G ?g) ?s (at G h) (?s\<lparr>ir_args := ir_args ?s @ rs\<rparr>)"
    by (rule 1(1) [OF t rest len 1(4)])
  finally show ?case by simp
qed auto

lemma ir_values_all: "list_all2 (\<lambda>r v. ir_regs s r = Some v) rs vs \<Longrightarrow> ir_values s rs = Ret vs"
  by (induction rule: list_all2_induct) (simp_all add: ir_value_def)

lemma call_computes:
  assumes follows: "follows callee irc" and args: "computes_args irc G g s (rs, a) vs" and val: "callee f vs = Ret w"
    and none: "ir_args s = []" and e: "emit_args a 0 args rs = Ret b" "length rs = length args" and al: "g_alloc b = (Some r, c)"
    and leads: "leads (g_emit ((instr_of IR_CALL ty)\<lparr>in_dest := r, in_func := f\<rparr>) c) G" "leads b G" "advances g a"
    and vregs: "1 \<le> if_vreg_count (g_fun g)"
  shows "computes irc G g s (r, g_emit ((instr_of IR_CALL ty)\<lparr>in_dest := r, in_func := f\<rparr>) c) w"
proof -
  let ?i = "(instr_of IR_CALL ty)\<lparr>in_dest := r, in_func := f\<rparr>"
  let ?h = "g_emit ?i c" and ?prog = "ir_code (g_fun G)"
  note b = emit_args_frame [OF e(1)] and c = alloc_Some [OF al]
  obtain t where t: "arrives irc ?prog (at G g) s (at G a) t" "list_all2 (\<lambda>r v. ir_regs t r = Some v) rs vs" "fresh_only g s t"
      "g_symbols a = g_symbols g"
    using args by (auto simp: computes_args_def)
  have empty: "ir_args t = []" using t(3) none by (simp add: fresh_only_def)
  obtain m where m: "\<And>k. m \<le> k \<Longrightarrow> irc k f vs = Ret w" using follows val unfolding follows_def by blast
  have vs: "ir_values (t\<lparr>ir_args := rs\<rparr>) rs = Ret vs" by (rule ir_values_all) (use t(2) in simp)
  have "arrives irc ?prog (at G a) t (at G b) (t\<lparr>ir_args := rs\<rparr>)"
    using emit_args_arrives [OF e leads(2), of irc t] by (simp add: empty)
  also have "arrives irc ?prog (at G b) (t\<lparr>ir_args := rs\<rparr>) (at G ?h) (set_vreg r w t)"
  proof (rule emit_arrives [OF al leads(1), of m])
    show "ir_step (irc k) ?prog ?i rest (t\<lparr>ir_args := rs\<rparr>) = Ret (Continue rest (set_vreg r w t))" if "m \<le> k" for k rest
      using vs m [OF that] empty by (simp add: ir_step_def Let_def set_vreg_def)
  qed
  finally have "arrives irc ?prog (at G g) s (at G ?h) (set_vreg r w t)" by (rule arrives_trans [OF t(1)])
  moreover have "if_vreg_count (g_fun g) \<le> r" using leads(3) b c(2) by (simp add: advances_def)
  then have "fresh_only g s (set_vreg r w t)" using t(3) by (simp add: fresh_only_def set_vreg_def)
  moreover have "g_symbols ?h = g_symbols g" using b c(1) t(4) by simp
  moreover have "r \<in> {1..<if_vreg_count (g_fun ?h)}" using vregs \<open>if_vreg_count (g_fun g) \<le> r\<close> by (simp add: c(1))
  ultimately show ?thesis by (auto simp: computes_def set_vreg_def)
qed

lemma identifier_computes:
  assumes gen: "gen_identifier g i x = Ret (r, h)" and leads: "leads h G" "gen_errors G = gen_errors g"
    and env: "laid P g L" "env_rel s L E" and val: "map_of E x = Some var" "read_variable (value_type i) var = Ret v"
  shows "computes irc G g s (r, h) v"
proof -
  obtain sb where sb: "map_of L x = Some sb" "stored s sb var" using env_rel_lookup [OF env(2) val(1)] by blast
  obtain cur where cur: "symbol_table_lookup (g_symbols g) x = Some cur" "st_entries (g_symbols g) cur = sb"
    using laid_lookup [OF env(1) sb(1)] by blast
  have P: "1 \<le> P" "P \<le> if_vreg_count (g_fun g)" using env(1) by (simp_all add: laid_def)
  have errs: "gen_errors h = gen_errors g" using leads by (simp add: leads_def)
  show ?thesis
  proof (cases "sy_is_stack sb")
    case True
    let ?i = "\<lambda>r. (instr_of IR_LOAD (value_type i))\<lparr>in_dest := r, in_src1 := sy_index sb\<rparr>"
    have "with_vreg g (\<lambda>r g. Ret (r, g_emit (?i r) g)) = Ret (r, h)"
      using gen True by (simp add: gen_identifier_def cur)
    then obtain a where a: "g_alloc g = (Some r, a)" "h = g_emit (?i r) a"
      using errs by (rule with_vreg_emitE)
    obtain m w where w: "ir_slots s (sy_index sb) = Some (m, w)" "slot_width (type_size (value_type i)) \<le> m"
        "v = slot_load (type_size (value_type i)) w"
    proof (cases var)
      case (Local c)
      then show ?thesis using that sb(2) val(2) True by (cases c) (auto simp: stored_def split: if_splits)
    qed (use sb(2) True in \<open>simp add: stored_def\<close>)
    show ?thesis
      unfolding a(2)
    proof (rule emit_computes [where t = s and m = 0])
      show "ir_step (irc k) (ir_code (g_fun G)) (?i r) rest s = Ret (Continue rest (set_vreg r v s))" for k rest
        using w by (simp add: ir_step_def ir_effect_def ir_load_def Let_def)
    qed (use a leads P in auto)
  next
    case False
    then have "r = sy_index sb" "h = g" using gen by (simp_all add: gen_identifier_def cur)
    moreover obtain "var = Parameter v" "ir_regs s (sy_index sb) = Some v"
      using sb(2) val(2) False by (cases var) (auto simp: stored_def)
    moreover have "sy_index sb \<in> {1..<P}" using laid_place [OF env(1) sb(1)] False by simp
    ultimately show ?thesis using P by (auto simp: computes_def intro!: exI [of _ s])
  qed
qed

lemma computes_advances: "computes irc G g s (r, h) v \<Longrightarrow> r \<noteq> 0"
  by (auto simp: computes_def)

text \<open>Two routines one after the other, the second run in the state that the first leaves.\<close>

lemma computesE:
  assumes "computes irc G g s (r, h) v" "laid P g L" "env_rel s L E" "ir_args s = []" "advances g h"
  obtains t where "arrives irc (ir_code (g_fun G)) (at G g) s (at G h) t" "ir_regs t r = Some v" "fresh_only g s t"
    "r \<in> {1..<if_vreg_count (g_fun h)}" "laid P h L" "env_rel t L E" "ir_args t = []" "g_symbols h = g_symbols g"
proof -
  obtain t where t: "arrives irc (ir_code (g_fun G)) (at G g) s (at G h) t" "ir_regs t r = Some v" "fresh_only g s t"
      "r \<in> {1..<if_vreg_count (g_fun h)}" "g_symbols h = g_symbols g"
    using assms(1) by (auto simp: computes_def)
  show thesis
    using that t fresh_only_env [OF t(3) assms(2,3)] laid_mono [OF assms(2,5) t(5)] assms(4) by (simp add: fresh_only_def)
qed

theorem expression_computes:
  assumes follows: "follows callee irc"
  shows "gen_expression g e = Ret (r, h) \<Longrightarrow> leads h G \<Longrightarrow> gen_errors G = gen_errors g \<Longrightarrow> laid P g L \<Longrightarrow> env_rel s L E \<Longrightarrow>
      ir_args s = [] \<Longrightarrow> source_eval callee E e = Ret v \<Longrightarrow> computes irc G g s (r, h) v"
    and "gen_args g n es = Ret (rs, h) \<Longrightarrow> leads h G \<Longrightarrow> gen_errors G = gen_errors g \<Longrightarrow> laid P g L \<Longrightarrow> env_rel s L E \<Longrightarrow>
      ir_args s = [] \<Longrightarrow> source_args callee E es = Ret vs \<Longrightarrow> \<exists>xs. rs = Some xs \<and> computes_args irc G g s (xs, h) vs"
proof (induction g e and g n es arbitrary: r h s v and rs h s vs rule: gen_expression_gen_args.induct)
  case (2 g i x)
  let ?i = "\<lambda>r. (instr_of IR_CONST (value_type i))\<lparr>in_dest := r, in_imm := sv_to_int64 x\<rparr>"
  have "gen_errors h = gen_errors g" using 2(2,3) by (simp add: leads_def)
  with 2(1) obtain a where a: "g_alloc g = (Some r, a)" "h = g_emit (?i r) a"
    unfolding gen_expression.simps gen_number_def by (rule with_vreg_emitE)
  show ?case
    unfolding a(2)
    by (rule emit_computes [where t = s and m = 0, OF a(1)])
      (use 2(2,4,7) a(2) in \<open>simp_all add: laid_def ir_step_def ir_effect_def Let_def\<close>)
next
  case (3 g i x)
  obtain var where "map_of E x = Some var" "read_variable (value_type i) var = Ret v"
    using 3(7) by (auto split: option.splits)
  then show ?case using identifier_computes 3 by auto
next
  case (4 g i name args)
  obtain vs where vs: "source_args callee E args = Ret vs" "callee name vs = Ret v" using 4(8) by (auto simp: outcome_simps)
  obtain rs a where a: "gen_args g 0 args = Ret (rs, a)" using 4(2) by (auto simp: outcome_simps)
  note aa = args_advances [OF a]
  show ?case
  proof (cases rs)
    case None
    then have "h = a" using 4(2) by (simp add: a)
    then show ?thesis using 4(1) [OF a _ 4(4-7) vs(1)] 4(3) None by simp
  next
    case (Some xs)
    let ?i = "\<lambda>r. (instr_of IR_CALL (value_type i))\<lparr>in_dest := r, in_func := name\<rparr>"
    obtain b where b: "emit_args a 0 args xs = Ret b" and wv: "with_vreg b (\<lambda>r g. Ret (r, g_emit (?i r) g)) = Ret (r, h)"
      using 4(2) by (auto simp: a Some outcome_simps)
    note bb = emit_args_frame [OF b]
    have "settles b h" using settled_with_vreg [of "\<lambda>r g. Ret (r, g_emit (?i r) g)" b] wv by (simp add: settles_emit)
    then have bh: "advances b h" by (rule settles_advances)
    have gb: "advances g b" using aa bb by (auto intro: advances_trans)
    have leads: "leads b G" "leads a G"
      using leads_between [OF gb bh 4(3,4)] leads_between [of g a b G] aa bb 4(4) by simp_all
    have "gen_errors h = gen_errors b" using 4(3) leads by (simp add: leads_def)
    with wv obtain c where c: "g_alloc b = (Some r, c)" "h = g_emit (?i r) c" by (rule with_vreg_emitE)
    obtain xs' where "rs = Some xs'" "computes_args irc G g s (xs', a) vs"
      using 4(1) [OF a leads(2) 4(4-7) vs(1)] by blast
    then have args: "computes_args irc G g s (xs, a) vs" by (simp add: Some)
    have len: "length xs = length args" using aa Some by simp
    show ?thesis
      unfolding c(2)
      by (rule call_computes [OF follows args vs(2) 4(7) b len c(1) _ leads(1)])
        (use 4(3,5) aa c(2) in \<open>simp_all add: laid_def\<close>)
  qed
next
  case (5 g op i e)
  obtain a where a: "source_eval callee E e = Ret a" "v = source_unary op a" using 5(8) by (auto simp: outcome_simps)
  obtain x k where k: "gen_expression g e = Ret (x, k)" using 5(2) by (auto simp: outcome_simps)
  note gk = expression_advances [OF k]
  let ?i = "\<lambda>r. (instr_of (unary_opcode op) (value_type i))\<lparr>in_dest := r, in_src1 := x\<rparr>"
  show ?case
  proof (cases "x = 0")
    case True
    then have "h = k" using 5(2) by (simp add: k)
    then show ?thesis using 5(1) [OF k _ 5(4-7) a(1)] 5(3) True by (auto dest: computes_advances)
  next
    case False
    then have wv: "with_vreg k (\<lambda>r g. Ret (r, g_emit (?i r) g)) = Ret (r, h)" using 5(2) by (simp add: k)
    have na: "unary_opcode op \<noteq> IR_ARG" by (cases op) auto
    then have kh: "advances k h"
      using settled_with_vreg [of "\<lambda>r g. Ret (r, g_emit (?i r) g)" k] wv by (simp add: settles_emit settles_advances)
    have lead: "leads k G" by (rule leads_between [OF gk kh 5(3,4)])
    then have "gen_errors h = gen_errors k" using 5(3) by (simp add: leads_def)
    with wv obtain c where c: "g_alloc k = (Some r, c)" "h = g_emit (?i r) c" by (rule with_vreg_emitE)
    have "computes irc G g s (x, k) a" by (rule 5(1) [OF k lead 5(4-7) a(1)])
    then obtain t where t: "arrives irc (ir_code (g_fun G)) (at G g) s (at G k) t" "ir_regs t x = Some a" "fresh_only g s t"
        "laid P k L" "g_symbols k = g_symbols g"
      by (rule computesE [OF _ 5(5-7) gk])
    have "computes irc G k t (r, h) v"
      unfolding c(2)
      by (rule emit_computes [where t = t and m = 0, OF c(1)])
        (use 5(3) c(2) t(2,4) in \<open>simp_all add: laid_def a(2) emit_unary_step\<close>)
    then show ?thesis
      using arrives_trans [OF t(1)] fresh_only_trans [OF t(3) gk] t(5) by (fastforce simp: computes_def)
  qed
next
  case (6 g op i l e)
  obtain a b ty where ab: "source_eval callee E l = Ret a" "source_eval callee E e = Ret b" "node_type_of l = Ret ty"
      "source_binary op ty a b = Ret v"
    using 6(9) by (auto simp: outcome_simps)
  obtain x k where k: "gen_expression g l = Ret (x, k)" using 6(3) by (auto simp: outcome_simps)
  note gk = expression_advances [OF k]
  show ?case
  proof (cases "x = 0")
    case True
    then have "h = k" using 6(3) by (simp add: k)
    then show ?thesis using 6(1) [OF k _ 6(5-8) ab(1)] 6(4) True by (auto dest: computes_advances)
  next
    case False
    obtain y m where m: "gen_expression k e = Ret (y, m)" using 6(3) False by (auto simp: k outcome_simps)
    note km = expression_advances [OF m]
    let ?i = "\<lambda>r. (instr_of (binary_opcode op ty) (value_type i))\<lparr>in_dest := r, in_src1 := x, in_src2 := y\<rparr>"
    have na: "binary_opcode op ty \<noteq> IR_ARG" by (cases op) auto
    have last: "if y = 0 then h = m else with_vreg m (\<lambda>r g. Ret (r, g_emit (?i r) g)) = Ret (r, h)"
      using 6(3) False by (cases "y = 0") (simp_all add: k m ab(3))
    have mh: "advances m h"
      using last na settled_with_vreg [of "\<lambda>r g. Ret (r, g_emit (?i r) g)" m]
      by (auto simp: settles_emit intro: settles_advances split: if_splits)
    have lead: "leads k G" "leads m G"
      using leads_between [OF gk advances_trans [OF km mh] 6(4,5)] leads_between [OF advances_trans [OF gk km] mh 6(4,5)] by simp_all
    have "computes irc G g s (x, k) a" by (rule 6(1) [OF k lead(1) 6(5-8) ab(1)])
    then obtain t where t: "arrives irc (ir_code (g_fun G)) (at G g) s (at G k) t" "ir_regs t x = Some a" "fresh_only g s t"
        "x \<in> {1..<if_vreg_count (g_fun k)}" "laid P k L" "env_rel t L E" "ir_args t = []" "g_symbols k = g_symbols g"
      by (rule computesE [OF _ 6(6-8) gk])
    have err: "gen_errors G = gen_errors k" using lead(1) by (simp add: leads_def)
    have c2: "computes irc G k t (y, m) b"
      by (rule 6(2) [OF k refl False m lead(2) err t(5-7) ab(2)])
    then obtain u where u: "arrives irc (ir_code (g_fun G)) (at G k) t (at G m) u" "ir_regs u y = Some b" "fresh_only k t u"
        "laid P m L" "g_symbols m = g_symbols k"
      by (rule computesE [OF _ t(5-7) km])
    have "ir_regs u x = Some a" using t(2,4) u(3) by (simp add: fresh_only_def)
    have y: "y \<noteq> 0" using c2 by (rule computes_advances)
    have "gen_errors h = gen_errors m" using 6(4) lead by (simp add: leads_def)
    with last y obtain c where c: "g_alloc m = (Some r, c)" "h = g_emit (?i r) c"
      using with_vreg_emitE [of m ?i r h] by auto
    have "computes irc G m u (r, h) v"
      unfolding c(2)
      by (rule emit_computes [where t = u and m = 0, OF c(1)])
        (use 6(4) c(2) u(2,4) \<open>ir_regs u x = Some a\<close> ab(4) in \<open>simp_all add: laid_def emit_binary_step\<close>)
    moreover have "arrives irc (ir_code (g_fun G)) (at G g) s (at G m) u" by (rule arrives_trans [OF t(1) u(1)])
    moreover have "fresh_only g s u" by (rule fresh_only_trans [OF t(3) gk u(3)])
    ultimately show ?thesis
      using arrives_trans fresh_only_trans [OF _ advances_trans [OF gk km]] t(8) u(5) by (fastforce simp: computes_def)
  qed
next
  case (8 g n)
  then show ?case by (auto simp: computes_args_def intro!: exI [of _ s])
next
  case (9 g n arg args)
  obtain v us where v: "source_eval callee E arg = Ret v" "source_args callee E args = Ret us" "vs = v # us"
    using 9(9) by (auto simp: outcome_simps)
  obtain x k where k: "gen_expression g arg = Ret (x, k)" using 9(3) by (auto simp: outcome_simps)
  note gk = expression_advances [OF k]
  show ?case
  proof (cases "x = 0")
    case True
    then have "h = k" using 9(3) by (simp add: k split: if_splits)
    then show ?thesis using 9(1) [OF k _ 9(5-8) v(1)] 9(4) True by (auto dest: computes_advances)
  next
    case False
    obtain ys m where m: "gen_args k (Suc n) args = Ret (ys, m)" "h = m" "rs = map_option ((#) x) ys" and n: "\<not> n \<ge> MAX_PARAMS_PER_FUNCTION"
      using 9(3) False by (auto simp: k outcome_simps split: if_splits)
    have km: "advances k m" using args_advances [OF m(1)] by blast
    have lead: "leads k G" using leads_between [OF gk km] 9(4,5) m(2) by simp
    have "computes irc G g s (x, k) v" by (rule 9(1) [OF k lead 9(5-8) v(1)])
    then obtain t where t: "arrives irc (ir_code (g_fun G)) (at G g) s (at G k) t" "ir_regs t x = Some v" "fresh_only g s t"
        "x \<in> {1..<if_vreg_count (g_fun k)}" "laid P k L" "env_rel t L E" "ir_args t = []" "g_symbols k = g_symbols g"
      by (rule computesE [OF _ 9(6-8) gk])
    have err: "gen_errors G = gen_errors k" using lead by (simp add: leads_def)
    obtain xs where xs: "ys = Some xs" "computes_args irc G k t (xs, m) us"
      using 9(2) [OF k refl n False m(1) _ err t(5-7) v(2)] 9(4) m(2) by blast
    then obtain u where u: "arrives irc (ir_code (g_fun G)) (at G k) t (at G m) u" "list_all2 (\<lambda>r v. ir_regs u r = Some v) xs us"
        "fresh_only k t u" "g_symbols m = g_symbols k" "list_all (\<lambda>r. r < if_vreg_count (g_fun m)) xs"
      by (auto simp: computes_args_def)
    have "ir_regs u x = Some v" using t(2,4) u(3) by (simp add: fresh_only_def)
    moreover have "x < if_vreg_count (g_fun m)" using t(4) km by (simp add: advances_def)
    ultimately have "computes_args irc G g s (x # xs, m) vs"
      using arrives_trans [OF t(1) u(1)] fresh_only_trans [OF t(3) gk u(3)] u t(8) v(3) by (auto simp: computes_args_def)
    then show ?thesis using m xs(1) by simp
  qed
qed (simp_all)

end
