(* ===== verification/GenStatements.thy ===== *)
theory GenStatements
  imports GenCorrect
begin

text \<open>
  The code of statements does what the statements mean, and leaves the symbol table as the map of the bindings in
  scope.
\<close>

section \<open>Layouts\<close>

definition slot_symbol :: "string \<Rightarrow> nat \<Rightarrow> symbol" where
  "slot_symbol x k = \<lparr>sy_name = x, sy_index = k, sy_is_stack = True, sy_occupied = True\<rparr>"

text \<open>The layout behind a statement: a declaration puts its variable into the next slot.\<close>

fun layout_after :: "gen \<Rightarrow> ast \<Rightarrow> layout \<Rightarrow> layout" where
  "layout_after g (AstVarDecl i x ty e) L = (x, slot_symbol x (if_stack_count (g_fun g))) # L"
| "layout_after g _ L = L"

lemma layout_after_same: "\<not> is_decl s \<Longrightarrow> layout_after g s L = L"
  by (cases s) simp_all

lemma laid_last [simp]: "laid P (g\<lparr>g_last_reg := r\<rparr>) L = laid P g L"
  by (simp add: laid_def)

lemma keeps_with_vreg:
  "(\<And>v h r k. f v h = Ret (r, k) \<Longrightarrow> g_symbols k = g_symbols h) \<Longrightarrow> with_vreg g f = Ret (r, h) \<Longrightarrow> g_symbols h = g_symbols g"
  using frame_alloc by (fastforce simp: with_vreg_def split: prod.splits option.splits)

lemma expression_symbols:
  "gen_expression g e = Ret (r, h) \<Longrightarrow> g_symbols h = g_symbols g"
  "gen_args g n es = Ret (rs, h) \<Longrightarrow> g_symbols h = g_symbols g"
proof (induction g e and g n es arbitrary: r h and rs h rule: gen_expression_gen_args.induct)
  case (2 g i v)
  then show ?case by (auto simp: gen_number_def elim: keeps_with_vreg [rotated])
next
  case (3 g i x)
  then show ?case
    by (auto simp: gen_identifier_def Let_def elim: keeps_with_vreg [rotated] split: option.splits if_splits)
next
  case (4 g i name args)
  obtain rs k where k: "gen_args g 0 args = Ret (rs, k)" using 4(2) by (auto simp: outcome_simps)
  show ?case
  proof (cases rs)
    case (Some xs)
    obtain b where b: "emit_args k 0 args xs = Ret b" using 4(2) by (auto simp: k Some outcome_simps)
    have "g_symbols h = g_symbols b"
      using 4(2) keeps_with_vreg [of "\<lambda>r g. Ret (r, g_emit ((instr_of IR_CALL (value_type i))\<lparr>in_dest := r, in_func := name\<rparr>) g)" b r h]
      by (simp add: k Some b)
    then show ?thesis using 4(1) [OF k] emit_args_frame [OF b] by simp
  next
    case None
    then show ?thesis using 4(1) [OF k] 4(2) by (simp add: k)
  qed
next
  case (5 g op i e)
  obtain x k where k: "gen_expression g e = Ret (x, k)" using 5(2) by (auto simp: outcome_simps)
  show ?case
    using 5(1) [OF k] 5(2) keeps_with_vreg [of "\<lambda>dest g. Ret (dest, g_emit ((instr_of (unary_opcode op) (value_type i))
        \<lparr>in_dest := dest, in_src1 := x\<rparr>) g)" k r h]
    by (cases "x = 0") (auto simp: k)
next
  case (6 g op i l e)
  obtain x k where k: "gen_expression g l = Ret (x, k)" using 6(3) by (auto simp: outcome_simps)
  show ?case
  proof (cases "x = 0")
    case False
    obtain y m where m: "gen_expression k e = Ret (y, m)" using 6(3) False by (auto simp: k outcome_simps)
    have "g_symbols h = g_symbols m"
    proof (cases "y = 0")
      case False
      then have w: "with_vreg m (\<lambda>dest g. obind (node_type_of l) (\<lambda>t. Ret (dest, g_emit ((instr_of (binary_opcode op t) (value_type i))
           \<lparr>in_dest := dest, in_src1 := x, in_src2 := y\<rparr>) g))) = Ret (r, h)"
        using 6(3) \<open>x \<noteq> 0\<close> by (simp add: k m)
      show ?thesis by (rule keeps_with_vreg [OF _ w]) (auto simp: outcome_simps)
    next
      case True
      then show ?thesis using 6(3) \<open>x \<noteq> 0\<close> by (simp add: k m)
    qed
    then show ?thesis using 6(1) [OF k] 6(2) [OF k refl False m] by simp
  next
    case True
    then show ?thesis using 6(1) [OF k] 6(3) by (simp add: k)
  qed
next
  case (9 g n arg args)
  obtain x k where k: "gen_expression g arg = Ret (x, k)" using 9(3) by (auto simp: outcome_simps)
  show ?case
  proof (cases "x = 0")
    case False
    obtain ys where ys: "gen_args k (Suc n) args = Ret (ys, h)" "\<not> n \<ge> MAX_PARAMS_PER_FUNCTION"
      using 9(3) False by (auto simp: k outcome_simps split: if_splits)
    then show ?thesis using 9(1) [OF k] 9(2) [OF k refl ys(2) False ys(1)] by simp
  next
    case True
    then show ?thesis using 9(1) [OF k] 9(3) by (simp add: k split: if_splits)
  qed
qed auto

lemma declare_layout:
  assumes laid: "laid P g L" and add: "symbol_table_add (g_symbols g) x (if_stack_count (g_fun g)) = Ret st"
  defines "st' \<equiv> (case symbol_table_lookup st x of None \<Rightarrow> st | Some cur \<Rightarrow> symbol_set_stack st cur)"
  shows "laid P (g\<lparr>g_fun := (g_fun g)\<lparr>if_stack_count := Suc (if_stack_count (g_fun g))\<rparr>, g_symbols := st'\<rparr>)
      ((x, slot_symbol x (if_stack_count (g_fun g))) # L)" and "since (g_symbols g) st'"
proof -
  let ?k = "if_stack_count (g_fun g)"
  have ok: "symbols_ok (g_symbols g)" using laid by (simp add: laid_def)
  have st: "symbols_ok st" "symbol_map st = (symbol_map (g_symbols g))
      (x \<mapsto> \<lparr>sy_name = x, sy_index = ?k, sy_is_stack = False, sy_occupied = True\<rparr>)"
    using symbol_table_add_map [OF ok add] by simp_all
  then obtain cur where cur: "symbol_table_lookup st x = Some cur"
      "st_entries st cur = \<lparr>sy_name = x, sy_index = ?k, sy_is_stack = False, sy_occupied = True\<rparr>"
    using lookup_symbol_map [of st x] by auto
  have st': "st' = symbol_set_stack st cur" by (simp add: st'_def cur)
  show "since (g_symbols g) st'" unfolding st' by (rule since_add_set_stack [OF add cur(1) ok])
  have map: "symbols_ok st'" "symbol_map st' = (symbol_map (g_symbols g))(x \<mapsto> slot_symbol x ?k)"
    using symbol_set_stack_map [OF st(1) cur(1)] st(2) by (simp_all add: st' cur(2) slot_symbol_def)
  have "place_of (slot_symbol x ?k) \<notin> place_of ` snd ` set L"
    using laid by (fastforce simp: laid_def list_all_iff place_of_def slot_symbol_def)
  then show "laid P (g\<lparr>g_fun := (g_fun g)\<lparr>if_stack_count := Suc ?k\<rparr>, g_symbols := st'\<rparr>) ((x, slot_symbol x ?k) # L)"
    using laid map unfolding laid_def list_all_iff
    by (auto simp: slot_symbol_def image_comp)
qed

text \<open>A routine that keeps the layout \<open>L\<close>.\<close>

definition keeps_layout :: "nat \<Rightarrow> layout \<Rightarrow> gen \<Rightarrow> gen \<Rightarrow> bool" where
  "keeps_layout P L g h \<longleftrightarrow> (laid P g L \<longrightarrow> since (g_symbols g) (g_symbols h) \<and> laid P h L)"

lemma keeps_layout_trans [trans]: "keeps_layout P L g h \<Longrightarrow> keeps_layout P L h k \<Longrightarrow> keeps_layout P L g k"
  by (auto simp: keeps_layout_def intro: since_trans)

lemma keeps_layout_same: "advances g h \<Longrightarrow> g_symbols h = g_symbols g \<Longrightarrow> keeps_layout P L g h"
  using laid_mono by (auto simp: keeps_layout_def)

lemma keeps_layout_expression: "gen_expression g e = Ret (r, h) \<Longrightarrow> keeps_layout P L g h"
  by (rule keeps_layout_same [OF expression_advances expression_symbols(1)])

lemma keeps_layout_emit: "keeps_layout P L g (g_emit i g)"
  by (rule keeps_layout_same [OF advances_emit]) simp

lemma keeps_layout_label: "g_label g = (l, h) \<Longrightarrow> keeps_layout P L g h"
  by (rule keeps_layout_same [OF settles_advances [OF settles_label]]) (auto simp: g_label_def)

lemma keeps_layout_emits: "keeps_layout P L g h \<Longrightarrow> keeps_layout P L g (g_emit i h)"
  by (rule keeps_layout_trans [OF _ keeps_layout_emit])

lemma keeps_layout_last [simp]: "keeps_layout P L g (h\<lparr>g_last_reg := r\<rparr>) = keeps_layout P L g h"
  by (simp add: keeps_layout_def laid_def)

section \<open>The parts of a statement\<close>

text \<open>The state in which the initialiser of a declaration is generated.\<close>

definition declared :: "gen \<Rightarrow> string \<Rightarrow> symbol_table \<Rightarrow> gen" where
  "declared g x st = g\<lparr>g_fun := (g_fun g)\<lparr>if_stack_count := Suc (if_stack_count (g_fun g))\<rparr>,
     g_symbols := (case symbol_table_lookup st x of None \<Rightarrow> st | Some cur \<Rightarrow> symbol_set_stack st cur)\<rparr>"

definition store_init :: "gen \<Rightarrow> nat \<Rightarrow> data_type \<Rightarrow> nat \<Rightarrow> gen" where
  "store_init g k ty r = (g_emit ((instr_of IR_STORE ty)\<lparr>in_dest := k, in_src1 := r\<rparr>) g)\<lparr>g_last_reg := r\<rparr>"

lemma gen_var_declE:
  assumes "gen_var_decl g x ty e = Ret h"
  obtains
    (full) st where "symbol_table_add (g_symbols g) x (if_stack_count (g_fun g)) = Ret st" "e = AstNull" "g_alloc (declared g x st) = (None, h)"
  | (zero) st r k where "symbol_table_add (g_symbols g) x (if_stack_count (g_fun g)) = Ret st" "e = AstNull"
      "g_alloc (declared g x st) = (Some r, k)"
      "h = store_init (g_emit ((instr_of IR_CONST ty)\<lparr>in_dest := r, in_imm := 0\<rparr>) k) (if_stack_count (g_fun g)) ty r"
  | (fails) st where "symbol_table_add (g_symbols g) x (if_stack_count (g_fun g)) = Ret st" "e \<noteq> AstNull"
      "gen_expression (declared g x st) e = Ret (0, h)"
  | (init) st r k where "symbol_table_add (g_symbols g) x (if_stack_count (g_fun g)) = Ret st" "e \<noteq> AstNull" "r \<noteq> 0"
      "gen_expression (declared g x st) e = Ret (r, k)" "h = store_init k (if_stack_count (g_fun g)) ty r"
proof -
  obtain st where st: "symbol_table_add (g_symbols g) x (if_stack_count (g_fun g)) = Ret st"
    using assms by (auto simp: gen_var_decl_def g_stack_def outcome_simps)
  have eq: "Ret h = (if e \<noteq> AstNull then obind (gen_expression (declared g x st) e) (\<lambda>(r, k). if r = 0 then Ret k else Ret (store_init k (if_stack_count (g_fun g)) ty r))
    else (case g_alloc (declared g x st) of (None, g) \<Rightarrow> Ret g
      | (Some r, k) \<Rightarrow> Ret (store_init (g_emit ((instr_of IR_CONST ty)\<lparr>in_dest := r, in_imm := 0\<rparr>) k) (if_stack_count (g_fun g)) ty r)))"
    unfolding assms [symmetric] store_init_def declared_def by (simp add: gen_var_decl_def g_stack_def st Let_def)
  show thesis
  proof (cases "e = AstNull")
    case True
    then show thesis
      using eq [symmetric] full [OF st] zero [OF st] by (auto split: prod.splits option.splits)
  next
    case False
    then obtain r k where rk: "gen_expression (declared g x st) e = Ret (r, k)"
      using eq [symmetric] by (auto simp: outcome_simps)
    then have "h = (if r = 0 then k else store_init k (if_stack_count (g_fun g)) ty r)" using eq False by (simp add: rk split: if_splits)
    then show thesis using fails [OF st False] init [OF st False] rk by (cases "r = 0") simp_all
  qed
qed

lemma gen_assignmentE:
  assumes "gen_assignment g i x e = Ret h" "symbol_table_lookup (g_symbols g) x = Some cur"
  obtains (fails) "gen_expression g e = Ret (0, h)"
  | (store) r k where "gen_expression g e = Ret (r, k)" "r \<noteq> 0"
      "h = (g_emit ((instr_of (if sy_is_stack (st_entries (g_symbols k) cur) then IR_STORE else IR_MOV) (value_type i))
        \<lparr>in_dest := sy_index (st_entries (g_symbols k) cur), in_src1 := r\<rparr>) k)\<lparr>g_last_reg := r\<rparr>"
proof -
  obtain r k where r: "gen_expression g e = Ret (r, k)" using assms by (auto simp: gen_assignment_def outcome_simps)
  then show thesis using assms fails store [OF r] by (cases "r = 0") (simp_all add: gen_assignment_def Let_def)
qed

lemma gen_ifE:
  assumes "gen_if statement g c t e = Ret h"
  obtains
    (fails) k where "gen_expression g c = Ret (0, k)" "advances k h" "g_symbols h = g_symbols k"
  | (simple) r k ty l a b where "e = AstNull" "gen_expression g c = Ret (r, k)" "r \<noteq> 0" "g_label k = (l, a)"
      "statement (g_emit (jump_to IR_JZ ty r l) a) t = Ret b" "h = g_emit (jump_to IR_LABEL TYPE_VOID 0 l) b"
  | (full) r k ty l a m b u v where "e \<noteq> AstNull" "gen_expression g c = Ret (r, k)" "r \<noteq> 0" "g_label k = (l, a)" "g_label a = (m, b)"
      "statement (g_emit (jump_to IR_JZ ty r l) b) t = Ret u"
      "statement (g_emit (jump_to IR_LABEL TYPE_VOID 0 l) (g_emit (jump_to IR_JMP TYPE_VOID 0 m) u)) e = Ret v"
      "h = g_emit (jump_to IR_LABEL TYPE_VOID 0 m) v"
proof -
  obtain r k where r: "gen_expression g c = Ret (r, k)" using assms by (auto simp: gen_if_def outcome_simps)
  obtain ty where ty: "node_type_of c = Ret ty" using assms by (auto simp: gen_if_def r outcome_simps)
  obtain l a where l: "g_label k = (l, a)" by force
  obtain m b where m: "g_label a = (m, b)" by force
  have adv: "advances k a" "advances k b" "g_symbols a = g_symbols k" "g_symbols b = g_symbols k"
    using settles_label [OF l] settles_label [OF m] l m by (auto simp: g_label_def settles_def intro: advances_trans)
  show thesis
  proof (cases "r = 0")
    case True
    then have "h = a \<or> h = b" using assms by (auto simp: gen_if_def r ty l m split: if_splits)
    then show thesis using fails [of k] r True adv by auto
  next
    case False
    show thesis
    proof (cases "e = AstNull")
      case True
      then obtain u where u: "statement (g_emit (jump_to IR_JZ ty r l) a) t = Ret u" "h = g_emit (jump_to IR_LABEL TYPE_VOID 0 l) u"
        using assms False by (auto simp: gen_if_def r ty l outcome_simps)
      show thesis by (rule simple [OF True r False l u])
    next
      case e: False
      then obtain u v where u: "statement (g_emit (jump_to IR_JZ ty r l) b) t = Ret u"
          "statement (g_emit (jump_to IR_LABEL TYPE_VOID 0 l) (g_emit (jump_to IR_JMP TYPE_VOID 0 m) u)) e = Ret v"
          "h = g_emit (jump_to IR_LABEL TYPE_VOID 0 m) v"
        using assms False by (auto simp: gen_if_def r ty l m Let_def outcome_simps)
      show thesis by (rule full [OF e r False l m u])
    qed
  qed
qed

lemma gen_whileE:
  assumes "gen_while statement g c b = Ret h"
  obtains l a m k p r q ty where "g_label g = (l, a)" "g_label a = (m, k)" "p = g_emit (jump_to IR_LABEL TYPE_VOID 0 l) k"
      "gen_expression p c = Ret (r, q)" "r = 0 \<Longrightarrow> h = q"
      "r \<noteq> 0 \<Longrightarrow> \<exists>u. statement (g_emit (jump_to IR_JZ ty r m) q) b = Ret u \<and>
        h = g_emit (jump_to IR_LABEL TYPE_VOID 0 m) (g_emit (jump_to IR_JMP TYPE_VOID 0 l) u)"
proof -
  obtain l a where l: "g_label g = (l, a)" by force
  obtain m k where m: "g_label a = (m, k)" by force
  obtain ty where ty: "node_type_of c = Ret ty" using assms by (auto simp: gen_while_def l m outcome_simps)
  obtain r q where r: "gen_expression (g_emit (jump_to IR_LABEL TYPE_VOID 0 l) k) c = Ret (r, q)"
    using assms by (auto simp: gen_while_def l m ty outcome_simps)
  show thesis
    by (rule that [OF l m refl r, of ty]) (use assms in \<open>auto simp: gen_while_def l m ty r outcome_simps\<close>)
qed

lemma gen_blockE:
  assumes "gen_block statements g ss = Ret h" "\<And>k. statements g ss = Ret k \<Longrightarrow> since (g_symbols g) (g_symbols k)"
  obtains k where "statements g ss = Ret k" "h = k\<lparr>g_symbols := g_symbols g\<rparr>"
  using assms symbol_table_restore_exact by (auto simp: gen_block_def Let_def outcome_simps)

lemma gen_statements_Cons:
  "gen_statements g (s # ss) = Ret h \<longleftrightarrow> (\<exists>k. gen_statement g s = Ret k \<and> gen_statements k ss = Ret h)"
  by (auto simp: outcome_simps)

section \<open>Statements keep the layout\<close>

lemma statement_advances: "gen_statement g s = Ret h \<Longrightarrow> advances g h"
  using gen_statement_settles(1) [of g s] by (simp add: settles_def)

lemma statements_advances: "gen_statements g ss = Ret h \<Longrightarrow> advances g h"
  using gen_statement_settles(2) [of g ss] by (simp add: settles_def)

lemma declared_layout:
  assumes "laid P g L" "symbol_table_add (g_symbols g) x (if_stack_count (g_fun g)) = Ret st"
  shows "laid P (declared g x st) ((x, slot_symbol x (if_stack_count (g_fun g))) # L)" "since (g_symbols g) (g_symbols (declared g x st))"
  using declare_layout [OF assms] by (simp_all add: declared_def)

lemma keeps_layout_alloc: "g_alloc g = (r, h) \<Longrightarrow> keeps_layout P L g h"
  using frame_alloc settles_advances [OF settles_alloc] by (intro keeps_layout_same) auto

lemma keeps_layout_store: "keeps_layout P L g (store_init g k ty r)"
  by (simp add: store_init_def keeps_layout_emit)

lemma gen_var_decl_layout:
  assumes "gen_var_decl g x ty e = Ret h" "laid P g L"
  shows "since (g_symbols g) (g_symbols h) \<and> laid P h ((x, slot_symbol x (if_stack_count (g_fun g))) # L)"
proof -
  let ?L = "(x, slot_symbol x (if_stack_count (g_fun g))) # L"
  have "\<exists>st. symbol_table_add (g_symbols g) x (if_stack_count (g_fun g)) = Ret st \<and> keeps_layout P ?L (declared g x st) h"
    using assms(1)
  proof (cases rule: gen_var_declE)
    case (full st)
    then show ?thesis using keeps_layout_alloc by blast
  next
    case (zero st r k)
    have "keeps_layout P ?L (declared g x st) h"
      unfolding zero(4) using zero(3) keeps_layout_alloc keeps_layout_emit keeps_layout_store keeps_layout_trans by metis
    then show ?thesis using zero(1) by blast
  next
    case (fails st)
    then show ?thesis using keeps_layout_expression by blast
  next
    case (init st r k)
    have "keeps_layout P ?L (declared g x st) h"
      unfolding init(5) using init(4) keeps_layout_expression keeps_layout_store keeps_layout_trans by metis
    then show ?thesis using init(1) by blast
  qed
  then obtain st where st: "symbol_table_add (g_symbols g) x (if_stack_count (g_fun g)) = Ret st" "keeps_layout P ?L (declared g x st) h"
    by blast
  show ?thesis using declared_layout [OF assms(2) st(1)] st(2) by (auto simp: keeps_layout_def intro: since_trans)
qed

definition lays_out :: "ast \<Rightarrow> bool" where
  "lays_out s \<longleftrightarrow> (\<forall>P g h L. gen_statement g s = Ret h \<longrightarrow> scoped s \<longrightarrow> laid P g L \<longrightarrow>
     since (g_symbols g) (g_symbols h) \<and> laid P h (layout_after g s L))"

lemma lays_out_keeps: "lays_out s \<Longrightarrow> gen_statement g s = Ret h \<Longrightarrow> scoped s \<Longrightarrow> \<not> is_decl s \<Longrightarrow> keeps_layout P L g h"
  using layout_after_same by (auto simp: lays_out_def keeps_layout_def)

lemma statements_layout:
  "list_all lays_out ss \<Longrightarrow> gen_statements g ss = Ret h \<Longrightarrow> list_all scoped ss \<Longrightarrow> laid P g L \<Longrightarrow>
   since (g_symbols g) (g_symbols h) \<and> (\<exists>K. laid P h (K @ L))"
proof (induction ss arbitrary: g L)
  case Nil
  then show ?case by (auto intro: exI [of _ "[]"])
next
  case (Cons s ss)
  obtain k where k: "gen_statement g s = Ret k" "gen_statements k ss = Ret h" using Cons.prems(2) gen_statements_Cons by blast
  have s: "since (g_symbols g) (g_symbols k)" "laid P k (layout_after g s L)"
    using Cons.prems k(1) by (auto simp: lays_out_def)
  have "since (g_symbols k) (g_symbols h) \<and> (\<exists>K. laid P h (K @ layout_after g s L))"
    using Cons.IH [OF _ k(2) _ s(2)] Cons.prems by simp
  moreover have "\<exists>K. layout_after g s L = K @ L"
  proof (cases s)
    case (AstVarDecl i x ty e)
    then show ?thesis by (intro exI [of _ "[(x, slot_symbol x (if_stack_count (g_fun g)))]"]) simp
  qed auto
  ultimately show ?case using s(1) since_trans by (metis append.assoc)
qed

lemma block_layout:
  assumes "list_all lays_out ss" "gen_block gen_statements g ss = Ret h" "list_all scoped ss" "laid P g L"
  obtains k where "gen_statements g ss = Ret k" "h = k\<lparr>g_symbols := g_symbols g\<rparr>" "advances g k"
proof (rule gen_blockE [OF assms(2)])
  show "since (g_symbols g) (g_symbols k)" if "gen_statements g ss = Ret k" for k
    using statements_layout [OF assms(1) that assms(3,4)] by blast
qed (use that statements_advances in blast)

text \<open>Everything else is an expression.\<close>

definition evaluated :: "ast \<Rightarrow> bool" where
  "evaluated s \<longleftrightarrow> (\<forall>g. gen_statement g s = obind (gen_expression g s) (\<lambda>(r, g). Ret (g\<lparr>g_last_reg := r\<rparr>))) \<and>
     (\<forall>callee n E. source_exec callee n E s = obind (source_eval callee E s) (\<lambda>_. Ret (Goes_on E))) \<and> \<not> is_decl s"

lemma evaluated_nodes [simp]:
  "evaluated (AstNumber i v)" "evaluated (AstIdentifier i x)" "evaluated (AstBinary b i l r)" "evaluated (AstUnary u i e)"
  "evaluated (AstCall i x es)" "evaluated (AstFunction i x t ps body proto)" "evaluated (AstTranslationUnit i ds)"
  by (simp_all add: evaluated_def del: gen_expression.simps source_eval.simps)

lemma evaluated_lays_out: "evaluated s \<Longrightarrow> lays_out s"
proof -
  assume s: "evaluated s"
  have "keeps_layout P L g h" if gen: "gen_statement g s = Ret h" for P L g h
  proof -
    obtain r k where r: "gen_expression g s = Ret (r, k)" using gen s by (auto simp: evaluated_def outcome_simps)
    then have "h = k\<lparr>g_last_reg := r\<rparr>" using gen s by (simp add: evaluated_def)
    then show ?thesis using keeps_layout_expression [OF r] by simp
  qed
  then show "lays_out s" using s by (auto simp: lays_out_def keeps_layout_def evaluated_def layout_after_same)
qed

theorem statement_layout: "lays_out s"
proof (induction s)
  case (AstVarDecl i x ty e)
  then show ?case using gen_var_decl_layout by (simp add: lays_out_def)
next
  case (AstAssignment i x e)
  have "keeps_layout P L g h" if "gen_assignment g i x e = Ret h" for P L g h
  proof (cases "symbol_table_lookup (g_symbols g) x")
    case None
    then have "h = g_error (node_line i) (node_column i) (''assignment to undefined variable '' @ quoted x) g"
      using that by (simp add: gen_assignment_def)
    then show ?thesis using settles_error by (intro keeps_layout_same settles_advances) simp_all
  next
    case (Some cur)
    show ?thesis
      by (cases rule: gen_assignmentE [OF that Some])
        (auto intro: keeps_layout_expression keeps_layout_trans keeps_layout_emit)
  qed
  then show ?case by (auto simp: lays_out_def keeps_layout_def)
next
  case (AstReturn i e)
  have "keeps_layout P L g h" if "gen_return g i e = Ret h" for P L g h
    using that keeps_layout_expression keeps_layout_emits by (fastforce simp: gen_return_def outcome_simps split: if_splits)
  then show ?case by (auto simp: lays_out_def keeps_layout_def)
next
  case (AstBlock i ss)
  have ss: "list_all lays_out ss" using AstBlock by (simp add: list_all_iff)
  show ?case
    unfolding lays_out_def
  proof (intro allI impI)
    fix P g h L assume a: "gen_statement g (AstBlock i ss) = Ret h" "scoped (AstBlock i ss)" "laid P g L"
    then obtain k where k: "h = k\<lparr>g_symbols := g_symbols g\<rparr>" "advances g k"
      using block_layout [OF ss, of g h P L] by auto
    then have "advances g h" by (simp add: advances_def)
    then show "since (g_symbols g) (g_symbols h) \<and> laid P h (layout_after g (AstBlock i ss) L)"
      using laid_mono [OF a(3), of h] k(1) by simp
  qed
next
  case (AstIf i c t e)
  have "keeps_layout P L g h" if gen: "gen_if gen_statement g c t e = Ret h" and sc: "scoped (AstIf i c t e)" for P L g h
  proof (cases rule: gen_ifE [OF gen])
    case (1 k)
    then show ?thesis using keeps_layout_expression keeps_layout_same keeps_layout_trans by blast
  next
    case (2 r k ty l a b)
    have "keeps_layout P L g k" by (rule keeps_layout_expression [OF 2(2)])
    also have "keeps_layout P L k (g_emit (jump_to IR_JZ ty r l) a)" by (rule keeps_layout_emits [OF keeps_layout_label [OF 2(4)]])
    also have "keeps_layout P L (g_emit (jump_to IR_JZ ty r l) a) b" using lays_out_keeps [OF AstIf.IH(2) 2(5)] sc by simp
    also have "keeps_layout P L b h" unfolding 2(6) by (rule keeps_layout_emit)
    finally show ?thesis .
  next
    case (3 r k ty l a m b u v)
    have "keeps_layout P L g k" by (rule keeps_layout_expression [OF 3(2)])
    also have "keeps_layout P L k a" by (rule keeps_layout_label [OF 3(4)])
    also have "keeps_layout P L a (g_emit (jump_to IR_JZ ty r l) b)" by (rule keeps_layout_emits [OF keeps_layout_label [OF 3(5)]])
    also have "keeps_layout P L (g_emit (jump_to IR_JZ ty r l) b) u" using lays_out_keeps [OF AstIf.IH(2) 3(6)] sc by simp
    also have "keeps_layout P L u (g_emit (jump_to IR_LABEL TYPE_VOID 0 l) (g_emit (jump_to IR_JMP TYPE_VOID 0 m) u))"
      by (rule keeps_layout_emits [OF keeps_layout_emit])
    also have "keeps_layout P L \<dots> v" using lays_out_keeps [OF AstIf.IH(3) 3(7)] sc by simp
    also have "keeps_layout P L v h" unfolding 3(8) by (rule keeps_layout_emit)
    finally show ?thesis .
  qed
  then show ?case by (auto simp: lays_out_def keeps_layout_def)
next
  case (AstWhile i c b)
  have "keeps_layout P L g h" if gen: "gen_while gen_statement g c b = Ret h" and sc: "scoped (AstWhile i c b)" for P L g h
  proof (rule gen_whileE [OF gen])
    fix l a m k p r q ty
    assume w: "g_label g = (l, a)" "g_label a = (m, k)" "p = g_emit (jump_to IR_LABEL TYPE_VOID 0 l) k" "gen_expression p c = Ret (r, q)"
      "r = 0 \<Longrightarrow> h = q" "r \<noteq> 0 \<Longrightarrow> \<exists>u. gen_statement (g_emit (jump_to IR_JZ ty r m) q) b = Ret u \<and>
        h = g_emit (jump_to IR_LABEL TYPE_VOID 0 m) (g_emit (jump_to IR_JMP TYPE_VOID 0 l) u)"
    have "keeps_layout P L g a" by (rule keeps_layout_label [OF w(1)])
    also have "keeps_layout P L a p" unfolding w(3) by (rule keeps_layout_emits [OF keeps_layout_label [OF w(2)]])
    also have "keeps_layout P L p q" by (rule keeps_layout_expression [OF w(4)])
    finally have gq: "keeps_layout P L g q" .
    show ?thesis
    proof (cases "r = 0")
      case False
      then obtain u where u: "gen_statement (g_emit (jump_to IR_JZ ty r m) q) b = Ret u"
          "h = g_emit (jump_to IR_LABEL TYPE_VOID 0 m) (g_emit (jump_to IR_JMP TYPE_VOID 0 l) u)"
        using w(6) by blast
      note gq
      also have "keeps_layout P L q (g_emit (jump_to IR_JZ ty r m) q)" by (rule keeps_layout_emit)
      also have "keeps_layout P L \<dots> u" using lays_out_keeps [OF AstWhile.IH(2) u(1)] sc by simp
      also have "keeps_layout P L u h" unfolding u(2) by (rule keeps_layout_emits [OF keeps_layout_emit])
      finally show ?thesis .
    qed (use gq w(5) in simp)
  qed
  then show ?case by (auto simp: lays_out_def keeps_layout_def)
next
  case AstNull
  then show ?case by (simp add: lays_out_def)
qed (simp_all add: evaluated_lays_out)

end
