(* ===== verification/GenExecution.thy ===== *)
theory GenExecution
  imports GenStatements
begin

text \<open>
  Running the code of a statement has the effect that the statement has: it goes on behind the code with the bindings
  that the statement leaves, or returns its value.
\<close>

section \<open>Flow\<close>

text \<open>From \<open>g\<close> to \<open>h\<close>, where the layout is \<open>L\<close>.\<close>

definition flows :: "calls \<Rightarrow> gen \<Rightarrow> gen \<Rightarrow> ir_state \<Rightarrow> layout \<Rightarrow> gen \<Rightarrow> flow \<Rightarrow> bool" where
  "flows irc G g s L h fl \<longleftrightarrow>
     (case fl of
        Goes_on E \<Rightarrow> \<exists>t. arrives irc (ir_code (g_fun G)) (at G g) s (at G h) t \<and> env_rel t L E \<and> ir_args t = []
      | Returned v \<Rightarrow> finishes irc (ir_code (g_fun G)) (at G g) s v)"

lemma flows_simps [simp]:
  "flows irc G g s L h (Goes_on E) \<longleftrightarrow>
     (\<exists>t. arrives irc (ir_code (g_fun G)) (at G g) s (at G h) t \<and> env_rel t L E \<and> ir_args t = [])"
  "flows irc G g s L h (Returned v) \<longleftrightarrow> finishes irc (ir_code (g_fun G)) (at G g) s v"
  by (simp_all add: flows_def)

lemma flows_before:
  "arrives irc (ir_code (g_fun G)) (at G g) s (at G h) t \<Longrightarrow> flows irc G h t L k fl \<Longrightarrow> flows irc G g s L k fl"
  by (cases fl) (auto intro: arrives_trans finishes_trans)

lemma flows_after:
  "flows irc G g s L h fl \<Longrightarrow> (\<And>t. arrives irc (ir_code (g_fun G)) (at G h) t (at G k) t) \<Longrightarrow> flows irc G g s L k fl"
  by (cases fl) (auto intro: arrives_trans)

lemma flows_bind:
  assumes "flows irc G g s L h fl" "and_then (Ret fl) k = Ret fl'"
    and "\<And>E t. fl = Goes_on E \<Longrightarrow> env_rel t L E \<Longrightarrow> ir_args t = [] \<Longrightarrow> k E = Ret fl' \<Longrightarrow> flows irc G h t L' m fl'"
  shows "flows irc G g s L' m fl'"
proof (cases fl)
  case (Goes_on E)
  then obtain t where "arrives irc (ir_code (g_fun G)) (at G g) s (at G h) t" "env_rel t L E" "ir_args t = []"
    using assms(1) by auto
  then show ?thesis using flows_before assms(2,3) Goes_on by (auto simp: and_then_def)
next
  case (Returned v)
  then show ?thesis using assms(1,2) by (auto simp: and_then_def)
qed

lemma and_thenE:
  assumes "and_then r k = Ret fl"
  obtains fl0 where "r = Ret fl0" "and_then (Ret fl0) k = Ret fl"
  using assms by (cases r) (auto simp: and_then_def)

text \<open>Labels are placed once, so a jump arrives behind its label.\<close>

definition once :: "gen \<Rightarrow> bool" where
  "once G \<longleftrightarrow> distinct (labels (ir_code (g_fun G)))"

lemma after_label_at:
  assumes "leads (g_emit i g) G" "in_op i = IR_LABEL" "in_label i = l" "once G"
  shows "after_label l (ir_code (g_fun G)) = at G (g_emit i g)"
proof -
  have "room (g_fun g)" using leads_room [OF assms(1)] advances_emit [of g i] by (simp add: advances_def)
  then have code: "ir_code (g_fun (g_emit i g)) = ir_code (g_fun g) @ [i]" by (simp add: emit_code)
  obtain zs where prog: "ir_code (g_fun G) = ir_code (g_fun g) @ i # zs"
    using assms(1) code by (auto simp: leads_def advances_def prefix_def)
  have "\<not> (in_op j = IR_LABEL \<and> in_label j = l)" if "j \<in> set (ir_code (g_fun g))" for j
  proof
    assume j: "in_op j = IR_LABEL \<and> in_label j = l"
    then have "l \<in> set (labels (ir_code (g_fun g)))" using that by (force simp: labels_def)
    then show False using assms(2-4) by (auto simp: once_def prog labels_def)
  qed
  then have "dropWhile (\<lambda>j. \<not> (in_op j = IR_LABEL \<and> in_label j = l)) (ir_code (g_fun G)) = i # zs"
    using assms(2,3) by (simp add: prog dropWhile_append2)
  then show ?thesis by (simp add: after_label_def at_def code prog del: g_fun_simps)
qed

section \<open>Single instructions\<close>

lemma emit_step:
  assumes "leads (g_emit i g) G" "\<And>callee rest. ir_step callee (ir_code (g_fun G)) i rest s = Ret (Continue rest t)"
  shows "arrives irc (ir_code (g_fun G)) (at G g) s (at G (g_emit i g)) t"
  unfolding at_emit [OF assms(1)] by (rule arrives_step [of 0]) (rule assms(2))

lemma emit_jump_step:
  assumes "leads (g_emit i g) G" "\<And>callee rest. ir_step callee (ir_code (g_fun G)) i rest s = Ret (Continue (at G h) t)"
  shows "arrives irc (ir_code (g_fun G)) (at G g) s (at G h) t"
  unfolding at_emit [OF assms(1)] by (rule arrives_step [of 0]) (rule assms(2))

lemma label_step: "leads (g_emit (jump_to IR_LABEL ty x l) g) G \<Longrightarrow>
    arrives irc (ir_code (g_fun G)) (at G g) t (at G (g_emit (jump_to IR_LABEL ty x l) g)) t"
  by (rule emit_step) (simp_all add: ir_step_def Let_def jump_to_def)

text \<open>A variable is written.\<close>

lemma env_rel_rebind:
  assumes "stored t sb var'" "\<And>sb' var. place_of sb' \<noteq> place_of sb \<Longrightarrow> stored s sb' var \<Longrightarrow> stored t sb' var"
  shows "env_rel s L E \<Longrightarrow> distinct (map (place_of \<circ> snd) L) \<Longrightarrow> map_of L x = Some sb \<Longrightarrow> env_rel t L (rebind x var' E)"
proof (induction L arbitrary: E)
  case (Cons b L)
  obtain y sy where b: "b = (y, sy)" by force
  obtain var E' where E: "E = (y, var) # E'" "stored s sy var" "env_rel s L E'"
    using Cons.prems(1) by (cases E) (auto simp: b env_rel_def)
  show ?case
  proof (cases "y = x")
    case True
    have "place_of sb' \<noteq> place_of sb" if "(z, sb') \<in> set L" for z sb'
      using Cons.prems(2,3) that True by (force simp: b)
    then have "env_rel t L E'"
      using E(3) assms(2) unfolding env_rel_def by (auto elim!: list.rel_mono_strong)
    then show ?thesis using Cons.prems(3) True assms(1) by (simp add: b E(1))
  next
    case False
    then have "map_of L x = Some sb" using Cons.prems(3) by (simp add: b)
    moreover from this have "place_of sy \<noteq> place_of sb"
      using Cons.prems(2) map_of_SomeD by (force simp: b)
    ultimately show ?thesis using Cons E False assms(2) by (simp add: b)
  qed
qed (simp add: env_rel_def)

lemma set_slot_stored:
  "place_of sb' \<noteq> (True, k) \<Longrightarrow> stored s sb' var \<Longrightarrow> stored (set_slot k n v s) sb' var"
  by (auto simp: stored_def set_slot_def place_of_def split: variable.splits)

lemma set_vreg_stored:
  "place_of sb' \<noteq> (False, r) \<Longrightarrow> stored s sb' var \<Longrightarrow> stored (set_vreg r v s) sb' var"
  by (auto simp: stored_def set_vreg_def place_of_def split: variable.splits)

section \<open>Statements\<close>

lemma leads_fields [simp]:
  "leads (g\<lparr>g_symbols := st\<rparr>) G = leads g G" "leads (g\<lparr>g_last_reg := r\<rparr>) G = leads g G"
  "at G (g\<lparr>g_symbols := st\<rparr>) = at G g" "at G (g\<lparr>g_last_reg := r\<rparr>) = at G g"
  by (simp_all add: leads_def advances_def at_def)

definition simulated :: "(string \<Rightarrow> u64 list \<Rightarrow> u64 outcome) \<Rightarrow> calls \<Rightarrow> gen \<Rightarrow> ast \<Rightarrow> bool" where
  "simulated callee irc G stm \<longleftrightarrow> (\<forall>P g h L s E n fl. gen_statement g stm = Ret h \<longrightarrow> leads h G \<longrightarrow> gen_errors G = gen_errors g \<longrightarrow>
     laid P g L \<longrightarrow> env_rel s L E \<longrightarrow> ir_args s = [] \<longrightarrow> scoped stm \<longrightarrow> source_exec callee n E stm = Ret fl \<longrightarrow>
     flows irc G g s (layout_after g stm L) h fl)"

text \<open>An expression inside a statement, and what the generator does behind it.\<close>

lemma expression_part:
  assumes "follows callee irc" "gen_expression g e = Ret (r, k)" "advances k h" "leads h G" "gen_errors G = gen_errors g"
    and "laid P g L" "env_rel s L E" "ir_args s = []" "source_eval callee E e = Ret v"
  obtains t where "arrives irc (ir_code (g_fun G)) (at G g) s (at G k) t" "ir_regs t r = Some v" "r \<noteq> 0"
    "laid P k L" "env_rel t L E" "ir_args t = []" "leads k G" "g_symbols k = g_symbols g" "gen_errors G = gen_errors k"
proof -
  have gk: "advances g k" by (rule expression_advances [OF assms(2)])
  have lead: "leads k G" by (rule leads_between [OF gk assms(3-5)])
  have c: "computes irc G g s (r, k) v" by (rule expression_computes(1) [OF assms(1,2) lead assms(5-9)])
  show thesis
    by (rule computesE [OF c assms(6-8) gk])
      (rule that, use lead c in \<open>auto simp: leads_def dest: computes_advances\<close>)
qed

lemma store_flows:
  assumes leads: "leads (g_emit i k) G" and env: "laid P k L" "env_rel t L E" "ir_args t = []" "map_of L x = Some sb"
    and val: "ir_regs t (in_src1 i) = Some v" "stored t sb var" and i: "in_dest i = sy_index sb"
      "in_op i = (if sy_is_stack sb then IR_STORE else IR_MOV)"
  shows "flows irc G k t L (g_emit i k) (Goes_on (rebind x (write_variable (in_type i) v var) E))"
proof -
  let ?u = "if sy_is_stack sb then set_slot (sy_index sb) (type_size (in_type i)) v t else set_vreg (sy_index sb) v t"
  have "arrives irc (ir_code (g_fun G)) (at G k) t (at G (g_emit i k)) ?u"
    by (rule emit_step [OF leads]) (use val i in \<open>simp add: ir_step_def ir_effect_def ir_value_def Let_def\<close>)
  moreover have "env_rel ?u L (rebind x (write_variable (in_type i) v var) E)"
  proof (rule env_rel_rebind [OF _ _ env(2) _ env(4)])
    show "stored ?u sb (write_variable (in_type i) v var)"
      using val(2) by (cases var) (auto simp: stored_def set_slot_def set_vreg_def)
    show "stored ?u sb' var'" if "place_of sb' \<noteq> place_of sb" "stored t sb' var'" for sb' var'
      using that set_slot_stored set_vreg_stored by (auto simp: place_of_def)
    show "distinct (map (place_of \<circ> snd) L)" using env(1) by (simp add: laid_def)
  qed
  moreover have "ir_args ?u = []" using env(3) by (simp add: set_slot_def set_vreg_def)
  ultimately show ?thesis by auto
qed

lemma gen_assignment_simulated:
  assumes follows: "follows callee irc" and gen: "gen_assignment g i x e = Ret h" and leads: "leads h G" "gen_errors G = gen_errors g"
    and env: "laid P g L" "env_rel s L E" "ir_args s = []" and exec: "source_exec callee n E (AstAssignment i x e) = Ret fl"
  shows "flows irc G g s L h fl"
proof -
  obtain var v where var: "map_of E x = Some var" "source_eval callee E e = Ret v"
      and fl: "fl = Goes_on (rebind x (write_variable (value_type i) v var) E)"
    using exec by (auto simp: outcome_simps split: option.splits)
  obtain sb where sb: "map_of L x = Some sb" "stored s sb var" using env_rel_lookup [OF env(2) var(1)] by blast
  obtain cur where cur: "symbol_table_lookup (g_symbols g) x = Some cur" "st_entries (g_symbols g) cur = sb"
    using laid_lookup [OF env(1) sb(1)] by blast
  show ?thesis
  proof (cases rule: gen_assignmentE [OF gen cur(1)])
    case 1
    then show ?thesis
      using expression_part [OF follows 1 _ leads env var(2)] by (auto simp: advances_def)
  next
    case (2 r k)
    have sym: "g_symbols k = g_symbols g" by (rule expression_symbols(1) [OF 2(1)])
    let ?i = "(instr_of (if sy_is_stack sb then IR_STORE else IR_MOV) (value_type i))\<lparr>in_dest := sy_index sb, in_src1 := r\<rparr>"
    have h: "h = (g_emit ?i k)\<lparr>g_last_reg := r\<rparr>" using 2(3) by (simp add: sym cur(2))
    have lead: "leads (g_emit ?i k) G" using leads(1) by (simp add: h)
    obtain t where t: "arrives irc (ir_code (g_fun G)) (at G g) s (at G k) t" "ir_regs t r = Some v"
        "laid P k L" "env_rel t L E" "ir_args t = []"
      by (rule expression_part [OF follows 2(1) advances_emit lead leads(2) env var(2)]) auto
    have "stored t sb var" using env_rel_lookup [OF t(4) var(1)] sb(1) by simp
    then have "flows irc G k t L (g_emit ?i k) (Goes_on (rebind x (write_variable (in_type ?i) v var) E))"
      by (intro store_flows [OF lead t(3-5) sb(1)]) (use t(2) in simp_all)
    from flows_before [OF t(1) this] show ?thesis by (simp add: fl h)
  qed
qed

lemma gen_return_simulated:
  assumes follows: "follows callee irc" and gen: "gen_return g i e = Ret h" and leads: "leads h G" "gen_errors G = gen_errors g"
    and env: "laid P g L" "env_rel s L E" "ir_args s = []" and exec: "source_exec callee n E (AstReturn i e) = Ret fl"
  shows "flows irc G g s L h fl"
proof -
  obtain v where v: "source_eval callee E e = Ret v" "fl = Returned v" using exec by (auto simp: outcome_simps)
  obtain r k where r: "gen_expression g e = Ret (r, k)" using gen by (auto simp: gen_return_def outcome_simps)
  let ?i = "(instr_of IR_RET (value_type i))\<lparr>in_src1 := r\<rparr>"
  have h: "h = (if r = 0 then k else g_emit ?i k)" using gen by (simp add: gen_return_def r split: if_splits)
  have "advances k h" using advances_emit [of k ?i] by (simp add: h)
  then obtain t where t: "arrives irc (ir_code (g_fun G)) (at G g) s (at G k) t" "ir_regs t r = Some v" "r \<noteq> 0"
    by (rule expression_part [OF follows r _ leads env v(1)])
  have lead: "leads (g_emit ?i k) G" using leads(1) t(3) by (simp add: h)
  have "finishes irc (ir_code (g_fun G)) (at G k) t v"
    unfolding at_emit [OF lead] by (rule finishes_step) (simp add: ir_step_def ir_value_def Let_def t(2))
  then show ?thesis using finishes_trans [OF t(1)] by (simp add: v(2))
qed

lemma gen_var_decl_simulated:
  assumes follows: "follows callee irc" and gen: "gen_var_decl g x ty e = Ret h" and leads: "leads h G" "gen_errors G = gen_errors g"
    and env: "laid P g L" "env_rel s L E" "ir_args s = []" and exec: "source_exec callee n E (AstVarDecl i x ty e) = Ret fl"
  shows "flows irc G g s ((x, slot_symbol x (if_stack_count (g_fun g))) # L) h fl"
proof -
  let ?k = "if_stack_count (g_fun g)"
  let ?sb = "slot_symbol x ?k" and ?E = "(x, Local None) # E"
  let ?L = "(x, ?sb) # L"
  obtain v where v: "if e = AstNull then v = 0 else source_eval callee ?E e = Ret v"
      and fl: "fl = Goes_on (rebind x (write_variable ty v (Local None)) ?E)"
    using exec by (auto simp: outcome_simps split: if_splits)
  have store: "flows irc G k t ?L (store_init k ?k ty r) fl"
    if "leads (store_init k ?k ty r) G" "laid P k ?L" "env_rel t ?L ?E" "ir_args t = []" "ir_regs t r = Some v" for k t r
  proof -
    let ?i = "(instr_of IR_STORE ty)\<lparr>in_dest := ?k, in_src1 := r\<rparr>"
    have lead: "leads (g_emit ?i k) G" using that(1) by (simp add: store_init_def)
    have "flows irc G k t ?L (g_emit ?i k) (Goes_on (rebind x (write_variable (in_type ?i) v (Local None)) ?E))"
      by (rule store_flows [OF lead that(2-4), of x ?sb v "Local None"])
        (use that(5) in \<open>simp_all add: slot_symbol_def stored_def\<close>)
    then show ?thesis by (simp add: fl store_init_def)
  qed
  have D: "laid P (declared g x st) ?L" "env_rel s ?L ?E" "at G (declared g x st) = at G g" "gen_errors G = gen_errors (declared g x st)"
    if "symbol_table_add (g_symbols g) x ?k = Ret st" for st
  proof -
    show "laid P (declared g x st) ?L" by (rule declared_layout(1) [OF env(1) that])
    show "env_rel s ?L ?E" using env(2) by (simp add: stored_def slot_symbol_def)
    show "at G (declared g x st) = at G g" "gen_errors G = gen_errors (declared g x st)"
      using leads(2) by (simp_all add: at_def declared_def ir_code_def)
  qed
  show ?thesis
  proof (cases rule: gen_var_declE [OF gen])
    case (1 st)
    then show ?thesis using alloc_fails [OF 1(3)] D(4) [OF 1(1)] leads(1) by (simp add: leads_def)
  next
    case (2 st r k)
    note D = D [OF 2(1)]
    let ?i = "(instr_of IR_CONST ty)\<lparr>in_dest := r, in_imm := 0\<rparr>"
    have dk: "advances (declared g x st) (g_emit ?i k)"
      using settles_alloc [OF 2(3)] advances_emit [of k ?i] by (auto simp: settles_def intro: advances_trans)
    have kh: "advances (g_emit ?i k) h"
      using advances_emit [of "g_emit ?i k" "(instr_of IR_STORE ty)\<lparr>in_dest := ?k, in_src1 := r\<rparr>"]
      by (simp add: 2(4) store_init_def advances_def)
    have lead: "leads (g_emit ?i k) G" by (rule leads_between [OF dk kh leads(1) D(4)])
    have "computes irc G (declared g x st) s (r, g_emit ?i k) 0"
      by (rule emit_computes [where t = s and m = 0, OF 2(3) lead])
        (use D(1) in \<open>simp_all add: laid_def ir_step_def ir_effect_def Let_def\<close>)
    then obtain t where t: "arrives irc (ir_code (g_fun G)) (at G (declared g x st)) s (at G (g_emit ?i k)) t" "ir_regs t r = Some 0"
        "laid P (g_emit ?i k) ?L" "env_rel t ?L ?E" "ir_args t = []"
      by (rule computesE [OF _ D(1,2) env(3) dk])
    have "flows irc G (g_emit ?i k) t ?L h fl"
      unfolding 2(4) by (rule store) (use leads(1) t v 2(2,4) in auto)
    then show ?thesis using flows_before [OF t(1)[unfolded D(3)]] by blast
  next
    case (3 st)
    note D = D [OF 3(1)]
    have "source_eval callee ?E e = Ret v" using v 3(2) by simp
    then show ?thesis
      by (rule expression_part [OF follows 3(3) _ leads(1) D(4) D(1,2) env(3), rotated]) (simp_all add: advances_def)
  next
    case (4 st r k)
    note D = D [OF 4(1)]
    have ev: "source_eval callee ?E e = Ret v" using v 4(2) by simp
    have kh: "advances k h"
      using advances_emit [of k "(instr_of IR_STORE ty)\<lparr>in_dest := ?k, in_src1 := r\<rparr>"]
      by (simp add: 4(5) store_init_def advances_def)
    obtain t where t: "arrives irc (ir_code (g_fun G)) (at G (declared g x st)) s (at G k) t" "ir_regs t r = Some v"
        "laid P k ?L" "env_rel t ?L ?E" "ir_args t = []"
      by (rule expression_part [OF follows 4(4) kh leads(1) D(4) D(1,2) env(3) ev]) auto
    have "flows irc G k t ?L h fl"
      unfolding 4(5) by (rule store) (use leads(1) t 4(5) in auto)
    then show ?thesis using flows_before [OF t(1)[unfolded D(3)]] by blast
  qed
qed

lemma simulatedD:
  "simulated callee irc G stm \<Longrightarrow> gen_statement g stm = Ret h \<Longrightarrow> leads h G \<Longrightarrow> gen_errors G = gen_errors g \<Longrightarrow> laid P g L \<Longrightarrow>
   env_rel s L E \<Longrightarrow> ir_args s = [] \<Longrightarrow> scoped stm \<Longrightarrow> source_exec callee n E stm = Ret fl \<Longrightarrow> flows irc G g s (layout_after g stm L) h fl"
  unfolding simulated_def by blast

lemma statements_simulated:
  "list_all (simulated callee irc G) ss \<Longrightarrow> gen_statements g ss = Ret h \<Longrightarrow> leads h G \<Longrightarrow> gen_errors G = gen_errors g \<Longrightarrow> laid P g L \<Longrightarrow>
   env_rel s L E \<Longrightarrow> ir_args s = [] \<Longrightarrow> list_all scoped ss \<Longrightarrow> source_exec_all callee n E ss = Ret fl \<Longrightarrow>
   \<exists>K. flows irc G g s (K @ L) h fl"
proof (induction ss arbitrary: g L s E)
  case Nil
  then show ?case by (auto intro!: exI [of _ "[]"] exI [of _ s])
next
  case (Cons stm ss)
  obtain k where k: "gen_statement g stm = Ret k" "gen_statements k ss = Ret h" using Cons.prems(2) gen_statements_Cons by blast
  note gk = statement_advances [OF k(1)] and kh = statements_advances [OF k(2)]
  have lead: "leads k G" by (rule leads_between [OF gk kh Cons.prems(3,4)])
  then have err: "gen_errors G = gen_errors k" by (simp add: leads_def)
  let ?L = "layout_after g stm L"
  have laid: "laid P k ?L" using statement_layout [of stm] k(1) Cons.prems(5,8) by (auto simp: lays_out_def)
  obtain fl0 where fl0: "source_exec callee n E stm = Ret fl0" "and_then (Ret fl0) (\<lambda>E. source_exec_all callee n E ss) = Ret fl"
    using Cons.prems(9) by (auto elim: and_thenE)
  have one: "flows irc G g s ?L k fl0"
    using simulatedD [OF _ k(1) lead Cons.prems(4-7) _ fl0(1)] Cons.prems(1,8) by simp
  obtain K0 where K0: "?L = K0 @ L" by (cases stm) auto
  show ?case
  proof (cases fl0)
    case (Returned v)
    then show ?thesis using one fl0(2) by (auto simp: and_then_def)
  next
    case (Goes_on E1)
    then obtain t where t: "arrives irc (ir_code (g_fun G)) (at G g) s (at G k) t" "env_rel t ?L E1" "ir_args t = []"
      using one by auto
    have rest: "source_exec_all callee n E1 ss = Ret fl" using fl0(2) Goes_on by (simp add: and_then_def)
    obtain K where "flows irc G k t (K @ ?L) h fl"
      using Cons.IH [OF _ k(2) Cons.prems(3) err laid t(2,3) _ rest] Cons.prems(1,8) by auto
    then show ?thesis using flows_before [OF t(1)] K0 by (metis append.assoc)
  qed
qed

lemma block_simulated:
  assumes ss: "list_all (simulated callee irc G) ss" and gen: "gen_block gen_statements g ss = Ret h"
    and leads: "leads h G" "gen_errors G = gen_errors g" and env: "laid P g L" "env_rel s L E" "ir_args s = []"
    and scoped: "list_all scoped ss" and exec: "source_exec callee n E (AstBlock i ss) = Ret fl"
  shows "flows irc G g s L h fl"
proof -
  have "list_all lays_out ss" by (simp add: statement_layout list_all_iff)
  then obtain k where k: "gen_statements g ss = Ret k" "h = k\<lparr>g_symbols := g_symbols g\<rparr>"
    using block_layout [OF _ gen scoped env(1)] by metis
  obtain fl0 where fl0: "source_exec_all callee n E ss = Ret fl0" "and_then (Ret fl0) (\<lambda>E'. Ret (Goes_on (drop (length E' - length E) E'))) = Ret fl"
    using exec by (auto elim: and_thenE)
  obtain K where K: "flows irc G g s (K @ L) k fl0"
    using statements_simulated [OF ss k(1) _ leads(2) env scoped fl0(1)] leads(1) by (auto simp: k(2))
  show ?thesis
  proof (cases fl0)
    case (Goes_on E1)
    then obtain t where t: "arrives irc (ir_code (g_fun G)) (at G g) s (at G k) t" "env_rel t (K @ L) E1" "ir_args t = []"
      using K by auto
    obtain F E2 where "E1 = F @ E2" "env_rel t L E2" "length F = length K"
      using t(2) by (auto simp: env_rel_def list_all2_append1)
    moreover from this have "length E2 = length E" using env(2) list_all2_lengthD unfolding env_rel_def by metis
    ultimately show ?thesis using t(1,3) fl0(2) Goes_on by (auto simp: and_then_def k(2))
  next
    case (Returned v)
    then show ?thesis using K fl0(2) by (auto simp: and_then_def)
  qed
qed

text \<open>A statement of a branch or a body: its layout is that of the whole.\<close>

lemma branch_simulated:
  "simulated callee irc G stm \<Longrightarrow> \<not> is_decl stm \<Longrightarrow> scoped stm \<Longrightarrow> gen_statement g stm = Ret h \<Longrightarrow> leads h G \<Longrightarrow>
   gen_errors G = gen_errors g \<Longrightarrow> laid P g L \<Longrightarrow> env_rel s L E \<Longrightarrow> ir_args s = [] \<Longrightarrow> source_exec callee n E stm = Ret fl \<Longrightarrow>
   flows irc G g s L h fl"
  using simulatedD layout_after_same by metis

lemma jz_step:
  assumes "leads (g_emit (jump_to IR_JZ ty r l) g) G" "ir_regs s r = Some v"
  shows "v \<noteq> 0 \<Longrightarrow> arrives irc (ir_code (g_fun G)) (at G g) s (at G (g_emit (jump_to IR_JZ ty r l) g)) s"
    and "v = 0 \<Longrightarrow> after_label l (ir_code (g_fun G)) = at G h \<Longrightarrow> arrives irc (ir_code (g_fun G)) (at G g) s (at G h) s"
  by (rule emit_step [OF assms(1)], use assms(2) in \<open>simp add: ir_step_def ir_value_def Let_def jump_to_def\<close>)
    (rule emit_jump_step [OF assms(1)], use assms(2) in \<open>simp add: ir_step_def ir_value_def Let_def jump_to_def\<close>)

lemma goto_step:
  assumes "leads (g_emit (jump_to IR_JMP ty x l) g) G" "after_label l (ir_code (g_fun G)) = at G h"
  shows "arrives irc (ir_code (g_fun G)) (at G g) s (at G h) s"
  by (rule emit_jump_step [OF assms(1)]) (simp add: ir_step_def Let_def jump_to_def assms(2))

lemma label_facts:
  assumes "g_label g = (l, h)"
  shows "at G h = at G g" "leads h G = leads g G" "laid P h L = laid P g L" "gen_errors h = gen_errors g" "advances g h"
    "g_symbols h = g_symbols g"
  using assms settles_advances [OF settles_label [OF assms]]
  by (auto simp: g_label_def at_def leads_def advances_def laid_def ir_code_def room_def)

lemma if_simulated:
  assumes follows: "follows callee irc" and once: "once G"
    and t: "simulated callee irc G t" and e: "simulated callee irc G e" and gen: "gen_if gen_statement g c t e = Ret h"
    and leads: "leads h G" "gen_errors G = gen_errors g" and env: "laid P g L" "env_rel s L E" "ir_args s = []"
    and scoped: "scoped (AstIf i c t e)" and exec: "source_exec callee n E (AstIf i c t e) = Ret fl"
  shows "flows irc G g s L h fl"
proof -
  obtain v where v: "source_eval callee E c = Ret v"
      and fl: "(if v \<noteq> 0 then source_exec callee n E t else if e = AstNull then Ret (Goes_on E) else source_exec callee n E e) = Ret fl"
    using exec by (auto simp: outcome_simps)
  have sc: "\<not> is_decl t" "\<not> is_decl e" "scoped t" "scoped e" using scoped by simp_all
  show ?thesis
  proof (cases rule: gen_ifE [OF gen])
    case (1 k)
    show ?thesis by (rule expression_part [OF follows 1(1,2) leads env v]) simp
  next
    case (2 r k ty l a b)
    let ?j = "g_emit (jump_to IR_JZ ty r l) a"
    note la = label_facts [OF 2(4)]
    have jb: "advances ?j b" by (rule statement_advances [OF 2(5)])
    have bh: "advances b h" unfolding 2(6) by (rule advances_emit)
    have kj: "advances k ?j" by (rule advances_trans [OF la(5) advances_emit])
    have jh: "advances ?j h" by (rule advances_trans [OF jb bh])
    obtain u where u: "arrives irc (ir_code (g_fun G)) (at G g) s (at G k) u" "ir_regs u r = Some v" "laid P k L" "env_rel u L E"
        "ir_args u = []" "leads k G" "gen_errors G = gen_errors k"
      by (rule expression_part [OF follows 2(2) advances_trans [OF kj jh] leads env v]) auto
    have lead: "leads ?j G" "leads b G"
      using leads_between [OF kj jh leads(1) u(7)] leads_between [OF advances_trans [OF kj jb] bh leads(1) u(7)] by simp_all
    have target: "after_label l (ir_code (g_fun G)) = at G h"
      unfolding 2(6) by (rule after_label_at [OF _ _ _ once]) (use leads(1) 2(6) in simp_all)
    note j = jz_step [OF lead(1) u(2), where irc = irc, unfolded la(1)]
    have laid: "laid P ?j L" using laid_mono [OF u(3) kj] la(6) by simp
    have "flows irc G k u L h fl"
    proof (cases "v = 0")
      case True
      then have "fl = Goes_on E" using fl 2(1) by simp
      then show ?thesis using j(2) [OF True target] u(4,5) by auto
    next
      case False
      have err: "gen_errors G = gen_errors ?j" using lead(1) by (simp add: leads_def)
      have "flows irc G ?j u L b fl"
        using branch_simulated [OF t sc(1,3) 2(5) lead(2) err laid u(4,5)] fl False by simp
      then have "flows irc G ?j u L h fl"
        using flows_after label_step leads(1) unfolding 2(6) by blast
      then show ?thesis by (rule flows_before [OF j(1) [OF False]])
    qed
    then show ?thesis by (rule flows_before [OF u(1)])
  next
    case (3 r k ty l a m b p q)
    let ?j = "g_emit (jump_to IR_JZ ty r l) b" and ?x = "g_emit (jump_to IR_JMP TYPE_VOID 0 m) p"
    let ?y = "g_emit (jump_to IR_LABEL TYPE_VOID 0 l) ?x"
    note la = label_facts [OF 3(4)] and lb = label_facts [OF 3(5)]
    have kj: "advances k ?j" by (rule advances_trans [OF advances_trans [OF la(5) lb(5)] advances_emit])
    have jp: "advances ?j p" by (rule statement_advances [OF 3(6)])
    have px: "advances p ?x" and xy: "advances ?x ?y" by (rule advances_emit)+
    have yq: "advances ?y q" by (rule statement_advances [OF 3(7)])
    have qh: "advances q h" unfolding 3(8) by (rule advances_emit)
    have xh: "advances ?x h" and yh: "advances ?y h" using advances_trans [OF xy advances_trans [OF yq qh]] advances_trans [OF yq qh] by simp_all
    have ph: "advances p h" and jh: "advances ?j h" using advances_trans [OF px xh] advances_trans [OF jp advances_trans [OF px xh]] by simp_all
    obtain u where u: "arrives irc (ir_code (g_fun G)) (at G g) s (at G k) u" "ir_regs u r = Some v" "laid P k L" "env_rel u L E"
        "ir_args u = []" "leads k G" "gen_errors G = gen_errors k"
      by (rule expression_part [OF follows 3(2) advances_trans [OF kj jh] leads env v]) auto
    note kx = advances_trans [OF advances_trans [OF kj jp] px]
    have lead: "leads ?j G" "leads p G" "leads ?x G" "leads ?y G" "leads q G"
      using leads_between [OF kj jh leads(1) u(7)] leads_between [OF advances_trans [OF kj jp] ph leads(1) u(7)]
        leads_between [OF kx xh leads(1) u(7)] leads_between [OF advances_trans [OF kx xy] yh leads(1) u(7)]
        leads_between [OF advances_trans [OF advances_trans [OF kx xy] yq] qh leads(1) u(7)] by blast+
    have target: "after_label m (ir_code (g_fun G)) = at G h" "after_label l (ir_code (g_fun G)) = at G ?y"
      unfolding 3(8) by (rule after_label_at [OF _ _ _ once], use leads(1) 3(8) lead(4) in simp_all)+
    note j = jz_step [OF lead(1) u(2), where irc = irc, unfolded lb(1) la(1)]
    have laid: "laid P ?j L" using laid_mono [OF u(3) kj] la(6) lb(6) by simp
    have err: "gen_errors G = gen_errors ?j" "gen_errors G = gen_errors ?y" using lead by (simp_all add: leads_def)
    have "flows irc G k u L h fl"
    proof (cases "v = 0")
      case True
      have "keeps_layout P L ?j ?y"
        using lays_out_keeps [OF statement_layout 3(6) sc(3,1)] keeps_layout_emits by blast
      then have laid_y: "laid P ?y L" using laid by (simp add: keeps_layout_def)
      have "flows irc G ?y u L q fl"
        using branch_simulated [OF e sc(2,4) 3(7) lead(5) err(2) laid_y u(4,5)] fl True 3(1) by simp
      then have "flows irc G ?y u L h fl"
        using flows_after label_step leads(1) unfolding 3(8) by blast
      then show ?thesis by (rule flows_before [OF j(2) [OF True target(2)]])
    next
      case False
      have "flows irc G ?j u L p fl"
        using branch_simulated [OF t sc(1,3) 3(6) lead(2) err(1) laid u(4,5)] fl False by simp
      then have "flows irc G ?j u L h fl" by (rule flows_after) (rule goto_step [OF lead(3) target(1)])
      then show ?thesis by (rule flows_before [OF j(1) [OF False]])
    qed
    then show ?thesis by (rule flows_before [OF u(1)])
  qed
qed

text \<open>
  A loop from the position \<open>p\<close> behind its first label: \<open>q\<close> is behind the condition, whose register is \<open>r\<close>, and \<open>u\<close> behind
  the body.
\<close>

lemma loop_simulated:
  assumes follows: "follows callee irc" and once: "once G" and b: "simulated callee irc G b" "\<not> is_decl b" "scoped b"
    and cond: "gen_expression p c = Ret (r, q)" and body: "gen_statement (g_emit (jump_to IR_JZ ty r m) q) b = Ret u"
    and h: "h = g_emit (jump_to IR_LABEL TYPE_VOID 0 m) (g_emit (jump_to IR_JMP TYPE_VOID 0 l) u)"
    and leads: "leads h G" "gen_errors G = gen_errors p" and laid: "laid P p L" and start: "after_label l (ir_code (g_fun G)) = at G p"
  shows "source_exec callee n E (AstWhile i c b) = Ret fl \<Longrightarrow> env_rel s L E \<Longrightarrow> ir_args s = [] \<Longrightarrow> flows irc G p s L h fl"
proof (induction n arbitrary: s E)
  case (Suc n)
  let ?j = "g_emit (jump_to IR_JZ ty r m) q" and ?x = "g_emit (jump_to IR_JMP TYPE_VOID 0 l) u"
  obtain v where v: "source_eval callee E c = Ret v"
      and fl: "(if v = 0 then Ret (Goes_on E) else and_then (source_exec callee n E b) (\<lambda>E. source_exec callee n E (AstWhile i c b))) = Ret fl"
    using Suc.prems(1) by (auto simp: outcome_simps)
  have adv: "advances q ?j" "advances ?j u" "advances u ?x" "advances ?x h"
    unfolding h by (rule advances_emit statement_advances [OF body])+
  note qu = advances_trans [OF adv(1,2)] and uh = advances_trans [OF adv(3,4)]
  obtain t where t: "arrives irc (ir_code (g_fun G)) (at G p) s (at G q) t" "ir_regs t r = Some v" "laid P q L" "env_rel t L E"
      "ir_args t = []" "gen_errors G = gen_errors q"
    by (rule expression_part [OF follows cond advances_trans [OF qu uh] leads laid Suc.prems(2,3) v]) auto
  have lead: "leads ?j G" "leads u G" "leads ?x G"
    using leads_between [OF adv(1) advances_trans [OF adv(2) uh] leads(1) t(6)] leads_between [OF qu uh leads(1) t(6)]
      leads_between [OF advances_trans [OF qu adv(3)] adv(4) leads(1) t(6)] by blast+
  have target: "after_label m (ir_code (g_fun G)) = at G h"
    unfolding h by (rule after_label_at [OF _ _ _ once]) (use leads(1) h in simp_all)
  note j = jz_step [OF lead(1) t(2), where irc = irc]
  have "flows irc G q t L h fl"
  proof (cases "v = 0")
    case True
    then show ?thesis using j(2) [OF True target] t(4,5) fl by auto
  next
    case False
    obtain fl0 where fl0: "source_exec callee n E b = Ret fl0" "and_then (Ret fl0) (\<lambda>E. source_exec callee n E (AstWhile i c b)) = Ret fl"
      using fl False by (auto elim: and_thenE)
    have "gen_errors G = gen_errors ?j" using lead(1) by (simp add: leads_def)
    then have one: "flows irc G ?j t L u fl0"
      using branch_simulated [OF b body lead(2) _ laid_mono [OF t(3) adv(1)] t(4,5) fl0(1)] by simp
    have "flows irc G ?j t L h fl"
      by (rule flows_bind [OF one fl0(2)]) (rule flows_before [OF goto_step [OF lead(3) start] Suc.IH])
    then show ?thesis by (rule flows_before [OF j(1) [OF False]])
  qed
  then show ?case by (rule flows_before [OF t(1)])
qed simp

lemma while_simulated:
  assumes follows: "follows callee irc" and once: "once G"
    and b: "simulated callee irc G b" and gen: "gen_while gen_statement g c b = Ret h"
    and leads: "leads h G" "gen_errors G = gen_errors g" and env: "laid P g L" "env_rel s L E" "ir_args s = []"
    and scoped: "scoped (AstWhile i c b)" and exec: "source_exec callee n E (AstWhile i c b) = Ret fl"
  shows "flows irc G g s L h fl"
proof (rule gen_whileE [OF gen])
  fix l a m k p r q ty
  assume w: "g_label g = (l, a)" "g_label a = (m, k)" "p = g_emit (jump_to IR_LABEL TYPE_VOID 0 l) k" "gen_expression p c = Ret (r, q)"
    "r = 0 \<Longrightarrow> h = q" "r \<noteq> 0 \<Longrightarrow> \<exists>u. gen_statement (g_emit (jump_to IR_JZ ty r m) q) b = Ret u \<and>
      h = g_emit (jump_to IR_LABEL TYPE_VOID 0 m) (g_emit (jump_to IR_JMP TYPE_VOID 0 l) u)"
  note la = label_facts [OF w(1)] and lk = label_facts [OF w(2)] and pq = expression_advances [OF w(4)]
  have gp: "advances g p" unfolding w(3) by (rule advances_trans [OF advances_trans [OF la(5) lk(5)] advances_emit])
  have qh: "advances q h"
    using w(5,6) statement_advances advances_emit advances_trans advances_refl by metis
  have lp: "leads p G" by (rule leads_between [OF gp advances_trans [OF pq qh] leads])
  then have errp: "gen_errors G = gen_errors p" by (simp add: leads_def)
  have laid_p: "laid P p L" using laid_mono [OF env(1) gp] la(6) lk(6) by (simp add: w(3))
  have start: "after_label l (ir_code (g_fun G)) = at G p"
    unfolding w(3) by (rule after_label_at [OF _ _ _ once]) (use lp w(3) in simp_all)
  obtain v where v: "source_eval callee E c = Ret v" using exec by (cases n) (auto simp: outcome_simps)
  have "r \<noteq> 0"
    by (rule expression_part [OF follows w(4) qh leads(1) errp laid_p env(2,3) v])
  then obtain u where u: "gen_statement (g_emit (jump_to IR_JZ ty r m) q) b = Ret u"
      "h = g_emit (jump_to IR_LABEL TYPE_VOID 0 m) (g_emit (jump_to IR_JMP TYPE_VOID 0 l) u)" using w(6) by blast
  have "flows irc G p s L h fl"
    using loop_simulated [OF follows once b _ _ w(4) u leads(1) errp laid_p start exec env(2,3)] scoped by simp
  moreover have "arrives irc (ir_code (g_fun G)) (at G g) s (at G p) s"
    using label_step [of TYPE_VOID 0 l k G irc s] lp la(1) lk(1) by (simp add: w(3))
  ultimately show "flows irc G g s L h fl" by (rule flows_before [rotated])
qed

lemma evaluated_simulated:
  assumes follows: "follows callee irc" and s: "evaluated stm"
  shows "simulated callee irc G stm"
  unfolding simulated_def
proof (intro allI impI)
  fix P g h L s E n fl
  assume gen: "gen_statement g stm = Ret h" and leads: "leads h G" "gen_errors G = gen_errors g"
    and env: "laid P g L" "env_rel s L E" "ir_args s = []" and exec: "source_exec callee n E stm = Ret fl"
  obtain r k where r: "gen_expression g stm = Ret (r, k)" using gen s by (auto simp: evaluated_def outcome_simps)
  then have h: "h = k\<lparr>g_last_reg := r\<rparr>" using gen s by (simp add: evaluated_def)
  obtain v where v: "source_eval callee E stm = Ret v" "fl = Goes_on E" using exec s by (auto simp: evaluated_def outcome_simps)
  have lead: "leads k G" using leads(1) by (simp add: h)
  obtain t where "arrives irc (ir_code (g_fun G)) (at G g) s (at G k) t" "env_rel t L E" "ir_args t = []"
    by (rule expression_part [OF follows r advances_refl lead leads(2) env v(1)])
  then show "flows irc G g s (layout_after g stm L) h fl"
    using s by (auto simp: evaluated_def layout_after_same v(2) h)
qed

theorem statement_simulated:
  assumes follows: "follows callee irc" and once: "once G"
  shows "simulated callee irc G stm"
proof (induction stm)
  case (AstVarDecl i x ty e)
  then show ?case using gen_var_decl_simulated [OF follows] by (auto simp: simulated_def simp del: source_exec.simps)
next
  case (AstAssignment i x e)
  then show ?case using gen_assignment_simulated [OF follows] by (auto simp: simulated_def simp del: source_exec.simps)
next
  case (AstReturn i e)
  then show ?case using gen_return_simulated [OF follows] by (auto simp: simulated_def simp del: source_exec.simps)
next
  case (AstBlock i ss)
  have "list_all (simulated callee irc G) ss" using AstBlock by (simp add: list_all_iff)
  from block_simulated [OF this] show ?case by (auto simp: simulated_def simp del: source_exec.simps)
next
  case (AstIf i c t e)
  from if_simulated [OF follows once AstIf.IH(2,3)] show ?case by (auto simp: simulated_def simp del: source_exec.simps scoped.simps)
next
  case (AstWhile i c b)
  from while_simulated [OF follows once AstWhile.IH(2)] show ?case by (auto simp: simulated_def simp del: source_exec.simps scoped.simps)
next
  case AstNull
  then show ?case by (auto simp: simulated_def intro!: exI)
qed (simp_all add: evaluated_simulated [OF follows])

end
