(* ===== verification/Simulation.thy ===== *)
theory Simulation
  imports Frame IrSemantics
begin

text \<open>
  Selected code simulates intermediate code. \<open>rep\<close> relates the virtual registers and slots of a function
  to the processor's registers and memory, by the final map of the register allocator; each
  instruction that is not a call, a jump or a return keeps the relation and changes memory only in the slots of
  the frame.
\<close>

section \<open>The relation\<close>

text \<open>A map of locations for a function with \<open>S\<close> local variables and \<open>V\<close> virtual registers.\<close>

definition frame_map :: "(nat \<Rightarrow> location) \<Rightarrow> nat \<Rightarrow> nat \<Rightarrow> bool" where
  "frame_map M S V \<longleftrightarrow> S + V < 2 ^ 27 \<and>
     (\<forall>v. M v \<noteq> LOC_NONE \<longrightarrow> placed_at (M v) \<and> v < V) \<and>
     (\<forall>v x. M v = LOC_STACK x \<longrightarrow> x = get_local_offset (S + v)) \<and>
     (\<forall>v w r. M v = LOC_REG r \<and> M w = LOC_REG r \<longrightarrow> v = w)"

definition slot_address :: "u64 \<Rightarrow> nat \<Rightarrow> u64" where
  "slot_address b k = b + scast (get_local_offset k)"

definition rep :: "(nat \<Rightarrow> location) \<Rightarrow> nat \<Rightarrow> u64 \<Rightarrow> ir_state \<Rightarrow> machine \<Rightarrow> bool" where
  "rep M S b st s \<longleftrightarrow> mc_regs s REG_RBP = b \<and>
     (\<forall>v w. M v \<noteq> LOC_NONE \<and> ir_regs st v = Some w \<longrightarrow> loc_value s (M v) = w) \<and>
     (\<forall>k n w. k < S \<and> ir_slots st k = Some (n, w) \<longrightarrow> holds_low n w (load64 (mc_mem s) (slot_address b k)))"

text \<open>What code leaves alone: the stack and frame pointers and all memory but \<open>n\<close> bytes from the slots downwards.\<close>

definition stable :: "nat \<Rightarrow> u64 \<Rightarrow> machine \<Rightarrow> machine \<Rightarrow> bool" where
  "stable n b s t \<longleftrightarrow> mc_regs t REG_RBP = mc_regs s REG_RBP \<and> mc_regs t REG_RSP = mc_regs s REG_RSP \<and>
     (\<forall>a. \<not> below (b - 48) n a \<longrightarrow> mc_mem t a = mc_mem s a)"

lemma stable_trans: "stable n b s t \<Longrightarrow> stable n b t u \<Longrightarrow> stable n b s u"
  by (simp add: stable_def)

lemma stable_mono: "stable m b s t \<Longrightarrow> m \<le> n \<Longrightarrow> stable n b s t"
  by (simp add: stable_def below_def)

lemma stable_agrees: "agrees s t \<Longrightarrow> stable n b s t"
  by (simp add: stable_def agrees_def)

lemma rep_agrees: "rep M S b st s \<Longrightarrow> agrees s t \<Longrightarrow> frame_map M S V \<Longrightarrow> rep M S b st t"
  by (simp add: rep_def agrees_loc frame_map_def) (simp add: agrees_def)

lemma slot_address_eq: "k < 2 ^ 27 \<Longrightarrow> slot_address b k = (b - 48) + of_int (- int (8 * k) - 8)"
  by (simp add: slot_address_def scast_offset sint_local_offset)

lemma slots_disjoint: "j < 2 ^ 27 \<Longrightarrow> k < 2 ^ 27 \<Longrightarrow> j \<noteq> k \<Longrightarrow> apart (slot_address b j) (slot_address b k)"
  unfolding slot_address_eq by (rule apart_offsets) auto

lemma store_in_slot:
  assumes "length bs \<le> 8" "k < n" "n < 2 ^ 27" "\<not> below (b - 48) (8 * n) a"
  shows "store_bytes (slot_address b k) bs m a = m a"
proof -
  have k: "k < 2 ^ 27" using assms(2,3) by simp
  show ?thesis
    unfolding slot_address_eq [OF k] by (rule store_below [OF assms(1) _ _ _ assms(4)]) (use assms in auto)
qed

lemma rep_loc: "rep M S b st s \<Longrightarrow> M v \<noteq> LOC_NONE \<Longrightarrow> ir_regs st v = Some w \<Longrightarrow> loc_value s (M v) = w"
  by (simp add: rep_def)

lemma rep_value: "rep M S b st s \<Longrightarrow> M v \<noteq> LOC_NONE \<Longrightarrow> ir_value st v = Ret w \<Longrightarrow> loc_value s (M v) = w"
  by (simp add: ir_value_def rep_loc split: option.splits)

lemma rep_slot: "rep M S b st s \<Longrightarrow> k < S \<Longrightarrow> ir_slots st k = Some (n, w) \<Longrightarrow> holds_low n w (load64 (mc_mem s) (slot_address b k))"
  by (simp add: rep_def)

text \<open>A virtual register is assigned.\<close>

lemma rep_assign:
  assumes M: "frame_map M S V" and rep: "rep M S b st s" and v: "M v \<noteq> LOC_NONE"
  shows "rep M S b (set_vreg v w st) (set_loc (M v) w s)" "stable (8 * (S + V)) b s (set_loc (M v) w s)"
proof -
  have b: "mc_regs s REG_RBP = b" using rep by (simp add: rep_def)
  have p: "placed_at (M v)" "v < V" "S + V < 2 ^ 27" using M v by (simp_all add: frame_map_def)
  have "rep M S b (set_vreg v w st) (set_loc (M v) w s) \<and> stable (8 * (S + V)) b s (set_loc (M v) w s)"
  proof (cases "M v")
    case (LOC_REG r)
    have r: "r \<in> {REG_RBX, REG_R12, REG_R13, REG_R14, REG_R15}" using p(1) by (simp add: LOC_REG)
    have "loc_value (set_reg r w s) (M u) = z" if u: "M u \<noteq> LOC_NONE" "ir_regs (set_vreg v w st) u = Some z" for u z
    proof (cases "u = v")
      case False
      then have "M u \<noteq> LOC_REG r" using M LOC_REG unfolding frame_map_def by blast
      then have "loc_value (set_reg r w s) (M u) = loc_value s (M u)"
        using r by (cases "M u") (auto simp: address_def)
      then show ?thesis using rep_loc [OF rep u(1)] u(2) False by (simp add: set_vreg_def)
    qed (use u(2) in \<open>simp add: LOC_REG set_vreg_def\<close>)
    then show ?thesis using rep r by (auto simp: rep_def stable_def LOC_REG set_vreg_def)
  next
    case (LOC_STACK x)
    have x: "address s REG_RBP x = slot_address b (S + v)"
      using M LOC_STACK by (simp add: frame_map_def address_def b slot_address_def)
    let ?t = "set_loc (M v) w s"
    have t: "?t = set_mem (store64 (slot_address b (S + v)) w (mc_mem s)) s" by (simp add: LOC_STACK x)
    have other: "load64 (mc_mem ?t) (slot_address b k) = load64 (mc_mem s) (slot_address b k)" if "k \<noteq> S + v" "k < S + V" for k
      using that p slots_disjoint [of "S + v" k b] by (simp add: t load64_store)
    have "loc_value ?t (M u) = z" if u: "M u \<noteq> LOC_NONE" "ir_regs (set_vreg v w st) u = Some z" for u z
    proof (cases "M u")
      case (LOC_REG r)
      then have "u \<noteq> v" using LOC_STACK by auto
      then show ?thesis using rep_loc [OF rep u(1)] u(2) by (simp add: LOC_REG t set_vreg_def)
    next
      case y: (LOC_STACK y)
      have "y = get_local_offset (S + u)" "u < V" using M u(1) y by (auto simp: frame_map_def)
      then have y': "loc_value z (M u) = load64 (mc_mem z) (slot_address b (S + u))" if "mc_regs z REG_RBP = b" for z
        using that by (simp add: y address_def slot_address_def)
      show ?thesis
      proof (cases "u = v")
        case True
        have "loc_value ?t (M u) = w" using y' [of ?t] b True by (simp add: t load64_store)
        then show ?thesis using u(2) True by (simp add: set_vreg_def)
      next
        case False
        then show ?thesis
          using rep_loc [OF rep u(1)] u(2) other [of "S + u"] \<open>u < V\<close> y' [of s] y' [of ?t] b by (simp add: set_vreg_def t)
      qed
    next
      case (LOC_CONST i)
      moreover have "placed_at (M u)" using M u(1) unfolding frame_map_def by blast
      ultimately show ?thesis by simp
    qed (use u(1) in simp)
    moreover have "stable (8 * (S + V)) b s ?t"
      using store_in_slot [of "le64 w" "S + v" "S + V" b _ "mc_mem s"] p by (simp add: stable_def t store64_def)
    ultimately show ?thesis
      using rep other p(2) by (auto simp: rep_def t set_vreg_def)
  qed (use p in auto)
  then show "rep M S b (set_vreg v w st) (set_loc (M v) w s)" "stable (8 * (S + V)) b s (set_loc (M v) w s)" by auto
qed

section \<open>Local variables\<close>

lemma exec_load_sized:
  "exec (load_sized d x n) s = Ret (set_reg d (slot_load n (load64 (mc_mem s) (address s REG_RBP x))) s)"
  by (simp add: load_sized_def slot_load_def load_parts [symmetric])

lemma exec_store_sized:
  obtains m where "exec (store_sized x r n) s = Ret (set_mem m s)"
    "load64 m (address s REG_RBP x) = slot_store n (mc_regs s r) (load64 (mc_mem s) (address s REG_RBP x))"
    "\<And>a. apart (address s REG_RBP x) a \<Longrightarrow> load64 m a = load64 (mc_mem s) a"
    "\<And>a bs. \<exists>bs. length bs \<le> 8 \<and> m = store_bytes (address s REG_RBP x) bs (mc_mem s)"
proof -
  let ?a = "address s REG_RBP x" and ?v = "mc_regs s r"
  consider "n = 1" | "n = 4" | "n \<noteq> 1" "n \<noteq> 4" by blast
  then show thesis
  proof cases
    case 1
    have "\<exists>bs. length bs \<le> 8 \<and> store8 ?a (ucast ?v) (mc_mem s) = store_bytes ?a bs (mc_mem s)"
      unfolding store8_def by (rule exI [of _ "[ucast ?v]"]) simp
    then show thesis
      using that [of "store8 ?a (ucast ?v) (mc_mem s)"] 1 by (simp add: store_sized_def slot_store_def store_parts load64_store)
  next
    case 2
    have "\<exists>bs. length bs \<le> 8 \<and> store32 ?a (ucast ?v) (mc_mem s) = store_bytes ?a bs (mc_mem s)"
      unfolding store32_def by (rule exI [of _ "le32 (ucast ?v)"]) simp
    then show thesis
      using that [of "store32 ?a (ucast ?v) (mc_mem s)"] 2 by (simp add: store_sized_def slot_store_def store_parts load64_store)
  next
    case 3
    have "\<exists>bs. length bs \<le> 8 \<and> store64 ?a ?v (mc_mem s) = store_bytes ?a bs (mc_mem s)"
      unfolding store64_def by (rule exI [of _ "le64 ?v"]) simp
    then show thesis
      using that [of "store64 ?a ?v (mc_mem s)"] 3 by (simp add: store_sized_def slot_store_def load64_store)
  qed
qed

text \<open>A local variable is assigned.\<close>

lemma rep_store:
  assumes M: "frame_map M S V" and rep: "rep M S b st s" and k: "k < S"
  shows "\<exists>t. exec (store_sized (get_local_offset k) r n) s = Ret t \<and> stable (8 * (S + V)) b s t \<and>
    rep M S b (set_slot k n (mc_regs s r) st) t"
proof -
  have b: "mc_regs s REG_RBP = b" using rep by (simp add: rep_def)
  have SV: "S + V < 2 ^ 27" using M by (simp add: frame_map_def)
  have a: "address s REG_RBP (get_local_offset k) = slot_address b k" by (simp add: address_def b slot_address_def)
  obtain m where m: "exec (store_sized (get_local_offset k) r n) s = Ret (set_mem m s)"
      "load64 m (slot_address b k) = slot_store n (mc_regs s r) (load64 (mc_mem s) (slot_address b k))"
      "\<And>a. apart (slot_address b k) a \<Longrightarrow> load64 m a = load64 (mc_mem s) a"
      "\<exists>bs. length bs \<le> 8 \<and> m = store_bytes (slot_address b k) bs (mc_mem s)"
    using exec_store_sized [of "get_local_offset k" r n s] unfolding a by metis
  have other: "load64 m (slot_address b j) = load64 (mc_mem s) (slot_address b j)" if "j \<noteq> k" "j < S + V" for j
    using that k SV by (intro m(3) slots_disjoint) auto
  have "loc_value (set_mem m s) (M v) = w" if v: "M v \<noteq> LOC_NONE" "ir_regs st v = Some w" for v w
  proof (cases "M v")
    case (LOC_STACK x)
    then have "x = get_local_offset (S + v)" "v < V" using M v(1) by (auto simp: frame_map_def)
    then have "loc_value (set_mem m s) (M v) = loc_value s (M v)"
      using other [of "S + v"] k by (simp add: LOC_STACK address_def b slot_address_def)
    then show ?thesis using rep_loc [OF rep v] by simp
  qed (use rep_loc [OF rep v] v in simp_all)
  moreover have "stable (8 * (S + V)) b s (set_mem m s)"
    using m(4) store_in_slot [of _ k "S + V" b _ "mc_mem s"] k SV by (auto simp: stable_def)
  ultimately show ?thesis
    using m(1,2) other rep slot_store_low by (auto simp: rep_def set_slot_def)
qed

section \<open>Instructions\<close>

text \<open>
  The code of an instruction over a fixed map of locations: what \<open>select\<close> gives when the map
  contains the locations it asks for. \<open>p\<close> are the pending arguments.
\<close>

definition select_at :: "(nat \<Rightarrow> location) \<Rightarrow> nat list \<Rightarrow> instr \<Rightarrow> item list" where
  "select_at M p i =
     (let d = M (in_dest i); x = M (in_src1 i); y = M (in_src2 i) in
      if is_binary (in_op i) then map Op (select_binary (in_op i) x y @ store_sel d REG_RAX)
      else if in_op i \<in> {IR_NEG, IR_NOT, IR_BNOT} then
        map Op (load_sel REG_RAX x @ select_unary (in_op i) @ store_sel d REG_RAX)
      else if in_op i = IR_MOV then
        (if d = x \<and> is_reg d then [] else map Op (load_sel REG_RAX x @ store_sel d REG_RAX))
      else if in_op i = IR_CONST then map Op (MovImm REG_RAX (of_int (in_imm i)) # store_sel d REG_RAX)
      else if in_op i = IR_LOAD then
        map Op (load_sized (operand_reg REG_RAX d) (get_local_offset (in_src1 i)) (type_size (in_type i)) #
                (if is_reg d then [] else store_sel d REG_RAX))
      else if in_op i = IR_STORE then
        map Op (operand_sel REG_RAX x @ [store_sized (get_local_offset (in_dest i)) (operand_reg REG_RAX x) (type_size (in_type i))])
      else if in_op i = IR_ARG then []
      else if in_op i = IR_LABEL then (if in_label i < MAX_LABELS then [Mark (in_label i)] else [])
      else if in_op i = IR_JMP then [Jump None (in_label i)]
      else if in_op i = IR_CALL then call_sel (in_func i) (length p) (map M (rev (drop 6 p))) (map M (rev (take 6 p))) d
      else if in_op i = IR_RET then map Op (load_sel REG_RAX x @ epilogue)
      else
        map Op (operand_sel REG_RAX x @
          [if is_reg x then TestRR (operand_reg REG_RAX x) (operand_reg REG_RAX x) else AluImm8 A_Cmp REG_RAX 0]) @
        [Jump (Some (if in_op i = IR_JZ then CC_E else CC_NE)) (in_label i)])"

text \<open>The virtual registers an instruction asks the allocator for.\<close>

definition operands :: "nat list \<Rightarrow> instr \<Rightarrow> nat set" where
  "operands p i =
     (if is_binary (in_op i) then {in_dest i, in_src1 i, in_src2 i}
      else if in_op i \<in> {IR_NEG, IR_NOT, IR_BNOT, IR_MOV} then {in_dest i, in_src1 i}
      else if in_op i \<in> {IR_CONST, IR_LOAD} then {in_dest i}
      else if in_op i \<in> {IR_STORE, IR_RET, IR_JZ, IR_JNZ} then {in_src1 i}
      else if in_op i = IR_CALL then insert (in_dest i) (set p) else {})"

text \<open>Instructions without control flow, calls and arguments.\<close>

definition straight :: "opcode \<Rightarrow> bool" where
  "straight op \<longleftrightarrow> op \<notin> {IR_ARG, IR_LABEL, IR_JMP, IR_JZ, IR_JNZ, IR_CALL, IR_RET}"

lemma exec_unary:
  "op \<in> {IR_NEG, IR_NOT, IR_BNOT} \<Longrightarrow>
   \<exists>t. exec_all (select_unary op) s = Ret t \<and> agrees s t \<and> mc_regs t REG_RAX = unary_value op (mc_regs s REG_RAX)"
  using sub_conditions(1) [of "mc_regs s REG_RAX" 0]
  by (auto simp: exec_alu_def truth_byte truth_def)

text \<open>A value in \<open>rax\<close> is stored in the location of its virtual register.\<close>

lemma finish_in_rax:
  assumes M: "frame_map M S V" and rep: "rep M S b st s" and v: "M v \<noteq> LOC_NONE" and t: "agrees s t" "mc_regs t REG_RAX = w"
  shows "\<exists>u. exec_all (store_sel (M v) REG_RAX) t = Ret u \<and> rep M S b (set_vreg v w st) u \<and> stable (8 * (S + V)) b s u"
proof -
  have "placed_at (M v)" using M v by (simp add: frame_map_def)
  note e = exec_store_sel [OF this, of REG_RAX t]
  note r = rep_assign [OF M rep_agrees [OF rep t(1) M] v, of w]
  show ?thesis
    using e r stable_trans [OF stable_agrees [OF t(1)]] by (simp add: t(2))
qed

text \<open>What the code of a straight instruction does, compared with the instruction.\<close>

definition matches :: "(nat \<Rightarrow> location) \<Rightarrow> nat \<Rightarrow> nat \<Rightarrow> u64 \<Rightarrow> machine \<Rightarrow> ir_state outcome \<Rightarrow> machine outcome \<Rightarrow> bool" where
  "matches M S V b s m r \<longleftrightarrow>
     (case m of Ret st \<Rightarrow> \<exists>t. r = Ret t \<and> rep M S b st t \<and> stable (8 * (S + V)) b s t | Fault e \<Rightarrow> e = Trap \<longrightarrow> r = Fault Trap | Timeout \<Rightarrow> False)"

lemma matches_rax:
  assumes "frame_map M S V" "rep M S b st s" "M v \<noteq> LOC_NONE" "leaves s m w"
  shows "matches M S V b s (obind w (\<lambda>w. Ret (set_vreg v w st))) (obind m (exec_all (store_sel (M v) REG_RAX)))"
  using assms(4) finish_in_rax [OF assms(1-3)]
  by (cases w) (auto simp: leaves_def matches_def)

end
