(* ===== verification/SimStep.thy ===== *)
theory SimStep
  imports Simulation
begin

text \<open>One instruction that neither jumps nor calls, and the code selected for it.\<close>

lemma is_regD: "is_reg l \<Longrightarrow> \<exists>r. l = LOC_REG r"
  by (cases l) auto

lemma ir_step_straight:
  "straight (in_op i) \<Longrightarrow> ir_step callee prog i rest st = obind (ir_effect i st) (\<lambda>st. Ret (Continue rest st))"
  by (cases "in_op i") (simp_all add: straight_def ir_step_def Let_def)

lemma ir_effect_binary:
  "is_binary (in_op i) \<Longrightarrow> ir_effect i st =
     obind (ir_value st (in_src1 i)) (\<lambda>a. obind (ir_value st (in_src2 i)) (\<lambda>b. obind (binary_value (in_op i) a b) (\<lambda>w. Ret (set_vreg (in_dest i) w st))))"
  by (cases "in_op i") (simp_all add: is_binary_def ir_effect_def Let_def)

lemma ir_effect_unary:
  "op \<in> {IR_NEG, IR_NOT, IR_BNOT} \<Longrightarrow> in_op i = op \<Longrightarrow> ir_effect i st =
     obind (ir_value st (in_src1 i)) (\<lambda>a. Ret (set_vreg (in_dest i) (unary_value op a) st))"
  by (auto simp: ir_effect_def Let_def)

lemma ir_effect_args: "ir_effect i st = Ret st' \<Longrightarrow> ir_args st' = ir_args st"
  by (cases "in_op i") (auto simp: ir_effect_def set_vreg_def set_slot_def Let_def outcome_simps)

text \<open>An instruction that reads something undefined is not compared with its code.\<close>

lemma matches_undefined [simp]: "matches M S V b s (Fault Undefined) r"
  by (simp add: matches_def)

lemma matches_value:
  "(\<And>w. ir_value st v = Ret w \<Longrightarrow> matches M S V b s (k w) r) \<Longrightarrow> matches M S V b s (obind (ir_value st v) k) r"
  by (cases "ir_regs st v") (simp_all add: ir_value_def)

section \<open>Register instructions\<close>

text \<open>Code that computes a value in \<open>rax\<close> and stores it.\<close>

lemma rax_step:
  assumes M: "frame_map M S V" and rep: "rep M S b st s" and d: "M v \<noteq> LOC_NONE" and w: "leaves s (exec_all ys s) w"
  shows "matches M S V b s (obind w (\<lambda>w. Ret (set_vreg v w st))) (exec_all (ys @ store_sel (M v) REG_RAX) s)"
  using matches_rax [OF M rep d w] by (simp add: exec_all_append)

lemma binary_step:
  assumes M: "frame_map M S V" and rep: "rep M S b st s" and op: "is_binary (in_op i)" and ops: "\<forall>v\<in>operands [] i. M v \<noteq> LOC_NONE"
  shows "\<exists>xs. select_at M p i = map Op xs \<and> matches M S V b s (ir_effect i st) (exec_all xs s)"
proof -
  let ?x = "M (in_src1 i)" and ?y = "M (in_src2 i)"
  have o: "M (in_dest i) \<noteq> LOC_NONE" "?x \<noteq> LOC_NONE" "?y \<noteq> LOC_NONE" using ops op by (auto simp: operands_def)
  then have "placed_at ?x" "placed_at ?y" using M by (simp_all add: frame_map_def)
  note l = select_binary_leaves [OF this op, of s]
  have "matches M S V b s (ir_effect i st) (exec_all (select_binary (in_op i) ?x ?y @ store_sel (M (in_dest i)) REG_RAX) s)"
    unfolding ir_effect_binary [OF op]
  proof (rule matches_value, rule matches_value)
    fix u w assume "ir_value st (in_src1 i) = Ret u" "ir_value st (in_src2 i) = Ret w"
    then have "loc_value s ?x = u" "loc_value s ?y = w" using rep_value [OF rep] o by auto
    then show "matches M S V b s (obind (binary_value (in_op i) u w) (\<lambda>w. Ret (set_vreg (in_dest i) w st)))
        (exec_all (select_binary (in_op i) ?x ?y @ store_sel (M (in_dest i)) REG_RAX) s)"
      using rax_step [OF M rep o(1) l] by simp
  qed
  then show ?thesis
    using op by (intro exI [of _ "select_binary (in_op i) ?x ?y @ store_sel (M (in_dest i)) REG_RAX"]) (simp add: select_at_def)
qed

lemma unary_step:
  assumes M: "frame_map M S V" and rep: "rep M S b st s" and op: "in_op i \<in> {IR_NEG, IR_NOT, IR_BNOT}" and ops: "\<forall>v\<in>operands [] i. M v \<noteq> LOC_NONE"
  shows "\<exists>xs. select_at M p i = map Op xs \<and> matches M S V b s (ir_effect i st) (exec_all xs s)"
proof -
  let ?x = "M (in_src1 i)"
  have o: "M (in_dest i) \<noteq> LOC_NONE" "?x \<noteq> LOC_NONE" using ops op by (auto simp: operands_def is_binary_def)
  then have x: "placed_at ?x" using M by (simp add: frame_map_def)
  have l: "leaves s (exec_all (load_sel REG_RAX ?x @ select_unary (in_op i)) s) (Ret (unary_value (in_op i) (loc_value s ?x)))"
    using exec_unary [OF op, of "set_reg REG_RAX (loc_value s ?x) s"]
    by (auto simp: exec_all_append exec_load_sel [OF x] simp del: unary_value.simps) (auto simp: agrees_def)
  have "matches M S V b s (ir_effect i st) (exec_all ((load_sel REG_RAX ?x @ select_unary (in_op i)) @ store_sel (M (in_dest i)) REG_RAX) s)"
    unfolding ir_effect_unary [OF op refl]
  proof (rule matches_value)
    fix u assume "ir_value st (in_src1 i) = Ret u"
    then have "loc_value s ?x = u" using rep_value [OF rep] o by auto
    then show "matches M S V b s (Ret (set_vreg (in_dest i) (unary_value (in_op i) u) st))
        (exec_all ((load_sel REG_RAX ?x @ select_unary (in_op i)) @ store_sel (M (in_dest i)) REG_RAX) s)"
      using rax_step [OF M rep o(1) l] by simp
  qed
  then show ?thesis
    using op by (intro exI [of _ "(load_sel REG_RAX ?x @ select_unary (in_op i)) @ store_sel (M (in_dest i)) REG_RAX"])
      (auto simp: select_at_def is_binary_def)
qed

lemma move_step:
  assumes M: "frame_map M S V" and rep: "rep M S b st s" and op: "in_op i = IR_MOV" and ops: "\<forall>v\<in>operands [] i. M v \<noteq> LOC_NONE"
  shows "\<exists>xs. select_at M p i = map Op xs \<and> matches M S V b s (ir_effect i st) (exec_all xs s)"
proof -
  let ?d = "M (in_dest i)" and ?x = "M (in_src1 i)"
  have o: "?d \<noteq> LOC_NONE" "?x \<noteq> LOC_NONE" using ops op by (auto simp: operands_def is_binary_def)
  then have x: "placed_at ?x" using M by (simp add: frame_map_def)
  have eff: "ir_effect i st = obind (ir_value st (in_src1 i)) (\<lambda>a. Ret (set_vreg (in_dest i) a st))"
    by (simp add: ir_effect_def op Let_def)
  show ?thesis
  proof (cases "?d = ?x \<and> is_reg ?d")
    case True
    then obtain r where "?d = LOC_REG r" using is_regD by blast
    then have "?d = LOC_REG r" "?x = LOC_REG r" using True by simp_all
    then have same: "in_dest i = in_src1 i" using M unfolding frame_map_def by blast
    have "matches M S V b s (ir_effect i st) (exec_all [] s)"
      unfolding eff
    proof (rule matches_value)
      fix w assume "ir_value st (in_src1 i) = Ret w"
      then have "set_vreg (in_dest i) w st = st"
        by (cases st) (auto simp: set_vreg_def ir_value_def same split: option.splits)
      then show "matches M S V b s (Ret (set_vreg (in_dest i) w st)) (exec_all [] s)"
        using rep by (simp add: matches_def stable_def)
    qed
    moreover have "is_reg ?x" "?d = ?x" using True by metis+
    then have "select_at M p i = []" by (simp add: select_at_def is_binary_def Let_def op)
    ultimately show ?thesis by (intro exI [of _ "[]"]) simp
  next
    case False
    have l: "leaves s (exec_all (load_sel REG_RAX ?x) s) (Ret (loc_value s ?x))" by (simp add: exec_load_sel [OF x])
    have "matches M S V b s (ir_effect i st) (exec_all (load_sel REG_RAX ?x @ store_sel ?d REG_RAX) s)"
      unfolding eff
    proof (rule matches_value)
      fix w assume "ir_value st (in_src1 i) = Ret w"
      then have "loc_value s ?x = w" using rep_value [OF rep] o by auto
      then show "matches M S V b s (Ret (set_vreg (in_dest i) w st)) (exec_all (load_sel REG_RAX ?x @ store_sel ?d REG_RAX) s)"
        using rax_step [OF M rep o(1) l] by simp
    qed
    then show ?thesis
      using False op by (intro exI [of _ "load_sel REG_RAX ?x @ store_sel ?d REG_RAX"]) (auto simp: select_at_def is_binary_def Let_def)
  qed
qed

lemma const_step:
  assumes M: "frame_map M S V" and rep: "rep M S b st s" and op: "in_op i = IR_CONST" and ops: "\<forall>v\<in>operands [] i. M v \<noteq> LOC_NONE"
  shows "\<exists>xs. select_at M p i = map Op xs \<and> matches M S V b s (ir_effect i st) (exec_all xs s)"
proof -
  have o: "M (in_dest i) \<noteq> LOC_NONE" using ops op by (auto simp: operands_def is_binary_def)
  have l: "leaves s (exec_all [MovImm REG_RAX (of_int (in_imm i))] s) (Ret (of_int (in_imm i)))" by simp
  show ?thesis
    using rax_step [OF M rep o l] op
    by (intro exI [of _ "[MovImm REG_RAX (of_int (in_imm i))] @ store_sel (M (in_dest i)) REG_RAX"])
      (simp add: select_at_def is_binary_def Let_def ir_effect_def)
qed

section \<open>Memory instructions\<close>

lemma load_step:
  assumes M: "frame_map M S V" and rep: "rep M S b st s" and op: "in_op i = IR_LOAD" and ops: "\<forall>v\<in>operands [] i. M v \<noteq> LOC_NONE"
    and k: "in_src1 i < S"
  shows "\<exists>xs. select_at M p i = map Op xs \<and> matches M S V b s (ir_effect i st) (exec_all xs s)"
proof -
  let ?n = "type_size (in_type i)" and ?k = "in_src1 i" and ?d = "M (in_dest i)"
  let ?w = "slot_load ?n (load64 (mc_mem s) (slot_address b ?k))"
  let ?xs = "load_sized (operand_reg REG_RAX ?d) (get_local_offset ?k) ?n # (if is_reg ?d then [] else store_sel ?d REG_RAX)"
  have o: "?d \<noteq> LOC_NONE" using ops op by (auto simp: operands_def is_binary_def)
  have b: "address s REG_RBP (get_local_offset ?k) = slot_address b ?k" using rep by (simp add: rep_def address_def slot_address_def)
  have "matches M S V b s (Ret (set_vreg (in_dest i) ?w st)) (exec_all ?xs s)"
  proof (cases "is_reg ?d")
    case True
    then obtain r where "?d = LOC_REG r" using is_regD by blast
    then show ?thesis
      using rep_assign [OF M rep o, of ?w] by (simp add: exec_load_sized b matches_def operand_reg_def del: exec.simps)
  next
    case False
    then have r: "operand_reg REG_RAX ?d = REG_RAX" by (cases ?d) (auto simp: operand_reg_def)
    have l: "leaves s (exec_all [load_sized REG_RAX (get_local_offset ?k) ?n] s) (Ret ?w)" by (simp add: exec_load_sized b del: exec.simps)
    show ?thesis using rax_step [OF M rep o l] False by (simp add: r del: exec.simps)
  qed
  moreover have "?w = w" if "ir_load st ?k ?n = Ret w" for w
    using that rep_slot [OF rep k] slot_load_low by (auto simp: ir_load_def split: option.splits if_splits)
  ultimately have "matches M S V b s (ir_effect i st) (exec_all ?xs s)"
    by (cases "ir_load st ?k ?n") (auto simp: ir_effect_def op ir_load_def split: option.splits if_splits)
  then show ?thesis using op by (intro exI [of _ ?xs]) (simp add: select_at_def is_binary_def Let_def)
qed

lemma store_step:
  assumes M: "frame_map M S V" and rep: "rep M S b st s" and op: "in_op i = IR_STORE" and ops: "\<forall>v\<in>operands [] i. M v \<noteq> LOC_NONE"
    and k: "in_dest i < S"
  shows "\<exists>xs. select_at M p i = map Op xs \<and> matches M S V b s (ir_effect i st) (exec_all xs s)"
proof -
  let ?n = "type_size (in_type i)" and ?k = "in_dest i" and ?x = "M (in_src1 i)"
  let ?s = "if is_reg ?x then s else set_reg REG_RAX (loc_value s ?x) s"
  let ?xs = "operand_sel REG_RAX ?x @ [store_sized (get_local_offset ?k) (operand_reg REG_RAX ?x) ?n]"
  have o: "?x \<noteq> LOC_NONE" using ops op by (auto simp: operands_def is_binary_def)
  then have x: "placed_at ?x" using M by (simp add: frame_map_def)
  have s': "rep M S b st ?s" "agrees s ?s" using rep rep_agrees [OF rep _ M, of ?s] by auto
  have "matches M S V b s (obind (ir_value st (in_src1 i)) (\<lambda>a. Ret (set_slot ?k ?n a st))) (exec_all ?xs s)"
  proof (rule matches_value)
    fix w assume w: "ir_value st (in_src1 i) = Ret w"
    have v: "mc_regs ?s (operand_reg REG_RAX ?x) = w"
      using exec_operand_sel(2) [OF x, of s REG_RAX] rep_value [OF rep o w] by simp
    obtain t where t: "exec (store_sized (get_local_offset ?k) (operand_reg REG_RAX ?x) ?n) ?s = Ret t" "stable (8 * (S + V)) b ?s t"
        "rep M S b (set_slot ?k ?n w st) t"
      using rep_store [OF M s'(1) k, of "operand_reg REG_RAX ?x" ?n] unfolding v by blast
    have "exec_all ?xs s = Ret t"
      unfolding exec_all_append exec_operand_sel(1) [OF x] by (simp add: t(1) del: exec.simps)
    then show "matches M S V b s (Ret (set_slot ?k ?n w st)) (exec_all ?xs s)"
      using t(3) stable_trans [OF stable_agrees [OF s'(2)] t(2)] by (simp add: matches_def)
  qed
  then show ?thesis using op by (intro exI [of _ ?xs]) (simp add: select_at_def is_binary_def Let_def ir_effect_def)
qed

section \<open>All of them\<close>

theorem straight_step:
  assumes M: "frame_map M S V" and rep: "rep M S b st s" and op: "straight (in_op i)" and ops: "\<forall>v\<in>operands [] i. M v \<noteq> LOC_NONE"
    and slots: "in_op i = IR_LOAD \<Longrightarrow> in_src1 i < S" "in_op i = IR_STORE \<Longrightarrow> in_dest i < S"
  shows "\<exists>xs. select_at M p i = map Op xs \<and> matches M S V b s (ir_effect i st) (exec_all xs s)"
proof -
  consider "is_binary (in_op i)" | "in_op i \<in> {IR_NEG, IR_NOT, IR_BNOT}" | "in_op i = IR_MOV" | "in_op i = IR_CONST"
    | "in_op i = IR_LOAD" | "in_op i = IR_STORE"
    using op by (cases "in_op i") (auto simp: straight_def is_binary_def)
  then show ?thesis
    using binary_step [OF M rep _ ops] unary_step [OF M rep _ ops] move_step [OF M rep _ ops] const_step [OF M rep _ ops]
      load_step [OF M rep _ ops] store_step [OF M rep _ ops] slots
    by cases auto
qed

end
