(* ===== verification/CodeMap.thy ===== *)
theory CodeMap
  imports Simulation IrCalls
begin

text \<open>
  The code of a whole function over the final map of its register allocator, \<open>code_at\<close>: what
  selection produces one instruction after the other, with the allocator changing on the way.
\<close>

section \<open>Locations in the final map\<close>

lemma alloc_le_map: "alloc_le b c \<Longrightarrow> al_map b v \<noteq> LOC_NONE \<Longrightarrow> al_map c v = al_map b v"
  by (simp add: alloc_le_def)

lemma al_locations_final:
  assumes "alloc_ok a" "al_locations a vs = Ret (ls, b)" "alloc_le b c"
  shows "ls = map (al_map c) vs \<and> (\<forall>v\<in>set vs. al_map c v \<noteq> LOC_NONE) \<and> alloc_ok b"
proof -
  note l = al_locations_ok_all [OF assms(1,2)]
  then have "\<forall>v\<in>set vs. al_map b v \<noteq> LOC_NONE" by force
  then show ?thesis using l alloc_le_map [OF assms(3)] by auto
qed

lemma al_location_final:
  assumes "alloc_ok a" "al_location a v = Ret (l, b)" "alloc_le b c"
  shows "l = al_map c v \<and> al_map c v \<noteq> LOC_NONE \<and> alloc_ok b"
  using al_location_ok [OF assms(1,2)] alloc_le_map [OF assms(3), of v] by auto

theorem select_select_at:
  assumes ok: "alloc_ok a" and sel: "select i a = Ret (xs, b)" and le: "alloc_le b c"
  shows "xs = select_at (al_map c) (al_pending a) i" "\<forall>v\<in>operands (al_pending a) i. al_map c v \<noteq> LOC_NONE"
proof -
  let ?M = "al_map c"
  have many: "xs = f (map ?M vs) \<and> (\<forall>v\<in>set vs. ?M v \<noteq> LOC_NONE)"
    if "obind (al_locations a vs) (\<lambda>(ls, a). Ret (f ls, a)) = Ret (xs, b)" for vs f
    using that al_locations_final [OF ok _ le] by (auto simp: outcome_simps)
  have one: "xs = f (?M v) \<and> ?M v \<noteq> LOC_NONE"
    if "obind (al_location a v) (\<lambda>(l, a). Ret (f l, a)) = Ret (xs, b)" for v f
    using that al_location_final [OF ok _ le] by (auto simp: outcome_simps)
  have call: "xs = call_sel f (length (al_pending a)) (map ?M (rev (drop 6 (al_pending a)))) (map ?M (rev (take 6 (al_pending a)))) (?M v) \<and>
      ?M v \<noteq> LOC_NONE \<and> (\<forall>v\<in>set (al_pending a). ?M v \<noteq> LOC_NONE)"
    if call: "obind (al_location a v) (\<lambda>(d, a). obind (al_locations a (rev (drop 6 (al_pending a)))) (\<lambda>(ss, a).
        obind (al_locations a (rev (take 6 (al_pending a)))) (\<lambda>(rs, a).
          Ret (call_sel f (length (al_pending a)) ss rs d, a\<lparr>al_pending := []\<rparr>)))) = Ret (xs, b)" for v f
  proof -
    let ?p = "al_pending a"
    obtain d a1 ss a2 rs a3 where s: "al_location a v = Ret (d, a1)" "al_locations a1 (rev (drop 6 (al_pending a1))) = Ret (ss, a2)"
        "al_locations a2 (rev (take 6 (al_pending a2))) = Ret (rs, a3)" "b = a3\<lparr>al_pending := []\<rparr>"
        "xs = call_sel f (length (al_pending a3)) ss rs d"
      using call by (auto simp: outcome_simps)
    have p: "al_pending a1 = ?p" "al_pending a2 = ?p" "al_pending a3 = ?p"
      using al_location_pending [OF s(1)] al_locations_pending [OF s(2)] al_locations_pending [OF s(3)] by simp_all
    have 1: "alloc_ok a1" using al_location_ok [OF ok s(1)] by simp
    have 2: "alloc_ok a2" "alloc_le a1 a2" using al_locations_ok [OF 1 s(2)] by auto
    have 3: "alloc_le a2 a3" using al_locations_ok [OF 2(1) s(3)] by auto
    have "alloc_le a3 c" using le by (simp add: s(4))
    then have c: "alloc_le a2 c" "alloc_le a1 c" "alloc_le a3 c" using 2 3 alloc_le_trans by blast+
    have "set ?p = set (drop 6 ?p) \<union> set (take 6 ?p)" by (metis append_take_drop_id set_append sup_commute)
    then show ?thesis
      using al_location_final [OF ok s(1) c(2)] al_locations_final [OF 1 s(2) c(1)] al_locations_final [OF 2(1) s(3) c(3)]
      by (auto simp: s(5) p)
  qed
  have "xs = select_at ?M (al_pending a) i \<and> (\<forall>v\<in>operands (al_pending a) i. ?M v \<noteq> LOC_NONE)"
  proof (cases "in_op i = IR_CALL")
    case True
    have e: "obind (al_location a (in_dest i)) (\<lambda>(d, a). obind (al_locations a (rev (drop 6 (al_pending a)))) (\<lambda>(ss, a).
        obind (al_locations a (rev (take 6 (al_pending a)))) (\<lambda>(rs, a).
          Ret (call_sel (in_func i) (length (al_pending a)) ss rs d, a\<lparr>al_pending := []\<rparr>)))) = Ret (xs, b)"
      using sel unfolding select_def by (simp add: True is_binary_def)
    from call [OF this] show ?thesis
      by (simp add: True select_at_def operands_def is_binary_def Let_def)
  next
    case False
    show ?thesis
      using sel False
      by (cases "in_op i") (auto simp: select_def select_at_def operands_def is_binary_def Let_def simp del: al_locations.simps
        dest!: many one split: if_splits)
  qed
  then show "xs = select_at ?M (al_pending a) i" "\<forall>v\<in>operands (al_pending a) i. ?M v \<noteq> LOC_NONE" by auto
qed

section \<open>Code of a list\<close>

fun next_pending :: "nat list \<Rightarrow> instr \<Rightarrow> nat list" where
  "next_pending p i = (if in_op i = IR_ARG then p @ [in_src1 i] else if in_op i = IR_CALL then [] else p)"

fun code_at :: "(nat \<Rightarrow> location) \<Rightarrow> nat list \<Rightarrow> instr list \<Rightarrow> item list" where
  "code_at M p [] = []"
| "code_at M p (i # is) = select_at M p i @ code_at M (next_pending p i) is"

fun located :: "(nat \<Rightarrow> location) \<Rightarrow> nat list \<Rightarrow> instr list \<Rightarrow> bool" where
  "located M p [] \<longleftrightarrow> True"
| "located M p (i # is) \<longleftrightarrow> (\<forall>v\<in>operands p i. M v \<noteq> LOC_NONE) \<and> located M (next_pending p i) is"

lemma select_all_le: "alloc_ok a \<Longrightarrow> select_all is a = Ret (ys, b) \<Longrightarrow> alloc_ok b \<and> alloc_le a b"
proof (induction "is" arbitrary: a ys)
  case (Cons i "is")
  then obtain xs c zs where x: "select i a = Ret (xs, c)" "select_all is c = Ret (zs, b)" by (auto simp: outcome_simps)
  show ?case
    using select_ok [OF Cons.prems(1) x(1)] Cons.IH [OF _ x(2)] alloc_le_trans by blast
qed simp

lemma select_all_code_at:
  "alloc_ok a \<Longrightarrow> select_all is a = Ret (ys, b) \<Longrightarrow> alloc_le b c \<Longrightarrow>
   ys = code_at (al_map c) (al_pending a) is \<and> located (al_map c) (al_pending a) is"
proof (induction "is" arbitrary: a ys)
  case (Cons i "is")
  then obtain xs a1 zs where x: "select i a = Ret (xs, a1)" and r: "select_all is a1 = Ret (zs, b)" and ys: "ys = xs @ zs"
    by (auto simp: outcome_simps)
  have ok: "alloc_ok a1" using select_ok [OF Cons.prems(1) x] by simp
  have le: "alloc_le a1 c" using select_all_le [OF ok r] Cons.prems(3) alloc_le_trans by blast
  have "al_pending a1 = next_pending (al_pending a) i" using select_pending [OF x] by simp
  then show ?case
    using select_select_at [OF Cons.prems(1) x le] Cons.IH [OF ok r Cons.prems(3)] by (simp add: ys)
qed simp

lemma select_params_code:
  "alloc_ok a \<Longrightarrow> select_params n i a = Ret (ps, b) \<Longrightarrow>
   alloc_ok b \<and> alloc_le a b \<and> (\<forall>c. alloc_le b c \<longrightarrow>
     ps = concat (map (\<lambda>j. param_sel j (al_map c (j + 1))) [i..<i + n]) \<and> (\<forall>j\<in>{i..<i + n}. al_map c (j + 1) \<noteq> LOC_NONE))"
proof (induction n arbitrary: i a ps)
  case (Suc n)
  then obtain l a1 qs where l: "al_location a (i + 1) = Ret (l, a1)" and r: "select_params n (i + 1) a1 = Ret (qs, b)"
      and ps: "ps = param_sel i l @ qs"
    by (auto simp: outcome_simps simp del: One_nat_def)
  note k = al_location_ok [OF Suc.prems(1) l]
  note IH = Suc.IH [OF k(1) r]
  have up: "[i..<i + Suc n] = i # [i + 1..<i + 1 + n]" by (simp add: upt_rec)
  have "alloc_le a b" using k(2) IH alloc_le_trans by blast
  moreover have "ps = concat (map (\<lambda>j. param_sel j (al_map c (j + 1))) [i..<i + Suc n]) \<and> (\<forall>j\<in>{i..<i + Suc n}. al_map c (j + 1) \<noteq> LOC_NONE)"
    if c: "alloc_le b c" for c
  proof -
    have le: "alloc_le a1 c" using IH c alloc_le_trans by blast
    have "al_map c (i + 1) = l \<and> l \<noteq> LOC_NONE" using al_location_final [OF Suc.prems(1) l le] by simp
    moreover have "{i..<i + Suc n} = insert i {i + 1..<i + 1 + n}" by auto
    moreover have "qs = concat (map (\<lambda>j. param_sel j (al_map c (j + 1))) [i + 1..<i + 1 + n]) \<and>
        (\<forall>j\<in>{i + 1..<i + 1 + n}. al_map c (j + 1) \<noteq> LOC_NONE)"
      using IH c by blast
    ultimately show ?thesis unfolding up ps by simp
  qed
  ultimately show ?case using IH by blast
qed simp

text \<open>Only operands get a location.\<close>

lemma al_location_dom: "al_location a v = Ret (l, b) \<Longrightarrow> al_map b w \<noteq> LOC_NONE \<Longrightarrow> al_map a w \<noteq> LOC_NONE \<or> w = v"
  by (auto simp: al_location_def al_assign_def Let_def split: if_splits option.splits)

lemma al_locations_dom: "al_locations a vs = Ret (ls, b) \<Longrightarrow> al_map b w \<noteq> LOC_NONE \<Longrightarrow> al_map a w \<noteq> LOC_NONE \<or> w \<in> set vs"
proof (induction vs arbitrary: a ls)
  case (Cons v vs)
  then obtain l a1 ks where "al_location a v = Ret (l, a1)" "al_locations a1 vs = Ret (ks, b)" by (auto simp: outcome_simps)
  then show ?case using Cons.IH [of a1 ks] Cons.prems(2) al_location_dom [of a v l a1 w] by auto
qed simp

lemma select_dom:
  assumes "select i a = Ret (xs, b)" "al_map b w \<noteq> LOC_NONE"
  shows "al_map a w \<noteq> LOC_NONE \<or> w \<in> operands (al_pending a) i"
proof (cases "in_op i = IR_CALL")
  case True
  then obtain d a1 ss a2 rs a3 where s: "al_location a (in_dest i) = Ret (d, a1)" "al_locations a1 (rev (drop 6 (al_pending a1))) = Ret (ss, a2)"
      "al_locations a2 (rev (take 6 (al_pending a2))) = Ret (rs, a3)" "b = a3\<lparr>al_pending := []\<rparr>"
    using assms(1) by (auto simp: select_def is_binary_def outcome_simps)
  have p: "al_pending a1 = al_pending a" "al_pending a2 = al_pending a"
    using al_location_pending [OF s(1)] al_locations_pending [OF s(2)] by simp_all
  have "al_map a3 w \<noteq> LOC_NONE" using assms(2) by (simp add: s(4))
  then show ?thesis
    using al_location_dom [OF s(1), of w] al_locations_dom [OF s(2), of w] al_locations_dom [OF s(3), of w] True
    by (auto simp: operands_def is_binary_def p dest: in_set_dropD in_set_takeD)
next
  case False
  have many: "al_map a w \<noteq> LOC_NONE \<or> w \<in> set vs" if "obind (al_locations a vs) (\<lambda>(ls, a). Ret (f ls, a)) = Ret (xs, b)" for vs f
    using that al_locations_dom [of a vs _ b w] assms(2) by (auto simp: outcome_simps)
  have one: "al_map a w \<noteq> LOC_NONE \<or> w = v" if "obind (al_location a v) (\<lambda>(l, a). Ret (f l, a)) = Ret (xs, b)" for v f
    using that al_location_dom [of a v _ b w] assms(2) by (auto simp: outcome_simps)
  show ?thesis
    using assms False
    by (cases "in_op i") (auto simp: select_def operands_def is_binary_def simp del: al_locations.simps dest!: many one split: if_splits)
qed

lemma operands_small:
  "instr_ok V S0 S L i \<Longrightarrow> \<forall>v\<in>set p. v < V \<Longrightarrow> v \<in> operands p i \<Longrightarrow> v < V"
  by (cases "in_op i") (auto simp: operands_def is_binary_def instr_ok_def Let_def)

lemma select_all_dom:
  "select_all is a = Ret (ys, b) \<Longrightarrow> list_all (instr_ok V S0 S L) is \<Longrightarrow> \<forall>v\<in>set (al_pending a). v < V \<Longrightarrow>
   (\<And>w. al_map a w \<noteq> LOC_NONE \<Longrightarrow> w < V) \<Longrightarrow> al_map b w \<noteq> LOC_NONE \<Longrightarrow> w < V"
proof (induction "is" arbitrary: a ys w)
  case (Cons i "is")
  then obtain xs a1 zs where x: "select i a = Ret (xs, a1)" and r: "select_all is a1 = Ret (zs, b)"
    by (auto simp: outcome_simps)
  have i: "instr_ok V S0 S L i" using Cons.prems(2) by simp
  have p: "\<forall>v\<in>set (al_pending a1). v < V"
    using select_pending [OF x] Cons.prems(3) i by (auto simp: instr_ok_def Let_def)
  have m: "w < V" if "al_map a1 w \<noteq> LOC_NONE" for w
    using select_dom [OF x that] operands_small [OF i Cons.prems(3), of w] Cons.prems(4) by auto
  show ?case using Cons.IH [OF r _ p m Cons.prems(5)] Cons.prems(2) by simp
qed simp

end
