(* ===== verification/ItemMachine.thy ===== *)
theory ItemMachine
  imports Frame
begin

text \<open>
  Running symbolic assembly: the processor of \<open>Processor\<close> with jumps to labels, calls and the return.
  Where functions are and what calling them does are the parameters \<open>entry\<close> and \<open>invoke\<close>, which gets the
  code to return to and the address called; \<open>obeys\<close> is the calling convention of the System V ABI.
\<close>

section \<open>Runs\<close>

definition after_mark :: "nat \<Rightarrow> item list \<Rightarrow> item list" where
  "after_mark l is = tl (dropWhile (\<lambda>i. i \<noteq> Mark l) is)"

text \<open>The result is the code to go on with, or the return address that \<open>ret\<close> has popped.\<close>

fun item_step ::
  "(string \<Rightarrow> u64) \<Rightarrow> (item list \<Rightarrow> u64 \<Rightarrow> machine \<Rightarrow> machine outcome) \<Rightarrow> item list \<Rightarrow> item \<Rightarrow> item list \<Rightarrow> machine \<Rightarrow>
   (item list \<times> machine + u64 \<times> machine) outcome" where
  "item_step entry invoke all (Op x) rest s =
     (case x of
        RetN \<Rightarrow> Ret (Inr (load64 (mc_mem s) (mc_regs s REG_RSP), set_reg REG_RSP (mc_regs s REG_RSP + 8) s))
      | CallR r \<Rightarrow> obind (invoke rest (mc_regs s r) s) (\<lambda>s. Ret (Inl (rest, s)))
      | _ \<Rightarrow> obind (exec x s) (\<lambda>s. Ret (Inl (rest, s))))"
| "item_step entry invoke all (Jump None l) rest s = Ret (Inl (after_mark l all, s))"
| "item_step entry invoke all (Jump (Some c) l) rest s =
     (case mc_flags s of
        None \<Rightarrow> Fault Undefined
      | Some f \<Rightarrow> Ret (Inl (if condition c f then after_mark l all else rest, s)))"
| "item_step entry invoke all (CallTo f) rest s = Ret (Inl (rest, set_reg REG_RAX (entry f) s))"
| "item_step entry invoke all (Mark l) rest s = Ret (Inl (rest, s))"

text \<open>At most \<open>n\<close> steps; a call has the fuel that is left.\<close>

fun item_run ::
  "(string \<Rightarrow> u64) \<Rightarrow> (nat \<Rightarrow> item list \<Rightarrow> u64 \<Rightarrow> machine \<Rightarrow> machine outcome) \<Rightarrow> nat \<Rightarrow> item list \<Rightarrow> item list \<Rightarrow> machine \<Rightarrow>
   (u64 \<times> machine) outcome" where
  "item_run entry invoke 0 all is s = Timeout"
| "item_run entry invoke (Suc n) all [] s = Fault Undefined"
| "item_run entry invoke (Suc n) all (i # is) s =
     obind (item_step entry (invoke n) all i is s) (\<lambda>r.
       case r of Inl (is, s) \<Rightarrow> item_run entry invoke n all is s | Inr r \<Rightarrow> Ret r)"

text \<open>
  \<open>reaches e v all is s js t\<close>: with enough fuel, the run from \<open>s\<close> at \<open>is\<close> goes through \<open>t\<close> at \<open>js\<close>.
\<close>

definition reaches ::
  "(string \<Rightarrow> u64) \<Rightarrow> (nat \<Rightarrow> item list \<Rightarrow> u64 \<Rightarrow> machine \<Rightarrow> machine outcome) \<Rightarrow> item list \<Rightarrow> item list \<Rightarrow> machine \<Rightarrow> item list \<Rightarrow> machine \<Rightarrow> bool" where
  "reaches e v all is s js t \<longleftrightarrow> (\<exists>n m. \<forall>k\<ge>m. item_run e v (n + k) all is s = item_run e v k all js t)"

lemma reaches_refl [simp]: "reaches e v all is s is s"
  unfolding reaches_def by (rule exI [of _ 0]) simp

lemma reaches_trans [trans]: "reaches e v all is s js t \<Longrightarrow> reaches e v all js t ks u \<Longrightarrow> reaches e v all is s ks u"
  unfolding reaches_def
proof (elim exE)
  fix m n m' n'
  assume a: "\<forall>k\<ge>m. item_run e v (n + k) all is s = item_run e v k all js t" "\<forall>k\<ge>m'. item_run e v (n' + k) all js t = item_run e v k all ks u"
  have "item_run e v ((n + n') + k) all is s = item_run e v k all ks u" if "m + m' \<le> k" for k
    using a(1) [rule_format, of "n' + k"] a(2) [rule_format, of k] that by (simp add: add.assoc)
  then show "\<exists>n m. \<forall>k\<ge>m. item_run e v (n + k) all is s = item_run e v k all ks u" by blast
qed

lemma reaches_call: "(\<And>k. m \<le> k \<Longrightarrow> item_step e (v k) all i is s = Ret (Inl (js, t))) \<Longrightarrow> reaches e v all (i # is) s js t"
  unfolding reaches_def by (rule exI [of _ 1], rule exI [of _ m]) simp

lemma reaches_step: "(\<And>w. item_step e w all i is s = Ret (Inl (js, t))) \<Longrightarrow> reaches e v all (i # is) s js t"
  by (rule reaches_call)

lemma item_step_call: "item_step e w all (Op (CallR r)) is s = obind (w is (mc_regs s r) s) (\<lambda>s. Ret (Inl (is, s)))"
  by simp

lemma exec_step: "exec x s = Ret t \<Longrightarrow> item_step e v all (Op x) is s = Ret (Inl (is, t))"
  by (cases x) simp_all

lemma reaches_exec: "exec_all xs s = Ret t \<Longrightarrow> reaches e v all (map Op xs @ is) s is t"
proof (induction xs arbitrary: s)
  case (Cons x xs)
  then obtain u where u: "exec x s = Ret u" "exec_all xs u = Ret t" by (auto simp: outcome_simps)
  show ?case
    using reaches_trans [OF reaches_step [OF exec_step [OF u(1)]] Cons.IH [OF u(2)]] by simp
qed simp

text \<open>\<open>eventually_returns m r\<close>: with enough fuel the result is \<open>r\<close>.\<close>

definition eventually_returns :: "(nat \<Rightarrow> 'a outcome) \<Rightarrow> 'a \<Rightarrow> bool" where
  "eventually_returns m r \<longleftrightarrow> (\<exists>n. \<forall>k\<ge>n. m k = Ret r)"

lemma reaches_return:
  assumes "reaches e v all is s (Op RetN # js) t"
  shows "eventually_returns (\<lambda>k. item_run e v k all is s) (load64 (mc_mem t) (mc_regs t REG_RSP), set_reg REG_RSP (mc_regs t REG_RSP + 8) t)"
proof -
  obtain n m where nm: "\<forall>k\<ge>m. item_run e v (n + k) all is s = item_run e v k all (Op RetN # js) t"
    using assms by (auto simp: reaches_def)
  have "item_run e v k all is s = Ret (load64 (mc_mem t) (mc_regs t REG_RSP), set_reg REG_RSP (mc_regs t REG_RSP + 8) t)"
    if k: "n + Suc m \<le> k" for k
  proof -
    obtain d where "k = n + Suc m + d" using le_Suc_ex [OF k] by blast
    then have "k = n + Suc (m + d)" by simp
    then show ?thesis using nm [rule_format, of "Suc (m + d)"] by simp
  qed
  then show ?thesis by (auto simp: eventually_returns_def)
qed

section \<open>The calling convention\<close>

text \<open>Argument \<open>j\<close> of a call about to be made.\<close>

definition arg_value :: "machine \<Rightarrow> nat \<Rightarrow> u64" where
  "arg_value s j = (if j < 6 then mc_regs s (arg_registers ! j) else load64 (mc_mem s) (mc_regs s REG_RSP + of_nat (8 * (j - 6))))"

definition kept_registers :: "x86_reg set" where
  "kept_registers = {REG_RBX, REG_RBP, REG_RSP, REG_R12, REG_R13, REG_R14, REG_R15}"

text \<open>
  A call of \<open>f\<close> leaves its value in \<open>rax\<close>, keeps the callee-saved registers and the stack pointer, and
  changes memory at most in the \<open>n\<close> bytes under the stack pointer.
\<close>

definition obeys ::
  "nat \<Rightarrow> (string \<Rightarrow> u64 list \<Rightarrow> u64 outcome) \<Rightarrow> (string \<Rightarrow> u64) \<Rightarrow> (nat \<Rightarrow> item list \<Rightarrow> u64 \<Rightarrow> machine \<Rightarrow> machine outcome) \<Rightarrow> bool" where
  "obeys n callee entry invoke \<longleftrightarrow>
     (\<forall>f args w s rest. callee f args = Ret w \<and> (\<forall>j < length args. arg_value s j = args ! j) \<longrightarrow>
       (\<exists>t. eventually_returns (\<lambda>k. invoke k rest (entry f) s) t \<and> mc_regs t REG_RAX = w \<and> (\<forall>r\<in>kept_registers. mc_regs t r = mc_regs s r) \<and>
          (\<forall>a. \<not> below (mc_regs s REG_RSP) n a \<longrightarrow> mc_mem t a = mc_mem s a)))"

section \<open>Pushing and popping\<close>

lemma load64_cong: "(\<And>i. i < 8 \<Longrightarrow> m (a + of_nat i) = m' (a + of_nat i)) \<Longrightarrow> load64 m a = load64 m' a"
  unfolding load64_def load_bytes_def by (rule arg_cong [of _ _ of_le64], rule map_cong) auto

text \<open>Eight bytes that are not among the \<open>n\<close> bytes under \<open>sp\<close>.\<close>

definition clear :: "u64 \<Rightarrow> nat \<Rightarrow> u64 \<Rightarrow> bool" where
  "clear sp n a \<longleftrightarrow> (\<forall>i < 8. \<not> below sp n (a + of_nat i))"

definition changes_below :: "u64 \<Rightarrow> nat \<Rightarrow> (u64 \<Rightarrow> u8) \<Rightarrow> (u64 \<Rightarrow> u8) \<Rightarrow> bool" where
  "changes_below sp n m m' \<longleftrightarrow> (\<forall>a. \<not> below sp n a \<longrightarrow> m' a = m a)"

lemma load64_clear: "changes_below sp n m m' \<Longrightarrow> clear sp n a \<Longrightarrow> load64 m' a = load64 m a"
  by (rule load64_cong) (simp add: changes_below_def clear_def)

lemma changes_below_refl [simp]: "changes_below sp n m m"
  by (simp add: changes_below_def)

lemma changes_below_trans: "changes_below sp n m m' \<Longrightarrow> changes_below sp n m' m'' \<Longrightarrow> changes_below sp n m m''"
  by (simp add: changes_below_def)

lemma below_shift:
  assumes "below (sp - of_nat k) n a" "k + n < 2 ^ 63"
  shows "below sp (k + n) a"
proof -
  let ?d = "sp - of_nat k - 1 - a"
  have d: "unat ?d < n" using assms(1) by (simp add: below_def)
  have k: "unat (of_nat k :: u64) = k" using assms(2) by (simp add: unat_of_nat take_bit_nat_eq_self)
  have "sp - 1 - a = ?d + of_nat k" by simp
  then have "unat (sp - 1 - a) = unat ?d + k"
    using d k assms(2) by (simp only: unat_plus_if_size word_size) simp
  then show ?thesis using d by (simp add: below_def)
qed

lemma changes_below_shift:
  "changes_below (sp - of_nat k) n m m' \<Longrightarrow> k + n < 2 ^ 63 \<Longrightarrow> changes_below sp (k + n) m m'"
  unfolding changes_below_def using below_shift by blast

lemma changes_below_mono: "changes_below sp n m m' \<Longrightarrow> n \<le> n' \<Longrightarrow> changes_below sp n' m m'"
  by (auto simp: changes_below_def below_def)

text \<open>Code that pushes the value of a location.\<close>

definition pushes :: "(location \<Rightarrow> x86 list) \<Rightarrow> bool" where
  "pushes sel \<longleftrightarrow> (\<forall>l s. placed_at l \<longrightarrow> (\<exists>t. exec_all (sel l) s = Ret t \<and> mc_regs t REG_RSP = mc_regs s REG_RSP - 8 \<and>
     mc_mem t = store64 (mc_regs s REG_RSP - 8) (loc_value s l) (mc_mem s) \<and>
     (\<forall>r. r \<notin> {REG_RAX, REG_RSP} \<longrightarrow> mc_regs t r = mc_regs s r)))"

lemma pushes_stack: "pushes push_stack_sel"
  unfolding pushes_def push_stack_sel_def by (auto simp: exec_all_append exec_load_sel push_def Let_def)

lemma pushes_reg: "pushes push_reg_sel"
  unfolding pushes_def
proof (intro allI impI)
  fix l s assume p: "placed_at l"
  show "\<exists>t. exec_all (push_reg_sel l) s = Ret t \<and> mc_regs t REG_RSP = mc_regs s REG_RSP - 8 \<and>
      mc_mem t = store64 (mc_regs s REG_RSP - 8) (loc_value s l) (mc_mem s) \<and>
      (\<forall>r. r \<notin> {REG_RAX, REG_RSP} \<longrightarrow> mc_regs t r = mc_regs s r)"
  proof (cases l)
    case (LOC_REG r)
    then show ?thesis by (simp add: push_reg_sel_def push_def Let_def)
  next
    case (LOC_STACK x)
    then have "push_reg_sel l = push_stack_sel l" by (simp add: push_reg_sel_def)
    then show ?thesis using pushes_stack p unfolding pushes_def by simp
  qed (use p in simp_all)
qed

definition reachable_loc :: "machine \<Rightarrow> nat \<Rightarrow> location \<Rightarrow> bool" where
  "reachable_loc s n l \<longleftrightarrow> placed_at l \<and> (\<forall>x. l = LOC_STACK x \<longrightarrow> clear (mc_regs s REG_RSP) n (address s REG_RBP x))"

lemma clear_mono: "clear sp n a \<Longrightarrow> m \<le> n \<Longrightarrow> clear sp m a"
  by (auto simp: clear_def below_def)

lemma reachable_mono: "reachable_loc s n l \<Longrightarrow> m \<le> n \<Longrightarrow> reachable_loc s m l"
  by (auto simp: reachable_loc_def elim: clear_mono)

lemma reachable_value:
  assumes "reachable_loc s n l" "\<forall>r. r \<notin> {REG_RAX, REG_RSP} \<longrightarrow> mc_regs t r = mc_regs s r"
    "changes_below (mc_regs s REG_RSP) n (mc_mem s) (mc_mem t)"
  shows "loc_value t l = loc_value s l"
proof (cases l)
  case (LOC_STACK x)
  then have "clear (mc_regs s REG_RSP) n (address s REG_RBP x)" using assms(1) by (simp add: reachable_loc_def)
  then show ?thesis using load64_clear [OF assms(3)] assms(2) by (simp add: LOC_STACK address_def)
qed (use assms in \<open>auto simp: reachable_loc_def\<close>)

lemma store64_below:
  "8 * k + 8 \<le> n \<Longrightarrow> n < 2 ^ 62 \<Longrightarrow> changes_below sp n m (store64 (sp - of_nat (8 * k) - 8) v m)"
  using store_below [of "le64 v" "- int (8 * k) - 8" n sp _ m]
  by (auto simp: changes_below_def store64_def algebra_simps)

lemma exec_pushes:
  assumes sel: "pushes sel"
  shows "list_all (reachable_loc s (8 * length ls)) ls \<Longrightarrow> length ls \<le> 64 \<Longrightarrow>
    \<exists>t. exec_all (concat (map sel ls)) s = Ret t \<and> mc_regs t REG_RSP = mc_regs s REG_RSP - of_nat (8 * length ls) \<and>
      (\<forall>r. r \<notin> {REG_RAX, REG_RSP} \<longrightarrow> mc_regs t r = mc_regs s r) \<and>
      changes_below (mc_regs s REG_RSP) (8 * length ls) (mc_mem s) (mc_mem t) \<and>
      (\<forall>j < length ls. load64 (mc_mem t) (mc_regs s REG_RSP - of_nat (8 * j) - 8) = loc_value s (ls ! j))"
proof (induction ls rule: rev_induct)
  case (snoc l ls)
  let ?sp = "mc_regs s REG_RSP" and ?n = "length ls"
  have "list_all (reachable_loc s (8 * ?n)) ls"
    using snoc.prems(1) by (auto simp: list_all_iff intro: reachable_mono [where n = "8 + 8 * length ls"])
  then obtain t where t: "exec_all (concat (map sel ls)) s = Ret t" "mc_regs t REG_RSP = ?sp - of_nat (8 * ?n)"
      "\<forall>r. r \<notin> {REG_RAX, REG_RSP} \<longrightarrow> mc_regs t r = mc_regs s r" "changes_below ?sp (8 * ?n) (mc_mem s) (mc_mem t)"
      "\<forall>j < ?n. load64 (mc_mem t) (?sp - of_nat (8 * j) - 8) = loc_value s (ls ! j)"
    using snoc.IH snoc.prems(2) by auto
  have l: "reachable_loc s (8 * Suc ?n) l" using snoc.prems(1) by simp
  then obtain u where u: "exec_all (sel l) t = Ret u" "mc_regs u REG_RSP = mc_regs t REG_RSP - 8"
      "mc_mem u = store64 (mc_regs t REG_RSP - 8) (loc_value t l) (mc_mem t)"
      "\<forall>r. r \<notin> {REG_RAX, REG_RSP} \<longrightarrow> mc_regs u r = mc_regs t r"
    using sel unfolding pushes_def reachable_loc_def by blast
  have n: "?n < 64" using snoc.prems(2) by simp
  have v: "loc_value t l = loc_value s l"
    by (rule reachable_value [OF l t(3) changes_below_mono [OF t(4)]]) simp
  have mem: "mc_mem u = store64 (?sp - of_nat (8 * ?n) - 8) (loc_value s l) (mc_mem t)"
    using u(3) by (simp add: t(2) v)
  have ch: "changes_below ?sp (8 * Suc ?n) (mc_mem s) (mc_mem u)"
    unfolding mem using n by (intro changes_below_trans [OF changes_below_mono [OF t(4)] store64_below]) auto
  have old: "load64 (mc_mem u) (?sp - of_nat (8 * j) - 8) = loc_value s (ls ! j)" if "j < ?n" for j
  proof -
    have "apart (?sp + of_int (- int (8 * ?n) - 8)) (?sp + of_int (- int (8 * j) - 8))"
      by (rule apart_offsets) (use that n in auto)
    then have "load64 (mc_mem u) (?sp - of_nat (8 * j) - 8) = load64 (mc_mem t) (?sp - of_nat (8 * j) - 8)"
      unfolding mem by (intro load64_store(2)) (simp add: algebra_simps)
    then show ?thesis using t(5) that by simp
  qed
  have vals: "\<forall>j < length (ls @ [l]). load64 (mc_mem u) (?sp - of_nat (8 * j) - 8) = loc_value s ((ls @ [l]) ! j)"
    using old by (auto simp: less_Suc_eq nth_append mem load64_store(1))
  have "exec_all (concat (map sel (ls @ [l]))) s = Ret u" using t(1) u(1) by (simp add: exec_all_append)
  moreover have "mc_regs u REG_RSP = ?sp - of_nat (8 * length (ls @ [l]))" using u(2) t(2) by (simp add: algebra_simps)
  moreover have "\<forall>r. r \<notin> {REG_RAX, REG_RSP} \<longrightarrow> mc_regs u r = mc_regs s r" using u(4) t(3) by simp
  moreover have "changes_below ?sp (8 * length (ls @ [l])) (mc_mem s) (mc_mem u)" using ch by simp
  ultimately show ?case using vals by blast
qed simp

lemma exec_pops:
  "distinct rs \<Longrightarrow> REG_RSP \<notin> set rs \<Longrightarrow>
   \<exists>t. exec_all (map Pop rs) s = Ret t \<and> mc_regs t REG_RSP = mc_regs s REG_RSP + of_nat (8 * length rs) \<and> mc_mem t = mc_mem s \<and>
     (\<forall>r. r \<notin> insert REG_RSP (set rs) \<longrightarrow> mc_regs t r = mc_regs s r) \<and>
     (\<forall>j < length rs. mc_regs t (rs ! j) = load64 (mc_mem s) (mc_regs s REG_RSP + of_nat (8 * j)))"
proof (induction rs rule: rev_induct)
  case (snoc r rs)
  then obtain t where t: "exec_all (map Pop rs) s = Ret t" "mc_regs t REG_RSP = mc_regs s REG_RSP + of_nat (8 * length rs)" "mc_mem t = mc_mem s"
      "\<forall>r. r \<notin> insert REG_RSP (set rs) \<longrightarrow> mc_regs t r = mc_regs s r"
      "\<forall>j < length rs. mc_regs t (rs ! j) = load64 (mc_mem s) (mc_regs s REG_RSP + of_nat (8 * j))"
    by auto
  have r: "r \<noteq> REG_RSP" "r \<notin> set rs" "REG_RSP \<notin> set rs" using snoc.prems by auto
  let ?u = "set_reg r (load64 (mc_mem t) (mc_regs t REG_RSP)) (set_reg REG_RSP (mc_regs t REG_RSP + 8) t)"
  have run: "exec_all (map Pop (rs @ [r])) s = Ret ?u" using t(1) by (simp add: exec_all_append Let_def)
  have sp: "mc_regs ?u REG_RSP = mc_regs s REG_RSP + of_nat (8 * length (rs @ [r]))"
    using t(2) r(1) by (simp add: algebra_simps)
  have vals: "mc_regs ?u ((rs @ [r]) ! j) = load64 (mc_mem s) (mc_regs s REG_RSP + of_nat (8 * j))" if j: "j < length (rs @ [r])" for j
  proof (cases "j = length rs")
    case True
    then show ?thesis using t(2,3) by simp
  next
    case False
    then have "j < length rs" using j by simp
    then have "rs ! j \<in> set rs" by (rule nth_mem)
    then have "rs ! j \<noteq> r" "rs ! j \<noteq> REG_RSP" using r(2,3) by auto
    then show ?thesis using t(5) \<open>j < length rs\<close> by (simp add: nth_append)
  qed
  have others: "\<forall>q. q \<notin> insert REG_RSP (set (rs @ [r])) \<longrightarrow> mc_regs ?u q = mc_regs s q" using t(4) by simp
  have "mc_mem ?u = mc_mem s" using t(3) by simp
  then show ?case using run sp vals others by blast
qed simp

end
