(* ===== verification/CallSequence.thy ===== *)
theory CallSequence
  imports ItemMachine
begin

text \<open>
  The code of a call: alignment, arguments on the stack from the last to the seventh, the first six through
  the stack into their registers, the call, and the stack pointer put back.
\<close>

lemma scast_small: "k < 2 ^ 31 \<Longrightarrow> scast (of_nat k :: u32) = (of_nat k :: u64)"
proof -
  assume "k < 2 ^ 31"
  then have "sint (of_int (int k) :: u32) = int k"
    by (simp only: signed_of_int of_int_eq_id id_apply) (rule signed_take_bit_int_eq_self; simp)
  then have "sint (of_nat k :: u32) = int k" by simp
  then show ?thesis unfolding scast_offset by simp
qed

lemma clear_above: "d + n < 2 ^ 62 \<Longrightarrow> clear sp n (sp + of_nat d)"
  unfolding clear_def
proof (intro allI impI notI)
  fix i :: nat assume d: "d + n < 2 ^ 62" and i: "i < 8" and b: "below sp n (sp + of_nat d + of_nat i)"
  have e: "sp - 1 - (sp + of_nat d + of_nat i) = of_int (- 1 - int (d + i))" by simp
  have "uint (of_int (- 1 - int (d + i)) :: u64) = - 1 - int (d + i) + 2 ^ 64"
    using d i uint_of_int_small [of "- 1 - int (d + i)"] by (simp del: of_int_diff of_int_minus of_nat_add)
  then have "int (unat (sp - 1 - (sp + of_nat d + of_nat i))) = - 1 - int (d + i) + 2 ^ 64"
    unfolding e uint_unat .
  moreover have "unat (sp - 1 - (sp + of_nat d + of_nat i)) < n" using b unfolding below_def .
  ultimately have "- 1 - int (d + i) + 2 ^ 64 < int n" by linarith
  moreover have "int d + int n < 2 ^ 62" using d by simp
  ultimately show False using i by simp
qed

lemma clear_shift: "clear sp (k + n) a \<Longrightarrow> k + n < 2 ^ 63 \<Longrightarrow> clear (sp - of_nat k) n a"
  unfolding clear_def using below_shift by blast

lemma reachable_shift:
  assumes "reachable_loc s (k + n) l" "k + n < 2 ^ 63" "mc_regs t REG_RSP = mc_regs s REG_RSP - of_nat k" "mc_regs t REG_RBP = mc_regs s REG_RBP"
  shows "reachable_loc t n l"
  using assms clear_shift [of "mc_regs s REG_RSP" k n] by (auto simp: reachable_loc_def address_def)

lemma exec_adjust:
  assumes "k < 2 ^ 31"
  shows "\<exists>t. exec (AluImm32 A_Sub REG_RSP (of_nat k)) s = Ret t \<and> mc_regs t = (mc_regs s)(REG_RSP := mc_regs s REG_RSP - of_nat k) \<and> mc_mem t = mc_mem s"
    "\<exists>t. exec (AluImm32 A_Add REG_RSP (of_nat k)) s = Ret t \<and> mc_regs t = (mc_regs s)(REG_RSP := mc_regs s REG_RSP + of_nat k) \<and> mc_mem t = mc_mem s"
  by (simp_all add: exec_alu_def scast_small [OF assms])

lemma of_nat_steps: "j < k \<Longrightarrow> (of_nat (8 * k) :: u64) = of_nat (8 * (k - 1 - j)) + of_nat (8 * j) + 8"
proof -
  assume "j < k"
  then have "8 * k = 8 * (k - 1 - j) + 8 * j + 8" by simp
  then show ?thesis by (metis of_nat_add of_nat_numeral)
qed

lemma arg_registers_facts:
  "distinct (take n (take 6 arg_registers))" "REG_RSP \<notin> set (take n (take 6 arg_registers))"
  "set (take n (take 6 arg_registers)) \<inter> {REG_RAX, REG_RBX, REG_RBP, REG_RSP, REG_R12, REG_R13, REG_R14, REG_R15} = {}"
proof -
  have "set (take n (take 6 arg_registers)) \<subseteq> {REG_RDI, REG_RSI, REG_RDX, REG_RCX, REG_R8, REG_R9}"
    by (rule order_trans [OF set_take_subset]) (simp add: arg_registers_def)
  then show "REG_RSP \<notin> set (take n (take 6 arg_registers))"
    "set (take n (take 6 arg_registers)) \<inter> {REG_RAX, REG_RBX, REG_RBP, REG_RSP, REG_R12, REG_R13, REG_R14, REG_R15} = {}"
    by auto
  show "distinct (take n (take 6 arg_registers))" by (rule distinct_take) (simp add: arg_registers_def)
qed

text \<open>From the state before the code to the state in which the call is made.\<close>

lemma call_setup:
  assumes L: "list_all (reachable_loc s (8 + 8 * length L)) L" "length L \<le> 32"
  defines "m \<equiv> length L - 6"
  shows "\<exists>t. exec_all ((if call_pad m \<noteq> 0 then [AluImm32 A_Sub REG_RSP (of_nat (call_pad m))] else []) @
      concat (map push_stack_sel (rev (drop 6 L))) @ concat (map push_reg_sel (rev (take 6 L))) @
      map Pop (take (length L) (take 6 arg_registers))) s = Ret t \<and>
    mc_regs t REG_RSP = mc_regs s REG_RSP - of_nat (8 * m + call_pad m) \<and>
    (\<forall>r\<in>kept_registers - {REG_RSP}. mc_regs t r = mc_regs s r) \<and>
    changes_below (mc_regs s REG_RSP) (8 + 8 * length L) (mc_mem s) (mc_mem t) \<and>
    (\<forall>j < length L. arg_value t j = loc_value s (L ! j))"
proof -
  let ?sp = "mc_regs s REG_RSP" and ?pad = "call_pad m" and ?k = "min 6 (length L)"
  let ?sub = "if ?pad \<noteq> 0 then [AluImm32 A_Sub REG_RSP (of_nat ?pad)] else []"
  have pad: "?pad \<le> 8" by (simp add: call_pad_def)
  have len: "length (rev (drop 6 L)) = m" "length (rev (take 6 L)) = ?k" "m + ?k = length L" by (auto simp: m_def)
  obtain s1 where s1: "exec_all ?sub s = Ret s1" "mc_regs s1 REG_RSP = ?sp - of_nat ?pad" "mc_mem s1 = mc_mem s"
      "\<forall>r. r \<noteq> REG_RSP \<longrightarrow> mc_regs s1 r = mc_regs s r"
    using exec_adjust(1) [of ?pad s] pad by (cases "?pad = 0") (force simp del: exec.simps)+
  have all: "reachable_loc s (8 + 8 * length L) l" if "l \<in> set (rev (drop 6 L)) \<union> set (rev (take 6 L))" for l
    using that L(1) by (auto simp: list_all_iff dest: in_set_dropD in_set_takeD)
  have val1: "loc_value s1 l = loc_value s l" if "reachable_loc s n l" for n l
    using that s1(3,4) by (cases l) (auto simp: reachable_loc_def address_def)
  have "list_all (reachable_loc s1 (8 * length (rev (drop 6 L)))) (rev (drop 6 L))"
    unfolding list_all_iff len
  proof
    fix l assume "l \<in> set (rev (drop 6 L))"
    then have "reachable_loc s (?pad + 8 * m) l"
      using reachable_mono [OF all [of l]] pad len(3) by simp
    then show "reachable_loc s1 (8 * m) l"
      by (rule reachable_shift) (use pad L(2) s1 in \<open>auto simp: m_def\<close>)
  qed
  moreover have "length (rev (drop 6 L)) \<le> 64" "length (rev (take 6 L)) \<le> 64" using L(2) by simp_all
  ultimately obtain s2 where s2: "exec_all (concat (map push_stack_sel (rev (drop 6 L)))) s1 = Ret s2"
      "mc_regs s2 REG_RSP = mc_regs s1 REG_RSP - of_nat (8 * m)" "\<forall>r. r \<notin> {REG_RAX, REG_RSP} \<longrightarrow> mc_regs s2 r = mc_regs s1 r"
      "changes_below (mc_regs s1 REG_RSP) (8 * m) (mc_mem s1) (mc_mem s2)"
      "\<forall>j < m. load64 (mc_mem s2) (mc_regs s1 REG_RSP - of_nat (8 * j) - 8) = loc_value s1 (rev (drop 6 L) ! j)"
    using exec_pushes [OF pushes_stack, of s1 "rev (drop 6 L)"] unfolding len by blast
  have sp2: "mc_regs s2 REG_RSP = ?sp - of_nat (?pad + 8 * m)" using s2(2) s1(2) by simp
  have regs2: "mc_regs s2 r = mc_regs s r" if "r \<notin> {REG_RAX, REG_RSP}" for r using s1(4) s2(3) that by simp
  have mem2: "changes_below ?sp (?pad + 8 * m) (mc_mem s) (mc_mem s2)"
    using changes_below_shift [of ?sp ?pad "8 * m"] s1(2,3) s2(4) pad L(2) by (simp add: m_def)
  have val2: "loc_value s2 l = loc_value s l" if "reachable_loc s (8 + 8 * length L) l" for l
    by (rule reachable_value [OF that]) (use regs2 changes_below_mono [OF mem2, of "8 + 8 * length L"] pad len(3) in auto)
  have "list_all (reachable_loc s2 (8 * length (rev (take 6 L)))) (rev (take 6 L))"
    unfolding list_all_iff len
  proof
    fix l assume "l \<in> set (rev (take 6 L))"
    then have "reachable_loc s ((?pad + 8 * m) + 8 * ?k) l"
      using reachable_mono [OF all [of l]] pad len(3) by simp
    then show "reachable_loc s2 (8 * ?k) l"
      by (rule reachable_shift) (use pad L(2) sp2 regs2 in \<open>auto simp: m_def\<close>)
  qed
  then obtain s3 where s3: "exec_all (concat (map push_reg_sel (rev (take 6 L)))) s2 = Ret s3"
      "mc_regs s3 REG_RSP = mc_regs s2 REG_RSP - of_nat (8 * ?k)" "\<forall>r. r \<notin> {REG_RAX, REG_RSP} \<longrightarrow> mc_regs s3 r = mc_regs s2 r"
      "changes_below (mc_regs s2 REG_RSP) (8 * ?k) (mc_mem s2) (mc_mem s3)"
      "\<forall>j < ?k. load64 (mc_mem s3) (mc_regs s2 REG_RSP - of_nat (8 * j) - 8) = loc_value s2 (rev (take 6 L) ! j)"
    using exec_pushes [OF pushes_reg, of s2 "rev (take 6 L)"] \<open>length (rev (take 6 L)) \<le> 64\<close> unfolding len by blast
  let ?rs = "take (length L) (take 6 arg_registers)"
  have rs: "length ?rs = ?k" by (simp add: arg_registers_def)
  obtain t where t: "exec_all (map Pop ?rs) s3 = Ret t" "mc_regs t REG_RSP = mc_regs s3 REG_RSP + of_nat (8 * ?k)" "mc_mem t = mc_mem s3"
      "\<forall>r. r \<notin> insert REG_RSP (set ?rs) \<longrightarrow> mc_regs t r = mc_regs s3 r"
      "\<forall>j < ?k. mc_regs t (?rs ! j) = load64 (mc_mem s3) (mc_regs s3 REG_RSP + of_nat (8 * j))"
    using exec_pops [OF arg_registers_facts(1,2), of "length L" s3] unfolding rs by blast
  have sp: "mc_regs t REG_RSP = mc_regs s2 REG_RSP" using t(2) s3(2) by simp
  have "exec_all (?sub @ concat (map push_stack_sel (rev (drop 6 L))) @ concat (map push_reg_sel (rev (take 6 L))) @ map Pop ?rs) s = Ret t"
    by (simp only: exec_all_append s1(1) s2(1) s3(1) t(1) obind.simps)
  moreover have "mc_regs t REG_RSP = ?sp - of_nat (8 * m + ?pad)" unfolding sp sp2 by (simp add: add.commute)
  moreover have "mc_regs t r = mc_regs s r" if "r \<in> kept_registers - {REG_RSP}" for r
  proof -
    have "r \<notin> insert REG_RSP (set ?rs)" "r \<notin> {REG_RAX, REG_RSP}"
      using that arg_registers_facts(3) [of "length L"] by (auto simp: kept_registers_def)
    then show ?thesis using t(4) s3(3) regs2 by metis
  qed
  moreover have "changes_below ?sp (8 + 8 * length L) (mc_mem s) (mc_mem t)"
  proof -
    have "changes_below ?sp ((?pad + 8 * m) + 8 * ?k) (mc_mem s2) (mc_mem t)"
      unfolding t(3) by (rule changes_below_shift) (use s3(4) L(2) pad in \<open>auto simp: sp2 m_def\<close>)
    then have "changes_below ?sp (8 + 8 * length L) (mc_mem s2) (mc_mem t)"
      by (rule changes_below_mono) (use pad len(3) in simp)
    then show ?thesis
      using changes_below_trans changes_below_mono [OF mem2, of "8 + 8 * length L"] pad len(3) by auto
  qed
  moreover have "arg_value t j = loc_value s (L ! j)" if j: "j < length L" for j
  proof (cases "j < 6")
    case True
    then have k: "j < ?k" using j by simp
    have at: "mc_regs s3 REG_RSP + of_nat (8 * j) = mc_regs s2 REG_RSP - of_nat (8 * (?k - 1 - j)) - 8"
      unfolding s3(2) of_nat_steps [OF k] by simp
    have "arg_value t j = mc_regs t (?rs ! j)" using True j by (simp add: arg_value_def)
    also have "\<dots> = load64 (mc_mem s3) (mc_regs s3 REG_RSP + of_nat (8 * j))" using t(5) k by blast
    also have "\<dots> = loc_value s2 (rev (take 6 L) ! (?k - 1 - j))"
      unfolding at by (rule s3(5) [rule_format]) (use k in linarith)
    finally have "arg_value t j = loc_value s2 (rev (take 6 L) ! (?k - 1 - j))" .
    moreover have "rev (take 6 L) ! (?k - 1 - j) = L ! j"
      using k by (simp add: rev_nth min_def split: if_splits)
    ultimately show ?thesis using val2 L(1) j by (simp add: list_all_length)
  next
    case False
    let ?q = "m - 1 - (j - 6)"
    have q: "?q < m" "j - 6 < m" using False j by (auto simp: m_def)
    have a: "mc_regs s2 REG_RSP + of_nat (8 * (j - 6)) = mc_regs s1 REG_RSP - of_nat (8 * ?q) - 8"
      unfolding s2(2) of_nat_steps [OF q(2)] by simp
    have "load64 (mc_mem t) (mc_regs s2 REG_RSP + of_nat (8 * (j - 6))) = load64 (mc_mem s2) (mc_regs s2 REG_RSP + of_nat (8 * (j - 6)))"
      unfolding t(3) by (rule load64_clear [OF s3(4) clear_above]) (use L(2) j in auto)
    then have "arg_value t j = loc_value s1 (rev (drop 6 L) ! ?q)"
      using s2(5) q(1) False by (simp only: arg_value_def sp a if_False)
    moreover have "rev (drop 6 L) ! ?q = L ! j"
      using q False j by (simp add: rev_nth m_def)
    moreover have "loc_value s1 (L ! j) = loc_value s (L ! j)"
      using val1 [of "8 + 8 * length L" "L ! j"] L(1) j by (simp add: list_all_length)
    ultimately show ?thesis by simp
  qed
  ultimately show ?thesis by blast
qed

text \<open>
  The whole call: its value is stored in the location of the result; the registers a callee keeps are
  as before and memory changes only below the stack pointer, in the \<open>D\<close> bytes the callee uses
  and in those of the arguments.
\<close>

lemma call_reaches:
  assumes ob: "obeys D callee entry invoke" and L: "list_all (reachable_loc s (8 + 8 * length L)) L" "length L \<le> 32"
    and D: "D < 2 ^ 61" and v: "callee f (map (loc_value s) L) = Ret w" and d: "placed_at dest"
  shows "\<exists>t. reaches entry invoke all (call_sel f (length L) (rev (drop 6 L)) (rev (take 6 L)) dest @ rest) s rest (set_loc dest w t) \<and>
    (\<forall>r\<in>kept_registers. mc_regs t r = mc_regs s r) \<and>
    changes_below (mc_regs s REG_RSP) (8 + 8 * length L + D) (mc_mem s) (mc_mem t)"
proof -
  let ?m = "length L - 6" and ?sp = "mc_regs s REG_RSP"
  let ?k = "8 * ?m + call_pad ?m"
  let ?add = "if ?m > 0 then [AluImm32 A_Add REG_RSP (of_nat ?k)] else []"
  have k: "?k \<le> 8 + 8 * length L" "?k < 2 ^ 31" "?m = 0 \<Longrightarrow> ?k = 0" using L(2) by (auto simp: call_pad_def)
  obtain a where a: "exec_all ((if call_pad ?m \<noteq> 0 then [AluImm32 A_Sub REG_RSP (of_nat (call_pad ?m))] else []) @
        concat (map push_stack_sel (rev (drop 6 L))) @ concat (map push_reg_sel (rev (take 6 L))) @
        map Pop (take (length L) (take 6 arg_registers))) s = Ret a" (is "exec_all ?set s = _")
      "mc_regs a REG_RSP = ?sp - of_nat ?k" "\<forall>r\<in>kept_registers - {REG_RSP}. mc_regs a r = mc_regs s r"
      "changes_below ?sp (8 + 8 * length L) (mc_mem s) (mc_mem a)" "\<forall>j < length L. arg_value a j = loc_value s (L ! j)"
    using call_setup [OF L] by blast
  let ?b = "set_reg REG_RAX (entry f) a"
  have arg: "arg_value ?b j = arg_value a j" for j
    by (auto simp: arg_value_def arg_registers_def nth_Cons' eval_nat_numeral)
  have "\<forall>j < length (map (loc_value s) L). arg_value ?b j = map (loc_value s) L ! j" using a(5) by (simp add: arg)
  then have "\<exists>c. eventually_returns (\<lambda>k. invoke k (map Op ?add @ map Op (store_sel dest REG_RAX) @ rest) (entry f) ?b) c \<and> mc_regs c REG_RAX = w \<and> (\<forall>r\<in>kept_registers. mc_regs c r = mc_regs ?b r) \<and>
      changes_below (mc_regs ?b REG_RSP) D (mc_mem ?b) (mc_mem c)"
    using ob [unfolded obeys_def, rule_format, OF conjI, OF v, of ?b] unfolding changes_below_def by blast
  then obtain c where c: "eventually_returns (\<lambda>k. invoke k (map Op ?add @ map Op (store_sel dest REG_RAX) @ rest) (entry f) ?b) c" "mc_regs c REG_RAX = w" "\<forall>r\<in>kept_registers. mc_regs c r = mc_regs ?b r"
      "changes_below (mc_regs ?b REG_RSP) D (mc_mem ?b) (mc_mem c)"
    by blast
  obtain m0 where m0: "\<And>k. m0 \<le> k \<Longrightarrow> invoke k (map Op ?add @ map Op (store_sel dest REG_RAX) @ rest) (entry f) ?b = Ret c" using c(1) by (auto simp: eventually_returns_def)
  have sp: "mc_regs c REG_RSP = ?sp - of_nat ?k" using c(3) a(2) by (simp add: kept_registers_def)
  obtain t where t: "exec_all ?add c = Ret t" "mc_regs t = (mc_regs c)(REG_RSP := ?sp)" "mc_mem t = mc_mem c"
    using exec_adjust(2) [OF k(2), of c] sp k(3) by (cases "?m = 0") (auto simp: fun_upd_idem simp del: exec.simps)
  have "reaches entry invoke all (call_sel f (length L) (rev (drop 6 L)) (rev (take 6 L)) dest @ rest) s rest (set_loc dest w t)"
  proof -
    let ?tail = "map Op (store_sel dest REG_RAX) @ rest"
    have "reaches entry invoke all (map Op ?set @ CallTo f # Op (CallR REG_RAX) # map Op ?add @ ?tail) s (CallTo f # Op (CallR REG_RAX) # map Op ?add @ ?tail) a"
      by (rule reaches_exec [OF a(1)])
    also have "reaches entry invoke all (CallTo f # Op (CallR REG_RAX) # map Op ?add @ ?tail) a (Op (CallR REG_RAX) # map Op ?add @ ?tail) ?b"
      by (rule reaches_step) simp
    also have "reaches entry invoke all (Op (CallR REG_RAX) # map Op ?add @ ?tail) ?b (map Op ?add @ ?tail) c"
      by (rule reaches_call [of m0]) (simp only: item_step_call machine_simps fun_upd_same m0 obind.simps)
    also have "reaches entry invoke all (map Op ?add @ ?tail) c ?tail t"
      by (rule reaches_exec [OF t(1)])
    also have "reaches entry invoke all ?tail t rest (set_loc dest w t)"
      by (rule reaches_exec) (simp add: exec_store_sel [OF d] t(2) c(2))
    finally show ?thesis by (simp add: call_sel_def Let_def)
  qed
  moreover have "mc_regs t r = mc_regs s r" if "r \<in> kept_registers" for r
    using that c(3) a(3) t(2) by (cases "r = REG_RSP") (auto simp: kept_registers_def)
  moreover have "changes_below ?sp (8 + 8 * length L + D) (mc_mem s) (mc_mem t)"
  proof -
    have "changes_below ?sp (?k + D) (mc_mem a) (mc_mem t)"
      using c(4) a(2) D k(2) changes_below_shift [of ?sp ?k D] by (simp add: t(3))
    then have "changes_below ?sp (8 + 8 * length L + D) (mc_mem a) (mc_mem t)"
      by (rule changes_below_mono) (use k(1) in simp)
    then show ?thesis by (rule changes_below_trans [OF changes_below_mono [OF a(4)], rotated]) simp
  qed
  ultimately show ?thesis by blast
qed

end
