(* ===== verification/FunctionRun.thy ===== *)
theory FunctionRun
  imports SimStep CodeMap CallSequence
begin

text \<open>
  The code of a function body simulates its intermediate code: every instruction, jumps and calls
  included, up to the return, for any number of steps.
\<close>

section \<open>Positions\<close>

text \<open>What the simulation needs to know of the code at a position with pending arguments \<open>p\<close>.\<close>

definition runnable :: "(nat \<Rightarrow> location) \<Rightarrow> nat \<Rightarrow> bool \<Rightarrow> instr \<Rightarrow> bool" where
  "runnable M S calls i \<longleftrightarrow> (in_op i = IR_LOAD \<longrightarrow> in_src1 i < S) \<and> (in_op i = IR_STORE \<longrightarrow> in_dest i < S) \<and>
     (in_op i = IR_LABEL \<longrightarrow> in_label i < MAX_LABELS) \<and> (in_op i = IR_CALL \<longrightarrow> calls)"

definition at_code :: "(nat \<Rightarrow> location) \<Rightarrow> nat \<Rightarrow> bool \<Rightarrow> nat list \<Rightarrow> instr list \<Rightarrow> bool" where
  "at_code M S calls p is \<longleftrightarrow> located M p is \<and> arg_run (length p) is \<noteq> None \<and> list_all (runnable M S calls) is \<and>
     length p \<le> MAX_PARAMS_PER_FUNCTION"

lemma at_code_Nil [simp]: "at_code M S c p [] \<longleftrightarrow> length p \<le> MAX_PARAMS_PER_FUNCTION"
  by (simp add: at_code_def)

lemma at_code_Cons:
  "at_code M S c p (i # is) \<Longrightarrow>
     (\<forall>v\<in>operands p i. M v \<noteq> LOC_NONE) \<and> runnable M S c i \<and> at_code M S c (next_pending p i) is \<and>
     (in_op i \<notin> {IR_ARG, IR_CALL} \<longrightarrow> p = []) \<and> length p \<le> MAX_PARAMS_PER_FUNCTION"
  by (auto simp: at_code_def split: if_splits)

section \<open>Labels\<close>

lemma no_mark_in_ops [simp]: "Mark l \<notin> set (map Op xs)"
  by auto

lemma no_mark_select: "in_op i \<noteq> IR_LABEL \<or> in_label i \<noteq> l \<Longrightarrow> Mark l \<notin> set (select_at M p i)"
  by (auto simp: select_at_def Let_def call_sel_def split: if_splits)

lemma after_mark_skip: "Mark l \<notin> set xs \<Longrightarrow> after_mark l (xs @ ys) = after_mark l ys"
  unfolding after_mark_def by (subst dropWhile_append2) auto

lemma after_label_code:
  "at_code M S c p is \<Longrightarrow>
   after_mark l (code_at M p is) = code_at M [] (after_label l is) \<and> at_code M S c [] (after_label l is)"
proof (induction "is" arbitrary: p)
  case Nil
  then show ?case by (simp add: after_mark_def after_label_def)
next
  case (Cons i "is")
  note i = at_code_Cons [OF Cons.prems]
  show ?case
  proof (cases "in_op i = IR_LABEL \<and> in_label i = l")
    case True
    then have "p = []" "in_label i < MAX_LABELS" using i by (auto simp: runnable_def)
    then show ?thesis
      using True i by (auto simp: select_at_def is_binary_def Let_def after_mark_def after_label_def)
  next
    case False
    then have "after_label l (i # is) = after_label l is" by (auto simp: after_label_def)
    then show ?thesis
      using Cons.IH i after_mark_skip [OF no_mark_select] False by auto
  qed
qed

section \<open>Branches\<close>

lemma logic_zero: "fl_zero (logic_flags v) \<longleftrightarrow> v = 0"
  by (simp add: logic_flags_def)

text \<open>The test of an operand: afterwards the zero flag says whether it is zero.\<close>

lemma exec_test:
  assumes "placed_at x"
  shows "\<exists>t f. exec_all (operand_sel REG_RAX x @
      [if is_reg x then TestRR (operand_reg REG_RAX x) (operand_reg REG_RAX x) else AluImm8 A_Cmp REG_RAX 0]) s = Ret t \<and>
    agrees s t \<and> mc_flags t = Some f \<and> (fl_zero f \<longleftrightarrow> loc_value s x = 0)"
proof (cases x)
  case (LOC_REG r)
  then show ?thesis by (simp add: operand_sel_def operand_reg_def logic_zero)
next
  case (LOC_STACK d)
  then show ?thesis
    using sub_conditions(1) [of "loc_value s x" 0] by (simp add: operand_sel_def operand_reg_def load_sel_def exec_alu_def)
qed (use assms in simp_all)

section \<open>Calls\<close>

text \<open>
  With an even number of slots the stack pointer is below the slots of the frame, and what is pushed
  does not reach them.
\<close>

lemma slot_clear:
  assumes "k < n" "n < 2 ^ 27" "m < 2 ^ 61"
  shows "clear (b - 48 - of_nat (8 * n)) m (slot_address b k)"
proof -
  have "8 * n = 8 * (n - 1 - k) + 8 * k + 8" using assms(1) by simp
  then have "(of_nat (8 * n) :: u64) = of_nat (8 * (n - 1 - k)) + of_nat (8 * k) + 8" by (metis of_nat_add of_nat_numeral)
  then have "slot_address b k = (b - 48 - of_nat (8 * n)) + of_nat (8 * (n - 1 - k))"
    using assms(1,2) by (subst slot_address_eq) simp_all
  moreover have "8 * (n - 1 - k) + m < 2 ^ 62" using assms by simp
  ultimately show ?thesis by (simp only: clear_above)
qed

lemma reachable_in_frame:
  assumes M: "frame_map M S V" "M v \<noteq> LOC_NONE" and s: "mc_regs s REG_RBP = b" "mc_regs s REG_RSP = b - 48 - of_nat (8 * (S + V))"
    and m: "m < 2 ^ 61"
  shows "reachable_loc s m (M v)"
proof -
  have "clear (mc_regs s REG_RSP) m (address s REG_RBP x)" if "M v = LOC_STACK x" for x
  proof -
    have "x = get_local_offset (S + v)" "v < V" "S + V < 2 ^ 27" using M that by (auto simp: frame_map_def)
    then show ?thesis using slot_clear [of "S + v" "S + V" m b] m by (simp add: address_def s slot_address_def)
  qed
  then show ?thesis using M by (simp add: reachable_loc_def frame_map_def)
qed

text \<open>A change below the stack pointer keeps the relation.\<close>

lemma rep_below:
  assumes M: "frame_map M S V" and rep: "rep M S b st s" and sp: "mc_regs s REG_RSP = b - 48 - of_nat (8 * (S + V))"
    and t: "\<forall>r\<in>kept_registers. mc_regs t r = mc_regs s r" "changes_below (mc_regs s REG_RSP) m (mc_mem s) (mc_mem t)" and m: "m < 2 ^ 61"
  shows "rep M S b st t" "stable (8 * (S + V) + m) b s t"
proof -
  have b: "mc_regs s REG_RBP = b" "mc_regs t REG_RBP = b" using rep t(1) by (simp_all add: rep_def kept_registers_def)
  have SV: "S + V < 2 ^ 27" using M by (simp add: frame_map_def)
  have "loc_value t (M v) = w" if v: "M v \<noteq> LOC_NONE" "ir_regs st v = Some w" for v w
  proof -
    have r: "reachable_loc s m (M v)" by (rule reachable_in_frame [OF M v(1) b(1) sp m])
    have "loc_value t (M v) = loc_value s (M v)"
    proof (cases "M v")
      case (LOC_STACK x)
      then have "clear (mc_regs s REG_RSP) m (address s REG_RBP x)" using r by (simp add: reachable_loc_def)
      then show ?thesis using load64_clear [OF t(2)] by (simp add: LOC_STACK address_def b)
    qed (use r t(1) in \<open>auto simp: reachable_loc_def kept_registers_def\<close>)
    then show ?thesis using rep_loc [OF rep v] by simp
  qed
  moreover have "load64 (mc_mem t) (slot_address b k) = load64 (mc_mem s) (slot_address b k)" if "k < S" for k
    using load64_clear [OF t(2)] slot_clear [of k "S + V" m b] that SV m sp by simp
  ultimately show "rep M S b st t" using b rep by (simp add: rep_def)
  have "changes_below (b - 48) (8 * (S + V) + m) (mc_mem s) (mc_mem t)"
    using t(2) m SV by (intro changes_below_shift) (simp_all add: sp)
  then show "stable (8 * (S + V) + m) b s t"
    using b t(1) by (simp add: stable_def changes_below_def kept_registers_def)
qed

lemma rep_args [simp]: "rep M S b (st\<lparr>ir_args := p\<rparr>) s = rep M S b st s"
  by (simp add: rep_def)

lemma rep_values:
  "rep M S b st s \<Longrightarrow> \<forall>v\<in>set vs. M v \<noteq> LOC_NONE \<Longrightarrow> ir_values st vs = Ret ws \<Longrightarrow> map (loc_value s) (map M vs) = ws"
  by (induction vs arbitrary: ws) (auto simp: outcome_simps rep_value)

lemma call_step:
  assumes M: "frame_map M S V" and rep: "rep M S b st s" and sp: "mc_regs s REG_RSP = b - 48 - of_nat (8 * (S + V))"
    and ob: "obeys D callee entry invoke" and D: "D < 2 ^ 60" and i: "in_op i = IR_CALL"
    and p: "\<forall>v\<in>operands (ir_args st) i. M v \<noteq> LOC_NONE" "length (ir_args st) \<le> 32"
    and step: "ir_step callee prog i rest st = Ret pr"
  shows "\<exists>st' t. pr = Continue rest st' \<and> ir_args st' = [] \<and> rep M S b st' t \<and> stable (8 * (S + V) + 264 + D) b s t \<and>
    reaches entry invoke all (select_at M (ir_args st) i @ js) s js t"
proof -
  let ?p = "ir_args st"
  let ?L = "map M ?p"
  have d: "M (in_dest i) \<noteq> LOC_NONE" and args: "\<forall>v\<in>set ?p. M v \<noteq> LOC_NONE"
    using p(1) i by (simp_all add: operands_def is_binary_def)
  have b: "mc_regs s REG_RBP = b" using rep by (simp add: rep_def)
  obtain vs w where vs: "ir_values st ?p = Ret vs" and w: "callee (in_func i) vs = Ret w"
      "pr = Continue rest ((set_vreg (in_dest i) w st)\<lparr>ir_args := []\<rparr>)"
    using step by (auto simp: ir_step_def i outcome_simps)
  have v: "callee (in_func i) (map (loc_value s) ?L) = Ret w" using w(1) rep_values [OF rep args vs] by (simp only:)
  have L: "list_all (reachable_loc s (8 + 8 * length ?L)) ?L" "length ?L \<le> 32"
    using args p(2) reachable_in_frame [OF M _ b sp] by (simp_all add: list_all_iff)
  have D': "D < 2 ^ 61" using D by simp
  have "placed_at (M (in_dest i))" using M d by (simp add: frame_map_def)
  then obtain t where t: "reaches entry invoke all (call_sel (in_func i) (length ?L) (rev (drop 6 ?L)) (rev (take 6 ?L)) (M (in_dest i)) @ js) s js
        (set_loc (M (in_dest i)) w t)"
      "\<forall>r\<in>kept_registers. mc_regs t r = mc_regs s r" "changes_below (mc_regs s REG_RSP) (8 + 8 * length ?L + D) (mc_mem s) (mc_mem t)"
    using call_reaches [OF ob L D' v] by blast
  have sz: "8 + 8 * length ?L + D < 2 ^ 61" "8 * (S + V) + (8 + 8 * length ?L + D) \<le> 8 * (S + V) + 264 + D" using D L(2) by simp_all
  note r = rep_below [OF M rep sp t(2,3) sz(1)]
  note a = rep_assign [OF M r(1) d, of w]
  have "stable (8 * (S + V) + 264 + D) b s (set_loc (M (in_dest i)) w t)"
    by (rule stable_trans [OF stable_mono [OF r(2) sz(2)] stable_mono [OF a(2)]]) simp
  moreover have "select_at M ?p i = call_sel (in_func i) (length ?L) (rev (drop 6 ?L)) (rev (take 6 ?L)) (M (in_dest i))"
    by (simp add: select_at_def i is_binary_def Let_def rev_map drop_map take_map)
  ultimately show ?thesis
    using t(1) a(1) w(2)
    by (intro exI [of _ "(set_vreg (in_dest i) w st)\<lparr>ir_args := []\<rparr>"] exI [of _ "set_loc (M (in_dest i)) w t"]) simp
qed

section \<open>The body\<close>

text \<open>What a run of \<open>n\<close> bytes of stack needs of the stack pointer when there are calls.\<close>

definition stack_at :: "nat \<Rightarrow> u64 \<Rightarrow> bool \<Rightarrow> machine \<Rightarrow> bool" where
  "stack_at n b calls s \<longleftrightarrow> (calls \<longrightarrow> mc_regs s REG_RSP = b - 48 - of_nat (8 * n))"

lemma stack_at_stable: "stack_at n b c s \<Longrightarrow> stable m b s t \<Longrightarrow> stack_at n b c t"
  by (simp add: stack_at_def stable_def)

lemma branch_step:
  assumes M: "frame_map M S V" and rep: "rep M S b st s" and i: "in_op i \<in> {IR_JMP, IR_JZ, IR_JNZ}"
    and all: "all = pre @ code_at M [] prog" "\<And>l. Mark l \<notin> set pre"
    and cd: "at_code M S c [] prog" "at_code M S c (ir_args st) (i # rest)"
    and step: "ir_step callee prog i rest st = Ret (Continue rest' st')"
  shows "\<exists>t. reaches entry invoke all (code_at M (ir_args st) (i # rest)) s (code_at M (ir_args st') rest') t \<and>
    rep M S b st' t \<and> agrees s t \<and> at_code M S c (ir_args st') rest'"
proof -
  note f = at_code_Cons [OF cd(2)]
  have p: "ir_args st = []" using f i by auto
  have at: "after_mark l all = code_at M [] (after_label l prog)" "at_code M S c [] (after_label l prog)" for l
    using after_label_code [OF cd(1), of l] after_mark_skip [OF all(2), of l] by (simp_all add: all(1))
  have next_p: "next_pending [] i = []" using i by auto
  show ?thesis
  proof (cases "in_op i = IR_JMP")
    case True
    then have e: "rest' = after_label (in_label i) prog" "st' = st" using step by (simp_all add: ir_step_def Let_def)
    have "code_at M [] (i # rest) = Jump None (in_label i) # code_at M (next_pending [] i) rest"
      using True by (simp add: select_at_def is_binary_def Let_def)
    then have "reaches entry invoke all (code_at M [] (i # rest)) s (code_at M [] rest') s"
      by (simp only: e) (rule reaches_step, simp add: at)
    then show ?thesis using e rep p at(2) by auto
  next
    case False
    let ?x = "M (in_src1 i)" and ?l = "in_label i" and ?c = "if in_op i = IR_JZ then CC_E else CC_NE"
    obtain w where w: "ir_value st (in_src1 i) = Ret w" using step False i by (cases "ir_value st (in_src1 i)") (auto simp: ir_step_def)
    have e: "st' = st" "rest' = (if (in_op i = IR_JZ) = (w = 0) then after_label ?l prog else rest)"
      using step False i w by (auto simp: ir_step_def Let_def split: if_splits)
    have x: "?x \<noteq> LOC_NONE" using f i False by (auto simp: operands_def is_binary_def)
    then have "placed_at ?x" using M by (simp add: frame_map_def)
    from exec_test [OF this, of s] obtain t g where t: "exec_all (operand_sel REG_RAX ?x @
        [if is_reg ?x then TestRR (operand_reg REG_RAX ?x) (operand_reg REG_RAX ?x) else AluImm8 A_Cmp REG_RAX 0]) s = Ret t" (is "exec_all ?test s = _")
        "agrees s t" "mc_flags t = Some g" "fl_zero g \<longleftrightarrow> w = 0"
      using rep_value [OF rep x w] by auto
    have code: "code_at M [] (i # rest) = map Op ?test @ Jump (Some ?c) ?l # code_at M [] rest"
      using False i next_p by (auto simp: select_at_def is_binary_def Let_def)
    have "reaches entry invoke all (code_at M [] (i # rest)) s (Jump (Some ?c) ?l # code_at M [] rest) t"
      unfolding code by (rule reaches_exec [OF t(1)])
    also have "reaches entry invoke all (Jump (Some ?c) ?l # code_at M [] rest) t (code_at M [] rest') t"
      by (rule reaches_step) (use t(3,4) e at(1) in auto)
    finally show ?thesis
      using rep_agrees [OF rep t(2) M] t(2) p e f at(2) next_p by auto
  qed
qed

text \<open>One instruction that does not return.\<close>

lemma body_step:
  assumes M: "frame_map M S V" and rep: "rep M S b st s" and sp: "stack_at (S + V) b c s" and ob: "obeys D callee entry invoke" and D: "D < 2 ^ 60"
    and all: "all = pre @ code_at M [] prog" "\<And>l. Mark l \<notin> set pre"
    and cd: "at_code M S c [] prog" "at_code M S c (ir_args st) (i # rest)"
    and step: "ir_step callee prog i rest st = Ret (Continue rest' st')"
  shows "\<exists>t. reaches entry invoke all (code_at M (ir_args st) (i # rest)) s (code_at M (ir_args st') rest') t \<and>
    rep M S b st' t \<and> stable (8 * (S + V) + 264 + D) b s t \<and> at_code M S c (ir_args st') rest'"
proof -
  note f = at_code_Cons [OF cd(2)]
  consider (straight) "straight (in_op i)" | (branch) "in_op i \<in> {IR_JMP, IR_JZ, IR_JNZ}" | (call) "in_op i = IR_CALL"
    | (arg) "in_op i = IR_ARG" | (label) "in_op i = IR_LABEL" | (ret) "in_op i = IR_RET"
    by (auto simp: straight_def)
  then show ?thesis
  proof cases
    case straight
    then have p: "ir_args st = []" "next_pending (ir_args st) i = []" using f by (auto simp: straight_def)
    have load: "in_op i = IR_LOAD \<Longrightarrow> in_src1 i < S" and store: "in_op i = IR_STORE \<Longrightarrow> in_dest i < S" and ops: "\<forall>v\<in>operands [] i. M v \<noteq> LOC_NONE"
      using f by (auto simp: runnable_def p)
    obtain xs where x: "select_at M [] i = map Op xs" "matches M S V b s (ir_effect i st) (exec_all xs s)"
      using straight_step [OF M rep straight ops load store] by blast
    have m: "ir_effect i st = Ret st'" "rest' = rest"
      using step unfolding ir_step_straight [OF straight] by (cases "ir_effect i st"; simp)+
    then obtain t where t: "exec_all xs s = Ret t" "rep M S b st' t" "stable (8 * (S + V)) b s t"
      using x(2) by (auto simp: matches_def)
    have "ir_args st' = []" using ir_effect_args [OF m(1)] p by simp
    then show ?thesis
      using reaches_exec [OF t(1)] t(2) stable_mono [OF t(3)] f p by (intro exI [of _ t]) (simp add: x(1) m(2))
  next
    case branch
    show ?thesis
      using branch_step [OF M rep branch all cd step, of entry invoke] stable_agrees by blast
  next
    case call
    have ops: "\<forall>v\<in>operands (ir_args st) i. M v \<noteq> LOC_NONE" "length (ir_args st) \<le> 32" and c: c and at: "at_code M S c [] rest"
      using f call by (auto simp: runnable_def MAX_PARAMS_PER_FUNCTION_def)
    then have top: "mc_regs s REG_RSP = b - 48 - of_nat (8 * (S + V))" using sp by (simp add: stack_at_def)
    show ?thesis
      using call_step [OF M rep top ob D call ops step, of all "code_at M [] rest"] at call by (auto simp del: of_nat_mult of_nat_add)
  next
    case arg
    then have "select_at M (ir_args st) i = []" "rest' = rest" "st' = st\<lparr>ir_args := ir_args st @ [in_src1 i]\<rparr>"
      using step by (auto simp: select_at_def is_binary_def Let_def ir_step_def)
    then show ?thesis using f arg rep by (intro exI [of _ s]) (simp add: stable_def)
  next
    case label
    then have p: "ir_args st = []" "in_label i < MAX_LABELS" "rest' = rest" "st' = st" "at_code M S c [] rest"
      using f step by (auto simp: runnable_def ir_step_def)
    have "code_at M [] (i # rest) = Mark (in_label i) # code_at M [] rest"
      using p label by (simp add: select_at_def is_binary_def Let_def)
    moreover have "reaches entry invoke all (Mark (in_label i) # code_at M [] rest) s (code_at M [] rest) s" by (rule reaches_step) simp
    ultimately show ?thesis using p rep by (intro exI [of _ s]) (simp add: stable_def)
  qed (use step in \<open>simp add: ir_step_def outcome_simps\<close>)
qed

text \<open>Every run that returns a value: the code comes to its epilogue with the value in \<open>rax\<close>.\<close>

theorem body_runs:
  assumes M: "frame_map M S V" and ob: "obeys D callee entry invoke" and D: "D < 2 ^ 60"
    and all: "all = pre @ code_at M [] prog" "\<And>l. Mark l \<notin> set pre" and cd: "at_code M S c [] prog"
  shows "ir_run callee n prog rest st = Ret w \<Longrightarrow> rep M S b st s \<Longrightarrow> stack_at (S + V) b c s \<Longrightarrow> at_code M S c (ir_args st) rest \<Longrightarrow>
    \<exists>t js. reaches entry invoke all (code_at M (ir_args st) rest) s (map Op epilogue @ js) t \<and> mc_regs t REG_RAX = w \<and>
      stable (8 * (S + V) + 264 + D) b s t"
proof (induction n arbitrary: rest st s)
  case (Suc n)
  obtain i rest0 where rest: "rest = i # rest0" using Suc.prems(1) by (cases rest) auto
  obtain p where p: "ir_step callee prog i rest0 st = Ret p"
      "(case p of Return v \<Rightarrow> Ret v | Continue rest st \<Rightarrow> ir_run callee n prog rest st) = Ret w"
    using Suc.prems(1) by (auto simp: rest outcome_simps)
  note at = Suc.prems(4) [unfolded rest]
  show ?case
  proof (cases p)
    case (Return v)
    then have ret: "in_op i = IR_RET" "ir_value st (in_src1 i) = Ret w"
      using p by (auto simp: ir_step_def Let_def outcome_simps split: opcode.splits if_splits)
    let ?x = "M (in_src1 i)"
    have x: "?x \<noteq> LOC_NONE" using at_code_Cons [OF at] ret(1) by (simp add: operands_def is_binary_def)
    then have "placed_at ?x" using M by (simp add: frame_map_def)
    note e = exec_load_sel [OF this, of REG_RAX s]
    have "code_at M (ir_args st) rest = map Op (load_sel REG_RAX ?x) @ (map Op epilogue @ code_at M (next_pending (ir_args st) i) rest0)"
      by (simp add: rest select_at_def ret(1) is_binary_def Let_def)
    then have "reaches entry invoke all (code_at M (ir_args st) rest) s (map Op epilogue @ code_at M (next_pending (ir_args st) i) rest0)
        (set_reg REG_RAX (loc_value s ?x) s)"
      by (simp only:) (rule reaches_exec [OF e])
    then show ?thesis
      using rep_value [OF Suc.prems(2) x ret(2)] by (intro exI [of _ "set_reg REG_RAX (loc_value s ?x) s"] exI) (auto simp: stable_def)
  next
    case (Continue rest' st')
    obtain u where u: "reaches entry invoke all (code_at M (ir_args st) rest) s (code_at M (ir_args st') rest') u"
        "rep M S b st' u" "stable (8 * (S + V) + 264 + D) b s u" "at_code M S c (ir_args st') rest'"
      using body_step [OF M Suc.prems(2,3) ob D all cd at p(1) [unfolded Continue]] rest by blast
    have "ir_run callee n prog rest' st' = Ret w" using p(2) by (simp add: Continue)
    from Suc.IH [OF this u(2) stack_at_stable [OF Suc.prems(3) u(3)] u(4)]
    obtain t js where "reaches entry invoke all (code_at M (ir_args st') rest') u (map Op epilogue @ js) t" "mc_regs t REG_RAX = w"
        "stable (8 * (S + V) + 264 + D) b u t"
      by blast
    then show ?thesis using reaches_trans [OF u(1)] stable_trans [OF u(3)] by blast
  qed
qed simp

end
