(* ===== verification/FunctionCall.thy ===== *)
theory FunctionCall
  imports FunctionRun
begin

text \<open>
  A call of a compiled function: the prologue saves registers and parameters, the body runs, the epilogue
  restores. Together they obey the calling convention that the body relies on for its own calls.
\<close>

section \<open>Prologue\<close>

definition saved :: "x86_reg list" where
  "saved = [REG_RBX, REG_R12, REG_R13, REG_R14, REG_R15]"

lemma below_more: "below (sp - of_nat k) n a \<Longrightarrow> k + n \<le> m \<Longrightarrow> k + n < 2 ^ 63 \<Longrightarrow> below sp m a"
  using below_shift by (fastforce simp: below_def)

text \<open>\<open>e\<close> is the state at the entry, with the return address on top of the stack.\<close>

lemma exec_frame:
  fixes e :: machine
  assumes k: "k < 2 ^ 31"
  defines "b \<equiv> mc_regs e REG_RSP - 8"
  shows "\<exists>t. exec_all (frame_sel k) e = Ret t \<and> mc_regs t REG_RBP = b \<and> mc_regs t REG_RSP = b - 40 - of_nat k \<and>
    (\<forall>r. r \<notin> {REG_RAX, REG_RSP, REG_RBP} \<longrightarrow> mc_regs t r = mc_regs e r) \<and>
    load64 (mc_mem t) b = mc_regs e REG_RBP \<and> (\<forall>j < 5. load64 (mc_mem t) (b - of_nat (8 * j) - 8) = mc_regs e (saved ! j)) \<and>
    changes_below (mc_regs e REG_RSP) 48 (mc_mem e) (mc_mem t)"
proof -
  let ?u = "set_reg REG_RBP b (push (mc_regs e REG_RBP) e)" and ?L = "map LOC_REG saved"
  let ?sub = "if k > 0 then [AluImm32 A_Sub REG_RSP (of_nat k)] else []"
  have u: "exec_all [Push REG_RBP, MovRR REG_RBP REG_RSP] e = Ret ?u" by (simp add: push_def Let_def b_def)
  have u': "mc_regs ?u REG_RSP = b" "mc_regs ?u REG_RBP = b" "mc_mem ?u = store64 b (mc_regs e REG_RBP) (mc_mem e)"
    "\<forall>r. r \<notin> {REG_RSP, REG_RBP} \<longrightarrow> mc_regs ?u r = mc_regs e r"
    by (simp_all add: push_def Let_def b_def)
  have L: "list_all (reachable_loc ?u (8 * length ?L)) ?L" "length ?L = 5" by (simp_all add: saved_def reachable_loc_def)
  have pushes: "concat (map push_reg_sel ?L) = map Push saved" by (simp add: saved_def push_reg_sel_def)
  obtain v where v: "exec_all (map Push saved) ?u = Ret v" "mc_regs v REG_RSP = b - 40"
      "\<forall>r. r \<notin> {REG_RAX, REG_RSP} \<longrightarrow> mc_regs v r = mc_regs ?u r" "changes_below b 40 (mc_mem ?u) (mc_mem v)"
      "\<forall>j < 5. load64 (mc_mem v) (b - of_nat (8 * j) - 8) = loc_value ?u (?L ! j)"
    using exec_pushes [OF pushes_reg L(1)] unfolding L(2) pushes u'(1) by auto
  obtain t where t: "exec_all ?sub v = Ret t" "mc_regs t = (mc_regs v)(REG_RSP := b - 40 - of_nat k)" "mc_mem t = mc_mem v"
    using exec_adjust(1) [OF k, of v] v(2) by (cases "k > 0") (auto simp: fun_upd_idem simp del: exec.simps)
  have "frame_sel k = [Push REG_RBP, MovRR REG_RBP REG_RSP] @ map Push saved @ ?sub" by (simp add: frame_sel_def saved_def)
  then have "exec_all (frame_sel k) e = Ret t" by (simp only: exec_all_append u v(1) t(1) obind.simps)
  moreover have "loc_value ?u (?L ! j) = mc_regs e (saved ! j)" if "j < 5" for j
  proof -
    have "saved ! j \<in> set saved" using that by (intro nth_mem) (simp add: saved_def)
    then have "saved ! j \<notin> {REG_RSP, REG_RBP}" by (auto simp: saved_def)
    moreover have "?L ! j = LOC_REG (saved ! j)" using that by (intro nth_map) (simp add: saved_def)
    ultimately show ?thesis using u'(4) by simp
  qed
  moreover have "load64 (mc_mem v) b = mc_regs e REG_RBP"
    using load64_clear [OF v(4), of b, unfolded u'(3)] clear_above [of 0 40 b] by (simp add: load64_store)
  moreover have "changes_below (mc_regs e REG_RSP) 48 (mc_mem e) (mc_mem v)"
  proof (rule changes_below_trans)
    show "changes_below (mc_regs e REG_RSP) 48 (mc_mem e) (mc_mem ?u)"
      unfolding u'(3) using store64_below [of 0 48 "mc_regs e REG_RSP"] by (simp add: b_def)
    show "changes_below (mc_regs e REG_RSP) 48 (mc_mem ?u) (mc_mem v)"
      using changes_below_shift [of "mc_regs e REG_RSP" 8 40] v(4) by (simp add: b_def)
  qed
  ultimately show ?thesis using t(2,3) v(3,5) u' by (intro exI [of _ t]) simp
qed

section \<open>Parameters\<close>

definition ir_start :: "u64 list \<Rightarrow> ir_state" where
  "ir_start args = \<lparr>ir_regs = (\<lambda>v. if v \<in> {1..length args} then Some (args ! (v - 1)) else None), ir_slots = (\<lambda>_. None), ir_args = []\<rparr>"

lemma ir_start_Suc: "k < length args \<Longrightarrow> ir_start (take (Suc k) args) = set_vreg (k + 1) (args ! k) (ir_start (take k args))"
  unfolding ir_start_def set_vreg_def
  by (rule ir_state.equality) (auto simp: fun_eq_iff nth_append take_Suc_conv_app_nth)

text \<open>Argument \<open>j\<close> as the body finds it, behind the return address and the saved frame pointer.\<close>

definition param_value :: "u64 \<Rightarrow> machine \<Rightarrow> nat \<Rightarrow> u64" where
  "param_value b s j = (if j < 6 then mc_regs s (arg_registers ! j) else load64 (mc_mem s) (b + of_nat (16 + 8 * (j - 6))))"

lemma arg_register: "j < 6 \<Longrightarrow> arg_registers ! j \<in> {REG_RDI, REG_RSI, REG_RDX, REG_RCX, REG_R8, REG_R9}"
proof -
  assume "j < 6"
  then have "take 6 arg_registers ! j \<in> set (take 6 arg_registers)" by (intro nth_mem) (simp add: arg_registers_def)
  moreover have "take 6 arg_registers ! j = arg_registers ! j" using \<open>j < 6\<close> by simp
  ultimately show ?thesis by (simp add: arg_registers_def)
qed

lemma exec_param:
  assumes l: "placed_at l" and j: "j < 2 ^ 20" and b: "mc_regs s REG_RBP = b"
  shows "\<exists>u. exec_all (param_sel j l) s = Ret (set_loc l (param_value b s j) u) \<and> agrees s u \<and> (\<forall>i < 6. mc_regs u (arg_registers ! i) = mc_regs s (arg_registers ! i))"
proof (cases "j < 6")
  case True
  then show ?thesis using exec_store_sel [OF l, of "arg_registers ! j" s] by (intro exI [of _ s]) (simp add: param_sel_def param_value_def)
next
  case False
  let ?x = "of_nat (2 * WORD_SIZE + (j - 6) * WORD_SIZE) :: u32"
  have "scast ?x = (of_nat (2 * WORD_SIZE + (j - 6) * WORD_SIZE) :: u64)" by (rule scast_small) (use j in \<open>simp add: WORD_SIZE_def\<close>)
  then have a: "load64 (mc_mem s) (address s REG_RBP ?x) = param_value b s j"
    using False by (simp add: address_def b param_value_def WORD_SIZE_def mult.commute)
  show ?thesis
  proof (cases l)
    case (LOC_REG r)
    then show ?thesis using False a by (intro exI [of _ s]) (simp add: param_sel_def)
  next
    case (LOC_STACK y)
    then have "exec_all (param_sel j l) s = exec_all (store_sel l REG_RAX) (set_reg REG_RAX (param_value b s j) s)"
      using False a by (simp add: param_sel_def)
    then show ?thesis
      using exec_store_sel [OF l, of REG_RAX "set_reg REG_RAX (param_value b s j) s"] arg_register
      by (intro exI [of _ "set_reg REG_RAX (param_value b s j) s"]) fastforce
  qed (use l in simp_all)
qed

lemma set_loc_arg: "placed_at l \<Longrightarrow> i < 6 \<Longrightarrow> mc_regs (set_loc l w s) (arg_registers ! i) = mc_regs s (arg_registers ! i)"
  using arg_register [of i] by (cases l) auto

lemma exec_params:
  assumes M: "frame_map M S V" and s: "mc_regs s REG_RBP = b"
  shows "k \<le> length args \<Longrightarrow> k < 2 ^ 20 \<Longrightarrow> \<forall>j < k. M (j + 1) \<noteq> LOC_NONE \<Longrightarrow> \<forall>j < k. param_value b s j = args ! j \<Longrightarrow>
    \<exists>t. exec_all (concat (map (\<lambda>j. param_sel j (M (j + 1))) [0..<k])) s = Ret t \<and> rep M S b (ir_start (take k args)) t \<and>
      stable (8 * (S + V)) b s t \<and> (\<forall>i < 6. mc_regs t (arg_registers ! i) = mc_regs s (arg_registers ! i))"
proof (induction k)
  case 0
  then show ?case using s by (simp add: rep_def stable_def ir_start_def)
next
  case (Suc k)
  then obtain t where t: "exec_all (concat (map (\<lambda>j. param_sel j (M (j + 1))) [0..<k])) s = Ret t" "rep M S b (ir_start (take k args)) t"
      "stable (8 * (S + V)) b s t" "\<forall>i < 6. mc_regs t (arg_registers ! i) = mc_regs s (arg_registers ! i)"
    by auto
  have SV: "S + V < 2 ^ 27" using M by (simp add: frame_map_def)
  have b: "mc_regs t REG_RBP = b" using t(2) by (simp add: rep_def)
  have l: "M (k + 1) \<noteq> LOC_NONE" "k < 2 ^ 20" using Suc.prems by auto
  then have p: "placed_at (M (k + 1))" using M by (simp add: frame_map_def)
  have "param_value b t k = param_value b s k"
  proof -
    have ch: "changes_below (b - 48) (8 * (S + V)) (mc_mem s) (mc_mem t)" using t(3) by (simp add: stable_def changes_below_def)
    have "b + of_nat (16 + 8 * (k - 6)) = b - 48 + of_nat (64 + 8 * (k - 6))" by simp
    moreover have "clear (b - 48) (8 * (S + V)) (b - 48 + of_nat (64 + 8 * (k - 6)))" by (rule clear_above) (use SV l(2) in simp)
    ultimately have "load64 (mc_mem t) (b + of_nat (16 + 8 * (k - 6))) = load64 (mc_mem s) (b + of_nat (16 + 8 * (k - 6)))"
      using load64_clear [OF ch] by (simp only:)
    then show ?thesis using t(4) by (simp only: param_value_def split: if_splits) blast
  qed
  then have v: "param_value b t k = args ! k" using Suc.prems(4) by simp
  obtain u where u: "exec_all (param_sel k (M (k + 1))) t = Ret (set_loc (M (k + 1)) (args ! k) u)" "agrees t u"
      "\<forall>i < 6. mc_regs u (arg_registers ! i) = mc_regs t (arg_registers ! i)"
    using exec_param [OF p l(2) b] unfolding v by blast
  note r = rep_assign [OF M rep_agrees [OF t(2) u(2) M] l(1), of "args ! k"]
  let ?u = "set_loc (M (k + 1)) (args ! k) u"
  have "rep M S b (ir_start (take (Suc k) args)) ?u" using r(1) ir_start_Suc [of k args] Suc.prems(1) by simp
  moreover have "stable (8 * (S + V)) b s ?u" using stable_trans [OF stable_trans [OF t(3) stable_agrees [OF u(2)]] r(2)] .
  moreover have "\<forall>i < 6. mc_regs ?u (arg_registers ! i) = mc_regs s (arg_registers ! i)" using set_loc_arg [OF p] u(3) t(4) by simp
  moreover have "exec_all (concat (map (\<lambda>j. param_sel j (M (j + 1))) [0..<Suc k])) s = Ret ?u"
    using t(1) u(1) by (simp add: exec_all_append)
  ultimately show ?case by blast
qed

end
