(* ===== verification/FunctionCorrect.thy ===== *)
theory FunctionCorrect
  imports FunctionCall
begin

text \<open>
  Correctness of the code of one function: called with the arguments of a run of the intermediate code
  that returns a value, it returns with this value in \<open>rax\<close>, by the System V calling convention.
\<close>

section \<open>Epilogue\<close>

definition restored :: "x86_reg list" where
  "restored = [REG_R15, REG_R14, REG_R13, REG_R12, REG_RBX, REG_RBP]"

lemma epilogue_eq: "epilogue = (Lea8 REG_RSP REG_RBP (- 40) # map Pop restored) @ [RetN]"
  by (simp add: epilogue_def restored_def)

lemma exec_epilogue:
  assumes b: "mc_regs s REG_RBP = b"
  shows "\<exists>t. exec_all (Lea8 REG_RSP REG_RBP (- 40) # map Pop restored) s = Ret t \<and> mc_regs t REG_RSP = b + 8 \<and> mc_mem t = mc_mem s \<and>
    mc_regs t REG_RAX = mc_regs s REG_RAX \<and> (\<forall>j < 6. mc_regs t (restored ! j) = load64 (mc_mem s) (b - 40 + of_nat (8 * j)))"
proof -
  let ?u = "set_reg REG_RSP (b - 40) s"
  have u: "exec (Lea8 REG_RSP REG_RBP (- 40)) s = Ret ?u" by (simp add: b)
  have "distinct restored" "REG_RSP \<notin> set restored" "REG_RAX \<notin> insert REG_RSP (set restored)" "length restored = 6" by (simp_all add: restored_def)
  then show ?thesis using exec_pops [of restored ?u] by (auto simp: u simp del: exec.simps)
qed

section \<open>Functions\<close>

text \<open>The code of a function, and what the generator of intermediate code guarantees of it.\<close>

definition function_code :: "ir_function \<Rightarrow> nat \<Rightarrow> item list \<Rightarrow> bool" where
  "function_code f k items \<longleftrightarrow>
     (let S = if_stack_count f; V = if_vreg_count f; is = ir_code f in
      (\<exists>a. select_function f k = Ret (items, a)) \<and> k < V \<and> k < 2 ^ 20 \<and> S + V < 2 ^ 27 \<and> if_label_count f \<le> MAX_LABELS \<and>
      (\<exists>S0. list_all (instr_ok V S0 S (if_label_count f)) is) \<and> arg_run 0 is \<noteq> None \<and>
      (even (S + V) \<or> list_all (\<lambda>i. in_op i \<noteq> IR_CALL) is))"

text \<open>The final map of the allocator.\<close>

lemma select_params_dom:
  "select_params n i a = Ret (ps, b) \<Longrightarrow> al_map b w \<noteq> LOC_NONE \<Longrightarrow> al_map a w \<noteq> LOC_NONE \<or> w \<in> {i + 1..i + n}"
proof (induction n arbitrary: i a ps)
  case (Suc n)
  then obtain l a1 qs where "al_location a (i + 1) = Ret (l, a1)" "select_params n (i + 1) a1 = Ret (qs, b)"
    by (auto simp: outcome_simps simp del: One_nat_def)
  then show ?case using Suc.IH [of "i + 1" a1 qs] Suc.prems(2) al_location_dom [of a "i + 1" l a1 w] by auto
qed simp

lemma select_params_pending: "select_params n i a = Ret (ps, b) \<Longrightarrow> al_pending b = al_pending a"
  by (induction n arbitrary: i a ps) (auto simp: outcome_simps dest!: al_location_pending simp del: One_nat_def)

lemma alloc_frame_map:
  assumes ok: "alloc_ok a" and dom: "\<And>v. al_map a v \<noteq> LOC_NONE \<Longrightarrow> v < V" and n: "al_base a + V < 2 ^ 27"
  shows "frame_map (al_map a) (al_base a) V"
proof -
  have "placed_at (al_map a v)" if "al_map a v \<noteq> LOC_NONE" for v
  proof (cases "al_map a v")
    case (LOC_REG r)
    then show ?thesis using alloc_ok_reg [OF ok LOC_REG] by (auto simp: saved_registers_def)
  qed (use that ok in \<open>simp_all add: alloc_ok_def\<close>)
  then show ?thesis using ok dom n by (auto simp: frame_map_def alloc_ok_def spill_local)
qed

lemma instr_runnable:
  "instr_ok V S0 S L i \<Longrightarrow> L \<le> MAX_LABELS \<Longrightarrow> (in_op i = IR_CALL \<longrightarrow> c) \<Longrightarrow> runnable M S c i"
  by (auto simp: runnable_def instr_ok_def Let_def)

lemma function_codeD:
  assumes "function_code f k items"
  obtains M where "frame_map M (if_stack_count f) (if_vreg_count f)"
    "items = map Op (frame_sel (calculate_aligned_stack_size f) @ concat (map (\<lambda>j. param_sel j (M (j + 1))) [0..<k])) @ code_at M [] (ir_code f)"
    "\<forall>j < k. M (j + 1) \<noteq> LOC_NONE" "at_code M (if_stack_count f) (even (if_stack_count f + if_vreg_count f)) [] (ir_code f)"
    "k < 2 ^ 20" "if_stack_count f + if_vreg_count f < 2 ^ 27"
proof -
  let ?S = "if_stack_count f" and ?V = "if_vreg_count f" and ?is = "ir_code f"
  obtain b S0 where f: "select_function f k = Ret (items, b)" "k < ?V" "k < 2 ^ 20" "?S + ?V < 2 ^ 27" "if_label_count f \<le> MAX_LABELS"
      "list_all (instr_ok ?V S0 ?S (if_label_count f)) ?is" "arg_run 0 ?is \<noteq> None" "even (?S + ?V) \<or> list_all (\<lambda>i. in_op i \<noteq> IR_CALL) ?is"
    using assms unfolding function_code_def Let_def by blast
  obtain ps a ys where p: "select_params k 0 (initial_alloc ?S) = Ret (ps, a)" and ys: "select_all ?is a = Ret (ys, b)"
      and items: "items = map Op (frame_sel (calculate_aligned_stack_size f) @ ps) @ ys"
    using f(1) by (auto simp: select_function_def outcome_simps)
  note P = select_params_code [OF initial_alloc_ok p]
  have a: "alloc_ok a" "alloc_le (initial_alloc ?S) a" using P by auto
  note B = select_all_le [OF a(1) ys]
  have le: "alloc_le a b" using B by blast
  have pend: "al_pending a = []" using select_params_pending [OF p] by (simp add: initial_alloc_def)
  note C = select_all_code_at [OF a(1) ys alloc_le_refl]
  have base: "al_base b = ?S" using a(2) le by (simp add: alloc_le_def initial_alloc_def)
  have dom_a: "w < ?V" if "al_map a w \<noteq> LOC_NONE" for w
    using select_params_dom [OF p that] f(2) by (auto simp: initial_alloc_def)
  have dom_b: "w < ?V" if "al_map b w \<noteq> LOC_NONE" for w
    using select_all_dom [OF ys f(6) _ dom_a that] by (simp add: pend)
  have M: "frame_map (al_map b) ?S ?V" using alloc_frame_map [of b ?V] B dom_b f(4) by (simp add: base)
  have ps: "ps = concat (map (\<lambda>j. param_sel j (al_map b (j + 1))) [0..<k])" "\<forall>j < k. al_map b (j + 1) \<noteq> LOC_NONE" using P le by auto
  have "list_all (runnable (al_map b) ?S (even (?S + ?V))) ?is"
    using f(5,6,8) by (auto simp: list_all_iff intro!: instr_runnable)
  then have "at_code (al_map b) ?S (even (?S + ?V)) [] ?is" using C f(7) by (simp add: at_code_def pend)
  then show thesis using that [OF M _ ps(2) _ f(3,4)] C by (simp add: items ps(1) pend)
qed

section \<open>Calls\<close>

text \<open>
  A call pushes the return address \<open>ret\<close>, runs the code, and is back when the code returns to that
  address.
\<close>

definition call_items ::
  "(string \<Rightarrow> u64) \<Rightarrow> (nat \<Rightarrow> item list \<Rightarrow> u64 \<Rightarrow> machine \<Rightarrow> machine outcome) \<Rightarrow> nat \<Rightarrow> item list \<Rightarrow> u64 \<Rightarrow> machine \<Rightarrow> machine outcome" where
  "call_items entry invoke n items ret s =
     obind (item_run entry invoke n items items (push ret s)) (\<lambda>(a, t). if a = ret then Ret t else Fault Undefined)"

text \<open>Bytes of stack a call takes, when those it makes take \<open>D\<close>.\<close>

definition stack_use :: "ir_function \<Rightarrow> nat \<Rightarrow> nat" where
  "stack_use f D = 8 * (if_stack_count f + if_vreg_count f) + 328 + D"

text \<open>The state when the body starts: the saved registers, the return address and the parameters are in place.\<close>

lemma exec_prologue:
  fixes f :: ir_function and s :: machine
  defines "b \<equiv> mc_regs s REG_RSP - 16" and "S \<equiv> if_stack_count f" and "V \<equiv> if_vreg_count f"
  assumes M: "frame_map M S V" and k: "k < 2 ^ 20" "k = length args" "\<forall>j < k. M (j + 1) \<noteq> LOC_NONE" and args: "\<forall>j < k. arg_value s j = args ! j"
  shows "\<exists>t. exec_all (frame_sel (calculate_aligned_stack_size f) @ concat (map (\<lambda>j. param_sel j (M (j + 1))) [0..<k])) (push ret s) = Ret t \<and>
    rep M S b (ir_start args) t \<and> stack_at (S + V) b (even (S + V)) t \<and>
    load64 (mc_mem t) (b + 8) = ret \<and> (\<forall>j < 6. load64 (mc_mem t) (b - 40 + of_nat (8 * j)) = mc_regs s (restored ! j)) \<and>
    changes_below (mc_regs s REG_RSP) (64 + 8 * (S + V)) (mc_mem s) (mc_mem t)"
proof -
  let ?e = "push ret s" and ?k = "calculate_aligned_stack_size f"
  have n: "S + V < 2 ^ 27" using M by (simp add: frame_map_def)
  have K: "?k = 8 * (S + V) + (if even (S + V) then 8 else 0)" unfolding S_def V_def by (rule frame_size)
  then have K': "?k < 2 ^ 31" using n by simp
  have e: "mc_regs ?e REG_RSP = mc_regs s REG_RSP - 8" "mc_mem ?e = store64 (mc_regs s REG_RSP - 8) ret (mc_mem s)"
    "\<forall>r. r \<noteq> REG_RSP \<longrightarrow> mc_regs ?e r = mc_regs s r"
    by (simp_all add: push_def Let_def)
  have b: "mc_regs ?e REG_RSP - 8 = b" by (simp add: e(1) b_def)
  obtain u where u: "exec_all (frame_sel ?k) ?e = Ret u" "mc_regs u REG_RBP = b" "mc_regs u REG_RSP = b - 40 - of_nat ?k"
      "\<forall>r. r \<notin> {REG_RAX, REG_RSP, REG_RBP} \<longrightarrow> mc_regs u r = mc_regs ?e r"
      "load64 (mc_mem u) b = mc_regs ?e REG_RBP" "\<forall>j < 5. load64 (mc_mem u) (b - of_nat (8 * j) - 8) = mc_regs ?e (saved ! j)"
      "changes_below (mc_regs ?e REG_RSP) 48 (mc_mem ?e) (mc_mem u)"
    using exec_frame [OF K', of ?e] unfolding b by blast
  have eb: "mc_regs ?e REG_RSP = b + 8" by (simp add: e(1) b_def)
  have ret_u: "load64 (mc_mem u) (b + 8) = ret"
    using load64_clear [OF u(7), of "b + 8"] clear_above [of 0 48 "b + 8"] e(2) by (simp add: eb b_def load64_store)
  have mem_e: "changes_below (mc_regs s REG_RSP) 56 (mc_mem s) (mc_mem ?e)"
    using store64_below [of 0 56 "mc_regs s REG_RSP"] by (simp add: e(2))
  have mem_u: "changes_below (mc_regs s REG_RSP) 56 (mc_mem s) (mc_mem u)"
    by (rule changes_below_trans [OF mem_e]) (use changes_below_shift [of "mc_regs s REG_RSP" 8 48] u(7) e(1) in simp)
  have params: "\<forall>j < k. param_value b u j = args ! j"
  proof (intro allI impI)
    fix j assume j: "j < k"
    have "param_value b u j = arg_value s j"
    proof (cases "j < 6")
      case True
      then have "arg_registers ! j \<notin> {REG_RAX, REG_RSP, REG_RBP}" using arg_register [OF True] by auto
      then show ?thesis using True u(4) e(3) by (simp add: param_value_def arg_value_def)
    next
      case False
      have "b + of_nat (16 + 8 * (j - 6)) = mc_regs s REG_RSP + of_nat (8 * (j - 6))" by (simp add: b_def)
      moreover have "clear (mc_regs s REG_RSP) 56 (mc_regs s REG_RSP + of_nat (8 * (j - 6)))"
        by (rule clear_above) (use j k(1) in simp)
      ultimately have "load64 (mc_mem u) (b + of_nat (16 + 8 * (j - 6))) = load64 (mc_mem s) (mc_regs s REG_RSP + of_nat (8 * (j - 6)))"
        using load64_clear [OF mem_u] by (simp only:)
      then show ?thesis using False by (simp only: param_value_def arg_value_def if_False)
    qed
    then show "param_value b u j = args ! j" using args j by simp
  qed
  obtain t where t: "exec_all (concat (map (\<lambda>j. param_sel j (M (j + 1))) [0..<k])) u = Ret t" "rep M S b (ir_start (take k args)) t"
      "stable (8 * (S + V)) b u t"
    using exec_params [OF M u(2) _ k(1,3) params] k(2) by auto
  have ch: "changes_below (b - 48) (8 * (S + V)) (mc_mem u) (mc_mem t)" using t(3) by (simp add: stable_def changes_below_def)
  have kept: "load64 (mc_mem t) (b - 48 + of_nat d) = load64 (mc_mem u) (b - 48 + of_nat d)" if "d \<le> 64" for d
    using that n by (intro load64_clear [OF ch] clear_above) simp
  have "load64 (mc_mem t) (b + 8) = ret" using kept [of 56] ret_u by (simp add: add.commute)
  moreover have "load64 (mc_mem t) (b - 40 + of_nat (8 * j)) = mc_regs s (restored ! j)" if j: "j < 6" for j
  proof -
    have "load64 (mc_mem t) (b - 40 + of_nat (8 * j)) = load64 (mc_mem u) (b - 40 + of_nat (8 * j))"
      using kept [of "8 + 8 * j"] j by (simp add: algebra_simps)
    also have "\<dots> = mc_regs ?e (restored ! j)"
    proof (cases "j = 5")
      case True
      then show ?thesis using u(5) by (simp add: restored_def)
    next
      case False
      then have "4 - j < 5" "restored ! j = saved ! (4 - j)" using j by (auto simp: restored_def saved_def less_Suc_eq numeral_eq_Suc)
      moreover have "b - 40 + of_nat (8 * j) = b - of_nat (8 * (4 - j)) - 8"
      proof -
        have "(40 :: nat) = 8 * (4 - j) + 8 * j + 8" using False j by simp
        then have forty: "(40 :: u64) = of_nat (8 * (4 - j)) + of_nat (8 * j) + 8" by (metis of_nat_add of_nat_numeral)
        show ?thesis unfolding forty by simp
      qed
      ultimately show ?thesis using u(6) by metis
    qed
    also have "\<dots> = mc_regs s (restored ! j)"
    proof -
      have "restored ! j \<in> set restored" using j by (intro nth_mem) (simp add: restored_def)
      then show ?thesis using e(3) by (auto simp: restored_def)
    qed
    finally show ?thesis .
  qed
  moreover have "changes_below (mc_regs s REG_RSP) (64 + 8 * (S + V)) (mc_mem s) (mc_mem t)"
  proof (rule changes_below_trans [OF changes_below_mono [OF mem_u]])
    have "b - 48 = mc_regs s REG_RSP - of_nat 64" by (simp add: b_def)
    from ch [unfolded this] show "changes_below (mc_regs s REG_RSP) (64 + 8 * (S + V)) (mc_mem u) (mc_mem t)"
      by (rule changes_below_shift) (use n in simp)
  qed simp
  moreover have "stack_at (S + V) b (even (S + V)) t"
    using u(3) t(3) by (simp add: stack_at_def stable_def K)
  ultimately show ?thesis using u(1) t(1,2) k(2) by (simp add: exec_all_append)
qed

theorem function_returns:
  assumes fc: "function_code f k items" and ob: "obeys D callee entry invoke" and D: "D < 2 ^ 59"
    and run: "ir_run callee n (ir_code f) (ir_code f) (ir_start args) = Ret w"
    and args: "length args = k" "\<forall>j < k. arg_value s j = args ! j"
  shows "\<exists>t. eventually_returns (\<lambda>n. call_items entry invoke n items ret s) t \<and> mc_regs t REG_RAX = w \<and>
    (\<forall>r\<in>kept_registers. mc_regs t r = mc_regs s r) \<and> changes_below (mc_regs s REG_RSP) (stack_use f D) (mc_mem s) (mc_mem t)"
proof -
  let ?S = "if_stack_count f" and ?V = "if_vreg_count f" and ?b = "mc_regs s REG_RSP - 16"
  obtain M where M: "frame_map M ?S ?V"
      "items = map Op (frame_sel (calculate_aligned_stack_size f) @ concat (map (\<lambda>j. param_sel j (M (j + 1))) [0..<k])) @ code_at M [] (ir_code f)"
      "\<forall>j < k. M (j + 1) \<noteq> LOC_NONE" "at_code M ?S (even (?S + ?V)) [] (ir_code f)" "k < 2 ^ 20" "?S + ?V < 2 ^ 27"
    by (rule function_codeD [OF fc])
  let ?pro = "frame_sel (calculate_aligned_stack_size f) @ concat (map (\<lambda>j. param_sel j (M (j + 1))) [0..<k])"
  obtain p where p: "exec_all ?pro (push ret s) = Ret p" "rep M ?S ?b (ir_start args) p" "stack_at (?S + ?V) ?b (even (?S + ?V)) p"
      "load64 (mc_mem p) (?b + 8) = ret" "\<forall>j < 6. load64 (mc_mem p) (?b - 40 + of_nat (8 * j)) = mc_regs s (restored ! j)"
      "changes_below (mc_regs s REG_RSP) (64 + 8 * (?S + ?V)) (mc_mem s) (mc_mem p)"
    using exec_prologue [OF M(1,5) args(1) [symmetric] M(3) args(2), of ret] by blast
  have D': "D < 2 ^ 60" using D by simp
  have start: "ir_args (ir_start args) = []" by (simp add: ir_start_def)
  have at: "at_code M ?S (even (?S + ?V)) (ir_args (ir_start args)) (ir_code f)" using M(4) by (simp add: start)
  let ?N = "8 * (?S + ?V) + 264 + D"
  obtain u js where u: "reaches entry invoke items (code_at M (ir_args (ir_start args)) (ir_code f)) p (map Op epilogue @ js) u"
      "mc_regs u REG_RAX = w" "stable ?N ?b p u"
    using body_runs [OF M(1) ob D' M(2) no_mark_in_ops M(4) run p(2,3) at] by blast
  have N: "?N < 2 ^ 61" using D M(6) by simp
  have bu: "mc_regs u REG_RBP = ?b" using u(3) p(2) by (simp add: stable_def rep_def)
  have ch: "changes_below (?b - 48) ?N (mc_mem p) (mc_mem u)" using u(3) by (simp add: stable_def changes_below_def)
  have kept: "load64 (mc_mem u) (?b - 48 + of_nat d) = load64 (mc_mem p) (?b - 48 + of_nat d)" if "d \<le> 64" for d
    using that N by (intro load64_clear [OF ch] clear_above) simp
  obtain v where v: "exec_all (Lea8 REG_RSP REG_RBP (- 40) # map Pop restored) u = Ret v" "mc_regs v REG_RSP = ?b + 8" "mc_mem v = mc_mem u"
      "mc_regs v REG_RAX = mc_regs u REG_RAX" "\<forall>j < 6. mc_regs v (restored ! j) = load64 (mc_mem u) (?b - 40 + of_nat (8 * j))"
    using exec_epilogue [OF bu] by blast
  let ?t = "set_reg REG_RSP (mc_regs v REG_RSP + 8) v"
  have "reaches entry invoke items items (push ret s) (code_at M [] (ir_code f)) p"
    unfolding M(2) by (rule reaches_exec [OF p(1)])
  also have "reaches entry invoke items (code_at M [] (ir_code f)) p (map Op epilogue @ js) u" using u(1) by (simp only: start)
  also have "reaches entry invoke items (map Op epilogue @ js) u (Op RetN # js) v"
    using reaches_exec [OF v(1)] by (simp add: epilogue_eq)
  finally have ret: "eventually_returns (\<lambda>n. item_run entry invoke n items items (push ret s)) (load64 (mc_mem v) (mc_regs v REG_RSP), ?t)"
    by (rule reaches_return)
  have "load64 (mc_mem v) (mc_regs v REG_RSP) = ret" using kept [of 56] p(4) by (simp add: v(2,3) add.commute)
  then have "eventually_returns (\<lambda>n. call_items entry invoke n items ret s) ?t"
    using ret unfolding eventually_returns_def call_items_def by (elim exE) (intro exI, auto)
  moreover have "mc_regs ?t r = mc_regs s r" if r: "r \<in> kept_registers" for r
  proof (cases "r = REG_RSP")
    case False
    then have "r \<in> set restored" using r by (auto simp: kept_registers_def restored_def)
    moreover have "length restored = 6" by (simp add: restored_def)
    ultimately obtain j where j: "j < 6" "r = restored ! j" by (metis in_set_conv_nth)
    have "mc_regs v r = load64 (mc_mem p) (?b - 40 + of_nat (8 * j))"
      using v(5) j kept [of "8 + 8 * j"] by (simp add: algebra_simps)
    then show ?thesis using p(5) j False by simp
  qed (simp add: v(2))
  moreover have "changes_below (mc_regs s REG_RSP) (stack_use f D) (mc_mem s) (mc_mem ?t)"
  proof (rule changes_below_trans [OF changes_below_mono [OF p(6)]])
    have "?b - 48 = mc_regs s REG_RSP - of_nat 64" by simp
    from ch [unfolded this] have "changes_below (mc_regs s REG_RSP) (64 + ?N) (mc_mem p) (mc_mem u)"
      by (rule changes_below_shift) (use N in simp)
    then show "changes_below (mc_regs s REG_RSP) (stack_use f D) (mc_mem p) (mc_mem ?t)"
      using changes_below_mono [of "mc_regs s REG_RSP" "64 + ?N" "mc_mem p" "mc_mem u" "stack_use f D"] v(3) by (simp add: stack_use_def)
  qed (simp add: stack_use_def)
  ultimately show ?thesis using u(2) v(4) by (intro exI [of _ ?t]) simp
qed

end
