(* ===== verification/ProgramCorrect.thy ===== *)
theory ProgramCorrect
  imports FunctionCorrect Program
begin

text \<open>
  Correctness of the code of a whole program, functions that call each other and themselves included:
  a call that has a value in the intermediate code returns with it from the selected code. Both sides
  are run with a bound on the depth of calls.
\<close>

section \<open>Programs\<close>

text \<open>Calls of at most \<open>d\<close> nested functions, each of at most \<open>n\<close> instructions.\<close>

primrec ir_calls :: "ir_program \<Rightarrow> nat \<Rightarrow> nat \<Rightarrow> string \<Rightarrow> u64 list \<Rightarrow> u64 outcome" where
  "ir_calls P n 0 = (\<lambda>g args. Timeout)"
| "ir_calls P n (Suc d) = (\<lambda>g args.
     case map_of P g of
       None \<Rightarrow> Fault Undefined
     | Some (f, k) \<Rightarrow>
         if length args = k then ir_run (ir_calls P n d) n (ir_code f) (ir_code f) (ir_start args) else Fault Undefined)"

text \<open>
  The same on the processor: a call of an address runs the code placed there, and the return address of a
  call in this code is that of the code behind it.
\<close>

primrec machine_calls ::
  "placed_function list \<Rightarrow> (string \<Rightarrow> u64) \<Rightarrow> nat \<Rightarrow> nat \<Rightarrow> u64 \<Rightarrow> u64 \<Rightarrow> machine \<Rightarrow> machine outcome" where
  "machine_calls fs entry 0 = (\<lambda>n ret a s. Timeout)"
| "machine_calls fs entry (Suc d) = (\<lambda>n ret a s.
     case find (\<lambda>(g, base, items). of_nat base = a) fs of
       None \<Rightarrow> Fault Undefined
     | Some (g, base, items) \<Rightarrow>
         call_items entry (\<lambda>n rest. machine_calls fs entry d n (of_nat (base + items_size items - items_size rest))) n items ret s)"

definition code_entry :: "placed_function list \<Rightarrow> string \<Rightarrow> u64" where
  "code_entry fs g = (case map_of fs g of None \<Rightarrow> 0 | Some (addr, items) \<Rightarrow> of_nat addr)"

text \<open>
  A function whose frame keeps its slots above the stack pointer when it calls, is not too large, and has an
  argument list before every call.
\<close>

definition regular :: "string \<times> ir_function \<times> nat \<Rightarrow> bool" where
  "regular = (\<lambda>(g, f, k). if_stack_count f + if_vreg_count f < 2 ^ 27 \<and> arg_run 0 (ir_code f) \<noteq> None \<and>
     (even (if_stack_count f + if_vreg_count f) \<or> list_all (\<lambda>i. in_op i \<noteq> IR_CALL) (ir_code f)))"

lemma translated_code:
  assumes "translated stack0 d (g, f, k)" "selected (g, f, k) (h, addr, items)" "regular (g, f, k)"
  shows "function_code f k items"
proof -
  obtain i ret params body m errors filename errs where
      gen: "ir_gen (stack0 m) [] (AstFunction i g ret params body False) errors filename = Ret (Some f, errs)" and k: "k = length params"
    using assms(1) by (auto simp: translated_def)
  have inv: "fun_inv (stack0 m) (1 + length params) {} {} f" using ir_gen_inv [OF gen] by simp
  have "k < if_vreg_count f" "if_vreg_count f \<le> 65536"
    using inv by (auto simp: fun_inv_def Let_def k MAX_VREGS_PER_FUNCTION_def)
  moreover have "list_all (instr_ok (if_vreg_count f) (stack0 m) (if_stack_count f) (if_label_count f)) (ir_code f)"
    using inv by (simp add: fun_inv_def Let_def)
  ultimately show ?thesis
    using assms(2,3) unfolding function_code_def Let_def selected_def regular_def by auto
qed

lemma code_not_empty: "function_code f k items \<Longrightarrow> 0 < items_size items"
proof -
  assume fc: "function_code f k items"
  then obtain xs where "items = Op (Push REG_RBP) # xs"
    by (rule function_codeD) (auto simp: frame_sel_def)
  then show ?thesis by (simp add: rex_prefix_def)
qed

lemma selected_lookup:
  "list_all2 selected qs fs \<Longrightarrow> map_of qs g = Some (f, k) \<Longrightarrow>
   \<exists>addr items. map_of fs g = Some (addr, items) \<and> selected (g, f, k) (g, addr, items)"
proof (induction rule: list_all2_induct)
  case (Cons q qs p fs)
  then show ?case by (cases q; cases p) (auto simp: selected_def split: if_splits)
qed simp

lemma find_by_key:
  "distinct (map h xs) \<Longrightarrow> x \<in> set xs \<Longrightarrow> find (\<lambda>y. h y = h x) xs = Some x"
  by (induction xs) (auto simp: image_iff)

text \<open>Code blocks that do not overlap have entries of their own.\<close>

definition addressable :: "placed_function list \<Rightarrow> bool" where
  "addressable fs \<longleftrightarrow> sorted_wrt (\<lambda>f g. block_of f \<inter> block_of g = {}) fs \<and>
     list_all (\<lambda>(g, addr, items). 0 < items_size items \<and> addr + items_size items < 2 ^ 64) fs"

lemma addressable_distinct: "addressable fs \<Longrightarrow> distinct (map (\<lambda>(g, base, items). of_nat base :: u64) fs)"
proof (induction fs)
  case (Cons p fs)
  obtain g a xs where p: "p = (g, a, xs)" by (cases p)
  have "(of_nat b :: u64) \<noteq> of_nat a" if q: "(h, b, ys) \<in> set fs" for h b ys
  proof -
    have "block_of (g, a, xs) \<inter> block_of (h, b, ys) = {}" "0 < items_size ys" "b + items_size ys < 2 ^ 64"
      "0 < items_size xs" "a + items_size xs < 2 ^ 64"
      using Cons.prems q by (auto simp: addressable_def p list_all_iff)
    then have "a \<noteq> b" "a < 2 ^ 64" "b < 2 ^ 64" by (auto simp: block_of_def)
    then show ?thesis by (auto simp: of_nat_inverse dest: arg_cong [of _ _ unat])
  qed
  moreover have "addressable fs" using Cons.prems by (simp add: addressable_def)
  ultimately show ?case using Cons.IH by (force simp: p)
qed simp

lemma entry_found:
  assumes "addressable fs" "map_of fs g = Some (addr, items)"
  shows "find (\<lambda>(h, base, is). of_nat base = code_entry fs g) fs = Some (g, addr, items)"
  using find_by_key [OF addressable_distinct [OF assms(1)] map_of_SomeD [OF assms(2)]] assms(2)
  by (simp add: code_entry_def case_prod_unfold)

section \<open>Calls\<close>

text \<open>Bytes of stack for one function of the program and those under it.\<close>

lemma stack_use_add: "stack_use f D = stack_use f 0 + D"
  by (simp add: stack_use_def)

theorem calls_correct:
  assumes code: "list_all2 selected P fs" "\<And>g f k addr items. map_of P g = Some (f, k) \<Longrightarrow> map_of fs g = Some (addr, items) \<Longrightarrow> function_code f k items"
    and fs: "addressable fs" and F: "list_all (\<lambda>(g, f, k). stack_use f 0 \<le> F) P"
  shows "d * F < 2 ^ 59 \<Longrightarrow> ir_calls P n d g args = Ret w \<Longrightarrow> \<forall>j < length args. arg_value s j = args ! j \<Longrightarrow>
    \<exists>t. eventually_returns (\<lambda>k. machine_calls fs (code_entry fs) d k ret (code_entry fs g) s) t \<and> mc_regs t REG_RAX = w \<and>
      (\<forall>r\<in>kept_registers. mc_regs t r = mc_regs s r) \<and> changes_below (mc_regs s REG_RSP) (d * F) (mc_mem s) (mc_mem t)"
proof (induction d arbitrary: g args w s ret)
  case (Suc d)
  obtain f k where f: "map_of P g = Some (f, k)" "length args = k"
      "ir_run (ir_calls P n d) n (ir_code f) (ir_code f) (ir_start args) = Ret w"
    using Suc.prems(2) by (auto split: option.splits if_splits)
  obtain addr items where p: "map_of fs g = Some (addr, items)" using selected_lookup [OF code(1) f(1)] by blast
  let ?invoke = "\<lambda>n rest. machine_calls fs (code_entry fs) d n (of_nat (addr + items_size items - items_size rest))"
  have D: "d * F < 2 ^ 59" using Suc.prems(1) by simp
  have ob: "obeys (d * F) (ir_calls P n d) (code_entry fs) ?invoke"
    unfolding obeys_def changes_below_def [symmetric] using Suc.IH [OF D] by blast
  have use: "stack_use f 0 \<le> F" using F map_of_SomeD [OF f(1)] by (auto simp: list_all_iff)
  have args: "\<forall>j < k. arg_value s j = args ! j" using Suc.prems(3) f(2) by simp
  obtain t where t: "eventually_returns (\<lambda>n. call_items (code_entry fs) ?invoke n items ret s) t" "mc_regs t REG_RAX = w"
      "\<forall>r\<in>kept_registers. mc_regs t r = mc_regs s r" "changes_below (mc_regs s REG_RSP) (stack_use f (d * F)) (mc_mem s) (mc_mem t)"
    using function_returns [OF code(2) [OF f(1) p] ob D f(3,2) args] by blast
  have "changes_below (mc_regs s REG_RSP) (Suc d * F) (mc_mem s) (mc_mem t)"
    by (rule changes_below_mono [OF t(4)]) (use use in \<open>simp add: stack_use_add [of f "d * F"]\<close>)
  then show ?case using t(1-3) entry_found [OF fs p] by auto
qed simp

end
