(* ===== verification/ByteMachine.thy ===== *)
theory ByteMachine
  imports ProgramCorrect
begin

text \<open>
  The processor on bytes: it fetches and decodes the instruction at the program counter, and calls and returns
  through the stack. A run of symbolic assembly is followed by a run of the bytes it is assembled
  to, calls included.
\<close>

section \<open>Fetch and execute\<close>

text \<open>An instruction has at most 15 bytes. The result is the instruction and the address behind it.\<close>

definition fetch :: "(nat \<Rightarrow> u8) \<Rightarrow> nat \<Rightarrow> (x86 \<times> nat) option" where
  "fetch mem pc = map_option (\<lambda>(i, rest). (i, pc + (15 - length rest))) (decode (read_bytes pc 15 mem))"

definition byte_step :: "(nat \<Rightarrow> u8) \<Rightarrow> nat \<Rightarrow> machine \<Rightarrow> (nat \<times> machine) outcome" where
  "byte_step mem pc s =
     (case fetch mem pc of
        None \<Rightarrow> Fault Undefined
      | Some (i, after) \<Rightarrow>
          (case i of
             Jmp32 d \<Rightarrow> Ret (unat (of_nat after + scast d :: u64), s)
           | Jcc32 c d \<Rightarrow>
               (case mc_flags s of
                  None \<Rightarrow> Fault Undefined
                | Some f \<Rightarrow> Ret (if condition c f then unat (of_nat after + scast d :: u64) else after, s))
           | CallR r \<Rightarrow> Ret (unat (mc_regs s r), push (of_nat after) s)
           | RetN \<Rightarrow> Ret (unat (load64 (mc_mem s) (mc_regs s REG_RSP)), set_reg REG_RSP (mc_regs s REG_RSP + 8) s)
           | _ \<Rightarrow> obind (exec i s) (\<lambda>s. Ret (after, s))))"

text \<open>The run ends when the program counter is \<open>stop\<close>.\<close>

fun byte_run :: "(nat \<Rightarrow> u8) \<Rightarrow> nat \<Rightarrow> nat \<Rightarrow> nat \<Rightarrow> machine \<Rightarrow> machine outcome" where
  "byte_run mem stop 0 pc s = Timeout"
| "byte_run mem stop (Suc n) pc s =
     (if pc = stop then Ret s else obind (byte_step mem pc s) (\<lambda>(pc, s). byte_run mem stop n pc s))"

inductive walks :: "(nat \<Rightarrow> u8) \<Rightarrow> nat \<Rightarrow> nat \<Rightarrow> machine \<Rightarrow> nat \<Rightarrow> machine \<Rightarrow> bool" for mem stop where
  here: "walks mem stop pc s pc s"
| onward: "pc \<noteq> stop \<Longrightarrow> byte_step mem pc s = Ret (qc, u) \<Longrightarrow> walks mem stop qc u rc t \<Longrightarrow> walks mem stop pc s rc t"

lemma walks_trans [trans]: "walks mem stop pc s qc t \<Longrightarrow> walks mem stop qc t rc u \<Longrightarrow> walks mem stop pc s rc u"
  by (induction rule: walks.induct) (auto intro: walks.onward)

lemma walks_one: "pc \<noteq> stop \<Longrightarrow> byte_step mem pc s = Ret (qc, t) \<Longrightarrow> walks mem stop pc s qc t"
  by (rule walks.onward [OF _ _ walks.here])

lemma walks_run: "walks mem stop pc s qc t \<Longrightarrow> qc = stop \<Longrightarrow> eventually_returns (\<lambda>k. byte_run mem stop k pc s) t"
proof (induction rule: walks.induct)
  case (here pc s)
  have "byte_run mem stop k pc s = Ret s" if "1 \<le> k" for k using that here by (cases k) auto
  then show ?case by (auto simp: eventually_returns_def)
next
  case (onward pc s qc u rc t)
  obtain n where n: "\<forall>k\<ge>n. byte_run mem stop k qc u = Ret t" using onward by (auto simp: eventually_returns_def)
  have "byte_run mem stop k pc s = Ret t" if "Suc n \<le> k" for k
    using that n onward(1,2) by (cases k) auto
  then show ?case by (auto simp: eventually_returns_def)
qed

text \<open>More fuel does not change a result.\<close>

lemma byte_run_mono: "byte_run mem stop n pc s = Ret t \<Longrightarrow> n \<le> m \<Longrightarrow> byte_run mem stop m pc s = Ret t"
proof (induction n arbitrary: m pc s)
  case (Suc n)
  then obtain k where "m = Suc k" "n \<le> k" by (cases m) auto
  then show ?case using Suc.prems(1) Suc.IH by (auto simp: outcome_simps split: if_splits)
qed simp

section \<open>Instructions in memory\<close>

lemma read_bytes_append: "read_bytes a (m + n) mem = read_bytes a m mem @ read_bytes (a + m) n mem"
  using upt_add_eq_append [of a "a + m" n] by (simp add: read_bytes_def add.assoc)

lemma length_read_bytes [simp]: "length (read_bytes a n mem) = n"
  by (simp add: read_bytes_def)

lemma asm_not_empty: "encodable x \<Longrightarrow> asm x \<noteq> []"
  using decode_asm [of x "[]"] by (auto simp: decode_def)

lemma fetch_code:
  assumes "read_bytes pc (length (asm x)) mem = asm x" "encodable x"
  shows "fetch mem pc = Some (x, pc + length (asm x))"
proof -
  let ?n = "length (asm x)"
  have n: "15 = ?n + (15 - ?n)" using asm_length [of x] by simp
  have "read_bytes pc 15 mem = asm x @ read_bytes (pc + ?n) (15 - ?n) mem"
    by (subst n, subst read_bytes_append) (simp only: assms(1))
  then have "decode (read_bytes pc 15 mem) = Some (x, read_bytes (pc + ?n) (15 - ?n) mem)"
    using decode_asm [OF assms(2)] by (simp del: asm.simps)
  then show ?thesis using n by (simp add: fetch_def del: asm.simps)
qed

lemma step_exec: "fetch mem pc = Some (x, after) \<Longrightarrow> exec x s = Ret t \<Longrightarrow> byte_step mem pc s = Ret (after, t)"
  by (cases x) (simp_all add: byte_step_def)

section \<open>Positions in a block\<close>

text \<open>The code of \<open>all\<close> is at \<open>base\<close>, and \<open>stop\<close> is an address outside.\<close>

definition resides :: "(nat \<Rightarrow> u8) \<Rightarrow> nat \<Rightarrow> (string \<Rightarrow> u64) \<Rightarrow> nat \<Rightarrow> item list \<Rightarrow> bool" where
  "resides mem stop entry base all \<longleftrightarrow>
     read_bytes base (items_size all) mem = code (assemble (label_addresses base all) entry base all) \<and>
     list_all encodable (ops all) \<and> items_size all < 2 ^ 31 \<and> base + items_size all < 2 ^ 64 \<and>
     stop \<notin> {base..<base + items_size all}"

lemma resides_item:
  assumes r: "resides mem stop entry base all" and all: "all = pre @ i # is" and pc: "pc = base + items_size pre"
    and c: "item_code (label_addresses base all) entry pc i = [x]"
  shows "fetch mem pc = Some (x, pc + item_size i)" "pc \<noteq> stop" "pc + item_size i \<le> base + items_size all"
proof -
  let ?lab = "label_addresses base all"
  have size: "length (asm x) = item_size i" using length_item_code [of ?lab entry pc i] by (simp add: c)
  have "code (assemble ?lab entry base all) = code (assemble ?lab entry base pre) @ asm x @ code (assemble ?lab entry (pc + item_size i) is)"
    unfolding all assemble_append code_simps assemble.simps pc [symmetric] by (simp add: c [unfolded all] del: item_code.simps)
  moreover have "items_size all = items_size pre + (item_size i + items_size is)" by (simp add: all)
  ultimately have "read_bytes pc (item_size i) mem @ read_bytes (pc + item_size i) (items_size is) mem = asm x @ code (assemble ?lab entry (pc + item_size i) is)"
    using r unfolding resides_def by (simp only: read_bytes_append pc [symmetric]) (simp add: append_eq_append_conv)
  then have bytes: "read_bytes pc (length (asm x)) mem = asm x" by (simp add: append_eq_append_conv size)
  have "list_all encodable (assemble ?lab entry base all)" using r by (intro encodable_ops_code) (simp add: resides_def)
  then have enc: "encodable x" unfolding all assemble_append assemble.simps pc [symmetric] by (simp add: c [unfolded all] del: item_code.simps)
  then show "fetch mem pc = Some (x, pc + item_size i)" using fetch_code [OF bytes enc] by (simp add: size)
  show "pc + item_size i \<le> base + items_size all" by (simp add: all pc)
  moreover have "0 < item_size i" using asm_not_empty [OF enc] size by (cases "asm x") auto
  ultimately show "pc \<noteq> stop" using r by (auto simp: resides_def pc)
qed

text \<open>Labels.\<close>

lemma after_mark_address:
  "after_mark l all \<noteq> [] \<Longrightarrow> \<exists>pre. all = pre @ after_mark l all \<and> label_addresses base all l = Some (base + items_size pre)"
proof (induction all arbitrary: base)
  case (Cons i all)
  show ?case
  proof (cases "i = Mark l")
    case True
    then have "after_mark l (i # all) = all" by (simp add: after_mark_def)
    then show ?thesis using True by (intro exI [of _ "[Mark l]"]) simp
  next
    case False
    then have e: "after_mark l (i # all) = after_mark l all" by (simp add: after_mark_def)
    obtain pre where "all = pre @ after_mark l all" "label_addresses (base + item_size i) all l = Some (base + item_size i + items_size pre)"
      using Cons.IH [of "base + item_size i"] Cons.prems e by auto
    then show ?thesis using False e by (intro exI [of _ "i # pre"]) (auto split: item.split)
  qed
qed (simp add: after_mark_def)

text \<open>A jump arrives at its label.\<close>

lemma jump_target:
  assumes r: "resides mem stop entry base all" and js: "after_mark l all \<noteq> []" and after: "base \<le> after" "after \<le> base + items_size all"
  obtains pre where "all = pre @ after_mark l all"
    "unat (of_nat after + scast (displacement (label_addresses base all) l after) :: u64) = base + items_size pre"
proof -
  obtain pre where pre: "all = pre @ after_mark l all" "label_addresses base all l = Some (base + items_size pre)"
    using after_mark_address [OF js] by blast
  let ?d = "displacement (label_addresses base all) l after"
  have "int after + sint ?d = int (base + items_size pre)"
    by (rule displacement_exact [OF pre(2) _ after]) (use r in \<open>simp add: resides_def\<close>)
  moreover have "(of_nat after + scast ?d :: u64) = of_int (int after + sint ?d)"
    by (simp only: scast_offset of_int_add of_int_of_nat_eq)
  ultimately have "(of_nat after + scast ?d :: u64) = of_nat (base + items_size pre)" by (simp only: of_int_of_nat_eq)
  moreover have "items_size pre \<le> items_size all" by (subst pre(1)) simp
  then have "base + items_size pre < 2 ^ 64" using r by (simp add: resides_def)
  then have "unat (of_nat (base + items_size pre) :: u64) = base + items_size pre"
    by (simp add: unat_of_nat take_bit_nat_eq_self del: of_nat_add)
  ultimately have "unat (of_nat after + scast ?d :: u64) = base + items_size pre" by (simp only:)
  then show thesis using that pre(1) by blast
qed

section \<open>Following symbolic assembly\<close>

lemma item_step_Op:
  "item_step e w all (Op x) is s = Ret (Inl (js, t)) \<Longrightarrow>
     js = is \<and> ((\<exists>r. x = CallR r \<and> w is (mc_regs s r) s = Ret t) \<or> exec x s = Ret t)"
  by (cases x) (auto simp: outcome_simps)

lemma item_step_return:
  "item_step e w all i is s = Ret (Inr (a, t)) \<Longrightarrow>
     i = Op RetN \<and> a = load64 (mc_mem s) (mc_regs s REG_RSP) \<and> t = set_reg REG_RSP (mc_regs s REG_RSP + 8) s"
proof (cases i)
  case (Op x)
  assume "item_step e w all i is s = Ret (Inr (a, t))"
  then show ?thesis by (cases x) (auto simp: Op outcome_simps)
next
  case (Jump c l)
  assume "item_step e w all i is s = Ret (Inr (a, t))"
  then show ?thesis by (cases c) (auto simp: Jump split: option.splits if_splits)
qed simp_all

text \<open>One item that is not the return.\<close>

lemma item_walks:
  assumes r: "resides mem stop entry base all" and all: "all = pre @ i # is"
    and step: "item_step entry w all i is s = Ret (Inl (js, t))" and js: "js \<noteq> []"
    and calls: "\<And>a u. w is a s = Ret u \<Longrightarrow>
      walks mem stop (unat a) (push (of_nat (base + items_size all - items_size is)) s) (base + items_size all - items_size is) u"
  shows "\<exists>pre'. all = pre' @ js \<and> walks mem stop (base + items_size pre) s (base + items_size pre') t"
proof -
  let ?pc = "base + items_size pre" and ?lab = "label_addresses base all"
  have onward: "\<exists>pre'. all = pre' @ js \<and> walks mem stop ?pc s (base + items_size pre') t"
    if "js = is" "walks mem stop ?pc s (?pc + item_size i) t"
    using that all by (intro exI [of _ "pre @ [i]"]) (simp add: add.assoc)
  have jump: "\<exists>pre'. all = pre' @ js \<and> walks mem stop ?pc s (base + items_size pre') t"
    if "js = after_mark l all" "item_code ?lab entry ?pc i = [x]"
      "\<And>qc. fetch mem ?pc = Some (x, ?pc + item_size i) \<Longrightarrow>
        unat (of_nat (?pc + item_size i) + scast (displacement ?lab l (?pc + item_size i)) :: u64) = qc \<Longrightarrow> byte_step mem ?pc s = Ret (qc, t)" for l x
  proof -
    note f = resides_item [OF r all refl that(2)]
    have after: "base \<le> ?pc + item_size i" by simp
    have js': "after_mark l all \<noteq> []" using js that(1) by simp
    obtain pre' where pre': "all = pre' @ after_mark l all"
        "unat (of_nat (?pc + item_size i) + scast (displacement ?lab l (?pc + item_size i)) :: u64) = base + items_size pre'"
      by (rule jump_target [OF r js' after f(3)])
    show ?thesis using walks_one [OF f(2) that(3) [OF f(1) pre'(2)]] pre'(1) that(1) by auto
  qed
  show ?thesis
  proof (cases i)
    case (Op x)
    note f = resides_item [OF r all refl, of x, unfolded Op, simplified]
    note o = item_step_Op [OF step [unfolded Op]]
    show ?thesis
    proof (cases "exec x s = Ret t")
      case True
      show ?thesis
        using walks_one [OF f(2) step_exec [OF f(1) True]] o by (intro onward) (simp_all add: Op)
    next
      case False
      then obtain q where q: "x = CallR q" "w is (mc_regs s q) s = Ret t" using o by blast
      have after: "base + items_size all - items_size is = ?pc + item_size i" by (simp add: all)
      have "byte_step mem ?pc s = Ret (unat (mc_regs s q), push (of_nat (?pc + item_size i)) s)"
        using f(1) by (simp add: byte_step_def q(1) Op del: asm.simps)
      then show ?thesis
        using walks_trans [OF walks_one [OF f(2)] calls [OF q(2), unfolded after]] o by (intro onward) auto
    qed
  next
    case (Jump c l)
    show ?thesis
    proof (cases c)
      case None
      then have "js = after_mark l all" "t = s" using step by (simp_all add: Jump)
      then show ?thesis
        by (intro jump [of l "Jmp32 (displacement ?lab l (?pc + item_size i))"]) (simp_all add: Jump None byte_step_def)
    next
      case (Some cc)
      then obtain g where g: "mc_flags s = Some g" "t = s" "js = (if condition cc g then after_mark l all else is)"
        using step by (auto simp: Jump split: option.splits)
      let ?x = "Jcc32 cc (displacement ?lab l (?pc + item_size i))"
      have x: "item_code ?lab entry ?pc i = [?x]" by (simp add: Jump Some)
      show ?thesis
      proof (cases "condition cc g")
        case True
        then show ?thesis using g x by (intro jump [of l ?x]) (simp_all add: byte_step_def)
      next
        case False
        note f = resides_item [OF r all refl x]
        have "byte_step mem ?pc s = Ret (?pc + item_size i, t)" using f(1) g False by (simp add: byte_step_def)
        then show ?thesis using walks_one [OF f(2)] g(3) False by (intro onward) simp_all
      qed
    qed
  next
    case (CallTo g)
    then have t: "js = is" "t = set_reg REG_RAX (entry g) s" using step by simp_all
    note f = resides_item [OF r all refl, of "MovImm REG_RAX (entry g)", unfolded CallTo, simplified]
    have e: "exec (MovImm REG_RAX (entry g)) s = Ret t" by (simp add: t(2))
    have "walks mem stop ?pc s (?pc + item_size i) t"
      unfolding CallTo item_size.simps by (rule walks_one [OF f(2) step_exec [OF f(1) e]])
    then show ?thesis by (rule onward [OF t(1)])
  next
    case (Mark l)
    then show ?thesis using step by (intro onward) (auto intro: walks.here)
  qed
qed

text \<open>A run up to the return.\<close>

lemma run_walks:
  assumes r: "resides mem stop entry base all"
    and calls: "\<And>n rest a s u. invoke n rest a s = Ret u \<Longrightarrow>
      walks mem stop (unat a) (push (of_nat (base + items_size all - items_size rest)) s)
        (unat (of_nat (base + items_size all - items_size rest) :: u64)) u"
  shows "item_run entry invoke n all is s = Ret (ra, t) \<Longrightarrow> all = pre @ is \<Longrightarrow> walks mem stop (base + items_size pre) s (unat ra) t"
proof (induction n arbitrary: "is" s pre)
  case (Suc n)
  obtain i js where is': "is = i # js" using Suc.prems(1) by (cases "is") auto
  have all: "all = pre @ i # js" using Suc.prems(2) is' by simp
  obtain q where q: "item_step entry (invoke n) all i js s = Ret q"
      "(case q of Inl (is, s) \<Rightarrow> item_run entry invoke n all is s | Inr r \<Rightarrow> Ret r) = Ret (ra, t)"
    using Suc.prems(1) by (auto simp: is' outcome_simps)
  show ?case
  proof (cases q)
    case (Inr p)
    then have p: "p = (ra, t)" using q(2) by simp
    have step: "item_step entry (invoke n) all i js s = Ret (Inr (ra, t))" using q(1) by (simp only: Inr p)
    note o = item_step_return [OF step]
    have op: "item_code (label_addresses base all) entry (base + items_size pre) i = [RetN]" using o by simp
    note f = resides_item [OF r all refl op]
    show ?thesis using f(1,2) o by (intro walks_one) (simp_all add: byte_step_def)
  next
    case (Inl p)
    obtain ks u where p: "p = (ks, u)" by force
    have run: "item_run entry invoke n all ks u = Ret (ra, t)" using q(2) by (simp add: Inl p)
    then have ks: "ks \<noteq> []" by (cases n) auto
    have step: "item_step entry (invoke n) all i js s = Ret (Inl (ks, u))" using q(1) by (simp only: Inl p)
    have small: "base + items_size all - items_size js < 2 ^ 64" using r by (auto simp: resides_def intro: less_imp_diff_less)
    then have ret: "unat (of_nat (base + items_size all - items_size js) :: u64) = base + items_size all - items_size js"
      by (simp add: unat_of_nat take_bit_nat_eq_self)
    obtain pre' where pre': "all = pre' @ ks" "walks mem stop (base + items_size pre) s (base + items_size pre') u"
      using item_walks [OF r all step ks] calls [of n js] unfolding ret by blast
    show ?thesis using walks_trans [OF pre'(2) Suc.IH [OF run pre'(1)]] .
  qed
qed simp

text \<open>Calls, by the depth of calls under them.\<close>

theorem calls_walk:
  assumes fs: "\<And>g base items. (g, base, items) \<in> set fs \<Longrightarrow> resides mem stop entry base items"
  shows "machine_calls fs entry d n ret a s = Ret t \<Longrightarrow> walks mem stop (unat a) (push ret s) (unat ret) t"
proof (induction d arbitrary: n ret a s t)
  case (Suc d)
  obtain g base items where f: "find (\<lambda>(g, base, items). of_nat base = a) fs = Some (g, base, items)"
      and run: "call_items entry (\<lambda>n rest. machine_calls fs entry d n (of_nat (base + items_size items - items_size rest))) n items ret s = Ret t"
    using Suc.prems by (auto split: option.splits)
  have mem: "(g, base, items) \<in> set fs" and a: "a = of_nat base" using f by (auto simp: find_Some_iff dest: nth_mem)
  note r = fs [OF mem]
  have base: "unat a = base" using r unfolding a resides_def by (simp add: unat_of_nat take_bit_nat_eq_self)
  have "item_run entry (\<lambda>n rest. machine_calls fs entry d n (of_nat (base + items_size items - items_size rest))) n items items (push ret s) = Ret (ret, t)"
    using run by (auto simp: call_items_def outcome_simps split: if_splits)
  from run_walks [OF r Suc.IH this, where pre = "[]"] show ?case by (simp add: base)
qed simp

end
