(* ===== verification/Execution.thy ===== *)
theory Execution
  imports ByteMachine Samples
begin

text \<open>
  What the compiled program computes: the theorems that lead from the intermediate code of the files to the
  bytes that the processor of \<open>ByteMachine\<close> executes.
\<close>

section \<open>Programs in memory\<close>

lemma code_entry_resolve:
  "jx_registry ctx = map (\<lambda>(name, pc, is). \<lparr>cf_name = name, cf_addr = pc, cf_size = items_size is\<rparr>) fs \<Longrightarrow>
   code_entry fs = (\<lambda>g. of_nat (resolve (jx_registry ctx) g))"
  by (auto simp: code_entry_def resolve_placed split: option.split)

text \<open>The code is addressed by 64-bit words and does not contain the address \<open>stop\<close>.\<close>

definition in_reach :: "jit \<Rightarrow> nat \<Rightarrow> bool" where
  "in_reach ctx stop \<longleftrightarrow> stop < 2 ^ 64 \<and>
     list_all (\<lambda>f. cf_addr f + cf_size f < 2 ^ 64 \<and> stop \<notin> {cf_addr f..<cf_addr f + cf_size f}) (jx_registry ctx)"

text \<open>Bytes of stack under a call of depth 1.\<close>

definition program_stack :: "ir_program \<Rightarrow> nat" where
  "program_stack P = foldr (\<lambda>(g, f, k). max (stack_use f 0)) P 0"

lemma program_stack_bound: "list_all (\<lambda>(g, f, k). stack_use f 0 \<le> program_stack P) P"
proof -
  have "stack_use f 0 \<le> program_stack P" if "(g, f, k) \<in> set P" for g f k
    using that by (induction P) (auto simp: program_stack_def)
  then show ?thesis by (auto simp: list_all_iff)
qed

lemma translated_lookup:
  "list_all2 (translated stack0) ds P \<Longrightarrow> list_all2 selected P fs \<Longrightarrow> list_all regular P \<Longrightarrow>
   map_of P g = Some (f, k) \<Longrightarrow> map_of fs g = Some (addr, items) \<Longrightarrow> function_code f k items"
proof (induction ds P arbitrary: fs rule: list_all2_induct)
  case (Cons d ds q P)
  obtain p gs where fs: "fs = p # gs" "selected q p" "list_all2 selected P gs" using Cons.prems(1) by (cases fs) auto
  show ?case
  proof (cases "fst q = g")
    case True
    then have "q = (g, f, k)" using Cons.prems(3) by (cases q) auto
    moreover have "p = (g, addr, items)" using Cons.prems(4) True fs by (cases q; cases p) (auto simp: selected_def split: if_splits)
    ultimately show ?thesis using translated_code Cons.hyps(1) fs(2) Cons.prems(2) by auto
  next
    case False
    then have "map_of P g = Some (f, k)" "map_of gs g = Some (addr, items)"
      using Cons.prems(3,4) fs by (cases q; cases p; auto simp: selected_def split: if_splits)+
    then show ?thesis using Cons.IH [OF fs(3)] Cons.prems(2) by simp
  qed
qed simp

lemma selected_size:
  assumes "translated stack0 d q" "selected q (g, addr, items)"
  shows "items_size items < 2 ^ 31"
proof -
  obtain name f k where q: "q = (name, f, k)" by (cases q)
  obtain S0 root errors filename errs where gen: "ir_gen S0 [] root errors filename = Ret (Some f, errs)"
    using assms(1) by (auto simp: q translated_def simp del: ir_gen.simps)
  obtain a where sel: "select_function f k = Ret (items, a)" using assms(2) by (auto simp: q selected_def)
  have "items_size items < MAX_CODE_SIZE" by (rule select_function_size [OF sel ir_gen_compiles(3) [OF gen]])
  then show ?thesis by (simp add: MAX_CODE_SIZE_def)
qed

theorem program_correct:
  assumes P: "list_all2 (translated stack0) ds P" "list_all2 selected P fs" "list_all regular P"
    and reg: "jx_registry ctx = map (\<lambda>(name, pc, is). \<lparr>cf_name = name, cf_addr = pc, cf_size = items_size is\<rparr>) fs"
    and fs: "sorted_wrt (\<lambda>f g. block_of f \<inter> block_of g = {}) fs" "\<forall>f\<in>set fs. loaded ctx f" and reach: "in_reach ctx stop"
    and run: "ir_calls P n d g args = Ret w" "d * program_stack P < 2 ^ 59" and args: "\<forall>j < length args. arg_value s j = args ! j"
  shows "\<exists>t. eventually_returns (\<lambda>k. byte_run (jx_mem ctx) stop k (resolve (jx_registry ctx) g) (push (of_nat stop) s)) t \<and>
    mc_regs t REG_RAX = w \<and> (\<forall>r\<in>kept_registers. mc_regs t r = mc_regs s r) \<and>
    changes_below (mc_regs s REG_RSP) (d * program_stack P) (mc_mem s) (mc_mem t)"
proof -
  let ?entry = "code_entry fs"
  have entry: "?entry = (\<lambda>g. of_nat (resolve (jx_registry ctx) g))" by (rule code_entry_resolve [OF reg])
  have bounds: "addr + items_size items < 2 ^ 64 \<and> stop \<notin> {addr..<addr + items_size items}" if "(h, addr, items) \<in> set fs" for h addr items
    using reach that by (auto simp: in_reach_def reg list_all_iff)
  have member: "\<exists>d q. translated stack0 d q \<and> selected q p \<and> regular q" if p: "p \<in> set fs" for p
  proof -
    obtain i where i: "i < length fs" "p = fs ! i" using p by (auto simp: in_set_conv_nth)
    have n: "i < length P" using list_all2_lengthD [OF P(2)] i(1) by simp
    have "translated stack0 (ds ! i) (P ! i)" by (rule list_all2_nthD2 [OF P(1) n])
    moreover have "selected (P ! i) p" unfolding i(2) by (rule list_all2_nthD [OF P(2) n])
    moreover have "regular (P ! i)" using P(3) n by (simp only: list_all_length)
    ultimately show ?thesis by blast
  qed
  have "0 < items_size items" if "(h, addr, items) \<in> set fs" for h addr items
  proof -
    obtain d0 q where "translated stack0 d0 q" "selected q (h, addr, items)" "regular q" using member [OF \<open>(h, addr, items) \<in> set fs\<close>] by blast
    then show ?thesis by (cases q) (auto dest!: translated_code code_not_empty)
  qed
  then have addressable: "addressable fs" using fs(1) bounds by (auto simp: addressable_def list_all_iff)
  have block: "resides (jx_mem ctx) stop ?entry addr items" if p: "(h, addr, items) \<in> set fs" for h addr items
  proof -
    have "loaded ctx (h, addr, items)" using fs(2) p by blast
    moreover have "items_size items < 2 ^ 31" using member [OF p] selected_size by blast
    ultimately show ?thesis using bounds [OF p] by (auto simp: resides_def loaded_def holds_def image_of_def entry)
  qed
  have "\<exists>t. eventually_returns (\<lambda>k. machine_calls fs ?entry d k (of_nat stop) (?entry g) s) t \<and> mc_regs t REG_RAX = w \<and>
      (\<forall>r\<in>kept_registers. mc_regs t r = mc_regs s r) \<and> changes_below (mc_regs s REG_RSP) (d * program_stack P) (mc_mem s) (mc_mem t)"
    by (rule calls_correct [OF P(2) _ addressable program_stack_bound run(2,1) args]) (rule translated_lookup [OF P]; assumption)
  then obtain t where t: "eventually_returns (\<lambda>k. machine_calls fs ?entry d k (of_nat stop) (?entry g) s) t" "mc_regs t REG_RAX = w"
      "\<forall>r\<in>kept_registers. mc_regs t r = mc_regs s r" "changes_below (mc_regs s REG_RSP) (d * program_stack P) (mc_mem s) (mc_mem t)"
    by blast
  obtain k where k: "machine_calls fs ?entry d k (of_nat stop) (?entry g) s = Ret t" using t(1) by (auto simp: eventually_returns_def)
  have walk: "walks (jx_mem ctx) stop (unat (?entry g)) (push (of_nat stop) s) (unat (of_nat stop :: u64)) t"
    by (rule calls_walk [OF _ k]) (rule block)
  have stop: "unat (of_nat stop :: u64) = stop" using reach by (simp add: in_reach_def unat_of_nat take_bit_nat_eq_self)
  have at: "unat (?entry g) = resolve (jx_registry ctx) g"
  proof (cases "map_of fs g")
    case None
    then show ?thesis by (simp add: code_entry_def reg resolve_placed)
  next
    case (Some p)
    then obtain addr items where p: "p = (addr, items)" "(g, addr, items) \<in> set fs" by (cases p) (auto dest: map_of_SomeD)
    then show ?thesis using Some bounds [OF p(2)] by (simp add: code_entry_def reg resolve_placed unat_of_nat take_bit_nat_eq_self)
  qed
  have "eventually_returns (\<lambda>k. byte_run (jx_mem ctx) stop k (resolve (jx_registry ctx) g) (push (of_nat stop) s)) t"
    using walks_run [OF walk] unfolding at stop by blast
  then show ?thesis using t(2-4) by blast
qed

section \<open>Programs that are run\<close>

text \<open>Calls of functions of \<open>P\<close> return, with the value that the intermediate code has.\<close>

definition executes :: "ir_program \<Rightarrow> jit \<Rightarrow> bool" where
  "executes P ctx \<longleftrightarrow> (\<forall>stop n d g args w s. in_reach ctx stop \<longrightarrow> ir_calls P n d g args = Ret w \<longrightarrow> d * program_stack P < 2 ^ 59 \<longrightarrow>
     (\<forall>j < length args. arg_value s j = args ! j) \<longrightarrow>
     (\<exists>t. eventually_returns (\<lambda>k. byte_run (jx_mem ctx) stop k (resolve (jx_registry ctx) g) (push (of_nat stop) s)) t \<and>
       mc_regs t REG_RAX = w \<and> (\<forall>r\<in>kept_registers. mc_regs t r = mc_regs s r) \<and>
       changes_below (mc_regs s REG_RSP) (d * program_stack P) (mc_mem s) (mc_mem t)))"

lemma run_program_executes:
  assumes sys: "machine_ok sys"
    and run: "run_program sys stack0 run mem mapped units errors = Ret (c, Some r, errs)"
    and P: "translate_units stack0 units 0 errors = Ret (P, e)" "list_all regular P" "ir_call_count P < MAX_CALL_SITES"
  shows "\<exists>ctx. run ctx (resolve (jx_registry ctx) ''main'') = Ret r \<and> executes P ctx"
proof -
  obtain fs ctx where sel: "list_all2 selected P fs" and r: "run ctx (resolve (jx_registry ctx) ''main'') = Ret r"
      and sites: "length (jx_sites ctx) \<le> call_count fs"
      and l: "length (jx_sites ctx) < MAX_CALL_SITES \<Longrightarrow>
        jx_registry ctx = map (\<lambda>(name, pc, is). \<lparr>cf_name = name, cf_addr = pc, cf_size = items_size is\<rparr>) fs \<and>
        sorted_wrt (\<lambda>f g. block_of f \<inter> block_of g = {}) fs \<and> (\<forall>f\<in>set fs. loaded ctx f)"
    using run_program_loads [OF sys run] unfolding P(1) by auto
  note tr = translate_units_translated [OF P(1)]
  have "length (jx_sites ctx) < MAX_CALL_SITES"
    using sites P(3) call_count_translated [OF tr sel] by simp
  then have l': "jx_registry ctx = map (\<lambda>(name, pc, is). \<lparr>cf_name = name, cf_addr = pc, cf_size = items_size is\<rparr>) fs"
      "sorted_wrt (\<lambda>f g. block_of f \<inter> block_of g = {}) fs" "\<forall>f\<in>set fs. loaded ctx f"
    using l by blast+
  have "executes P ctx"
    unfolding executes_def by (intro allI impI, rule program_correct [OF tr sel P(2) l']) simp_all
  then show ?thesis using r by blast
qed

text \<open>The processor as the machine of \<open>run_program\<close>: a call of an address, made from \<open>stop\<close> in the state \<open>s\<close>.\<close>

definition on_processor :: "nat \<Rightarrow> nat \<Rightarrow> machine \<Rightarrow> jit \<Rightarrow> nat \<Rightarrow> i64 outcome" where
  "on_processor k stop s ctx entry =
     (if in_reach ctx stop then obind (byte_run (jx_mem ctx) stop k entry (push (of_nat stop) s)) (\<lambda>t. Ret (mc_regs t REG_RAX))
      else Fault Undefined)"

lemma executes_returns:
  assumes "executes P ctx" "on_processor k stop s ctx (resolve (jx_registry ctx) ''main'') = Ret r"
    and "ir_calls P n d ''main'' [] = Ret w" "d * program_stack P < 2 ^ 59"
  shows "r = w"
proof -
  have reach: "in_reach ctx stop" using assms(2) by (auto simp: on_processor_def split: if_splits)
  let ?run = "\<lambda>k. byte_run (jx_mem ctx) stop k (resolve (jx_registry ctx) ''main'') (push (of_nat stop) s)"
  obtain u where u: "?run k = Ret u" "r = mc_regs u REG_RAX"
    using assms(2) reach by (auto simp: on_processor_def outcome_simps)
  obtain t where t: "eventually_returns ?run t" "mc_regs t REG_RAX = w"
    using assms(1,3,4) reach unfolding executes_def by fastforce
  obtain m where "\<forall>j\<ge>m. ?run j = Ret t" using t(1) by (auto simp: eventually_returns_def)
  then have "?run (max k m) = Ret t" by simp
  then have "u = t" using byte_run_mono [OF u(1), of "max k m"] by simp
  then show ?thesis using u(2) t(2) by simp
qed

text \<open>The context that is run does not depend on what runs it.\<close>

lemma run_program_context:
  assumes "run_program sys stack0 run mem mapped units errors = Ret (c, Some r, errs)"
  shows "\<exists>ctx entry. \<forall>run. run_program sys stack0 run mem mapped units errors = obind (run ctx entry) (\<lambda>r. Ret (c, Some r, errs))"
proof -
  let ?init = "jit_ctx_init (arena_init PROT_RW, mapped) mem"
  obtain ctx e1 where pass: "jit_compile_pass sys stack0 units ?init errors = Ret (True, ctx, e1)"
    using assms by (auto simp: run_program_def outcome_simps split: if_splits)
  obtain ctx1 e2 where link: "jit_link_all ctx e1 = (True, ctx1, e2)"
    using assms by (auto simp: run_program_def outcome_simps pass split: if_splits prod.splits)
  obtain exec where prot: "arena_set_prot sys (snd (jx_exec ctx1)) (fst (jx_exec ctx1)) PROT_RX = (True, exec)"
    using assms by (cases "arena_set_prot sys (snd (jx_exec ctx1)) (fst (jx_exec ctx1)) PROT_RX")
      (auto simp: run_program_def pass link Let_def split: if_splits)
  obtain m where m: "find (\<lambda>f. sv_eq_cstr (cf_name f) ''main'') (jx_registry ctx1) = Some m"
    using assms by (auto simp: run_program_def outcome_simps pass link prot split: option.splits)
  let ?ctx = "ctx1\<lparr>jx_exec := (exec, snd (jx_exec ctx1))\<rparr>"
  have eq: "run_program sys stack0 run mem mapped units errors = obind (run ?ctx (cf_addr m)) (\<lambda>r. Ret (0, Some r, e2))" for run
    by (simp add: run_program_def pass link prot m [simplified])
  then have "c = 0" "errs = e2" using assms by (auto simp: outcome_simps)
  then show ?thesis using eq by blast
qed

lemma run_program_stops:
  assumes "run_program sys stack0 run mem mapped units errors = Ret (c, None, errs)"
  shows "run_program sys stack0 run' mem mapped units errors = Ret (c, None, errs)"
proof -
  let ?init = "jit_ctx_init (arena_init PROT_RW, mapped) mem"
  obtain ok ctx e1 where pass: "jit_compile_pass sys stack0 units ?init errors = Ret (ok, ctx, e1)"
    using assms by (auto simp: run_program_def outcome_simps)
  obtain l ctx1 e2 where link: "jit_link_all ctx e1 = (l, ctx1, e2)" by (metis surj_pair)
  obtain p exec where prot: "arena_set_prot sys (snd (jx_exec ctx1)) (fst (jx_exec ctx1)) PROT_RX = (p, exec)" by force
  show ?thesis
    using assms by (auto simp: run_program_def pass link prot outcome_simps Let_def split: if_splits option.splits)
qed

lemma run_program_decides:
  assumes sys: "machine_ok sys" "grants sys" and ready: "list_all ready_unit units" "length (definitions_of units) \<le> MAX_FUNCTION_COUNT"
    and P: "translate_units stack0 units 0 errors = Ret (P, e)" "list_all regular P" "ir_call_count P < MAX_CALL_SITES"
  shows "if closed_program P
    then \<exists>ctx errs. executes P ctx \<and> error_count errs = error_count errors \<and>
      (\<forall>run. run_program sys stack0 run mem mapped units errors =
         obind (run ctx (resolve (jx_registry ctx) ''main'')) (\<lambda>r. Ret (0, Some r, errs)))
    else \<exists>errs. error_count errors < error_count errs \<and> (\<forall>run. run_program sys stack0 run mem mapped units errors = Ret (1, None, errs))"
proof (cases "closed_program P")
  case True
  let ?go = "\<lambda>run. run_program sys stack0 run mem mapped units errors"
  obtain ctx entry errs where all: "\<And>run. ?go run = obind (run ctx entry) (\<lambda>r. Ret (0, Some r, errs))"
      and errs: "error_count errs = error_count errors"
    using run_program_settles [OF sys ready P(1,3), of mem mapped] True by auto
  let ?this = "\<lambda>c e. if c = ctx \<and> e = entry then Ret (0 :: i64) else Fault Undefined"
  have "?go ?this = Ret (0, Some 0, errs)" by (simp add: all)
  from run_program_executes [OF sys(1) this P] have "entry = resolve (jx_registry ctx) ''main''" "executes P ctx"
    by (auto split: if_splits)
  then show ?thesis using all errs True by auto
next
  case False
  then show ?thesis using run_program_settles [OF sys ready P(1,3), of mem mapped] by simp
qed
text \<open>Where the call of \<open>main\<close> is all that is left, the program ends with its value.\<close>

lemma executes_eventually:
  assumes ex: "executes P ctx" and w: "ir_calls P n d ''main'' [] = Ret w" "d * program_stack P < 2 ^ 59"
    and all: "\<forall>run. run_program sys stack0 run mem mapped units errors =
      obind (run ctx (resolve (jx_registry ctx) ''main'')) (\<lambda>r. Ret (0, Some r, errs))" and reach: "in_reach ctx stop"
  shows "eventually_returns (\<lambda>k. run_program sys stack0 (on_processor k stop s) mem mapped units errors) (0, Some w, errs)"
proof -
  obtain t where "eventually_returns (\<lambda>k. byte_run (jx_mem ctx) stop k (resolve (jx_registry ctx) ''main'') (push (of_nat stop) s)) t"
      "mc_regs t REG_RAX = w"
    using ex w reach unfolding executes_def by fastforce
  then obtain m where "\<forall>k\<ge>m. on_processor k stop s ctx (resolve (jx_registry ctx) ''main'') = Ret w"
    by (auto simp: eventually_returns_def on_processor_def reach) fastforce
  then show ?thesis unfolding eventually_returns_def all [rule_format] by fastforce
qed

section \<open>Properties\<close>

text \<open>C5: The compiler is correct from its intermediate code on. Let the functions of the files translate to
  \<open>P\<close>, with fewer than 1024 calls in it and no function of the kind whose frame the next call overwrites (an odd
  number of slots and a call). If the program is run on the processor model, byte by byte from the entry that the
  registry has for \<open>main\<close>, and \<open>main\<close> has a value in \<open>P\<close> by calls of bounded depth, then the number reported as
  its result is that value.\<close>

theorem compiled_result:
  assumes "machine_ok sys"
    and "run_program sys stack0 (on_processor k stop s) mem mapped units errors = Ret (c, Some r, errs)"
    and "translate_units stack0 units 0 errors = Ret (P, e)" "list_all regular P" "ir_call_count P < MAX_CALL_SITES"
    and "ir_calls P n d ''main'' [] = Ret w" "d * program_stack P < 2 ^ 59"
  shows "r = w"
  using run_program_executes [OF assms(1-5)] executes_returns assms(6,7) by blast

lemma sample_translation:
  "translate_units (\<lambda>_. 0) [sample_unit] 0 error_context_init = Ret ([(''main'', sample_ir, 0)], error_context_init)"
  using sample_ir_gen by (simp add: sample_unit_def sample_main_def)

lemma sample_regular: "list_all regular [(''main'', sample_ir, 0)]" "ir_call_count [(''main'', sample_ir, 0)] < MAX_CALL_SITES"
  "2 * program_stack [(''main'', sample_ir, 0)] < 2 ^ 59"
  by (simp_all add: regular_def sample_ir_def ir_code_def ir_call_count_def MAX_CALL_SITES_def program_stack_def stack_use_def
      instr_of_def)

lemma sample_value: "ir_calls [(''main'', sample_ir, 0)] 2 1 ''main'' [] = Ret 7"
  by (simp add: sample_ir_def ir_code_def ir_start_def numeral_2_eq_2 ir_step_def ir_effect_def ir_value_def set_vreg_def instr_of_def Let_def)

text \<open>The context in which the sample program runs, and the run.\<close>

lemma sample_executes:
  "\<exists>ctx. executes [(''main'', sample_ir, 0)] ctx \<and> in_reach ctx 0 \<and>
    (\<forall>run. run_program sample_system (\<lambda>_. 0) run (\<lambda>_. 0) [] [sample_unit] error_context_init =
       obind (run ctx (resolve (jx_registry ctx) ''main'')) (\<lambda>r. Ret (0, Some r, error_context_init)))"
proof -
  let ?R = "[\<lparr>cf_name = ''main'', cf_addr = 4128, cf_size = items_size sample_items\<rparr>]"
  let ?go = "\<lambda>run. run_program sample_system (\<lambda>_. 0) run (\<lambda>_. 0) [] [sample_unit] error_context_init"
  let ?this = "\<lambda>ctx (entry :: nat). if jx_registry ctx = ?R then Ret (7 :: i64) else Fault Undefined"
  have go: "?go ?this = Ret (0, Some 7, error_context_init)" by (rule sample_run_with) simp
  have "closed_program [(''main'', sample_ir, 0)]" by (simp add: closed_program_def sample_ir_def ir_code_def instr_of_def)
  with run_program_decides [OF sample_machine_ok sample_grants sample_ready sample_translation sample_regular(1,2), of "\<lambda>_. 0" "[]"]
  obtain ctx errs where ctx: "executes [(''main'', sample_ir, 0)] ctx"
      "\<And>run. ?go run = obind (run ctx (resolve (jx_registry ctx) ''main'')) (\<lambda>r. Ret (0, Some r, errs))"
    using go by fastforce
  then have "jx_registry ctx = ?R" "errs = error_context_init" using go by (auto split: if_splits)
  moreover from this have "in_reach ctx 0" using sample_size by (simp add: in_reach_def)
  ultimately show ?thesis using ctx by blast
qed

definition sample_machine :: machine where
  "sample_machine = \<lparr>mc_regs = (\<lambda>_. 2 ^ 40), mc_mem = (\<lambda>_. 0), mc_flags = None\<rparr>"

lemma sample_returns:
  "\<exists>k r. run_program sample_system (\<lambda>_. 0) (on_processor k 0 sample_machine) (\<lambda>_. 0) [] [sample_unit] error_context_init =
     Ret (0, Some r, error_context_init)"
proof -
  obtain ctx where ctx: "executes [(''main'', sample_ir, 0)] ctx" "in_reach ctx 0"
      "\<forall>run. run_program sample_system (\<lambda>_. 0) run (\<lambda>_. 0) [] [sample_unit] error_context_init =
         obind (run ctx (resolve (jx_registry ctx) ''main'')) (\<lambda>r. Ret (0, Some r, error_context_init))"
    using sample_executes by blast
  have "1 * program_stack [(''main'', sample_ir, 0)] < 2 ^ 59" using sample_regular(3) by simp
  from executes_eventually [OF ctx(1) sample_value this ctx(3,2)] show ?thesis
    unfolding eventually_returns_def by blast
qed

theorem compiled_result_witness:
  "\<exists>k r. run_program sample_system (\<lambda>_. 0) (on_processor k 0 sample_machine) (\<lambda>_. 0) [] [sample_unit] error_context_init =
     Ret (0, Some r, error_context_init) \<and> r = 7"
proof -
  obtain k r where run: "run_program sample_system (\<lambda>_. 0) (on_processor k 0 sample_machine) (\<lambda>_. 0) [] [sample_unit] error_context_init =
      Ret (0, Some r, error_context_init)"
    using sample_returns by blast
  have "r = 7"
    by (rule compiled_result [OF sample_machine_ok run sample_translation sample_regular(1,2) sample_value])
      (use sample_regular(3) in simp)
  then show ?thesis using run by blast
qed

text \<open>C4: The code of a function keeps the calling convention, when the function is regular: it has fewer than \<open>2 ^ 27\<close>
  slots, every call finds its arguments, and it makes no call or has an even number of slots. (With an odd number
  the lowest slot lies below the stack pointer, where a call overwrites it.) Let the calls it makes leave their value in
  \<open>rax\<close>, keep the callee-saved registers and write at most \<open>D\<close> bytes under their stack pointer. Then the code
  selected for a function returns to its caller with the value that its intermediate code has on the arguments, with
  \<open>rbx\<close>, \<open>rbp\<close>, \<open>r12\<close> to \<open>r15\<close> and \<open>rsp\<close> as they were, and memory is
  changed at most in its own frame and what its calls may write below it.\<close>

theorem function_keeps_convention:
  assumes "translated stack0 d (g, f, k)" "selected (g, f, k) (g, addr, items)" "regular (g, f, k)"
    and "obeys D callee entry invoke" "D < 2 ^ 59"
    and "ir_run callee n (ir_code f) (ir_code f) (ir_start args) = Ret w" "length args = k" "\<forall>j < k. arg_value s j = args ! j"
  shows "\<exists>t. eventually_returns (\<lambda>n. call_items entry invoke n items ret s) t \<and> mc_regs t REG_RAX = w \<and>
    (\<forall>r\<in>kept_registers. mc_regs t r = mc_regs s r) \<and> changes_below (mc_regs s REG_RSP) (stack_use f D) (mc_mem s) (mc_mem t)"
  by (rule function_returns [OF translated_code [OF assms(1-3)] assms(4-8)])

theorem function_keeps_convention_witness:
  "\<exists>t. eventually_returns (\<lambda>n. call_items (\<lambda>_. 0) (\<lambda>_ _ _ _. Timeout) n sample_items 4096 sample_machine) t \<and> mc_regs t REG_RAX = 7 \<and>
    mc_regs t REG_RSP = 2 ^ 40"
proof -
  have tr: "translated (\<lambda>_. 0) sample_main (''main'', sample_ir, 0)"
    using translate_units_translated [OF sample_translation] by (simp add: definitions_of_def sample_unit_def sample_main_def)
  have sel: "selected (''main'', sample_ir, 0) (''main'', 4128, sample_items)"
    using sample_select by (simp add: selected_def sample_ir_def MAX_LABELS_def)
  have reg: "regular (''main'', sample_ir, 0)" using sample_regular(1) by simp
  have calls: "obeys 0 (\<lambda>_ _. Timeout) (\<lambda>_. 0) (\<lambda>_ _ _ _. Timeout)" by (simp add: obeys_def)
  have run: "ir_run (\<lambda>_ _. Timeout) 2 (ir_code sample_ir) (ir_code sample_ir) (ir_start []) = Ret 7"
    by (simp add: sample_ir_def ir_code_def ir_start_def numeral_2_eq_2 ir_step_def ir_effect_def ir_value_def set_vreg_def instr_of_def Let_def)
  have "REG_RSP \<in> kept_registers" by (simp add: kept_registers_def)
  moreover have "mc_regs sample_machine REG_RSP = 2 ^ 40" by (simp add: sample_machine_def)
  ultimately show ?thesis
    using function_keeps_convention [OF tr sel reg calls _ run, of sample_machine 4096] by fastforce
qed

end
