(* ===== verification/SourceCorrect.thy ===== *)
theory SourceCorrect
  imports GenExecution Execution
begin

text \<open>
  From the source to the processor: functions and programs of the source have in the intermediate code the
  values that they have in the source, and therefore on the processor.
\<close>

section \<open>Functions\<close>

text \<open>The parameters are in the first registers.\<close>

lemma param_layout:
  assumes laid: "laid (if_vreg_count (g_fun g)) g L" and al: "g_alloc g = (Some v, h)" and add: "symbol_table_add (g_symbols h) x v = Ret st"
  shows "laid (Suc v) (h\<lparr>g_symbols := st\<rparr>) ((x, \<lparr>sy_name = x, sy_index = v, sy_is_stack = False, sy_occupied = True\<rparr>) # L)"
proof -
  let ?sb = "\<lparr>sy_name = x, sy_index = v, sy_is_stack = False, sy_occupied = True\<rparr>"
  note h = alloc_Some [OF al]
  have "symbols_ok (g_symbols h)" using laid by (simp add: laid_def h(1))
  note st = symbol_table_add_map [OF this add]
  have "place_of ?sb \<notin> place_of ` snd ` set L"
    using laid by (fastforce simp: laid_def list_all_iff place_of_def h(2))
  then show ?thesis
    using laid st unfolding laid_def list_all_iff h(1,2) by (fastforce simp: image_comp h(2) [symmetric])
qed

lemma gen_params_layout:
  "gen_params g ps = Ret (Some h, h') \<Longrightarrow> laid (if_vreg_count (g_fun g)) g L \<Longrightarrow> env_rel s L E \<Longrightarrow> length vs = length ps \<Longrightarrow>
   \<forall>j < length ps. ir_regs s (if_vreg_count (g_fun g) + j) = Some (vs ! j) \<Longrightarrow>
   ir_code (g_fun h) = ir_code (g_fun g) \<and> gen_errors h = gen_errors g \<and>
   (\<exists>K. laid (if_vreg_count (g_fun h)) h K \<and> env_rel s K (rev (zip (map param_name ps) (map Parameter vs)) @ E))"
proof (induction ps arbitrary: g L E vs)
  case (Cons p ps)
  obtain r a where al: "g_alloc g = (r, a)" by force
  obtain v st where v: "r = Some v" "symbol_table_add (g_symbols a) (param_name p) v = Ret st"
      and rest: "gen_params (a\<lparr>g_symbols := st\<rparr>) ps = Ret (Some h, h')"
    using Cons.prems(1) by (auto simp: al outcome_simps split: option.splits)
  note a = alloc_Some [OF al [unfolded v(1)]]
  obtain w ws where vs: "vs = w # ws" "length ws = length ps" using Cons.prems(4) by (cases vs) auto
  let ?sb = "\<lparr>sy_name = param_name p, sy_index = v, sy_is_stack = False, sy_occupied = True\<rparr>"
  have regs: "ir_regs s v = Some w" "\<forall>j < length ps. ir_regs s (Suc v + j) = Some (ws ! j)"
    using Cons.prems(5) vs by (auto simp: a(2))
  have laid: "laid (Suc v) (a\<lparr>g_symbols := st\<rparr>) ((param_name p, ?sb) # L)"
    by (rule param_layout [OF Cons.prems(2) al [unfolded v(1)] v(2)])
  have count: "if_vreg_count (g_fun (a\<lparr>g_symbols := st\<rparr>)) = Suc v" by (simp add: a(1))
  have env: "env_rel s ((param_name p, ?sb) # L) ((param_name p, Parameter w) # E)"
    using Cons.prems(3) regs(1) by (simp add: stored_def)
  have same: "ir_code (g_fun (a\<lparr>g_symbols := st\<rparr>)) = ir_code (g_fun g)" "gen_errors (a\<lparr>g_symbols := st\<rparr>) = gen_errors g"
    by (simp_all add: a(1) ir_code_def)
  have "laid (if_vreg_count (g_fun (a\<lparr>g_symbols := st\<rparr>))) (a\<lparr>g_symbols := st\<rparr>) ((param_name p, ?sb) # L)"
    "\<forall>j < length ps. ir_regs s (if_vreg_count (g_fun (a\<lparr>g_symbols := st\<rparr>)) + j) = Some (ws ! j)"
    using laid regs(2) by (simp_all only: count)
  from Cons.IH [OF rest this(1) env vs(2) this(2)] same show ?case by (simp add: vs(1))
qed auto

lemma finishes_eventually: "finishes irc prog is s v \<Longrightarrow> \<exists>m. \<forall>k\<ge>m. ir_run (irc k) k prog is s = Ret v"
proof -
  assume "finishes irc prog is s v"
  then obtain m n where f: "\<And>k j. m \<le> k \<Longrightarrow> ir_run (irc k) (n + j) prog is s = Ret v" unfolding finishes_def by blast
  have "ir_run (irc k) k prog is s = Ret v" if "max m n \<le> k" for k using f [of k "k - n"] that by simp
  then show ?thesis by blast
qed

theorem function_simulated:
  assumes follows: "follows callee irc"
    and gen: "ir_gen S0 junk (AstFunction i name ret params (AstBlock j ss) proto) errors filename = Ret (Some f, errs)"
    and clean: "error_count errs = error_count errors" and scoped: "list_all scoped ss"
    and val: "source_call callee n params ss args = Ret w"
  shows "\<exists>m. \<forall>k\<ge>m. ir_run (irc k) k (ir_code f) (ir_code f) (ir_start args) = Ret w"
proof -
  let ?g = "gen_init (ir_function_init S0 name errors filename)"
  obtain g g' G where g: "gen_params ?g params = Ret (Some g, g')" and G: "gen_statements g ss = Ret G" "ir_finish G = Ret (Some f, errs)"
    using gen by (auto simp: outcome_simps split: option.splits)
  have f: "f = g_fun G" "errs = if_errors f" "room f" using ir_finish_room [OF G(2)] by blast+
  obtain fl where args: "length args = length params"
      and fl: "source_exec_all callee n (rev (zip (map param_name params) (map Parameter args))) ss = Ret fl"
      "(case fl of Goes_on E \<Rightarrow> Fault Undefined | Returned v \<Rightarrow> Ret v) = Ret w"
    using val by (auto simp: source_call_def outcome_simps split: if_splits)
  have exec: "source_exec_all callee n (rev (zip (map param_name params) (map Parameter args))) ss = Ret (Returned w)"
    using fl by (cases fl) simp_all
  have init: "laid (if_vreg_count (g_fun ?g)) ?g []" "env_rel (ir_start args) [] []" "if_vreg_count (g_fun ?g) = 1"
    by (auto simp: laid_def gen_init_def ir_function_init_def)
  have "\<forall>j < length params. ir_regs (ir_start args) (if_vreg_count (g_fun ?g) + j) = Some (args ! j)"
    by (simp add: init(3) ir_start_def args)
  from gen_params_layout [OF g init(1,2) args this]
  obtain L where L: "ir_code (g_fun g) = ir_code (g_fun ?g)" "gen_errors g = gen_errors ?g" "laid (if_vreg_count (g_fun g)) g L"
      "env_rel (ir_start args) L (rev (zip (map param_name params) (map Parameter args)))"
    by auto
  have empty: "ir_code (g_fun g) = []" "gen_errors g = error_count errors"
    using L(1,2) by (simp_all add: gen_init_def ir_function_init_def ir_code_def)
  have once: "once G" using ir_gen_inv [OF gen] by (simp add: once_def f(1) fun_inv_def Let_def)
  have "room (g_fun G)" using ir_finish_room [OF G(2)] by metis
  then have leads: "leads G G" by (simp add: leads_def)
  have err: "gen_errors G = gen_errors g" using clean f empty(2) by simp
  have "list_all (simulated callee irc G) ss" by (simp add: statement_simulated [OF follows once] list_all_iff)
  then obtain K where "flows irc G g (ir_start args) (K @ L) G (Returned w)"
    using statements_simulated [OF _ G(1) leads err L(3,4) _ scoped exec] by (auto simp: ir_start_def)
  then have "finishes irc (ir_code f) (ir_code f) (ir_start args) w" by (simp add: f(1) at_def empty(1))
  then show ?thesis by (rule finishes_eventually)
qed

section \<open>Programs\<close>

text \<open>The intermediate code of a definition, translated without an error.\<close>

definition faithful :: "ast \<Rightarrow> string \<times> ir_function \<times> nat \<Rightarrow> bool" where
  "faithful d = (\<lambda>(name, f, k). \<exists>i ret params body S0 errors filename errs. d = AstFunction i name ret params body False \<and>
     ir_gen S0 [] d errors filename = Ret (Some f, errs) \<and> error_count errs = error_count errors \<and> k = length params)"

lemma ir_gen_errors: "ir_gen S0 junk root errors filename = Ret (Some f, errs) \<Longrightarrow> error_count errors \<le> error_count errs"
  using ir_gen_inv extends_error_count by blast

lemma translate_functions_faithful:
  "translate_functions stack0 filename ds m errors = Ret (P, errs) \<Longrightarrow>
   error_count errors \<le> error_count errs \<and> (error_count errs = error_count errors \<longrightarrow> list_all2 faithful (filter is_definition ds) P)"
proof (induction ds arbitrary: m errors P)
  case (Cons d ds)
  obtain i name ret params body proto where d: "d = AstFunction i name ret params body proto"
    using Cons.prems by (cases d) (auto simp del: ir_gen.simps)
  show ?case
  proof (cases proto)
    case True
    then show ?thesis using Cons by (simp add: d)
  next
    case False
    obtain f e Q where gen: "ir_gen (stack0 m) [] d errors filename = Ret (Some f, e)"
        and rest: "translate_functions stack0 filename ds (Suc m) e = Ret (Q, errs)" and P: "P = (name, f, length params) # Q"
      using Cons.prems False by (auto simp: d outcome_simps simp del: ir_gen.simps split: option.splits)
    note e = ir_gen_errors [OF gen] and IH = Cons.IH [OF rest]
    have "faithful d (name, f, length params)" if "error_count e = error_count errors"
      unfolding faithful_def using False d gen that by blast
    then show ?thesis using e IH False by (simp add: P d)
  qed
qed simp

lemma translate_units_faithful:
  "translate_units stack0 units m errors = Ret (P, errs) \<Longrightarrow>
   error_count errors \<le> error_count errs \<and> (error_count errs = error_count errors \<longrightarrow> list_all2 faithful (definitions_of units) P)"
proof (induction units arbitrary: m errors P)
  case (Cons u us)
  show ?case
  proof (cases "cu_parsed_ok u")
    case False
    then show ?thesis using Cons by (simp add: definitions_of_def)
  next
    case True
    obtain ds Q e R where ds: "declarations_of (cu_ast u) = Ret ds" "translate_functions stack0 (cu_name u) ds m errors = Ret (Q, e)"
        and rest: "translate_units stack0 us (m + length Q) e = Ret (R, errs)" and P: "P = Q @ R"
      using Cons.prems True by (auto simp: outcome_simps)
    have "definitions_of (u # us) = filter is_definition ds @ definitions_of us"
      using ds(1) True by (simp add: definitions_of_def)
    then show ?thesis
      using translate_functions_faithful [OF ds(2)] Cons.IH [OF rest] by (auto simp: P intro: list_all2_appendI)
  qed
qed (simp add: definitions_of_def)

lemma source_lookup:
  "list_all2 faithful ds P \<Longrightarrow> source_function ds g = Some (params, ss) \<Longrightarrow>
   \<exists>i ret j S0 errors filename errs f. map_of P g = Some (f, length params) \<and> AstFunction i g ret params (AstBlock j ss) False \<in> set ds \<and>
     ir_gen S0 [] (AstFunction i g ret params (AstBlock j ss) False) errors filename = Ret (Some f, errs) \<and> error_count errs = error_count errors"
proof (induction rule: list_all2_induct)
  case (Cons d ds q P)
  obtain name f k where q: "q = (name, f, k)" by (cases q)
  obtain i ret ps body S0 errors filename errs where d: "d = AstFunction i name ret ps body False"
      and gen: "ir_gen S0 [] d errors filename = Ret (Some f, errs)" "error_count errs = error_count errors" "k = length ps"
    using Cons.hyps(1) by (auto simp: faithful_def q simp del: ir_gen.simps)
  show ?case
  proof (cases "name = g")
    case True
    then obtain j where "body = AstBlock j ss" "ps = params"
      using Cons.prems by (auto simp: d split: ast.splits)
    then have "d = AstFunction i g ret params (AstBlock j ss) False" "map_of (q # P) g = Some (f, length params)"
      using True gen(3) by (simp_all add: d q)
    then show ?thesis using gen(1,2) by (metis list.set_intros(1))
  next
    case False
    then obtain i ret j S0 errors filename errs f where "map_of P g = Some (f, length params)" "AstFunction i g ret params (AstBlock j ss) False \<in> set ds"
        "ir_gen S0 [] (AstFunction i g ret params (AstBlock j ss) False) errors filename = Ret (Some f, errs)" "error_count errs = error_count errors"
      using Cons.IH Cons.prems by (auto simp: d simp del: ir_gen.simps)
    moreover from this have "map_of (q # P) g = Some (f, length params)" using False by (simp add: q)
    ultimately show ?thesis by (metis list.set_intros(2))
  qed
qed simp

theorem program_simulated:
  assumes P: "list_all2 faithful ds P" and scoped: "list_all scoped ds"
  shows "follows (source_calls ds n d) (\<lambda>k. ir_calls P k d)"
proof (induction d)
  case (Suc d)
  show ?case
    unfolding follows_def
  proof (intro allI impI)
    fix g args w assume val: "source_calls ds n (Suc d) g args = Ret w"
    obtain params ss where g: "source_function ds g = Some (params, ss)"
        and call: "source_call (source_calls ds n d) n params ss args = Ret w"
      using val by (auto split: option.splits)
    obtain i ret j S0 errors filename errs f where f: "map_of P g = Some (f, length params)" "AstFunction i g ret params (AstBlock j ss) False \<in> set ds"
        "ir_gen S0 [] (AstFunction i g ret params (AstBlock j ss) False) errors filename = Ret (Some f, errs)" "error_count errs = error_count errors"
      using source_lookup [OF P g] by blast
    have "list_all scoped ss" using f(2) scoped by (force simp: list_all_iff)
    then obtain m where "\<forall>k\<ge>m. ir_run (ir_calls P k d) k (ir_code f) (ir_code f) (ir_start args) = Ret w"
      using function_simulated [OF Suc.IH f(3,4) _ call] by blast
    moreover have "length args = length params" using call by (simp add: source_call_def split: if_splits)
    ultimately show "\<exists>m. \<forall>k\<ge>m. ir_calls P k (Suc d) g args = Ret w" using f(1) by auto
  qed
qed (simp add: follows_def)

text \<open>What is left of \<open>regular\<close> for code that was generated without an error.\<close>

definition framed :: "string \<times> ir_function \<times> nat \<Rightarrow> bool" where
  "framed = (\<lambda>(g, f, k). if_stack_count f + if_vreg_count f < 2 ^ 27 \<and>
     (even (if_stack_count f + if_vreg_count f) \<or> list_all (\<lambda>i. in_op i \<noteq> IR_CALL) (ir_code f)))"

lemma framed_regular: "list_all2 faithful ds P \<Longrightarrow> list_all framed P \<Longrightarrow> list_all regular P"
proof (induction rule: list_all2_induct)
  case (Cons d ds q P)
  obtain g f k where q: "q = (g, f, k)" by (cases q)
  obtain i name ret params body S0 errors filename errs where
      "ir_gen S0 [] (AstFunction i name ret params body False) errors filename = Ret (Some f, errs)" "error_count errs = error_count errors"
    using Cons.hyps(1) by (auto simp: faithful_def q simp del: ir_gen.simps)
  from ir_gen_args [OF this] show ?case using Cons by (auto simp: q framed_def regular_def)
qed simp

lemma ready_functions:
  "list_all (ready filename) ds \<Longrightarrow> \<exists>P errs. translate_functions stack0 filename ds m errors = Ret (P, errs) \<and> error_count errs = error_count errors"
proof (induction ds arbitrary: m errors)
  case (Cons d ds)
  obtain i name ret params body proto where d: "d = AstFunction i name ret params body proto" and t: "\<not> proto \<longrightarrow> translates filename d"
    using Cons.prems unfolding list.pred_inject ready_def by blast
  show ?case
  proof (cases proto)
    case True
    then show ?thesis using Cons by (simp add: d)
  next
    case False
    obtain f e where gen: "ir_gen (stack0 m) [] d errors filename = Ret (Some f, e)" "error_count e = error_count errors"
      using t False unfolding translates_def by blast
    obtain P errs where "translate_functions stack0 filename ds (Suc m) e = Ret (P, errs)" "error_count errs = error_count e"
      using Cons.IH Cons.prems by fastforce
    then show ?thesis using gen False by (simp add: d del: ir_gen.simps)
  qed
qed simp

lemma ready_units:
  "list_all ready_unit units \<Longrightarrow> \<exists>P errs. translate_units stack0 units m errors = Ret (P, errs) \<and> error_count errs = error_count errors"
proof (induction units arbitrary: m errors)
  case (Cons u us)
  show ?case
  proof (cases "cu_parsed_ok u")
    case False
    then show ?thesis using Cons by simp
  next
    case True
    then obtain i ds where ds: "cu_ast u = AstTranslationUnit i ds" "list_all (ready (cu_name u)) ds"
      using Cons.prems by (auto simp: ready_unit_def)
    obtain P e where P: "translate_functions stack0 (cu_name u) ds m errors = Ret (P, e)" "error_count e = error_count errors"
      using ready_functions [OF ds(2)] by blast
    obtain Q errs where "translate_units stack0 us (m + length P) e = Ret (Q, errs)" "error_count errs = error_count e"
      using Cons.IH Cons.prems by fastforce
    then show ?thesis using P True by (simp add: ds(1))
  qed
qed simp

lemma source_value_ir:
  assumes "translate_units stack0 units 0 errors = Ret (P, e)" "error_count e = error_count errors"
    and "list_all scoped (definitions_of units)" "source_calls (definitions_of units) n d g args = Ret w"
  obtains m where "ir_calls P m d g args = Ret w"
proof -
  have "list_all2 faithful (definitions_of units) P" using translate_units_faithful [OF assms(1)] assms(2) by blast
  from program_simulated [OF this assms(3)] obtain m where "\<forall>k\<ge>m. ir_calls P k d g args = Ret w"
    using assms(4) unfolding follows_def by blast
  then show thesis using that by blast
qed

section \<open>Properties\<close>

text \<open>C1: The compiler is correct. Let the function definitions of the files be translated without an error to \<open>P\<close>, with
  fewer than 1024 calls, no declaration as the body of a conditional or loop, and no function of the kind whose frame the
  next call overwrites (an odd number of slots and a call). If \<open>main\<close> has a value by the meaning of the source
  trees, and the program is run on the processor model, byte by byte from the entry the registry has for \<open>main\<close>, then
  the number reported as its result is that value.\<close>

theorem compiler_correct:
  assumes sys: "machine_ok sys"
    and run: "run_program sys stack0 (on_processor k stop s) mem mapped units errors = Ret (c, Some r, errs)"
    and P: "translate_units stack0 units 0 errors = Ret (P, e)" "error_count e = error_count errors" "list_all framed P"
      "ir_call_count P < MAX_CALL_SITES"
    and source: "list_all scoped (definitions_of units)" "source_calls (definitions_of units) n d ''main'' [] = Ret w"
      "d * program_stack P < 2 ^ 59"
  shows "r = w"
proof -
  have "list_all2 faithful (definitions_of units) P" using translate_units_faithful [OF P(1)] P(2) by blast
  then have regular: "list_all regular P" using P(3) by (rule framed_regular)
  obtain m where "ir_calls P m d ''main'' [] = Ret w" by (rule source_value_ir [OF P(1,2) source(1,2)])
  then show ?thesis
    using run_program_executes [OF sys run P(1) regular P(4)] executes_returns source(3) by blast
qed

lemma sample_source: "source_calls [sample_main] 0 1 ''main'' [] = Ret 7"
  unfolding sample_main_def by code_simp

lemma sample_definitions: "definitions_of [sample_unit] = [sample_main]" "list_all scoped [sample_main]" "list_all framed [(''main'', sample_ir, 0)]"
  by (simp_all add: definitions_of_def sample_unit_def sample_main_def framed_def sample_ir_def ir_code_def instr_of_def)

theorem compiler_correct_witness:
  "\<exists>k r. run_program sample_system (\<lambda>_. 0) (on_processor k 0 sample_machine) (\<lambda>_. 0) [] [sample_unit] error_context_init =
     Ret (0, Some r, error_context_init) \<and> r = 7"
proof -
  obtain k r where run: "run_program sample_system (\<lambda>_. 0) (on_processor k 0 sample_machine) (\<lambda>_. 0) [] [sample_unit] error_context_init =
      Ret (0, Some r, error_context_init)"
    using sample_returns by blast
  have "r = 7"
    by (rule compiler_correct [OF sample_machine_ok run sample_translation refl sample_definitions(3) sample_regular(2)
          sample_definitions(2) [folded sample_definitions(1)] sample_source [folded sample_definitions(1)]])
      (use sample_regular(3) in simp)
  then show ?thesis using run by blast
qed

text \<open>C2: Clean programs compute. Let memory be granted, let the files have at most 256 function definitions and let
  each of them translate without a diagnostic, with fewer than 1024 calls in all, no declaration as
  the body of a conditional or loop, and no function of the kind whose frame the next call overwrites (an odd
  number of slots and a call). If \<open>main\<close> has a value by the meaning of the source trees, then: when every function called is
  defined, there is one context in which \<open>main\<close> is called whatever executes it, no diagnostic is added, and the
  processor returns from that call with that value, given enough steps, from every state
  and to every address outside of the code; otherwise an error is reported and the exit code is 1.\<close>

theorem clean_programs_compute:
  assumes "machine_ok sys" "grants sys" "list_all ready_unit units" "length (definitions_of units) \<le> MAX_FUNCTION_COUNT"
    and P: "translate_units stack0 units 0 errors = Ret (P, e)" "list_all framed P" "ir_call_count P < MAX_CALL_SITES"
    and source: "list_all scoped (definitions_of units)" "source_calls (definitions_of units) n d ''main'' [] = Ret w"
      "d * program_stack P < 2 ^ 59"
  shows "if closed_program P
    then \<exists>ctx errs. error_count errs = error_count errors \<and>
      (\<forall>run. run_program sys stack0 run mem mapped units errors =
         obind (run ctx (resolve (jx_registry ctx) ''main'')) (\<lambda>r. Ret (0, Some r, errs))) \<and>
      (\<forall>stop s. in_reach ctx stop \<longrightarrow>
         eventually_returns (\<lambda>k. run_program sys stack0 (on_processor k stop s) mem mapped units errors) (0, Some w, errs))
    else \<exists>errs. error_count errors < error_count errs \<and> (\<forall>run. run_program sys stack0 run mem mapped units errors = Ret (1, None, errs))"
proof -
  have clean: "error_count e = error_count errors" using ready_units [OF assms(3), of stack0 0 errors] P(1) by auto
  then have "list_all2 faithful (definitions_of units) P" using translate_units_faithful [OF P(1)] by blast
  then have regular: "list_all regular P" using P(2) by (rule framed_regular)
  obtain m where m: "ir_calls P m d ''main'' [] = Ret w" by (rule source_value_ir [OF P(1) clean source(1,2)])
  note decides = run_program_decides [OF assms(1-4) P(1) regular P(3), of mem mapped]
  show ?thesis
  proof (cases "closed_program P")
    case True
    then show ?thesis using decides [unfolded if_P [OF True]] executes_eventually [OF _ m source(3)]
      unfolding if_P [OF True] by blast
  next
    case False
    then show ?thesis using decides by simp
  qed
qed

theorem clean_programs_compute_witness:
  "\<exists>k. run_program sample_system (\<lambda>_. 0) (on_processor k 0 sample_machine) (\<lambda>_. 0) [] [sample_unit] error_context_init =
     Ret (0, Some 7, error_context_init)"
proof -
  obtain ctx where ctx: "in_reach ctx 0"
      "\<And>run. run_program sample_system (\<lambda>_. 0) run (\<lambda>_. 0) [] [sample_unit] error_context_init =
         obind (run ctx (resolve (jx_registry ctx) ''main'')) (\<lambda>r. Ret (0, Some r, error_context_init))"
    using sample_executes by blast
  let ?here = "\<lambda>c e. if c = ctx \<and> e = resolve (jx_registry ctx) ''main'' then Ret (0 :: i64) else Fault Undefined"
  have depth: "1 * program_stack [(''main'', sample_ir, 0)] < 2 ^ 59" using sample_regular(3) by simp
  have closed: "closed_program [(''main'', sample_ir, 0)]" by (simp add: closed_program_def sample_ir_def ir_code_def instr_of_def)
  from clean_programs_compute [OF sample_machine_ok sample_grants sample_ready sample_translation sample_definitions(3) sample_regular(2)
      sample_definitions(2) [folded sample_definitions(1)] sample_source [folded sample_definitions(1)] depth, unfolded if_P [OF closed], of "\<lambda>_. 0" "[]"]
  obtain ctx' errs where c: "\<And>run. run_program sample_system (\<lambda>_. 0) run (\<lambda>_. 0) [] [sample_unit] error_context_init =
         obind (run ctx' (resolve (jx_registry ctx') ''main'')) (\<lambda>r. Ret (0, Some r, errs))"
      "in_reach ctx' 0 \<Longrightarrow> eventually_returns (\<lambda>k. run_program sample_system (\<lambda>_. 0) (on_processor k 0 sample_machine) (\<lambda>_. 0) []
         [sample_unit] error_context_init) (0, Some 7, errs)"
    by blast
  have "ctx' = ctx" "errs = error_context_init"
    using c(1) [of ?here] ctx(2) [of ?here] by (auto split: if_splits)
  then show ?thesis using c(2) ctx(1) by (auto simp: eventually_returns_def)
qed

text \<open>C3: The generator is correct. When the functions that are called have in the intermediate code the values that they
  have in the source, then so has a function that is translated without an error: if its body returns a value on some
  arguments, running its intermediate code on them returns that value, whatever loops, branches, blocks and
  shadowed variables it has, given enough steps.\<close>

theorem generated_code_correct:
  assumes "follows callee irc"
    and "ir_gen S0 junk (AstFunction i name ret params (AstBlock j ss) proto) errors filename = Ret (Some f, errs)"
    and "error_count errs = error_count errors" "list_all scoped ss"
    and "source_call callee n params ss args = Ret w"
  shows "\<exists>m. \<forall>k\<ge>m. ir_run (irc k) k (ir_code f) (ir_code f) (ir_start args) = Ret w"
  by (rule function_simulated [OF assms])

theorem generated_code_correct_witness:
  "\<exists>m. \<forall>k\<ge>m. ir_run (\<lambda>_ _. Timeout) k (ir_code sample_ir) (ir_code sample_ir) (ir_start []) = Ret 7"
proof -
  have follows: "follows (\<lambda>_ _. Timeout) (\<lambda>_ _ _. Timeout)" by (simp add: follows_def)
  have val: "source_call (\<lambda>_ _. Timeout) 0 [] [AstReturn zero_info (AstNumber zero_info ''7'')] [] = Ret 7" by code_simp
  show ?thesis
    using generated_code_correct [OF follows sample_ir_gen [unfolded sample_main_def] refl _ val] by simp
qed

text \<open>What a loop means, on an example: the sum of the first numbers.\<close>

definition triangle :: ast where
  "triangle =
     (let v = AstIdentifier (zero_info\<lparr>value_type := TYPE_INT\<rparr>); i = zero_info\<lparr>value_type := TYPE_INT\<rparr> in
      AstFunction i ''triangle'' TYPE_INT [\<lparr>param_name = ''n'', param_type = TYPE_INT\<rparr>]
       (AstBlock zero_info
         [AstVarDecl i ''s'' TYPE_INT (AstNumber i ''0''),
          AstWhile zero_info (v ''n'')
            (AstBlock zero_info
              [AstAssignment i ''s'' (AstBinary AST_ADD i (v ''s'') (v ''n'')),
               AstAssignment i ''n'' (AstBinary AST_SUB i (v ''n'') (AstNumber i ''1''))]),
          AstReturn i (v ''s'')]) False)"

lemma triangle_value: "source_calls [triangle] 5 1 ''triangle'' [4] = Ret 10" "scoped triangle"
  by code_simp+

end
