(* ===== verification/Spec2Isabelle.thy ===== *)
theory Spec2Isabelle
  imports FrontEnd BackEnd MachineCode Runtime SourceCorrect
begin

text \<open>
  A model of tinyCompile, a compiler for a subset of C. It maps source files into memory, parses and
  analyses them, translates each function to an intermediate code, turns that into x86-64 machine code in
  executable memory, links the calls between functions and calls the \<open>main\<close> it has compiled. Paths of C files are
  relative to \<open>src/\<close>.

  \<^bold>\<open>The program and its theories.\<close> Every component has a theory with its data and operations, in the order of
  the code, and one or more theories of facts.

  \<^item> Limits and types: \<open>incs/defines.h\<close> is \<open>Limits\<close>; \<open>incs/types.def\<close>, \<open>srcs/parser/type_helpers.c\<close>
    and the helpers of \<open>incs/ast.h\<close> are \<open>CTypes\<close>. \<open>Prelude\<close> holds the machine integers, the outcomes
    of fallible code and the shared lemmas.
  \<^item> Text: \<open>incs/string_view.h\<close> is \<open>StringView\<close>; a view is the string it shows. \<open>incs/lexer_tokens.def\<close> is
    \<open>Tokens\<close>, \<open>srcs/lexer/*.c\<close> is \<open>Lexer\<close>, with positions as indices into the mapped file.
  \<^item> Diagnostics: \<open>srcs/error_handler/error_handler.c\<close> is \<open>Diagnostics\<close>, a list of messages with its counters.
  \<^item> Parser: \<open>srcs/parser/*.c\<close> with \<open>incs/ast.h\<close> is \<open>Ast\<close> and \<open>Parser\<close>. A parser state holds the lexer, two
    tokens of lookahead, the panic flag and the diagnostics. The mutual recursion of expressions and statements
    is tied by fuel.
  \<^item> Analysis: \<open>srcs/semantic/semantic.c\<close> is \<open>Semantic\<close>, with its chain of scopes and its table of
    functions. \<open>HashTable\<close> is the open addressing that scopes and the generator's symbol table share.
  \<^item> Intermediate code: \<open>incs/ir.h\<close>, \<open>incs/ir_ops.def\<close> and \<open>srcs/ir/ir_print.c\<close> are \<open>Ir\<close>;
    \<open>srcs/ir/ir_symboltable.c\<close> is \<open>SymbolTable\<close>, with the log that scopes are undone from;
    \<open>srcs/ir/ir_gen.c\<close> is \<open>IrGen\<close>.
  \<^item> Memory: \<open>incs/memarena.h\<close> is \<open>Arena\<close>.
  \<^item> Code generator: \<open>srcs/jit/emit.c\<close> is \<open>X86\<close>; \<open>srcs/jit/helpers.c\<close>, \<open>encoders.c\<close> and \<open>jit.c\<close> are
    \<open>Jit\<close>. Every encoder is run twice, with a NULL buffer to measure and with a buffer to write, as in the code.
  \<^item> Driver: \<open>srcs/cleanup/cleanup.c\<close> is \<open>Resources\<close>, \<open>srcs/validation/validation.c\<close> and \<open>incs/bounds.h\<close>
    are \<open>Validation\<close>, \<open>srcs/compile/compile.c\<close>, \<open>srcs/main.c\<close>, \<open>srcs/utils.c\<close> and \<open>jit_compile_pass\<close>
    are \<open>Driver\<close>.

  \<^bold>\<open>Conventions.\<close> State is passed explicitly, records stand for structs with a prefix for each field, and
  enumerations are datatypes. Fallible code returns an \<open>outcome\<close>: \<open>Ret\<close> a result, \<open>Timeout\<close> when fuel is exhausted,
  or \<open>Fault\<close> with what went wrong: a NULL pointer read (\<open>NullDeref\<close>), an index out of its array (\<open>OutOfBounds\<close>), a value
  that C leaves undefined (\<open>Undefined\<close>), a processor trap, \<open>abort\<close> or \<open>exit\<close>. So a theorem that ends in \<open>Ret\<close> says
  that none of these happens. Machine words are \<open>u8\<close>, \<open>u16\<close>, \<open>u32\<close>, \<open>u64\<close>; addresses in the
  compiler are natural numbers with 0 for NULL, those of the processor are 64-bit words.

  \<^bold>\<open>What is proved.\<close> Front end (\<open>LexerFacts\<close>, \<open>ParserFacts\<close>, \<open>StatementFacts\<close>, \<open>SemanticFacts\<close>,
  \<open>FrontEnd\<close>): the lexer stays inside the file, makes progress and reads printed tokens back; the parser terminates
  on every input and reports an error or returns a complete tree; on files without
  a comparison by \<open>>\<close> and without an assignment used as a value, two forms the code does not look into, the analysis accepts
  exactly what a declarative type system accepts; and it reads no NULL pointer of a tree that was parsed without error.
  The rules of the type system come in two readings, those of the \<open>Language\<close> and those of the \<open>Analyser\<close>, which differ
  in these forms; \<open>greater_rejected\<close> is a typed program that the analysis rejects. Its scopes refine
  maps, through the locales \<open>open_table\<close>, \<open>expr_parser\<close>, \<open>progressing_expr_parser\<close> and \<open>stmt_parser\<close>, each
  interpreted on the routines of the model.

  Generator (\<open>IrGenFacts\<close>, \<open>IrStatementFacts\<close>, \<open>IrCalls\<close>, \<open>BackEnd\<close>): the intermediate code is complete and well
  formed, and replaying the log of the symbol table restores it.

  Code generator (\<open>Asm\<close>, \<open>JitSpec\<close>, \<open>JitFacts\<close>, \<open>JitRefine\<close>, \<open>RegAlloc\<close>, \<open>CodeImage\<close>, \<open>CodeShape\<close>,
  \<open>CodeSize\<close>, \<open>Linking\<close>, \<open>Program\<close>, \<open>Progress\<close>, \<open>MachineCode\<close>): an instruction set with a decoder, and
  instruction selection as a function to symbolic assembly, are the specification. Every encoder refines
  selection; both passes agree; what is in memory decodes to the selected code with all jumps and calls in place;
  virtual registers never share a location; linking succeeds exactly when every callee is defined; and a program that
  translates cleanly is run exactly when it is closed (\<open>closed_program\<close>): it has a \<open>main\<close> and defines what it calls.

  Meaning of the source (\<open>SourceSemantics\<close>, \<open>GenCorrect\<close>, \<open>GenStatements\<close>, \<open>GenExecution\<close>, \<open>SourceCorrect\<close>): an
  interpreter for the syntax trees with bindings in scope as a stack, and the proof that \<open>ir_gen\<close> preserves what it says.
  \<open>laid\<close> relates the symbol table to the bindings, \<open>computes\<close> is the contract of the expression routines and \<open>flows\<close> that
  of the statement routines; positions in the finished code are the states the generator was in.

  Execution (\<open>Processor\<close>, \<open>IrSemantics\<close>, \<open>Operands\<close>, \<open>Frame\<close>, \<open>Simulation\<close>, \<open>SimStep\<close>, \<open>CodeMap\<close>,
  \<open>ItemMachine\<close>, \<open>CallSequence\<close>, \<open>FunctionRun\<close>, \<open>FunctionCall\<close>, \<open>FunctionCorrect\<close>, \<open>ProgramCorrect\<close>, \<open>ByteMachine\<close>,
  \<open>Execution\<close>): the instructions and the intermediate code are given meanings, and the code of a function
  simulates its intermediate code step by step, prologue, calls and epilogue included, first as symbolic
  assembly and then as bytes that are fetched and decoded. The result, in \<open>SourceCorrect\<close>: what \<open>main\<close> returns on the
  processor is the value of the source.

  Run-time support (\<open>ArenaFacts\<close>, \<open>Allocation\<close>, \<open>Runtime\<close>): allocations are aligned, mapped and
  disjoint, temporary memory is given back, all resources are released on every path of \<open>main\<close>, and its exit code is
  described. \<open>Samples\<close> has the machine and the program on which the properties are tried out, \<open>SampleCalls\<close> a program of two
  files with a loop and a call.

  \<^bold>\<open>Parameters.\<close> The operating system and the C library are arguments: \<open>system\<close> has \<open>mmap\<close>, \<open>mprotect\<close>
  and the page size, \<open>os\<close> the files. Assumptions on them are named: \<open>system_ok\<close> (a fresh mapping is
  page-aligned and overlaps nothing), \<open>machine_ok\<close> (pages of at most \<open>2 ^ 63\<close> bytes), \<open>grants\<close> (memory and
  protection are never refused). \<open>run\<close> is what the call of the compiled \<open>main\<close> does; \<open>on_processor\<close> is the instance
  that executes the bytes. \<open>stack0\<close> is the initial \<open>stack_count\<close> of each \<open>IRFunction\<close>, which the code does not
  set.

  \<^bold>\<open>Bounds and fuel.\<close> The parser gets the length of the text plus two, which is proved to be enough. Statement and
  expression trees are finite and need no fuel. The code of a function is smaller than \<open>2 ^ 27\<close> bytes (at most 65536
  instructions of at most a kilobyte), so that arena sizes and displacements do not overflow. Call sites beyond
  1024 are dropped by the code, so theorems on linked programs ask for fewer; functions with 512 labels or more do not
  compile; there are at most 256 functions. The execution theorems ask for frames of fewer than \<open>2 ^ 27\<close> slots and for
  fewer than \<open>2 ^ 59\<close> bytes of stack at the depth reached; \<open>byte_run\<close> has fuel, and they prove that it
  suffices. An instruction is fetched from 15 bytes, the longest there is.

  \<^bold>\<open>The source language.\<close> Expressions are computed with 64 bits, as the generated code does; only local variables are narrowed,
  when they are read, to the type of the node. Every loop of \<open>source_exec\<close> has fuel, calls have a bound on their depth, and the
  theorems hold for every bound with which the source has a value. \<open>scoped\<close> excludes declarations as the branch of a
  conditional or the body of a loop, which the generator leaves in scope.

  \<^bold>\<open>The processor.\<close> Code and data are separate memories: the code is the memory the compiler wrote, which is
  protected against writing before it runs. Flags are undefined except after a comparison or a test, and reading
  them then is a fault. In the intermediate code an undefined register or slot is a fault, so the
  theorems speak about programs that do not read one. \<open>regular\<close> and \<open>framed\<close> exclude functions that have calls and an
  odd number of slots: their lowest slot lies under the stack pointer, and calls overwrite it, which is a bug of the
  code (\<open>frame_bounds\<close>).

  \<^bold>\<open>Not modelled.\<close> The banner and the progress messages, which are output only; the tests and the Makefile; failure of
  allocations in the data arenas, which the code does not check everywhere; duplicated copies of constants; the box that the
  dump of the intermediate code is drawn in, and the number it would print for an operation without a format, of which there
  is none; the messages on stderr of a failed bounds check; in \<open>cleanup\<close>, the printing of the diagnostics and the
  release of the three arenas. Sizes in the arena are natural numbers; the properties bound them so that the
  \<open>size_t\<close> of the code does not wrap (\<open>request_fits\<close>).
\<close>

end
